(* ===== verification/Prelude.thy ===== *)
theory Prelude
  imports Main
begin

text \<open>
  Shared conventions of the development.

  The modelled code is C. This theory fixes once how its base types and the parts of the C
  library it calls appear in HOL:
  \<^item> \<open>addr\<close>: an address; \<open>NULL\<close> is 0.
  \<^item> \<open>size_t\<close> values are \<open>nat\<close> below \<open>2 ^ 64\<close>; \<open>size_add\<close> and \<open>size_sub\<close> wrap as the
    64-bit type does. \<open>c_int\<close> is the conversion of a wider value to a 32-bit \<open>int\<close>.
  \<^item> \<open>char\<close> is HOL's 8-bit \<open>char\<close>; \<open>schar\<close> reads it as the signed \<open>char\<close> of the
    platform. A NUL-terminated C string is the list of the characters before its terminator,
    so \<open>cchar_at s i\<close> reads the terminator at \<open>i = length s\<close>.
  \<^item> The \<open>ctype.h\<close> and \<open>string.h\<close> functions the sources use, in the "C" locale.
  \<^item> Undefined behaviour (an access outside an object) is the value \<open>None\<close> of an option.
\<close>

named_theorems csize_simps \<open>arithmetic on size_t below the wrap-around\<close>
named_theorems cstring_simps \<open>facts on the C string functions\<close>

type_synonym addr = nat

abbreviation (input) NULL :: addr where
  "NULL \<equiv> 0"


section \<open>Integers\<close>

definition size_max :: nat where
  "size_max = 2 ^ 64"

definition size_add :: "nat \<Rightarrow> nat \<Rightarrow> nat" where
  "size_add a b = (a + b) mod 2 ^ 64"

definition size_sub :: "nat \<Rightarrow> nat \<Rightarrow> nat" where
  "size_sub a b = (a + (2 ^ 64 - b mod 2 ^ 64)) mod 2 ^ 64"

definition c_int :: "int \<Rightarrow> int" where
  "c_int x = (x + 2 ^ 31) mod 2 ^ 32 - 2 ^ 31"

definition INT_MAX :: int where
  "INT_MAX = 2 ^ 31 - 1"

lemma size_add_exact [csize_simps]: "a + b < 2 ^ 64 \<Longrightarrow> size_add a b = a + b"
  by (simp add: size_add_def)

lemma size_sub_exact [csize_simps]:
  assumes "b \<le> a" and "a < 2 ^ 64"
  shows "size_sub a b = a - b"
proof -
  from assms have "a + (2 ^ 64 - b mod 2 ^ 64) = (a - b) + 2 ^ 64" by simp
  moreover from assms have "a - b < 2 ^ 64" by simp
  ultimately show ?thesis by (simp add: size_sub_def)
qed

lemma size_add_bound: "size_add a b < 2 ^ 64"
  by (simp add: size_add_def)

lemma c_int_exact: "- (2 ^ 31) \<le> x \<Longrightarrow> x < 2 ^ 31 \<Longrightarrow> c_int x = x"
  by (simp add: c_int_def)

lemma c_int_range: "- (2 ^ 31) \<le> c_int x" "c_int x < 2 ^ 31"
  by (simp_all add: c_int_def)


section \<open>Characters\<close>

abbreviation code :: "char \<Rightarrow> nat" where
  "code c \<equiv> of_char c"

abbreviation NUL :: char where
  "NUL \<equiv> CHR 0x00"

definition schar :: "char \<Rightarrow> int" where
  "schar c = (if code c < 128 then int (code c) else int (code c) - 256)"

definition isdigit :: "char \<Rightarrow> bool" where
  "isdigit c \<longleftrightarrow> 48 \<le> code c \<and> code c \<le> 57"

definition isupper :: "char \<Rightarrow> bool" where
  "isupper c \<longleftrightarrow> 65 \<le> code c \<and> code c \<le> 90"

definition islower :: "char \<Rightarrow> bool" where
  "islower c \<longleftrightarrow> 97 \<le> code c \<and> code c \<le> 122"

definition isalpha :: "char \<Rightarrow> bool" where
  "isalpha c \<longleftrightarrow> isupper c \<or> islower c"

definition isalnum :: "char \<Rightarrow> bool" where
  "isalnum c \<longleftrightarrow> isalpha c \<or> isdigit c"

definition isxdigit :: "char \<Rightarrow> bool" where
  "isxdigit c \<longleftrightarrow> isdigit c \<or> (65 \<le> code c \<and> code c \<le> 70) \<or> (97 \<le> code c \<and> code c \<le> 102)"

definition isspace :: "char \<Rightarrow> bool" where
  "isspace c \<longleftrightarrow> code c = 32 \<or> (9 \<le> code c \<and> code c \<le> 13)"

definition tolower :: "char \<Rightarrow> char" where
  "tolower c = (if isupper c then char_of (code c + 32) else c)"

lemma code_char_of_small [simp]: "n < 256 \<Longrightarrow> code (char_of n :: char) = n"
  by simp

lemma code_eq_0_iff [simp]: "code c = 0 \<longleftrightarrow> c = NUL"
proof -
  have "code NUL = 0" by simp
  then show ?thesis by (metis of_char_eq_iff)
qed

lemma code_tolower_eq_0_iff [simp]: "code (tolower c) = 0 \<longleftrightarrow> c = NUL"
proof (cases "isupper c")
  case True
  then have "code (tolower c) = code c + 32" and "code c \<noteq> 0"
    by (auto simp: tolower_def isupper_def)
  then show ?thesis by simp
next
  case False
  then show ?thesis by (simp add: tolower_def)
qed


section \<open>C strings\<close>

definition nul_free :: "string \<Rightarrow> bool" where
  "nul_free s \<longleftrightarrow> list_all (\<lambda>c. c \<noteq> NUL) s"

text \<open>The character at an index of a C string: its terminator at the end.\<close>

definition cchar_at :: "string \<Rightarrow> nat \<Rightarrow> char" where
  "cchar_at s i = (if i < length s then s ! i else NUL)"

text \<open>The C string that starts at a raw buffer: the bytes before the first NUL.\<close>

definition cstr :: "string \<Rightarrow> string" where
  "cstr bs = takeWhile (\<lambda>c. c \<noteq> NUL) bs"

lemma nul_free_cstr [simp]: "nul_free (cstr bs)"
  by (auto simp: nul_free_def cstr_def list_all_iff dest: set_takeWhileD)

lemma cstr_nul_free [cstring_simps]: "nul_free s \<Longrightarrow> cstr (s @ NUL # r) = s"
  by (induction s) (auto simp: cstr_def nul_free_def)

lemma cstr_id [cstring_simps]: "nul_free s \<Longrightarrow> cstr s = s"
  by (induction s) (auto simp: cstr_def nul_free_def)

lemma nul_free_append [simp]: "nul_free (a @ b) \<longleftrightarrow> nul_free a \<and> nul_free b"
  by (simp add: nul_free_def)

lemma nul_free_simps [simp]: "nul_free []" "nul_free (c # s) \<longleftrightarrow> c \<noteq> NUL \<and> nul_free s"
  by (simp_all add: nul_free_def)

lemma nul_free_take: "nul_free s \<Longrightarrow> nul_free (take n s)"
  by (auto simp: nul_free_def list_all_iff dest: in_set_takeD)

text \<open>
  \<open>strncmp\<close> and \<open>strncasecmp\<close>: the difference of the first two characters that differ (as
  unsigned char, after \<open>tolower\<close> for the second), looking at no more than \<open>n\<close> and stopping
  at a terminator. The end of a list is its terminator.
\<close>

fun strn_cmp :: "(char \<Rightarrow> nat) \<Rightarrow> string \<Rightarrow> string \<Rightarrow> nat \<Rightarrow> int" where
  "strn_cmp k xs ys 0 = 0"
| "strn_cmp k [] [] (Suc n) = 0"
| "strn_cmp k [] (y # ys) (Suc n) = (if y = NUL then 0 else - int (k y))"
| "strn_cmp k (x # xs) [] (Suc n) = (if x = NUL then 0 else int (k x))"
| "strn_cmp k (x # xs) (y # ys) (Suc n) =
     (if k x \<noteq> k y then int (k x) - int (k y)
      else if x = NUL then 0 else strn_cmp k xs ys n)"

definition strncmp :: "string \<Rightarrow> string \<Rightarrow> nat \<Rightarrow> int" where
  "strncmp = strn_cmp of_char"

definition strncasecmp :: "string \<Rightarrow> string \<Rightarrow> nat \<Rightarrow> int" where
  "strncasecmp = strn_cmp (\<lambda>c. of_char (tolower c))"

definition strcmp :: "string \<Rightarrow> string \<Rightarrow> int" where
  "strcmp xs ys = strncmp xs ys (Suc (max (length xs) (length ys)))"

text \<open>\<open>strchr(s, c) != NULL\<close>: the terminator belongs to the searched string.\<close>

definition strchr_found :: "string \<Rightarrow> char \<Rightarrow> bool" where
  "strchr_found s c \<longleftrightarrow> c = NUL \<or> c \<in> set s"

text \<open>\<open>strncpy(dest, src, n)\<close>: the \<open>n\<close> bytes it writes, padded with NUL.\<close>

definition strncpy_bytes :: "string \<Rightarrow> nat \<Rightarrow> string" where
  "strncpy_bytes src n = take n src @ replicate (n - length src) NUL"

lemma length_strncpy_bytes [simp]: "length (strncpy_bytes src n) = n"
  by (simp add: strncpy_bytes_def)

lemma strcmp_eq_0_aux:
  assumes "nul_free xs" and "nul_free ys" and "n > max (length xs) (length ys)"
  shows "strn_cmp of_char xs ys n = 0 \<longleftrightarrow> xs = ys"
  using assms
  by (induction "of_char :: char \<Rightarrow> nat" xs ys n rule: strn_cmp.induct) auto

lemma strcmp_eq_0 [cstring_simps]: "nul_free xs \<Longrightarrow> nul_free ys \<Longrightarrow> strcmp xs ys = 0 \<longleftrightarrow> xs = ys"
  by (simp add: strcmp_def strncmp_def strcmp_eq_0_aux)


section \<open>Raw memory blocks\<close>

text \<open>
  A block is the list of its bytes. Reading or writing outside it is undefined behaviour.
\<close>

definition block_read :: "'a list \<Rightarrow> nat \<Rightarrow> nat \<Rightarrow> 'a list option" where
  "block_read bs i n = (if i + n \<le> length bs then Some (take n (drop i bs)) else None)"

definition block_write :: "'a list \<Rightarrow> nat \<Rightarrow> 'a list \<Rightarrow> 'a list option" where
  "block_write bs i xs =
     (if i + length xs \<le> length bs then Some (take i bs @ xs @ drop (i + length xs) bs) else None)"

text \<open>\<open>memmove(buf + dst, buf + src, n)\<close> inside one block.\<close>

definition block_move :: "'a list \<Rightarrow> nat \<Rightarrow> nat \<Rightarrow> nat \<Rightarrow> 'a list option" where
  "block_move bs dst src n = Option.bind (block_read bs src n) (block_write bs dst)"

lemma block_write_length: "block_write bs i xs = Some bs' \<Longrightarrow> length bs' = length bs"
  by (auto simp: block_write_def split: if_splits)

lemma block_write_in [simp]:
  "i + length xs \<le> length bs \<Longrightarrow> block_write bs i xs = Some (take i bs @ xs @ drop (i + length xs) bs)"
  by (simp add: block_write_def)

lemma block_read_in [simp]: "i + n \<le> length bs \<Longrightarrow> block_read bs i n = Some (take n (drop i bs))"
  by (simp add: block_read_def)

lemma block_move_in [simp]:
  assumes "dst + n \<le> length bs" and "src + n \<le> length bs"
  shows "block_move bs dst src n =
           Some (take dst bs @ take n (drop src bs) @ drop (dst + n) bs)"
proof -
  have len: "length (take n (drop src bs)) = n" using assms by simp
  show ?thesis
    using assms unfolding block_move_def block_write_def block_read_def len by simp
qed


section \<open>The allocator\<close>

text \<open>
  \<open>malloc\<close> and \<open>realloc\<close> may fail at any call: \<open>oom\<close> lists which of the next calls fail
  (none, once it is used up), and no request above \<open>PTRDIFF_MAX\<close> ever succeeds. \<open>junk\<close> gives
  the indeterminate bytes of fresh memory, so a theorem for every \<open>alloc_env\<close> holds whatever
  the allocator does.
\<close>

record alloc_env =
  oom :: "bool list"
  junk :: "nat \<Rightarrow> char"

definition alloc_max :: nat where
  "alloc_max = 2 ^ 63 - 1"

definition malloc_ok :: "alloc_env \<Rightarrow> nat \<Rightarrow> bool \<times> alloc_env" where
  "malloc_ok e n =
     (case oom e of
        [] \<Rightarrow> (n \<le> alloc_max, e)
      | f # r \<Rightarrow> (n \<le> alloc_max \<and> \<not> f, e\<lparr>oom := r\<rparr>))"

definition realloc_block :: "alloc_env \<Rightarrow> string option \<Rightarrow> nat \<Rightarrow> string option \<times> alloc_env" where
  "realloc_block e p n =
     (let old = (case p of None \<Rightarrow> [] | Some bs \<Rightarrow> bs)
      in case malloc_ok e n of (ok, e') \<Rightarrow>
         (if ok then Some (take n old @ map (junk e) [List.length old..<n]) else None, e'))"

definition malloc_block :: "alloc_env \<Rightarrow> nat \<Rightarrow> string option \<times> alloc_env" where
  "malloc_block e n = realloc_block e None n"

lemma realloc_block_Some:
  assumes "realloc_block e p n = (Some b, e')"
  shows "List.length b = n \<and> n \<le> alloc_max"
  using assms
  by (auto simp: realloc_block_def malloc_ok_def Let_def split: prod.splits list.splits if_splits)

lemma realloc_block_prefix:
  assumes "realloc_block e (Some bs) n = (Some b, e')" and "k \<le> n" and "k \<le> List.length bs"
  shows "take k b = take k bs"
  using assms by (auto simp: realloc_block_def Let_def min_def split: prod.splits if_splits)

lemma realloc_block_succeeds:
  assumes "oom e = []" and "n \<le> alloc_max"
  shows "\<exists>b. realloc_block e p n = (Some b, e)"
  using assms by (simp add: realloc_block_def malloc_ok_def Let_def)

end
