(* ===== verification/MemBuffer.thy ===== *)
theory MemBuffer
  imports Prelude
begin

text \<open>
  \<open>upnp/src/genlib/util/membuffer.c\<close>: the growable byte buffer every message of the library
  lives in, and the comparison of a counted string (\<open>memptr\<close>) with a C string.

  A buffer's memory is the byte list of its block, so its size is known: an operation that
  would leave the block returns \<open>None\<close>. \<open>wf_membuffer\<close> is what the operations rely on,
  \<open>contents\<close> the bytes a buffer holds. The theorems show that every operation stays inside
  the block, keeps \<open>wf_membuffer\<close>, and computes the expected bytes or leaves the buffer as it
  was with an error.
\<close>

abbreviation (input) UPNP_E_OUTOF_MEMORY :: int where "UPNP_E_OUTOF_MEMORY \<equiv> -104"
abbreviation (input) UPNP_E_INVALID_URL :: int where "UPNP_E_INVALID_URL \<equiv> -108"
abbreviation (input) UPNP_E_OUTOF_BOUNDS :: int where "UPNP_E_OUTOF_BOUNDS \<equiv> -506"

record memptr =
  mp_buf :: string
  mp_length :: nat

record membuffer =
  mb_buf :: "string option"
  mb_length :: nat
  mb_capacity :: nat
  mb_size_inc :: nat

definition MEMBUF_DEF_SIZE_INC :: nat where
  "MEMBUF_DEF_SIZE_INC = 5"


section \<open>Operations\<close>

definition str_alloc :: "alloc_env \<Rightarrow> string \<Rightarrow> nat \<Rightarrow> (string option \<times> alloc_env) option" where
  "str_alloc e str str_len =
     (case malloc_block e (size_add str_len 1) of
        (None, e') \<Rightarrow> Some (None, e')
      | (Some s, e') \<Rightarrow>
          Option.bind (block_read str 0 str_len) (\<lambda>src.
          Option.bind (block_write s 0 src) (\<lambda>s1.
          Option.bind (block_write s1 str_len [NUL]) (\<lambda>s2. Some (Some s2, e')))))"

definition memptr_cmp :: "memptr \<Rightarrow> string \<Rightarrow> int" where
  "memptr_cmp m s =
     (let cmp = strncmp (mp_buf m) s (mp_length m)
      in if cmp = 0 \<and> mp_length m < List.length s then -1 else cmp)"

definition memptr_cmp_nocase :: "memptr \<Rightarrow> string \<Rightarrow> int" where
  "memptr_cmp_nocase m s =
     (let cmp = strncasecmp (mp_buf m) s (mp_length m)
      in if cmp = 0 \<and> mp_length m < List.length s then -1 else cmp)"

definition membuffer_initialize :: "membuffer \<Rightarrow> membuffer" where
  "membuffer_initialize m = m\<lparr>mb_buf := None, mb_length := 0, mb_capacity := 0\<rparr>"

text \<open>The tail of \<open>membuffer_set_size\<close>: reallocate, and retry with the smallest size.\<close>

definition membuffer_realloc ::
  "alloc_env \<Rightarrow> membuffer \<Rightarrow> nat \<Rightarrow> nat \<Rightarrow> int \<times> alloc_env \<times> membuffer" where
  "membuffer_realloc e m alloc_len new_length =
     (case realloc_block e (mb_buf m) (size_add alloc_len 1) of
        (Some b, e1) \<Rightarrow> (0, e1, m\<lparr>mb_buf := Some b, mb_capacity := alloc_len\<rparr>)
      | (None, e1) \<Rightarrow>
          (case realloc_block e1 (mb_buf m) (size_add new_length 1) of
             (Some b, e2) \<Rightarrow> (0, e2, m\<lparr>mb_buf := Some b, mb_capacity := new_length\<rparr>)
           | (None, e2) \<Rightarrow> (UPNP_E_OUTOF_MEMORY, e2, m)))"

definition membuffer_set_size ::
  "alloc_env \<Rightarrow> membuffer \<Rightarrow> nat \<Rightarrow> int \<times> alloc_env \<times> membuffer" where
  "membuffer_set_size e m new_length =
     (if mb_length m \<le> new_length then
        (if new_length \<le> mb_capacity m then (0, e, m)
         else membuffer_realloc e m
                (size_add (max (mb_size_inc m) (size_sub new_length (mb_length m))) (mb_capacity m))
                new_length)
      else
        (if size_sub (mb_capacity m) new_length \<le> mb_size_inc m then (0, e, m)
         else membuffer_realloc e m (size_add new_length (mb_size_inc m)) new_length))"

definition membuffer_init :: "membuffer \<Rightarrow> membuffer" where
  "membuffer_init m = membuffer_initialize (m\<lparr>mb_size_inc := MEMBUF_DEF_SIZE_INC\<rparr>)"

definition membuffer_destroy :: "membuffer option \<Rightarrow> membuffer option" where
  "membuffer_destroy mp = (case mp of None \<Rightarrow> None | Some m \<Rightarrow> Some (membuffer_init m))"

definition membuffer_assign ::
  "alloc_env \<Rightarrow> membuffer \<Rightarrow> string option \<Rightarrow> nat \<Rightarrow> (int \<times> alloc_env \<times> membuffer) option" where
  "membuffer_assign e m src buf_len =
     (case src of
        None \<Rightarrow> Some (0, e, the (membuffer_destroy (Some m)))
      | Some bytes \<Rightarrow>
          (case membuffer_set_size e m buf_len of
             (rc, e', m') \<Rightarrow>
               if rc \<noteq> 0 then Some (rc, e', m')
               else if buf_len \<noteq> 0 then
                 Option.bind (mb_buf m') (\<lambda>b0.
                 Option.bind (block_read bytes 0 buf_len) (\<lambda>src.
                 Option.bind (block_write b0 0 src) (\<lambda>b1.
                 Option.bind (block_write b1 buf_len [NUL]) (\<lambda>b2.
                   Some (0, e', m'\<lparr>mb_buf := Some b2, mb_length := buf_len\<rparr>)))))
               else Some (0, e', m'\<lparr>mb_length := buf_len\<rparr>)))"

definition membuffer_assign_str ::
  "alloc_env \<Rightarrow> membuffer \<Rightarrow> string \<Rightarrow> (int \<times> alloc_env \<times> membuffer) option" where
  "membuffer_assign_str e m c_str = membuffer_assign e m (Some c_str) (List.length c_str)"

definition membuffer_insert ::
  "alloc_env \<Rightarrow> membuffer \<Rightarrow> string option \<Rightarrow> nat \<Rightarrow> nat \<Rightarrow> (int \<times> alloc_env \<times> membuffer) option"
where
  "membuffer_insert e m src buf_len index =
     (if index > mb_length m then Some (UPNP_E_OUTOF_BOUNDS, e, m)
      else if src = None \<or> buf_len = 0 then Some (0, e, m)
      else
        (case membuffer_set_size e m (size_add (mb_length m) buf_len) of
           (rc, e', m') \<Rightarrow>
             if rc \<noteq> 0 then Some (rc, e', m')
             else
               Option.bind (mb_buf m') (\<lambda>b0.
               Option.bind (block_move b0 (index + buf_len) index (size_sub (mb_length m') index)) (\<lambda>b1.
               Option.bind (block_read (the src) 0 buf_len) (\<lambda>bytes.
               Option.bind (block_write b1 index bytes) (\<lambda>b2.
               Option.bind (block_write b2 (size_add (mb_length m') buf_len) [NUL]) (\<lambda>b3.
                 Some (0, e', m'\<lparr>mb_buf := Some b3,
                                  mb_length := size_add (mb_length m') buf_len\<rparr>))))))))"

definition membuffer_append ::
  "alloc_env \<Rightarrow> membuffer \<Rightarrow> string option \<Rightarrow> nat \<Rightarrow> (int \<times> alloc_env \<times> membuffer) option" where
  "membuffer_append e m src buf_len = membuffer_insert e m src buf_len (mb_length m)"

definition membuffer_append_str ::
  "alloc_env \<Rightarrow> membuffer \<Rightarrow> string \<Rightarrow> (int \<times> alloc_env \<times> membuffer) option" where
  "membuffer_append_str e m c_str =
     membuffer_insert e m (Some c_str) (List.length c_str) (mb_length m)"

definition membuffer_delete ::
  "alloc_env \<Rightarrow> membuffer \<Rightarrow> nat \<Rightarrow> nat \<Rightarrow> (alloc_env \<times> membuffer) option" where
  "membuffer_delete e m index num_bytes0 =
     (if mb_length m = 0 then Some (e, m)
      else
        (let over = size_add index num_bytes0 > mb_length m;
             num_bytes = (if over then size_sub (mb_length m) index else num_bytes0);
             copy_len = (if over then 0 else size_sub (mb_length m) (size_add index num_bytes));
             new_length = size_sub (mb_length m) num_bytes
         in
         Option.bind (mb_buf m) (\<lambda>b0.
         Option.bind (block_move b0 index (index + num_bytes) copy_len) (\<lambda>b1.
         (case membuffer_set_size e (m\<lparr>mb_buf := Some b1\<rparr>) new_length of
            (rc, e', m') \<Rightarrow>
              if rc \<noteq> 0 then Some (e', m')
              else
                Option.bind (mb_buf m') (\<lambda>b2.
                Option.bind (block_write b2 new_length [NUL]) (\<lambda>b3.
                  Some (e', m'\<lparr>mb_buf := Some b3, mb_length := new_length\<rparr>))))))))"

definition membuffer_detach :: "membuffer \<Rightarrow> string option \<times> membuffer" where
  "membuffer_detach m = (mb_buf m, membuffer_initialize m)"

definition membuffer_attach :: "membuffer \<Rightarrow> string \<Rightarrow> nat \<Rightarrow> membuffer" where
  "membuffer_attach m new_buf buf_len =
     (the (membuffer_destroy (Some m)))
       \<lparr>mb_buf := Some new_buf, mb_length := buf_len, mb_capacity := buf_len\<rparr>"


section \<open>Well-formed buffers and their contents\<close>

definition bytes :: "membuffer \<Rightarrow> string" where
  "bytes m = (case mb_buf m of None \<Rightarrow> [] | Some b \<Rightarrow> b)"

definition contents :: "membuffer \<Rightarrow> string" where
  "contents m = take (mb_length m) (bytes m)"

text \<open>\<open>room m n\<close>: the block can hold \<open>n\<close> bytes and a terminator.\<close>

definition room :: "membuffer \<Rightarrow> nat \<Rightarrow> bool" where
  "room m n \<longleftrightarrow>
     (case mb_buf m of
        None \<Rightarrow> n = 0 \<and> mb_capacity m = 0
      | Some b \<Rightarrow> n \<le> mb_capacity m \<and> mb_capacity m < List.length b \<and> List.length b \<le> alloc_max)"

definition wf_membuffer :: "membuffer \<Rightarrow> bool" where
  "wf_membuffer m \<longleftrightarrow>
     room m (mb_length m) \<and> 0 < mb_size_inc m \<and> mb_size_inc m \<le> alloc_max"

definition terminated :: "membuffer \<Rightarrow> bool" where
  "terminated m \<longleftrightarrow> (case mb_buf m of None \<Rightarrow> True | Some b \<Rightarrow> b ! mb_length m = NUL)"

lemma alloc_max_lt [simp]: "n \<le> alloc_max \<Longrightarrow> n < 2 ^ 63"
  by (simp add: alloc_max_def)

lemma wf_membuffer_bounds:
  assumes "wf_membuffer m"
  shows "mb_length m \<le> mb_capacity m" "mb_capacity m \<le> alloc_max" "mb_size_inc m \<le> alloc_max"
  using assms by (auto simp: wf_membuffer_def room_def alloc_max_def split: option.splits)

lemma length_contents: "wf_membuffer m \<Longrightarrow> List.length (contents m) = mb_length m"
  by (auto simp: wf_membuffer_def room_def contents_def bytes_def split: option.splits)

lemma membuffer_realloc_ok:
  assumes "membuffer_realloc e m a n = (rc, e', m')" and "rc = 0"
    and "n \<le> a" and "a + 1 < 2 ^ 64"
  shows "room m' n \<and> mb_length m' = mb_length m \<and> mb_size_inc m' = mb_size_inc m \<and>
         (\<forall>k. k \<le> n \<longrightarrow> k \<le> List.length (bytes m) \<longrightarrow> take k (bytes m') = take k (bytes m))"
proof -
  have sz: "size_add a 1 = a + 1" "size_add n 1 = n + 1"
    using assms(3,4) by (simp_all add: size_add_def)
  show ?thesis
  proof (cases "realloc_block e (mb_buf m) (a + 1)")
    case (Pair p e1)
    show ?thesis
    proof (cases p)
      case (Some b)
      with Pair assms(1) sz have m': "m' = m\<lparr>mb_buf := Some b, mb_capacity := a\<rparr>"
        by (simp add: membuffer_realloc_def)
      have "List.length b = a + 1 \<and> a + 1 \<le> alloc_max"
        using realloc_block_Some [of e "mb_buf m" "a + 1" b e1] Pair Some by simp
      moreover have "take k b = take k (bytes m)" if "k \<le> n" "k \<le> List.length (bytes m)" for k
        using that Pair Some assms(3) realloc_block_prefix [of e "bytes m" "a + 1" b e1 k]
        by (cases "mb_buf m") (auto simp: bytes_def)
      ultimately show ?thesis using assms(3) by (auto simp: m' room_def bytes_def)
    next
      case None
      with Pair assms(1,2) sz obtain b e2 where
        r: "realloc_block e1 (mb_buf m) (n + 1) = (Some b, e2)"
        and m': "m' = m\<lparr>mb_buf := Some b, mb_capacity := n\<rparr>"
        by (auto simp: membuffer_realloc_def split: prod.splits option.splits)
      have "List.length b = n + 1 \<and> n + 1 \<le> alloc_max"
        using realloc_block_Some [of e1 "mb_buf m" "n + 1" b e2] r by simp
      moreover have "take k b = take k (bytes m)" if "k \<le> n" "k \<le> List.length (bytes m)" for k
        using that r realloc_block_prefix [of e1 "bytes m" "n + 1" b e2 k]
        by (cases "mb_buf m") (auto simp: bytes_def)
      ultimately show ?thesis by (auto simp: m' room_def bytes_def)
    qed
  qed
qed

lemma membuffer_set_size_fail:
  assumes "membuffer_set_size e m n = (rc, e', m')" and "rc \<noteq> 0"
  shows "rc = UPNP_E_OUTOF_MEMORY \<and> m' = m"
  using assms
  by (auto simp: membuffer_set_size_def membuffer_realloc_def
           split: if_splits prod.splits option.splits)

text \<open>When no allocation fails the retry with the exact size succeeds.\<close>

lemma membuffer_set_size_succeeds:
  assumes "oom e = []" and "n < alloc_max"
  shows "fst (membuffer_set_size e m n) = 0"
proof -
  have "fst (membuffer_realloc e m a n) = 0" for a
  proof -
    have "size_add n 1 \<le> alloc_max" using assms(2) by (simp add: size_add_def alloc_max_def)
    with realloc_block_succeeds [OF assms(1), of "size_add n 1" "mb_buf m"] assms(1) show ?thesis
      by (auto simp: membuffer_realloc_def realloc_block_def malloc_ok_def Let_def split: option.splits)
  qed
  then show ?thesis by (simp add: membuffer_set_size_def)
qed

text \<open>
  The size \<open>membuffer_set_size\<close> asks for never wraps and is never below the new length (the
  source's \<open>assert(alloc_len >= new_length)\<close>) when the buffer grows by the size of an object.
\<close>

lemma membuffer_set_size_ok:
  assumes wf: "wf_membuffer m" and n: "n \<le> mb_length m + alloc_max"
    and eq: "membuffer_set_size e m n = (rc, e', m')" and rc: "rc = 0"
  shows "room m' n \<and> mb_length m' = mb_length m \<and> mb_size_inc m' = mb_size_inc m \<and>
         (\<forall>k. k \<le> n \<longrightarrow> k \<le> mb_length m \<longrightarrow> take k (bytes m') = take k (bytes m))"
proof -
  note b = wf_membuffer_bounds [OF wf]
  have max: "mb_capacity m < 2 ^ 63" "mb_size_inc m < 2 ^ 63" "n < 2 ^ 64 - 1"
    using b n by (simp_all add: alloc_max_def)
  have len: "mb_length m \<le> List.length (bytes m)"
    using wf by (auto simp: wf_membuffer_def room_def bytes_def split: option.splits)
  have stay: "room m n" if "n \<le> mb_capacity m"
    using wf that by (auto simp: wf_membuffer_def room_def split: option.splits)
  consider (keep) "m' = m" "n \<le> mb_capacity m"
    | (grow) a where "membuffer_realloc e m a n = (rc, e', m')" "n \<le> a" "a + 1 < 2 ^ 64"
  proof (cases "mb_length m \<le> n")
    case True
    show ?thesis
    proof (cases "n \<le> mb_capacity m")
      case True
      then show ?thesis using eq \<open>mb_length m \<le> n\<close> that(1) by (simp add: membuffer_set_size_def)
    next
      case False
      let ?d = "max (mb_size_inc m) (n - mb_length m)"
      have sub: "size_sub n (mb_length m) = n - mb_length m"
        using True max by (simp add: size_sub_exact)
      have "?d \<le> alloc_max" using b n by simp
      then have nowrap: "?d + mb_capacity m + 1 < 2 ^ 64" and "n \<le> ?d + mb_capacity m"
        using max b by (auto simp: alloc_max_def)
      then show ?thesis
        using eq True False that(2) [of "?d + mb_capacity m"]
        by (simp add: membuffer_set_size_def sub size_add_exact)
    qed
  next
    case False
    then have sub: "size_sub (mb_capacity m) n = mb_capacity m - n"
      using b max by (simp add: size_sub_exact)
    have add: "size_add n (mb_size_inc m) = n + mb_size_inc m"
      using max False b by (simp add: size_add_exact alloc_max_def)
    show ?thesis
    proof (cases "mb_capacity m - n \<le> mb_size_inc m")
      case True
      then show ?thesis using eq False b that(1) by (simp add: membuffer_set_size_def sub)
    next
      case nokeep: False
      moreover have "n + mb_size_inc m + 1 < 2 ^ 64" using max False b by simp
      ultimately show ?thesis
        using eq False that(2) [of "n + mb_size_inc m"] by (simp add: membuffer_set_size_def sub add)
    qed
  qed
  then show ?thesis
  proof cases
    case keep
    then show ?thesis using stay by simp
  next
    case (grow a)
    from membuffer_realloc_ok [OF grow(1) rc grow(2,3)] len show ?thesis by auto
  qed
qed


section \<open>What the operations compute\<close>

text \<open>
  The result every operation on a buffer may have: success with the new contents in a
  well-formed buffer, or out of memory with the buffer unchanged.
\<close>

definition updates_to :: "membuffer \<Rightarrow> string \<Rightarrow> int \<Rightarrow> membuffer \<Rightarrow> bool" where
  "updates_to m c rc m' \<longleftrightarrow>
     (rc = 0 \<and> wf_membuffer m' \<and> contents m' = c \<and> mb_size_inc m' = mb_size_inc m) \<or>
     (rc = UPNP_E_OUTOF_MEMORY \<and> m' = m)"

lemma membuffer_init_ok: "wf_membuffer (membuffer_init m) \<and> contents (membuffer_init m) = []"
  by (simp add: membuffer_init_def membuffer_initialize_def wf_membuffer_def room_def contents_def
      bytes_def MEMBUF_DEF_SIZE_INC_def alloc_max_def)

lemma membuffer_insert_bytes:
  assumes wf: "wf_membuffer m" and idx: "index \<le> mb_length m"
    and src: "List.length s \<le> alloc_max" "s \<noteq> []"
  shows "\<exists>rc e' m'. membuffer_insert e m (Some s) (List.length s) index = Some (rc, e', m') \<and>
           updates_to m (take index (contents m) @ s @ drop index (contents m)) rc m' \<and>
           (rc = 0 \<longrightarrow> terminated m') \<and>
           (oom e = [] \<and> mb_length m + List.length s < alloc_max \<longrightarrow> rc = 0)"
proof -
  let ?n = "mb_length m + List.length s"
  note b = wf_membuffer_bounds [OF wf]
  have add: "size_add (mb_length m) (List.length s) = ?n"
    using b src by (simp add: size_add_exact alloc_max_def)
  obtain rc e' m1 where set: "membuffer_set_size e m ?n = (rc, e', m1)"
    by (cases "membuffer_set_size e m ?n") auto
  show ?thesis
  proof (cases "rc = 0")
    case False
    with membuffer_set_size_fail [OF set] membuffer_set_size_succeeds [of e ?n m] set idx src add
    show ?thesis by (auto simp: membuffer_insert_def updates_to_def)
  next
    case True
    with membuffer_set_size_ok [OF wf _ set] src
    have room: "room m1 ?n" and len: "mb_length m1 = mb_length m" "mb_size_inc m1 = mb_size_inc m"
      and pre: "take (mb_length m) (bytes m1) = contents m"
      by (auto simp: contents_def)
    from room src obtain b0 where b0: "mb_buf m1 = Some b0" and cap: "?n < List.length b0"
      by (auto simp: room_def split: option.splits)
    have sub: "size_sub (mb_length m) index = mb_length m - index"
      using idx b by (simp add: size_sub_exact alloc_max_def)
    have old: "take (mb_length m) b0 = contents m" using pre b0 by (simp add: bytes_def)
    have pieces: "take index b0 = take index (contents m)"
      "take (mb_length m - index) (drop index b0) = drop index (contents m)"
      using idx old by (metis min.absorb1 take_take, metis drop_take)
    let ?b = "take index (contents m) @ s @ drop index (contents m) @ NUL # drop (Suc ?n) b0"
    have lens: "List.length (contents m) = mb_length m" by (rule length_contents [OF wf])
    have mv: "block_move b0 (index + List.length s) index (mb_length m - index) =
        Some (take (index + List.length s) b0 @ drop index (contents m) @ drop ?n b0)"
      using idx cap pieces by (simp add: add.commute)
    have cp: "block_write (take (index + List.length s) b0 @ drop index (contents m) @ drop ?n b0) index s =
        Some (take index (contents m) @ s @ drop index (contents m) @ drop ?n b0)"
      using idx cap pieces lens by (simp add: min_def)
    have nl: "block_write (take index (contents m) @ s @ drop index (contents m) @ drop ?n b0) ?n [NUL] =
        Some ?b"
      using idx cap lens by (simp add: block_write_def min_def) arith
    have "membuffer_insert e m (Some s) (List.length s) index =
            Some (0, e', m1\<lparr>mb_buf := Some ?b, mb_length := ?n\<rparr>)"
      using idx src set True b0 by (simp add: membuffer_insert_def add sub len mv cp nl)
    moreover have "updates_to m (take index (contents m) @ s @ drop index (contents m)) 0
                     (m1\<lparr>mb_buf := Some ?b, mb_length := ?n\<rparr>)"
      using room b0 cap len wf lens idx
      by (auto simp: updates_to_def wf_membuffer_def room_def contents_def bytes_def)
    moreover have "terminated (m1\<lparr>mb_buf := Some ?b, mb_length := ?n\<rparr>)"
    proof -
      have "\<not> ?n - index < List.length s" using idx by arith
      then show ?thesis using lens idx by (simp add: terminated_def nth_append)
    qed
    ultimately show ?thesis by blast
  qed
qed


lemma membuffer_insert_noop:
  "index \<le> mb_length m \<Longrightarrow> src = None \<or> n = 0 \<Longrightarrow> membuffer_insert e m src n index = Some (0, e, m)"
  by (auto simp: membuffer_insert_def)

lemma membuffer_insert_out_of_bounds:
  "mb_length m < index \<Longrightarrow>
     membuffer_insert e m src n index = Some (UPNP_E_OUTOF_BOUNDS, e, m)"
  by (simp add: membuffer_insert_def)

lemma membuffer_append_ok:
  assumes "wf_membuffer m" and "List.length s \<le> alloc_max"
  shows "\<exists>rc e' m'. membuffer_append e m (Some s) (List.length s) = Some (rc, e', m') \<and>
           updates_to m (contents m @ s) rc m'"
proof (cases "s = []")
  case True
  then show ?thesis
    using assms by (simp add: membuffer_append_def membuffer_insert_noop updates_to_def)
next
  case False
  have "take (mb_length m) (contents m) = contents m" "drop (mb_length m) (contents m) = []"
    using length_contents [OF assms(1)] by simp_all
  with membuffer_insert_bytes [OF assms(1) order_refl assms(2) False, of e]
  show ?thesis by (auto simp: membuffer_append_def)
qed

lemma membuffer_assign_ok:
  assumes wf: "wf_membuffer m" and src: "List.length s \<le> alloc_max"
  shows "\<exists>rc e' m'. membuffer_assign e m (Some s) (List.length s) = Some (rc, e', m') \<and>
           updates_to m s rc m' \<and> (rc = 0 \<longrightarrow> s \<noteq> [] \<longrightarrow> terminated m') \<and>
           (oom e = [] \<and> List.length s < alloc_max \<longrightarrow> rc = 0)"
proof -
  let ?n = "List.length s"
  obtain rc e' m1 where set: "membuffer_set_size e m ?n = (rc, e', m1)"
    by (cases "membuffer_set_size e m ?n") auto
  show ?thesis
  proof (cases "rc = 0")
    case False
    with membuffer_set_size_fail [OF set] membuffer_set_size_succeeds [of e ?n m] set show ?thesis
      by (auto simp: membuffer_assign_def updates_to_def)
  next
    case True
    with membuffer_set_size_ok [OF wf _ set] src
    have room: "room m1 ?n" and inc: "mb_size_inc m1 = mb_size_inc m" by simp_all
    show ?thesis
    proof (cases "s = []")
      case empty: True
      have "updates_to m s 0 (m1\<lparr>mb_length := 0\<rparr>)"
        using room inc wf empty
        by (auto simp: updates_to_def wf_membuffer_def room_def contents_def split: option.splits)
      with set True empty show ?thesis by (simp add: membuffer_assign_def)
    next
      case False
      with room obtain b0 where b0: "mb_buf m1 = Some b0" and cap: "?n < List.length b0"
        by (auto simp: room_def split: option.splits)
      let ?b = "s @ NUL # drop (Suc ?n) b0"
      have "block_write b0 0 s = Some (s @ drop ?n b0)"
        "block_write (s @ drop ?n b0) ?n [NUL] = Some ?b"
        using cap by (simp_all add: block_write_def)
      then have "membuffer_assign e m (Some s) ?n =
                   Some (0, e', m1\<lparr>mb_buf := Some ?b, mb_length := ?n\<rparr>)"
        using set True False b0 by (simp add: membuffer_assign_def)
      moreover have "updates_to m s 0 (m1\<lparr>mb_buf := Some ?b, mb_length := ?n\<rparr>)"
        using room b0 cap inc wf
        by (auto simp: updates_to_def wf_membuffer_def room_def contents_def bytes_def)
      ultimately show ?thesis by (auto simp: terminated_def)
    qed
  qed
qed

text \<open>
  Deleting inside the buffer. When the shrinking reallocation fails (the source asserts that it
  does not) the length stays, over the bytes already moved.
\<close>

lemma membuffer_delete_ok:
  assumes wf: "wf_membuffer m" and idx: "index \<le> mb_length m" and n: "n \<le> mb_length m"
  shows "\<exists>e' m'. membuffer_delete e m index n = Some (e', m') \<and> wf_membuffer m' \<and>
           (contents m' = take index (contents m) @ drop (index + n) (contents m) \<or>
            mb_length m' = mb_length m \<and> oom e \<noteq> [])"
proof (cases "mb_length m = 0")
  case True
  then show ?thesis using wf by (simp add: membuffer_delete_def contents_def)
next
  case False
  note b = wf_membuffer_bounds [OF wf]
  from False wf obtain b0 where b0: "mb_buf m = Some b0"
    and cap: "mb_length m \<le> mb_capacity m" "mb_capacity m < List.length b0" "List.length b0 \<le> alloc_max"
    by (auto simp: wf_membuffer_def room_def split: option.splits)
  have small: "mb_length m < 2 ^ 63" using b by (simp add: alloc_max_def)
  define k where "k = min n (mb_length m - index)"
  define c where "c = mb_length m - (index + k)"
  have nums: "(if size_add index n > mb_length m then size_sub (mb_length m) index else n) = k"
    using small idx n by (auto simp: k_def size_add_exact size_sub_exact min_def)
  have copy: "(if size_add index n > mb_length m then 0
               else size_sub (mb_length m) (size_add index k)) = c"
    using small idx n by (auto simp: c_def k_def size_add_exact size_sub_exact min_def)
  have new: "size_sub (mb_length m) k = mb_length m - k"
    using small by (simp add: k_def size_sub_exact)
  define b1 where "b1 = take index b0 @ take c (drop (index + k) b0) @ drop (index + c) b0"
  have mv: "block_move b0 index (index + k) c = Some b1"
    using cap idx by (simp add: b1_def c_def k_def)
  have len1: "List.length b1 = List.length b0" using cap idx by (simp add: b1_def c_def k_def)
  let ?m1 = "m\<lparr>mb_buf := Some b1\<rparr>"
  have wf1: "wf_membuffer ?m1" using wf b0 len1 by (auto simp: wf_membuffer_def room_def)
  obtain rc e' m2 where set: "membuffer_set_size e ?m1 (mb_length m - k) = (rc, e', m2)"
    by (cases "membuffer_set_size e ?m1 (mb_length m - k)") auto
  show ?thesis
  proof (cases "rc = 0")
    case rc: False
    with membuffer_set_size_fail [OF set] have "m2 = ?m1" by simp
    moreover have "oom e \<noteq> []"
    proof
      assume "oom e = []"
      moreover have "mb_length m - k < alloc_max" using cap by linarith
      ultimately show False using membuffer_set_size_succeeds [of e "mb_length m - k" ?m1] set rc by simp
    qed
    moreover have "membuffer_delete e m index n = Some (e', m2)"
      using False b0 set rc unfolding membuffer_delete_def Let_def nums copy new by (simp add: mv)
    ultimately show ?thesis using wf1 False by auto
  next
    case True
    with membuffer_set_size_ok [OF wf1 _ set]
    have room: "room m2 (mb_length m - k)" and inc: "mb_size_inc m2 = mb_size_inc m"
      and pre: "take (mb_length m - k) (bytes m2) = take (mb_length m - k) b1"
      by (auto simp: bytes_def)
    have "0 < mb_length m \<Longrightarrow> mb_buf m2 \<noteq> None"
      using set True by (auto simp: membuffer_set_size_def membuffer_realloc_def
          split: if_splits prod.splits option.splits)
    with False room obtain b2 where b2: "mb_buf m2 = Some b2" and cap2: "mb_length m - k < List.length b2"
      by (auto simp: room_def)
    let ?b = "take (mb_length m - k) b2 @ NUL # drop (Suc (mb_length m - k)) b2"
    let ?m' = "m2\<lparr>mb_buf := Some ?b, mb_length := mb_length m - k\<rparr>"
    have "membuffer_delete e m index n = Some (e', ?m')"
      using False b0 set True b2 cap2 unfolding membuffer_delete_def Let_def nums copy new
      by (simp add: mv block_write_def)
    moreover have "wf_membuffer ?m'"
      using room inc wf b2 cap2 by (auto simp: wf_membuffer_def room_def)
    moreover have "contents ?m' = take index (contents m) @ drop (index + n) (contents m)"
    proof -
      have "contents ?m' = take (mb_length m - k) b1"
        using pre b2 cap2 len1 cap by (simp add: contents_def bytes_def)
      also have "\<dots> = take index b0 @ take c (drop (index + k) b0)"
        using cap idx by (simp add: b1_def c_def k_def add.commute)
      also have "\<dots> = take index (contents m) @ drop (index + n) (contents m)"
        using b0 idx by (auto simp: contents_def bytes_def c_def k_def min_def drop_take)
      finally show ?thesis .
    qed
    ultimately show ?thesis by blast
  qed
qed


section \<open>The interface: an append-only byte store\<close>

text \<open>
  What the message readers rely on: a received chunk is appended whole or not at all.
  \<open>append_chunks\<close> is their loop, stopping at the first error.
\<close>

fun append_chunks ::
  "('e \<Rightarrow> 'm \<Rightarrow> string \<Rightarrow> (int \<times> 'e \<times> 'm) option) \<Rightarrow> 'e \<Rightarrow> 'm \<Rightarrow> string list \<Rightarrow> (int \<times> 'e \<times> 'm) option"
where
  "append_chunks app e m [] = Some (0, e, m)"
| "append_chunks app e m (s # ss) =
     (case app e m s of
        None \<Rightarrow> None
      | Some (rc, e', m') \<Rightarrow> if rc \<noteq> 0 then Some (rc, e', m') else append_chunks app e' m' ss)"

locale byte_store =
  fixes app :: "'e \<Rightarrow> 'm \<Rightarrow> string \<Rightarrow> (int \<times> 'e \<times> 'm) option"
    and cont :: "'m \<Rightarrow> string"
    and inv :: "'m \<Rightarrow> bool"
    and limit :: nat
  assumes app_total: "inv m \<Longrightarrow> List.length s \<le> limit \<Longrightarrow> app e m s \<noteq> None"
    and app_ok: "inv m \<Longrightarrow> List.length s \<le> limit \<Longrightarrow> app e m s = Some (0, e', m') \<Longrightarrow>
                   inv m' \<and> cont m' = cont m @ s"
    and app_fail: "inv m \<Longrightarrow> List.length s \<le> limit \<Longrightarrow> app e m s = Some (rc, e', m') \<Longrightarrow> rc \<noteq> 0 \<Longrightarrow>
                   m' = m"
begin

lemma append_chunks_ok:
  assumes "inv m" and "list_all (\<lambda>s. List.length s \<le> limit) ss"
  shows "\<exists>rc e' m' k. append_chunks app e m ss = Some (rc, e', m') \<and> inv m' \<and>
           k \<le> List.length ss \<and> cont m' = cont m @ concat (take k ss) \<and> (rc = 0 \<longrightarrow> k = List.length ss)"
  using assms
proof (induction ss arbitrary: e m)
  case Nil
  then show ?case by simp
next
  case (Cons s ss)
  then have pre: "inv m" "List.length s \<le> limit" by simp_all
  with app_total [of m s e] obtain rc e1 m1 where app: "app e m s = Some (rc, e1, m1)" by auto
  show ?case
  proof (cases "rc = 0")
    case False
    with app_fail [OF pre app] app Cons.prems show ?thesis by (auto intro!: exI [of _ 0])
  next
    case True
    with app_ok [OF pre, of e e1 m1] app have m1: "inv m1" "cont m1 = cont m @ s" by simp_all
    from Cons.IH [of m1 e1] m1 Cons.prems obtain rc' e' m' k where
      "append_chunks app e1 m1 ss = Some (rc', e', m')" "inv m'" "k \<le> List.length ss"
      "cont m' = cont m1 @ concat (take k ss)" "rc' = 0 \<longrightarrow> k = List.length ss"
      by auto
    then show ?thesis using app True m1 by (auto intro!: exI [of _ "Suc k"])
  qed
qed

end

interpretation mb: byte_store
  "\<lambda>e m s. membuffer_append e m (Some s) (List.length s)" contents wf_membuffer alloc_max
proof unfold_locales
  fix m and s :: string and e
  assume pre: "wf_membuffer m" "List.length s \<le> alloc_max"
  note ok = membuffer_append_ok [OF pre, of e]
  show "membuffer_append e m (Some s) (List.length s) \<noteq> None" using ok by auto
  show "wf_membuffer m' \<and> contents m' = contents m @ s"
    if "membuffer_append e m (Some s) (List.length s) = Some (0, e', m')" for e' m'
    using ok that by (auto simp: updates_to_def)
  show "m' = m"
    if "membuffer_append e m (Some s) (List.length s) = Some (rc, e', m')" "rc \<noteq> 0" for rc e' m'
    using ok that by (auto simp: updates_to_def)
qed


section \<open>Properties\<close>

text \<open>
  C14. Inserting into a well-formed buffer, at any index and for any behaviour of the allocator:
  beyond the end it is refused with \<open>UPNP_E_OUTOF_BOUNDS\<close>; otherwise every byte access is inside
  a block and either the bytes are spliced in at the index, the buffer is well formed and
  NUL-terminated, or the result is \<open>UPNP_E_OUTOF_MEMORY\<close> and nothing changed. It does succeed
  when no allocation fails and the result is of the size of an object.
\<close>

theorem membuffer_insert_correct:
  assumes "wf_membuffer m" and "List.length s \<le> alloc_max" and "s \<noteq> []"
  shows "\<exists>rc e' m'. membuffer_insert e m (Some s) (List.length s) index = Some (rc, e', m') \<and>
           (if index > mb_length m then rc = UPNP_E_OUTOF_BOUNDS \<and> m' = m
            else updates_to m (take index (contents m) @ s @ drop index (contents m)) rc m' \<and>
                 (rc = 0 \<longrightarrow> terminated m') \<and>
                 (oom e = [] \<and> mb_length m + List.length s < alloc_max \<longrightarrow> rc = 0))"
  using membuffer_insert_bytes [OF assms(1) _ assms(2,3), of index e]
    membuffer_insert_out_of_bounds [of m index e]
  by (cases "mb_length m < index") auto

definition sample_env :: alloc_env where
  "sample_env = \<lparr>oom = [], junk = (\<lambda>_. CHR ''?'')\<rparr>"

definition sample_buf :: membuffer where
  "sample_buf = \<lparr>mb_buf = Some (''GET'' @ [NUL, CHR ''?'', CHR ''?'']), mb_length = 3, mb_capacity = 5,
                mb_size_inc = 5\<rparr>"

lemma sample_buf_wf: "wf_membuffer sample_buf" "contents sample_buf = ''GET''"
  by (simp_all add: wf_membuffer_def room_def sample_buf_def alloc_max_def contents_def bytes_def)

theorem membuffer_insert_correct_witness:
  "\<exists>rc e' m'. membuffer_insert sample_env sample_buf (Some ''abc'') 3 1 = Some (rc, e', m') \<and>
     rc = 0 \<and> contents m' = ''GabcET'' \<and> terminated m'"
proof -
  have [simp]: "mb_length sample_buf = 3" "oom sample_env = []"
    by (simp_all add: sample_buf_def sample_env_def)
  have "List.length ''abc'' \<le> alloc_max" "''abc'' \<noteq> []" "(6::nat) < alloc_max"
    by (simp_all add: alloc_max_def)
  with membuffer_insert_correct [OF sample_buf_wf(1), of "''abc''" sample_env 1]
  show ?thesis by (auto simp: sample_buf_wf updates_to_def numeral_3_eq_3)
qed



text \<open>
  Assigning replaces the contents of a well-formed buffer by the given bytes, or reports
  \<open>UPNP_E_OUTOF_MEMORY\<close> and changes nothing; it succeeds when no allocation fails, and the new
  contents are NUL-terminated unless they are empty.
\<close>

theorem membuffer_assign_correct:
  assumes "wf_membuffer m" and "List.length s \<le> alloc_max"
  shows "\<exists>rc e' m'. membuffer_assign e m (Some s) (List.length s) = Some (rc, e', m') \<and>
           updates_to m s rc m' \<and> (rc = 0 \<longrightarrow> s \<noteq> [] \<longrightarrow> terminated m') \<and>
           (oom e = [] \<and> List.length s < alloc_max \<longrightarrow> rc = 0)"
  by (rule membuffer_assign_ok [OF assms])

theorem membuffer_assign_correct_witness:
  "\<exists>rc e' m'. membuffer_assign sample_env sample_buf (Some ''NOTIFY'') 6 = Some (rc, e', m') \<and>
     rc = 0 \<and> contents m' = ''NOTIFY'' \<and> terminated m'"
proof -
  have n: "List.length ''NOTIFY'' = 6" by simp
  have b: "(6::nat) < alloc_max" by (simp add: alloc_max_def)
  from membuffer_assign_correct [OF sample_buf_wf(1), of "''NOTIFY''" sample_env, unfolded n] b
  show ?thesis by (auto simp: updates_to_def sample_env_def)
qed

text \<open>
  Appending received chunks one after the other to a well-formed buffer leaves the old
  contents followed by the first \<open>k\<close> chunks, whole, for some \<open>k\<close>; all of them when the result
  is 0.
\<close>

theorem membuffer_append_chunks:
  assumes "wf_membuffer m" and "list_all (\<lambda>s. List.length s \<le> alloc_max) ss"
  shows "\<exists>rc e' m' k.
           append_chunks (\<lambda>e m s. membuffer_append e m (Some s) (List.length s)) e m ss = Some (rc, e', m') \<and>
           wf_membuffer m' \<and> k \<le> List.length ss \<and> contents m' = contents m @ concat (take k ss) \<and>
           (rc = 0 \<longrightarrow> k = List.length ss)"
  by (rule mb.append_chunks_ok [OF assms])

theorem membuffer_append_chunks_witness:
  "\<exists>rc e' m' k.
     append_chunks (\<lambda>e m s. membuffer_append e m (Some s) (List.length s)) sample_env sample_buf
       ['' / '', ''HTTP''] = Some (rc, e', m') \<and>
     wf_membuffer m' \<and> k \<le> 2 \<and> contents m' = ''GET'' @ concat (take k ['' / '', ''HTTP'']) \<and>
     (rc = 0 \<longrightarrow> k = 2)"
proof -
  have n: "List.length ['' / '', ''HTTP''] = 2" by simp
  have l: "list_all (\<lambda>s. List.length s \<le> alloc_max) ['' / '', ''HTTP'']" by (simp add: alloc_max_def)
  from membuffer_append_chunks [OF sample_buf_wf(1) l, of sample_env, unfolded n sample_buf_wf]
  show ?thesis .
qed

end
