(* ===== verification/StrIntMap.thy ===== *)
theory StrIntMap
  imports MemBuffer
begin

text \<open>
  \<open>upnp/src/genlib/util/strintmap.c\<close> and \<open>statcodes\<close>-style tables: a binary search over a
  table of names, and a linear search over its ids.

  The search relies only on a comparison that orders the names, which is the interface
  \<open>name_order\<close>; \<open>memptr_cmp\<close> and \<open>memptr_cmp_nocase\<close> both provide it. The theorems: a
  found index names the entry, a miss means no entry has the name, and the loop ends.
\<close>

record str_int_entry =
  ent_name :: string
  ent_id :: int

abbreviation entry :: "string \<Rightarrow> int \<Rightarrow> str_int_entry" where
  "entry n i \<equiv> \<lparr>ent_name = n, ent_id = i\<rparr>"


section \<open>Operations\<close>

text \<open>The \<open>while (top <= bot)\<close> loop of \<open>map_str_to_int\<close>.\<close>

function map_str_loop :: "(string \<Rightarrow> int) \<Rightarrow> str_int_entry list \<Rightarrow> int \<Rightarrow> int \<Rightarrow> int" where
  "map_str_loop cmp table topi boti =
     (if topi \<le> boti then
        (let mid = (topi + boti) div 2; c = cmp (ent_name (table ! nat mid))
         in if c > 0 then map_str_loop cmp table (mid + 1) boti
            else if c < 0 then map_str_loop cmp table topi (mid - 1)
            else mid)
      else -1)"
  by pat_completeness auto
termination
  by (relation "measure (\<lambda>(cmp, table, topi, boti). nat (boti - topi + 1))") auto

definition map_str_to_int ::
  "string \<Rightarrow> nat \<Rightarrow> str_int_entry list \<Rightarrow> int \<Rightarrow> bool \<Rightarrow> int" where
  "map_str_to_int name name_len table num_entries case_sensitive =
     (let name_ptr = \<lparr>mp_buf = name, mp_length = name_len\<rparr>
      in map_str_loop
           (if case_sensitive then memptr_cmp name_ptr else memptr_cmp_nocase name_ptr)
           table 0 (num_entries - 1))"

text \<open>The \<open>for\<close> loop of \<open>map_int_to_str\<close>, from index \<open>i\<close> on.\<close>

fun map_int_loop :: "int \<Rightarrow> str_int_entry list \<Rightarrow> nat \<Rightarrow> int" where
  "map_int_loop k [] i = -1"
| "map_int_loop k (e # es) i = (if ent_id e = k then int i else map_int_loop k es (Suc i))"

definition map_int_to_str :: "int \<Rightarrow> str_int_entry list \<Rightarrow> nat \<Rightarrow> int" where
  "map_int_to_str k table num_entries = map_int_loop k (take num_entries table) 0"

declare map_str_loop.simps [simp del]


section \<open>The comparison orders the names\<close>

definition valid_memptr :: "memptr \<Rightarrow> bool" where
  "valid_memptr m \<longleftrightarrow> mp_length m \<le> List.length (mp_buf m) \<and> nul_free (take (mp_length m) (mp_buf m))"

abbreviation text_of :: "memptr \<Rightarrow> string" where
  "text_of m \<equiv> take (mp_length m) (mp_buf m)"

abbreviation exact_key :: "string \<Rightarrow> nat list" where
  "exact_key s \<equiv> map of_char s"

abbreviation nocase_key :: "string \<Rightarrow> nat list" where
  "nocase_key s \<equiv> map (\<lambda>c. of_char (tolower c)) s"

lemma strn_cmp_take: "n \<le> List.length xs \<Longrightarrow> strn_cmp k xs ys n = strn_cmp k (take n xs) ys n"
  by (induction k xs ys n rule: strn_cmp.induct) auto

lemma strn_cmp_order:
  fixes k :: "char \<Rightarrow> nat" and xs ys :: string
  assumes "\<And>c. k c = 0 \<longleftrightarrow> c = NUL" and "nul_free xs" and "nul_free ys"
  defines "c \<equiv> strn_cmp k xs ys (List.length xs)"
  defines "r \<equiv> (if c = 0 \<and> List.length xs < List.length ys then -1 else c)"
  shows "(r = 0 \<longleftrightarrow> map k xs = map k ys) \<and> (r < 0 \<longleftrightarrow> ord_class.lexordp (map k xs) (map k ys))"
  using assms(2,3) unfolding r_def c_def
proof (induction xs arbitrary: ys)
  case Nil
  then show ?case by (cases ys) auto
next
  case (Cons x xs)
  have x: "k x > 0" using assms(1) [of x] Cons.prems by auto
  show ?case
  proof (cases ys)
    case Nil
    then show ?thesis using x Cons.prems by simp
  next
    case (Cons y ys')
    then show ?thesis
      using Cons.IH [of ys'] Cons.prems \<open>nul_free (x # xs)\<close> x by (auto split: if_splits)
  qed
qed

locale name_order =
  fixes cmp :: "memptr \<Rightarrow> string \<Rightarrow> int"
    and key :: "string \<Rightarrow> nat list"
  assumes cmp_eq: "valid_memptr m \<Longrightarrow> nul_free s \<Longrightarrow> cmp m s = 0 \<longleftrightarrow> key (text_of m) = key s"
    and cmp_less: "valid_memptr m \<Longrightarrow> nul_free s \<Longrightarrow>
                     cmp m s < 0 \<longleftrightarrow> ord_class.lexordp (key (text_of m)) (key s)"
begin

lemma loop_sound:
  assumes "valid_memptr m" and "list_all (\<lambda>e. nul_free (ent_name e)) table"
    and "0 \<le> topi" and "boti < int (List.length table)"
    and "map_str_loop (cmp m) table topi boti = i" and "i \<noteq> -1"
  shows "topi \<le> i \<and> i \<le> boti \<and> key (ent_name (table ! nat i)) = key (text_of m)"
  using assms
proof (induction "nat (boti - topi + 1)" arbitrary: topi boti rule: less_induct)
  case (less topi boti)
  let ?mid = "(topi + boti) div 2"
  let ?c = "cmp m (ent_name (table ! nat ?mid))"
  have unf: "map_str_loop (cmp m) table topi boti =
      (if topi \<le> boti then if ?c > 0 then map_str_loop (cmp m) table (?mid + 1) boti
         else if ?c < 0 then map_str_loop (cmp m) table topi (?mid - 1) else ?mid
       else -1)"
    by (subst map_str_loop.simps) (simp add: Let_def)
  from less.prems(5,6) unf have le: "topi \<le> boti" by (auto split: if_splits)
  then have mid: "topi \<le> ?mid" "?mid \<le> boti" by auto
  have free: "nul_free (ent_name (table ! nat ?mid))"
    using less.prems(2-4) mid by (auto simp: list_all_length)
  consider (gt) "?c > 0" | (lt) "?c < 0" | (eq) "?c = 0" by linarith
  then show ?case
  proof cases
    case gt
    with less.prems unf le mid less.hyps [of boti "?mid + 1"] show ?thesis by auto
  next
    case lt
    with less.prems unf le mid less.hyps [of "?mid - 1" topi] show ?thesis by auto
  next
    case eq
    with less.prems unf le mid cmp_eq [OF less.prems(1) free] show ?thesis by auto
  qed
qed

lemma loop_complete:
  assumes "valid_memptr m" and "list_all (\<lambda>e. nul_free (ent_name e)) table"
    and srt: "sorted_wrt (\<lambda>a b. ord_class.lexordp (key (ent_name a)) (key (ent_name b))) table"
    and "0 \<le> topi" and "boti < int (List.length table)"
    and "map_str_loop (cmp m) table topi boti = -1"
    and "topi \<le> j" and "j \<le> boti"
  shows "key (ent_name (table ! nat j)) \<noteq> key (text_of m)"
  using assms
proof (induction "nat (boti - topi + 1)" arbitrary: topi boti rule: less_induct)
  case (less topi boti)
  let ?mid = "(topi + boti) div 2"
  let ?c = "cmp m (ent_name (table ! nat ?mid))"
  let ?K = "key (text_of m)" and ?M = "key (ent_name (table ! nat ?mid))"
    and ?J = "key (ent_name (table ! nat j))"
  have unf: "map_str_loop (cmp m) table topi boti =
      (if topi \<le> boti then if ?c > 0 then map_str_loop (cmp m) table (?mid + 1) boti
         else if ?c < 0 then map_str_loop (cmp m) table topi (?mid - 1) else ?mid
       else -1)"
    by (subst map_str_loop.simps) (simp add: Let_def)
  from less.prems have le: "topi \<le> boti" by linarith
  then have mid: "topi \<le> ?mid" "?mid \<le> boti" by auto
  have free: "nul_free (ent_name (table ! nat ?mid))"
    using less.prems(2,4,5) mid by (auto simp: list_all_length)
  have ord: "ord_class.lexordp (key (ent_name (table ! nat a))) (key (ent_name (table ! nat b)))"
    if "0 \<le> a" "a < b" "b \<le> boti" for a b
    using that less.prems(3,5) by (auto simp: sorted_wrt_iff_nth_less)
  note cmp = cmp_eq [OF less.prems(1) free] cmp_less [OF less.prems(1) free]
  consider (gt) "?c > 0" | (lt) "?c < 0" | (eq) "?c = 0" by linarith
  then show ?case
  proof cases
    case gt
    then have gtK: "ord_class.lexordp ?M ?K"
      using cmp linorder_class.lexordp_linear [of ?K ?M] by auto
    show ?thesis
    proof (cases "j > ?mid")
      case True
      with gt less.prems unf le mid less.hyps [of boti "?mid + 1"] show ?thesis by auto
    next
      case False
      then have "?J = ?M \<or> ord_class.lexordp ?J ?M"
        using ord [of j ?mid] less.prems mid by (cases "j = ?mid") auto
      with gtK show ?thesis by (metis lexordp_irreflexive' lexordp_trans)
    qed
  next
    case lt
    then have ltK: "ord_class.lexordp ?K ?M" using cmp by simp
    show ?thesis
    proof (cases "j < ?mid")
      case True
      with lt less.prems unf le mid less.hyps [of "?mid - 1" topi] show ?thesis by auto
    next
      case False
      then have "?J = ?M \<or> ord_class.lexordp ?M ?J"
        using ord [of ?mid j] less.prems mid by (cases "j = ?mid") auto
      with ltK show ?thesis by (metis lexordp_irreflexive' lexordp_trans)
    qed
  next
    case eq
    with unf le less.prems(4,6) mid show ?thesis by auto
  qed
qed

end

lemma memptr_order:
  fixes k :: "char \<Rightarrow> nat"
  assumes k: "\<And>c. k c = 0 \<longleftrightarrow> c = NUL" and m: "valid_memptr m" and s: "nul_free s"
  defines "c \<equiv> strn_cmp k (mp_buf m) s (mp_length m)"
  defines "r \<equiv> (if c = 0 \<and> mp_length m < List.length s then -1 else c)"
  shows "r = 0 \<longleftrightarrow> map k (text_of m) = map k s"
    and "r < 0 \<longleftrightarrow> ord_class.lexordp (map k (text_of m)) (map k s)"
proof -
  have len: "List.length (text_of m) = mp_length m" and free: "nul_free (text_of m)"
    using m by (simp_all add: valid_memptr_def)
  have "c = strn_cmp k (text_of m) s (List.length (text_of m))"
    unfolding c_def len using m by (intro strn_cmp_take) (simp add: valid_memptr_def)
  then have "r = (let c = strn_cmp k (text_of m) s (List.length (text_of m))
                  in if c = 0 \<and> List.length (text_of m) < List.length s then -1 else c)"
    unfolding r_def len Let_def by simp
  with strn_cmp_order [OF k free s]
  show "r = 0 \<longleftrightarrow> map k (text_of m) = map k s"
    and "r < 0 \<longleftrightarrow> ord_class.lexordp (map k (text_of m)) (map k s)"
    unfolding Let_def by simp_all
qed

interpretation exact: name_order memptr_cmp "map of_char"
  by unfold_locales
    (simp_all only: memptr_cmp_def strncmp_def Let_def memptr_order [OF code_eq_0_iff])

interpretation nocase: name_order memptr_cmp_nocase "map (\<lambda>c. of_char (tolower c))"
  by unfold_locales
    (simp_all only: memptr_cmp_nocase_def strncasecmp_def Let_def memptr_order [OF code_tolower_eq_0_iff])


section \<open>The searches\<close>

lemma exact_key_inj: "exact_key a = exact_key b \<Longrightarrow> a = b"
  by (metis inj_map_eq_map inj_of_char)

lemma nocase_key_eq: "nocase_key a = nocase_key b \<longleftrightarrow> map tolower a = map tolower b"
proof -
  have "nocase_key s = exact_key (map tolower s)" for s by (simp add: comp_def)
  then show ?thesis using exact_key_inj by metis
qed

text \<open>A table the binary search is meant for: NUL-free names in strictly increasing order.\<close>

definition sorted_table :: "(string \<Rightarrow> nat list) \<Rightarrow> str_int_entry list \<Rightarrow> bool" where
  "sorted_table key table \<longleftrightarrow>
     list_all (\<lambda>e. nul_free (ent_name e)) table \<and>
     sorted_wrt (\<lambda>a b. ord_class.lexordp (key (ent_name a)) (key (ent_name b))) table"

lemma map_str_to_int_spec:
  assumes ord: "name_order cmp key"
    and search: "\<And>m. m = \<lparr>mp_buf = name, mp_length = n\<rparr> \<Longrightarrow>
                   i = map_str_loop (cmp m) table 0 (int (List.length table) - 1)"
    and name: "n \<le> List.length name" "nul_free (take n name)" and tab: "sorted_table key table"
  shows "(i = -1 \<and> (\<forall>e \<in> set table. key (ent_name e) \<noteq> key (take n name))) \<or>
         (0 \<le> i \<and> i < int (List.length table) \<and> key (ent_name (table ! nat i)) = key (take n name))"
proof -
  let ?m = "\<lparr>mp_buf = name, mp_length = n\<rparr>"
  have valid: "valid_memptr ?m" using name by (simp add: valid_memptr_def)
  note i = search [OF refl]
  have t: "list_all (\<lambda>e. nul_free (ent_name e)) table"
    "sorted_wrt (\<lambda>a b. ord_class.lexordp (key (ent_name a)) (key (ent_name b))) table"
    using tab by (simp_all add: sorted_table_def)
  show ?thesis
  proof (cases "i = -1")
    case True
    have "key (ent_name (table ! j)) \<noteq> key (take n name)" if "j < List.length table" for j
      using name_order.loop_complete [OF ord valid t, of 0 "int (List.length table) - 1" "int j"]
        that True i by simp
    with True show ?thesis by (auto simp: in_set_conv_nth)
  next
    case False
    with name_order.loop_sound [OF ord valid t(1), of 0 "int (List.length table) - 1" i] i
    show ?thesis by simp
  qed
qed

text \<open>
  C16. The case-sensitive search of \<open>map_str_to_int\<close> in a sorted table returns the index of the
  entry with the given name, and -1 exactly when the table has no such entry.
\<close>

theorem map_str_to_int_exact:
  assumes "n \<le> List.length name" and "nul_free (take n name)" and "sorted_table (map of_char) table"
  defines "i \<equiv> map_str_to_int name n table (int (List.length table)) True"
  shows "(i = -1 \<and> take n name \<notin> ent_name ` set table) \<or>
         (0 \<le> i \<and> i < int (List.length table) \<and> ent_name (table ! nat i) = take n name)"
  using map_str_to_int_spec [OF exact.name_order_axioms _ assms(1-3), of i]
  by (auto simp: i_def map_str_to_int_def dest: exact_key_inj)

theorem map_str_to_int_exact_witness:
  "map_str_to_int ''SIDx'' 3 [entry ''HOST'' 7, entry ''SID'' 18] 2 True = 1 \<and>
   ent_name ([entry ''HOST'' 7, entry ''SID'' 18] ! 1) = ''SID''"
proof -
  have "sorted_table (map of_char) [entry ''HOST'' 7, entry ''SID'' 18]"
    by (simp add: sorted_table_def)
  moreover have "map_str_to_int ''SIDx'' 3 [entry ''HOST'' 7, entry ''SID'' 18] 2 True = 1"
    by code_simp
  ultimately show ?thesis
    using map_str_to_int_exact [of 3 "''SIDx''" "[entry ''HOST'' 7, entry ''SID'' 18]"]
    by simp
qed

text \<open>
  The case-insensitive search returns an entry whose name equals the given one up to case,
  and -1 exactly when there is none.
\<close>

theorem map_str_to_int_nocase:
  assumes "n \<le> List.length name" and "nul_free (take n name)"
    and "sorted_table (map (\<lambda>c. of_char (tolower c))) table"
  defines "i \<equiv> map_str_to_int name n table (int (List.length table)) False"
  shows "(i = -1 \<and> map tolower (take n name) \<notin> (\<lambda>e. map tolower (ent_name e)) ` set table) \<or>
         (0 \<le> i \<and> i < int (List.length table) \<and>
          map tolower (ent_name (table ! nat i)) = map tolower (take n name))"
  using map_str_to_int_spec [OF nocase.name_order_axioms _ assms(1-3), of i]
  by (auto simp: i_def map_str_to_int_def nocase_key_eq)

theorem map_str_to_int_nocase_witness:
  "map_str_to_int ''sId'' 3 [entry ''HOST'' 7, entry ''SID'' 18] 2 False = 1 \<and>
   map tolower (ent_name ([entry ''HOST'' 7, entry ''SID'' 18] ! 1)) = map tolower ''sId''"
proof -
  have "sorted_table (map (\<lambda>c. of_char (tolower c))) [entry ''HOST'' 7, entry ''SID'' 18]"
    by (simp add: sorted_table_def tolower_def isupper_def)
  moreover have "map_str_to_int ''sId'' 3 [entry ''HOST'' 7, entry ''SID'' 18] 2 False = 1"
    by (simp add: map_str_to_int_def map_str_loop.simps memptr_cmp_nocase_def strncasecmp_def
        tolower_def isupper_def numeral_3_eq_3)
  ultimately show ?thesis
    using map_str_to_int_nocase [of 3 "''sId''" "[entry ''HOST'' 7, entry ''SID'' 18]"]
    by simp
qed

text \<open>\<open>map_int_to_str\<close> returns the first entry with the id.\<close>

lemma map_int_loop_spec:
  "(map_int_loop k es i = -1 \<and> k \<notin> ent_id ` set es) \<or>
   (\<exists>j < List.length es. map_int_loop k es i = int (i + j) \<and> ent_id (es ! j) = k \<and>
      (\<forall>l < j. ent_id (es ! l) \<noteq> k))"
proof (induction es arbitrary: i)
  case Nil
  then show ?case by simp
next
  case (Cons e es)
  show ?case
  proof (cases "ent_id e = k")
    case True
    then show ?thesis by (auto intro!: exI [of _ 0])
  next
    case False
    from Cons.IH [of "Suc i"] show ?thesis
    proof
      assume "map_int_loop k es (Suc i) = -1 \<and> k \<notin> ent_id ` set es"
      with False show ?thesis by auto
    next
      assume "\<exists>j < List.length es. map_int_loop k es (Suc i) = int (Suc i + j) \<and> ent_id (es ! j) = k \<and>
        (\<forall>l < j. ent_id (es ! l) \<noteq> k)"
      then obtain j where "j < List.length es" "map_int_loop k es (Suc i) = int (Suc i + j)"
        "ent_id (es ! j) = k" "\<forall>l < j. ent_id (es ! l) \<noteq> k" by blast
      with False show ?thesis
        by (intro disjI2 exI [of _ "Suc j"]) (auto simp: nth_Cons split: nat.splits)
    qed
  qed
qed

end
