(* ===== verification/FreeList.thy ===== *)
theory FreeList
  imports Prelude
begin

text \<open>
  \<open>threadutil/src/FreeList.c\<close> over an explicit store.

  The store keeps, for every address, the words of a node that the code reads and writes. A
  node on a free list uses its first word as \<open>FreeListNode.next\<close>; the same word is
  \<open>ListNode.prev\<close> when the node is on a linked list, as the C cast makes it. \<open>h_live\<close> are the
  blocks that are allocated, so a leak or a double free shows. A pointer to a structure is an
  option, \<open>None\<close> being NULL.
\<close>

abbreviation (input) EINVAL :: int where "EINVAL \<equiv> 22"

record 'i heap =
  h_oom :: "bool list"
  h_brk :: addr
  h_live :: "addr set"
  h_w0 :: "addr \<Rightarrow> addr"
  h_w1 :: "addr \<Rightarrow> addr"
  h_w2 :: "addr \<Rightarrow> 'i option"
  h_freed :: "'i option list"

definition h_malloc :: "'i heap \<Rightarrow> addr \<times> 'i heap" where
  "h_malloc h =
     (case h_oom h of
        True # r \<Rightarrow> (NULL, h\<lparr>h_oom := r\<rparr>)
      | _ \<Rightarrow> (h_brk h, h\<lparr>h_oom := tl (h_oom h), h_brk := Suc (h_brk h),
                          h_live := insert (h_brk h) (h_live h)\<rparr>))"

definition h_free :: "addr \<Rightarrow> 'i heap \<Rightarrow> 'i heap" where
  "h_free p h = (if p = NULL then h else h\<lparr>h_live := h_live h - {p}\<rparr>)"

definition heap_ok :: "'i heap \<Rightarrow> bool" where
  "heap_ok h \<longleftrightarrow> 0 < h_brk h \<and> (\<forall>a \<in> h_live h. 0 < a \<and> a < h_brk h)"


section \<open>Operations\<close>

record FreeList =
  fl_head :: addr
  fl_element_size :: nat
  fl_maxFreeListLength :: int
  fl_freeListLength :: int

definition FreeListInit :: "FreeList option \<Rightarrow> nat \<Rightarrow> int \<Rightarrow> int \<times> FreeList option" where
  "FreeListInit free_list elementSize maxFreeListLength =
     (case free_list of
        None \<Rightarrow> (EINVAL, None)
      | Some fl \<Rightarrow>
          (0, Some (fl\<lparr>fl_element_size := elementSize, fl_maxFreeListLength := maxFreeListLength,
                      fl_head := NULL, fl_freeListLength := 0\<rparr>)))"

definition FreeListAlloc :: "'i heap \<Rightarrow> FreeList option \<Rightarrow> addr \<times> 'i heap \<times> FreeList option" where
  "FreeListAlloc h free_list =
     (case free_list of
        None \<Rightarrow> (NULL, h, None)
      | Some fl \<Rightarrow>
          if fl_head fl \<noteq> NULL then
            (fl_head fl, h,
             Some (fl\<lparr>fl_head := h_w0 h (fl_head fl), fl_freeListLength := fl_freeListLength fl - 1\<rparr>))
          else (case h_malloc h of (ret, h') \<Rightarrow> (ret, h', Some fl)))"

definition FreeListFree ::
  "'i heap \<Rightarrow> FreeList option \<Rightarrow> addr \<Rightarrow> int \<times> 'i heap \<times> FreeList option" where
  "FreeListFree h free_list element =
     (case free_list of
        None \<Rightarrow> (EINVAL, h, None)
      | Some fl \<Rightarrow>
          if element \<noteq> NULL \<and> fl_freeListLength fl + 1 < fl_maxFreeListLength fl then
            (0, h\<lparr>h_w0 := (h_w0 h)(element := fl_head fl)\<rparr>,
             Some (fl\<lparr>fl_freeListLength := fl_freeListLength fl + 1, fl_head := element\<rparr>))
          else (0, h_free element h, Some fl))"

text \<open>The \<open>while (free_list->head)\<close> loop of \<open>FreeListDestroy\<close>; it ends on an acyclic list.\<close>

partial_function (option) FreeListDestroy_loop :: "'i heap \<Rightarrow> addr \<Rightarrow> 'i heap option" where
  "FreeListDestroy_loop h p =
     (if p = NULL then Some h else FreeListDestroy_loop (h_free p h) (h_w0 h p))"

definition FreeListDestroy ::
  "'i heap \<Rightarrow> FreeList option \<Rightarrow> (int \<times> 'i heap \<times> FreeList option) option" where
  "FreeListDestroy h free_list =
     (case free_list of
        None \<Rightarrow> Some (EINVAL, h, None)
      | Some fl \<Rightarrow>
          map_option (\<lambda>h'. (0, h', Some (fl\<lparr>fl_head := NULL, fl_freeListLength := 0\<rparr>)))
            (FreeListDestroy_loop h (fl_head fl)))"

declare FreeListDestroy_loop.simps [code]


section \<open>The list of cached blocks\<close>

primrec chain :: "(addr \<Rightarrow> addr) \<Rightarrow> addr \<Rightarrow> addr list \<Rightarrow> bool" where
  "chain f p [] \<longleftrightarrow> p = NULL"
| "chain f p (x # xs) \<longleftrightarrow> p = x \<and> x \<noteq> NULL \<and> chain f (f x) xs"

lemma chain_upd [simp]: "a \<notin> set xs \<Longrightarrow> chain (f(a := v)) p xs = chain f p xs"
  by (induction xs arbitrary: p) auto

lemma chain_not_null: "chain f p xs \<Longrightarrow> NULL \<notin> set xs"
  by (induction xs arbitrary: p) auto

text \<open>
  \<open>fl_inv h fl xs\<close>: \<open>fl\<close> caches exactly the blocks \<open>xs\<close>, all allocated, and its counter and
  bound are right. Because the source tests \<open>freeListLength + 1 < maxFreeListLength\<close>, a list
  never caches more than \<open>maxFreeListLength - 1\<close> blocks.
\<close>

definition fl_inv :: "'i heap \<Rightarrow> FreeList \<Rightarrow> addr list \<Rightarrow> bool" where
  "fl_inv h fl xs \<longleftrightarrow>
     chain (h_w0 h) (fl_head fl) xs \<and> distinct xs \<and> set xs \<subseteq> h_live h \<and>
     fl_freeListLength fl = int (List.length xs) \<and>
     (xs = [] \<or> fl_freeListLength fl < fl_maxFreeListLength fl)"

lemma FreeListInit_inv:
  "FreeListInit (Some fl) sz mx = (rc, fl') \<Longrightarrow> rc = 0 \<and> fl_inv h (the fl') []"
  by (auto simp: FreeListInit_def fl_inv_def)

lemma h_malloc_ok:
  assumes "heap_ok h" and "h_malloc h = (p, h')"
  shows "heap_ok h'"
    and "h_w0 h' = h_w0 h" "h_w1 h' = h_w1 h" "h_w2 h' = h_w2 h" "h_freed h' = h_freed h"
    and "h_brk h \<le> h_brk h'" "h_oom h' = tl (h_oom h)"
    and "p = NULL \<longleftrightarrow> (\<exists>r. h_oom h = True # r)"
    and "p = NULL \<Longrightarrow> h_live h' = h_live h"
    and "p \<noteq> NULL \<Longrightarrow> p = h_brk h \<and> p < h_brk h' \<and> p \<notin> h_live h \<and> h_live h' = insert p (h_live h)"
  using assms
  by (auto simp: h_malloc_def heap_ok_def less_SucI split: list.splits bool.splits)

lemma heap_ok_free: "heap_ok h \<Longrightarrow> heap_ok (h_free p h)"
  by (auto simp: heap_ok_def h_free_def)

lemma heap_ok_words [simp]:
  "heap_ok (h\<lparr>h_w0 := a\<rparr>) = heap_ok h" "heap_ok (h\<lparr>h_w1 := b\<rparr>) = heap_ok h"
  "heap_ok (h\<lparr>h_w2 := c\<rparr>) = heap_ok h" "heap_ok (h\<lparr>h_freed := d\<rparr>) = heap_ok h"
  by (auto simp: heap_ok_def)

lemma FreeListAlloc_cached:
  assumes "fl_inv h fl (x # xs)"
  shows "\<exists>fl'. FreeListAlloc h (Some fl) = (x, h, Some fl') \<and> fl_inv h fl' xs \<and>
           fl_maxFreeListLength fl' = fl_maxFreeListLength fl"
  using assms by (auto simp: FreeListAlloc_def fl_inv_def)

lemma FreeListAlloc_empty:
  assumes "fl_inv h fl []"
  shows "FreeListAlloc h (Some fl) = (case h_malloc h of (p, h') \<Rightarrow> (p, h', Some fl))"
  using assms by (auto simp: FreeListAlloc_def fl_inv_def)

lemma FreeListFree_ok:
  assumes "fl_inv h fl xs" and "p \<in> h_live h" and "p \<notin> set xs" and "heap_ok h"
  shows "\<exists>h' fl'. FreeListFree h (Some fl) p = (0, h', Some fl') \<and> heap_ok h' \<and>
           fl_maxFreeListLength fl' = fl_maxFreeListLength fl \<and>
           (if int (List.length xs) + 1 < fl_maxFreeListLength fl
            then h' = h\<lparr>h_w0 := (h_w0 h)(p := fl_head fl)\<rparr> \<and> fl_inv h' fl' (p # xs)
            else h' = h\<lparr>h_live := h_live h - {p}\<rparr> \<and> fl_inv h' fl' xs)"
proof -
  have "p \<noteq> NULL" using assms(2,4) by (auto simp: heap_ok_def)
  then show ?thesis
    using assms
    by (auto simp: FreeListFree_def fl_inv_def h_free_def heap_ok_def)
qed

lemma FreeListDestroy_loop_ok:
  assumes "chain (h_w0 h) p xs" and "distinct xs"
  shows "FreeListDestroy_loop h p = Some (h\<lparr>h_live := h_live h - set xs\<rparr>)"
  using assms
proof (induction xs arbitrary: h p)
  case Nil
  then show ?case by (simp add: FreeListDestroy_loop.simps)
next
  case (Cons x xs)
  then have "chain (h_w0 (h_free x h)) (h_w0 h x) xs" by (simp add: h_free_def)
  from Cons.IH [OF this] Cons.prems show ?case
    by (subst FreeListDestroy_loop.simps)
      (auto simp: h_free_def Diff_insert2 [symmetric] insert_Diff_if intro!: arg_cong [where f = "\<lambda>s. h\<lparr>h_live := s\<rparr>"])
qed

lemma FreeListDestroy_ok:
  assumes "fl_inv h fl xs"
  shows "\<exists>fl'. FreeListDestroy h (Some fl) = Some (0, h\<lparr>h_live := h_live h - set xs\<rparr>, Some fl') \<and>
           fl_inv (h\<lparr>h_live := h_live h - set xs\<rparr>) fl' []"
  using assms FreeListDestroy_loop_ok [of h "fl_head fl" xs]
  by (auto simp: FreeListDestroy_def fl_inv_def)

end
