(* ===== verification/LinkedList.thy ===== *)
theory LinkedList
  imports FreeList
begin

text \<open>
  \<open>threadutil/src/LinkedList.c\<close> over the store of \<open>FreeList\<close>.

  The two sentinel nodes are part of the list structure, so a list is given by their addresses
  (\<open>&list->head\<close> and \<open>&list->tail\<close>) and the remaining fields. Every operation is the source's
  sequence of pointer assignments. \<open>list_inv\<close> relates a list to the nodes it links, the items
  they hold and the blocks its free list caches; the lemmas show that each operation computes
  the expected list of items, and \<open>ListDestroy\<close> that no node is leaked.
\<close>

abbreviation (input) FREELISTSIZE :: int where "FREELISTSIZE \<equiv> 100"

abbreviation (input) sizeof_ListNode :: nat where "sizeof_ListNode \<equiv> 24"

record 'i LinkedList =
  ll_head :: addr
  ll_tail :: addr
  ll_size :: int
  ll_freeNodeList :: FreeList
  ll_free_func :: bool
  ll_cmp_func :: "('i option \<Rightarrow> 'i option \<Rightarrow> bool) option"


section \<open>Operations\<close>

definition freeListNode :: "'i heap \<Rightarrow> addr \<Rightarrow> 'i LinkedList \<Rightarrow> int \<times> 'i heap \<times> 'i LinkedList" where
  "freeListNode h node list =
     (case FreeListFree h (Some (ll_freeNodeList list)) node of
        (rc, h', fl) \<Rightarrow> (rc, h', list\<lparr>ll_freeNodeList := the fl\<rparr>))"

definition CreateListNode ::
  "'i heap \<Rightarrow> 'i option \<Rightarrow> 'i LinkedList \<Rightarrow> addr \<times> 'i heap \<times> 'i LinkedList" where
  "CreateListNode h item list =
     (case FreeListAlloc h (Some (ll_freeNodeList list)) of
        (temp, h1, fl) \<Rightarrow>
          (temp,
           if temp \<noteq> NULL then
             h1\<lparr>h_w0 := (h_w0 h1)(temp := NULL), h_w1 := (h_w1 h1)(temp := NULL),
                h_w2 := (h_w2 h1)(temp := item)\<rparr>
           else h1,
           list\<lparr>ll_freeNodeList := the fl\<rparr>))"

definition ListInit ::
  "'i heap \<Rightarrow> 'i LinkedList option \<Rightarrow> ('i option \<Rightarrow> 'i option \<Rightarrow> bool) option \<Rightarrow> bool
     \<Rightarrow> int \<times> 'i heap \<times> 'i LinkedList option" where
  "ListInit h lp cmp_func free_func =
     (case lp of
        None \<Rightarrow> (EINVAL, h, None)
      | Some l \<Rightarrow>
          (case FreeListInit (Some (ll_freeNodeList l)) sizeof_ListNode FREELISTSIZE of
             (retCode, fl) \<Rightarrow>
               (retCode,
                h\<lparr>h_w0 := (h_w0 h)(ll_head l := NULL, ll_tail l := ll_head l),
                  h_w1 := (h_w1 h)(ll_head l := ll_tail l, ll_tail l := NULL),
                  h_w2 := (h_w2 h)(ll_head l := None, ll_tail l := None)\<rparr>,
                Some (l\<lparr>ll_size := 0, ll_cmp_func := cmp_func, ll_free_func := free_func,
                       ll_freeNodeList := the fl\<rparr>))))"

definition ListAddAfter ::
  "'i heap \<Rightarrow> 'i LinkedList option \<Rightarrow> 'i option \<Rightarrow> addr \<Rightarrow> addr \<times> 'i heap \<times> 'i LinkedList option" where
  "ListAddAfter h lp item bnode =
     (case lp of
        None \<Rightarrow> (NULL, h, None)
      | Some list \<Rightarrow>
          if bnode = NULL then (NULL, h, Some list)
          else
            (case CreateListNode h item list of
               (newNode, h1, l1) \<Rightarrow>
                 if newNode \<noteq> NULL then
                   (let temp = h_w1 h1 bnode;
                        h2 = h1\<lparr>h_w1 := (h_w1 h1)(bnode := newNode)\<rparr>;
                        h3 = h2\<lparr>h_w0 := (h_w0 h2)(newNode := bnode)\<rparr>;
                        h4 = h3\<lparr>h_w1 := (h_w1 h3)(newNode := temp)\<rparr>;
                        h5 = h4\<lparr>h_w0 := (h_w0 h4)(temp := newNode)\<rparr>
                    in (newNode, h5, Some (l1\<lparr>ll_size := ll_size l1 + 1\<rparr>)))
                 else (NULL, h1, Some l1)))"

definition ListAddBefore ::
  "'i heap \<Rightarrow> 'i LinkedList option \<Rightarrow> 'i option \<Rightarrow> addr \<Rightarrow> addr \<times> 'i heap \<times> 'i LinkedList option" where
  "ListAddBefore h lp item anode =
     (case lp of
        None \<Rightarrow> (NULL, h, None)
      | Some list \<Rightarrow>
          if anode = NULL then (NULL, h, Some list)
          else
            (case CreateListNode h item list of
               (newNode, h1, l1) \<Rightarrow>
                 if newNode \<noteq> NULL then
                   (let temp = h_w0 h1 anode;
                        h2 = h1\<lparr>h_w0 := (h_w0 h1)(anode := newNode)\<rparr>;
                        h3 = h2\<lparr>h_w1 := (h_w1 h2)(newNode := anode)\<rparr>;
                        h4 = h3\<lparr>h_w0 := (h_w0 h3)(newNode := temp)\<rparr>;
                        h5 = h4\<lparr>h_w1 := (h_w1 h4)(temp := newNode)\<rparr>
                    in (newNode, h5, Some (l1\<lparr>ll_size := ll_size l1 + 1\<rparr>)))
                 else (NULL, h1, Some l1)))"

definition ListAddHead ::
  "'i heap \<Rightarrow> 'i LinkedList option \<Rightarrow> 'i option \<Rightarrow> addr \<times> 'i heap \<times> 'i LinkedList option" where
  "ListAddHead h lp item =
     (case lp of None \<Rightarrow> (NULL, h, None) | Some list \<Rightarrow> ListAddAfter h lp item (ll_head list))"

definition ListAddTail ::
  "'i heap \<Rightarrow> 'i LinkedList option \<Rightarrow> 'i option \<Rightarrow> addr \<times> 'i heap \<times> 'i LinkedList option" where
  "ListAddTail h lp item =
     (case lp of None \<Rightarrow> (NULL, h, None) | Some list \<Rightarrow> ListAddBefore h lp item (ll_tail list))"

definition ListDelNode ::
  "'i heap \<Rightarrow> 'i LinkedList option \<Rightarrow> addr \<Rightarrow> bool \<Rightarrow> 'i option \<times> 'i heap \<times> 'i LinkedList option" where
  "ListDelNode h lp dnode freeItem =
     (case lp of
        None \<Rightarrow> (None, h, None)
      | Some list \<Rightarrow>
          if dnode = ll_head list \<or> dnode = ll_tail list \<or> dnode = NULL then (None, h, Some list)
          else
            (let temp = h_w2 h dnode;
                 h1 = h\<lparr>h_w1 := (h_w1 h)(h_w0 h dnode := h_w1 h dnode)\<rparr>;
                 h2 = h1\<lparr>h_w0 := (h_w0 h1)(h_w1 h1 dnode := h_w0 h1 dnode)\<rparr>
             in case freeListNode h2 dnode list of
                  (_, h3, l1) \<Rightarrow>
                    (let l2 = l1\<lparr>ll_size := ll_size l1 - 1\<rparr>
                     in if freeItem \<and> ll_free_func l2
                        then (None, h3\<lparr>h_freed := h_freed h3 @ [temp]\<rparr>, Some l2)
                        else (temp, h3, Some l2))))"

partial_function (option) ListDestroy_loop ::
  "'i heap \<Rightarrow> 'i LinkedList \<Rightarrow> bool \<Rightarrow> addr \<Rightarrow> ('i heap \<times> 'i LinkedList) option" where
  "ListDestroy_loop h list freeItem dnode =
     (if dnode = ll_tail list then Some (h, list)
      else
        (let temp = h_w1 h dnode
         in case ListDelNode h (Some list) dnode freeItem of
              (_, h', l') \<Rightarrow> ListDestroy_loop h' (the l') freeItem temp))"

definition ListDestroy ::
  "'i heap \<Rightarrow> 'i LinkedList option \<Rightarrow> bool \<Rightarrow> (int \<times> 'i heap \<times> 'i LinkedList option) option" where
  "ListDestroy h lp freeItem =
     (case lp of
        None \<Rightarrow> Some (EINVAL, h, None)
      | Some list \<Rightarrow>
          Option.bind (ListDestroy_loop h list freeItem (h_w1 h (ll_head list))) (\<lambda>(h1, l1).
          Option.bind (FreeListDestroy h1 (Some (ll_freeNodeList l1))) (\<lambda>(_, h2, fl).
            Some (0, h2, Some (l1\<lparr>ll_size := 0, ll_freeNodeList := the fl\<rparr>)))))"

definition ListHead :: "'i heap \<Rightarrow> 'i LinkedList option \<Rightarrow> addr" where
  "ListHead h lp =
     (case lp of None \<Rightarrow> NULL | Some list \<Rightarrow> if ll_size list = 0 then NULL else h_w1 h (ll_head list))"

definition ListTail :: "'i heap \<Rightarrow> 'i LinkedList option \<Rightarrow> addr" where
  "ListTail h lp =
     (case lp of None \<Rightarrow> NULL | Some list \<Rightarrow> if ll_size list = 0 then NULL else h_w0 h (ll_tail list))"

definition ListNext :: "'i heap \<Rightarrow> 'i LinkedList option \<Rightarrow> addr \<Rightarrow> addr" where
  "ListNext h lp node =
     (case lp of
        None \<Rightarrow> NULL
      | Some list \<Rightarrow>
          if node = NULL then NULL else if h_w1 h node = ll_tail list then NULL else h_w1 h node)"

definition ListPrev :: "'i heap \<Rightarrow> 'i LinkedList option \<Rightarrow> addr \<Rightarrow> addr" where
  "ListPrev h lp node =
     (case lp of
        None \<Rightarrow> NULL
      | Some list \<Rightarrow>
          if node = NULL then NULL else if h_w0 h node = ll_head list then NULL else h_w0 h node)"

partial_function (option) ListFind_loop ::
  "'i heap \<Rightarrow> 'i LinkedList \<Rightarrow> 'i option \<Rightarrow> addr \<Rightarrow> addr option" where
  "ListFind_loop h list item finger =
     (if finger = ll_tail list then Some NULL
      else if (case ll_cmp_func list of
                 Some cmp \<Rightarrow> cmp item (h_w2 h finger)
               | None \<Rightarrow> item = h_w2 h finger)
      then Some finger
      else ListFind_loop h list item (h_w1 h finger))"

definition ListFind :: "'i heap \<Rightarrow> 'i LinkedList option \<Rightarrow> addr \<Rightarrow> 'i option \<Rightarrow> addr option" where
  "ListFind h lp start item =
     (case lp of
        None \<Rightarrow> Some NULL
      | Some list \<Rightarrow>
          ListFind_loop h list item (h_w1 h (if start = NULL then ll_head list else start)))"

definition ListSize :: "'i LinkedList option \<Rightarrow> int" where
  "ListSize lp = (case lp of None \<Rightarrow> EINVAL | Some list \<Rightarrow> ll_size list)"

declare ListDestroy_loop.simps [code] ListFind_loop.simps [code]


section \<open>Linked nodes\<close>

fun linked :: "(addr \<Rightarrow> addr) \<Rightarrow> (addr \<Rightarrow> addr) \<Rightarrow> addr list \<Rightarrow> bool" where
  "linked nx pv (a # b # r) \<longleftrightarrow> nx a = b \<and> pv b = a \<and> linked nx pv (b # r)"
| "linked nx pv _ \<longleftrightarrow> True"

lemma linked_split:
  "linked nx pv (xs @ a # b # ys) \<longleftrightarrow>
     linked nx pv (xs @ [a]) \<and> nx a = b \<and> pv b = a \<and> linked nx pv (b # ys)"
proof (induction xs)
  case Nil
  then show ?case by simp
next
  case (Cons x xs)
  then show ?case by (cases xs) auto
qed

lemma linked_nx_upd:
  "a \<notin> set (butlast ps) \<Longrightarrow> linked (nx(a := v)) pv ps = linked nx pv ps"
  by (induction nx pv ps rule: linked.induct) auto

lemma linked_pv_upd:
  "a \<notin> set (tl ps) \<Longrightarrow> linked nx (pv(a := v)) ps = linked nx pv ps"
  by (induction nx pv ps rule: linked.induct) auto

text \<open>
  \<open>list_inv h l ns fs\<close>: between its sentinels \<open>l\<close> links exactly the nodes \<open>ns\<close>, in both
  directions, and caches the blocks \<open>fs\<close>.
\<close>

definition list_inv :: "'i heap \<Rightarrow> 'i LinkedList \<Rightarrow> addr list \<Rightarrow> addr list \<Rightarrow> bool" where
  "list_inv h l ns fs \<longleftrightarrow>
     heap_ok h \<and>
     linked (h_w1 h) (h_w0 h) (ll_head l # ns @ [ll_tail l]) \<and>
     distinct (ll_head l # ll_tail l # ns @ fs) \<and>
     ll_head l \<notin> insert NULL (h_live h) \<and> ll_tail l \<notin> insert NULL (h_live h) \<and>
     ll_head l < h_brk h \<and> ll_tail l < h_brk h \<and>
     set ns \<subseteq> h_live h \<and>
     ll_size l = int (List.length ns) \<and>
     fl_inv h (ll_freeNodeList l) fs \<and> fl_maxFreeListLength (ll_freeNodeList l) = FREELISTSIZE"

abbreviation items :: "'i heap \<Rightarrow> addr list \<Rightarrow> 'i option list" where
  "items h ns \<equiv> map (h_w2 h) ns"


lemma list_invD:
  assumes "list_inv h l ns fs"
  shows "heap_ok h" "linked (h_w1 h) (h_w0 h) (ll_head l # ns @ [ll_tail l])"
    "distinct (ll_head l # ll_tail l # ns @ fs)" "set ns \<subseteq> h_live h"
    "ll_size l = int (List.length ns)" "fl_inv h (ll_freeNodeList l) fs"
    "fl_maxFreeListLength (ll_freeNodeList l) = FREELISTSIZE"
  using assms by (simp_all add: list_inv_def)

lemma list_inv_not_null:
  "list_inv h l ns fs \<Longrightarrow> a \<in> set (ll_head l # ll_tail l # ns) \<Longrightarrow> a \<noteq> NULL"
  by (auto simp: list_inv_def heap_ok_def)

lemma linked_insert:
  assumes lk: "linked nx pv (xs @ a # b # ys)" and d: "distinct (xs @ a # b # ys)"
    and n: "n \<notin> set (xs @ a # b # ys)"
  shows "linked (nx(a := n, n := b)) (pv(n := a, b := n)) (xs @ a # n # b # ys)"
proof -
  from lk have parts: "linked nx pv (xs @ [a])" "linked nx pv (b # ys)"
    by (simp_all add: linked_split)
  have "linked (nx(a := n, n := b)) (pv(n := a, b := n)) (xs @ [a]) = linked nx pv (xs @ [a])"
  proof -
    have "b \<notin> set (tl (xs @ [a]))" "n \<notin> set (tl (xs @ [a]))"
      using d n by (cases xs; auto)+
    then show ?thesis using d n by (simp add: linked_pv_upd linked_nx_upd)
  qed
  moreover have "linked (nx(a := n, n := b)) (pv(n := a, b := n)) (b # ys) = linked nx pv (b # ys)"
  proof -
    have "a \<notin> set (butlast (b # ys))" "n \<notin> set (butlast (b # ys))"
      using d n by (auto dest: in_set_butlastD split: if_splits)
    then show ?thesis using d n by (simp add: linked_pv_upd linked_nx_upd)
  qed
  ultimately show ?thesis using parts n by (simp add: linked_split)
qed

lemma linked_delete:
  assumes lk: "linked nx pv (xs @ a # n # b # ys)" and d: "distinct (xs @ a # n # b # ys)"
  shows "linked (nx(a := b)) (pv(b := a)) (xs @ a # b # ys)"
proof -
  from lk have parts: "linked nx pv (xs @ [a])" "linked nx pv (b # ys)"
    by (simp_all add: linked_split)
  have "linked (nx(a := b)) (pv(b := a)) (xs @ [a]) = linked nx pv (xs @ [a])"
  proof -
    have "b \<notin> set (tl (xs @ [a]))" using d by (cases xs) auto
    then show ?thesis using d by (simp add: linked_pv_upd linked_nx_upd)
  qed
  moreover have "linked (nx(a := b)) (pv(b := a)) (b # ys) = linked nx pv (b # ys)"
  proof -
    have "a \<notin> set (butlast (b # ys))" using d by (auto dest: in_set_butlastD split: if_splits)
    then show ?thesis using d by (simp add: linked_pv_upd linked_nx_upd)
  qed
  ultimately show ?thesis using parts by (simp add: linked_split)
qed

text \<open>
  A position of the list: \<open>p\<close> are the nodes before it, \<open>s\<close> those after it; \<open>a\<close> and \<open>b\<close> are
  its neighbours, which may be the sentinels.
\<close>

definition position :: "'i LinkedList \<Rightarrow> addr list \<Rightarrow> addr list \<Rightarrow> addr \<Rightarrow> addr \<Rightarrow> bool" where
  "position l p s a b \<longleftrightarrow> a = last (ll_head l # p) \<and> b = hd (s @ [ll_tail l])"

lemma position_ex: "\<exists>a b. position l p s a b"
  by (simp add: position_def)

lemma position_path:
  assumes "position l p s a b"
  obtains xs ys where "ll_head l # p = xs @ [a]" and "s @ [ll_tail l] = b # ys"
proof -
  have "ll_head l # p = butlast (ll_head l # p) @ [a]"
    using assms by (simp only: position_def append_butlast_last_id list.distinct not_False_eq_True)
  moreover have "s @ [ll_tail l] = b # tl (s @ [ll_tail l])"
    using assms by (simp add: position_def)
  ultimately show ?thesis by (rule that)
qed

lemma position_neighbours:
  assumes inv: "list_inv h l (p @ s) fs" and pos: "position l p s a b"
  shows "h_w1 h a = b \<and> h_w0 h b = a \<and> a \<noteq> b \<and> a \<in> set (ll_head l # p) \<and> b \<in> set (s @ [ll_tail l])"
proof -
  obtain xs ys where eq: "ll_head l # p = xs @ [a]" "s @ [ll_tail l] = b # ys"
    by (rule position_path [OF pos])
  have path: "ll_head l # (p @ s) @ [ll_tail l] = xs @ a # b # ys"
    using eq by (metis append.assoc append_Cons append_Nil)
  have "distinct (ll_head l # (p @ s) @ [ll_tail l])" using list_invD(3) [OF inv] by auto
  then have "a \<noteq> b" unfolding path by auto
  moreover have "a \<in> set (ll_head l # p)" "b \<in> set (s @ [ll_tail l])" unfolding eq by auto
  ultimately show ?thesis
    using list_invD(2) [OF inv] unfolding path by (simp add: linked_split)
qed

lemma list_inv_insert:
  assumes inv: "list_inv h l (p @ s) fs" and pos: "position l p s a b"
    and n: "n \<in> h_live h" "n \<notin> set (p @ s @ fs)"
  shows "list_inv (h\<lparr>h_w1 := (h_w1 h)(a := n, n := b), h_w0 := (h_w0 h)(n := a, b := n)\<rparr>)
           (l\<lparr>ll_size := ll_size l + 1\<rparr>) (p @ n # s) fs"
proof -
  obtain xs ys where eq: "ll_head l # p = xs @ [a]" "s @ [ll_tail l] = b # ys"
    by (rule position_path [OF pos])
  have path: "ll_head l # (p @ s) @ [ll_tail l] = xs @ a # b # ys"
    "ll_head l # (p @ n # s) @ [ll_tail l] = xs @ a # n # b # ys"
    using eq by (metis append.assoc append_Cons append_Nil)+
  note D = list_invD [OF inv]
  have hn: "n \<noteq> ll_head l" "n \<noteq> ll_tail l" using inv n by (auto simp: list_inv_def)
  have d: "distinct (ll_head l # (p @ s) @ [ll_tail l])" using D(3) by auto
  have nin: "n \<notin> set (ll_head l # (p @ s) @ [ll_tail l])" using hn n by auto
  have lk: "linked ((h_w1 h)(a := n, n := b)) ((h_w0 h)(n := a, b := n))
              (ll_head l # (p @ n # s) @ [ll_tail l])"
    using linked_insert [of "h_w1 h" "h_w0 h" xs a b ys n] D(2) d nin unfolding path by simp
  have b: "b \<notin> set fs"
    using position_neighbours [OF inv pos] D(3) by auto
  have "fl_inv (h\<lparr>h_w1 := (h_w1 h)(a := n, n := b), h_w0 := (h_w0 h)(n := a, b := n)\<rparr>)
          (ll_freeNodeList l) fs"
    using D(6) b n by (auto simp: fl_inv_def)
  with lk inv n hn show ?thesis by (auto simp: list_inv_def)
qed

lemma ListInit_ok:
  assumes "heap_ok h" and "ll_head l \<noteq> ll_tail l" and "ll_head l \<notin> insert NULL (h_live h)"
    and "ll_tail l \<notin> insert NULL (h_live h)" and "ll_head l < h_brk h" "ll_tail l < h_brk h"
  shows "\<exists>h' l'. ListInit h (Some l) cmp ff = (0, h', Some l') \<and> list_inv h' l' [] [] \<and>
           ll_cmp_func l' = cmp \<and> ll_free_func l' = ff"
  using assms by (auto simp: ListInit_def FreeListInit_def list_inv_def fl_inv_def)


text \<open>
  Creating a node takes a cached block, or a fresh one. It fails only when no block is cached
  and \<open>malloc\<close> fails; nothing of the list changes then.
\<close>

lemma CreateListNode_ok:
  assumes inv: "list_inv h l ns fs"
  shows "\<exists>n h' l'. CreateListNode h item l = (n, h', l') \<and>
           (if n = NULL then fs = [] \<and> (\<exists>r. h_oom h = True # r) \<and> h' = h\<lparr>h_oom := tl (h_oom h)\<rparr> \<and> l' = l
            else list_inv h' l' ns (tl fs) \<and> n \<in> h_live h' \<and> n \<notin> set (ns @ tl fs) \<and>
                 n \<noteq> ll_head l \<and> n \<noteq> ll_tail l \<and> h_w2 h' = (h_w2 h)(n := item) \<and>
                 h_freed h' = h_freed h \<and> h_live h' = insert n (h_live h) \<and>
                 (\<exists>fl. l' = l\<lparr>ll_freeNodeList := fl\<rparr>) \<and>
                 (if fs = [] then n = h_brk h \<and> h_oom h' = tl (h_oom h) \<and> (\<forall>r. h_oom h \<noteq> True # r)
                  else n = hd fs \<and> h_oom h' = h_oom h))"
proof (cases fs)
  case Nil
  note D = list_invD [OF inv]
  obtain n h1 where m: "h_malloc h = (n, h1)" by (cases "h_malloc h") auto
  note M = h_malloc_ok [OF D(1) m]
  have al: "FreeListAlloc h (Some (ll_freeNodeList l)) = (n, h1, Some (ll_freeNodeList l))"
    using FreeListAlloc_empty D(6) Nil m by (metis case_prod_conv)
  show ?thesis
  proof (cases "n = NULL")
    case True
    then obtain r where "h_oom h = True # r" using M(8) by blast
    with m have "h1 = h\<lparr>h_oom := tl (h_oom h)\<rparr>" by (simp add: h_malloc_def)
    with True al Nil M(8) show ?thesis by (simp add: CreateListNode_def)
  next
    case False
    note fresh = M(10) [OF False]
    have out: "n \<notin> set (ll_head l # ll_tail l # ns)"
      using inv fresh by (auto simp: list_inv_def heap_ok_def)
    let ?h = "h1\<lparr>h_w0 := (h_w0 h1)(n := NULL), h_w1 := (h_w1 h1)(n := NULL),
                   h_w2 := (h_w2 h1)(n := item)\<rparr>"
    have noom: "\<forall>r. h_oom h \<noteq> True # r" using M(8) False by blast
    have "CreateListNode h item l = (n, ?h, l)" using al False by (simp add: CreateListNode_def)
    moreover have "list_inv ?h l ns []"
      using inv out Nil fresh M(1-7)
      by (auto simp: list_inv_def fl_inv_def linked_nx_upd linked_pv_upd butlast_append)
    moreover have "\<exists>fl. l = l\<lparr>ll_freeNodeList := fl\<rparr>" by (rule exI [of _ "ll_freeNodeList l"]) simp
    ultimately show ?thesis
      using False Nil fresh out noom M(2-7) by (intro exI [of _ n] exI [of _ ?h] exI [of _ l]) auto
  qed
next
  case (Cons n fs')
  note D = list_invD [OF inv]
  from FreeListAlloc_cached [of h "ll_freeNodeList l" n fs'] D(6) Cons obtain fl where
    al: "FreeListAlloc h (Some (ll_freeNodeList l)) = (n, h, Some fl)" and fl: "fl_inv h fl fs'"
    and mx: "fl_maxFreeListLength fl = fl_maxFreeListLength (ll_freeNodeList l)" by blast
  have out: "n \<notin> set (ll_head l # ll_tail l # ns @ fs')" "n \<in> h_live h" "n \<noteq> NULL"
    using D(1,3,6) Cons by (auto simp: fl_inv_def heap_ok_def)
  have fl': "fl_inv (h\<lparr>h_w0 := (h_w0 h)(n := NULL), h_w1 := (h_w1 h)(n := NULL),
                       h_w2 := (h_w2 h)(n := item)\<rparr>) fl fs'"
    using fl out by (auto simp: fl_inv_def)
  have "list_inv (h\<lparr>h_w0 := (h_w0 h)(n := NULL), h_w1 := (h_w1 h)(n := NULL),
                     h_w2 := (h_w2 h)(n := item)\<rparr>) (l\<lparr>ll_freeNodeList := fl\<rparr>) ns fs'"
    using inv out Cons fl' mx
    by (auto simp: list_inv_def linked_nx_upd linked_pv_upd butlast_append)
  with al Cons out show ?thesis by (auto simp: CreateListNode_def insert_absorb)
qed


section \<open>What the operations compute\<close>

lemma heap_upd_swap: "h\<lparr>h_w1 := u, h_w0 := v\<rparr> = h\<lparr>h_w0 := v, h_w1 := u\<rparr>"
  by simp

text \<open>
  The contract of an insertion: on success the new node is linked at the position, every other
  node keeps its item, and the node came from the cache if there was one; on failure (only with
  an empty cache) the list is as it was.
\<close>

definition inserts ::
  "'i heap \<Rightarrow> 'i LinkedList \<Rightarrow> addr list \<Rightarrow> addr list \<Rightarrow> addr list \<Rightarrow> 'i option \<Rightarrow>
   addr \<Rightarrow> 'i heap \<Rightarrow> 'i LinkedList \<Rightarrow> bool" where
  "inserts h l p s fs item n h' l' \<longleftrightarrow>
     (if n = NULL
      then fs = [] \<and> (\<exists>r. h_oom h = True # r) \<and> h' = h\<lparr>h_oom := tl (h_oom h)\<rparr> \<and> l' = l
      else list_inv h' l' (p @ n # s) (tl fs) \<and> n \<notin> set (p @ s) \<and>
           h_w2 h' = (h_w2 h)(n := item) \<and> h_freed h' = h_freed h \<and> h_live h' = insert n (h_live h) \<and>
           ll_cmp_func l' = ll_cmp_func l \<and> ll_free_func l' = ll_free_func l \<and>
           ll_head l' = ll_head l \<and> ll_tail l' = ll_tail l \<and>
           (if fs = [] then h_oom h' = tl (h_oom h) \<and> (\<forall>r. h_oom h \<noteq> True # r) \<and> n = h_brk h
            else h_oom h' = h_oom h \<and> n = hd fs))"

lemma link_node:
  assumes inv: "list_inv h l (p @ s) fs" and pos: "position l p s a b"
    and cr: "CreateListNode h item l = (n, h1, l1)" and n: "n \<noteq> NULL"
  shows "h_w1 h1 a = b" "h_w0 h1 b = a" "a \<noteq> n" "b \<noteq> n" "a \<noteq> b" "a \<noteq> NULL" "b \<noteq> NULL"
    "inserts h l p s fs item n (h1\<lparr>h_w1 := (h_w1 h1)(a := n, n := b), h_w0 := (h_w0 h1)(n := a, b := n)\<rparr>)
       (l1\<lparr>ll_size := ll_size l1 + 1\<rparr>)"
proof -
  from CreateListNode_ok [OF inv, of item] cr n
  have inv1: "list_inv h1 l1 (p @ s) (tl fs)" and live: "n \<in> h_live h1" "n \<notin> set ((p @ s) @ tl fs)"
    and hd: "n \<noteq> ll_head l" "n \<noteq> ll_tail l" and w2: "h_w2 h1 = (h_w2 h)(n := item)"
    and fr: "h_freed h1 = h_freed h" "h_live h1 = insert n (h_live h)"
    and l1: "\<exists>fl. l1 = l\<lparr>ll_freeNodeList := fl\<rparr>"
    and src: "if fs = [] then n = h_brk h \<and> h_oom h1 = tl (h_oom h) \<and> (\<forall>r. h_oom h \<noteq> True # r)
              else n = hd fs \<and> h_oom h1 = h_oom h"
    by auto
  have same: "ll_head l1 = ll_head l" "ll_tail l1 = ll_tail l" "ll_cmp_func l1 = ll_cmp_func l"
    "ll_free_func l1 = ll_free_func l" using l1 by auto
  have pos1: "position l1 p s a b" using pos same by (simp add: position_def)
  note nb = position_neighbours [OF inv1 pos1]
  show "h_w1 h1 a = b" "h_w0 h1 b = a" "a \<noteq> b" using nb by simp_all
  show "a \<noteq> n" "b \<noteq> n" using nb live hd same by auto
  show "a \<noteq> NULL" "b \<noteq> NULL" using nb list_inv_not_null [OF inv1] by auto
  have "list_inv (h1\<lparr>h_w1 := (h_w1 h1)(a := n, n := b), h_w0 := (h_w0 h1)(n := a, b := n)\<rparr>)
       (l1\<lparr>ll_size := ll_size l1 + 1\<rparr>) (p @ n # s) (tl fs)"
    using list_inv_insert [OF inv1 pos1] live by simp
  then show "inserts h l p s fs item n
       (h1\<lparr>h_w1 := (h_w1 h1)(a := n, n := b), h_w0 := (h_w0 h1)(n := a, b := n)\<rparr>)
       (l1\<lparr>ll_size := ll_size l1 + 1\<rparr>)"
    using live n src w2 fr same by (simp add: inserts_def)
qed

lemma create_fails:
  assumes "list_inv h l (p @ s) fs" and "CreateListNode h item l = (NULL, h1, l1)"
  shows "inserts h l p s fs item NULL h1 l1"
  using CreateListNode_ok [OF assms(1), of item] assms(2) by (simp add: inserts_def)

lemma ListAddAfter_ok:
  assumes inv: "list_inv h l (p @ s) fs" and pos: "position l p s a b"
  shows "\<exists>n h' l'. ListAddAfter h (Some l) item a = (n, h', Some l') \<and> inserts h l p s fs item n h' l'"
proof -
  have a: "a \<noteq> NULL" using position_neighbours [OF inv pos] list_inv_not_null [OF inv] by auto
  obtain n h1 l1 where cr: "CreateListNode h item l = (n, h1, l1)"
    by (cases "CreateListNode h item l") auto
  show ?thesis
  proof (cases "n = NULL")
    case True
    with create_fails [OF inv] cr a show ?thesis by (simp add: ListAddAfter_def)
  next
    case False
    note L = link_node [OF inv pos cr False]
    have upd: "(h_w1 h1)(a := n, n := b) = (h_w1 h1)(a := n, n := h_w1 h1 a)"
      "(h_w0 h1)(n := a, b := n) = (h_w0 h1)(n := a, h_w1 h1 a := n)"
      using L by auto
    show ?thesis using cr a False L(8) unfolding upd
      by (simp add: ListAddAfter_def Let_def heap_upd_swap)
  qed
qed

lemma ListAddBefore_ok:
  assumes inv: "list_inv h l (p @ s) fs" and pos: "position l p s a b"
  shows "\<exists>n h' l'. ListAddBefore h (Some l) item b = (n, h', Some l') \<and> inserts h l p s fs item n h' l'"
proof -
  have b: "b \<noteq> NULL" using position_neighbours [OF inv pos] list_inv_not_null [OF inv] by auto
  obtain n h1 l1 where cr: "CreateListNode h item l = (n, h1, l1)"
    by (cases "CreateListNode h item l") auto
  show ?thesis
  proof (cases "n = NULL")
    case True
    with create_fails [OF inv] cr b show ?thesis by (simp add: ListAddBefore_def)
  next
    case False
    note L = link_node [OF inv pos cr False]
    have upd: "(h_w1 h1)(a := n, n := b) = (h_w1 h1)(n := b, h_w0 h1 b := n)"
      "(h_w0 h1)(n := a, b := n) = (h_w0 h1)(b := n, n := h_w0 h1 b)"
      using L by (auto simp: fun_upd_twist)
    show ?thesis using cr b False L(8) unfolding upd
      by (simp add: ListAddBefore_def Let_def heap_upd_swap)
  qed
qed

lemma ListAddHead_ok:
  assumes "list_inv h l ns fs"
  shows "\<exists>n h' l'. ListAddHead h (Some l) item = (n, h', Some l') \<and> inserts h l [] ns fs item n h' l'"
  using ListAddAfter_ok [of h l "[]" ns fs "ll_head l"] assms
  by (auto simp: ListAddHead_def position_def)

lemma ListAddTail_ok:
  assumes "list_inv h l ns fs"
  shows "\<exists>n h' l'. ListAddTail h (Some l) item = (n, h', Some l') \<and> inserts h l ns [] fs item n h' l'"
  using ListAddBefore_ok [of h l ns "[]" fs _ "ll_tail l"] assms
  by (auto simp: ListAddTail_def position_def)


text \<open>
  Deleting a node unlinks it and hands its block to the free list, which caches it below its
  limit and frees it otherwise. With \<open>freeItem\<close> and a free function, that function is called
  on the item and NULL is returned; otherwise the item is.
\<close>

definition recycled :: "addr \<Rightarrow> addr list \<Rightarrow> addr list" where
  "recycled d fs = (if int (List.length fs) + 1 < FREELISTSIZE then d # fs else fs)"

lemma list_inv_unlink:
  assumes inv: "list_inv h l (p @ d # s) fs"
  defines "h2 \<equiv> h\<lparr>h_w1 := (h_w1 h)(h_w0 h d := h_w1 h d),
                   h_w0 := (h_w0 h)(h_w1 h d := h_w0 h d)\<rparr>"
  shows "list_inv h2 (l\<lparr>ll_size := ll_size l - 1\<rparr>) (p @ s) fs" "h_w0 h d \<noteq> d" "h_w1 h d \<noteq> d"
    "d \<in> h_live h" "d \<notin> set (p @ s @ fs)" "d \<noteq> ll_head l" "d \<noteq> ll_tail l" "d \<noteq> NULL"
proof -
  obtain a where pa: "position l p (d # s) a d" by (auto simp: position_def)
  obtain b where pb: "position l (p @ [d]) s d b" by (auto simp: position_def)
  note na = position_neighbours [OF inv pa]
  have inv': "list_inv h l ((p @ [d]) @ s) fs" using inv by simp
  note nb = position_neighbours [OF inv' pb]
  note D = list_invD [OF inv]
  show ne: "h_w0 h d \<noteq> d" "h_w1 h d \<noteq> d" using na nb by auto
  show out: "d \<in> h_live h" "d \<notin> set (p @ s @ fs)" "d \<noteq> ll_head l" "d \<noteq> ll_tail l" "d \<noteq> NULL"
    using D(1,3,4) by (auto simp: heap_ok_def)
  have pos: "position l p s a b" using pa pb by (simp add: position_def)
  then obtain xs ys where eq: "ll_head l # p = xs @ [a]" "s @ [ll_tail l] = b # ys"
    by (rule position_path)
  have path: "ll_head l # (p @ d # s) @ [ll_tail l] = xs @ a # d # b # ys"
    "ll_head l # (p @ s) @ [ll_tail l] = xs @ a # b # ys"
    using eq by (metis append.assoc append_Cons append_Nil)+
  have d: "distinct (ll_head l # (p @ d # s) @ [ll_tail l])" using D(3) by auto
  have lk: "linked ((h_w1 h)(a := b)) ((h_w0 h)(b := a)) (ll_head l # (p @ s) @ [ll_tail l])"
    using linked_delete [of "h_w1 h" "h_w0 h" xs a d b ys] D(2) d unfolding path by simp
  have "b \<notin> set fs" using nb D(3) by auto
  then have "fl_inv h2 (ll_freeNodeList l) fs" using D(6) nb na by (simp add: fl_inv_def h2_def) auto
  then show "list_inv h2 (l\<lparr>ll_size := ll_size l - 1\<rparr>) (p @ s) fs"
    using lk inv na nb by (auto simp: list_inv_def h2_def)
qed

lemma list_inv_recycle:
  assumes inv: "list_inv h l ns fs" and d: "d \<in> h_live h" "d \<notin> set (ns @ fs)"
  shows "\<exists>h' l'. freeListNode h d l = (0, h', l') \<and> list_inv h' l' ns (recycled d fs) \<and>
           h_w2 h' = h_w2 h \<and> h_freed h' = h_freed h \<and> h_oom h' = h_oom h \<and>
           h_live h' = (if d \<in> set (recycled d fs) then h_live h else h_live h - {d}) \<and>
           (\<exists>fl. l' = l\<lparr>ll_freeNodeList := fl\<rparr>)"
proof -
  note D = list_invD [OF inv]
  have hd: "d \<noteq> ll_head l" "d \<noteq> ll_tail l" "d \<notin> set fs" using inv d by (auto simp: list_inv_def)
  from FreeListFree_ok [OF D(6) d(1) hd(3) D(1)] D(7) obtain h' fl where
    fr: "FreeListFree h (Some (ll_freeNodeList l)) d = (0, h', Some fl)" and ok: "heap_ok h'"
    and mx: "fl_maxFreeListLength fl = FREELISTSIZE"
    and res: "if int (List.length fs) + 1 < FREELISTSIZE
              then h' = h\<lparr>h_w0 := (h_w0 h)(d := fl_head (ll_freeNodeList l))\<rparr> \<and> fl_inv h' fl (d # fs)
              else h' = h\<lparr>h_live := h_live h - {d}\<rparr> \<and> fl_inv h' fl fs"
    by auto
  have inv': "list_inv h' (l\<lparr>ll_freeNodeList := fl\<rparr>) ns (recycled d fs)"
    using inv res ok mx d hd
    by (auto simp: list_inv_def recycled_def linked_pv_upd fl_inv_def split: if_splits)
  show ?thesis
    using fr inv' res hd by (auto simp: freeListNode_def recycled_def split: if_splits)
qed

lemma ListDelNode_ok:
  assumes inv: "list_inv h l (p @ d # s) fs"
  shows "\<exists>h' l'. ListDelNode h (Some l) d fi =
             (if fi \<and> ll_free_func l then None else h_w2 h d, h', Some l') \<and>
           list_inv h' l' (p @ s) (recycled d fs) \<and> h_w2 h' = h_w2 h \<and> h_oom h' = h_oom h \<and>
           h_freed h' = h_freed h @ (if fi \<and> ll_free_func l then [h_w2 h d] else []) \<and>
           h_live h' = (if d \<in> set (recycled d fs) then h_live h else h_live h - {d}) \<and>
           ll_cmp_func l' = ll_cmp_func l \<and> ll_free_func l' = ll_free_func l \<and>
           ll_head l' = ll_head l \<and> ll_tail l' = ll_tail l"
proof -
  let ?h2 = "h\<lparr>h_w1 := (h_w1 h)(h_w0 h d := h_w1 h d), h_w0 := (h_w0 h)(h_w1 h d := h_w0 h d)\<rparr>"
  note U = list_inv_unlink [OF inv]
  have inv2: "list_inv ?h2 (l\<lparr>ll_size := ll_size l - 1\<rparr>) (p @ s) fs" by (rule U(1))
  from list_inv_recycle [OF inv2, of d] U(4,5) obtain h3 fl where
    fr: "freeListNode ?h2 d (l\<lparr>ll_size := ll_size l - 1\<rparr>) =
           (0, h3, l\<lparr>ll_size := ll_size l - 1, ll_freeNodeList := fl\<rparr>)"
    and inv3: "list_inv h3 (l\<lparr>ll_size := ll_size l - 1, ll_freeNodeList := fl\<rparr>) (p @ s) (recycled d fs)"
    and rest: "h_w2 h3 = h_w2 h" "h_freed h3 = h_freed h" "h_oom h3 = h_oom h"
      "h_live h3 = (if d \<in> set (recycled d fs) then h_live h else h_live h - {d})"
    by auto
  obtain rc h4 flo where ff: "FreeListFree ?h2 (Some (ll_freeNodeList l)) d = (rc, h4, flo)"
    by (cases "FreeListFree ?h2 (Some (ll_freeNodeList l)) d") auto
  have "ll_freeNodeList (l\<lparr>ll_size := ll_size l - 1, ll_freeNodeList := the flo\<rparr>) = fl" "h4 = h3" "rc = 0"
    using fr ff by (simp_all add: freeListNode_def)
  then have fr': "freeListNode ?h2 d l = (0, h3, l\<lparr>ll_freeNodeList := fl\<rparr>)"
    using ff by (simp add: freeListNode_def)
  have l3: "l\<lparr>ll_freeNodeList := fl, ll_size := ll_size l - 1\<rparr> =
            l\<lparr>ll_size := ll_size l - 1, ll_freeNodeList := fl\<rparr>" by simp
  have inv4: "list_inv (h3\<lparr>h_freed := x\<rparr>) (l\<lparr>ll_freeNodeList := fl, ll_size := ll_size l - 1\<rparr>)
      (p @ s) (recycled d fs)" for x
    using inv3 unfolding l3 by (auto simp: list_inv_def fl_inv_def)
  have upd: "h\<lparr>h_w1 := (h_w1 h)(h_w0 h d := h_w1 h d),
        h_w0 := (h_w0 h)(((h_w1 h)(h_w0 h d := h_w1 h d)) d := h_w0 h d)\<rparr> = ?h2"
    using U(2) by simp
  have keep: "h3 = h3\<lparr>h_freed := h_freed h\<rparr>" using rest by simp
  show ?thesis
  proof (cases "fi \<and> ll_free_func l")
    case True
    have "ListDelNode h (Some l) d fi =
        (None, h3\<lparr>h_freed := h_freed h3 @ [h_w2 h d]\<rparr>,
         Some (l\<lparr>ll_freeNodeList := fl, ll_size := ll_size l - 1\<rparr>))"
      using True U(6-8) fr' upd by (simp add: ListDelNode_def Let_def del: fun_upd_apply)
    then show ?thesis using True inv4 rest by auto
  next
    case False
    have "ListDelNode h (Some l) d fi =
        (h_w2 h d, h3, Some (l\<lparr>ll_freeNodeList := fl, ll_size := ll_size l - 1\<rparr>))"
      using False U(6-8) fr' upd by (auto simp: ListDelNode_def Let_def simp del: fun_upd_apply)
    then show ?thesis using False inv4 [of "h_freed h"] rest keep by auto
  qed
qed


lemma next_of_prefix:
  assumes "list_inv h l (p @ s) fs"
  shows "h_w1 h (last (ll_head l # p)) = hd (s @ [ll_tail l])"
  using position_neighbours [OF assms, of "last (ll_head l # p)" "hd (s @ [ll_tail l])"]
  by (simp add: position_def)

lemma prev_of_suffix:
  assumes "list_inv h l (p @ s) fs"
  shows "h_w0 h (hd (s @ [ll_tail l])) = last (ll_head l # p)"
  using position_neighbours [OF assms, of "last (ll_head l # p)" "hd (s @ [ll_tail l])"]
  by (simp add: position_def)

lemma ListHead_ok:
  assumes "list_inv h l ns fs"
  shows "ListHead h (Some l) = (case ns of [] \<Rightarrow> NULL | n # _ \<Rightarrow> n)"
  using next_of_prefix [of h l "[]" ns fs] assms list_invD(5) [OF assms]
  by (auto simp: ListHead_def split: list.splits)

lemma ListTail_ok:
  assumes "list_inv h l ns fs"
  shows "ListTail h (Some l) = (if ns = [] then NULL else last ns)"
  using prev_of_suffix [of h l ns "[]" fs] assms list_invD(5) [OF assms]
  by (auto simp: ListTail_def)

lemma ListNext_ok:
  assumes "list_inv h l (p @ d # s) fs"
  shows "ListNext h (Some l) d = (case s of [] \<Rightarrow> NULL | n # _ \<Rightarrow> n)"
  using next_of_prefix [of h l "p @ [d]" s fs] assms list_invD(3) [OF assms]
    list_inv_not_null [OF assms, of d]
  by (auto simp: ListNext_def split: list.splits)

lemma ListPrev_ok:
  assumes "list_inv h l (p @ d # s) fs"
  shows "ListPrev h (Some l) d = (if p = [] then NULL else last p)"
proof -
  have "p \<noteq> [] \<Longrightarrow> last p \<noteq> ll_head l"
    using list_invD(3) [OF assms] last_in_set [of p] by (metis append_assoc distinct.simps(2) in_set_conv_decomp Un_iff insert_iff list.set(2) set_append)
  then show ?thesis
    using prev_of_suffix [of h l p "d # s" fs] assms list_inv_not_null [OF assms, of d]
    by (auto simp: ListPrev_def)
qed

definition list_match :: "'i LinkedList \<Rightarrow> 'i option \<Rightarrow> 'i option \<Rightarrow> bool" where
  "list_match l item x = (case ll_cmp_func l of Some cmp \<Rightarrow> cmp item x | None \<Rightarrow> item = x)"

lemma ListFind_loop_ok:
  assumes "list_inv h l (p @ s) fs"
  shows "ListFind_loop h l item (hd (s @ [ll_tail l])) =
           Some (case find (\<lambda>n. list_match l item (h_w2 h n)) s of None \<Rightarrow> NULL | Some n \<Rightarrow> n)"
  using assms
proof (induction s arbitrary: p)
  case Nil
  then show ?case by (simp add: ListFind_loop.simps)
next
  case (Cons d s)
  have "d \<noteq> ll_tail l" using list_invD(3) [OF Cons.prems] by auto
  moreover have "h_w1 h d = hd (s @ [ll_tail l])"
    using next_of_prefix [of h l "p @ [d]" s fs] Cons.prems by simp
  moreover have "ListFind_loop h l item (hd (s @ [ll_tail l])) =
      Some (case find (\<lambda>n. list_match l item (h_w2 h n)) s of None \<Rightarrow> NULL | Some n \<Rightarrow> n)"
    using Cons.IH [of "p @ [d]"] Cons.prems by simp
  ultimately show ?case
    by (subst ListFind_loop.simps) (auto simp: list_match_def split: option.splits)
qed

lemma ListFind_ok:
  assumes "list_inv h l ns fs"
  shows "ListFind h (Some l) NULL item =
           Some (case find (\<lambda>n. list_match l item (h_w2 h n)) ns of None \<Rightarrow> NULL | Some n \<Rightarrow> n)"
  using ListFind_loop_ok [of h l "[]" ns fs item] next_of_prefix [of h l "[]" ns fs] assms
  by (simp add: ListFind_def)

lemma ListDestroy_loop_ok:
  assumes "list_inv h l ns fs"
  shows "\<exists>h' l' fs'. ListDestroy_loop h l fi (h_w1 h (ll_head l)) = Some (h', l') \<and>
           list_inv h' l' [] fs' \<and> h_live h' - set fs' = h_live h - set ns - set fs \<and>
           h_freed h' = h_freed h @ (if fi \<and> ll_free_func l then items h ns else [])"
  using assms
proof (induction ns arbitrary: h l fs)
  case Nil
  have "h_w1 h (ll_head l) = ll_tail l" using next_of_prefix [of h l "[]" "[]" fs] Nil by simp
  then show ?case using Nil by (auto simp: ListDestroy_loop.simps)
next
  case (Cons d ns)
  have hd: "h_w1 h (ll_head l) = d" using next_of_prefix [of h l "[]" "d # ns" fs] Cons.prems by simp
  have nx: "h_w1 h d = hd (ns @ [ll_tail l])"
    using next_of_prefix [of h l "[d]" ns fs] Cons.prems by simp
  have ne: "d \<noteq> ll_tail l" "d \<notin> set fs" "d \<notin> set ns" using list_invD(3) [OF Cons.prems] by auto
  from ListDelNode_ok [of h l "[]" d ns fs fi] Cons.prems obtain h1 l1 where
    del: "ListDelNode h (Some l) d fi =
            (if fi \<and> ll_free_func l then None else h_w2 h d, h1, Some l1)"
    and inv1: "list_inv h1 l1 ns (recycled d fs)" and w2: "h_w2 h1 = h_w2 h"
    and fr: "h_freed h1 = h_freed h @ (if fi \<and> ll_free_func l then [h_w2 h d] else [])"
    and live: "h_live h1 = (if d \<in> set (recycled d fs) then h_live h else h_live h - {d})"
    and same: "ll_free_func l1 = ll_free_func l" "ll_tail l1 = ll_tail l" by auto
  have nx1: "h_w1 h1 (ll_head l1) = h_w1 h d"
    using next_of_prefix [of h1 l1 "[]" ns "recycled d fs"] inv1 nx same by simp
  from Cons.IH [OF inv1, unfolded nx1 same w2] obtain h' l' fs' where
    IH: "ListDestroy_loop h1 l1 fi (h_w1 h d) = Some (h', l')" "list_inv h' l' [] fs'"
      "h_live h' - set fs' = h_live h1 - set ns - set (recycled d fs)"
      "h_freed h' = h_freed h1 @ (if fi \<and> ll_free_func l then items h ns else [])" by blast
  have "h_live h' - set fs' = h_live h - set (d # ns) - set fs"
    unfolding IH(3) live by (auto simp: recycled_def split: if_splits)
  note IH = IH(1,2) this IH(4)
  have "ListDestroy_loop h l fi d = Some (h', l')"
    using ne del IH(1) by (subst ListDestroy_loop.simps) (simp add: Let_def)
  then show ?case using IH(2-4) fr hd by (intro exI [of _ h'] exI [of _ l'] exI [of _ fs']) auto
qed

text \<open>
  A list on a fresh store: its sentinels at addresses 1 and 2, nothing allocated yet.
\<close>

definition init_heap :: "bool list \<Rightarrow> 'i heap" where
  "init_heap orc =
     \<lparr>h_oom = orc, h_brk = 3, h_live = {}, h_w0 = (\<lambda>_. NULL), h_w1 = (\<lambda>_. NULL),
      h_w2 = (\<lambda>_. None), h_freed = []\<rparr>"

definition raw_list :: "'i LinkedList" where
  "raw_list =
     \<lparr>ll_head = 1, ll_tail = 2, ll_size = 0,
      ll_freeNodeList = \<lparr>fl_head = NULL, fl_element_size = 0, fl_maxFreeListLength = 0,
                         fl_freeListLength = 0\<rparr>,
      ll_free_func = False, ll_cmp_func = None\<rparr>"

definition empty_list :: "bool list \<Rightarrow> bool \<Rightarrow> 'i heap \<times> 'i LinkedList" where
  "empty_list orc ff =
     (case ListInit (init_heap orc) (Some raw_list) None ff of (_, h, l) \<Rightarrow> (h, the l))"

lemma empty_list_inv:
  "list_inv (fst (empty_list orc ff :: 'a heap \<times> 'a LinkedList)) (snd (empty_list orc ff)) [] []"
proof -
  have "\<exists>h' l'. ListInit (init_heap orc :: 'a heap) (Some raw_list) None ff = (0, h', Some l') \<and>
          list_inv h' l' [] [] \<and> ll_cmp_func l' = None \<and> ll_free_func l' = ff"
    by (rule ListInit_ok) (simp_all add: init_heap_def raw_list_def heap_ok_def)
  then show ?thesis by (auto simp: empty_list_def)
qed

text \<open>
  C13. Destroying a list returns 0 and always comes to an end: the list is empty and its free
  list too, exactly the list's nodes and cached blocks are given back to the allocator (nothing
  leaks and nothing else is freed), and with \<open>freeItem\<close> the list's free function has been called
  once on every item, in order.
\<close>

theorem ListDestroy_frees_everything:
  assumes "list_inv h l ns fs"
  shows "\<exists>h' l'. ListDestroy h (Some l) fi = Some (0, h', Some l') \<and> list_inv h' l' [] [] \<and>
           h_live h' = h_live h - set ns - set fs \<and>
           h_freed h' = h_freed h @ (if fi \<and> ll_free_func l then items h ns else [])"
proof -
  from ListDestroy_loop_ok [OF assms, of fi] obtain h1 l1 fs' where
    loop: "ListDestroy_loop h l fi (h_w1 h (ll_head l)) = Some (h1, l1)" "list_inv h1 l1 [] fs'"
      "h_live h1 - set fs' = h_live h - set ns - set fs"
      "h_freed h1 = h_freed h @ (if fi \<and> ll_free_func l then items h ns else [])" by blast
  note D = list_invD [OF loop(2)]
  from FreeListDestroy_ok [OF D(6)] obtain fl where
    fd: "FreeListDestroy h1 (Some (ll_freeNodeList l1)) =
           Some (0, h1\<lparr>h_live := h_live h1 - set fs'\<rparr>, Some fl)"
    and inv: "fl_inv (h1\<lparr>h_live := h_live h1 - set fs'\<rparr>) fl []"
    and fl: "fl = (ll_freeNodeList l1)\<lparr>fl_head := NULL, fl_freeListLength := 0\<rparr>"
    by (auto simp: FreeListDestroy_def)
  have "list_inv (h1\<lparr>h_live := h_live h1 - set fs'\<rparr>) (l1\<lparr>ll_size := 0, ll_freeNodeList := fl\<rparr>) [] []"
    using loop(2) inv fl by (auto simp: list_inv_def heap_ok_def)
  then show ?thesis using loop fd by (auto simp: ListDestroy_def)
qed

theorem ListDestroy_frees_everything_witness:
  "\<exists>h' l'. ListDestroy (fst (empty_list [] True)) (Some (snd (empty_list [] True))) True =
             Some (0, h', Some l') \<and> list_inv h' l' [] [] \<and> h_live h' = ({} :: addr set) \<and>
           h_freed h' = ([] :: nat option list)"
  using ListDestroy_frees_everything [OF empty_list_inv [of "[]" True], of True]
  by (simp add: empty_list_def init_heap_def raw_list_def ListInit_def FreeListInit_def)

end
