(* ===== verification/ItemQueue.thy ===== *)
theory ItemQueue
  imports LinkedList
begin

text \<open>
  What the thread pool and the timer need of a linked list: a queue of items.

  \<open>queue\<close> is the abstract value of a \<open>LinkedList\<close>, the items in order and the number of node
  blocks in the list's cache (it decides whether an insertion has to allocate, hence whether it
  can fail). \<open>queue_rep\<close> is the refinement relation, and the lemmas \<open>..._refines\<close> show that each
  pointer operation implements the operation on \<open>queue\<close>. The locale \<open>fifo\<close> states the queue
  contract; both levels interpret it.
\<close>

record 'i queue =
  q_items :: "'i list"
  q_cached :: nat

definition q_empty :: "'i queue" where "q_empty = \<lparr>q_items = [], q_cached = 0\<rparr>"

text \<open>
  Taking a node block from the cache or from \<open>malloc\<close>, whose next results the oracle lists
  (\<open>True\<close> is a failure), and giving one back. The same policy serves the free lists of jobs and
  of timer events.
\<close>

definition node_alloc :: "bool list \<Rightarrow> nat \<Rightarrow> bool \<times> bool list \<times> nat" where
  "node_alloc orc cached =
     (if 0 < cached then (True, orc, cached - 1)
      else case orc of True # r \<Rightarrow> (False, r, cached) | _ \<Rightarrow> (True, tl orc, cached))"

definition node_free :: "int \<Rightarrow> nat \<Rightarrow> nat" where
  "node_free mx cached = (if int cached + 1 < mx then cached + 1 else cached)"

definition q_insert_at :: "bool list \<Rightarrow> 'i queue \<Rightarrow> nat \<Rightarrow> 'i \<Rightarrow> bool \<times> bool list \<times> 'i queue" where
  "q_insert_at orc q k x =
     (case node_alloc orc (q_cached q) of
        (True, orc', c) \<Rightarrow>
          (True, orc', \<lparr>q_items = take k (q_items q) @ x # drop k (q_items q), q_cached = c\<rparr>)
      | (False, orc', _) \<Rightarrow> (False, orc', q))"

definition q_add_tail :: "bool list \<Rightarrow> 'i queue \<Rightarrow> 'i \<Rightarrow> bool \<times> bool list \<times> 'i queue" where
  "q_add_tail orc q x = q_insert_at orc q (List.length (q_items q)) x"

definition q_remove_at :: "'i queue \<Rightarrow> nat \<Rightarrow> 'i queue" where
  "q_remove_at q k =
     \<lparr>q_items = take k (q_items q) @ drop (Suc k) (q_items q),
      q_cached = node_free FREELISTSIZE (q_cached q)\<rparr>"

definition q_take_head :: "'i queue \<Rightarrow> 'i option \<times> 'i queue" where
  "q_take_head q =
     (case q_items q of [] \<Rightarrow> (None, q) | x # _ \<Rightarrow> (Some x, q_remove_at q 0))"

definition queue_rep :: "'i heap \<Rightarrow> 'i LinkedList \<Rightarrow> 'i queue \<Rightarrow> bool" where
  "queue_rep h l q \<longleftrightarrow>
     (\<exists>ns fs. list_inv h l ns fs \<and> items h ns = map Some (q_items q) \<and>
              q_cached q = List.length fs)"

lemma queue_rep_size: "queue_rep h l q \<Longrightarrow> ListSize (Some l) = int (List.length (q_items q))"
  by (auto simp: queue_rep_def ListSize_def list_invD(5) dest: arg_cong [where f = List.length])

lemma q_add_tail_items:
  "q_add_tail orc q x = (ok, orc', q') \<Longrightarrow>
     q_items q' = (if ok then q_items q @ [x] else q_items q)"
  by (auto simp: q_add_tail_def q_insert_at_def split: prod.splits bool.splits)

lemma node_alloc_ok_iff: "fst (node_alloc orc c) \<longleftrightarrow> 0 < c \<or> (\<forall>r. orc \<noteq> True # r)"
  by (auto simp: node_alloc_def split: list.splits bool.splits)

lemma map_append_split:
  "map f (p @ s) = map g xs \<Longrightarrow>
     map f p = map g (take (List.length p) xs) \<and> map f s = map g (drop (List.length p) xs)"
  by (simp add: append_eq_conv_conj take_map drop_map)

lemma items_insert_fresh:
  "n \<notin> set ns \<Longrightarrow> map ((h_w2 h)(n := x)) ns = items h ns"
  by auto


section \<open>The pointer list implements the queue\<close>

lemma inserts_refines:
  assumes ins: "inserts h l p s fs (Some x) n h' l'"
    and it: "items h (p @ s) = map Some (q_items q)" and c: "q_cached q = List.length fs"
    and inv: "list_inv h l (p @ s) fs"
  shows "\<exists>q'. q_insert_at (h_oom h) q (List.length p) x = (n \<noteq> NULL, h_oom h', q') \<and>
           queue_rep h' l' q'"
proof (cases "n = NULL")
  case True
  then obtain r where f: "fs = []" "h_oom h = True # r" "h' = h\<lparr>h_oom := r\<rparr>" "l' = l"
    using ins by (auto simp: inserts_def)
  have "list_inv h' l' (p @ s) fs" using inv f by (auto simp: list_inv_def heap_ok_def fl_inv_def)
  then have "queue_rep h' l' q" using it c f by (auto simp: queue_rep_def)
  then show ?thesis using f c True by (simp add: q_insert_at_def node_alloc_def)
next
  case False
  with ins have inv': "list_inv h' l' (p @ n # s) (tl fs)" and n: "n \<notin> set (p @ s)"
    and w: "h_w2 h' = (h_w2 h)(n := Some x)"
    and src: "if fs = [] then h_oom h' = tl (h_oom h) \<and> (\<forall>r. h_oom h \<noteq> True # r) \<and> n = h_brk h
              else h_oom h' = h_oom h \<and> n = hd fs"
    by (auto simp: inserts_def)
  have al: "node_alloc (h_oom h) (q_cached q) = (True, h_oom h', List.length (tl fs))"
    using src c by (auto simp: node_alloc_def split: list.splits bool.splits if_splits)
  have "items h' (p @ n # s) =
      map Some (take (List.length p) (q_items q) @ x # drop (List.length p) (q_items q))"
    using map_append_split [OF it] w n by (simp add: items_insert_fresh del: fun_upd_apply) simp
  with inv' have "queue_rep h' l'
      \<lparr>q_items = take (List.length p) (q_items q) @ x # drop (List.length p) (q_items q),
       q_cached = List.length (tl fs)\<rparr>"
    unfolding queue_rep_def by (intro exI [of _ "p @ n # s"] exI [of _ "tl fs"]) simp
  then show ?thesis using al False by (simp add: q_insert_at_def)
qed

lemma ListAddTail_refines:
  assumes "queue_rep h l q"
  shows "\<exists>n h' l' q'. ListAddTail h (Some l) (Some x) = (n, h', Some l') \<and>
           q_add_tail (h_oom h) q x = (n \<noteq> NULL, h_oom h', q') \<and> queue_rep h' l' q'"
proof -
  from assms obtain ns fs where r: "list_inv h l ns fs" "items h ns = map Some (q_items q)"
    "q_cached q = List.length fs" by (auto simp: queue_rep_def)
  from ListAddTail_ok [OF r(1)] obtain n h' l' where
    add: "ListAddTail h (Some l) (Some x) = (n, h', Some l')" "inserts h l ns [] fs (Some x) n h' l'"
    by blast
  have "List.length ns = List.length (q_items q)" using r(2) by (metis length_map)
  with inserts_refines [OF add(2)] r add(1) show ?thesis by (auto simp: q_add_tail_def)
qed

lemma ListDelNode_refines:
  assumes inv: "list_inv h l (p @ d # s) fs" and it: "items h (p @ d # s) = map Some (q_items q)"
    and c: "q_cached q = List.length fs"
  shows "\<exists>h' l'. ListDelNode h (Some l) d False = (Some (q_items q ! List.length p), h', Some l') \<and>
           h_oom h' = h_oom h \<and> h_freed h' = h_freed h \<and>
           queue_rep h' l' (q_remove_at q (List.length p))"
proof -
  from ListDelNode_ok [OF inv, of False] obtain h' l' where
    del: "ListDelNode h (Some l) d False = (h_w2 h d, h', Some l')"
      "list_inv h' l' (p @ s) (recycled d fs)" "h_w2 h' = h_w2 h" "h_oom h' = h_oom h"
      "h_freed h' = h_freed h" by auto
  have len: "List.length p < List.length (q_items q)"
    using arg_cong [OF it, of List.length] by simp
  have "h_w2 h d = Some (q_items q ! List.length p)"
    using arg_cong [OF it, of "\<lambda>xs. xs ! List.length p"] len by (simp add: nth_append)
  moreover have "items h' (p @ s) = map Some (q_items (q_remove_at q (List.length p)))"
    using map_append_split [of "h_w2 h" p "d # s" Some "q_items q"]
      map_append_split [of "h_w2 h" "p @ [d]" s Some "q_items q"] it del(3)
    by (simp add: q_remove_at_def)
  moreover have "q_cached (q_remove_at q (List.length p)) = List.length (recycled d fs)"
    using c by (auto simp: q_remove_at_def node_free_def recycled_def)
  ultimately have "queue_rep h' l' (q_remove_at q (List.length p))"
    unfolding queue_rep_def using del(2)
    by (intro exI [of _ "p @ s"] exI [of _ "recycled d fs"]) simp
  then show ?thesis using del \<open>h_w2 h d = _\<close> by simp
qed


section \<open>First in, first out\<close>

text \<open>
  The two ways the pool uses a job queue: append at the tail (\<open>ListAddTail\<close>), and take the item
  of the head node (\<open>ListHead\<close>, then \<open>ListDelNode\<close> without freeing the item).
\<close>

type_synonym 'i list_state = "'i heap \<times> 'i LinkedList"

definition list_add :: "'i list_state \<Rightarrow> 'i \<Rightarrow> bool \<times> 'i list_state" where
  "list_add st x =
     (case ListAddTail (fst st) (Some (snd st)) (Some x) of (n, h, l) \<Rightarrow> (n \<noteq> NULL, (h, the l)))"

definition list_take :: "'i list_state \<Rightarrow> 'i option \<times> 'i list_state" where
  "list_take st =
     (case st of (h, l) \<Rightarrow>
        let n = ListHead h (Some l)
        in if n = NULL then (None, st)
           else case ListDelNode h (Some l) n False of (x, h', l') \<Rightarrow> (x, (h', the l')))"

primrec walk :: "(addr \<Rightarrow> addr) \<Rightarrow> nat \<Rightarrow> addr \<Rightarrow> addr list" where
  "walk nx 0 a = []"
| "walk nx (Suc k) a = a # walk nx k (nx a)"

definition list_items :: "'i list_state \<Rightarrow> 'i option list" where
  "list_items st =
     (case st of (h, l) \<Rightarrow> items h (walk (h_w1 h) (nat (ll_size l)) (h_w1 h (ll_head l))))"

definition list_valid :: "'i list_state \<Rightarrow> bool" where
  "list_valid st \<longleftrightarrow> (\<exists>q. queue_rep (fst st) (snd st) q)"

lemma walk_linked:
  "linked nx pv (a # ns @ [b]) \<Longrightarrow> walk nx (List.length ns) (nx a) = ns"
  by (induction ns arbitrary: a) auto

lemma list_items_rep:
  assumes "queue_rep h l q"
  shows "list_items (h, l) = map Some (q_items q)"
  using assms walk_linked [OF list_invD(2)] list_invD(5)
  by (fastforce simp: queue_rep_def list_items_def)

datatype 'i queue_op = Add 'i | Take

text \<open>Runs a sequence of operations; returns the items accepted, those taken, and the state.\<close>

primrec run_queue ::
  "('s \<Rightarrow> 'i \<Rightarrow> bool \<times> 's) \<Rightarrow> ('s \<Rightarrow> 'i option \<times> 's) \<Rightarrow> 's \<Rightarrow> 'i queue_op list \<Rightarrow> 'i list \<times> 'i list \<times> 's" where
  "run_queue add tk st [] = ([], [], st)"
| "run_queue add tk st (op # ops) =
     (case op of
        Add x \<Rightarrow>
          (case add st x of (ok, st') \<Rightarrow>
             case run_queue add tk st' ops of (ins, outs, z) \<Rightarrow> (if ok then x # ins else ins, outs, z))
      | Take \<Rightarrow>
          (case tk st of (r, st') \<Rightarrow>
             case run_queue add tk st' ops of
               (ins, outs, z) \<Rightarrow> (ins, (case r of None \<Rightarrow> outs | Some x \<Rightarrow> x # outs), z)))"

locale fifo =
  fixes valid :: "'s \<Rightarrow> bool" and content :: "'s \<Rightarrow> 'i list"
    and add :: "'s \<Rightarrow> 'i \<Rightarrow> bool \<times> 's" and take_item :: "'s \<Rightarrow> 'i option \<times> 's"
  assumes add_valid: "valid st \<Longrightarrow> valid (snd (add st x))"
    and add_content:
      "valid st \<Longrightarrow> content (snd (add st x)) = content st @ (if fst (add st x) then [x] else [])"
    and take_valid: "valid st \<Longrightarrow> valid (snd (take_item st))"
    and take_content:
      "valid st \<Longrightarrow>
         (case fst (take_item st) of None \<Rightarrow> content st = [] \<and> content (snd (take_item st)) = []
          | Some x \<Rightarrow> content st = x # content (snd (take_item st)))"
begin

lemma run_fifo:
  assumes "valid st" and "run_queue add take_item st ops = (ins, outs, z)"
  shows "valid z \<and> content st @ ins = outs @ content z"
  using assms
proof (induction ops arbitrary: st ins outs)
  case Nil
  then show ?case by simp
next
  case (Cons op ops)
  show ?case
  proof (cases op)
    case (Add x)
    with Cons.prems obtain ins' where
      r: "run_queue add take_item (snd (add st x)) ops = (ins', outs, z)" "ins = (if fst (add st x) then x # ins' else ins')"
      by (auto split: prod.splits)
    from Cons.IH [OF add_valid [OF Cons.prems(1)] r(1)] r(2) add_content [OF Cons.prems(1), of x]
    show ?thesis by (auto split: if_splits)
  next
    case Take
    with Cons.prems obtain outs' where
      r: "run_queue add take_item (snd (take_item st)) ops = (ins, outs', z)"
        "outs = (case fst (take_item st) of None \<Rightarrow> outs' | Some x \<Rightarrow> x # outs')"
      by (auto split: prod.splits)
    from Cons.IH [OF take_valid [OF Cons.prems(1)] r(1)] r(2) take_content [OF Cons.prems(1)]
    show ?thesis by (auto split: option.splits)
  qed
qed

end

lemma list_take_refines:
  assumes rep: "queue_rep h l q"
  shows "\<exists>h' l'. list_take (h, l) = (fst (q_take_head q), (h', l')) \<and> h_oom h' = h_oom h \<and>
           queue_rep h' l' (snd (q_take_head q))"
proof -
  from rep obtain ns fs where r: "list_inv h l ns fs" "items h ns = map Some (q_items q)"
    "q_cached q = List.length fs" by (auto simp: queue_rep_def)
  show ?thesis
  proof (cases ns)
    case Nil
    then show ?thesis using r rep ListHead_ok [OF r(1)]
      by (simp add: list_take_def q_take_head_def)
  next
    case (Cons d s)
    have d: "ListHead h (Some l) = d" "d \<noteq> NULL"
      using ListHead_ok [OF r(1)] list_inv_not_null [OF r(1), of d] Cons by simp_all
    obtain x xs where q: "q_items q = x # xs" using r(2) Cons by (cases "q_items q") auto
    from ListDelNode_refines [of h l "[]" d s fs q] r Cons q obtain h' l' where
      "ListDelNode h (Some l) d False = (Some x, h', Some l')" "h_oom h' = h_oom h"
      "queue_rep h' l' (q_remove_at q 0)" by auto
    then show ?thesis using d q by (simp add: list_take_def q_take_head_def)
  qed
qed

lemma list_add_refines:
  assumes "queue_rep h l q"
  shows "\<exists>h' l' q'. list_add (h, l) x = (fst (q_add_tail (h_oom h) q x), (h', l')) \<and>
           q_add_tail (h_oom h) q x = (fst (q_add_tail (h_oom h) q x), h_oom h', q') \<and>
           queue_rep h' l' q'"
  using ListAddTail_refines [OF assms, of x] by (auto simp: list_add_def)

interpretation lq: fifo list_valid "\<lambda>st. map the (list_items st)" list_add list_take
proof (unfold_locales, goal_cases)
  case (1 st x)
  then show ?case using list_add_refines [of "fst st" "snd st" _ x] by (fastforce simp: list_valid_def)
next
  case (2 st x)
  then obtain q where q: "queue_rep (fst st) (snd st) q" by (auto simp: list_valid_def)
  from list_add_refines [OF q, of x] obtain h' l' q' where
    s: "list_add st x = (fst (q_add_tail (h_oom (fst st)) q x), (h', l'))"
      "q_add_tail (h_oom (fst st)) q x = (fst (q_add_tail (h_oom (fst st)) q x), h_oom h', q')"
      "queue_rep h' l' q'" by auto
  from list_items_rep [OF q] list_items_rep [OF s(3)] q_add_tail_items [OF s(2)] s(1)
  show ?case by (simp add: comp_def)
next
  case (3 st)
  then show ?case using list_take_refines [of "fst st" "snd st"] by (fastforce simp: list_valid_def)
next
  case (4 st)
  then obtain q where q: "queue_rep (fst st) (snd st) q" by (auto simp: list_valid_def)
  from list_take_refines [OF q] obtain h' l' where
    s: "list_take st = (fst (q_take_head q), (h', l'))" "queue_rep h' l' (snd (q_take_head q))" by auto
  from list_items_rep [OF q] list_items_rep [OF s(2)] s(1)
  show ?case
    by (auto simp: comp_def q_take_head_def q_remove_at_def split: list.splits)
qed

text \<open>
  The thread utilities' linked list is a first-in-first-out queue: after any sequence of
  \<open>ListAddTail\<close> calls and head removals (\<open>ListHead\<close>, \<open>ListDelNode\<close>) on a valid list, whatever
  allocations fail on the way, the items that were on the list followed by those whose insertion
  succeeded are exactly the items taken, in that order, followed by those still on the list, and
  the list is still well linked in both directions.
\<close>

theorem LinkedList_fifo:
  assumes "list_valid st" and "run_queue list_add list_take st ops = (ins, outs, z)"
  shows "list_valid z \<and> map the (list_items st) @ ins = outs @ map the (list_items z)"
  using lq.run_fifo [OF assms] by simp

lemma empty_list_rep: "queue_rep (fst (empty_list orc ff)) (snd (empty_list orc ff)) q_empty"
  using empty_list_inv by (force simp: queue_rep_def q_empty_def)

theorem LinkedList_fifo_witness:
  "run_queue list_add list_take (empty_list [False, True, False] False)
      [Add (10::int), Add 11, Add 12, Take, Add 13, Take] =
    ([10, 12, 13], [10, 12],
     snd (snd (run_queue list_add list_take (empty_list [False, True, False] False)
      [Add (10::int), Add 11, Add 12, Take, Add 13, Take])))
   \<and> map the (list_items (snd (snd (run_queue list_add list_take (empty_list [False, True, False] False)
      [Add (10::int), Add 11, Add 12, Take, Add 13, Take])))) = [13]"
proof -
  have v: "list_valid (empty_list [False, True, False] False :: int list_state)"
    using empty_list_rep by (auto simp: list_valid_def)
  have r: "run_queue list_add list_take (empty_list [False, True, False] False)
      [Add (10::int), Add 11, Add 12, Take, Add 13, Take] =
    ([10, 12, 13], [10, 12],
     snd (snd (run_queue list_add list_take (empty_list [False, True, False] False)
      [Add (10::int), Add 11, Add 12, Take, Add 13, Take])))"
    by (simp add: empty_list_def init_heap_def raw_list_def ListInit_def FreeListInit_def
        list_add_def list_take_def ListAddTail_def ListAddBefore_def CreateListNode_def FreeListAlloc_def
        h_malloc_def ListHead_def ListDelNode_def freeListNode_def FreeListFree_def h_free_def Let_def)
  have e: "list_items (empty_list [False, True, False] False :: int list_state) = []"
    by (simp add: list_items_def empty_list_def init_heap_def raw_list_def ListInit_def FreeListInit_def)
  from LinkedList_fifo [OF v r] r e show ?thesis by simp
qed

text \<open>
  C12. The pointer list refines the abstract queue: on a list that represents the queue \<open>q\<close>,
  \<open>ListAddTail\<close> succeeds exactly when the abstract insertion does (a cached node, or a
  successful allocation), consumes the same allocation results, and leaves a list that
  represents the abstract result; so does taking the head; and \<open>ListSize\<close> is the length.
\<close>

theorem LinkedList_refines_queue:
  assumes "queue_rep h l q"
  shows "(\<exists>n h' l' q'. ListAddTail h (Some l) (Some x) = (n, h', Some l') \<and>
           q_add_tail (h_oom h) q x = (n \<noteq> NULL, h_oom h', q') \<and> queue_rep h' l' q') \<and>
         (\<exists>h' l'. list_take (h, l) = (fst (q_take_head q), (h', l')) \<and> h_oom h' = h_oom h \<and>
           queue_rep h' l' (snd (q_take_head q))) \<and>
         ListSize (Some l) = int (List.length (q_items q))"
  using ListAddTail_refines [OF assms, of x] list_take_refines [OF assms] queue_rep_size [OF assms]
  by blast

theorem LinkedList_refines_queue_witness:
  "\<exists>n h' l' q'. ListAddTail (fst (empty_list [True] True)) (Some (snd (empty_list [True] True))) (Some (7::int))
     = (n, h', Some l') \<and> q_add_tail [True] q_empty (7::int) = (n \<noteq> NULL, h_oom h', q') \<and> queue_rep h' l' q'"
proof -
  have "h_oom (fst (empty_list [True] True :: int list_state)) = [True]"
    by (simp add: empty_list_def init_heap_def raw_list_def ListInit_def FreeListInit_def)
  then show ?thesis
    using LinkedList_refines_queue [OF empty_list_rep [of "[True]" True], of "7::int"] by auto
qed

end
