(* ===== verification/ThreadPool.thy ===== *)
theory ThreadPool
  imports ItemQueue Complex_Main
begin

text \<open>
  \<open>threadutil/src/ThreadPool.c\<close>: data and the code between two blocking points.

  The pool's job queues are the abstract queues of \<open>ItemQueue\<close>, which the pointer lists refine,
  and the free list of jobs is the number of blocks it caches. \<open>tp_oom\<close> are the coming results of
  \<open>malloc\<close> and \<open>tp_freed\<close> the calls of \<open>free_func\<close> made so far. All shared state is protected
  by the pool's mutex, so a stretch of code from a lock (or a return from a condition wait) to
  the next unlock (or condition wait) is one function on the pool. Where such a stretch reads the
  clock several times the \<open>k\<close>-th reading is \<open>clk k\<close>. Counters are unbounded integers; the
  statistics, C doubles, are exact here. \<open>PoolSystem\<close> composes the stretches into runs of
  concurrent threads.
\<close>

section \<open>Constants\<close>

unbundle bit_operations_syntax

definition EMAXTHREADS :: int where "EMAXTHREADS = (- 8) AND push_bit 29 1"
definition INVALID_POLICY :: int where "INVALID_POLICY = (- 9) AND push_bit 29 1"
definition INVALID_JOB_ID :: int where "INVALID_JOB_ID = (- 2) AND push_bit 29 1"
definition EOUTOFMEM :: int where "EOUTOFMEM = (- 7) AND push_bit 29 1"

abbreviation (input) EAGAIN :: int where "EAGAIN \<equiv> 11"
abbreviation (input) ETIMEDOUT :: int where "ETIMEDOUT \<equiv> 110"
abbreviation (input) EPERM :: int where "EPERM \<equiv> 1"
abbreviation (input) INFINITE_THREADS :: int where "INFINITE_THREADS \<equiv> -1"
abbreviation (input) JOBFREELISTSIZE :: int where "JOBFREELISTSIZE \<equiv> 100"

text \<open>\<open>ThreadPriority\<close> is a C enumeration, an int that may hold other values too.\<close>

abbreviation (input) LOW_PRIORITY :: int where "LOW_PRIORITY \<equiv> 0"
abbreviation (input) MED_PRIORITY :: int where "MED_PRIORITY \<equiv> 1"
abbreviation (input) HIGH_PRIORITY :: int where "HIGH_PRIORITY \<equiv> 2"
abbreviation (input) DEFAULT_PRIORITY :: int where "DEFAULT_PRIORITY \<equiv> MED_PRIORITY"
abbreviation (input) SCHED_OTHER :: int where "SCHED_OTHER \<equiv> 0"


section \<open>Data\<close>

record timeval =
  tv_sec :: int
  tv_usec :: int

record timespec =
  ts_sec :: int
  ts_nsec :: int

type_synonym clock = "nat \<Rightarrow> timeval"

record ThreadPoolAttr =
  minThreads :: int
  maxThreads :: int
  stackSize :: nat
  maxIdleTime :: int
  jobsPerThread :: int
  maxJobsTotal :: int
  starvationTime :: int
  schedPolicy :: int

record ThreadPoolJob =
  job_func :: nat
  job_arg :: nat
  job_free_func :: nat
  requestTime :: timeval
  job_priority :: int
  job_jobId :: int

record ThreadPoolStats =
  totalTimeHQ :: int
  totalJobsHQ :: int
  avgWaitHQ :: rat
  totalTimeMQ :: int
  totalJobsMQ :: int
  avgWaitMQ :: rat
  totalTimeLQ :: int
  totalJobsLQ :: int
  avgWaitLQ :: rat
  totalWorkTime :: int
  totalIdleTime :: int
  st_workerThreads :: int
  st_idleThreads :: int
  st_persistentThreads :: int
  st_totalThreads :: int
  st_maxThreads :: int
  currentJobsHQ :: int
  currentJobsLQ :: int
  currentJobsMQ :: int

record ThreadPool =
  lastJobId :: int
  tp_shutdown :: bool
  totalThreads :: int
  pendingWorkerThreadStart :: bool
  busyThreads :: int
  persistentThreads :: int
  jobFreeList :: nat
  lowJobQ :: "ThreadPoolJob queue"
  medJobQ :: "ThreadPoolJob queue"
  highJobQ :: "ThreadPoolJob queue"
  persistentJob :: "ThreadPoolJob option"
  tp_attr :: ThreadPoolAttr
  tp_stats :: ThreadPoolStats
  tp_oom :: "bool list"
  tp_freed :: "(nat \<times> nat) list"

abbreviation q_size :: "'i queue \<Rightarrow> int" where
  "q_size q \<equiv> int (List.length (q_items q))"


section \<open>Time and statistics\<close>

text \<open>Division of C integers rounds toward zero.\<close>

definition c_div :: "int \<Rightarrow> int \<Rightarrow> int" where
  "c_div a b = sgn a * sgn b * (\<bar>a\<bar> div \<bar>b\<bar>)"

definition c_mod :: "int \<Rightarrow> int \<Rightarrow> int" where
  "c_mod a b = a - b * c_div a b"

definition DiffMillis :: "timeval \<Rightarrow> timeval \<Rightarrow> int" where
  "DiffMillis time1 time2 =
     c_div ((tv_sec time1 - tv_sec time2) * 1000000 + (tv_usec time1 - tv_usec time2)) 1000"

definition StatsInit :: "ThreadPoolStats \<Rightarrow> ThreadPoolStats" where
  "StatsInit st = st\<lparr>totalJobsHQ := 0, totalJobsLQ := 0, totalJobsMQ := 0, totalTimeHQ := 0,
      totalTimeMQ := 0, totalTimeLQ := 0, totalWorkTime := 0, totalIdleTime := 0, avgWaitHQ := 0,
      avgWaitMQ := 0, avgWaitLQ := 0, st_workerThreads := 0, st_idleThreads := 0,
      st_persistentThreads := 0, st_maxThreads := 0, st_totalThreads := 0\<rparr>"

definition StatsAccountLQ :: "ThreadPool \<Rightarrow> int \<Rightarrow> ThreadPool" where
  "StatsAccountLQ tp diffTime =
     tp\<lparr>tp_stats := (tp_stats tp)\<lparr>totalJobsLQ := totalJobsLQ (tp_stats tp) + 1,
                                 totalTimeLQ := totalTimeLQ (tp_stats tp) + diffTime\<rparr>\<rparr>"

definition StatsAccountMQ :: "ThreadPool \<Rightarrow> int \<Rightarrow> ThreadPool" where
  "StatsAccountMQ tp diffTime =
     tp\<lparr>tp_stats := (tp_stats tp)\<lparr>totalJobsMQ := totalJobsMQ (tp_stats tp) + 1,
                                 totalTimeMQ := totalTimeMQ (tp_stats tp) + diffTime\<rparr>\<rparr>"

definition StatsAccountHQ :: "ThreadPool \<Rightarrow> int \<Rightarrow> ThreadPool" where
  "StatsAccountHQ tp diffTime =
     tp\<lparr>tp_stats := (tp_stats tp)\<lparr>totalJobsHQ := totalJobsHQ (tp_stats tp) + 1,
                                 totalTimeHQ := totalTimeHQ (tp_stats tp) + diffTime\<rparr>\<rparr>"

definition CalcWaitTime :: "timeval \<Rightarrow> ThreadPool \<Rightarrow> int \<Rightarrow> ThreadPoolJob \<Rightarrow> ThreadPool" where
  "CalcWaitTime now tp p job =
     (let diff = DiffMillis now (requestTime job)
      in if p = LOW_PRIORITY then StatsAccountLQ tp diff
         else if p = MED_PRIORITY then StatsAccountMQ tp diff
         else if p = HIGH_PRIORITY then StatsAccountHQ tp diff
         else tp)"

definition StatsTime :: "timeval \<Rightarrow> int" where
  "StatsTime tv = tv_sec tv"

definition CmpThreadPoolJob :: "ThreadPoolJob \<Rightarrow> ThreadPoolJob \<Rightarrow> bool" where
  "CmpThreadPoolJob a b \<longleftrightarrow> job_jobId a = job_jobId b"

definition FreeThreadPoolJob :: "ThreadPool \<Rightarrow> ThreadPool" where
  "FreeThreadPoolJob tp = tp\<lparr>jobFreeList := node_free JOBFREELISTSIZE (jobFreeList tp)\<rparr>"

text \<open>
  The scheduling calls go to the operating system: \<open>res\<close> is what \<open>sched_setscheduler\<close>
  (\<open>pthread_setschedparam\<close>) returned, \<open>err\<close> the value of \<open>errno\<close> after it, and \<open>lo\<close>, \<open>hi\<close> the
  priority range of the current policy.
\<close>

definition SetPolicyType :: "int \<Rightarrow> int \<Rightarrow> int" where
  "SetPolicyType res err = (if res \<noteq> -1 \<or> err = EPERM then 0 else err)"

definition SetPriority :: "int \<Rightarrow> int \<Rightarrow> (int \<Rightarrow> int) \<Rightarrow> int \<Rightarrow> int \<Rightarrow> int option \<times> int" where
  "SetPriority lo hi setsched err priority =
     (let midPriority = c_div (hi - lo) 2;
          act = (if priority = LOW_PRIORITY then Some lo
                 else if priority = MED_PRIORITY then Some midPriority
                 else if priority = HIGH_PRIORITY then Some hi else None)
      in case act of
           None \<Rightarrow> (None, EINVAL)
         | Some a \<Rightarrow> (Some a, if setsched a = 0 \<or> err = EPERM then 0 else setsched a))"

definition SetRelTimeout :: "timeval \<Rightarrow> int \<Rightarrow> timespec" where
  "SetRelTimeout now relMillis =
     (let sec = c_div relMillis 1000; milliSeconds = c_mod relMillis 1000
      in \<lparr>ts_sec = tv_sec now + sec, ts_nsec = (c_div (tv_usec now) 1000 + milliSeconds) * 1000000\<rparr>)"


section \<open>Starvation\<close>

text \<open>
  One round of the \<open>while (!done)\<close> loop of \<open>BumpPriority\<close>; \<open>None\<close> when it sets \<open>done\<close>. The
  loop ends because every round moves a job up.
\<close>

definition q_pop :: "'i queue \<Rightarrow> 'i queue" where
  "q_pop q = q_remove_at q 0"

definition bump_med :: "timeval \<Rightarrow> ThreadPool \<Rightarrow> ThreadPool option" where
  "bump_med now tp =
     (case q_items (medJobQ tp) of
        [] \<Rightarrow> None
      | tempJob # _ \<Rightarrow>
          (let diffTime = DiffMillis now (requestTime tempJob)
           in if diffTime \<ge> starvationTime (tp_attr tp) then
                (let tp1 = StatsAccountMQ tp diffTime;
                     tp2 = tp1\<lparr>medJobQ := q_pop (medJobQ tp1)\<rparr>
                 in case q_add_tail (tp_oom tp2) (highJobQ tp2) tempJob of
                      (_, orc, q) \<Rightarrow> Some (tp2\<lparr>highJobQ := q, tp_oom := orc\<rparr>))
              else None))"

definition bump_low :: "timeval \<Rightarrow> ThreadPool \<Rightarrow> ThreadPool option" where
  "bump_low now tp =
     (case q_items (lowJobQ tp) of
        [] \<Rightarrow> None
      | tempJob # _ \<Rightarrow>
          (let diffTime = DiffMillis now (requestTime tempJob)
           in if diffTime \<ge> maxIdleTime (tp_attr tp) then
                (let tp1 = StatsAccountLQ tp diffTime;
                     tp2 = tp1\<lparr>lowJobQ := q_pop (lowJobQ tp1)\<rparr>
                 in case q_add_tail (tp_oom tp2) (medJobQ tp2) tempJob of
                      (_, orc, q) \<Rightarrow> Some (tp2\<lparr>medJobQ := q, tp_oom := orc\<rparr>))
              else None))"

definition bump_step :: "timeval \<Rightarrow> ThreadPool \<Rightarrow> ThreadPool option" where
  "bump_step now tp =
     (case bump_med now tp of Some tp' \<Rightarrow> Some tp' | None \<Rightarrow> bump_low now tp)"

definition bump_weight :: "ThreadPool \<Rightarrow> nat" where
  "bump_weight tp = List.length (q_items (medJobQ tp)) + 2 * List.length (q_items (lowJobQ tp))"

lemma q_pop_items: "q_items (q_pop q) = tl (q_items q)"
  by (simp add: q_pop_def q_remove_at_def drop_Suc)

lemma bump_med_SomeE:
  assumes "bump_med now tp = Some tp'"
  obtains j js orc q ok where "q_items (medJobQ tp) = j # js"
    and "DiffMillis now (requestTime j) \<ge> starvationTime (tp_attr tp)"
    and "q_add_tail (tp_oom tp) (highJobQ tp) j = (ok, orc, q)"
    and "tp' = (StatsAccountMQ tp (DiffMillis now (requestTime j)))
                 \<lparr>medJobQ := q_pop (medJobQ tp), highJobQ := q, tp_oom := orc\<rparr>"
  using assms
  by (auto simp: bump_med_def StatsAccountMQ_def Let_def split: list.splits if_splits prod.splits)

lemma bump_low_SomeE:
  assumes "bump_low now tp = Some tp'"
  obtains j js orc q ok where "q_items (lowJobQ tp) = j # js"
    and "DiffMillis now (requestTime j) \<ge> maxIdleTime (tp_attr tp)"
    and "q_add_tail (tp_oom tp) (medJobQ tp) j = (ok, orc, q)"
    and "tp' = (StatsAccountLQ tp (DiffMillis now (requestTime j)))
                 \<lparr>lowJobQ := q_pop (lowJobQ tp), medJobQ := q, tp_oom := orc\<rparr>"
  using assms
  by (auto simp: bump_low_def StatsAccountLQ_def Let_def split: list.splits if_splits prod.splits)

lemma bump_step_weight: "bump_step now tp = Some tp' \<Longrightarrow> bump_weight tp' < bump_weight tp"
  by (auto simp: bump_step_def bump_weight_def q_pop_items StatsAccountMQ_def StatsAccountLQ_def
      split: option.splits if_splits elim!: bump_med_SomeE bump_low_SomeE dest!: q_add_tail_items)

function BumpPriority :: "timeval \<Rightarrow> ThreadPool \<Rightarrow> ThreadPool" where
  "BumpPriority now tp =
     (case bump_step now tp of None \<Rightarrow> tp | Some tp' \<Rightarrow> BumpPriority now tp')"
  by pat_completeness auto
termination
  by (relation "measure (\<lambda>(now, tp). bump_weight tp)") (auto simp: bump_step_weight)

declare BumpPriority.simps [simp del]


section \<open>Jobs and attributes\<close>

definition CreateThreadPoolJob ::
  "timeval \<Rightarrow> ThreadPoolJob \<Rightarrow> int \<Rightarrow> ThreadPool \<Rightarrow> ThreadPoolJob option \<times> ThreadPool" where
  "CreateThreadPoolJob now job i tp =
     (case node_alloc (tp_oom tp) (jobFreeList tp) of
        (ok, orc, c) \<Rightarrow>
          (if ok then Some (job\<lparr>job_jobId := i, requestTime := now\<rparr>) else None,
           tp\<lparr>tp_oom := orc, jobFreeList := c\<rparr>))"

definition TPAttrInit :: "ThreadPoolAttr option \<Rightarrow> int \<times> ThreadPoolAttr option" where
  "TPAttrInit attr =
     (case attr of
        None \<Rightarrow> (EINVAL, None)
      | Some a \<Rightarrow>
          (0, Some (a\<lparr>jobsPerThread := 10, maxIdleTime := 10 * 1000, maxThreads := 10, minThreads := 1,
                     stackSize := 0, schedPolicy := SCHED_OTHER, starvationTime := 500,
                     maxJobsTotal := 100\<rparr>)))"

definition TPJobInit :: "ThreadPoolJob option \<Rightarrow> nat \<Rightarrow> nat \<Rightarrow> int \<times> ThreadPoolJob option" where
  "TPJobInit job func arg =
     (case job of
        None \<Rightarrow> (EINVAL, None)
      | Some j \<Rightarrow>
          if func = NULL then (EINVAL, Some j)
          else (0, Some (j\<lparr>job_func := func, job_arg := arg, job_priority := DEFAULT_PRIORITY,
                          job_free_func := NULL\<rparr>)))"

definition TPJobSetPriority :: "ThreadPoolJob option \<Rightarrow> int \<Rightarrow> int \<times> ThreadPoolJob option" where
  "TPJobSetPriority job priority =
     (case job of
        None \<Rightarrow> (EINVAL, None)
      | Some j \<Rightarrow>
          if priority = LOW_PRIORITY \<or> priority = MED_PRIORITY \<or> priority = HIGH_PRIORITY
          then (0, Some (j\<lparr>job_priority := priority\<rparr>)) else (EINVAL, Some j))"

definition TPJobSetFreeFunction :: "ThreadPoolJob option \<Rightarrow> nat \<Rightarrow> int \<times> ThreadPoolJob option" where
  "TPJobSetFreeFunction job func =
     (case job of None \<Rightarrow> (EINVAL, None) | Some j \<Rightarrow> (0, Some (j\<lparr>job_free_func := func\<rparr>)))"

definition TPAttrSetMaxThreads :: "ThreadPoolAttr option \<Rightarrow> int \<Rightarrow> int \<times> ThreadPoolAttr option" where
  "TPAttrSetMaxThreads attr v =
     (case attr of None \<Rightarrow> (EINVAL, None) | Some a \<Rightarrow> (0, Some (a\<lparr>maxThreads := v\<rparr>)))"

definition TPAttrSetMinThreads :: "ThreadPoolAttr option \<Rightarrow> int \<Rightarrow> int \<times> ThreadPoolAttr option" where
  "TPAttrSetMinThreads attr v =
     (case attr of None \<Rightarrow> (EINVAL, None) | Some a \<Rightarrow> (0, Some (a\<lparr>minThreads := v\<rparr>)))"

definition TPAttrSetStackSize :: "ThreadPoolAttr option \<Rightarrow> nat \<Rightarrow> int \<times> ThreadPoolAttr option" where
  "TPAttrSetStackSize attr v =
     (case attr of None \<Rightarrow> (EINVAL, None) | Some a \<Rightarrow> (0, Some (a\<lparr>stackSize := v\<rparr>)))"

definition TPAttrSetIdleTime :: "ThreadPoolAttr option \<Rightarrow> int \<Rightarrow> int \<times> ThreadPoolAttr option" where
  "TPAttrSetIdleTime attr v =
     (case attr of None \<Rightarrow> (EINVAL, None) | Some a \<Rightarrow> (0, Some (a\<lparr>maxIdleTime := v\<rparr>)))"

definition TPAttrSetJobsPerThread :: "ThreadPoolAttr option \<Rightarrow> int \<Rightarrow> int \<times> ThreadPoolAttr option" where
  "TPAttrSetJobsPerThread attr v =
     (case attr of None \<Rightarrow> (EINVAL, None) | Some a \<Rightarrow> (0, Some (a\<lparr>jobsPerThread := v\<rparr>)))"

definition TPAttrSetStarvationTime :: "ThreadPoolAttr option \<Rightarrow> int \<Rightarrow> int \<times> ThreadPoolAttr option" where
  "TPAttrSetStarvationTime attr v =
     (case attr of None \<Rightarrow> (EINVAL, None) | Some a \<Rightarrow> (0, Some (a\<lparr>starvationTime := v\<rparr>)))"

definition TPAttrSetSchedPolicy :: "ThreadPoolAttr option \<Rightarrow> int \<Rightarrow> int \<times> ThreadPoolAttr option" where
  "TPAttrSetSchedPolicy attr v =
     (case attr of None \<Rightarrow> (EINVAL, None) | Some a \<Rightarrow> (0, Some (a\<lparr>schedPolicy := v\<rparr>)))"

definition TPAttrSetMaxJobsTotal :: "ThreadPoolAttr option \<Rightarrow> int \<Rightarrow> int \<times> ThreadPoolAttr option" where
  "TPAttrSetMaxJobsTotal attr v =
     (case attr of None \<Rightarrow> (EINVAL, None) | Some a \<Rightarrow> (0, Some (a\<lparr>maxJobsTotal := v\<rparr>)))"

definition ThreadPoolGetAttr :: "ThreadPool option \<Rightarrow> bool \<Rightarrow> int \<times> ThreadPoolAttr option" where
  "ThreadPoolGetAttr tp out =
     (case tp of
        None \<Rightarrow> (EINVAL, None)
      | Some t \<Rightarrow> if \<not> out then (EINVAL, None) else (0, Some (tp_attr t)))"

definition ThreadPoolGetStats :: "ThreadPool option \<Rightarrow> bool \<Rightarrow> int \<times> ThreadPoolStats option" where
  "ThreadPoolGetStats tp out =
     (case tp of
        None \<Rightarrow> (EINVAL, None)
      | Some t \<Rightarrow>
          if \<not> out then (EINVAL, None)
          else
            (let st = tp_stats t
             in (0, Some (st\<lparr>
               avgWaitHQ := (if totalJobsHQ st > 0 then of_int (totalTimeHQ st) / of_int (totalJobsHQ st) else 0),
               avgWaitMQ := (if totalJobsMQ st > 0 then of_int (totalTimeMQ st) / of_int (totalJobsMQ st) else 0),
               avgWaitLQ := (if totalJobsLQ st > 0 then of_int (totalTimeLQ st) / of_int (totalJobsLQ st) else 0),
               st_totalThreads := totalThreads t,
               st_persistentThreads := persistentThreads t,
               currentJobsHQ := q_size (highJobQ t),
               currentJobsLQ := q_size (lowJobQ t),
               currentJobsMQ := q_size (medJobQ t)\<rparr>))))"


section \<open>Removing a job\<close>

text \<open>\<open>ListFind\<close> from the start of a queue with \<open>CmpThreadPoolJob\<close>: the first job with the id.\<close>

fun find_job :: "int \<Rightarrow> ThreadPoolJob list \<Rightarrow> nat option" where
  "find_job i [] = None"
| "find_job i (j # js) =
     (if i = job_jobId j then Some 0 else map_option Suc (find_job i js))"

definition ThreadPoolRemove ::
  "ThreadPool option \<Rightarrow> int \<Rightarrow> int \<times> ThreadPoolJob option \<times> ThreadPool option" where
  "ThreadPoolRemove tpo jobId =
     (case tpo of
        None \<Rightarrow> (EINVAL, None, None)
      | Some tp \<Rightarrow>
          (case find_job jobId (q_items (highJobQ tp)) of
             Some k \<Rightarrow>
               (0, Some (q_items (highJobQ tp) ! k),
                Some (FreeThreadPoolJob (tp\<lparr>highJobQ := q_remove_at (highJobQ tp) k\<rparr>)))
           | None \<Rightarrow>
          (case find_job jobId (q_items (medJobQ tp)) of
             Some k \<Rightarrow>
               (0, Some (q_items (medJobQ tp) ! k),
                Some (FreeThreadPoolJob (tp\<lparr>medJobQ := q_remove_at (medJobQ tp) k\<rparr>)))
           | None \<Rightarrow>
          (case find_job jobId (q_items (lowJobQ tp)) of
             Some k \<Rightarrow>
               (0, Some (q_items (lowJobQ tp) ! k),
                Some (FreeThreadPoolJob (tp\<lparr>lowJobQ := q_remove_at (lowJobQ tp) k\<rparr>)))
           | None \<Rightarrow>
          (case persistentJob tp of
             Some j \<Rightarrow>
               if job_jobId j = jobId
               then (0, Some j, Some ((FreeThreadPoolJob tp)\<lparr>persistentJob := None\<rparr>))
               else (INVALID_JOB_ID, None, Some tp)
           | None \<Rightarrow> (INVALID_JOB_ID, None, Some tp))))))"


section \<open>The worker thread\<close>

text \<open>
  Between two blocking points a worker is at the beginning (\<open>W_Start\<close>), outside the critical
  section with the job it runs and its locals \<open>persistent\<close> and \<open>start\<close> (\<open>W_Out\<close>; no job the
  first time round), in \<open>ithread_cond_timedwait\<close> (\<open>W_Wait\<close>, with the deadline), or gone.
\<close>

datatype worker =
  W_Start
| W_Out "ThreadPoolJob option" int int
| W_Wait int timespec
| W_Dead

definition WorkerThread_start :: "clock \<Rightarrow> ThreadPool \<Rightarrow> worker \<times> ThreadPool" where
  "WorkerThread_start clk tp =
     (W_Out None (-1) (StatsTime (clk 0)),
      tp\<lparr>totalThreads := totalThreads tp + 1, pendingWorkerThreadStart := False\<rparr>)"

definition WorkerThread_exit :: "ThreadPool \<Rightarrow> worker \<times> ThreadPool" where
  "WorkerThread_exit tp = (W_Dead, tp\<lparr>totalThreads := totalThreads tp - 1\<rparr>)"

definition add_workers :: "int \<Rightarrow> ThreadPool \<Rightarrow> ThreadPool" where
  "add_workers d tp = tp\<lparr>tp_stats := (tp_stats tp)\<lparr>st_workerThreads := st_workerThreads (tp_stats tp) + d\<rparr>\<rparr>"

definition add_idle :: "int \<Rightarrow> ThreadPool \<Rightarrow> ThreadPool" where
  "add_idle d tp = tp\<lparr>tp_stats := (tp_stats tp)\<lparr>st_idleThreads := st_idleThreads (tp_stats tp) + d\<rparr>\<rparr>"

text \<open>Picking up a job: the end of the critical section, from the priority bump on.\<close>

definition WorkerThread_pick :: "clock \<Rightarrow> int \<Rightarrow> ThreadPool \<Rightarrow> worker \<times> ThreadPool" where
  "WorkerThread_pick clk start tp0 =
     (let tp = BumpPriority (clk 4) tp0
      in if tp_shutdown tp then WorkerThread_exit tp
         else case persistentJob tp of
           Some job \<Rightarrow>
             (W_Out (Some job) 1 start,
              tp\<lparr>persistentJob := None, persistentThreads := persistentThreads tp + 1,
                 busyThreads := busyThreads tp + 1\<rparr>)
         | None \<Rightarrow>
             (let tp1 = add_workers 1 tp
              in case q_items (highJobQ tp1) of
                   job # _ \<Rightarrow>
                     (let tp2 = CalcWaitTime (clk 5) tp1 HIGH_PRIORITY job
                      in (W_Out (Some job) 0 start,
                          tp2\<lparr>highJobQ := q_pop (highJobQ tp2), busyThreads := busyThreads tp2 + 1\<rparr>))
                 | [] \<Rightarrow>
              (case q_items (medJobQ tp1) of
                   job # _ \<Rightarrow>
                     (let tp2 = CalcWaitTime (clk 5) tp1 MED_PRIORITY job
                      in (W_Out (Some job) 0 start,
                          tp2\<lparr>medJobQ := q_pop (medJobQ tp2), busyThreads := busyThreads tp2 + 1\<rparr>))
                 | [] \<Rightarrow>
              (case q_items (lowJobQ tp1) of
                   job # _ \<Rightarrow>
                     (let tp2 = CalcWaitTime (clk 5) tp1 LOW_PRIORITY job
                      in (W_Out (Some job) 0 start,
                          tp2\<lparr>lowJobQ := q_pop (lowJobQ tp2), busyThreads := busyThreads tp2 + 1\<rparr>))
                 | [] \<Rightarrow> WorkerThread_exit (add_workers (-1) tp1)))))"

definition no_work :: "ThreadPool \<Rightarrow> bool" where
  "no_work tp \<longleftrightarrow>
     q_items (lowJobQ tp) = [] \<and> q_items (medJobQ tp) = [] \<and> q_items (highJobQ tp) = [] \<and>
     persistentJob tp = None \<and> \<not> tp_shutdown tp"

text \<open>One test of the inner \<open>while\<close> loop, and what follows it up to the next blocking point.\<close>

definition WorkerThread_check :: "clock \<Rightarrow> int \<Rightarrow> int \<Rightarrow> ThreadPool \<Rightarrow> worker \<times> ThreadPool" where
  "WorkerThread_check clk start retCode tp =
     (if no_work tp then
        (if (retCode = ETIMEDOUT \<and> totalThreads tp > minThreads (tp_attr tp)) \<or>
            (maxThreads (tp_attr tp) \<noteq> -1 \<and> totalThreads tp > maxThreads (tp_attr tp))
         then WorkerThread_exit (add_idle (-1) tp)
         else (W_Wait start (SetRelTimeout (clk 2) (maxIdleTime (tp_attr tp))), tp))
      else
        (let tp1 = add_idle (-1) tp;
             tp2 = tp1\<lparr>tp_stats := (tp_stats tp1)\<lparr>totalIdleTime :=
                        totalIdleTime (tp_stats tp1) + (StatsTime (clk 2) - start)\<rparr>\<rparr>
         in WorkerThread_pick clk (StatsTime (clk 3)) tp2))"

text \<open>The top of the outer loop: give back the job just run, then look for work.\<close>

definition WorkerThread_top ::
  "clock \<Rightarrow> ThreadPoolJob option \<Rightarrow> int \<Rightarrow> int \<Rightarrow> ThreadPool \<Rightarrow> worker \<times> ThreadPool" where
  "WorkerThread_top clk job persistent start tp0 =
     (let tp1 = (case job of
                   None \<Rightarrow> tp0
                 | Some _ \<Rightarrow> FreeThreadPoolJob (tp0\<lparr>busyThreads := busyThreads tp0 - 1\<rparr>));
          tp2 = add_idle 1 tp1;
          tp3 = tp2\<lparr>tp_stats := (tp_stats tp2)\<lparr>totalWorkTime :=
                     totalWorkTime (tp_stats tp2) + (StatsTime (clk 0) - start)\<rparr>\<rparr>;
          tp4 = (if persistent = 0 then add_workers (-1) tp3
                 else if persistent = 1 then tp3\<lparr>persistentThreads := persistentThreads tp3 - 1\<rparr>
                 else tp3)
      in WorkerThread_check clk (StatsTime (clk 1)) 0 tp4)"

definition WorkerThread :: "clock \<Rightarrow> int \<Rightarrow> worker \<Rightarrow> ThreadPool \<Rightarrow> worker \<times> ThreadPool" where
  "WorkerThread clk retCode w tp =
     (case w of
        W_Start \<Rightarrow> WorkerThread_start clk tp
      | W_Out job persistent start \<Rightarrow> WorkerThread_top clk job persistent start tp
      | W_Wait start timeout \<Rightarrow> WorkerThread_check clk start retCode tp
      | W_Dead \<Rightarrow> (W_Dead, tp))"


section \<open>Creating workers\<close>

text \<open>
  \<open>CreateWorker\<close> may block: before creating the thread while another worker is starting, and
  after it until the new worker runs. \<open>cont\<close> is what its caller does afterwards: the rest of
  \<open>AddWorker\<close> in \<open>ThreadPoolAdd\<close> (with its locals \<open>temp\<close>, \<open>rc\<close>, \<open>jobs\<close>, \<open>threads\<close>), of
  \<open>ThreadPoolAddPersistent\<close>, or the counting loop of \<open>ThreadPoolInit\<close> and \<open>ThreadPoolSetAttr\<close>
  at index \<open>i\<close>. A call of the interface is blocked at such a point, waits for the persistent job to
  be picked up, is about to shut the pool down after a failed start, waits for the workers to
  end, or has returned (its result and \<open>*jobId\<close> when it was set).
\<close>

datatype cont =
  K_Add ThreadPoolJob int int int
| K_Persistent ThreadPoolJob
| K_Threads int

datatype client =
  C_Before cont
| C_After int cont
| C_Picked
| C_Shutdown int
| C_Stopping int
| C_Done int "int option"

text \<open>
  The results of \<open>ithread_create\<close> and \<open>ithread_detach\<close>, which the operating system decides.
\<close>

record spawn_env =
  se_create :: int
  se_detach :: int

text \<open>The part of \<open>CreateWorker\<close> after the first wait: an error, or a new thread.\<close>

definition note_max :: "ThreadPool \<Rightarrow> ThreadPool" where
  "note_max tp =
     (if st_maxThreads (tp_stats tp) < totalThreads tp
      then tp\<lparr>tp_stats := (tp_stats tp)\<lparr>st_maxThreads := totalThreads tp\<rparr>\<rparr> else tp)"

definition CreateWorker_create :: "spawn_env \<Rightarrow> ThreadPool \<Rightarrow> (int \<times> ThreadPool) + (int \<times> ThreadPool)" where
  "CreateWorker_create se tp =
     (if maxThreads (tp_attr tp) \<noteq> INFINITE_THREADS \<and> totalThreads tp + 1 > maxThreads (tp_attr tp)
      then Inl (EMAXTHREADS, tp)
      else if se_create se = 0 then
        Inr (if se_detach se = EINVAL then 0 else se_detach se,
             tp\<lparr>pendingWorkerThreadStart := True\<rparr>)
      else Inl (se_create se, note_max tp))"

definition finish_add :: "ThreadPoolJob \<Rightarrow> int \<Rightarrow> ThreadPool \<Rightarrow> client \<times> ThreadPool" where
  "finish_add temp rc tp =
     (let tp1 = (if rc = 0 then tp else FreeThreadPoolJob tp)
      in (C_Done rc (Some (lastJobId tp1)), tp1\<lparr>lastJobId := lastJobId tp1 + 1\<rparr>))"

definition persist_job :: "timeval \<Rightarrow> ThreadPoolJob \<Rightarrow> ThreadPool \<Rightarrow> client \<times> ThreadPool" where
  "persist_job now job tp =
     (case CreateThreadPoolJob now job (lastJobId tp) tp of
        (None, tp1) \<Rightarrow> (C_Done EOUTOFMEM (Some INVALID_JOB_ID), tp1)
      | (Some temp, tp1) \<Rightarrow> (C_Picked, tp1\<lparr>persistentJob := Some temp\<rparr>))"

text \<open>What follows when \<open>CreateWorker\<close> returns an error.\<close>

definition cont_fail :: "clock \<Rightarrow> cont \<Rightarrow> int \<Rightarrow> ThreadPool \<Rightarrow> client \<times> ThreadPool" where
  "cont_fail clk k rc tp =
     (case k of
        K_Add temp r jobs threads \<Rightarrow> finish_add temp r tp
      | K_Persistent job \<Rightarrow> persist_job (clk 0) job tp
      | K_Threads i \<Rightarrow> (C_Shutdown rc, tp))"

definition CreateWorker :: "clock \<Rightarrow> spawn_env \<Rightarrow> cont \<Rightarrow> ThreadPool \<Rightarrow> (client \<times> ThreadPool) \<times> bool" where
  "CreateWorker clk se k tp =
     (if pendingWorkerThreadStart tp then ((C_Before k, tp), False)
      else case CreateWorker_create se tp of
             Inl (rc, tp') \<Rightarrow> (cont_fail clk k rc tp', False)
           | Inr (rc, tp') \<Rightarrow> ((C_After rc k, tp'), True))"

definition AddWorker ::
  "clock \<Rightarrow> spawn_env \<Rightarrow> ThreadPoolJob \<Rightarrow> int \<Rightarrow> int \<Rightarrow> int \<Rightarrow> ThreadPool
     \<Rightarrow> (client \<times> ThreadPool) \<times> bool" where
  "AddWorker clk se temp rc jobs threads tp =
     (if threads = 0 \<or> c_div jobs threads \<ge> jobsPerThread (tp_attr tp) \<or>
         totalThreads tp = busyThreads tp
      then CreateWorker clk se (K_Add temp rc jobs threads) tp
      else (finish_add temp rc tp, False))"

text \<open>The \<open>for\<close> loop that starts the minimum number of threads, at index \<open>i\<close>.\<close>

definition start_threads :: "clock \<Rightarrow> spawn_env \<Rightarrow> int \<Rightarrow> ThreadPool \<Rightarrow> (client \<times> ThreadPool) \<times> bool" where
  "start_threads clk se i tp =
     (if i < minThreads (tp_attr tp) then CreateWorker clk se (K_Threads i) tp
      else ((C_Done 0 None, tp), False))"

text \<open>What follows when \<open>CreateWorker\<close> returns 0.\<close>

definition cont_ok :: "clock \<Rightarrow> spawn_env \<Rightarrow> cont \<Rightarrow> ThreadPool \<Rightarrow> (client \<times> ThreadPool) \<times> bool" where
  "cont_ok clk se k tp =
     (case k of
        K_Add temp rc jobs threads \<Rightarrow> AddWorker clk se temp rc jobs (threads + 1) tp
      | K_Persistent job \<Rightarrow> (persist_job (clk 0) job tp, False)
      | K_Threads i \<Rightarrow> start_threads clk se (i + 1) tp)"


section \<open>The interface\<close>

definition queued_jobs :: "ThreadPool \<Rightarrow> int" where
  "queued_jobs tp = q_size (highJobQ tp) + q_size (lowJobQ tp) + q_size (medJobQ tp)"

definition enqueue_job :: "ThreadPoolJob \<Rightarrow> ThreadPool \<Rightarrow> bool \<times> ThreadPool" where
  "enqueue_job temp tp =
     (if job_priority temp = HIGH_PRIORITY then
        (case q_add_tail (tp_oom tp) (highJobQ tp) temp of
           (ok, orc, q) \<Rightarrow> (ok, tp\<lparr>highJobQ := q, tp_oom := orc\<rparr>))
      else if job_priority temp = MED_PRIORITY then
        (case q_add_tail (tp_oom tp) (medJobQ tp) temp of
           (ok, orc, q) \<Rightarrow> (ok, tp\<lparr>medJobQ := q, tp_oom := orc\<rparr>))
      else
        (case q_add_tail (tp_oom tp) (lowJobQ tp) temp of
           (ok, orc, q) \<Rightarrow> (ok, tp\<lparr>lowJobQ := q, tp_oom := orc\<rparr>)))"

definition ThreadPoolAdd ::
  "clock \<Rightarrow> spawn_env \<Rightarrow> ThreadPoolJob option \<Rightarrow> ThreadPool \<Rightarrow> (client \<times> ThreadPool) \<times> bool" where
  "ThreadPoolAdd clk se jobp tp =
     (case jobp of None \<Rightarrow> ((C_Done EINVAL None, tp), False) | Some job \<Rightarrow>
      if queued_jobs tp \<ge> maxJobsTotal (tp_attr tp) then ((C_Done EOUTOFMEM None, tp), False)
      else case CreateThreadPoolJob (clk 1) job (lastJobId tp) tp of
             (None, tp1) \<Rightarrow> ((C_Done EOUTOFMEM (Some INVALID_JOB_ID), tp1), False)
           | (Some temp, tp1) \<Rightarrow>
               (case enqueue_job temp tp1 of
                  (ok, tp2) \<Rightarrow>
                    AddWorker clk se temp (if ok then 0 else EOUTOFMEM) (queued_jobs tp2)
                      (totalThreads tp2 - persistentThreads tp2) tp2))"

definition ThreadPoolAddPersistent ::
  "clock \<Rightarrow> spawn_env \<Rightarrow> ThreadPoolJob option \<Rightarrow> ThreadPool \<Rightarrow> (client \<times> ThreadPool) \<times> bool" where
  "ThreadPoolAddPersistent clk se jobp tp =
     (case jobp of None \<Rightarrow> ((C_Done EINVAL None, tp), False) | Some job \<Rightarrow>
      if totalThreads tp < maxThreads (tp_attr tp) then CreateWorker clk se (K_Persistent job) tp
      else if totalThreads tp - persistentThreads tp - 1 = 0
      then ((C_Done EMAXTHREADS (Some INVALID_JOB_ID), tp), False)
      else (persist_job (clk 0) job tp, False))"

definition default_attr :: ThreadPoolAttr where
  "default_attr =
     \<lparr>minThreads = 1, maxThreads = 10, stackSize = 0, maxIdleTime = 10 * 1000, jobsPerThread = 10,
      maxJobsTotal = 100, starvationTime = 500, schedPolicy = SCHED_OTHER\<rparr>"

lemma default_attr_init: "TPAttrInit (Some a) = (0, Some default_attr)"
  by (cases a) (simp add: TPAttrInit_def default_attr_def)

text \<open>
  \<open>sched\<close> is the result of \<open>SetPolicyType\<close>, \<open>sync\<close> whether the mutex and the condition
  variables could be created.
\<close>

definition ThreadPoolInit ::
  "clock \<Rightarrow> spawn_env \<Rightarrow> bool \<Rightarrow> int \<Rightarrow> ThreadPoolAttr option \<Rightarrow> ThreadPool
     \<Rightarrow> (client \<times> ThreadPool) \<times> bool" where
  "ThreadPoolInit clk se sync sched attr tp =
     (if \<not> sync then ((C_Done EAGAIN None, tp), False)
      else
        (let tp1 = tp\<lparr>tp_attr := (case attr of
                                    Some a \<Rightarrow> a
                                  | None \<Rightarrow> the (snd (TPAttrInit (Some (tp_attr tp)))))\<rparr>
         in if sched \<noteq> 0 then ((C_Done INVALID_POLICY None, tp1), False)
            else start_threads clk se 0
                   (tp1\<lparr>jobFreeList := 0, tp_stats := StatsInit (tp_stats tp1),
                        highJobQ := q_empty, medJobQ := q_empty, lowJobQ := q_empty,
                        persistentJob := None, lastJobId := 0, tp_shutdown := False,
                        totalThreads := 0, busyThreads := 0, persistentThreads := 0,
                        pendingWorkerThreadStart := False\<rparr>)))"

definition ThreadPoolSetAttr ::
  "clock \<Rightarrow> spawn_env \<Rightarrow> int \<Rightarrow> ThreadPoolAttr option \<Rightarrow> ThreadPool \<Rightarrow> (client \<times> ThreadPool) \<times> bool" where
  "ThreadPoolSetAttr clk se sched attr tp =
     (let temp = (case attr of Some a \<Rightarrow> a | None \<Rightarrow> the (snd (TPAttrInit (Some (tp_attr tp)))))
      in if sched \<noteq> 0 then ((C_Done INVALID_POLICY None, tp), False)
         else
           (let tp1 = tp\<lparr>tp_attr := temp\<rparr>
            in if totalThreads tp1 < minThreads (tp_attr tp1)
               then start_threads clk se (totalThreads tp1) tp1
               else ((C_Done 0 None, tp1), False)))"

text \<open>The loops of \<open>ThreadPoolShutdown\<close> over one queue: free every job, then the list's cache.\<close>

definition free_call :: "ThreadPoolJob \<Rightarrow> (nat \<times> nat) list" where
  "free_call j = (if job_free_func j \<noteq> NULL then [(job_free_func j, job_arg j)] else [])"

fun drain :: "ThreadPoolJob list \<Rightarrow> ThreadPool \<Rightarrow> ThreadPool" where
  "drain [] tp = tp"
| "drain (temp # js) tp =
     drain js (FreeThreadPoolJob (tp\<lparr>tp_freed := tp_freed tp @ free_call temp\<rparr>))"

definition ThreadPoolShutdown :: "int \<Rightarrow> ThreadPool \<Rightarrow> client \<times> ThreadPool" where
  "ThreadPoolShutdown ret tp =
     (let tp1 = (drain (q_items (highJobQ tp)) tp)\<lparr>highJobQ := q_empty\<rparr>;
          tp2 = (drain (q_items (medJobQ tp1)) tp1)\<lparr>medJobQ := q_empty\<rparr>;
          tp3 = (drain (q_items (lowJobQ tp2)) tp2)\<lparr>lowJobQ := q_empty\<rparr>;
          tp4 = (case persistentJob tp3 of
                   None \<Rightarrow> tp3
                 | Some temp \<Rightarrow>
                     (FreeThreadPoolJob (tp3\<lparr>tp_freed := tp_freed tp3 @ free_call temp\<rparr>))
                       \<lparr>persistentJob := None\<rparr>)
      in (C_Stopping ret, tp4\<lparr>tp_shutdown := True\<rparr>))"

definition ThreadPoolShutdown_end :: "int \<Rightarrow> ThreadPool \<Rightarrow> client \<times> ThreadPool" where
  "ThreadPoolShutdown_end ret tp =
     (if totalThreads tp > 0 then (C_Stopping ret, tp) else (C_Done ret None, tp\<lparr>jobFreeList := 0\<rparr>))"

text \<open>A call of the interface up to its first blocking point; a NULL pool is refused.\<close>

datatype api =
  Api_Add "ThreadPoolJob option"
| Api_AddPersistent "ThreadPoolJob option"
| Api_Remove int
| Api_SetAttr int "ThreadPoolAttr option"
| Api_Shutdown

definition api_call ::
  "clock \<Rightarrow> spawn_env \<Rightarrow> api \<Rightarrow> ThreadPool option \<Rightarrow> (client \<times> ThreadPool option) \<times> bool" where
  "api_call clk se a tpo =
     (case tpo of
        None \<Rightarrow> ((C_Done EINVAL None, None), False)
      | Some tp \<Rightarrow>
          map_prod (map_prod id Some) id
            (case a of
               Api_Add job \<Rightarrow> ThreadPoolAdd clk se job tp
             | Api_AddPersistent job \<Rightarrow> ThreadPoolAddPersistent clk se job tp
             | Api_Remove i \<Rightarrow>
                 (case ThreadPoolRemove (Some tp) i of
                    (ret, out, tp') \<Rightarrow> ((C_Done ret None, the tp'), False))
             | Api_SetAttr sched attr \<Rightarrow> ThreadPoolSetAttr clk se sched attr tp
             | Api_Shutdown \<Rightarrow> (ThreadPoolShutdown 0 tp, False)))"

text \<open>A blocked call runs on from its blocking point; the last component is set for a new thread.\<close>

definition resume_call ::
  "clock \<Rightarrow> spawn_env \<Rightarrow> client \<Rightarrow> ThreadPool \<Rightarrow> (client \<times> ThreadPool) \<times> bool" where
  "resume_call clk se c tp =
     (case c of
        C_Before k \<Rightarrow> CreateWorker clk se k tp
      | C_After rc k \<Rightarrow>
          if pendingWorkerThreadStart tp then ((c, tp), False)
          else if rc = 0 then cont_ok clk se k (note_max tp)
          else (cont_fail clk k rc (note_max tp), False)
      | C_Picked \<Rightarrow>
          if persistentJob tp \<noteq> None then ((c, tp), False)
          else ((C_Done 0 (Some (lastJobId tp)), tp\<lparr>lastJobId := lastJobId tp + 1\<rparr>), False)
      | C_Shutdown ret \<Rightarrow> (ThreadPoolShutdown ret tp, False)
      | C_Stopping ret \<Rightarrow> (ThreadPoolShutdown_end ret tp, False)
      | C_Done r i \<Rightarrow> ((c, tp), False))"

end
