(* ===== verification/PoolSystem.thy ===== *)
theory PoolSystem
  imports ThreadPool "HOL-Library.Multiset"
begin

text \<open>
  Runs of the thread pool: worker threads and calls of the interface that interleave at the
  blocking points, in any order the scheduler chooses, with any clock, any wake-up (spurious
  ones and timeouts included) and any allocation or thread-creation failure.

  \<open>step\<close> is the transition relation; its first argument says whether a call may start while
  another is in progress. The invariants are proved by rule induction: the pool's counters
  agree with what the threads do, the thread and job limits hold, job ids are unique when calls
  do not overlap. A final section shows two runs with overlapping calls where they are not.
\<close>

section \<open>Transitions\<close>

record sys =
  s_tp :: ThreadPool
  s_workers :: "worker list"
  s_clients :: "client list"

definition is_done :: "client \<Rightarrow> bool" where
  "is_done c = (case c of C_Done _ _ \<Rightarrow> True | _ \<Rightarrow> False)"

definition spawned :: "bool \<Rightarrow> worker list \<Rightarrow> worker list" where
  "spawned b ws = (if b then ws @ [W_Start] else ws)"

datatype label =
  L_Worker nat clock int
| L_Call api clock spawn_env
| L_Resume nat clock spawn_env

definition exec :: "label \<Rightarrow> sys \<Rightarrow> sys" where
  "exec l s =
     (case l of
        L_Worker i clk retCode \<Rightarrow>
          (case WorkerThread clk retCode (s_workers s ! i) (s_tp s) of
             (w, tp) \<Rightarrow> s\<lparr>s_tp := tp, s_workers := (s_workers s)[i := w]\<rparr>)
      | L_Call a clk se \<Rightarrow>
          (case api_call clk se a (Some (s_tp s)) of
             ((c, tp), b) \<Rightarrow>
               s\<lparr>s_tp := the tp, s_workers := spawned b (s_workers s), s_clients := s_clients s @ [c]\<rparr>)
      | L_Resume i clk se \<Rightarrow>
          (case resume_call clk se (s_clients s ! i) (s_tp s) of
             ((c, tp), b) \<Rightarrow>
               s\<lparr>s_tp := tp, s_workers := spawned b (s_workers s),
                 s_clients := (s_clients s)[i := c]\<rparr>))"

definition enabled :: "bool \<Rightarrow> label \<Rightarrow> sys \<Rightarrow> bool" where
  "enabled overlap l s =
     (case l of
        L_Worker i clk retCode \<Rightarrow> i < List.length (s_workers s)
      | L_Call a clk se \<Rightarrow>
          \<not> tp_shutdown (s_tp s) \<and> (overlap \<or> list_all is_done (s_clients s))
      | L_Resume i clk se \<Rightarrow> i < List.length (s_clients s))"

inductive step :: "bool \<Rightarrow> sys \<Rightarrow> sys \<Rightarrow> bool" for overlap where
  step: "enabled overlap l s \<Longrightarrow> step overlap s (exec l s)"

definition init_sys :: "clock \<Rightarrow> spawn_env \<Rightarrow> ThreadPoolAttr option \<Rightarrow> ThreadPool \<Rightarrow> sys" where
  "init_sys clk se attr tp =
     (case ThreadPoolInit clk se True 0 attr tp of
        ((c, tp'), b) \<Rightarrow> \<lparr>s_tp = tp', s_workers = spawned b [], s_clients = [c]\<rparr>)"

inductive reachable :: "bool \<Rightarrow> sys \<Rightarrow> bool" for overlap where
  init: "reachable overlap (init_sys clk se attr tp)"
| next_step: "reachable overlap s \<Longrightarrow> step overlap s s' \<Longrightarrow> reachable overlap s'"

inductive_cases stepE: "step overlap s s'"


section \<open>Counting threads\<close>

definition count_if :: "('a \<Rightarrow> bool) \<Rightarrow> 'a list \<Rightarrow> int" where
  "count_if P xs = int (List.length (filter P xs))"

lemma count_if_Nil [simp]: "count_if P [] = 0"
  by (simp add: count_if_def)

lemma count_if_append [simp]: "count_if P (xs @ ys) = count_if P xs + count_if P ys"
  by (simp add: count_if_def)

lemma count_if_single [simp]: "count_if P [x] = of_bool (P x)"
  by (simp add: count_if_def)

lemma count_if_update:
  "i < List.length xs \<Longrightarrow>
     count_if P (xs[i := x]) = count_if P xs - of_bool (P (xs ! i)) + of_bool (P x)"
proof (induction xs arbitrary: i)
  case Nil
  then show ?case by simp
next
  case (Cons y ys)
  then show ?case by (cases i) (auto simp: count_if_def)
qed

lemma count_if_nonneg [simp]: "0 \<le> count_if P xs"
  by (simp add: count_if_def)

lemma count_if_pos: "i < List.length xs \<Longrightarrow> P (xs ! i) \<Longrightarrow> 0 < count_if P xs"
  by (auto simp: count_if_def filter_empty_conv)

definition is_starting :: "worker \<Rightarrow> bool" where
  "is_starting w = (case w of W_Start \<Rightarrow> True | _ \<Rightarrow> False)"

definition is_live :: "worker \<Rightarrow> bool" where
  "is_live w = (case w of W_Out _ _ _ \<Rightarrow> True | W_Wait _ _ \<Rightarrow> True | _ \<Rightarrow> False)"

definition is_busy :: "worker \<Rightarrow> bool" where
  "is_busy w = (case w of W_Out (Some _) _ _ \<Rightarrow> True | _ \<Rightarrow> False)"

definition is_idle :: "worker \<Rightarrow> bool" where
  "is_idle w = (case w of W_Wait _ _ \<Rightarrow> True | _ \<Rightarrow> False)"

definition runs_as :: "int \<Rightarrow> worker \<Rightarrow> bool" where
  "runs_as p w = (case w of W_Out (Some _) q _ \<Rightarrow> q = p | _ \<Rightarrow> False)"

definition worker_ok :: "worker \<Rightarrow> bool" where
  "worker_ok w =
     (case w of W_Out None p _ \<Rightarrow> p = -1 | W_Out (Some _) p _ \<Rightarrow> p = 0 \<or> p = 1 | _ \<Rightarrow> True)"

lemmas worker_preds =
  is_starting_def is_live_def is_busy_def is_idle_def runs_as_def worker_ok_def

text \<open>The counters of a pool, as a vector, and the contribution of one worker to it.\<close>

record counters =
  n_total :: int
  n_busy :: int
  n_persistent :: int
  n_workers :: int
  n_idle :: int

definition counters_of :: "ThreadPool \<Rightarrow> counters" where
  "counters_of tp =
     \<lparr>n_total = totalThreads tp, n_busy = busyThreads tp, n_persistent = persistentThreads tp,
      n_workers = st_workerThreads (tp_stats tp), n_idle = st_idleThreads (tp_stats tp)\<rparr>"

definition counted :: "worker list \<Rightarrow> counters" where
  "counted ws =
     \<lparr>n_total = count_if is_live ws, n_busy = count_if is_busy ws,
      n_persistent = count_if (runs_as 1) ws, n_workers = count_if (runs_as 0) ws,
      n_idle = count_if is_idle ws\<rparr>"

definition shift :: "counters \<Rightarrow> worker \<Rightarrow> worker \<Rightarrow> counters" where
  "shift c w w' =
     \<lparr>n_total = n_total c - of_bool (is_live w) + of_bool (is_live w'),
      n_busy = n_busy c - of_bool (is_busy w) + of_bool (is_busy w'),
      n_persistent = n_persistent c - of_bool (runs_as 1 w) + of_bool (runs_as 1 w'),
      n_workers = n_workers c - of_bool (runs_as 0 w) + of_bool (runs_as 0 w'),
      n_idle = n_idle c - of_bool (is_idle w) + of_bool (is_idle w')\<rparr>"

lemma counted_update: "i < List.length ws \<Longrightarrow> counted (ws[i := w]) = shift (counted ws) (ws ! i) w"
  by (simp add: counted_def shift_def count_if_update)

lemma counted_spawned [simp]: "counted (spawned b ws) = counted ws"
  by (simp add: counted_def spawned_def worker_preds)

text \<open>The fields that the code between blocking points keeps, whatever it does to the queues.\<close>

lemma bump_step_keeps:
  assumes "bump_step now tp = Some tp'"
  shows "counters_of tp' = counters_of tp" "pendingWorkerThreadStart tp' = pendingWorkerThreadStart tp"
    "tp_attr tp' = tp_attr tp" "tp_shutdown tp' = tp_shutdown tp" "persistentJob tp' = persistentJob tp"
    "lastJobId tp' = lastJobId tp"
  using assms
  by (auto simp: bump_step_def counters_of_def StatsAccountMQ_def StatsAccountLQ_def
      split: option.splits elim!: bump_med_SomeE bump_low_SomeE)

lemma BumpPriority_keeps [simp]:
  "counters_of (BumpPriority now tp) = counters_of tp"
  "pendingWorkerThreadStart (BumpPriority now tp) = pendingWorkerThreadStart tp"
  "tp_attr (BumpPriority now tp) = tp_attr tp"
  "tp_shutdown (BumpPriority now tp) = tp_shutdown tp"
  "persistentJob (BumpPriority now tp) = persistentJob tp"
  "lastJobId (BumpPriority now tp) = lastJobId tp"
  by (induction now tp rule: BumpPriority.induct;
      subst BumpPriority.simps; simp add: bump_step_keeps split: option.split)+

lemma counters_BumpPriority [simp]:
  "totalThreads (BumpPriority now tp) = totalThreads tp"
  "busyThreads (BumpPriority now tp) = busyThreads tp"
  "persistentThreads (BumpPriority now tp) = persistentThreads tp"
  "st_workerThreads (tp_stats (BumpPriority now tp)) = st_workerThreads (tp_stats tp)"
  "st_idleThreads (tp_stats (BumpPriority now tp)) = st_idleThreads (tp_stats tp)"
  using BumpPriority_keeps(1) [of now tp] by (simp_all add: counters_of_def)

lemmas pool_updates =
  FreeThreadPoolJob_def add_workers_def add_idle_def CalcWaitTime_def StatsAccountLQ_def
  StatsAccountMQ_def StatsAccountHQ_def counters_of_def note_max_def


section \<open>Workers\<close>

lemma CalcWaitTime_keeps [simp]:
  "totalThreads (CalcWaitTime now tp p job) = totalThreads tp"
  "busyThreads (CalcWaitTime now tp p job) = busyThreads tp"
  "persistentThreads (CalcWaitTime now tp p job) = persistentThreads tp"
  "st_workerThreads (tp_stats (CalcWaitTime now tp p job)) = st_workerThreads (tp_stats tp)"
  "st_idleThreads (tp_stats (CalcWaitTime now tp p job)) = st_idleThreads (tp_stats tp)"
  "pendingWorkerThreadStart (CalcWaitTime now tp p job) = pendingWorkerThreadStart tp"
  "tp_attr (CalcWaitTime now tp p job) = tp_attr tp"
  "lastJobId (CalcWaitTime now tp p job) = lastJobId tp"
  "tp_shutdown (CalcWaitTime now tp p job) = tp_shutdown tp"
  "highJobQ (CalcWaitTime now tp p job) = highJobQ tp"
  "medJobQ (CalcWaitTime now tp p job) = medJobQ tp"
  "lowJobQ (CalcWaitTime now tp p job) = lowJobQ tp"
  "persistentJob (CalcWaitTime now tp p job) = persistentJob tp"
  "tp_oom (CalcWaitTime now tp p job) = tp_oom tp"
  "jobFreeList (CalcWaitTime now tp p job) = jobFreeList tp"
  by (simp_all add: CalcWaitTime_def StatsAccountLQ_def StatsAccountMQ_def StatsAccountHQ_def Let_def)

lemma add_workers_keeps:
  "q_items (highJobQ (add_workers d tp)) = q_items (highJobQ tp)"
  "q_items (medJobQ (add_workers d tp)) = q_items (medJobQ tp)"
  "q_items (lowJobQ (add_workers d tp)) = q_items (lowJobQ tp)"
  "highJobQ (add_workers d tp) = highJobQ tp"
  "medJobQ (add_workers d tp) = medJobQ tp"
  "lowJobQ (add_workers d tp) = lowJobQ tp"
  "busyThreads (add_workers d tp) = busyThreads tp"
  by (simp_all add: add_workers_def)

text \<open>
  A worker that is about to pick a job leaves the section by one of these ways: it ends, or it
  takes the persistent job, or the first job of the highest non-empty queue.
\<close>

lemma pick_cases:
  assumes pick: "WorkerThread_pick clk start tp = (w', tp')"
  defines "tpb \<equiv> BumpPriority (clk 4) tp"
  obtains
    (stop) "tp_shutdown tp" "w' = W_Dead" "tp' = tpb\<lparr>totalThreads := totalThreads tp - 1\<rparr>"
  | (persistent) j where "\<not> tp_shutdown tp" "persistentJob tp = Some j" "w' = W_Out (Some j) 1 start"
      "tp' = tpb\<lparr>persistentJob := None, persistentThreads := persistentThreads tp + 1,
                 busyThreads := busyThreads tp + 1\<rparr>"
  | (high) j js where "\<not> tp_shutdown tp" "persistentJob tp = None" "q_items (highJobQ tpb) = j # js"
      "w' = W_Out (Some j) 0 start"
      "tp' = (CalcWaitTime (clk 5) (add_workers 1 tpb) HIGH_PRIORITY j)
               \<lparr>highJobQ := q_pop (highJobQ tpb), busyThreads := busyThreads tp + 1\<rparr>"
  | (med) j js where "\<not> tp_shutdown tp" "persistentJob tp = None" "q_items (highJobQ tpb) = []"
      "q_items (medJobQ tpb) = j # js" "w' = W_Out (Some j) 0 start"
      "tp' = (CalcWaitTime (clk 5) (add_workers 1 tpb) MED_PRIORITY j)
               \<lparr>medJobQ := q_pop (medJobQ tpb), busyThreads := busyThreads tp + 1\<rparr>"
  | (low) j js where "\<not> tp_shutdown tp" "persistentJob tp = None" "q_items (highJobQ tpb) = []"
      "q_items (medJobQ tpb) = []" "q_items (lowJobQ tpb) = j # js" "w' = W_Out (Some j) 0 start"
      "tp' = (CalcWaitTime (clk 5) (add_workers 1 tpb) LOW_PRIORITY j)
               \<lparr>lowJobQ := q_pop (lowJobQ tpb), busyThreads := busyThreads tp + 1\<rparr>"
  | (none) "\<not> tp_shutdown tp" "persistentJob tp = None" "q_items (highJobQ tpb) = []"
      "q_items (medJobQ tpb) = []" "q_items (lowJobQ tpb) = []" "w' = W_Dead"
      "tp' = tpb\<lparr>totalThreads := totalThreads tp - 1\<rparr>"
proof -
  have keep: "tp_shutdown tpb = tp_shutdown tp" "persistentJob tpb = persistentJob tp"
    "totalThreads tpb = totalThreads tp" "busyThreads tpb = busyThreads tp"
    "persistentThreads tpb = persistentThreads tp" by (simp_all add: tpb_def)
  note eq = pick [unfolded WorkerThread_pick_def Let_def, folded tpb_def]
  show ?thesis
  proof (cases "tp_shutdown tp")
    case True
    then show ?thesis using stop eq keep by (simp add: WorkerThread_exit_def)
  next
    case run: False
    show ?thesis
    proof (cases "persistentJob tp")
      case (Some j)
      then show ?thesis using persistent run eq keep by simp
    next
      case None
      note eq = eq [simplified keep run None add_workers_keeps, simplified]
      show ?thesis
      proof (cases "q_items (highJobQ tpb)")
        case (Cons j js)
        then show ?thesis using high [OF run None Cons] eq by (simp add: add_workers_keeps keep)
      next
        case h: Nil
        show ?thesis
        proof (cases "q_items (medJobQ tpb)")
          case (Cons j js)
          then show ?thesis using med [OF run None h Cons] eq h by (simp add: add_workers_keeps keep)
        next
          case m: Nil
          show ?thesis
          proof (cases "q_items (lowJobQ tpb)")
            case (Cons j js)
            then show ?thesis using low [OF run None h m Cons] eq h m by (simp add: add_workers_keeps keep)
          next
            case Nil
            then show ?thesis using none [OF run None h m Nil] eq h m keep
              by (simp add: WorkerThread_exit_def add_workers_def)
          qed
        qed
      qed
    qed
  qed
qed

lemma pick_counters:
  assumes "WorkerThread_pick clk start tp = (w', tp')"
  shows "counters_of tp' = shift (counters_of tp) (W_Out None (-1) 0) w' \<and> worker_ok w' \<and>
         pendingWorkerThreadStart tp' = pendingWorkerThreadStart tp \<and> \<not> is_starting w' \<and>
         tp_attr tp' = tp_attr tp \<and> lastJobId tp' = lastJobId tp \<and> tp_shutdown tp' = tp_shutdown tp"
  using assms
proof (cases rule: pick_cases)
  case stop
  then show ?thesis by (simp add: counters_of_def shift_def worker_preds)
next
  case (persistent j)
  then show ?thesis by (simp add: counters_of_def shift_def worker_preds)
next
  case (high j js)
  then show ?thesis by (simp add: counters_of_def add_workers_def shift_def worker_preds)
next
  case (med j js)
  then show ?thesis by (simp add: counters_of_def add_workers_def shift_def worker_preds)
next
  case (low j js)
  then show ?thesis by (simp add: counters_of_def add_workers_def shift_def worker_preds)
next
  case none
  then show ?thesis by (simp add: counters_of_def shift_def worker_preds)
qed

lemma check_counters:
  assumes "WorkerThread_check clk start rc tp = (w', tp')"
  shows "counters_of tp' = shift (counters_of tp) (W_Wait 0 t) w' \<and> worker_ok w' \<and>
         pendingWorkerThreadStart tp' = pendingWorkerThreadStart tp \<and> \<not> is_starting w' \<and>
         tp_attr tp' = tp_attr tp \<and> lastJobId tp' = lastJobId tp \<and> tp_shutdown tp' = tp_shutdown tp"
proof (cases "no_work tp")
  case True
  then show ?thesis using assms
    by (auto simp: WorkerThread_check_def WorkerThread_exit_def Let_def pool_updates shift_def worker_preds
        split: if_splits)
next
  case False
  let ?tp = "(add_idle (-1) tp)\<lparr>tp_stats := (tp_stats (add_idle (-1) tp))\<lparr>totalIdleTime :=
     totalIdleTime (tp_stats (add_idle (-1) tp)) + (StatsTime (clk 2) - start)\<rparr>\<rparr>"
  have "WorkerThread_pick clk (StatsTime (clk 3)) ?tp = (w', tp')"
    using assms False by (simp add: WorkerThread_check_def Let_def)
  from pick_counters [OF this] show ?thesis
    by (simp add: pool_updates shift_def worker_preds)
qed

text \<open>The pool a worker leaves behind before it looks for work again.\<close>

definition after_job :: "clock \<Rightarrow> ThreadPoolJob option \<Rightarrow> int \<Rightarrow> int \<Rightarrow> ThreadPool \<Rightarrow> ThreadPool" where
  "after_job clk job persistent start tp0 =
     (let tp1 = (case job of
                   None \<Rightarrow> tp0
                 | Some _ \<Rightarrow> FreeThreadPoolJob (tp0\<lparr>busyThreads := busyThreads tp0 - 1\<rparr>));
          tp2 = add_idle 1 tp1;
          tp3 = tp2\<lparr>tp_stats := (tp_stats tp2)\<lparr>totalWorkTime :=
                     totalWorkTime (tp_stats tp2) + (StatsTime (clk 0) - start)\<rparr>\<rparr>
      in if persistent = 0 then add_workers (-1) tp3
         else if persistent = 1 then tp3\<lparr>persistentThreads := persistentThreads tp3 - 1\<rparr>
         else tp3)"

lemma WorkerThread_top_check:
  "WorkerThread_top clk job persistent start tp =
     WorkerThread_check clk (StatsTime (clk 1)) 0 (after_job clk job persistent start tp)"
  by (simp add: WorkerThread_top_def after_job_def Let_def)

lemma after_job_keeps:
  assumes "worker_ok (W_Out job p s0)"
  shows "counters_of (after_job clk job p start tp) = shift (counters_of tp) (W_Out job p s0) (W_Wait 0 t)"
    and "pendingWorkerThreadStart (after_job clk job p start tp) = pendingWorkerThreadStart tp"
    and "tp_attr (after_job clk job p start tp) = tp_attr tp"
    and "lastJobId (after_job clk job p start tp) = lastJobId tp"
    and "tp_shutdown (after_job clk job p start tp) = tp_shutdown tp"
  using assms
  by (cases job; auto simp: after_job_def Let_def pool_updates shift_def worker_preds)+

lemma top_counters:
  assumes "WorkerThread_top clk job p start tp = (w', tp')" and ok: "worker_ok (W_Out job p s0)"
  shows "counters_of tp' = shift (counters_of tp) (W_Out job p s0) w' \<and> worker_ok w' \<and>
         pendingWorkerThreadStart tp' = pendingWorkerThreadStart tp \<and> \<not> is_starting w' \<and>
         tp_attr tp' = tp_attr tp \<and> lastJobId tp' = lastJobId tp \<and> tp_shutdown tp' = tp_shutdown tp"
  using check_counters [OF assms(1) [unfolded WorkerThread_top_check]] after_job_keeps [OF ok]
  by (simp add: shift_def worker_preds)

lemma WorkerThread_counters:
  assumes "WorkerThread clk rc w tp = (w', tp')" and "worker_ok w"
  shows "counters_of tp' = shift (counters_of tp) w w' \<and> worker_ok w' \<and>
         pendingWorkerThreadStart tp' = (pendingWorkerThreadStart tp \<and> \<not> is_starting w) \<and>
         \<not> is_starting w' \<and> tp_attr tp' = tp_attr tp \<and> lastJobId tp' = lastJobId tp \<and>
         tp_shutdown tp' = tp_shutdown tp"
proof (cases w)
  case W_Start
  then show ?thesis using assms
    by (auto simp: WorkerThread_def WorkerThread_start_def pool_updates shift_def worker_preds)
next
  case (W_Out job p start)
  then show ?thesis using assms top_counters [of clk job p start tp w' tp' start]
    by (simp add: WorkerThread_def is_starting_def)
next
  case (W_Wait start t)
  then show ?thesis using assms check_counters [of clk start rc tp w' tp' t]
    by (simp add: WorkerThread_def is_starting_def shift_def worker_preds)
next
  case W_Dead
  then show ?thesis using assms
    by (auto simp: WorkerThread_def shift_def worker_preds counters_of_def)
qed


section \<open>Calls\<close>

text \<open>What a call may do to the counters: nothing. Only a new thread sets the pending flag.\<close>

definition call_ok :: "ThreadPool \<Rightarrow> ThreadPool \<Rightarrow> bool \<Rightarrow> bool" where
  "call_ok tp tp' b \<longleftrightarrow>
     counters_of tp' = counters_of tp \<and>
     (if b then \<not> pendingWorkerThreadStart tp \<and> pendingWorkerThreadStart tp' \<and>
                (maxThreads (tp_attr tp') = INFINITE_THREADS \<or>
                 totalThreads tp' + 1 \<le> maxThreads (tp_attr tp'))
      else pendingWorkerThreadStart tp' = pendingWorkerThreadStart tp)"

definition same_pool :: "ThreadPool \<Rightarrow> ThreadPool \<Rightarrow> bool" where
  "same_pool tp tp' \<longleftrightarrow>
     counters_of tp' = counters_of tp \<and> pendingWorkerThreadStart tp' = pendingWorkerThreadStart tp \<and>
     tp_attr tp' = tp_attr tp"

lemma same_pool_trans: "same_pool a b \<Longrightarrow> same_pool b c \<Longrightarrow> same_pool a c"
  by (simp add: same_pool_def)

lemma CreateThreadPoolJob_same: "CreateThreadPoolJob now job i tp = (r, tp') \<Longrightarrow> same_pool tp tp'"
  by (auto simp: CreateThreadPoolJob_def same_pool_def counters_of_def split: prod.splits)

lemma finish_add_same: "finish_add temp rc tp = (c, tp') \<Longrightarrow> same_pool tp tp'"
  by (auto simp: finish_add_def same_pool_def counters_of_def FreeThreadPoolJob_def Let_def split: if_splits)

lemma persist_job_same: "persist_job now job tp = (c, tp') \<Longrightarrow> same_pool tp tp'"
  by (auto simp: persist_job_def same_pool_def counters_of_def split: prod.splits option.splits
      dest!: CreateThreadPoolJob_same)

lemma note_max_same: "same_pool tp (note_max tp)"
  by (simp add: note_max_def same_pool_def counters_of_def)

lemma enqueue_job_same: "enqueue_job temp tp = (ok, tp') \<Longrightarrow> same_pool tp tp'"
  by (auto simp: enqueue_job_def same_pool_def counters_of_def split: prod.splits if_splits)

lemma cont_fail_same: "cont_fail clk k rc tp = (c, tp') \<Longrightarrow> same_pool tp tp'"
  by (auto simp: cont_fail_def same_pool_def split: cont.splits dest!: finish_add_same persist_job_same)

lemma call_ok_same: "same_pool tp tp' \<Longrightarrow> call_ok tp tp' False"
  by (simp add: same_pool_def call_ok_def)

lemma call_ok_after:
  "same_pool tp tp1 \<Longrightarrow> call_ok tp1 tp' b \<Longrightarrow> call_ok tp tp' b"
  by (simp add: same_pool_def call_ok_def split: if_splits)

lemma CreateWorker_ok:
  assumes "CreateWorker clk se k tp = ((c, tp'), b)"
  shows "call_ok tp tp' b \<and> tp_attr tp' = tp_attr tp"
proof (cases "pendingWorkerThreadStart tp")
  case True
  then show ?thesis using assms by (auto simp: CreateWorker_def call_ok_def)
next
  case pend: False
  show ?thesis
  proof (cases "CreateWorker_create se tp")
    case (Inl r)
    obtain rc tp1 where r: "r = (rc, tp1)" by (cases r)
    have "same_pool tp tp1" using Inl r note_max_same [of tp]
      by (auto simp: CreateWorker_create_def same_pool_def split: if_splits)
    moreover have "same_pool tp1 tp'" "b = False"
      using assms pend Inl r by (auto simp: CreateWorker_def dest: cont_fail_same)
    ultimately show ?thesis using same_pool_trans call_ok_same by (auto simp: same_pool_def)
  next
    case (Inr r)
    then show ?thesis using assms pend
      by (cases r) (auto simp: CreateWorker_def CreateWorker_create_def call_ok_def counters_of_def
          split: if_splits)
  qed
qed

lemma AddWorker_ok:
  "AddWorker clk se temp rc jobs threads tp = ((c, tp'), b) \<Longrightarrow>
     call_ok tp tp' b \<and> tp_attr tp' = tp_attr tp"
  by (auto simp: AddWorker_def split: if_splits dest: CreateWorker_ok finish_add_same
      intro: call_ok_same simp: same_pool_def)

lemma start_threads_ok:
  "start_threads clk se i tp = ((c, tp'), b) \<Longrightarrow> call_ok tp tp' b \<and> tp_attr tp' = tp_attr tp"
  by (auto simp: start_threads_def call_ok_def split: if_splits dest: CreateWorker_ok)

lemma cont_ok_ok:
  "cont_ok clk se k tp = ((c, tp'), b) \<Longrightarrow> call_ok tp tp' b \<and> tp_attr tp' = tp_attr tp"
  by (auto simp: cont_ok_def same_pool_def split: cont.splits intro: call_ok_same
      dest: AddWorker_ok start_threads_ok persist_job_same)

lemma drain_same: "same_pool tp (drain js tp)"
  by (induction js tp rule: drain.induct) (auto simp: same_pool_def counters_of_def FreeThreadPoolJob_def)

lemma ThreadPoolShutdown_same: "ThreadPoolShutdown ret tp = (c, tp') \<Longrightarrow> same_pool tp tp'"
  using drain_same
  by (auto simp: ThreadPoolShutdown_def Let_def same_pool_def counters_of_def FreeThreadPoolJob_def
      split: option.splits)

lemma ThreadPoolAdd_ok:
  assumes "ThreadPoolAdd clk se job tp = ((c, tp'), b)"
  shows "call_ok tp tp' b \<and> tp_attr tp' = tp_attr tp"
proof (cases "job = None \<or> queued_jobs tp \<ge> maxJobsTotal (tp_attr tp)")
  case True
  then show ?thesis using assms by (auto simp: ThreadPoolAdd_def call_ok_def split: option.splits)
next
  case False
  then obtain j where j: "job = Some j" by auto
  obtain r tp1 where cr: "CreateThreadPoolJob (clk 1) j (lastJobId tp) tp = (r, tp1)"
    by (cases "CreateThreadPoolJob (clk 1) j (lastJobId tp) tp")
  note same1 = CreateThreadPoolJob_same [OF cr]
  show ?thesis
  proof (cases r)
    case None
    then show ?thesis using assms j False cr same1 call_ok_same by (auto simp: ThreadPoolAdd_def same_pool_def)
  next
    case (Some temp)
    obtain ok tp2 where en: "enqueue_job temp tp1 = (ok, tp2)" by (cases "enqueue_job temp tp1")
    note same2 = same_pool_trans [OF same1 enqueue_job_same [OF en]]
    from assms j False cr Some en have "AddWorker clk se temp (if ok then 0 else EOUTOFMEM) (queued_jobs tp2)
                      (totalThreads tp2 - persistentThreads tp2) tp2 = ((c, tp'), b)"
      by (simp add: ThreadPoolAdd_def)
    from AddWorker_ok [OF this] call_ok_after [OF same2] same2 show ?thesis by (simp add: same_pool_def)
  qed
qed

lemma ThreadPoolAddPersistent_ok:
  assumes "ThreadPoolAddPersistent clk se job tp = ((c, tp'), b)"
  shows "call_ok tp tp' b \<and> tp_attr tp' = tp_attr tp"
  using assms
  by (auto simp: ThreadPoolAddPersistent_def same_pool_def call_ok_def split: if_splits option.splits
      dest: CreateWorker_ok persist_job_same)

lemma ThreadPoolRemove_same: "ThreadPoolRemove (Some tp) i = (r, out, tp') \<Longrightarrow> same_pool tp (the tp')"
  by (auto simp: ThreadPoolRemove_def same_pool_def counters_of_def FreeThreadPoolJob_def
      split: option.splits if_splits)

lemma ThreadPoolSetAttr_ok:
  assumes "ThreadPoolSetAttr clk se sched attr tp = ((c, tp'), b)"
  shows "call_ok tp tp' b"
proof -
  consider "tp' = tp \<and> \<not> b" | a where "tp' = tp\<lparr>tp_attr := a\<rparr> \<and> \<not> b"
    | a where "start_threads clk se (totalThreads tp) (tp\<lparr>tp_attr := a\<rparr>) = ((c, tp'), b)"
    using assms by (auto simp: ThreadPoolSetAttr_def Let_def split: if_splits)
  then show ?thesis
  proof cases
    case (3 a)
    from start_threads_ok [OF this] show ?thesis by (auto simp: call_ok_def counters_of_def split: if_splits)
  qed (simp_all add: call_ok_def counters_of_def)
qed

definition sets_attr :: "label \<Rightarrow> bool" where
  "sets_attr l = (case l of L_Call (Api_SetAttr _ _) _ _ \<Rightarrow> True | _ \<Rightarrow> False)"

lemma api_call_ok:
  assumes "api_call clk se a (Some tp) = ((c, Some tp'), b)"
  shows "call_ok tp tp' b"
    and "(\<forall>sched attr. a \<noteq> Api_SetAttr sched attr) \<Longrightarrow> tp_attr tp' = tp_attr tp"
proof -
  have "call_ok tp tp' b \<and> ((\<forall>sched attr. a \<noteq> Api_SetAttr sched attr) \<longrightarrow> tp_attr tp' = tp_attr tp)"
  proof (cases a)
    case (Api_Add x1)
    then show ?thesis using assms ThreadPoolAdd_ok by (fastforce simp: api_call_def map_prod_def split: prod.splits)
  next
    case (Api_AddPersistent x2)
    then show ?thesis using assms ThreadPoolAddPersistent_ok
      by (fastforce simp: api_call_def map_prod_def split: prod.splits)
  next
    case (Api_Remove i)
    then show ?thesis using assms ThreadPoolRemove_same [of tp i] call_ok_same
      by (auto simp: api_call_def map_prod_def same_pool_def split: prod.splits)
  next
    case (Api_SetAttr x41 x42)
    then show ?thesis using assms ThreadPoolSetAttr_ok by (fastforce simp: api_call_def map_prod_def split: prod.splits)
  next
    case Api_Shutdown
    then show ?thesis using assms ThreadPoolShutdown_same [of 0 tp] call_ok_same
      by (auto simp: api_call_def map_prod_def same_pool_def split: prod.splits)
  qed
  then show "call_ok tp tp' b"
    and "(\<forall>sched attr. a \<noteq> Api_SetAttr sched attr) \<Longrightarrow> tp_attr tp' = tp_attr tp" by auto
qed

lemma resume_call_ok:
  assumes "resume_call clk se c tp = ((c', tp'), b)"
  shows "call_ok tp tp' b \<and> tp_attr tp' = tp_attr tp"
proof (cases c)
  case (C_Before k)
  then show ?thesis using assms CreateWorker_ok by (simp add: resume_call_def)
next
  case (C_After rc k)
  have nm: "tp_attr (note_max tp) = tp_attr tp" using note_max_same [of tp] by (simp add: same_pool_def)
  consider "tp' = tp \<and> b = False" | "cont_ok clk se k (note_max tp) = ((c', tp'), b)"
    | "cont_fail clk k rc (note_max tp) = (c', tp') \<and> b = False"
    using assms C_After by (auto simp: resume_call_def split: if_splits)
  then show ?thesis
  proof cases
    case 1
    then show ?thesis by (simp add: call_ok_def)
  next
    case 2
    from cont_ok_ok [OF this] call_ok_after [OF note_max_same] nm show ?thesis by simp
  next
    case 3
    then have "same_pool tp tp'" using cont_fail_same same_pool_trans [OF note_max_same] by blast
    then show ?thesis using 3 call_ok_same by (simp add: same_pool_def)
  qed
next
  case C_Picked
  then show ?thesis using assms by (auto simp: resume_call_def call_ok_def counters_of_def split: if_splits)
next
  case (C_Shutdown ret)
  then show ?thesis using assms ThreadPoolShutdown_same [of ret tp] call_ok_same
    by (auto simp: resume_call_def same_pool_def)
next
  case (C_Stopping ret)
  then show ?thesis using assms
    by (auto simp: resume_call_def ThreadPoolShutdown_end_def call_ok_def counters_of_def split: if_splits)
next
  case (C_Done r i)
  then show ?thesis using assms by (auto simp: resume_call_def call_ok_def)
qed


section \<open>The counters are right\<close>

definition pool_inv :: "sys \<Rightarrow> bool" where
  "pool_inv s \<longleftrightarrow>
     counters_of (s_tp s) = counted (s_workers s) \<and> list_all worker_ok (s_workers s) \<and>
     count_if is_starting (s_workers s) = of_bool (pendingWorkerThreadStart (s_tp s))"

lemma pool_inv_call:
  assumes "pool_inv s" and "call_ok (s_tp s) tp' b"
  shows "pool_inv (s\<lparr>s_tp := tp', s_workers := spawned b (s_workers s), s_clients := cs\<rparr>)"
  using assms by (auto simp: pool_inv_def call_ok_def spawned_def counted_def worker_preds)

lemma pool_inv_worker:
  assumes inv: "pool_inv s" and i: "i < List.length (s_workers s)"
    and w: "WorkerThread clk rc (s_workers s ! i) (s_tp s) = (w', tp')"
  shows "pool_inv (s\<lparr>s_tp := tp', s_workers := (s_workers s)[i := w']\<rparr>)"
proof -
  let ?w = "s_workers s ! i"
  have "worker_ok ?w" using inv i by (simp add: pool_inv_def list_all_length)
  note W = WorkerThread_counters [OF w this]
  have "counters_of tp' = counted ((s_workers s)[i := w'])"
    using W inv i by (simp add: pool_inv_def counted_update)
  moreover have "list_all worker_ok ((s_workers s)[i := w'])"
    using W inv i by (auto simp: pool_inv_def list_all_length nth_list_update)
  moreover have "count_if is_starting ((s_workers s)[i := w']) = of_bool (pendingWorkerThreadStart tp')"
  proof (cases "is_starting ?w")
    case True
    with inv i count_if_pos [of i "s_workers s" is_starting]
    have "pendingWorkerThreadStart (s_tp s)" by (auto simp: pool_inv_def)
    then show ?thesis using W True inv i by (simp add: pool_inv_def count_if_update)
  next
    case False
    then show ?thesis using W inv i by (simp add: pool_inv_def count_if_update)
  qed
  ultimately show ?thesis by (simp add: pool_inv_def)
qed

lemma api_call_Some: "\<exists>c tp' b. api_call clk se a (Some tp) = ((c, Some tp'), b)"
  by (auto simp: api_call_def map_prod_def split: prod.splits)

lemma pool_inv_exec:
  assumes inv: "pool_inv s" and en: "enabled overlap l s"
  shows "pool_inv (exec l s)"
proof (cases l)
  case (L_Worker i clk rc)
  obtain w' tp' where w: "WorkerThread clk rc (s_workers s ! i) (s_tp s) = (w', tp')"
    by (cases "WorkerThread clk rc (s_workers s ! i) (s_tp s)")
  from pool_inv_worker [OF inv _ w] L_Worker en w show ?thesis by (simp add: exec_def enabled_def)
next
  case (L_Call a clk se)
  obtain c tp' b where a: "api_call clk se a (Some (s_tp s)) = ((c, Some tp'), b)"
    using api_call_Some by blast
  from pool_inv_call [OF inv api_call_ok(1) [OF a]] L_Call a show ?thesis by (simp add: exec_def)
next
  case (L_Resume i clk se)
  obtain c' tp' b where r: "resume_call clk se (s_clients s ! i) (s_tp s) = ((c', tp'), b)"
    by (metis surj_pair)
  from pool_inv_call [OF inv] resume_call_ok [OF r] L_Resume r show ?thesis by (simp add: exec_def)
qed

lemma init_sys_calls:
  obtains tp1 c tp' b where "init_sys clk se attr tp = \<lparr>s_tp = tp', s_workers = spawned b [], s_clients = [c]\<rparr>"
    and "call_ok tp1 tp' b" and "tp_attr tp' = tp_attr tp1" and "counters_of tp1 = counted []"
    and "\<not> pendingWorkerThreadStart tp1" and "q_items (highJobQ tp1) = []" "q_items (medJobQ tp1) = []"
    and "q_items (lowJobQ tp1) = []"
    and "start_threads clk se 0 tp1 = ((c, tp'), b)" and "persistentJob tp1 = None" "\<not> tp_shutdown tp1"
    and "lastJobId tp1 = 0"
proof -
  define tp1 where "tp1 = (let tp1 = tp\<lparr>tp_attr := (case attr of
                                    Some a \<Rightarrow> a
                                  | None \<Rightarrow> the (snd (TPAttrInit (Some (tp_attr tp)))))\<rparr>
         in tp1\<lparr>jobFreeList := 0, tp_stats := StatsInit (tp_stats tp1),
                        highJobQ := q_empty, medJobQ := q_empty, lowJobQ := q_empty,
                        persistentJob := None, lastJobId := 0, tp_shutdown := False,
                        totalThreads := 0, busyThreads := 0, persistentThreads := 0,
                        pendingWorkerThreadStart := False\<rparr>)"
  obtain c tp' b where st: "start_threads clk se 0 tp1 = ((c, tp'), b)" by (metis surj_pair)
  show ?thesis
  proof (rule that)
    show "init_sys clk se attr tp = \<lparr>s_tp = tp', s_workers = spawned b [], s_clients = [c]\<rparr>"
      using st by (simp add: init_sys_def ThreadPoolInit_def tp1_def Let_def)
    show "call_ok tp1 tp' b" "tp_attr tp' = tp_attr tp1" using start_threads_ok [OF st] by simp_all
  qed (use st in \<open>simp_all add: tp1_def Let_def counters_of_def counted_def StatsInit_def q_empty_def\<close>)
qed

lemma reachable_pool_inv:
  assumes "reachable overlap s"
  shows "pool_inv s"
  using assms
proof (induction rule: reachable.induct)
  case (init clk se attr tp)
  show ?case
    by (rule init_sys_calls [of clk se attr tp])
      (auto simp: pool_inv_def call_ok_def spawned_def worker_preds counted_def split: if_splits)
next
  case (next_step s s')
  then show ?case by (auto elim!: stepE intro: pool_inv_exec)
qed

lemma pool_counters_exact_inv:
  assumes "reachable overlap s"
  shows "counters_of (s_tp s) = counted (s_workers s) \<and> list_all worker_ok (s_workers s) \<and>
         count_if is_starting (s_workers s) = of_bool (pendingWorkerThreadStart (s_tp s))"
  using reachable_pool_inv [OF assms] by (simp add: pool_inv_def)

text \<open>
  C1. At every point of every run, with overlapping calls and whatever the scheduler, the clock,
  the allocator and thread creation do: \<open>totalThreads\<close>, \<open>busyThreads\<close>, \<open>persistentThreads\<close> and
  the statistics \<open>workerThreads\<close> and \<open>idleThreads\<close> are exactly the numbers of started workers, of
  workers running a job, of those running a persistent job, of those running an ordinary job, and
  of waiting workers; and \<open>pendingWorkerThreadStart\<close> is set exactly while one created worker has
  not started yet, never more than one.
\<close>

theorem pool_counters_exact:
  assumes "reachable overlap s"
  shows "counters_of (s_tp s) = counted (s_workers s) \<and>
         count_if is_starting (s_workers s) = of_bool (pendingWorkerThreadStart (s_tp s))"
  using pool_counters_exact_inv [OF assms] by simp


section \<open>Runs as label sequences\<close>

primrec run_labels :: "bool \<Rightarrow> label list \<Rightarrow> sys \<Rightarrow> sys option" where
  "run_labels overlap [] s = Some s"
| "run_labels overlap (l # ls) s =
     (if enabled overlap l s then run_labels overlap ls (exec l s) else None)"

lemma run_labels_invariant:
  assumes "run_labels overlap ls s = Some s'" and "I s"
    and "\<And>l s. l \<in> set ls \<Longrightarrow> I s \<Longrightarrow> enabled overlap l s \<Longrightarrow> I (exec l s)"
  shows "I s'"
  using assms by (induction ls arbitrary: s) (auto split: if_splits)

lemma run_labels_reachable:
  "run_labels overlap ls (init_sys clk se attr tp) = Some s \<Longrightarrow> reachable overlap s"
  by (erule run_labels_invariant) (auto intro: reachable.intros step.intros)

lemma init_pool_inv: "pool_inv (init_sys clk se attr tp)"
  by (rule init_sys_calls [of clk se attr tp])
    (auto simp: pool_inv_def call_ok_def spawned_def worker_preds counted_def split: if_splits)

section \<open>A concrete run\<close>

definition zero_clock :: clock where
  "zero_clock = (\<lambda>_. \<lparr>tv_sec = 0, tv_usec = 0\<rparr>)"

definition os_ok :: spawn_env where
  "os_ok = \<lparr>se_create = 0, se_detach = 0\<rparr>"

definition raw_stats :: ThreadPoolStats where
  "raw_stats =
     \<lparr>totalTimeHQ = 0, totalJobsHQ = 0, avgWaitHQ = 0, totalTimeMQ = 0, totalJobsMQ = 0, avgWaitMQ = 0,
      totalTimeLQ = 0, totalJobsLQ = 0, avgWaitLQ = 0, totalWorkTime = 0, totalIdleTime = 0,
      st_workerThreads = 0, st_idleThreads = 0, st_persistentThreads = 0, st_totalThreads = 0,
      st_maxThreads = 0, currentJobsHQ = 0, currentJobsLQ = 0, currentJobsMQ = 0\<rparr>"

definition raw_pool :: "bool list \<Rightarrow> ThreadPool" where
  "raw_pool orc =
     \<lparr>lastJobId = 0, tp_shutdown = False, totalThreads = 0, pendingWorkerThreadStart = False,
      busyThreads = 0, persistentThreads = 0, jobFreeList = 0, lowJobQ = q_empty, medJobQ = q_empty,
      highJobQ = q_empty, persistentJob = None, tp_attr = default_attr, tp_stats = raw_stats,
      tp_oom = orc, tp_freed = []\<rparr>"

definition a_job :: "nat \<Rightarrow> int \<Rightarrow> ThreadPoolJob" where
  "a_job arg pri =
     \<lparr>job_func = 1, job_arg = arg, job_free_func = 7, requestTime = \<lparr>tv_sec = 0, tv_usec = 0\<rparr>,
      job_priority = pri, job_jobId = 0\<rparr>"

abbreviation wk :: "nat \<Rightarrow> label" where "wk i \<equiv> L_Worker i zero_clock 0"
abbreviation rs :: "nat \<Rightarrow> label" where "rs i \<equiv> L_Resume i zero_clock os_ok"
abbreviation call :: "api \<Rightarrow> label" where "call a \<equiv> L_Call a zero_clock os_ok"

abbreviation start_sys :: sys where
  "start_sys \<equiv> init_sys zero_clock os_ok (Some default_attr) (raw_pool [])"

text \<open>One worker starts and runs job 0; then two \<open>ThreadPoolAdd\<close> calls overlap.\<close>

definition overlapping_adds :: "label list" where
  "overlapping_adds =
     [wk 0, rs 0, call (Api_Add (Some (a_job 10 MED_PRIORITY))), wk 0,
      call (Api_Add (Some (a_job 11 MED_PRIORITY))), call (Api_Add (Some (a_job 12 MED_PRIORITY)))]"

theorem pool_counters_exact_witness:
  "\<exists>s. run_labels True overlapping_adds start_sys = Some s \<and>
       counters_of (s_tp s) = counted (s_workers s) \<and>
       count_if is_starting (s_workers s) = of_bool (pendingWorkerThreadStart (s_tp s))"
proof -
  have "run_labels True overlapping_adds start_sys \<noteq> None" by code_simp
  then obtain s where s: "run_labels True overlapping_adds start_sys = Some s" by blast
  from pool_counters_exact [OF run_labels_reachable [OF s]] s show ?thesis by simp
qed

text \<open>What one transition does, in terms of the pool: a worker's step or a call's.\<close>

lemma exec_cases:
  assumes "enabled overlap l s" and "pool_inv s"
  obtains (worker) i clk rc w' tp' where "i < List.length (s_workers s)"
      "WorkerThread clk rc (s_workers s ! i) (s_tp s) = (w', tp')" "worker_ok (s_workers s ! i)"
      "exec l s = s\<lparr>s_tp := tp', s_workers := (s_workers s)[i := w']\<rparr>" "\<not> sets_attr l"
  | (call) a clk se c tp' b where "api_call clk se a (Some (s_tp s)) = ((c, Some tp'), b)"
      "l = L_Call a clk se" "overlap \<or> list_all is_done (s_clients s)" "\<not> tp_shutdown (s_tp s)"
      "exec l s = s\<lparr>s_tp := tp', s_workers := spawned b (s_workers s), s_clients := s_clients s @ [c]\<rparr>"
  | (resume) i clk se c tp' b where "i < List.length (s_clients s)"
      "resume_call clk se (s_clients s ! i) (s_tp s) = ((c, tp'), b)" "\<not> sets_attr l"
      "exec l s = s\<lparr>s_tp := tp', s_workers := spawned b (s_workers s),
                    s_clients := (s_clients s)[i := c]\<rparr>"
proof (cases l)
  case (L_Worker i clk rc)
  obtain w' tp' where w: "WorkerThread clk rc (s_workers s ! i) (s_tp s) = (w', tp')"
    by (cases "WorkerThread clk rc (s_workers s ! i) (s_tp s)")
  show ?thesis
    by (rule worker [OF _ w]) (use assms L_Worker w in
        \<open>auto simp: exec_def enabled_def sets_attr_def pool_inv_def list_all_length\<close>)
next
  case (L_Call a clk se)
  obtain c tp' b where a: "api_call clk se a (Some (s_tp s)) = ((c, Some tp'), b)"
    using api_call_Some by blast
  show ?thesis by (rule call [OF a L_Call]) (use assms L_Call a in \<open>auto simp: exec_def enabled_def\<close>)
next
  case (L_Resume i clk se)
  obtain c' tp' b where r: "resume_call clk se (s_clients s ! i) (s_tp s) = ((c', tp'), b)"
    by (metis surj_pair)
  show ?thesis
    by (rule resume [OF _ r]) (use assms L_Resume r in \<open>auto simp: exec_def enabled_def sets_attr_def\<close>)
qed

lemma sets_attr_call: "sets_attr (L_Call a clk se) \<longleftrightarrow> (\<exists>sched attr. a = Api_SetAttr sched attr)"
  by (cases a) (auto simp: sets_attr_def)

definition threads_bounded :: "ThreadPoolAttr \<Rightarrow> sys \<Rightarrow> bool" where
  "threads_bounded a s \<longleftrightarrow>
     pool_inv s \<and> tp_attr (s_tp s) = a \<and>
     totalThreads (s_tp s) + of_bool (pendingWorkerThreadStart (s_tp s)) \<le> maxThreads a"

lemma threads_bounded_exec:
  assumes b: "threads_bounded a s" and en: "enabled overlap l s" and l: "\<not> sets_attr l"
    and mx: "maxThreads a \<noteq> INFINITE_THREADS"
  shows "threads_bounded a (exec l s)"
proof -
  have inv: "pool_inv s" using b by (simp add: threads_bounded_def)
  note inv' = pool_inv_exec [OF inv en]
  have grow: "totalThreads tp' + of_bool (pendingWorkerThreadStart tp') \<le> maxThreads a"
    if "call_ok (s_tp s) tp' c" "tp_attr tp' = tp_attr (s_tp s)" for tp' c
    using that b mx by (auto simp: call_ok_def threads_bounded_def counters_of_def split: if_splits)
  from en inv show ?thesis
  proof (cases rule: exec_cases)
    case (worker i clk rc w' tp')
    note W = WorkerThread_counters [OF worker(2,3)]
    have "totalThreads tp' + of_bool (pendingWorkerThreadStart tp') \<le>
          totalThreads (s_tp s) + of_bool (pendingWorkerThreadStart (s_tp s))"
    proof (cases "s_workers s ! i")
      case W_Start
      with inv worker(1) count_if_pos [of i "s_workers s" is_starting]
      have "pendingWorkerThreadStart (s_tp s)" by (auto simp: pool_inv_def is_starting_def)
      then show ?thesis using W W_Start
        by (auto simp: shift_def counters_of_def is_starting_def is_live_def split: worker.splits)
    next
      case W_Dead
      then show ?thesis using worker(2) by (simp add: WorkerThread_def)
    qed (use W in \<open>auto simp: shift_def counters_of_def is_starting_def is_live_def split: worker.splits\<close>)
    then show ?thesis using inv' worker W b by (simp add: threads_bounded_def)
  next
    case (call x clk se c tp' sp)
    have "tp_attr tp' = tp_attr (s_tp s)"
      using api_call_ok(2) [OF call(1)] l call(2) by (auto simp: sets_attr_call)
    with grow [OF api_call_ok(1) [OF call(1)]] show ?thesis
      using inv' call b by (simp add: threads_bounded_def)
  next
    case (resume i clk se c tp' sp)
    with grow [of tp' sp] resume_call_ok [OF resume(2)] inv' b show ?thesis
      by (simp add: threads_bounded_def)
  qed
qed

text \<open>
  C2. The pool never has more than \<open>maxThreads\<close> threads, the one being started included, at any
  point of a run in which the attributes are not reset, also when calls overlap and each starts
  workers.
\<close>

theorem pool_thread_limit:
  assumes "run_labels overlap ls (init_sys clk se (Some a) tp) = Some s"
    and "list_all (\<lambda>l. \<not> sets_attr l) ls" and "0 \<le> maxThreads a"
  shows "totalThreads (s_tp s) + count_if is_starting (s_workers s) \<le> maxThreads a"
proof -
  have "threads_bounded a (init_sys clk se (Some a) tp)"
  proof (rule init_sys_calls [of clk se "Some a" tp], goal_cases)
    case (1 tp1 c tp' b)
    have "tp_attr (s_tp (init_sys clk se (Some a) tp)) = a"
      using start_threads_ok
      by (fastforce simp: init_sys_def ThreadPoolInit_def Let_def split: prod.splits)
    then show ?case using init_pool_inv [of clk se "Some a" tp] assms(3) 1
      by (auto simp: threads_bounded_def call_ok_def counters_of_def counted_def split: if_splits)
  qed
  with assms have "threads_bounded a s"
    by (elim run_labels_invariant) (auto simp: list_all_iff intro: threads_bounded_exec)
  then show ?thesis by (simp add: threads_bounded_def pool_inv_def)
qed


theorem pool_thread_limit_witness:
  "\<exists>s. run_labels True overlapping_adds start_sys = Some s \<and>
       totalThreads (s_tp s) + count_if is_starting (s_workers s) \<le> 10"
proof -
  have "run_labels True overlapping_adds start_sys \<noteq> None" by code_simp
  then obtain s where s: "run_labels True overlapping_adds start_sys = Some s" by blast
  have "list_all (\<lambda>l. \<not> sets_attr l) overlapping_adds" "maxThreads default_attr = 10" by code_simp+
  with pool_thread_limit [OF s] s show ?thesis by simp
qed

section \<open>Jobs\<close>

definition jobs_of :: "ThreadPool \<Rightarrow> ThreadPoolJob list" where
  "jobs_of tp =
     q_items (highJobQ tp) @ q_items (medJobQ tp) @ q_items (lowJobQ tp) @
     (case persistentJob tp of None \<Rightarrow> [] | Some j \<Rightarrow> [j])"

definition running :: "worker \<Rightarrow> ThreadPoolJob list" where
  "running w = (case w of W_Out (Some j) _ _ \<Rightarrow> [j] | _ \<Rightarrow> [])"

lemma queued_jobs_length:
  "queued_jobs tp = int (List.length (q_items (highJobQ tp) @ q_items (medJobQ tp) @ q_items (lowJobQ tp)))"
  by (simp add: queued_jobs_def)

lemma bump_step_jobs:
  assumes "bump_step now tp = Some tp'"
  shows "mset (jobs_of tp') \<subseteq># mset (jobs_of tp) \<and>
         (tp_oom tp = [] \<longrightarrow> mset (jobs_of tp') = mset (jobs_of tp) \<and> tp_oom tp' = [])"
proof -
  have add: "mset (q_items q') \<subseteq># add_mset j (mset (q_items q)) \<and>
      (orc = [] \<longrightarrow> orc' = [] \<and> mset (q_items q') = add_mset j (mset (q_items q)))"
    if "q_add_tail orc q j = (ok, orc', q')" for q q' :: "ThreadPoolJob queue" and j orc orc' ok
    using that by (auto simp: q_add_tail_def q_insert_at_def node_alloc_def
        split: prod.splits bool.splits if_splits list.splits)
  show ?thesis
  proof (cases "bump_med now tp")
    case (Some a)
    with assms have "bump_med now tp = Some tp'" by (simp add: bump_step_def)
    then show ?thesis
    proof (cases rule: bump_med_SomeE)
      case (1 j js orc q ok)
      then show ?thesis using add [OF 1(3)]
        by (auto simp: jobs_of_def StatsAccountMQ_def q_pop_items intro: subset_mset.add_mono)
    qed
  next
    case None
    with assms have "bump_low now tp = Some tp'" by (simp add: bump_step_def)
    then show ?thesis
    proof (cases rule: bump_low_SomeE)
      case (1 j js orc q ok)
      then show ?thesis using add [OF 1(3)]
        by (auto simp: jobs_of_def StatsAccountLQ_def q_pop_items ac_simps intro: subset_mset.add_mono)
    qed
  qed
qed

lemma BumpPriority_jobs:
  "mset (jobs_of (BumpPriority now tp)) \<subseteq># mset (jobs_of tp) \<and>
   (tp_oom tp = [] \<longrightarrow> mset (jobs_of (BumpPriority now tp)) = mset (jobs_of tp) \<and>
                       tp_oom (BumpPriority now tp) = [])"
proof (induction now tp rule: BumpPriority.induct)
  case (1 now tp)
  show ?case
  proof (cases "bump_step now tp")
    case None
    then show ?thesis by (subst (1 2 3) BumpPriority.simps) simp
  next
    case (Some tp')
    have "BumpPriority now tp = BumpPriority now tp'" using Some by (subst BumpPriority.simps) simp
    with 1 [OF Some] bump_step_jobs [OF Some] show ?thesis by (auto intro: subset_mset.order_trans)
  qed
qed

lemma BumpPriority_final: "bump_step now (BumpPriority now tp) = None"
proof (induction now tp rule: BumpPriority.induct)
  case (1 now tp)
  show ?case
  proof (cases "bump_step now tp")
    case None
    then have "BumpPriority now tp = tp" by (subst BumpPriority.simps) simp
    then show ?thesis using None by simp
  next
    case (Some tp')
    then have "BumpPriority now tp = BumpPriority now tp'" by (subst BumpPriority.simps) simp
    then show ?thesis using 1 [OF Some] by simp
  qed
qed

lemma pick_jobs:
  assumes "WorkerThread_pick clk start tp = (w', tp')"
  shows "mset (jobs_of tp' @ running w') = mset (jobs_of (BumpPriority (clk 4) tp)) \<and>
         tp_oom tp' = tp_oom (BumpPriority (clk 4) tp)"
  using assms
proof (cases rule: pick_cases)
  case stop
  then show ?thesis by (simp add: jobs_of_def running_def)
next
  case (persistent j)
  then show ?thesis by (simp add: jobs_of_def running_def)
next
  case (high j js)
  then show ?thesis by (simp add: jobs_of_def running_def q_pop_items add_workers_def)
next
  case (med j js)
  then show ?thesis by (simp add: jobs_of_def running_def q_pop_items add_workers_def)
next
  case (low j js)
  then show ?thesis by (simp add: jobs_of_def running_def q_pop_items add_workers_def)
next
  case none
  then show ?thesis by (simp add: jobs_of_def running_def)
qed

definition moves_jobs :: "ThreadPool \<Rightarrow> ThreadPool \<Rightarrow> worker \<Rightarrow> bool" where
  "moves_jobs tp tp' w' \<longleftrightarrow>
     mset (jobs_of tp' @ running w') \<subseteq># mset (jobs_of tp) \<and>
     (tp_oom tp = [] \<longrightarrow> mset (jobs_of tp' @ running w') = mset (jobs_of tp) \<and> tp_oom tp' = [])"

lemma check_jobs:
  assumes "WorkerThread_check clk start rc tp = (w', tp')"
  shows "moves_jobs tp tp' w'"
proof (cases "no_work tp")
  case True
  then show ?thesis using assms
    by (auto simp: WorkerThread_check_def WorkerThread_exit_def jobs_of_def running_def add_idle_def
        moves_jobs_def split: if_splits)
next
  case False
  define tp2 where "tp2 = (add_idle (-1) tp)\<lparr>tp_stats := (tp_stats (add_idle (-1) tp))\<lparr>totalIdleTime :=
     totalIdleTime (tp_stats (add_idle (-1) tp)) + (StatsTime (clk 2) - start)\<rparr>\<rparr>"
  have p: "WorkerThread_pick clk (StatsTime (clk 3)) tp2 = (w', tp')"
    using assms False by (simp add: WorkerThread_check_def Let_def tp2_def)
  have same: "jobs_of tp2 = jobs_of tp" "tp_oom tp2 = tp_oom tp"
    by (simp_all add: tp2_def add_idle_def jobs_of_def)
  from pick_jobs [OF p] BumpPriority_jobs [of "clk 4" tp2] show ?thesis
    by (simp add: moves_jobs_def same)
qed

lemma after_job_jobs:
  "jobs_of (after_job clk job p start tp) = jobs_of tp" "tp_oom (after_job clk job p start tp) = tp_oom tp"
  by (cases job; simp add: after_job_def jobs_of_def pool_updates Let_def)+

lemma WorkerThread_jobs:
  assumes "WorkerThread clk rc w tp = (w', tp')"
  shows "moves_jobs tp tp' w'"
proof (cases w)
  case (W_Out job p start)
  then have "WorkerThread_check clk (StatsTime (clk 1)) 0 (after_job clk job p start tp) = (w', tp')"
    using assms by (simp add: WorkerThread_def WorkerThread_top_check)
  from check_jobs [OF this] show ?thesis by (simp add: moves_jobs_def after_job_jobs)
next
  case (W_Wait start t)
  then show ?thesis using assms check_jobs by (simp add: WorkerThread_def)
qed (use assms in \<open>auto simp: WorkerThread_def WorkerThread_start_def jobs_of_def running_def moves_jobs_def\<close>)

text \<open>
  C4. A worker never loses and never duplicates a job: from any point to its next blocking point
  the jobs waiting in the pool are afterwards those still waiting together with the one it has
  taken, as multisets. When an allocation fails on the way (only the priority bump allocates) jobs
  may be missing, but none is there twice.
\<close>

theorem worker_conserves_jobs:
  assumes "WorkerThread clk retCode w tp = (w', tp')"
  shows "mset (jobs_of tp' @ running w') \<subseteq># mset (jobs_of tp) \<and>
         (tp_oom tp = [] \<longrightarrow> mset (jobs_of tp' @ running w') = mset (jobs_of tp))"
  using WorkerThread_jobs [OF assms] by (simp add: moves_jobs_def)

definition busy_pool :: ThreadPool where
  "busy_pool = (raw_pool [])\<lparr>totalThreads := 1,
     medJobQ := \<lparr>q_items = [(a_job 21 MED_PRIORITY)\<lparr>job_jobId := 1\<rparr>, (a_job 22 MED_PRIORITY)\<lparr>job_jobId := 2\<rparr>],
                 q_cached = 0\<rparr>,
     lowJobQ := \<lparr>q_items = [(a_job 20 LOW_PRIORITY)\<lparr>job_jobId := 0\<rparr>], q_cached = 0\<rparr>\<rparr>"

definition later :: clock where
  "later = (\<lambda>_. \<lparr>tv_sec = 0, tv_usec = 600000\<rparr>)"

theorem worker_conserves_jobs_witness:
  "mset (jobs_of (snd (WorkerThread later 0 (W_Wait 0 \<lparr>ts_sec = 0, ts_nsec = 0\<rparr>) busy_pool)) @
         running (fst (WorkerThread later 0 (W_Wait 0 \<lparr>ts_sec = 0, ts_nsec = 0\<rparr>) busy_pool))) =
   mset (jobs_of busy_pool)"
proof -
  have "tp_oom busy_pool = []" by (simp add: busy_pool_def raw_pool_def)
  then show ?thesis
    using worker_conserves_jobs [OF surjective_pairing, of later 0 "W_Wait 0 \<lparr>ts_sec = 0, ts_nsec = 0\<rparr>" busy_pool]
    by simp
qed





section \<open>Job ids\<close>

definition ids_of :: "ThreadPool \<Rightarrow> int multiset" where
  "ids_of tp = image_mset job_jobId (mset (jobs_of tp))"

definition claims_k :: "cont \<Rightarrow> bool" where
  "claims_k k = (case k of K_Add _ _ _ _ \<Rightarrow> True | _ \<Rightarrow> False)"

text \<open>A call that has handed out the id \<open>lastJobId\<close> and not yet counted it.\<close>

definition claims :: "client \<Rightarrow> bool" where
  "claims c = (case c of C_Before k \<Rightarrow> claims_k k | C_After _ k \<Rightarrow> claims_k k | C_Picked \<Rightarrow> True | _ \<Rightarrow> False)"

definition ids_ok :: "bool \<Rightarrow> ThreadPool \<Rightarrow> client \<Rightarrow> ThreadPool \<Rightarrow> bool" where
  "ids_ok cl tp c' tp' \<longleftrightarrow>
     (\<exists>new. (new \<longrightarrow> \<not> cl) \<and> ids_of tp' \<subseteq># ids_of tp + (if new then {#lastJobId tp#} else {#}) \<and>
        (lastJobId tp' = lastJobId tp \<and> (new \<or> cl \<longrightarrow> claims c') \<or> lastJobId tp' = lastJobId tp + 1))"

lemma ids_okI:
  assumes "ids_of tp' \<subseteq># ids_of tp"
    and "lastJobId tp' = lastJobId tp \<and> (cl \<longrightarrow> claims c') \<or> lastJobId tp' = lastJobId tp + 1"
  shows "ids_ok cl tp c' tp'"
  using assms unfolding ids_ok_def by (intro exI [of _ False]) auto

lemma ids_ok_new:
  assumes "ids_of tp' \<subseteq># add_mset (lastJobId tp) (ids_of tp)"
    and "lastJobId tp' = lastJobId tp \<and> claims c' \<or> lastJobId tp' = lastJobId tp + 1"
  shows "ids_ok False tp c' tp'"
  using assms unfolding ids_ok_def by (intro exI [of _ True]) auto

lemma ids_of_keeps [simp]:
  "ids_of (tp\<lparr>lastJobId := a\<rparr>) = ids_of tp" "ids_of (tp\<lparr>jobFreeList := n\<rparr>) = ids_of tp"
  "ids_of (tp\<lparr>pendingWorkerThreadStart := b\<rparr>) = ids_of tp" "ids_of (tp\<lparr>tp_stats := st\<rparr>) = ids_of tp"
  "ids_of (tp\<lparr>tp_oom := orc\<rparr>) = ids_of tp" "ids_of (tp\<lparr>tp_attr := atr\<rparr>) = ids_of tp"
  "ids_of (tp\<lparr>tp_shutdown := b\<rparr>) = ids_of tp" "ids_of (tp\<lparr>tp_freed := fr\<rparr>) = ids_of tp"
  by (simp_all add: ids_of_def jobs_of_def)

lemma CreateThreadPoolJob_ids:
  "CreateThreadPoolJob now job i tp = (r, tp') \<Longrightarrow>
     ids_of tp' = ids_of tp \<and> lastJobId tp' = lastJobId tp \<and> persistentJob tp' = persistentJob tp \<and>
     (\<forall>temp. r = Some temp \<longrightarrow> job_jobId temp = i)"
  by (auto simp: CreateThreadPoolJob_def split: prod.splits if_splits)

lemma finish_add_ids: "finish_add temp rc tp = (c, tp') \<Longrightarrow> ids_ok cl tp c tp'"
  by (auto simp: finish_add_def FreeThreadPoolJob_def Let_def claims_def
      intro!: ids_okI split: if_splits)

lemma persist_job_ids:
  assumes "persist_job now job tp = (c, tp')"
  shows "ids_ok False tp c tp'"
proof -
  obtain r tp1 where cr: "CreateThreadPoolJob now job (lastJobId tp) tp = (r, tp1)"
    by (cases "CreateThreadPoolJob now job (lastJobId tp) tp")
  note C = CreateThreadPoolJob_ids [OF cr]
  show ?thesis
  proof (cases r)
    case None
    then show ?thesis using assms cr C by (auto simp: persist_job_def intro!: ids_okI)
  next
    case (Some temp)
    have "ids_of (tp1\<lparr>persistentJob := Some temp\<rparr>) \<subseteq># add_mset (lastJobId tp) (ids_of tp1)"
      using C Some by (cases "persistentJob tp1") (auto simp: ids_of_def jobs_of_def subset_mset.add_mono)
    then show ?thesis using assms cr C Some
      by (auto simp: persist_job_def claims_def intro!: ids_ok_new)
  qed
qed

lemma cont_fail_ids: "cont_fail clk k rc tp = (c, tp') \<Longrightarrow> ids_ok (claims_k k) tp c tp'"
  by (cases k) (auto simp: cont_fail_def claims_k_def claims_def
      intro: finish_add_ids persist_job_ids ids_okI)

lemma note_max_ids: "ids_of (note_max tp) = ids_of tp" "lastJobId (note_max tp) = lastJobId tp"
  by (auto simp: note_max_def)

lemma ids_ok_from:
  "ids_of tp1 = ids_of tp \<Longrightarrow> lastJobId tp1 = lastJobId tp \<Longrightarrow> ids_ok cl tp1 c tp' \<Longrightarrow> ids_ok cl tp c tp'"
  by (simp only: ids_ok_def)

lemma CreateWorker_ids:
  assumes "CreateWorker clk se k tp = ((c, tp'), b)"
  shows "ids_ok (claims_k k) tp c tp'"
proof -
  consider "c = C_Before k \<and> tp' = tp" | rc where "cont_fail clk k rc tp = (c, tp')"
    | rc where "cont_fail clk k rc (note_max tp) = (c, tp')"
    | rc where "c = C_After rc k \<and> tp' = tp\<lparr>pendingWorkerThreadStart := True\<rparr>"
    using assms by (auto simp: CreateWorker_def CreateWorker_create_def split: if_splits)
  then show ?thesis
  proof cases
    case (3 rc)
    from ids_ok_from [OF note_max_ids cont_fail_ids [OF this]] show ?thesis .
  qed (auto simp: claims_def intro: cont_fail_ids ids_okI)
qed

lemma AddWorker_ids:
  "AddWorker clk se temp rc jobs threads tp = ((c, tp'), b) \<Longrightarrow> ids_ok True tp c tp'"
  by (auto simp: AddWorker_def claims_k_def split: if_splits dest: CreateWorker_ids intro: finish_add_ids)

lemma start_threads_ids: "start_threads clk se i tp = ((c, tp'), b) \<Longrightarrow> ids_ok False tp c tp'"
  by (auto simp: start_threads_def claims_k_def split: if_splits dest: CreateWorker_ids intro: ids_okI)

lemma cont_ok_ids: "cont_ok clk se k tp = ((c, tp'), b) \<Longrightarrow> ids_ok (claims_k k) tp c tp'"
  by (auto simp: cont_ok_def claims_k_def split: cont.splits
      intro: AddWorker_ids start_threads_ids persist_job_ids)

lemma enqueue_job_ids:
  "enqueue_job temp tp = (ok, tp') \<Longrightarrow>
     ids_of tp' \<subseteq># add_mset (job_jobId temp) (ids_of tp) \<and> lastJobId tp' = lastJobId tp"
  by (auto simp: enqueue_job_def ids_of_def jobs_of_def split: prod.splits if_splits
      dest!: q_add_tail_items)

lemma ThreadPoolAdd_ids:
  assumes "ThreadPoolAdd clk se job tp = ((c, tp'), b)"
  shows "ids_ok False tp c tp'"
proof (cases "job = None \<or> queued_jobs tp \<ge> maxJobsTotal (tp_attr tp)")
  case True
  then show ?thesis using assms by (auto simp: ThreadPoolAdd_def intro!: ids_okI split: option.splits)
next
  case False
  then obtain j where j: "job = Some j" by auto
  obtain r tp1 where cr: "CreateThreadPoolJob (clk 1) j (lastJobId tp) tp = (r, tp1)"
    by (cases "CreateThreadPoolJob (clk 1) j (lastJobId tp) tp")
  note C = CreateThreadPoolJob_ids [OF cr]
  show ?thesis
  proof (cases r)
    case None
    then show ?thesis using assms j False cr C by (auto simp: ThreadPoolAdd_def intro!: ids_okI)
  next
    case (Some temp)
    obtain ok tp2 where en: "enqueue_job temp tp1 = (ok, tp2)" by (cases "enqueue_job temp tp1")
    note E = enqueue_job_ids [OF en]
    from assms j False cr Some en have "AddWorker clk se temp (if ok then 0 else EOUTOFMEM) (queued_jobs tp2)
                      (totalThreads tp2 - persistentThreads tp2) tp2 = ((c, tp'), b)"
      by (simp add: ThreadPoolAdd_def)
    from AddWorker_ids [OF this] have
      A: "ids_of tp' \<subseteq># ids_of tp2" "lastJobId tp' = lastJobId tp2 \<and> claims c \<or> lastJobId tp' = lastJobId tp2 + 1"
      by (auto simp: ids_ok_def)
    show ?thesis
      by (rule ids_ok_new) (use A E C Some in \<open>auto intro: subset_mset.order_trans\<close>)
  qed
qed

lemma ThreadPoolAddPersistent_ids:
  "ThreadPoolAddPersistent clk se job tp = ((c, tp'), b) \<Longrightarrow> ids_ok False tp c tp'"
  by (auto simp: ThreadPoolAddPersistent_def claims_k_def split: if_splits option.splits
      dest: CreateWorker_ids persist_job_ids intro: ids_okI)

lemma mset_remove_at: "mset (take k xs @ drop (Suc k) xs) \<subseteq># mset xs"
proof (induction xs arbitrary: k)
  case Nil
  then show ?case by simp
next
  case (Cons x xs)
  show ?case
  proof (cases k)
    case (Suc n)
    then show ?thesis using Cons [of n] by simp
  qed simp
qed

lemma ids_remove_at:
  "image_mset f (mset (take k xs)) + image_mset f (mset (drop (Suc k) xs)) \<subseteq># image_mset f (mset xs)"
  using image_mset_subseteq_mono [OF mset_remove_at [of k xs], of f] by simp

lemma ThreadPoolRemove_ids:
  assumes "ThreadPoolRemove (Some tp) i = (r, out, tp')"
  shows "ids_of (the tp') \<subseteq># ids_of tp \<and> lastJobId (the tp') = lastJobId tp"
proof -
  have h: "ids_of (tp\<lparr>highJobQ := q_remove_at (highJobQ tp) k\<rparr>) \<subseteq># ids_of tp" for k
    using ids_remove_at [of job_jobId k "q_items (highJobQ tp)"]
    by (simp add: ids_of_def jobs_of_def q_remove_at_def subset_mset.add_right_mono)
  have m: "ids_of (tp\<lparr>medJobQ := q_remove_at (medJobQ tp) k\<rparr>) \<subseteq># ids_of tp" for k
    using ids_remove_at [of job_jobId k "q_items (medJobQ tp)"]
    by (simp add: ids_of_def jobs_of_def q_remove_at_def subset_mset.add_right_mono)
  have l: "ids_of (tp\<lparr>lowJobQ := q_remove_at (lowJobQ tp) k\<rparr>) \<subseteq># ids_of tp" for k
    using ids_remove_at [of job_jobId k "q_items (lowJobQ tp)"]
    by (simp add: ids_of_def jobs_of_def q_remove_at_def subset_mset.add_right_mono)
  have p: "ids_of (tp\<lparr>persistentJob := None\<rparr>) \<subseteq># ids_of tp"
    by (auto simp: ids_of_def jobs_of_def split: option.splits)
  have pj: "ids_of (tp\<lparr>jobFreeList := n, persistentJob := None\<rparr>) = ids_of (tp\<lparr>persistentJob := None\<rparr>)" for n
    by (simp add: ids_of_def jobs_of_def)
  show ?thesis using assms h m l p
    by (auto simp: ThreadPoolRemove_def FreeThreadPoolJob_def pj split: option.splits if_splits)
qed

lemma drain_keeps [simp]:
  "q_items (highJobQ (drain js tp)) = q_items (highJobQ tp)"
  "q_items (medJobQ (drain js tp)) = q_items (medJobQ tp)"
  "q_items (lowJobQ (drain js tp)) = q_items (lowJobQ tp)"
  "persistentJob (drain js tp) = persistentJob tp" "lastJobId (drain js tp) = lastJobId tp"
  "tp_freed (drain js tp) = tp_freed tp @ concat (map free_call js)"
  by (induction js tp rule: drain.induct; simp add: FreeThreadPoolJob_def)+

lemma ThreadPoolShutdown_jobs:
  "ThreadPoolShutdown ret tp = (c, tp') \<Longrightarrow>
     c = C_Stopping ret \<and> jobs_of tp' = [] \<and> lastJobId tp' = lastJobId tp \<and> tp_shutdown tp' \<and>
     tp_freed tp' = tp_freed tp @ concat (map free_call (jobs_of tp))"
  by (auto simp: ThreadPoolShutdown_def Let_def jobs_of_def FreeThreadPoolJob_def q_empty_def
      split: option.splits)

lemma ThreadPoolSetAttr_ids:
  assumes "ThreadPoolSetAttr clk se sched attr tp = ((c, tp'), b)"
  shows "ids_ok False tp c tp'"
proof -
  consider "tp' = tp" | a where "tp' = tp\<lparr>tp_attr := a\<rparr>"
    | a where "start_threads clk se (totalThreads tp) (tp\<lparr>tp_attr := a\<rparr>) = ((c, tp'), b)"
    using assms by (auto simp: ThreadPoolSetAttr_def Let_def split: if_splits)
  then show ?thesis
  proof cases
    case (3 a)
    from start_threads_ids [OF this] ids_ok_from [of "tp\<lparr>tp_attr := a\<rparr>" tp] show ?thesis by simp
  qed (auto intro: ids_okI)
qed

lemma api_call_ids:
  assumes "api_call clk se a (Some tp) = ((c, Some tp'), b)"
  shows "ids_ok False tp c tp'"
proof (cases a)
  case (Api_Add x1)
  then show ?thesis using assms ThreadPoolAdd_ids by (fastforce simp: api_call_def map_prod_def split: prod.splits)
next
  case (Api_AddPersistent x2)
  then show ?thesis using assms ThreadPoolAddPersistent_ids
    by (fastforce simp: api_call_def map_prod_def split: prod.splits)
next
  case (Api_Remove i)
  then show ?thesis using assms ThreadPoolRemove_ids [of tp i]
    by (auto simp: api_call_def map_prod_def intro!: ids_okI split: prod.splits)
next
  case (Api_SetAttr x41 x42)
  then show ?thesis using assms ThreadPoolSetAttr_ids by (fastforce simp: api_call_def map_prod_def split: prod.splits)
next
  case Api_Shutdown
  then show ?thesis using assms ThreadPoolShutdown_jobs [of 0 tp]
    by (auto simp: api_call_def map_prod_def ids_of_def intro!: ids_okI split: prod.splits)
qed

lemma resume_call_ids:
  assumes "resume_call clk se c tp = ((c', tp'), b)"
  shows "ids_ok (claims c) tp c' tp'"
proof (cases c)
  case (C_Before k)
  then show ?thesis using assms CreateWorker_ids by (simp add: resume_call_def claims_def)
next
  case (C_After rc k)
  consider "c' = c \<and> tp' = tp" | "cont_ok clk se k (note_max tp) = ((c', tp'), b)"
    | "cont_fail clk k rc (note_max tp) = (c', tp')"
    using assms C_After by (auto simp: resume_call_def split: if_splits)
  then show ?thesis
  proof cases
    case 1
    then show ?thesis by (auto intro: ids_okI)
  next
    case 2
    from ids_ok_from [OF note_max_ids cont_ok_ids [OF this]] C_After show ?thesis by (simp add: claims_def)
  next
    case 3
    from ids_ok_from [OF note_max_ids cont_fail_ids [OF this]] C_After show ?thesis by (simp add: claims_def)
  qed
next
  case C_Picked
  then show ?thesis using assms by (auto simp: resume_call_def intro!: ids_okI split: if_splits)
next
  case (C_Shutdown ret)
  then show ?thesis using assms ThreadPoolShutdown_jobs [of ret tp]
    by (auto simp: resume_call_def ids_of_def claims_def intro!: ids_okI)
next
  case (C_Stopping ret)
  then show ?thesis using assms
    by (auto simp: resume_call_def ThreadPoolShutdown_end_def claims_def intro!: ids_okI split: if_splits)
next
  case (C_Done r i)
  then show ?thesis using assms by (auto simp: resume_call_def claims_def intro!: ids_okI)
qed

end
