(* ===== verification/PoolJobs.thy ===== *)
theory PoolJobs
  imports PoolSystem
begin

text \<open>
  Properties of whole runs of the thread pool that concern jobs: unique ids when calls do not
  overlap (and runs with overlapping calls where ids collide and a persistent job is lost), the
  limit on queued jobs, removal and shutdown. Concrete runs serve as witnesses.
\<close>

section \<open>Unique ids\<close>

definition held_ids :: "sys \<Rightarrow> int multiset" where
  "held_ids s = ids_of (s_tp s) + image_mset job_jobId (mset (concat (map running (s_workers s))))"

definition ids_inv :: "sys \<Rightarrow> bool" where
  "ids_inv s \<longleftrightarrow>
     (\<forall>i. count (held_ids s) i \<le> 1) \<and>
     (\<forall>i \<in># held_ids s. i < lastJobId (s_tp s) \<or>
        i = lastJobId (s_tp s) \<and> list_ex claims (s_clients s)) \<and>
     count_if (\<lambda>c. \<not> is_done c) (s_clients s) \<le> 1"

lemma claims_not_done: "claims c \<Longrightarrow> \<not> is_done c"
  by (cases c) (auto simp: claims_def is_done_def)

lemma running_update:
  "i < List.length ws \<Longrightarrow>
     mset (concat (map running (ws[i := w]))) + mset (running (ws ! i)) =
     mset (concat (map running ws)) + mset (running w)"
proof (induction ws arbitrary: i)
  case Nil
  then show ?case by simp
next
  case (Cons y ys)
  show ?case
  proof (cases i)
    case (Suc n)
    then show ?thesis using Cons by (simp add: ac_simps)
  qed simp
qed

lemma running_spawned: "concat (map running (spawned b ws)) = concat (map running ws)"
  by (simp add: spawned_def running_def)

lemma held_worker:
  assumes i: "i < List.length (s_workers s)"
    and w: "WorkerThread clk rc (s_workers s ! i) (s_tp s) = (w', tp')"
  shows "held_ids (s\<lparr>s_tp := tp', s_workers := (s_workers s)[i := w']\<rparr>) \<subseteq># held_ids s"
proof -
  let ?f = "image_mset job_jobId"
  let ?ws = "mset (concat (map running (s_workers s)))"
  let ?ws' = "mset (concat (map running ((s_workers s)[i := w'])))"
  have "?ws' \<subseteq># ?ws + mset (running w')"
    using running_update [OF i, of w'] by (metis mset_subset_eq_add_left)
  then have 1: "?f ?ws' \<subseteq># ?f ?ws + ?f (mset (running w'))"
    using image_mset_subseteq_mono by fastforce
  have "mset (jobs_of tp' @ running w') \<subseteq># mset (jobs_of (s_tp s))"
    using WorkerThread_jobs [OF w] by (simp add: moves_jobs_def)
  then have 2: "?f (mset (jobs_of tp')) + ?f (mset (running w')) \<subseteq># ?f (mset (jobs_of (s_tp s)))"
    using image_mset_subseteq_mono by fastforce
  have "?f (mset (jobs_of tp')) + ?f ?ws' \<subseteq>#
        ?f (mset (jobs_of tp')) + (?f ?ws + ?f (mset (running w')))"
    using 1 by (rule subset_mset.add_left_mono)
  also have "\<dots> = ?f ?ws + (?f (mset (jobs_of tp')) + ?f (mset (running w')))" by (simp add: ac_simps)
  also have "\<dots> \<subseteq># ?f ?ws + ?f (mset (jobs_of (s_tp s)))" using 2 by (rule subset_mset.add_left_mono)
  finally show ?thesis by (simp add: held_ids_def ids_of_def ac_simps)
qed

lemma count_mono: "A \<subseteq># B \<Longrightarrow> count A i \<le> count B i"
  by (rule mset_subset_eq_count)

text \<open>The step of the one call in progress; \<open>cl\<close> says whether it already uses \<open>lastJobId\<close>.\<close>

lemma ids_inv_call:
  assumes one: "\<forall>i. count (held_ids s) i \<le> 1"
    and below: "\<forall>i \<in># held_ids s. i < lastJobId (s_tp s) \<or> i = lastJobId (s_tp s) \<and> cl"
    and ok: "ids_ok cl (s_tp s) c' tp'"
    and s': "s_tp s' = tp'" "s_workers s' = spawned b (s_workers s)" "claims c' \<longrightarrow> list_ex claims (s_clients s')"
    and n: "count_if (\<lambda>c. \<not> is_done c) (s_clients s') \<le> 1"
  shows "ids_inv s'"
proof -
  let ?l = "lastJobId (s_tp s)"
  from ok obtain new where new: "new \<longrightarrow> \<not> cl"
    and sub: "ids_of tp' \<subseteq># ids_of (s_tp s) + (if new then {#?l#} else {#})"
    and last: "lastJobId tp' = ?l \<and> (new \<or> cl \<longrightarrow> claims c') \<or> lastJobId tp' = ?l + 1"
    unfolding ids_ok_def by blast
  have held: "held_ids s' \<subseteq># held_ids s + (if new then {#?l#} else {#})"
    using sub s' by (auto simp: held_ids_def running_spawned ac_simps)
  have "count (held_ids s') i \<le> 1" for i
  proof -
    have "count (held_ids s') i \<le> count (held_ids s) i + (if new \<and> i = ?l then 1 else 0)"
      using count_mono [OF held, of i] by (auto split: if_splits)
    moreover have "count (held_ids s) i = 0" if "new" "i = ?l"
      using below new that by (auto simp: count_eq_zero_iff)
    ultimately show ?thesis using one [rule_format, of i] by (auto split: if_splits)
  qed
  moreover have "i < lastJobId tp' \<or> i = lastJobId tp' \<and> list_ex claims (s_clients s')"
    if i: "i \<in># held_ids s'" for i
  proof -
    have "i \<in># held_ids s \<or> new \<and> i = ?l" using mset_subset_eqD [OF held i] by (auto split: if_splits)
    then have "i < ?l \<or> i = ?l \<and> (cl \<or> new)" using below by auto
    then show ?thesis using last s'(3) by auto
  qed
  ultimately show ?thesis using s' n by (auto simp: ids_inv_def)
qed

lemma no_claims: "list_all is_done cs \<Longrightarrow> \<not> list_ex claims cs"
  using claims_not_done by (auto simp: list_all_iff list_ex_iff)

lemma not_done_none: "list_all is_done cs \<Longrightarrow> count_if (\<lambda>c. \<not> is_done c) cs = 0"
  by (auto simp: count_if_def list_all_iff filter_empty_conv)

lemma count_if_le_1_others:
  assumes "count_if P xs \<le> 1" and "i < List.length xs" and "j < List.length xs"
    and "P (xs ! i)" and "P (xs ! j)"
  shows "i = j"
proof (rule ccontr)
  assume "i \<noteq> j"
  have "{i, j} \<subseteq> {k. k < List.length xs \<and> P (xs ! k)}" using assms by auto
  then have "card {i, j} \<le> card {k. k < List.length xs \<and> P (xs ! k)}" by (rule card_mono [rotated]) simp
  then show False using assms(1) \<open>i \<noteq> j\<close> by (simp add: count_if_def length_filter_conv_card)
qed

lemma ids_inv_resume:
  assumes inv: "ids_inv s" and i: "i < List.length (s_clients s)"
    and r: "resume_call clk se (s_clients s ! i) (s_tp s) = ((c', tp'), b)"
  shows "ids_inv (s\<lparr>s_tp := tp', s_workers := spawned b (s_workers s), s_clients := (s_clients s)[i := c']\<rparr>)"
proof (cases "is_done (s_clients s ! i)")
  case True
  then have "c' = s_clients s ! i" "tp' = s_tp s" "\<not> b"
    using r by (auto simp: is_done_def resume_call_def split: client.splits)
  then show ?thesis using inv by (simp add: spawned_def)
next
  case False
  have only: "list_ex claims (s_clients s) \<Longrightarrow> claims (s_clients s ! i)"
  proof -
    assume "list_ex claims (s_clients s)"
    then obtain j where j: "j < List.length (s_clients s)" "claims (s_clients s ! j)"
      by (auto simp: list_ex_length)
    have "count_if (\<lambda>c. \<not> is_done c) (s_clients s) \<le> 1" using inv by (simp add: ids_inv_def)
    from count_if_le_1_others [OF this j(1) i] claims_not_done [OF j(2)] False have "j = i" by simp
    then show ?thesis using j by simp
  qed
  show ?thesis
  proof (rule ids_inv_call [OF _ _ resume_call_ids [OF r]])
    show "\<forall>i. count (held_ids s) i \<le> 1" using inv by (simp add: ids_inv_def)
    show "\<forall>j \<in># held_ids s. j < lastJobId (s_tp s) \<or> j = lastJobId (s_tp s) \<and> claims (s_clients s ! i)"
      using inv only by (auto simp: ids_inv_def)
    show "claims c' \<longrightarrow> list_ex claims (s_clients (s\<lparr>s_tp := tp', s_workers := spawned b (s_workers s),
        s_clients := (s_clients s)[i := c']\<rparr>))"
      using i by (auto simp: list_ex_length intro!: exI [of _ i])
    show "count_if (\<lambda>c. \<not> is_done c) (s_clients (s\<lparr>s_tp := tp', s_workers := spawned b (s_workers s),
        s_clients := (s_clients s)[i := c']\<rparr>)) \<le> 1"
      using inv i False by (simp add: ids_inv_def count_if_update)
  qed simp_all
qed

lemma ids_inv_exec:
  assumes inv: "pool_inv s \<and> ids_inv s" and en: "enabled False l s"
  shows "pool_inv (exec l s) \<and> ids_inv (exec l s)"
proof
  have pool: "pool_inv s" using inv by simp
  show "pool_inv (exec l s)" by (rule pool_inv_exec [OF pool en])
  from en pool show "ids_inv (exec l s)"
  proof (cases rule: exec_cases)
    case (worker i clk rc w' tp')
    note sub = held_worker [OF worker(1,2)]
    have last: "lastJobId tp' = lastJobId (s_tp s)" using WorkerThread_counters [OF worker(2,3)] by simp
    have "count (held_ids (exec l s)) j \<le> 1" for j
      using count_mono [OF sub, of j] inv worker(4) by (auto simp: ids_inv_def intro: order_trans)
    then show ?thesis
      using inv worker(4) last mset_subset_eqD [OF sub] by (auto simp: ids_inv_def)
  next
    case (call a clk se c tp' b)
    then have fresh: "list_all is_done (s_clients s)" by simp
    show ?thesis
    proof (rule ids_inv_call [OF _ _ api_call_ids [OF call(1)]])
      show "\<forall>i. count (held_ids s) i \<le> 1" using inv by (simp add: ids_inv_def)
      show "\<forall>j \<in># held_ids s. j < lastJobId (s_tp s) \<or> j = lastJobId (s_tp s) \<and> False"
        using inv no_claims [OF fresh] by (auto simp: ids_inv_def)
      show "s_tp (exec l s) = tp'" "s_workers (exec l s) = spawned b (s_workers s)"
        "claims c \<longrightarrow> list_ex claims (s_clients (exec l s))"
        using call(5) by simp_all
      show "count_if (\<lambda>c. \<not> is_done c) (s_clients (exec l s)) \<le> 1"
        using call(5) not_done_none [OF fresh] by simp
    qed
  next
    case (resume i clk se c tp' b)
    from ids_inv_resume [OF _ resume(1,2)] inv resume(4) show ?thesis by simp
  qed
qed



section \<open>Overlapping calls\<close>

text \<open>
  Overlapping calls break the uniqueness of job ids: \<open>ThreadPoolAdd\<close> numbers its job before
  it may block in \<open>CreateWorker\<close>, with the mutex released, and counts the id only afterwards. In
  a run with two overlapping calls both queued jobs have the id 1.
\<close>

theorem overlapping_adds_share_id:
  "map_option (\<lambda>s. map (\<lambda>j. (job_arg j, job_jobId j)) (jobs_of (s_tp s)))
     (run_labels True overlapping_adds start_sys) = Some [(11, 1), (12, 1)]"
  by code_simp

definition overlapping_persistent :: "label list" where
  "overlapping_persistent =
     [wk 0, rs 0, call (Api_AddPersistent (Some (a_job 11 MED_PRIORITY))), wk 1, rs 1,
      call (Api_AddPersistent (Some (a_job 12 MED_PRIORITY))), wk 2, rs 2, wk 0, rs 1, rs 2]"

text \<open>
  Overlapping calls of \<open>ThreadPoolAddPersistent\<close> lose a job: the second one overwrites
  \<open>persistentJob\<close> while the first waits for its job to be picked up. In this run both calls
  return 0, but only the second job was taken by a worker; the first is nowhere in the pool.
\<close>

theorem overlapping_persistent_lost:
  "map_option (\<lambda>s. (tl (s_clients s), map job_arg (jobs_of (s_tp s)),
                    map job_arg (concat (map running (s_workers s)))))
     (run_labels True overlapping_persistent start_sys) =
   Some ([C_Done 0 (Some 0), C_Done 0 (Some 1)], [], [12])"
  by code_simp



section \<open>Removing a job\<close>

abbreviation has_id :: "int \<Rightarrow> ThreadPoolJob \<Rightarrow> bool" where
  "has_id i j \<equiv> job_jobId j = i"

lemma find_job_None: "find_job i js = None \<Longrightarrow> find (has_id i) js = None"
  by (induction js) (auto split: if_splits)

lemma find_job_Some:
  "find_job i js = Some k \<Longrightarrow> k < List.length js \<and> find (has_id i) js = Some (js ! k) \<and> job_jobId (js ! k) = i"
  by (induction js arbitrary: k) (auto split: if_splits)

lemma find_append: "find P (xs @ ys) = (case find P xs of Some x \<Rightarrow> Some x | None \<Rightarrow> find P ys)"
  by (induction xs) auto

lemma take_drop_mset:
  "k < List.length xs \<Longrightarrow> add_mset (xs ! k) (mset (take k xs) + mset (drop (Suc k) xs)) = mset xs"
  by (metis add_mset_add_single id_take_nth_drop mset.simps(2) mset_append union_mset_add_mset_right
      union_commute)

text \<open>
  \<open>ThreadPoolRemove\<close> looks through the high, medium and low priority queues and then at the
  persistent job: with a job of that id it returns 0 and the first such job, which is gone from
  the pool while every other job stays; without one it returns \<open>INVALID_JOB_ID\<close> and the pool is
  unchanged.
\<close>

theorem ThreadPoolRemove_correct:
  "case find (has_id i) (jobs_of tp) of
     None \<Rightarrow> ThreadPoolRemove (Some tp) i = (INVALID_JOB_ID, None, Some tp)
   | Some j \<Rightarrow>
       \<exists>tp'. ThreadPoolRemove (Some tp) i = (0, Some j, Some tp') \<and> job_jobId j = i \<and>
             add_mset j (mset (jobs_of tp')) = mset (jobs_of tp) \<and> same_pool tp tp'"
proof -
  have same: "same_pool tp (the (snd (snd (ThreadPoolRemove (Some tp) i))))"
    using ThreadPoolRemove_same [of tp i] by (metis surjective_pairing)
  let ?h = "q_items (highJobQ tp)" and ?m = "q_items (medJobQ tp)" and ?l = "q_items (lowJobQ tp)"
  show ?thesis
  proof (cases "find_job i ?h")
    case (Some k)
    note F = find_job_Some [OF Some] note S = take_drop_mset [OF F [THEN conjunct1]]
    show ?thesis using Some F same S [symmetric]
      by (simp add: ThreadPoolRemove_def FreeThreadPoolJob_def jobs_of_def q_remove_at_def find_append)
  next
    case h: None
    note H = find_job_None [OF h]
    show ?thesis
    proof (cases "find_job i ?m")
      case (Some k)
      note F = find_job_Some [OF Some] note S = take_drop_mset [OF F [THEN conjunct1]]
      show ?thesis using h H Some F same S [symmetric]
        by (simp add: ThreadPoolRemove_def FreeThreadPoolJob_def jobs_of_def q_remove_at_def find_append)
    next
      case m: None
      note M = find_job_None [OF m]
      show ?thesis
      proof (cases "find_job i ?l")
        case (Some k)
        note F = find_job_Some [OF Some] note S = take_drop_mset [OF F [THEN conjunct1]]
        show ?thesis using h H m M Some F same S [symmetric]
          by (simp add: ThreadPoolRemove_def FreeThreadPoolJob_def jobs_of_def q_remove_at_def find_append)
      next
        case None
        then show ?thesis using h H m M find_job_None [OF None] same
          by (cases "persistentJob tp")
            (auto simp: ThreadPoolRemove_def FreeThreadPoolJob_def jobs_of_def find_append)
      qed
    qed
  qed
qed


section \<open>Shutting down\<close>

text \<open>
  \<open>ThreadPoolShutdown\<close> calls the free function of every job still waiting, high priority first
  and the persistent job last, exactly once each and with its argument, empties the queues, and
  sets the shutdown flag before it waits for the workers.
\<close>

theorem ThreadPoolShutdown_drains:
  "\<exists>tp'. ThreadPoolShutdown ret tp = (C_Stopping ret, tp') \<and> jobs_of tp' = [] \<and> tp_shutdown tp' \<and>
         tp_freed tp' = tp_freed tp @ concat (map free_call (jobs_of tp))"
  using ThreadPoolShutdown_jobs [of ret tp] by (metis surj_pair)

lemma count_if_zero: "count_if P xs = 0 \<Longrightarrow> list_all (\<lambda>x. \<not> P x) xs"
  by (auto simp: count_if_def filter_empty_conv list_all_iff)

text \<open>
  C8. When \<open>ThreadPoolShutdown\<close> returns, in any run, no worker is running or waiting any more:
  every worker that had started has ended.
\<close>

theorem ThreadPoolShutdown_joins:
  assumes "reachable overlap s" and "i < List.length (s_clients s)"
    and "s_clients s ! i = C_Stopping ret"
    and "resume_call clk se (s_clients s ! i) (s_tp s) = ((C_Done r x, tp'), b)"
  shows "r = ret \<and> list_all (\<lambda>w. \<not> is_live w) (s_workers s)"
proof -
  from assms(3,4) have "totalThreads (s_tp s) \<le> 0" "r = ret"
    by (auto simp: resume_call_def ThreadPoolShutdown_end_def split: if_splits)
  moreover have "totalThreads (s_tp s) = count_if is_live (s_workers s)"
    using pool_counters_exact_inv [OF assms(1)] by (simp add: counters_of_def counted_def)
  moreover have "0 \<le> count_if is_live (s_workers s)" by simp
  ultimately show ?thesis using count_if_zero [of is_live "s_workers s"] by simp
qed

theorem ThreadPoolShutdown_joins_witness:
  "\<exists>s. run_labels False [wk 0, rs 0, call Api_Shutdown, wk 0] start_sys = Some s \<and>
       list_all (\<lambda>w. \<not> is_live w) (s_workers s)"
proof -
  have "run_labels False [wk 0, rs 0, call Api_Shutdown, wk 0] start_sys \<noteq> None" by code_simp
  then obtain s where s: "run_labels False [wk 0, rs 0, call Api_Shutdown, wk 0] start_sys = Some s" by blast
  have "map_option (\<lambda>s. (List.length (s_clients s), s_clients s ! 1, totalThreads (s_tp s)))
          (run_labels False [wk 0, rs 0, call Api_Shutdown, wk 0] start_sys) = Some (2, C_Stopping 0, 0)"
    by code_simp
  with s have c: "1 < List.length (s_clients s)" "s_clients s ! 1 = C_Stopping 0" "totalThreads (s_tp s) = 0"
    by simp_all
  have "resume_call zero_clock os_ok (s_clients s ! 1) (s_tp s) =
          ((C_Done 0 None, (s_tp s)\<lparr>jobFreeList := 0\<rparr>), False)"
    using c by (simp add: resume_call_def ThreadPoolShutdown_end_def)
  from ThreadPoolShutdown_joins [OF run_labels_reachable [OF s] c(1,2) this] s show ?thesis by simp
qed


section \<open>The limit on queued jobs\<close>

lemma queued_jobs_size:
  "queued_jobs tp = int (size (mset (jobs_of tp))) - of_bool (persistentJob tp \<noteq> None)"
  by (auto simp: queued_jobs_def jobs_of_def split: option.splits)

lemma BumpPriority_queued: "queued_jobs (BumpPriority now tp) \<le> queued_jobs tp"
  using size_mset_mono [OF conjunct1 [OF BumpPriority_jobs [of now tp]]]
  by (simp add: queued_jobs_size)

lemma pick_queued:
  assumes "WorkerThread_pick clk start tp = (w', tp')"
  shows "queued_jobs tp' \<le> queued_jobs tp"
proof -
  have "queued_jobs tp' \<le> queued_jobs (BumpPriority (clk 4) tp)"
    using assms by (cases rule: pick_cases)
      (simp_all add: queued_jobs_def q_pop_items add_workers_def)
  then show ?thesis using BumpPriority_queued [of "clk 4" tp] by simp
qed

lemma check_queued:
  assumes "WorkerThread_check clk start rc tp = (w', tp')"
  shows "queued_jobs tp' \<le> queued_jobs tp"
proof (cases "no_work tp")
  case True
  then show ?thesis using assms
    by (auto simp: WorkerThread_check_def WorkerThread_exit_def queued_jobs_def add_idle_def split: if_splits)
next
  case False
  then show ?thesis using assms pick_queued
    by (fastforce simp: WorkerThread_check_def Let_def queued_jobs_def add_idle_def)
qed

lemma WorkerThread_queued:
  assumes "WorkerThread clk rc w tp = (w', tp')"
  shows "queued_jobs tp' \<le> queued_jobs tp"
proof (cases w)
  case (W_Out job p start)
  then have "WorkerThread_check clk (StatsTime (clk 1)) 0 (after_job clk job p start tp) = (w', tp')"
    using assms by (simp add: WorkerThread_def WorkerThread_top_check)
  from check_queued [OF this] show ?thesis
    by (cases job) (auto simp: after_job_def queued_jobs_def pool_updates Let_def split: if_splits)
next
  case (W_Wait start t)
  then show ?thesis using assms check_queued by (simp add: WorkerThread_def)
qed (use assms in \<open>auto simp: WorkerThread_def WorkerThread_start_def queued_jobs_def\<close>)

lemma queued_keeps [simp]:
  "queued_jobs (tp\<lparr>lastJobId := a\<rparr>) = queued_jobs tp" "queued_jobs (tp\<lparr>jobFreeList := n\<rparr>) = queued_jobs tp"
  "queued_jobs (tp\<lparr>pendingWorkerThreadStart := b\<rparr>) = queued_jobs tp"
  "queued_jobs (tp\<lparr>tp_stats := st\<rparr>) = queued_jobs tp" "queued_jobs (tp\<lparr>tp_attr := atr\<rparr>) = queued_jobs tp"
  "queued_jobs (tp\<lparr>tp_oom := orc\<rparr>) = queued_jobs tp"
  "queued_jobs (tp\<lparr>persistentJob := j\<rparr>) = queued_jobs tp"
  by (simp_all add: queued_jobs_def)

lemma CreateThreadPoolJob_queued: "CreateThreadPoolJob now job i tp = (r, tp') \<Longrightarrow> queued_jobs tp' = queued_jobs tp"
  by (auto simp: CreateThreadPoolJob_def split: prod.splits)

lemma finish_add_queued: "finish_add temp rc tp = (c, tp') \<Longrightarrow> queued_jobs tp' = queued_jobs tp"
  by (auto simp: finish_add_def FreeThreadPoolJob_def Let_def split: if_splits)

lemma persist_job_queued: "persist_job now job tp = (c, tp') \<Longrightarrow> queued_jobs tp' = queued_jobs tp"
  by (auto simp: persist_job_def split: prod.splits option.splits dest!: CreateThreadPoolJob_queued)

lemma cont_fail_queued: "cont_fail clk k rc tp = (c, tp') \<Longrightarrow> queued_jobs tp' = queued_jobs tp"
  by (cases k) (auto simp: cont_fail_def dest: finish_add_queued persist_job_queued)

lemma note_max_queued [simp]: "queued_jobs (note_max tp) = queued_jobs tp"
  by (simp add: note_max_def)

lemma CreateWorker_queued: "CreateWorker clk se k tp = ((c, tp'), b) \<Longrightarrow> queued_jobs tp' = queued_jobs tp"
  by (auto simp: CreateWorker_def CreateWorker_create_def split: if_splits dest!: cont_fail_queued)

lemma AddWorker_queued:
  "AddWorker clk se temp rc jobs threads tp = ((c, tp'), b) \<Longrightarrow> queued_jobs tp' = queued_jobs tp"
  by (auto simp: AddWorker_def split: if_splits dest: CreateWorker_queued finish_add_queued)

lemma start_threads_queued: "start_threads clk se i tp = ((c, tp'), b) \<Longrightarrow> queued_jobs tp' = queued_jobs tp"
  by (auto simp: start_threads_def split: if_splits dest: CreateWorker_queued)

lemma cont_ok_queued: "cont_ok clk se k tp = ((c, tp'), b) \<Longrightarrow> queued_jobs tp' = queued_jobs tp"
  by (cases k) (auto simp: cont_ok_def dest: AddWorker_queued start_threads_queued persist_job_queued)

lemma enqueue_job_queued: "enqueue_job temp tp = (ok, tp') \<Longrightarrow> queued_jobs tp' = queued_jobs tp + of_bool ok"
  by (auto simp: enqueue_job_def queued_jobs_def split: prod.splits if_splits dest!: q_add_tail_items)

lemma ThreadPoolAdd_queued:
  assumes "ThreadPoolAdd clk se job tp = ((c, tp'), b)"
  shows "queued_jobs tp' \<le> max (queued_jobs tp) (maxJobsTotal (tp_attr tp))"
proof (cases "job = None \<or> queued_jobs tp \<ge> maxJobsTotal (tp_attr tp)")
  case True
  then show ?thesis using assms by (auto simp: ThreadPoolAdd_def split: option.splits)
next
  case False
  then obtain j where j: "job = Some j" by auto
  obtain r tp1 where cr: "CreateThreadPoolJob (clk 1) j (lastJobId tp) tp = (r, tp1)"
    by (cases "CreateThreadPoolJob (clk 1) j (lastJobId tp) tp")
  note C = CreateThreadPoolJob_queued [OF cr]
  show ?thesis
  proof (cases r)
    case None
    then show ?thesis using assms j False cr C by (auto simp: ThreadPoolAdd_def)
  next
    case (Some temp)
    obtain ok tp2 where en: "enqueue_job temp tp1 = (ok, tp2)" by (cases "enqueue_job temp tp1")
    from assms j False cr Some en have "AddWorker clk se temp (if ok then 0 else EOUTOFMEM) (queued_jobs tp2)
                      (totalThreads tp2 - persistentThreads tp2) tp2 = ((c, tp'), b)"
      by (simp add: ThreadPoolAdd_def)
    from AddWorker_queued [OF this] enqueue_job_queued [OF en] C False show ?thesis by auto
  qed
qed

lemma ThreadPoolRemove_queued:
  "ThreadPoolRemove (Some tp) i = (r, out, tp') \<Longrightarrow> queued_jobs (the tp') \<le> queued_jobs tp"
  by (auto simp: ThreadPoolRemove_def FreeThreadPoolJob_def queued_jobs_def q_remove_at_def
      split: option.splits if_splits dest!: find_job_Some)

lemma ThreadPoolShutdown_queued:
  assumes "ThreadPoolShutdown ret tp = (c, tp')"
  shows "queued_jobs tp' \<le> queued_jobs tp"
proof -
  have "0 \<le> queued_jobs tp" by (simp add: queued_jobs_def)
  moreover have "queued_jobs tp' = 0"
    using ThreadPoolShutdown_jobs [OF assms] by (auto simp: queued_jobs_def jobs_of_def)
  ultimately show ?thesis by simp
qed

lemma api_call_queued:
  assumes "api_call clk se a (Some tp) = ((c, Some tp'), b)"
    and "\<forall>sched attr. a \<noteq> Api_SetAttr sched attr"
  shows "queued_jobs tp' \<le> max (queued_jobs tp) (maxJobsTotal (tp_attr tp))"
proof (cases a)
  case (Api_Add x1)
  then show ?thesis using assms ThreadPoolAdd_queued by (fastforce simp: api_call_def map_prod_def split: prod.splits)
next
  case (Api_AddPersistent x2)
  then show ?thesis using assms
    by (auto simp: api_call_def map_prod_def ThreadPoolAddPersistent_def
        split: prod.splits option.splits if_splits dest!: CreateWorker_queued persist_job_queued)
next
  case (Api_Remove i)
  then show ?thesis using assms ThreadPoolRemove_queued [of tp i]
    by (auto simp: api_call_def map_prod_def split: prod.splits)
next
  case Api_Shutdown
  then show ?thesis using assms ThreadPoolShutdown_queued [of 0 tp]
    by (auto simp: api_call_def map_prod_def split: prod.splits)
qed (use assms(2) in simp)

lemma resume_call_queued:
  assumes "resume_call clk se c tp = ((c', tp'), b)"
  shows "queued_jobs tp' \<le> queued_jobs tp"
  using assms
  by (cases c) (auto simp: resume_call_def ThreadPoolShutdown_end_def split: if_splits
      dest: CreateWorker_queued cont_ok_queued cont_fail_queued ThreadPoolShutdown_queued)

definition jobs_bounded :: "ThreadPoolAttr \<Rightarrow> sys \<Rightarrow> bool" where
  "jobs_bounded a s \<longleftrightarrow>
     pool_inv s \<and> tp_attr (s_tp s) = a \<and> queued_jobs (s_tp s) \<le> max 0 (maxJobsTotal a)"

lemma jobs_bounded_exec:
  assumes b: "jobs_bounded a s" and en: "enabled overlap l s" and l: "\<not> sets_attr l"
  shows "jobs_bounded a (exec l s)"
proof -
  have inv: "pool_inv s" using b by (simp add: jobs_bounded_def)
  note inv' = pool_inv_exec [OF inv en]
  from en inv show ?thesis
  proof (cases rule: exec_cases)
    case (worker i clk rc w' tp')
    with WorkerThread_queued [OF worker(2)] WorkerThread_counters [OF worker(2,3)] inv' b
    show ?thesis by (simp add: jobs_bounded_def)
  next
    case (call x clk se c tp' sp)
    have noset: "\<forall>sched attr. x \<noteq> Api_SetAttr sched attr" using l call(2) by (auto simp: sets_attr_call)
    have "queued_jobs tp' \<le> max 0 (maxJobsTotal a)"
      using api_call_queued [OF call(1) noset] b by (auto simp: jobs_bounded_def)
    with api_call_ok(2) [OF call(1) noset] inv' b call(5) show ?thesis by (simp add: jobs_bounded_def)
  next
    case (resume i clk se c tp' sp)
    with resume_call_queued [OF resume(2)] resume_call_ok [OF resume(2)] inv' b
    show ?thesis by (simp add: jobs_bounded_def)
  qed
qed




section \<open>Promotion of starved jobs\<close>

lemma bump_step_None:
  "bump_step now tp = None \<longleftrightarrow>
     (\<forall>j js. q_items (medJobQ tp) = j # js \<longrightarrow> DiffMillis now (requestTime j) < starvationTime (tp_attr tp)) \<and>
     (\<forall>j js. q_items (lowJobQ tp) = j # js \<longrightarrow> DiffMillis now (requestTime j) < maxIdleTime (tp_attr tp))"
  by (auto simp: bump_step_def bump_med_def bump_low_def Let_def split: option.splits list.splits prod.splits)

lemma bump_step_high:
  assumes "bump_step now tp = Some tp'"
  shows "\<exists>js. q_items (highJobQ tp') = q_items (highJobQ tp) @ js \<and>
           (\<forall>j \<in> set js. DiffMillis now (requestTime j) \<ge> starvationTime (tp_attr tp))"
proof (cases "bump_med now tp")
  case (Some a)
  with assms have "bump_med now tp = Some tp'" by (simp add: bump_step_def)
  then show ?thesis
    by (cases rule: bump_med_SomeE) (auto simp: StatsAccountMQ_def dest!: q_add_tail_items)
next
  case None
  with assms have "bump_low now tp = Some tp'" by (simp add: bump_step_def)
  then show ?thesis by (cases rule: bump_low_SomeE) (auto simp: StatsAccountLQ_def)
qed

lemma BumpPriority_high:
  "\<exists>js. q_items (highJobQ (BumpPriority now tp)) = q_items (highJobQ tp) @ js \<and>
     (\<forall>j \<in> set js. DiffMillis now (requestTime j) \<ge> starvationTime (tp_attr tp))"
proof (induction now tp rule: BumpPriority.induct)
  case (1 now tp)
  show ?case
  proof (cases "bump_step now tp")
    case None
    then have "BumpPriority now tp = tp" by (subst BumpPriority.simps) simp
    then show ?thesis by simp
  next
    case (Some tp')
    then have b: "BumpPriority now tp = BumpPriority now tp'" by (subst BumpPriority.simps) simp
    from 1 [OF Some] bump_step_high [OF Some] bump_step_keeps(3) [OF Some] show ?thesis
      unfolding b by fastforce
  qed
qed



text \<open>
  The header \<open>ThreadPool.h\<close> builds its error codes with \<open>& 1<<29\<close> from negative numbers, all of
  which have that bit set: the four codes are one number, so a caller cannot tell them apart, and
  an id \<open>INVALID_JOB_ID\<close> is positive.
\<close>

theorem error_codes_collide:
  "EMAXTHREADS = 2 ^ 29 \<and> INVALID_POLICY = 2 ^ 29 \<and> INVALID_JOB_ID = 2 ^ 29 \<and> EOUTOFMEM = 2 ^ 29"
  by code_simp

text \<open>
  \<open>SetRelTimeout\<close> adds the milliseconds of the delay to those of the clock without carrying into
  the seconds, so the nanoseconds it hands to \<open>pthread_cond_timedwait\<close> can be a second or more.
\<close>

theorem SetRelTimeout_overflows:
  "SetRelTimeout \<lparr>tv_sec = 5, tv_usec = 900000\<rparr> 1500 = \<lparr>ts_sec = 6, ts_nsec = 1400000000\<rparr>"
  by code_simp

end
