(* ===== verification/TimerThread.thy ===== *)
theory TimerThread
  imports PoolJobs
begin

text \<open>
  \<open>threadutil/src/TimerThread.c\<close>: a queue of timed events, ordered by time, and the thread that
  hands due events to the thread pool.

  The event queue is the abstract queue of \<open>ItemQueue\<close>; \<open>freeEvents\<close> is the number of cached event
  blocks, \<open>tt_oom\<close> the coming results of \<open>malloc\<close>, \<open>tt_freed\<close> the free functions called. What the
  timer needs of the pool is the interface \<open>job_pool\<close>, which \<open>ThreadPoolAdd\<close> provides. All
  operations run under the timer's mutex and block only in the condition waits that
  \<open>TimerThreadWorker\<close> and \<open>TimerThreadShutdown\<close> end with here.
\<close>

definition INVALID_EVENT_ID :: int where "INVALID_EVENT_ID = (- 10) AND push_bit 29 1"

datatype TimeoutType = ABS_SEC | REL_SEC

datatype Duration = SHORT_TERM | PERSISTENT

record TimerEvent =
  ev_job :: ThreadPoolJob
  eventTime :: int
  ev_persistent :: Duration
  ev_id :: int

record TimerThread =
  lastEventId :: int
  eventQ :: "TimerEvent queue"
  tt_shutdown :: bool
  freeEvents :: nat
  tt_oom :: "bool list"
  tt_freed :: "(nat \<times> nat) list"


section \<open>Operations\<close>

definition FreeTimerEvent :: "TimerThread \<Rightarrow> TimerThread" where
  "FreeTimerEvent t = t\<lparr>freeEvents := node_free 100 (freeEvents t)\<rparr>"

definition CalculateEventTime :: "int \<Rightarrow> int \<Rightarrow> TimeoutType \<Rightarrow> int" where
  "CalculateEventTime now timeout type = (case type of ABS_SEC \<Rightarrow> timeout | REL_SEC \<Rightarrow> timeout + now)"

definition CreateTimerEvent ::
  "TimerThread \<Rightarrow> ThreadPoolJob \<Rightarrow> Duration \<Rightarrow> int \<Rightarrow> int \<Rightarrow> TimerEvent option \<times> TimerThread" where
  "CreateTimerEvent t job persistent time i =
     (case node_alloc (tt_oom t) (freeEvents t) of
        (ok, orc, c) \<Rightarrow>
          (if ok then Some \<lparr>ev_job = job, eventTime = time, ev_persistent = persistent, ev_id = i\<rparr>
           else None,
           t\<lparr>tt_oom := orc, freeEvents := c\<rparr>))"

text \<open>
  \<open>sync\<close> is the sum of the results of creating the mutex and the condition, \<open>add_rc\<close> the result
  of \<open>ThreadPoolAddPersistent\<close> for the worker job.
\<close>

definition TimerThreadInit ::
  "TimerThread option \<Rightarrow> bool \<Rightarrow> int \<Rightarrow> int \<Rightarrow> int \<times> TimerThread option" where
  "TimerThreadInit timer tp_given sync add_rc =
     (case timer of
        None \<Rightarrow> (EINVAL, None)
      | Some t \<Rightarrow>
          if \<not> tp_given then (EINVAL, Some t)
          else
            (let t1 = t\<lparr>freeEvents := 0, tt_shutdown := False, lastEventId := 0, eventQ := q_empty\<rparr>;
                 rc = (if sync \<noteq> 0 then EAGAIN else add_rc)
             in (rc, Some t1)))"

text \<open>The place of a new event: before the first one that is not earlier.\<close>

fun sched_pos :: "int \<Rightarrow> TimerEvent list \<Rightarrow> nat option" where
  "sched_pos timeout [] = None"
| "sched_pos timeout (temp # es) =
     (if eventTime temp \<ge> timeout then Some 0 else map_option Suc (sched_pos timeout es))"

definition TimerThreadSchedule ::
  "int \<Rightarrow> TimerThread option \<Rightarrow> int \<Rightarrow> TimeoutType \<Rightarrow> ThreadPoolJob option \<Rightarrow> Duration
     \<Rightarrow> int \<times> int option \<times> TimerThread option" where
  "TimerThreadSchedule now timer timeout0 type jobp duration =
     (case (timer, jobp) of
        (None, _) \<Rightarrow> (EINVAL, None, None)
      | (Some t, None) \<Rightarrow> (EINVAL, None, Some t)
      | (Some t, Some job) \<Rightarrow>
          (let timeout = CalculateEventTime now timeout0 type
           in case CreateTimerEvent t job duration timeout (lastEventId t) of
                (None, t1) \<Rightarrow> (EOUTOFMEM, Some INVALID_EVENT_ID, Some t1)
              | (Some newEvent, t1) \<Rightarrow>
                  (case (case sched_pos timeout (q_items (eventQ t1)) of
                           Some k \<Rightarrow> q_insert_at (tt_oom t1) (eventQ t1) k newEvent
                         | None \<Rightarrow> q_add_tail (tt_oom t1) (eventQ t1) newEvent) of
                     (ok, orc, q) \<Rightarrow>
                       (let t2 = t1\<lparr>eventQ := q, tt_oom := orc\<rparr>;
                            t3 = (if ok then t2 else FreeTimerEvent t2)
                        in (if ok then 0 else EOUTOFMEM, Some (lastEventId t3),
                            Some (t3\<lparr>lastEventId := lastEventId t3 + 1\<rparr>))))))"

fun find_event :: "int \<Rightarrow> TimerEvent list \<Rightarrow> nat option" where
  "find_event i [] = None"
| "find_event i (e # es) = (if ev_id e = i then Some 0 else map_option Suc (find_event i es))"

definition TimerThreadRemove ::
  "TimerThread option \<Rightarrow> int \<Rightarrow> int \<times> ThreadPoolJob option \<times> TimerThread option" where
  "TimerThreadRemove timer i =
     (case timer of
        None \<Rightarrow> (EINVAL, None, None)
      | Some t \<Rightarrow>
          (case find_event i (q_items (eventQ t)) of
             None \<Rightarrow> (INVALID_EVENT_ID, None, Some t)
           | Some k \<Rightarrow>
               (0, Some (ev_job (q_items (eventQ t) ! k)),
                Some (FreeTimerEvent (t\<lparr>eventQ := q_remove_at (eventQ t) k\<rparr>)))))"

text \<open>The loop of \<open>TimerThreadShutdown\<close>, and the state in which it waits for the worker.\<close>

fun drain_events :: "TimerEvent list \<Rightarrow> TimerThread \<Rightarrow> TimerThread" where
  "drain_events [] t = t"
| "drain_events (temp # es) t =
     drain_events es (FreeTimerEvent
       (t\<lparr>tt_freed := tt_freed t @
            (if job_free_func (ev_job temp) \<noteq> NULL
             then [(job_free_func (ev_job temp), job_arg (ev_job temp))] else [])\<rparr>))"

definition TimerThreadShutdown :: "TimerThread option \<Rightarrow> int option \<times> TimerThread option" where
  "TimerThreadShutdown timer =
     (case timer of
        None \<Rightarrow> (Some EINVAL, None)
      | Some t \<Rightarrow>
          (let t1 = drain_events (q_items (eventQ t)) (t\<lparr>tt_shutdown := True\<rparr>)
           in (None, Some (t1\<lparr>eventQ := q_empty, freeEvents := 0\<rparr>))))"


section \<open>The worker\<close>

text \<open>
  One pass from the top of the \<open>while (1)\<close> loop: the worker ends, hands out a due event and goes
  round again, or blocks, until a time or a signal. \<open>add\<close> is \<open>ThreadPoolAdd\<close> or
  \<open>ThreadPoolAddPersistent\<close> on the pool's state.
\<close>

datatype wait = Ended | Until int | Signal

type_synonym 'p pool_add = "Duration \<Rightarrow> ThreadPoolJob \<Rightarrow> 'p \<Rightarrow> int \<times> 'p"

definition fire :: "'p pool_add \<Rightarrow> TimerEvent \<Rightarrow> TimerThread \<Rightarrow> 'p \<Rightarrow> TimerThread \<times> 'p" where
  "fire add e t p =
     (case add (ev_persistent e) (ev_job e) p of
        (rc, p') \<Rightarrow>
          (let j = ev_job e;
               t1 = (if rc \<noteq> 0 \<and> job_arg j \<noteq> NULL \<and> job_free_func j \<noteq> NULL
                     then t\<lparr>tt_freed := tt_freed t @ [(job_free_func j, job_arg j)]\<rparr> else t)
           in (FreeTimerEvent (t1\<lparr>eventQ := q_pop (eventQ t1)\<rparr>), p')))"

definition TimerThreadWorker_round ::
  "'p pool_add \<Rightarrow> int \<Rightarrow> TimerThread \<Rightarrow> 'p \<Rightarrow> wait option \<times> TimerThread \<times> 'p" where
  "TimerThreadWorker_round add currentTime t p =
     (if tt_shutdown t then (Some Ended, t\<lparr>tt_shutdown := False\<rparr>, p)
      else case q_items (eventQ t) of
             [] \<Rightarrow> (Some Signal, t, p)
           | nextEvent # _ \<Rightarrow>
               if currentTime \<ge> eventTime nextEvent then (None, fire add nextEvent t p)
               else (Some (Until (eventTime nextEvent)), t, p))"

lemma fire_queue: "fire add e t p = (t', p') \<Longrightarrow> eventQ t' = q_pop (eventQ t) \<and>
    tt_shutdown t' = tt_shutdown t \<and> lastEventId t' = lastEventId t"
  by (auto simp: fire_def FreeTimerEvent_def Let_def split: prod.splits if_splits)

lemma round_shrinks:
  "TimerThreadWorker_round add now t p = (None, t', p') \<Longrightarrow>
     List.length (q_items (eventQ t')) < List.length (q_items (eventQ t))"
  by (auto simp: TimerThreadWorker_round_def q_pop_items split: if_splits list.splits dest!: fire_queue)

text \<open>The worker until it blocks or ends; \<open>clk n\<close> is the time of its \<open>n\<close>-th look at the clock.\<close>

function TimerThreadWorker ::
  "'p pool_add \<Rightarrow> (nat \<Rightarrow> int) \<Rightarrow> nat \<Rightarrow> TimerThread \<Rightarrow> 'p \<Rightarrow> wait \<times> TimerThread \<times> 'p" where
  "TimerThreadWorker add clk n t p =
     (case TimerThreadWorker_round add (clk n) t p of
        (Some w, t', p') \<Rightarrow> (w, t', p')
      | (None, t', p') \<Rightarrow> TimerThreadWorker add clk (Suc n) t' p')"
  by pat_completeness auto
termination
  by (relation "measure (\<lambda>(add, clk, n, t, p). List.length (q_items (eventQ t)))")
    (auto dest: sym intro: round_shrinks)

declare TimerThreadWorker.simps [simp del]


section \<open>The queue is ordered by time and its ids are unique\<close>

definition by_time :: "TimerEvent list \<Rightarrow> bool" where
  "by_time es \<longleftrightarrow> sorted (map eventTime es)"

definition timer_inv :: "TimerThread \<Rightarrow> bool" where
  "timer_inv t \<longleftrightarrow>
     by_time (q_items (eventQ t)) \<and> distinct (map ev_id (q_items (eventQ t))) \<and>
     (\<forall>e \<in> set (q_items (eventQ t)). ev_id e < lastEventId t)"

lemma sched_pos_split:
  "by_time es \<Longrightarrow>
     (case sched_pos c es of
        Some k \<Rightarrow> take k es = filter (\<lambda>e. eventTime e < c) es \<and> drop k es = filter (\<lambda>e. eventTime e \<ge> c) es
      | None \<Rightarrow> es = filter (\<lambda>e. eventTime e < c) es \<and> [] = filter (\<lambda>e. eventTime e \<ge> c) es)"
proof (induction es)
  case Nil
  then show ?case by simp
next
  case (Cons e es)
  show ?case
  proof (cases "eventTime e \<ge> c")
    case True
    then have "\<forall>x \<in> set es. eventTime x \<ge> c" using Cons.prems by (auto simp: by_time_def)
    then have "filter (\<lambda>x. eventTime x < c) es = []" "filter (\<lambda>x. eventTime x \<ge> c) es = es"
      by (auto simp: filter_empty_conv)
    then show ?thesis using True by simp
  next
    case False
    then show ?thesis using Cons by (auto simp: by_time_def split: option.splits)
  qed
qed

text \<open>Where a new event goes in an ordered queue.\<close>

definition insert_event :: "TimerEvent \<Rightarrow> TimerEvent list \<Rightarrow> TimerEvent list" where
  "insert_event e es =
     filter (\<lambda>x. eventTime x < eventTime e) es @ e # filter (\<lambda>x. eventTime x \<ge> eventTime e) es"

lemma insert_event_props:
  assumes "by_time es"
  shows "by_time (insert_event e es)" and "mset (insert_event e es) = add_mset e (mset es)"
proof -
  show "by_time (insert_event e es)"
    using assms sorted_filter [of eventTime es]
    by (auto simp: insert_event_def by_time_def sorted_append)
  show "mset (insert_event e es) = add_mset e (mset es)"
    using multiset_partition [of "mset es" "\<lambda>x. eventTime x < eventTime e"]
    by (simp add: insert_event_def not_less mset_filter)
qed

definition new_event ::
  "int \<Rightarrow> int \<Rightarrow> TimeoutType \<Rightarrow> ThreadPoolJob \<Rightarrow> Duration \<Rightarrow> TimerThread \<Rightarrow> TimerEvent" where
  "new_event now timeout type job d t =
     \<lparr>ev_job = job, eventTime = CalculateEventTime now timeout type, ev_persistent = d,
      ev_id = lastEventId t\<rparr>"

lemma TimerThreadSchedule_cases:
  assumes inv: "by_time (q_items (eventQ t))"
  shows "\<exists>rc i t'. TimerThreadSchedule now (Some t) timeout type (Some job) d = (rc, Some i, Some t') \<and>
           tt_shutdown t' = tt_shutdown t \<and>
           (if rc = 0 then i = lastEventId t \<and> lastEventId t' = lastEventId t + 1 \<and>
                           q_items (eventQ t') = insert_event (new_event now timeout type job d t) (q_items (eventQ t))
            else rc = EOUTOFMEM \<and> q_items (eventQ t') = q_items (eventQ t) \<and>
                 lastEventId t \<le> lastEventId t') \<and>
           (tt_oom t = [] \<longrightarrow> rc = 0)"
proof -
  define e where "e = new_event now timeout type job d t"
  obtain ok orc c where al: "node_alloc (tt_oom t) (freeEvents t) = (ok, orc, c)"
    by (metis prod_cases3)
  have oom1: "tt_oom t = [] \<Longrightarrow> ok \<and> orc = []"
    using al by (auto simp: node_alloc_def split: if_splits)
  have nz: "EOUTOFMEM \<noteq> 0" by code_simp
  show ?thesis
  proof (cases ok)
    case False
    then show ?thesis using al oom1 nz by (auto simp: TimerThreadSchedule_def CreateTimerEvent_def Let_def)
  next
    case True
    let ?t1 = "t\<lparr>tt_oom := orc, freeEvents := c\<rparr>"
    have cr: "CreateTimerEvent t job d (CalculateEventTime now timeout type) (lastEventId t) = (Some e, ?t1)"
      using al True by (simp add: CreateTimerEvent_def e_def new_event_def)
    let ?ins = "case sched_pos (eventTime e) (q_items (eventQ t)) of
                   Some k \<Rightarrow> q_insert_at orc (eventQ t) k e
                 | None \<Rightarrow> q_add_tail orc (eventQ t) e"
    obtain ok2 orc2 q where ins: "?ins = (ok2, orc2, q)" by (metis prod_cases3)
    have items: "q_items q = (if ok2 then insert_event e (q_items (eventQ t)) else q_items (eventQ t))"
      using ins sched_pos_split [OF inv, of "eventTime e"]
      by (auto simp: q_add_tail_def q_insert_at_def insert_event_def split: option.splits prod.splits bool.splits)
    have oom2: "orc = [] \<Longrightarrow> ok2"
      using ins by (auto simp: q_add_tail_def q_insert_at_def node_alloc_def split: option.splits if_splits)
    have "eventTime e = CalculateEventTime now timeout type" by (simp add: e_def new_event_def)
    then have "TimerThreadSchedule now (Some t) timeout type (Some job) d =
        (if ok2 then 0 else EOUTOFMEM, Some (lastEventId t),
         Some ((if ok2 then ?t1\<lparr>eventQ := q, tt_oom := orc2\<rparr>
                else FreeTimerEvent (?t1\<lparr>eventQ := q, tt_oom := orc2\<rparr>))\<lparr>lastEventId := lastEventId t + 1\<rparr>))"
      using cr ins
      by (cases ok2) (simp_all add: TimerThreadSchedule_def Let_def FreeTimerEvent_def cong: option.case_cong)
    then show ?thesis using items oom1 oom2 nz by (auto simp: FreeTimerEvent_def e_def)
  qed
qed

lemma timer_inv_insert:
  assumes "timer_inv t" and "ev_id e = lastEventId t"
    and "q_items (eventQ t') = insert_event e (q_items (eventQ t))" and "lastEventId t' = lastEventId t + 1"
  shows "timer_inv t'"
proof -
  have inv: "by_time (q_items (eventQ t))" using assms(1) by (simp add: timer_inv_def)
  note P = insert_event_props [OF inv, of e]
  have "mset (map ev_id (q_items (eventQ t'))) = add_mset (ev_id e) (mset (map ev_id (q_items (eventQ t))))"
    using P(2) assms(3) by simp
  then have "distinct (map ev_id (q_items (eventQ t'))) \<longleftrightarrow> distinct (ev_id e # map ev_id (q_items (eventQ t)))"
    by (metis mset.simps(2) mset_eq_imp_distinct_iff)
  moreover have "set (q_items (eventQ t')) = insert e (set (q_items (eventQ t)))"
    using P(2) assms(3) by (metis set_mset_add_mset_insert set_mset_mset)
  ultimately show ?thesis using assms P(1) by (auto simp: timer_inv_def)
qed

text \<open>
  C9. Scheduling keeps the event queue ordered by time with distinct ids below the next one. On
  success the caller gets a fresh id and the event is where the order puts it, before events of
  the same time, with the absolute time the timeout type asks for; otherwise the queue is as
  before and the result is \<open>EOUTOFMEM\<close>, which happens only when an allocation fails.
\<close>

theorem TimerThreadSchedule_correct:
  assumes "timer_inv t"
  shows "\<exists>rc i t'. TimerThreadSchedule now (Some t) timeout type (Some job) d = (rc, Some i, Some t') \<and>
           timer_inv t' \<and>
           (if rc = 0 then i = lastEventId t \<and> q_items (eventQ t') = insert_event (new_event now timeout type job d t) (q_items (eventQ t))
            else rc = EOUTOFMEM \<and> q_items (eventQ t') = q_items (eventQ t)) \<and>
           (tt_oom t = [] \<longrightarrow> rc = 0)"
proof -
  have inv: "by_time (q_items (eventQ t))" using assms(1) by (simp add: timer_inv_def)
  from TimerThreadSchedule_cases [OF inv, of now timeout type job d] obtain rc i t' where
    s: "TimerThreadSchedule now (Some t) timeout type (Some job) d = (rc, Some i, Some t')"
    and r: "if rc = 0 then i = lastEventId t \<and> lastEventId t' = lastEventId t + 1 \<and>
                           q_items (eventQ t') = insert_event (new_event now timeout type job d t) (q_items (eventQ t))
            else rc = EOUTOFMEM \<and> q_items (eventQ t') = q_items (eventQ t) \<and>
                 lastEventId t \<le> lastEventId t'"
    and oom: "tt_oom t = [] \<longrightarrow> rc = 0" by blast
  have "timer_inv t'"
  proof (cases "rc = 0")
    case True
    with r timer_inv_insert [OF assms(1), of "new_event now timeout type job d t" t'] show ?thesis by (simp add: new_event_def)
  next
    case False
    with r assms(1) show ?thesis by (auto simp: timer_inv_def)
  qed
  with s r oom show ?thesis by auto
qed

definition new_timer :: TimerThread where
  "new_timer = \<lparr>lastEventId = 0, eventQ = q_empty, tt_shutdown = False, freeEvents = 0, tt_oom = [],
                tt_freed = []\<rparr>"

lemma new_timer_inv: "timer_inv new_timer"
  by (simp add: new_timer_def timer_inv_def by_time_def q_empty_def)

theorem TimerThreadSchedule_correct_witness:
  "\<exists>t'. TimerThreadSchedule 100 (Some new_timer) 5 REL_SEC (Some (a_job 3 MED_PRIORITY)) SHORT_TERM =
          (0, Some 0, Some t') \<and> timer_inv t' \<and> map eventTime (q_items (eventQ t')) = [105]"
  using TimerThreadSchedule_correct [OF new_timer_inv, of 100 5 REL_SEC "a_job 3 MED_PRIORITY" SHORT_TERM]
  by (auto simp: CalculateEventTime_def insert_event_def new_event_def) (auto simp: new_timer_def q_empty_def)


section \<open>Removal\<close>

lemma find_event_None: "find_event i es = None \<longleftrightarrow> i \<notin> ev_id ` set es"
  by (induction es) auto

lemma find_event_Some:
  "find_event i es = Some k \<Longrightarrow> distinct (map ev_id es) \<Longrightarrow>
     k < List.length es \<and> ev_id (es ! k) = i \<and>
     take k es @ drop (Suc k) es = filter (\<lambda>e. ev_id e \<noteq> i) es"
proof (induction es arbitrary: k)
  case Nil
  then show ?case by simp
next
  case (Cons e es)
  show ?case
  proof (cases "ev_id e = i")
    case True
    then have "filter (\<lambda>e. ev_id e \<noteq> i) es = es" using Cons.prems(2)
      by (auto simp: filter_id_conv rev_image_eqI)
    then show ?thesis using Cons.prems True by auto
  next
    case False
    then show ?thesis using Cons by (auto split: if_splits)
  qed
qed

text \<open>
  \<open>TimerThreadRemove\<close> with the id of a waiting event returns 0 and that event's job, and the
  queue is the old one without it; with any other id it returns \<open>INVALID_EVENT_ID\<close> and nothing
  changes. The order and the uniqueness of ids are kept.
\<close>

theorem TimerThreadRemove_correct:
  assumes "timer_inv t"
  shows "if i \<in> ev_id ` set (q_items (eventQ t)) then
           \<exists>e t'. TimerThreadRemove (Some t) i = (0, Some (ev_job e), Some t') \<and>
             e \<in> set (q_items (eventQ t)) \<and> ev_id e = i \<and> timer_inv t' \<and>
             q_items (eventQ t') = filter (\<lambda>e. ev_id e \<noteq> i) (q_items (eventQ t))
         else TimerThreadRemove (Some t) i = (INVALID_EVENT_ID, None, Some t)"
proof (cases "find_event i (q_items (eventQ t))")
  case None
  then show ?thesis by (simp add: TimerThreadRemove_def find_event_None [symmetric])
next
  case (Some k)
  then have mem: "i \<in> ev_id ` set (q_items (eventQ t))" using find_event_None [of i "q_items (eventQ t)"] by simp
  from find_event_Some [OF Some] assms have
    f: "k < List.length (q_items (eventQ t))" "ev_id (q_items (eventQ t) ! k) = i"
    "take k (q_items (eventQ t)) @ drop (Suc k) (q_items (eventQ t)) =
       filter (\<lambda>e. ev_id e \<noteq> i) (q_items (eventQ t))" by (auto simp: timer_inv_def)
  let ?t' = "FreeTimerEvent (t\<lparr>eventQ := q_remove_at (eventQ t) k\<rparr>)"
  have q: "q_items (eventQ ?t') = filter (\<lambda>e. ev_id e \<noteq> i) (q_items (eventQ t))"
    using f(3) by (simp add: FreeTimerEvent_def q_remove_at_def)
  have "timer_inv ?t'"
    using assms sorted_filter [of eventTime "q_items (eventQ t)"] unfolding timer_inv_def q
    by (auto simp: by_time_def FreeTimerEvent_def distinct_map_filter)
  then show ?thesis
    using mem Some f(1,2) q by (intro iffD2 [OF if_bool_eq_conj] conjI impI)
      (auto simp: TimerThreadRemove_def intro!: exI [of _ "q_items (eventQ t) ! k"])
qed

definition one_event_timer :: TimerThread where
  "one_event_timer = new_timer\<lparr>lastEventId := 1, eventQ :=
     \<lparr>q_items = [\<lparr>ev_job = a_job 3 MED_PRIORITY, eventTime = 105, ev_persistent = SHORT_TERM, ev_id = 0\<rparr>],
      q_cached = 0\<rparr>\<rparr>"

lemma one_event_timer_inv: "timer_inv one_event_timer"
  by (simp add: one_event_timer_def timer_inv_def by_time_def)

theorem TimerThreadRemove_correct_witness:
  "\<exists>t'. TimerThreadRemove (Some one_event_timer) 0 = (0, Some (a_job 3 MED_PRIORITY), Some t') \<and>
     q_items (eventQ t') = []"
proof -
  have "q_items (eventQ one_event_timer) =
      [\<lparr>ev_job = a_job 3 MED_PRIORITY, eventTime = 105, ev_persistent = SHORT_TERM, ev_id = 0\<rparr>]"
    by (simp add: one_event_timer_def)
  with TimerThreadRemove_correct [OF one_event_timer_inv, of 0] show ?thesis by auto
qed


section \<open>Firing due events\<close>

definition submit :: "'p pool_add \<Rightarrow> TimerEvent list \<Rightarrow> 'p \<Rightarrow> 'p" where
  "submit add es p = foldl (\<lambda>p e. snd (add (ev_persistent e) (ev_job e) p)) p es"

lemma submit_simps [simp]:
  "submit add [] p = p"
  "submit add (e # es) p = submit add es (snd (add (ev_persistent e) (ev_job e) p))"
  by (simp_all add: submit_def)

lemma fire_pool: "fire add e t p = (t', p') \<Longrightarrow> p' = snd (add (ev_persistent e) (ev_job e) p)"
  by (auto simp: fire_def Let_def split: prod.splits)

lemma worker_spec:
  assumes "by_time (q_items (eventQ t))" and "\<not> tt_shutdown t"
    and "TimerThreadWorker add (\<lambda>_. now) n t p = (w, t', p')"
  shows "q_items (eventQ t') = filter (\<lambda>e. now < eventTime e) (q_items (eventQ t)) \<and>
         p' = submit add (filter (\<lambda>e. eventTime e \<le> now) (q_items (eventQ t))) p \<and>
         w = (case q_items (eventQ t') of [] \<Rightarrow> Signal | e # _ \<Rightarrow> Until (eventTime e)) \<and>
         lastEventId t' = lastEventId t \<and> \<not> tt_shutdown t'"
  using assms
proof (induction "List.length (q_items (eventQ t))" arbitrary: t p n)
  case 0
  then show ?case by (auto simp: TimerThreadWorker.simps [of add "\<lambda>_. now" n t p] TimerThreadWorker_round_def)
next
  case (Suc len)
  then obtain e es where q: "q_items (eventQ t) = e # es" by (cases "q_items (eventQ t)") auto
  show ?case
  proof (cases "eventTime e \<le> now")
    case True
    obtain t1 p1 where f: "fire add e t p = (t1, p1)" by (cases "fire add e t p")
    note F = fire_queue [OF f]
    have q1: "q_items (eventQ t1) = es" using F q by (simp add: q_pop_items)
    have "TimerThreadWorker add (\<lambda>_. now) (Suc n) t1 p1 = (w, t', p')"
      using Suc.prems True q f
      by (simp add: TimerThreadWorker.simps [of add "\<lambda>_. now" n t p] TimerThreadWorker_round_def)
    moreover have "by_time (q_items (eventQ t1))" "len = List.length (q_items (eventQ t1))"
      using Suc.prems Suc.hyps(2) q q1 by (auto simp: by_time_def)
    ultimately show ?thesis using Suc.hyps(1) [of t1 "Suc n" p1] F Suc.prems(2) q q1 True fire_pool [OF f]
      by auto
  next
    case False
    then have later: "\<forall>x \<in> set (e # es). now < eventTime x" using Suc.prems(1) q by (auto simp: by_time_def)
    then have "filter (\<lambda>e. now < eventTime e) (e # es) = e # es" "filter (\<lambda>e. eventTime e \<le> now) (e # es) = []"
      by (auto simp: filter_empty_conv)
    moreover have "w = Until (eventTime e)" "t' = t" "p' = p"
      using Suc.prems False q
      by (auto simp: TimerThreadWorker.simps [of add "\<lambda>_. now" n t p] TimerThreadWorker_round_def)
    ultimately show ?thesis using q Suc.prems(2) by simp
  qed
qed

text \<open>
  C10. The timer thread hands every due event, and no other, to the thread pool, in order of time,
  and then waits for the time of the next event, or for a signal when none is left. It always
  gets to that wait. (The clock is taken to stand still while the worker runs.)
\<close>

theorem TimerThreadWorker_fires_due:
  assumes "timer_inv t" and "\<not> tt_shutdown t"
    and "TimerThreadWorker add (\<lambda>_. now) n t p = (w, t', p')"
  shows "q_items (eventQ t') = filter (\<lambda>e. now < eventTime e) (q_items (eventQ t)) \<and>
         p' = submit add (filter (\<lambda>e. eventTime e \<le> now) (q_items (eventQ t))) p \<and>
         w = (case q_items (eventQ t') of [] \<Rightarrow> Signal | e # _ \<Rightarrow> Until (eventTime e)) \<and>
         timer_inv t'"
proof -
  have "by_time (q_items (eventQ t))" using assms(1) by (simp add: timer_inv_def)
  note W = worker_spec [OF this assms(2,3)]
  have "timer_inv t'" using assms(1) W sorted_filter [of eventTime "q_items (eventQ t)"]
    by (auto simp: timer_inv_def by_time_def distinct_map_filter)
  with W show ?thesis by simp
qed

theorem TimerThreadWorker_fires_due_witness:
  "\<exists>t'. TimerThreadWorker (\<lambda>d j p. (0, p @ [job_arg j])) (\<lambda>_. 105) 0 one_event_timer [] = (Signal, t', [3])"
proof -
  obtain w t' p' where r:
    "TimerThreadWorker (\<lambda>d j p. (0, p @ [job_arg j])) (\<lambda>_. 105) 0 one_event_timer [] = (w, t', p')"
    by (metis prod_cases3)
  have "\<not> tt_shutdown one_event_timer" by (simp add: one_event_timer_def new_timer_def)
  from TimerThreadWorker_fires_due [OF one_event_timer_inv this r] r show ?thesis
    by (auto simp: one_event_timer_def a_job_def)
qed

lemma drain_events_freed:
  "tt_freed (drain_events es t) = tt_freed t @ concat (map (\<lambda>e. free_call (ev_job e)) es) \<and>
   tt_shutdown (drain_events es t) = tt_shutdown t"
  by (induction es t rule: drain_events.induct) (auto simp: FreeTimerEvent_def free_call_def)

text \<open>
  \<open>TimerThreadShutdown\<close> calls the free function of every waiting event's job once, in order,
  leaves the queue and the caches empty and the shutdown flag set for the worker, whose next pass
  clears it and ends.
\<close>

theorem TimerThreadShutdown_drains:
  "\<exists>t'. TimerThreadShutdown (Some t) = (None, Some t') \<and> q_items (eventQ t') = [] \<and> freeEvents t' = 0 \<and>
        tt_freed t' = tt_freed t @ concat (map (\<lambda>e. free_call (ev_job e)) (q_items (eventQ t))) \<and>
        TimerThreadWorker add clk n t' p = (Ended, t'\<lparr>tt_shutdown := False\<rparr>, p)"
proof -
  let ?t' = "(drain_events (q_items (eventQ t)) (t\<lparr>tt_shutdown := True\<rparr>))
               \<lparr>eventQ := q_empty, freeEvents := 0\<rparr>"
  note D = drain_events_freed [of "q_items (eventQ t)" "t\<lparr>tt_shutdown := True\<rparr>"]
  have "TimerThreadWorker add clk n ?t' p = (Ended, ?t'\<lparr>tt_shutdown := False\<rparr>, p)"
    using D by (simp add: TimerThreadWorker.simps [of add clk n ?t' p] TimerThreadWorker_round_def)
  then show ?thesis using D by (simp add: TimerThreadShutdown_def Let_def q_empty_def)
qed


section \<open>The interface to the pool\<close>

text \<open>
  What the timer relies on when it hands a job over: a result of 0 means that the pool has taken
  the job, any other that it has not. The content of a pool is the multiset of what identifies
  a job to its user.
\<close>

definition payload :: "ThreadPoolJob \<Rightarrow> nat \<times> nat \<times> nat \<times> int" where
  "payload j = (job_func j, job_arg j, job_free_func j, job_priority j)"

definition rejected_call :: "TimerEvent \<Rightarrow> (nat \<times> nat) list" where
  "rejected_call e =
     (if job_arg (ev_job e) \<noteq> NULL \<and> job_free_func (ev_job e) \<noteq> NULL
      then [(job_free_func (ev_job e), job_arg (ev_job e))] else [])"

locale job_pool =
  fixes add :: "'p pool_add" and content :: "'p \<Rightarrow> (nat \<times> nat \<times> nat \<times> int) multiset"
  assumes add_taken: "add SHORT_TERM j p = (rc, p') \<Longrightarrow>
                        content p' = content p + (if rc = 0 then {#payload j#} else {#})"
begin

lemma worker_hands_over:
  assumes "\<forall>e \<in> set (q_items (eventQ t)). ev_persistent e = SHORT_TERM" and "\<not> tt_shutdown t"
    and "TimerThreadWorker add clk n t p = (w, t', p')"
  shows "\<exists>taken rejected. mset (q_items (eventQ t)) = mset taken + mset rejected + mset (q_items (eventQ t')) \<and>
           content p' = content p + mset (map (payload \<circ> ev_job) taken) \<and>
           tt_freed t' = tt_freed t @ concat (map rejected_call rejected)"
  using assms
proof (induction "List.length (q_items (eventQ t))" arbitrary: t p n)
  case 0
  then have "t' = t" "p' = p"
    by (auto simp: TimerThreadWorker.simps [of add clk n t p] TimerThreadWorker_round_def)
  then show ?case by (intro exI [of _ "[]"]) simp
next
  case (Suc len)
  then obtain e es where q: "q_items (eventQ t) = e # es" by (cases "q_items (eventQ t)") auto
  show ?case
  proof (cases "eventTime e \<le> clk n")
    case False
    then have "t' = t" "p' = p" using Suc.prems q
      by (auto simp: TimerThreadWorker.simps [of add clk n t p] TimerThreadWorker_round_def)
    then show ?thesis by (intro exI [of _ "[]"]) simp
  next
    case True
    obtain t1 p1 where f: "fire add e t p = (t1, p1)" by (cases "fire add e t p")
    obtain rc where rc: "add (ev_persistent e) (ev_job e) p = (rc, p1)"
      using f by (auto simp: fire_def Let_def split: prod.splits)
    note F = fire_queue [OF f]
    have q1: "q_items (eventQ t1) = es" using F q by (simp add: q_pop_items)
    have freed: "tt_freed t1 = tt_freed t @ (if rc = 0 then [] else rejected_call e)"
      using f rc by (auto simp: fire_def Let_def rejected_call_def FreeTimerEvent_def split: if_splits)
    have cont: "content p1 = content p + (if rc = 0 then {#payload (ev_job e)#} else {#})"
      using add_taken rc Suc.prems(1) q by auto
    have run: "TimerThreadWorker add clk (Suc n) t1 p1 = (w, t', p')"
      using Suc.prems True q f
      by (simp add: TimerThreadWorker.simps [of add clk n t p] TimerThreadWorker_round_def)
    have "len = List.length (q_items (eventQ t1))" using Suc.hyps(2) q q1 by simp
    from Suc.hyps(1) [OF this _ _ run] Suc.prems q q1 F obtain taken rejected where
      IH: "mset es = mset taken + mset rejected + mset (q_items (eventQ t'))"
        "content p' = content p1 + mset (map (payload \<circ> ev_job) taken)"
        "tt_freed t' = tt_freed t1 @ concat (map rejected_call rejected)" by auto
    show ?thesis
    proof (cases "rc = 0")
      case True
      then show ?thesis using IH freed cont q
        by (intro exI [of _ "e # taken"] exI [of _ rejected]) simp
    next
      case False
      then show ?thesis using IH freed cont q
        by (intro exI [of _ taken] exI [of _ "e # rejected"]) simp
    qed
  qed
qed

end

text \<open>
  \<open>ThreadPoolAdd\<close> provides it. The result of a call that blocks in \<open>CreateWorker\<close> is decided when
  it blocks: it is the \<open>rc\<close> that \<open>AddWorker\<close>'s caller carries on.
\<close>

definition call_rc :: "client \<Rightarrow> int" where
  "call_rc c =
     (case c of
        C_Done r _ \<Rightarrow> r
      | C_Before (K_Add _ rc _ _) \<Rightarrow> rc
      | C_After _ (K_Add _ rc _ _) \<Rightarrow> rc
      | _ \<Rightarrow> 0)"

definition pool_add_job :: "clock \<Rightarrow> spawn_env \<Rightarrow> ThreadPool pool_add" where
  "pool_add_job clk se d j tp =
     (case (case d of SHORT_TERM \<Rightarrow> ThreadPoolAdd clk se (Some j) tp
                    | PERSISTENT \<Rightarrow> ThreadPoolAddPersistent clk se (Some j) tp) of
        ((c, tp'), _) \<Rightarrow> (call_rc c, tp'))"

definition pool_content :: "ThreadPool \<Rightarrow> (nat \<times> nat \<times> nat \<times> int) multiset" where
  "pool_content tp = image_mset payload (mset (jobs_of tp))"

lemma AddWorker_content:
  assumes "AddWorker clk se temp rc jobs threads tp = ((c, tp'), b)"
  shows "jobs_of tp' = jobs_of tp \<and> call_rc c = rc"
proof -
  have fin: "jobs_of (snd (finish_add temp rc t)) = jobs_of t \<and> call_rc (fst (finish_add temp rc t)) = rc"
    for t by (simp add: finish_add_def FreeThreadPoolJob_def jobs_of_def call_rc_def Let_def)
  have nm: "jobs_of (note_max t) = jobs_of t" for t by (simp add: note_max_def jobs_of_def)
  have pend: "jobs_of (t\<lparr>pendingWorkerThreadStart := x\<rparr>) = jobs_of t" for t x by (simp add: jobs_of_def)
  show ?thesis
    using assms fin [of tp] fin [of "note_max tp"] nm [of tp] pend [of _ tp]
    by (auto simp: AddWorker_def CreateWorker_def CreateWorker_create_def cont_fail_def call_rc_def
        split: if_splits)
qed

lemma ThreadPoolAdd_content:
  assumes "pool_add_job clk se SHORT_TERM j tp = (rc, tp')"
  shows "pool_content tp' = pool_content tp + (if rc = 0 then {#payload j#} else {#})"
proof -
  obtain c b where add: "ThreadPoolAdd clk se (Some j) tp = ((c, tp'), b)" and rc: "rc = call_rc c"
    using assms by (auto simp: pool_add_job_def split: prod.splits)
  have nz: "EOUTOFMEM \<noteq> 0" by code_simp
  show ?thesis
  proof (cases "queued_jobs tp \<ge> maxJobsTotal (tp_attr tp)")
    case True
    then show ?thesis using add rc nz by (auto simp: ThreadPoolAdd_def call_rc_def)
  next
    case False
    obtain r tp1 where cr: "CreateThreadPoolJob (clk 1) j (lastJobId tp) tp = (r, tp1)"
      by (cases "CreateThreadPoolJob (clk 1) j (lastJobId tp) tp")
    then have C: "jobs_of tp1 = jobs_of tp" "\<And>temp. r = Some temp \<Longrightarrow> payload temp = payload j"
      by (auto simp: CreateThreadPoolJob_def jobs_of_def payload_def split: prod.splits if_splits)
    show ?thesis
    proof (cases r)
      case None
      then show ?thesis using add rc nz False cr C by (auto simp: ThreadPoolAdd_def call_rc_def pool_content_def)
    next
      case (Some temp)
      obtain ok tp2 where en: "enqueue_job temp tp1 = (ok, tp2)" by (cases "enqueue_job temp tp1")
      then have E: "mset (jobs_of tp2) = mset (jobs_of tp1) + (if ok then {#temp#} else {#})"
        by (auto simp: enqueue_job_def jobs_of_def split: prod.splits if_splits dest!: q_add_tail_items)
      from add False cr Some en have "AddWorker clk se temp (if ok then 0 else EOUTOFMEM) (queued_jobs tp2)
                        (totalThreads tp2 - persistentThreads tp2) tp2 = ((c, tp'), b)"
        by (simp add: ThreadPoolAdd_def)
      from AddWorker_content [OF this] E C Some rc nz show ?thesis by (auto simp: pool_content_def)
    qed
  qed
qed

interpretation tp: job_pool "pool_add_job clk se" pool_content for clk se
  by unfold_locales (rule ThreadPoolAdd_content)

text \<open>
  C11. No timed job is dropped or run twice on its way from the timer to the pool, for any clock:
  when the timer thread blocks again, every short-term event that was waiting is still waiting,
  or its job is now in the thread pool, once, or the pool refused it and its free function (if it
  has one and a non-NULL argument) was called once.
\<close>

theorem timer_hands_over_to_pool:
  assumes "\<forall>e \<in> set (q_items (eventQ t)). ev_persistent e = SHORT_TERM" and "\<not> tt_shutdown t"
    and "TimerThreadWorker (pool_add_job pclk se) clk n t tp = (w, t', tp')"
  shows "\<exists>taken rejected. mset (q_items (eventQ t)) = mset taken + mset rejected + mset (q_items (eventQ t')) \<and>
           pool_content tp' = pool_content tp + mset (map (payload \<circ> ev_job) taken) \<and>
           tt_freed t' = tt_freed t @ concat (map rejected_call rejected)"
  by (rule tp.worker_hands_over [OF assms])

theorem timer_hands_over_to_pool_witness:
  "\<exists>w t' tp' taken rejected.
     TimerThreadWorker (pool_add_job zero_clock os_ok) (\<lambda>_. 105) 0 one_event_timer (raw_pool []) = (w, t', tp') \<and>
     mset (q_items (eventQ one_event_timer)) = mset taken + mset rejected + mset (q_items (eventQ t')) \<and>
     pool_content tp' = pool_content (raw_pool []) + mset (map (payload \<circ> ev_job) taken)"
proof -
  obtain w t' tp' where r:
    "TimerThreadWorker (pool_add_job zero_clock os_ok) (\<lambda>_. 105) 0 one_event_timer (raw_pool []) = (w, t', tp')"
    by (metis prod_cases3)
  have pre: "\<forall>e \<in> set (q_items (eventQ one_event_timer)). ev_persistent e = SHORT_TERM"
    "\<not> tt_shutdown one_event_timer"
    by (simp_all add: one_event_timer_def new_timer_def)
  from timer_hands_over_to_pool [OF pre r] obtain taken rejected where
    "mset (q_items (eventQ one_event_timer)) = mset taken + mset rejected + mset (q_items (eventQ t'))"
    "pool_content tp' = pool_content (raw_pool []) + mset (map (payload \<circ> ev_job) taken)" by blast
  with r show ?thesis by blast
qed

end
