(* ===== verification/Uri.thy ===== *)
theory Uri
  imports MemBuffer
begin

text \<open>
  \<open>upnp/src/genlib/net/uri/uri.c\<close>: parsing of URIs, percent-decoding, removal of dot segments,
  and the resolution of relative URLs.

  The input \<open>in\<close> of the parsers is the list of bytes from the pointer to the terminator of its
  block; a token is an offset into it and a size (\<open>tk_buff = None\<close> is NULL). A read after the
  terminator is \<open>None\<close>. \<open>getaddrinfo\<close> and \<open>inet_pton\<close> are parameters (\<open>net_env\<close>), as is the
  interface index. The functions that work in place are modelled on the block they modify, with
  the pointers as indices.
\<close>

section \<open>Data\<close>

abbreviation (input) HTTP_SUCCESS :: int where "HTTP_SUCCESS \<equiv> 1"
abbreviation (input) UPNP_E_SUCCESS :: int where "UPNP_E_SUCCESS \<equiv> 0"
abbreviation (input) AF_UNSPEC :: int where "AF_UNSPEC \<equiv> 0"
abbreviation (input) AF_INET :: int where "AF_INET \<equiv> 2"
abbreviation (input) AF_INET6 :: int where "AF_INET6 \<equiv> 10"

definition MARK :: string where "MARK = ''-_.!~*'' @ [CHR 0x27] @ ''()''"

definition RESERVED :: string where "RESERVED = '';/?:@&=+$,{}''"

datatype uriType = ABSOLUTE | RELATIVE

datatype pathType = ABS_PATH | REL_PATH | OPAQUE_PART

record token =
  tk_buff :: "nat option"
  tk_size :: nat

record hostport_type =
  hp_text :: token
  hp_family :: int
  hp_addr :: string
  hp_port :: nat
  hp_scope :: nat

record uri_type =
  u_type :: uriType
  u_scheme :: token
  u_path_type :: pathType
  u_pathquery :: token
  u_fragment :: token
  u_hostport :: hostport_type

record net_env =
  getaddrinfo :: "string \<Rightarrow> (int \<times> string) list option"
  inet_pton :: "int \<Rightarrow> string \<Rightarrow> string option"
  gIF_INDEX :: nat

abbreviation null_token :: token where
  "null_token \<equiv> \<lparr>tk_buff = None, tk_size = 0\<rparr>"

definition null_hostport :: hostport_type where
  "null_hostport = \<lparr>hp_text = null_token, hp_family = AF_UNSPEC, hp_addr = [], hp_port = 0, hp_scope = 0\<rparr>"


section \<open>Character classes\<close>

definition is_reserved :: "char \<Rightarrow> bool" where
  "is_reserved c = strchr_found RESERVED c"

definition is_mark :: "char \<Rightarrow> bool" where
  "is_mark c = strchr_found MARK c"

definition is_unreserved :: "char \<Rightarrow> bool" where
  "is_unreserved c \<longleftrightarrow> isalnum c \<or> is_mark c"

definition is_escaped :: "string \<Rightarrow> bool" where
  "is_escaped s \<longleftrightarrow> cchar_at s 0 = CHR ''%'' \<and> isxdigit (cchar_at s 1) \<and> isxdigit (cchar_at s 2)"


section \<open>Parsing\<close>

text \<open>
  The \<open>while\<close> loop of \<open>parse_uric\<close> on the bytes from the current position, with the number of
  characters left. The terminator counts as unreserved, so with room left the loop reads on.
\<close>

fun uric_loop :: "string \<Rightarrow> nat \<Rightarrow> nat option" where
  "uric_loop s 0 = Some 0"
| "uric_loop [] (Suc n) = (if n = 0 then Some 1 else None)"
| "uric_loop (c # cs) (Suc n) =
     (if is_unreserved c \<or> is_reserved c \<or> (2 \<le> n \<and> is_escaped (c # cs))
      then map_option Suc (uric_loop cs n) else Some 0)"

definition parse_uric :: "string \<Rightarrow> nat \<Rightarrow> nat \<Rightarrow> token option" where
  "parse_uric s off mx =
     map_option (\<lambda>i. \<lparr>tk_buff = Some off, tk_size = i\<rparr>) (uric_loop (drop off s) mx)"

fun scheme_loop :: "string \<Rightarrow> nat \<Rightarrow> nat \<Rightarrow> nat option" where
  "scheme_loop s 0 i = None"
| "scheme_loop [] (Suc r) i = None"
| "scheme_loop (c # cs) (Suc r) i =
     (if c = CHR '':'' then Some i
      else if isalnum c \<or> c = CHR ''+'' \<or> c = CHR ''-'' \<or> c = CHR ''.'' then scheme_loop cs r (Suc i)
      else None)"

definition parse_scheme :: "string \<Rightarrow> nat \<Rightarrow> nat \<times> token" where
  "parse_scheme s mx =
     (if mx = 0 \<or> \<not> isalpha (cchar_at s 0) then (0, null_token)
      else case scheme_loop (tl s) (mx - 1) 1 of
             None \<Rightarrow> (0, null_token)
           | Some i \<Rightarrow> (i, \<lparr>tk_buff = Some 0, tk_size = i\<rparr>))"

text \<open>\<open>atoi\<close> as \<open>strtol\<close> followed by the conversion to a 16-bit port.\<close>

definition digits_value :: "string \<Rightarrow> nat" where
  "digits_value ds = foldl (\<lambda>v c. 10 * v + (code c - 48)) 0 ds"

definition LONG_MAX :: int where "LONG_MAX = 2 ^ 63 - 1"

definition strtol10 :: "string \<Rightarrow> int" where
  "strtol10 s0 =
     (let s = dropWhile isspace s0;
          neg = (cchar_at s 0 = CHR ''-'');
          s1 = (if cchar_at s 0 = CHR ''-'' \<or> cchar_at s 0 = CHR ''+'' then tl s else s);
          v = int (digits_value (takeWhile isdigit s1))
      in if neg then max (- LONG_MAX - 1) (- v) else min LONG_MAX v)"

definition atoi :: "string \<Rightarrow> int" where
  "atoi s = c_int (strtol10 s)"

definition port_of :: "string \<Rightarrow> nat" where
  "port_of s = nat (atoi s mod 2 ^ 16)"

text \<open>
  The loop over the results of \<open>getaddrinfo\<close>: the first IPv4 or IPv6 address, and the results
  after it, where \<open>res\<close> points when the loop ends (the step \<open>res = res->ai_next\<close> is taken before
  \<open>!ret\<close> is tested).
\<close>

fun addrinfo_loop :: "(int \<times> string) list \<Rightarrow> (int \<times> string) option \<times> (int \<times> string) list" where
  "addrinfo_loop [] = (None, [])"
| "addrinfo_loop ((f, a) # res) =
     (if f = AF_INET \<or> f = AF_INET6 then (Some (f, a), res) else addrinfo_loop res)"

definition host_char :: "char \<Rightarrow> bool" where
  "host_char c \<longleftrightarrow> c \<noteq> CHR '':'' \<and> c \<noteq> CHR ''/'' \<and> (isalnum c \<or> c = CHR ''.'' \<or> c = CHR ''-'')"

text \<open>The character after the last dot of a name, when there is one.\<close>

definition after_last_dot :: "string \<Rightarrow> char option" where
  "after_last_dot name =
     (if CHR ''.'' \<in> set name
      then Some (cchar_at (rev (takeWhile (\<lambda>c. c \<noteq> CHR ''.'') (rev name))) 0) else None)"

text \<open>
  What \<open>parse_hostport\<close> finds before the port: the address family, the name (\<open>srvname\<close>), the
  address taken from \<open>getaddrinfo\<close>, whether a port follows, and the rest of the work buffer.
\<close>

definition parse_host ::
  "net_env \<Rightarrow> string \<Rightarrow> (int \<times> string \<times> (int \<times> string) option \<times> bool \<times> string) option" where
  "parse_host env w =
     (if cchar_at w 0 = CHR ''['' then
        (let name = takeWhile (\<lambda>c. c \<noteq> CHR '']'') (tl w);
             rest = dropWhile (\<lambda>c. c \<noteq> CHR '']'') (tl w)
         in if rest = [] then None
            else if cchar_at rest 1 = CHR '':'' then Some (AF_INET6, name, None, True, drop 2 rest)
            else Some (AF_INET6, name, None, False, tl rest))
      else
        (let name = takeWhile host_char w;
             rest = dropWhile host_char w;
             has_port = (cchar_at rest 0 = CHR '':'');
             rest1 = (if has_port then tl rest else rest)
         in case after_last_dot name of
              Some d \<Rightarrow>
                if isdigit d then Some (AF_INET, name, None, has_port, rest1)
                else (case getaddrinfo env name of
                        None \<Rightarrow> None
                      | Some rs \<Rightarrow>
                          (case addrinfo_loop rs of
                             (a, res) \<Rightarrow> if res = [] then None else Some (AF_UNSPEC, name, a, has_port, rest1)))
            | None \<Rightarrow>
                (case getaddrinfo env name of
                   None \<Rightarrow> None
                 | Some rs \<Rightarrow>
                     (case addrinfo_loop rs of
                        (a, res) \<Rightarrow> if res = [] then None else Some (AF_UNSPEC, name, a, has_port, rest1)))))"

definition parse_hostport :: "net_env \<Rightarrow> string \<Rightarrow> nat \<Rightarrow> int + (nat \<times> hostport_type)" where
  "parse_hostport env s off =
     (let w = cstr (take 255 (drop off s))
      in case parse_host env w of
           None \<Rightarrow> Inl UPNP_E_INVALID_URL
         | Some (af, name, a, has_port, rest) \<Rightarrow>
             (let rest1 = (if has_port then dropWhile isdigit rest else rest);
                  port = (if has_port then port_of rest else 80);
                  size = List.length w - List.length rest1;
                  text = \<lparr>tk_buff = Some off, tk_size = size\<rparr>
              in if has_port \<and> port = 0 then Inl UPNP_E_INVALID_URL
                 else if af = AF_UNSPEC then
                   Inr (size, \<lparr>hp_text = text, hp_family = fst (the a), hp_addr = snd (the a),
                               hp_port = port, hp_scope = 0\<rparr>)
                 else case inet_pton env af name of
                        None \<Rightarrow> Inl UPNP_E_INVALID_URL
                      | Some addr \<Rightarrow>
                          Inr (size, \<lparr>hp_text = text, hp_family = af, hp_addr = addr, hp_port = port,
                                      hp_scope = (if af = AF_INET6 then gIF_INDEX env else 0)\<rparr>)))"

definition read_at :: "string \<Rightarrow> nat \<Rightarrow> char option" where
  "read_at s i = (if i \<le> List.length s then Some (cchar_at s i) else None)"

definition parse_uri_rest :: "string \<Rightarrow> nat \<Rightarrow> uri_type \<Rightarrow> nat \<Rightarrow> uri_type option" where
  "parse_uri_rest s mx u begin_path =
     Option.bind (parse_uric s begin_path (size_sub mx begin_path)) (\<lambda>pq.
     let u1 = u\<lparr>u_pathquery := pq\<rparr>;
         u2 = (if tk_size pq \<noteq> 0 \<and> cchar_at s begin_path = CHR ''/'' then u1\<lparr>u_path_type := ABS_PATH\<rparr>
               else u1);
         begin_fragment = tk_size pq + begin_path
     in if begin_fragment < mx \<and> cchar_at s begin_fragment = CHR ''#'' then
          map_option (\<lambda>fr. u2\<lparr>u_fragment := fr\<rparr>)
            (parse_uric s (begin_fragment + 1) (size_sub mx (begin_fragment + 1)))
        else Some (u2\<lparr>u_fragment := null_token\<rparr>))"

definition parse_uri :: "net_env \<Rightarrow> string \<Rightarrow> nat \<Rightarrow> (int + uri_type) option" where
  "parse_uri env s mx =
     (case parse_scheme s mx of
        (n, scheme) \<Rightarrow>
          (let u = \<lparr>u_type = (if n \<noteq> 0 then ABSOLUTE else RELATIVE), u_scheme = scheme,
                    u_path_type = (if n \<noteq> 0 then OPAQUE_PART else REL_PATH),
                    u_pathquery = null_token, u_fragment = null_token, u_hostport = null_hostport\<rparr>;
               begin_hostport = (if n \<noteq> 0 then n + 1 else 0)
           in if begin_hostport + 1 < mx \<and> cchar_at s begin_hostport = CHR ''/'' \<and>
                 cchar_at s (begin_hostport + 1) = CHR ''/''
              then case parse_hostport env s (begin_hostport + 2) of
                     Inl e \<Rightarrow> Some (Inl e)
                   | Inr (k, hp) \<Rightarrow>
                       map_option Inr (parse_uri_rest s mx (u\<lparr>u_hostport := hp\<rparr>) (begin_hostport + 2 + k))
              else map_option Inr (parse_uri_rest s mx u begin_hostport)))"


section \<open>Percent-decoding in place\<close>

definition hex_value :: "char \<Rightarrow> nat" where
  "hex_value c =
     (if isdigit c then code c - 48 else if isupper c then code c - 55 else code c - 87)"

text \<open>The \<open>for\<close> loop of \<open>replace_escaped\<close>: \<open>t\<close> is \<open>tempChar\<close>; \<open>i\<close> is always \<open>j + 3\<close>.\<close>

function shift_loop :: "string \<Rightarrow> nat \<Rightarrow> nat \<Rightarrow> char \<Rightarrow> string" where
  "shift_loop b j mx t =
     (if j < mx then shift_loop (b[j := t]) (Suc j) mx (if j + 3 < mx then b ! (j + 3) else NUL)
      else b)"
  by pat_completeness auto
termination by (relation "measure (\<lambda>(b, j, mx, t). mx - j)") auto

declare shift_loop.simps [simp del]

definition replace_escaped :: "string \<Rightarrow> nat \<Rightarrow> nat \<Rightarrow> (int \<times> string \<times> nat) option" where
  "replace_escaped b index mx =
     (if List.length b \<le> index then None
      else if b ! index \<noteq> CHR ''%'' then Some (0, b, mx)
      else if List.length b \<le> index + 1 then None
      else if \<not> isxdigit (b ! (index + 1)) then Some (0, b, mx)
      else if List.length b \<le> index + 2 then None
      else if \<not> isxdigit (b ! (index + 2)) then Some (0, b, mx)
      else if List.length b < mx then None
      else
        (let tempChar = char_of (16 * hex_value (b ! (index + 1)) + hex_value (b ! (index + 2)))
         in Some (1, shift_loop b index mx tempChar, size_sub mx 2)))"

lemma length_shift_loop [simp]: "List.length (shift_loop b j mx t) = List.length b"
  by (induction b j mx t rule: shift_loop.induct) (subst shift_loop.simps, simp)

lemma length_replace_escaped: "replace_escaped b i mx = Some (r, b', mx') \<Longrightarrow> List.length b' = List.length b"
  by (auto simp: replace_escaped_def Let_def split: if_splits)

function escaped_loop :: "string \<Rightarrow> nat \<Rightarrow> nat \<Rightarrow> (string \<times> nat) option" where
  "escaped_loop b i sz =
     (if i < sz then
        (case replace_escaped b i sz of
           None \<Rightarrow> None
         | Some (r, b', sz') \<Rightarrow> escaped_loop b' (Suc i) sz')
      else Some (b, sz))"
  by pat_completeness auto
termination
  by (relation "measure (\<lambda>(b, i, sz). List.length b - i)")
    (auto dest!: length_replace_escaped sym [of "Some _"] simp: replace_escaped_def split: if_splits)

declare escaped_loop.simps [simp del]

definition remove_escaped_chars :: "string \<Rightarrow> nat \<Rightarrow> (int \<times> string \<times> nat) option" where
  "remove_escaped_chars b sz = map_option (\<lambda>(b', n). (UPNP_E_SUCCESS, b', n)) (escaped_loop b 0 sz)"

text \<open>What decoding means.\<close>

fun percent_decode :: "string \<Rightarrow> string" where
  "percent_decode (a # x # y # r) =
     (if a = CHR ''%'' \<and> isxdigit x \<and> isxdigit y
      then char_of (16 * hex_value x + hex_value y) # percent_decode r
      else a # percent_decode (x # y # r))"
| "percent_decode s = s"


section \<open>Dot segments\<close>

text \<open>
  The main loop of \<open>remove_dots\<close> on the block \<open>b\<close>: \<open>cf\<close> and \<open>ct\<close> are \<open>copyFrom\<close> and \<open>copyTo\<close>,
  \<open>segs\<close> the entries \<open>Segments[0..lastSegment]\<close>. The result is the error, or the block and the two
  pointers where the loop ends. A push beyond the \<open>sz\<close> entries of \<open>Segments\<close> is undefined.
\<close>

function dots_loop ::
  "string \<Rightarrow> nat \<Rightarrow> nat \<Rightarrow> nat \<Rightarrow> nat list \<Rightarrow> (int + (string \<times> nat \<times> nat)) option" where
  "dots_loop b sz cf ct segs =
     (if cf < sz \<and> b ! cf \<noteq> CHR ''?'' \<and> b ! cf \<noteq> CHR ''#'' then
        (if b ! cf = CHR ''.'' \<and> (cf = 0 \<or> b ! (cf - 1) = CHR ''/'') \<and>
            (cf + 1 = sz \<or> b ! (cf + 1) = CHR ''/'')
         then dots_loop b sz (cf + 2) ct segs
         else if b ! cf = CHR ''.'' \<and> (cf = 0 \<or> b ! (cf - 1) = CHR ''/'') \<and>
            b ! (cf + 1) = CHR ''.'' \<and> (cf + 2 = sz \<or> b ! (cf + 2) = CHR ''/'')
         then (if List.length segs > 1
               then dots_loop b sz (cf + 3) (last (butlast segs)) (butlast segs)
               else Some (Inl UPNP_E_INVALID_URL))
         else if b ! cf = CHR ''/'' \<and> sz \<le> List.length segs then None
         else dots_loop (b[ct := b ! cf]) sz (cf + 1) (ct + 1)
                (if b ! cf = CHR ''/'' then segs @ [ct + 1] else segs))
      else Some (Inr (b, cf, ct)))"
  by pat_completeness auto
termination by (relation "measure (\<lambda>(b, sz, cf, ct, segs). sz - cf)") auto

declare dots_loop.simps [simp del]

text \<open>The copy of a query or fragment after the loop.\<close>

function tail_loop :: "string \<Rightarrow> nat \<Rightarrow> nat \<Rightarrow> nat \<Rightarrow> string \<times> nat" where
  "tail_loop b sz cf ct =
     (if cf < sz then tail_loop (b[ct := b ! cf]) sz (Suc cf) (Suc ct) else (b, ct))"
  by pat_completeness auto
termination by (relation "measure (\<lambda>(b, sz, cf, ct). sz - cf)") auto

declare tail_loop.simps [simp del]

definition remove_dots :: "alloc_env \<Rightarrow> string \<Rightarrow> nat \<Rightarrow> (int \<times> alloc_env \<times> string) option" where
  "remove_dots e b sz =
     (case malloc_ok e ((8 * sz) mod 2 ^ 64) of
        (False, e') \<Rightarrow> Some (UPNP_E_OUTOF_MEMORY, e', b)
      | (True, e') \<Rightarrow>
          if sz = 0 \<or> List.length b \<le> sz then None
          else
            (case dots_loop b sz 0 0 [] of
               None \<Rightarrow> None
             | Some (Inl err) \<Rightarrow> Some (err, e', b)
             | Some (Inr (b1, cf, ct)) \<Rightarrow>
                 (case tail_loop b1 sz cf ct of
                    (b2, ct2) \<Rightarrow> Some (UPNP_E_SUCCESS, e', b2[ct2 := NUL]))))"


section \<open>Relative URLs\<close>

definition token_bytes :: "string \<Rightarrow> token \<Rightarrow> string" where
  "token_bytes s t = (case tk_buff t of None \<Rightarrow> [] | Some off \<Rightarrow> take (tk_size t) (drop off s))"

definition after_last_slash :: "string \<Rightarrow> nat" where
  "after_last_slash p = List.length p - List.length (takeWhile (\<lambda>c. c \<noteq> CHR ''/'') (rev p))"

text \<open>
  The innermost branch of \<open>resolve_rel_url\<close>: \<open>finger\<close> is \<open>out_finger\<close>, \<open>pq\<close> the path and query of
  the base. The path up to a query is copied, the relative URL over what follows its last slash,
  then the dot segments are removed.
\<close>

definition merge_path ::
  "alloc_env \<Rightarrow> string \<Rightarrow> nat \<Rightarrow> string \<Rightarrow> string \<Rightarrow> (string option \<times> alloc_env) option" where
  "merge_path e out finger pq rel_url =
     (let p = takeWhile (\<lambda>c. c \<noteq> CHR ''?'') pq;
          last_slash = (if CHR ''/'' \<in> set p then finger + after_last_slash p else finger)
      in Option.bind (block_write out finger p) (\<lambda>out1.
         Option.bind (block_write out1 last_slash rel_url) (\<lambda>out2.
         case remove_dots e (drop finger out2) (List.length (cstr (drop finger out2))) of
           None \<Rightarrow> None
         | Some (rc, e', b) \<Rightarrow>
             if rc \<noteq> UPNP_E_SUCCESS then Some (None, e')
             else Some (Some (cstr (take finger out2 @ b)), e'))))"

definition resolve_rel_url ::
  "net_env \<Rightarrow> alloc_env \<Rightarrow> string option \<Rightarrow> string option \<Rightarrow> (string option \<times> alloc_env) option" where
  "resolve_rel_url env e base_url rel =
     (case (base_url, rel) of
        (_, None) \<Rightarrow> Some (None, e)
      | (None, Some r) \<Rightarrow>
          (case malloc_ok e (List.length r + 1) of (ok, e') \<Rightarrow> Some (if ok then Some r else None, e'))
      | (Some bs, Some r) \<Rightarrow>
          (case malloc_ok e (List.length bs + List.length r + 2) of
             (False, e1) \<Rightarrow> Some (None, e1)
           | (True, e1) \<Rightarrow>
               (let out = replicate (List.length bs + List.length r + 2) NUL
                in case parse_uri env r (List.length r) of
                     None \<Rightarrow> None
                   | Some (Inl _) \<Rightarrow> Some (None, e1)
                   | Some (Inr ru) \<Rightarrow>
                       if u_type ru = ABSOLUTE then
                         map_option (\<lambda>o1. (Some (cstr o1), e1)) (block_write out 0 r)
                       else
                         (case parse_uri env bs (List.length bs) of
                            None \<Rightarrow> None
                          | Some (Inl _) \<Rightarrow> Some (None, e1)
                          | Some (Inr bu) \<Rightarrow>
                              if u_type bu \<noteq> ABSOLUTE then Some (None, e1)
                              else if r = [] then
                                map_option (\<lambda>o1. (Some (cstr o1), e1)) (block_write out 0 bs)
                              else
                                (let head = token_bytes bs (u_scheme bu) @ '':''
                                 in if tk_size (hp_text (u_hostport ru)) > 0 then
                                      map_option (\<lambda>o1. (Some (cstr o1), e1))
                                        (block_write out 0 (head @ r @ [NUL]))
                                    else
                                      (let hp = u_hostport bu;
                                           head2 = head @ (if tk_size (hp_text hp) > 0
                                                           then ''//'' @ token_bytes bs (hp_text hp) else [])
                                       in Option.bind (block_write out 0 head2) (\<lambda>o1.
                                          if u_path_type ru = ABS_PATH then
                                            map_option (\<lambda>o2. (Some (cstr o2), e1))
                                              (block_write o1 (List.length head2) r)
                                          else
                                            merge_path e1 o1 (List.length head2)
                                              (if tk_size (u_pathquery bu) = 0 then ''/''
                                               else token_bytes bs (u_pathquery bu)) r)))))))"


section \<open>Token comparison and URL lists\<close>

definition token_string_casecmp :: "string \<Rightarrow> token \<Rightarrow> string \<Rightarrow> int" where
  "token_string_casecmp s in1 in2 =
     (if tk_size in1 \<noteq> List.length in2 then 1 else strncasecmp (token_bytes s in1) in2 (tk_size in1))"

definition token_string_cmp :: "string \<Rightarrow> token \<Rightarrow> string \<Rightarrow> int" where
  "token_string_cmp s in1 in2 =
     (if tk_size in1 \<noteq> List.length in2 then 1 else strncmp (token_bytes s in1) in2 (tk_size in1))"

text \<open>\<open>memcmp\<close> compares all bytes, terminators included.\<close>

fun memcmp :: "string \<Rightarrow> string \<Rightarrow> int" where
  "memcmp (x # xs) (y # ys) = (if x \<noteq> y then int (code x) - int (code y) else memcmp xs ys)"
| "memcmp _ _ = 0"

definition token_cmp :: "string \<Rightarrow> token \<Rightarrow> string \<Rightarrow> token \<Rightarrow> int" where
  "token_cmp s1 in1 s2 in2 =
     (if tk_size in1 \<noteq> tk_size in2 then 1 else memcmp (token_bytes s1 in1) (token_bytes s2 in2))"

definition parse_uri_and_unescape :: "net_env \<Rightarrow> string \<Rightarrow> nat \<Rightarrow> (int \<times> string \<times> uri_type option) option" where
  "parse_uri_and_unescape env s mx =
     (case parse_uri env s mx of
        None \<Rightarrow> None
      | Some (Inl e) \<Rightarrow> Some (e, s, None)
      | Some (Inr u) \<Rightarrow>
          (let unescape = (\<lambda>(b, t). if tk_size t > 0 then
                 (case tk_buff t of
                    None \<Rightarrow> None
                  | Some off \<Rightarrow>
                      map_option (\<lambda>(rc, b', n). (take off b @ b', t\<lparr>tk_size := n\<rparr>))
                        (remove_escaped_chars (drop off b) (tk_size t)))
                 else Some (b, t))
           in Option.bind (unescape (s @ [NUL], u_pathquery u)) (\<lambda>(b1, pq).
              Option.bind (unescape (b1, u_fragment u)) (\<lambda>(b2, fr).
              Some (HTTP_SUCCESS, b2, Some (u\<lparr>u_pathquery := pq, u_fragment := fr\<rparr>))))))"


section \<open>Lists of URLs\<close>

text \<open>
  In a \<open>URL_list\<close> a token holds an address, \<open>URLs\<close> the address of its text and the bytes of the
  block, and \<open>parsedURLs\<close> the entries of the array. \<open>copy_token\<close> moves a pointer from one base
  to another with the arithmetic of the machine; a NULL pointer is moved the same way.
\<close>

record URL_list =
  ul_size :: nat
  ul_URLs :: "(addr \<times> string) option"
  ul_parsedURLs :: "uri_type list option"

definition copy_token :: "token \<Rightarrow> addr \<Rightarrow> addr \<Rightarrow> token" where
  "copy_token t in_base out_base =
     \<lparr>tk_buff = Some (size_add out_base
                        (size_sub (case tk_buff t of None \<Rightarrow> NULL | Some a \<Rightarrow> a) in_base)),
      tk_size = tk_size t\<rparr>"

definition copy_parsed :: "addr \<Rightarrow> addr \<Rightarrow> uri_type \<Rightarrow> uri_type" where
  "copy_parsed in_base out_base u =
     u\<lparr>u_scheme := copy_token (u_scheme u) in_base out_base,
       u_pathquery := copy_token (u_pathquery u) in_base out_base,
       u_fragment := copy_token (u_fragment u) in_base out_base,
       u_hostport := (u_hostport u)\<lparr>hp_text := copy_token (hp_text (u_hostport u)) in_base out_base\<rparr>\<rparr>"

text \<open>
  \<open>out_base\<close> is the address of the block for the text, when its allocation succeeds, and
  \<open>usz\<close> the size of an entry.
\<close>

definition copy_URL_list ::
  "alloc_env \<Rightarrow> addr \<Rightarrow> nat \<Rightarrow> URL_list \<Rightarrow> (int \<times> alloc_env \<times> URL_list) option" where
  "copy_URL_list e out_base usz inl =
     (case ul_URLs inl of
        None \<Rightarrow> None
      | Some (in_base, text) \<Rightarrow>
          if cstr text = text then None
          else
            (let len = List.length (cstr text) + 1
             in case malloc_ok e len of
                  (ok1, e1) \<Rightarrow>
                    case malloc_ok e1 ((usz * ul_size inl) mod 2 ^ 64) of
                      (ok2, e2) \<Rightarrow>
                        if \<not> ok1 \<or> \<not> ok2 then
                          Some (UPNP_E_OUTOF_MEMORY, e2,
                                \<lparr>ul_size = 0,
                                 ul_URLs = (if ok1 then Some (out_base, map (junk e) [0..<len]) else None),
                                 ul_parsedURLs = (if ok2 then Some [] else None)\<rparr>)
                        else
                          (case ul_parsedURLs inl of
                             None \<Rightarrow> if ul_size inl = 0
                                     then Some (HTTP_SUCCESS, e2,
                                            \<lparr>ul_size = 0, ul_URLs = Some (out_base, take len text),
                                             ul_parsedURLs = Some []\<rparr>)
                                     else None
                           | Some us \<Rightarrow>
                               if List.length us < ul_size inl \<or> alloc_max < usz * ul_size inl then None
                               else Some (HTTP_SUCCESS, e2,
                                      \<lparr>ul_size = ul_size inl, ul_URLs = Some (out_base, take len text),
                                       ul_parsedURLs = Some (map (copy_parsed in_base out_base)
                                                               (take (ul_size inl) us))\<rparr>))))"

definition free_URL_list :: "URL_list \<Rightarrow> URL_list \<times> nat" where
  "free_URL_list l =
     (l\<lparr>ul_size := 0\<rparr>,
      (if ul_URLs l \<noteq> None then 1 else 0) + (if ul_parsedURLs l \<noteq> None then 1 else 0))"

end
