(* ===== verification/UriProps.thy ===== *)
theory UriProps
  imports Uri
begin

text \<open>
  Properties of \<open>Uri\<close>: in-place percent-decoding equals \<open>percent_decode\<close>; removal of dot segments
  equals a definition by segments; the tokens of a parsed URI lie in its text; and concrete
  inputs on which host parsing and URL resolution fail.
\<close>

section \<open>Percent-decoding\<close>

lemma shift_loop_spec:
  "shift_loop (P @ L @ Z) (List.length P) (List.length P + List.length L) t =
     P @ take (List.length L) (t # drop 3 L @ [NUL, NUL]) @ Z"
proof (induction L arbitrary: P t)
  case Nil
  then show ?case by (simp add: shift_loop.simps)
next
  case (Cons a L)
  let ?t = "if List.length P + 3 < List.length P + List.length (a # L) then (P @ (a # L) @ Z) ! (List.length P + 3) else NUL"
  have t: "?t = (if 2 < List.length L then L ! 2 else NUL)"
    by (auto simp: nth_append nth_Cons' numeral_3_eq_3 numeral_2_eq_2)
  have "take (List.length L) (?t # drop 3 L @ [NUL, NUL]) = take (List.length L) (drop 2 L @ [NUL, NUL])"
  proof (cases "2 < List.length L")
    case True
    then have "drop 2 L = L ! 2 # drop 3 L" by (metis Cons_nth_drop_Suc numeral_2_eq_2 numeral_3_eq_3)
    then show ?thesis unfolding t using True by simp
  next
    case False
    then have "List.length L = 0 \<or> List.length L = 1 \<or> List.length L = 2" by arith
    then show ?thesis unfolding t by (auto simp: numeral_2_eq_2)
  qed
  moreover have "shift_loop (P @ (a # L) @ Z) (List.length P) (List.length P + List.length (a # L)) t =
      shift_loop ((P @ [t]) @ L @ Z) (List.length (P @ [t])) (List.length (P @ [t]) + List.length L) ?t"
    by (subst shift_loop.simps) simp
  ultimately show ?case using Cons [of "P @ [t]" ?t] by (simp add: drop_Cons')
qed

lemma percent_decode_escape:
  "isxdigit x \<Longrightarrow> isxdigit y \<Longrightarrow>
     percent_decode (CHR ''%'' # x # y # r) = char_of (16 * hex_value x + hex_value y) # percent_decode r"
  by simp

lemma percent_decode_plain:
  assumes "\<not> (a = CHR ''%'' \<and> (\<exists>x y r'. r = x # y # r' \<and> isxdigit x \<and> isxdigit y))"
  shows "percent_decode (a # r) = a # percent_decode r"
  using assms by (cases r rule: percent_decode.cases) auto

lemma length_percent_decode: "List.length (percent_decode s) \<le> List.length s"
  by (induction s rule: percent_decode.induct) auto

lemma escaped_loop_spec:
  assumes "List.length (P @ R @ Z) < 2 ^ 64" and "Z \<noteq> []" and "\<not> isxdigit (hd Z)"
  shows "escaped_loop (P @ R @ Z) (List.length P) (List.length P + List.length R) =
           Some (P @ percent_decode R @ replicate (List.length R - List.length (percent_decode R)) NUL @ Z,
                 List.length P + List.length (percent_decode R))"
  using assms
proof (induction "List.length R" arbitrary: P R Z rule: less_induct)
  case less
  show ?case
  proof (cases R)
    case Nil
    then show ?thesis by (simp add: escaped_loop.simps)
  next
    case (Cons a r)
    show ?thesis
    proof (cases "a = CHR ''%'' \<and> (\<exists>x y r'. r = x # y # r' \<and> isxdigit x \<and> isxdigit y)")
      case True
      then obtain x y r' where a: "a = CHR ''%''" and r: "r = x # y # r'" and hx: "isxdigit x" "isxdigit y" by blast
      let ?c = "char_of (16 * hex_value x + hex_value y)"
      have sub: "size_sub (List.length P + List.length R) 2 = List.length P + 1 + List.length r'"
        using less.prems(1) Cons r by (simp add: size_sub_exact)
      have "replace_escaped (P @ R @ Z) (List.length P) (List.length P + List.length R) =
          Some (1, shift_loop (P @ R @ Z) (List.length P) (List.length P + List.length R) ?c,
                List.length P + 1 + List.length r')"
        unfolding sub [symmetric] using Cons a r hx
        by (simp add: replace_escaped_def nth_append nth_Cons' Let_def)
      also have "shift_loop (P @ R @ Z) (List.length P) (List.length P + List.length R) ?c =
          (P @ [?c]) @ r' @ NUL # NUL # Z"
        unfolding shift_loop_spec using Cons r by (simp add: numeral_3_eq_3)
      finally have step: "escaped_loop (P @ R @ Z) (List.length P) (List.length P + List.length R) =
          escaped_loop ((P @ [?c]) @ r' @ NUL # NUL # Z) (List.length (P @ [?c]))
            (List.length (P @ [?c]) + List.length r')"
        using Cons by (subst escaped_loop.simps) simp
      have "\<not> isxdigit NUL" by (simp add: isxdigit_def isdigit_def)
      with less.hyps [of r' "P @ [?c]" "NUL # NUL # Z"] less.prems Cons r
      have IH: "escaped_loop ((P @ [?c]) @ r' @ NUL # NUL # Z) (List.length (P @ [?c]))
            (List.length (P @ [?c]) + List.length r') =
          Some ((P @ [?c]) @ percent_decode r' @
                  replicate (List.length r' - List.length (percent_decode r')) NUL @ NUL # NUL # Z,
                List.length (P @ [?c]) + List.length (percent_decode r'))" by simp
      have "replicate n NUL @ NUL # NUL # Z = replicate (Suc (Suc n)) NUL @ Z" for n
        by (induction n) simp_all
      then show ?thesis unfolding step IH using Cons a r hx length_percent_decode [of r']
        by (simp add: Suc_diff_le)
    next
      case False
      have "replace_escaped (P @ R @ Z) (List.length P) (List.length P + List.length R) =
          Some (0, P @ R @ Z, List.length P + List.length R)"
      proof (cases "a = CHR ''%''")
        case no: False
        then show ?thesis using Cons by (simp add: replace_escaped_def nth_append)
      next
        case True
        have z: "Z = hd Z # tl Z" using less.prems(2) by simp
        have "\<not> isxdigit ((r @ Z) ! 0) \<or>
            (\<not> isxdigit ((r @ Z) ! 1) \<and> 1 < List.length (r @ Z))"
          using True False less.prems(2,3) z
          by (cases r rule: percent_decode.cases) (auto simp: nth_append neq_Nil_conv)
        moreover have "(P @ R @ Z) ! (List.length P + 1) = (r @ Z) ! 0"
          "(P @ R @ Z) ! (List.length P + 2) = (r @ Z) ! 1"
          using Cons by (simp_all add: nth_append)
        moreover have "0 < List.length (r @ Z)" using less.prems(2) by simp
        ultimately show ?thesis using Cons True by (auto simp: replace_escaped_def nth_append)
      qed
      then have step: "escaped_loop (P @ R @ Z) (List.length P) (List.length P + List.length R) =
          escaped_loop ((P @ [a]) @ r @ Z) (List.length (P @ [a])) (List.length (P @ [a]) + List.length r)"
        using Cons by (subst escaped_loop.simps) simp
      from less.hyps [of r "P @ [a]" Z] less.prems Cons
      show ?thesis unfolding step by (simp add: percent_decode_plain [OF False])
    qed
  qed
qed

text \<open>
  C17. \<open>remove_escaped_chars\<close>, which shifts the text left in place for every escape, computes
  percent-decoding: the token's bytes become the decoded ones (each escape decoded once), the
  size is theirs, the freed positions are NUL and nothing outside the token changes, provided
  the byte after the token is no hexadecimal digit. No access leaves the block.
\<close>

theorem remove_escaped_chars_decodes:
  assumes "List.length (tok @ rest) < 2 ^ 64" and "rest \<noteq> []" and "\<not> isxdigit (hd rest)"
  shows "remove_escaped_chars (tok @ rest) (List.length tok) =
           Some (UPNP_E_SUCCESS,
                 percent_decode tok @ replicate (List.length tok - List.length (percent_decode tok)) NUL @ rest,
                 List.length (percent_decode tok))"
  using escaped_loop_spec [of "[]" tok rest] assms by (simp add: remove_escaped_chars_def)

theorem remove_escaped_chars_decodes_witness:
  "remove_escaped_chars (''a%20b'' @ ''#f'') 5 = Some (UPNP_E_SUCCESS, ''a b'' @ [NUL, NUL] @ ''#f'', 3)"
proof -
  have n: "List.length ''a%20b'' = 5" "List.length (''a%20b'' @ ''#f'') < 2 ^ 64" by simp_all
  have h: "''#f'' \<noteq> []" "\<not> isxdigit (hd ''#f'')" by (simp_all add: isxdigit_def isdigit_def)
  have d: "percent_decode ''a%20b'' = ''a b''"
    by code_simp
  show ?thesis using remove_escaped_chars_decodes [OF n(2) h] unfolding d n(1)
    by (simp add: numeral_2_eq_2)
qed


section \<open>Dot segments\<close>

text \<open>
  The reference: a path is its segments between slashes; \<open>st\<close> are the segments kept so far, all
  followed by a slash. A dot segment goes, two dots take the last kept segment with them, which
  must not be the first one.
\<close>

fun split_slash :: "string \<Rightarrow> string list" where
  "split_slash [] = [[]]"
| "split_slash (c # cs) =
     (if c = CHR ''/'' then [] # split_slash cs
      else (c # hd (split_slash cs)) # tl (split_slash cs))"

definition join_slash :: "string list \<Rightarrow> string" where
  "join_slash st = concat (map (\<lambda>s. s @ ''/'') st)"

fun normalize :: "string list \<Rightarrow> string list \<Rightarrow> string option" where
  "normalize [] st = Some (join_slash st)"
| "normalize (s # ss) st =
     (if s = ''.'' then normalize ss st
      else if s = ''..'' then (if List.length st > 1 then normalize ss (butlast st) else None)
      else if ss = [] then Some (join_slash st @ s)
      else normalize ss (st @ [s]))"

lemma split_slash_not_Nil [simp]: "split_slash s \<noteq> []"
  by (cases s) auto

lemma join_slash_simps [simp]: "join_slash [] = []" "join_slash (st @ [s]) = join_slash st @ s @ ''/''"
  "join_slash (s # st) = s @ ''/'' @ join_slash st"
  by (simp_all add: join_slash_def)

text \<open>The entries of \<open>Segments\<close>: the positions after each slash of the text kept.\<close>

definition seg_positions :: "string list \<Rightarrow> nat list" where
  "seg_positions st = map (\<lambda>k. List.length (join_slash (take (Suc k) st))) [0..<List.length st]"

lemma seg_positions_simps [simp]:
  "seg_positions [] = []" "List.length (seg_positions st) = List.length st"
  "seg_positions (st @ [s]) = seg_positions st @ [List.length (join_slash (st @ [s]))]"
  by (simp_all add: seg_positions_def)

lemma seg_positions_pop:
  "List.length st > 1 \<Longrightarrow>
     butlast (seg_positions st) = seg_positions (butlast st) \<and>
     last (butlast (seg_positions st)) = List.length (join_slash (butlast st))"
proof -
  assume "List.length st > 1"
  then obtain st' s t where st: "st = (st' @ [s]) @ [t]"
    by (cases st rule: rev_cases; cases "butlast st" rule: rev_cases) auto
  have "butlast (seg_positions st) = seg_positions (st' @ [s])" "butlast st = st' @ [s]"
    unfolding st seg_positions_simps(3) [of "st' @ [s]" t] by (simp_all only: butlast_snoc)
  then show ?thesis by simp
qed

lemma length_join_butlast: "st \<noteq> [] \<Longrightarrow> List.length (join_slash (butlast st)) < List.length (join_slash st)"
  by (cases st rule: rev_cases) simp_all

definition dots_inv :: "string \<Rightarrow> nat \<Rightarrow> nat \<Rightarrow> nat \<Rightarrow> string list \<Rightarrow> string \<Rightarrow> bool" where
  "dots_inv b sz cf ct st cur \<longleftrightarrow>
     sz < List.length b \<and> ct \<le> cf \<and> ct \<le> sz \<and> List.length st \<le> ct \<and>
     take ct b = join_slash st @ cur \<and> CHR ''/'' \<notin> set cur \<and>
     (cf \<le> sz \<longrightarrow> (cur = [] \<longleftrightarrow> cf = 0 \<or> b ! (cf - 1) = CHR ''/'')) \<and>
     (sz < cf \<longrightarrow> cur = []) \<and>
     CHR ''?'' \<notin> set (drop cf (take sz b)) \<and> CHR ''#'' \<notin> set (drop cf (take sz b)) \<and>
     (cur \<noteq> [] \<longrightarrow> cur @ hd (split_slash (drop cf (take sz b))) \<notin> {''.'', ''..''})"

abbreviation remaining :: "string \<Rightarrow> nat \<Rightarrow> nat \<Rightarrow> string \<Rightarrow> string list" where
  "remaining b sz cf cur \<equiv>
     (cur @ hd (split_slash (drop cf (take sz b)))) # tl (split_slash (drop cf (take sz b)))"

lemma drop_take_Cons:
  "cf < sz \<Longrightarrow> sz < List.length b \<Longrightarrow> drop cf (take sz b) = b ! cf # drop (Suc cf) (take sz b)"
  by (metis Cons_nth_drop_Suc length_take min.absorb4 nth_take)

lemma split_dot:
  assumes "cf < sz" and "sz < List.length b" and "b ! cf = CHR ''.''"
  shows "hd (split_slash (drop cf (take sz b))) = ''.'' \<longleftrightarrow> cf + 1 = sz \<or> b ! (cf + 1) = CHR ''/''"
proof (cases "cf + 1 < sz")
  case True
  then show ?thesis using assms drop_take_Cons [of cf sz b] drop_take_Cons [of "Suc cf" sz b] by simp
next
  case False
  then show ?thesis using assms drop_take_Cons [of cf sz b] by simp
qed

lemma split_dotdot:
  assumes "cf < sz" and "sz < List.length b" and "b ! cf = CHR ''.''" and "cf + 1 \<noteq> sz"
  shows "hd (split_slash (drop cf (take sz b))) = ''..'' \<longleftrightarrow>
         b ! (cf + 1) = CHR ''.'' \<and> (cf + 2 = sz \<or> b ! (cf + 2) = CHR ''/'')"
proof (cases "cf + 2 < sz")
  case True
  then show ?thesis
    using assms drop_take_Cons [of cf sz b] drop_take_Cons [of "Suc cf" sz b]
      drop_take_Cons [of "Suc (Suc cf)" sz b] by auto
next
  case False
  then have "cf + 2 = sz" using assms by simp
  then show ?thesis using assms drop_take_Cons [of cf sz b] drop_take_Cons [of "Suc cf" sz b] by auto
qed

lemma hd_tl_split: "hd (split_slash s) # tl (split_slash s) = split_slash s"
  by simp

lemma split_slash_cases:
  "(\<exists>r. xs = hd (split_slash xs) @ ''/'' @ r \<and> tl (split_slash xs) = split_slash r) \<or>
   (xs = hd (split_slash xs) \<and> tl (split_slash xs) = [])"
  by (induction xs) auto

text \<open>Skipping a dot segment \<open>d\<close> and its slash.\<close>

lemma skip_segment:
  assumes inv: "dots_inv b sz cf ct st []" and cf: "cf < sz"
    and d: "hd (split_slash (drop cf (take sz b))) = d"
  shows "remaining b sz cf [] = d # (if tl (split_slash (drop cf (take sz b))) = [] then []
                                     else remaining b sz (cf + List.length d + 1) [])"
    and "tl (split_slash (drop cf (take sz b))) = [] \<Longrightarrow> drop (cf + List.length d + 1) (take sz b) = []"
    and "st' = st \<and> ct' = ct \<or> st' = butlast st \<and> ct' = List.length (join_slash st') \<and> st \<noteq> [] \<Longrightarrow>
         dots_inv b sz (cf + List.length d + 1) ct' st' []"
proof -
  note I = inv [unfolded dots_inv_def]
  let ?x = "drop cf (take sz b)"
  have len: "List.length ?x = sz - cf" using I by simp
  have drp: "drop (cf + List.length d + 1) (take sz b) = drop (List.length d + 1) ?x" by (simp add: add.commute)
  from split_slash_cases [of ?x] d consider
    (more) r where "?x = d @ ''/'' @ r" "tl (split_slash ?x) = split_slash r"
    | (fin) "?x = d" "tl (split_slash ?x) = []" by auto
  then have all: "remaining b sz cf [] = d # (if tl (split_slash ?x) = [] then []
                    else remaining b sz (cf + List.length d + 1) []) \<and>
      (tl (split_slash ?x) = [] \<longrightarrow> drop (cf + List.length d + 1) (take sz b) = []) \<and>
      (cf + List.length d + 1 \<le> sz \<longrightarrow> b ! (cf + List.length d) = CHR ''/'')"
  proof cases
    case more
    have "r = drop (cf + List.length d + 1) (take sz b)" unfolding drp more(1) by simp
    moreover have "b ! (cf + List.length d) = CHR ''/''"
    proof -
      have lt: "List.length d < List.length ?x" unfolding more(1) by simp
      have "?x ! List.length d = CHR ''/''" by (subst more(1)) (simp add: nth_append)
      moreover have "?x ! List.length d = b ! (cf + List.length d)" using lt len I by simp
      ultimately show ?thesis by simp
    qed
    ultimately show ?thesis using more d by simp
  next
    case fin
    have "drop (cf + List.length d + 1) (take sz b) = []" unfolding drp by (subst fin(1)) simp
    moreover have "\<not> cf + List.length d + 1 \<le> sz" using fin(1) len cf by simp
    ultimately show ?thesis using fin d by simp
  qed
  then show "remaining b sz cf [] = d # (if tl (split_slash ?x) = [] then []
                                     else remaining b sz (cf + List.length d + 1) [])"
    and "tl (split_slash ?x) = [] \<Longrightarrow> drop (cf + List.length d + 1) (take sz b) = []" by auto
  assume st: "st' = st \<and> ct' = ct \<or> st' = butlast st \<and> ct' = List.length (join_slash st') \<and> st \<noteq> []"
  have sub: "set (drop (cf + List.length d + 1) (take sz b)) \<subseteq> set ?x"
    unfolding drp by (rule set_drop_subset)
  have pop: "take ct' b = join_slash st' \<and> ct' \<le> ct \<and> List.length st' \<le> ct'" if "st' = butlast st"
    "ct' = List.length (join_slash st')" "st \<noteq> []"
  proof -
    have st: "st = st' @ [last st]" using that(1,3) by simp
    have "take ct b = join_slash st" using I by simp
    then have t: "take ct b = join_slash st' @ last st @ ''/''"
      by (subst (asm) st) (simp only: join_slash_simps)
    have "ct < List.length b" using I by simp
    then have "List.length (take ct b) = ct" by (simp only: length_take min.absorb4)
    then have lt: "ct' < ct" unfolding t using that(2) by simp
    have "take ct' (take ct b) = join_slash st'" unfolding t using that(2) by simp
    then have "take ct' b = join_slash st'" using lt by simp
    moreover have "List.length st' \<le> List.length (join_slash st')"
      by (induction st') auto
    ultimately show ?thesis using that(2) lt by (simp only: order_less_imp_le simp_thms)
  qed
  have tk: "take ct' b = join_slash st'" "ct' \<le> ct" "List.length st' \<le> ct'"
    using st I pop by auto
  have sl: "cf + List.length d + 1 \<le> sz \<Longrightarrow> b ! (cf + List.length d) = CHR ''/''" using all by simp
  have basic: "sz < List.length b" "ct \<le> cf" "ct \<le> sz" "CHR ''?'' \<notin> set ?x" "CHR ''#'' \<notin> set ?x"
    using I by simp_all
  show "dots_inv b sz (cf + List.length d + 1) ct' st' []"
    unfolding dots_inv_def using basic tk sl sub by auto
qed

lemma dots_loop_normalizes:
  assumes "dots_inv b sz cf ct st cur"
  shows "case dots_loop b sz cf ct (seg_positions st) of
           None \<Rightarrow> False
         | Some (Inl e) \<Rightarrow> e = UPNP_E_INVALID_URL \<and> normalize (remaining b sz cf cur) st = None
         | Some (Inr (b', cf', ct')) \<Rightarrow>
             sz \<le> cf' \<and> List.length b' = List.length b \<and> ct' \<le> sz \<and>
             normalize (remaining b sz cf cur) st = Some (take ct' b')"
  using assms
proof (induction "sz + 1 - cf" arbitrary: b cf ct st cur rule: less_induct)
  case less
  note I = less.prems [unfolded dots_inv_def]
  show ?case
  proof (cases "cf < sz")
    case False
    then have e: "drop cf (take sz b) = []" using I by simp
    have "cur \<noteq> [] \<Longrightarrow> cur \<noteq> ''.'' \<and> cur \<noteq> ''..''" using I e by auto
    then have "normalize [cur] st = Some (join_slash st @ cur)" by auto
    then show ?thesis using False I e by (simp add: dots_loop.simps)
  next
    case True
    let ?c = "b ! cf" and ?x = "drop cf (take sz b)"
    have d: "?x = ?c # drop (Suc cf) (take sz b)" using True I drop_take_Cons by blast
    have nq: "?c \<noteq> CHR ''?''" "?c \<noteq> CHR ''#''" using I d by auto
    have start: "cur = [] \<longleftrightarrow> cf = 0 \<or> b ! (cf - 1) = CHR ''/''" using I True by simp
    have sz: "sz < List.length b" using I by simp
    let ?seg = "hd (split_slash ?x)"
    have last: "normalize (remaining b sz cf' []) st' = Some (join_slash st')" if "drop cf' (take sz b) = []" for cf' st'
      using that by simp
    consider (dot) "cur = []" "?seg = ''.''" | (dotdot) "cur = []" "?seg = ''..''"
      | (copy) "cur @ ?seg \<notin> {''.'', ''..''}"
      using I by (cases "cur = []") auto
    then show ?thesis
    proof cases
      case dot
      have c: "?c = CHR ''.''" using dot d by (auto split: if_splits)
      have e: "cf + 1 = sz \<or> b ! (cf + 1) = CHR ''/''" using split_dot [OF True sz c] dot by simp
      have step: "dots_loop b sz cf ct (seg_positions st) = dots_loop b sz (cf + 2) ct (seg_positions st)"
        using True c dot start e by (subst dots_loop.simps) simp
      note S = skip_segment [OF less.prems [unfolded dot(1)] True dot(2), simplified]
      have "normalize (remaining b sz cf cur) st = normalize (remaining b sz (cf + 2) []) st"
        using S(1,2) dot last [of "cf + 2" st] by (auto split: if_splits)
      moreover have "dots_inv b sz (cf + 2) ct st []" using S(3) [of st ct] by simp
      moreover have "sz + 1 - (cf + 2) < sz + 1 - cf" using True by simp
      ultimately show ?thesis using less.hyps [of "cf + 2" b ct st "[]"] unfolding step by presburger
    next
      case dotdot
      have c: "?c = CHR ''.''" using dotdot d by (auto split: if_splits)
      have ne: "cf + 1 \<noteq> sz \<and> b ! (cf + 1) \<noteq> CHR ''/''" using split_dot [OF True sz c] dotdot by auto
      then have e: "b ! (cf + 1) = CHR ''.'' \<and> (cf + 2 = sz \<or> b ! (cf + 2) = CHR ''/'')"
        using split_dotdot [OF True sz c] dotdot by simp
      note S = skip_segment [OF less.prems [unfolded dotdot(1)] True dotdot(2), simplified]
      show ?thesis
      proof (cases "List.length st > 1")
        case False
        then have "dots_loop b sz cf ct (seg_positions st) = Some (Inl UPNP_E_INVALID_URL)"
          using True c dotdot start e ne by (subst dots_loop.simps) simp
        moreover have "normalize (remaining b sz cf cur) st = None" using S(1) dotdot False by auto
        ultimately show ?thesis by simp
      next
        case long: True
        have P: "butlast (seg_positions st) = seg_positions (butlast st)"
          "last (seg_positions (butlast st)) = List.length (join_slash (butlast st))"
          using seg_positions_pop [OF long] by metis+
        let ?st = "butlast st" and ?ct = "List.length (join_slash (butlast st))"
        have step: "dots_loop b sz cf ct (seg_positions st) = dots_loop b sz (cf + 3) ?ct (seg_positions ?st)"
          using True c dotdot start e ne long P by (subst dots_loop.simps) simp
        have "normalize (remaining b sz cf cur) st = normalize (remaining b sz (cf + 3) []) ?st"
          using S(1,2) dotdot long last [of "cf + 3" ?st] by (auto simp: numeral_3_eq_3 split: if_splits)
        moreover have "dots_inv b sz (cf + 3) ?ct ?st []"
        proof -
          have "st \<noteq> []" using long by auto
          then show ?thesis using S(3) [of ?st ?ct] by (simp add: numeral_3_eq_3)
        qed
        moreover have "sz + 1 - (cf + 3) < sz + 1 - cf" using True by simp
        ultimately show ?thesis using less.hyps [of "cf + 3" b ?ct ?st "[]"] unfolding step by presburger
      qed
    next
      case copy
      let ?b = "b[ct := ?c]"
      let ?st = "if ?c = CHR ''/'' then st @ [cur] else st"
      let ?cur = "if ?c = CHR ''/'' then [] else cur @ [?c]"
      have "ct < List.length b" using I by simp
      then have ctl: "List.length (take ct b) = ct" by (simp only: length_take min.absorb4)
      have pos: "?c = CHR ''/'' \<Longrightarrow> seg_positions (st @ [cur]) = seg_positions st @ [ct + 1]"
        using I ctl by simp
      have room: "List.length st < sz" using I True by simp
      have nodot: "\<not> (cur = [] \<and> ?seg = ''.'')" "\<not> (cur = [] \<and> ?seg = ''..'')" using copy by auto
      have step: "dots_loop b sz cf ct (seg_positions st) =
          dots_loop ?b sz (cf + 1) (ct + 1) (seg_positions ?st)"
      proof (cases "?c = CHR ''.'' \<and> cur = []")
        case True
        then have "\<not> (cf + 1 = sz \<or> b ! (cf + 1) = CHR ''/'')" using split_dot [OF \<open>cf < sz\<close> sz] nodot by simp
        moreover from this have "\<not> (b ! (cf + 1) = CHR ''.'' \<and> (cf + 2 = sz \<or> b ! (cf + 2) = CHR ''/''))"
          using split_dotdot [OF \<open>cf < sz\<close> sz] True nodot by simp
        ultimately show ?thesis using True \<open>cf < sz\<close> nq start by (subst dots_loop.simps) auto
      next
        case False
        then have "\<not> (?c = CHR ''.'' \<and> (cf = 0 \<or> b ! (cf - 1) = CHR ''/''))" using start by simp
        then show ?thesis using \<open>cf < sz\<close> nq room pos by (subst dots_loop.simps) auto
      qed
      have rest: "drop (cf + 1) (take sz ?b) = drop (Suc cf) (take sz b)"
        using I by (simp add: take_update_swap drop_update_cancel)
      have tk: "take (ct + 1) ?b = take ct b @ [?c]"
        using I by (simp add: take_Suc_conv_app_nth)
      have at: "?b ! cf = ?c" using I by (cases "ct = cf") simp_all
      have norm: "normalize (remaining b sz cf cur) st = normalize (remaining ?b sz (cf + 1) ?cur) ?st"
      proof (cases "?c = CHR ''/''")
        case True
        have "cur \<noteq> ''.''" "cur \<noteq> ''..''" using copy [unfolded d] True by simp_all
        then show ?thesis unfolding rest d using True by (simp del: normalize.simps add: normalize.simps(2) [of cur])
      next
        case False
        then show ?thesis unfolding rest d by (simp del: normalize.simps)
      qed
      have "dots_inv ?b sz (cf + 1) (ct + 1) ?st ?cur"
        unfolding dots_inv_def rest using I copy tk at True d by auto
      moreover have "sz + 1 - (cf + 1) < sz + 1 - cf" using True by simp
      ultimately show ?thesis using less.hyps [of "cf + 1" ?b "ct + 1" ?st ?cur]
        unfolding step norm length_list_update by presburger
    qed
  qed
qed

lemma split_slash_no_slash: "s \<in> set (split_slash p) \<Longrightarrow> CHR ''/'' \<notin> set s"
proof (induction p arbitrary: s)
  case Nil
  then show ?case by simp
next
  case (Cons c p)
  have "hd (split_slash p) \<in> set (split_slash p)" by simp
  with Cons.IH Cons.prems show ?case
    by (auto split: if_splits dest: list.set_sel(2) [OF split_slash_not_Nil])
qed

lemma split_slash_nul_free: "nul_free p \<Longrightarrow> s \<in> set (split_slash p) \<Longrightarrow> nul_free s"
proof (induction p arbitrary: s)
  case Nil
  then show ?case by simp
next
  case (Cons c p)
  have "hd (split_slash p) \<in> set (split_slash p)" by simp
  with Cons.IH Cons.prems show ?case
    by (auto split: if_splits dest: list.set_sel(2) [OF split_slash_not_Nil])
qed

lemma split_segment: "CHR ''/'' \<notin> set s \<Longrightarrow> split_slash s = [s]"
  by (induction s) auto

lemma split_slash_append: "CHR ''/'' \<notin> set s \<Longrightarrow> split_slash (s @ CHR ''/'' # r) = s # split_slash r"
  by (induction s) auto

lemma split_join:
  "(\<forall>x \<in> set st. CHR ''/'' \<notin> set x) \<Longrightarrow> CHR ''/'' \<notin> set s \<Longrightarrow> split_slash (join_slash st @ s) = st @ [s]"
  by (induction st) (simp_all add: split_segment split_slash_append)

lemma nul_free_join: "\<forall>s \<in> set st. nul_free s \<Longrightarrow> nul_free (join_slash st)"
  by (induction st) auto

lemma normalize_nul_free:
  "normalize ss st = Some p \<Longrightarrow> \<forall>s \<in> set ss \<union> set st. nul_free s \<Longrightarrow> nul_free p"
proof (induction ss st rule: normalize.induct)
  case (1 st)
  then show ?case using nul_free_join by auto
next
  case (2 s ss st)
  then show ?case using nul_free_join [of st] by (auto split: if_splits dest: in_set_butlastD)
qed

definition dot_free :: "string \<Rightarrow> bool" where
  "dot_free p \<longleftrightarrow> ''.'' \<notin> set (split_slash p) \<and> ''..'' \<notin> set (split_slash p)"

lemma normalize_dot_free:
  assumes "normalize ss st = Some p" and "\<forall>s \<in> set ss. CHR ''/'' \<notin> set s"
    and "\<forall>s \<in> set st. CHR ''/'' \<notin> set s \<and> s \<noteq> ''.'' \<and> s \<noteq> ''..''"
  shows "dot_free p"
  using assms
proof (induction ss st rule: normalize.induct)
  case (1 st)
  then show ?case using split_join [of st "[]"] by (auto simp: dot_free_def)
next
  case (2 s ss st)
  then show ?case using split_join [of st s]
    by (auto simp: dot_free_def split: if_splits dest: in_set_butlastD)
qed

text \<open>
  C18. \<open>remove_dots\<close>, an in-place copy with a stack of positions, computes \<open>normalize\<close> on the
  segments of a path without query or fragment: \<open>UPNP_E_INVALID_URL\<close> exactly when the path climbs
  above its first segment, and otherwise the block holds the normalised path, NUL-terminated, in
  which no segment is a dot segment. Every access is inside the block; it can only fail otherwise
  when the allocation of the stack does.
\<close>

theorem remove_dots_normalizes:
  assumes "nul_free path" and "path \<noteq> []" and "CHR ''?'' \<notin> set path" and "CHR ''#'' \<notin> set path"
  shows "\<exists>rc e' b. remove_dots e (path @ NUL # t) (List.length path) = Some (rc, e', b) \<and>
           (if \<not> fst (malloc_ok e ((8 * List.length path) mod 2 ^ 64)) then rc = UPNP_E_OUTOF_MEMORY
            else case normalize (split_slash path) [] of
                   None \<Rightarrow> rc = UPNP_E_INVALID_URL
                 | Some p \<Rightarrow> rc = UPNP_E_SUCCESS \<and> cstr b = p \<and> dot_free p)"
proof (cases "malloc_ok e ((8 * List.length path) mod 2 ^ 64)")
  case (Pair ok e')
  show ?thesis
  proof (cases ok)
    case False
    then show ?thesis using Pair by (simp add: remove_dots_def)
  next
    case True
    let ?b = "path @ NUL # t" and ?sz = "List.length path"
    have "dots_inv ?b ?sz 0 0 [] []" using assms by (simp add: dots_inv_def)
    note L = dots_loop_normalizes [OF this]
    have rem: "remaining ?b ?sz 0 [] = split_slash path" by simp
    show ?thesis
    proof (cases "dots_loop ?b ?sz 0 0 []")
      case None
      then show ?thesis using L by simp
    next
      case (Some r)
      show ?thesis
      proof (cases r)
        case (Inl err)
        then show ?thesis using L Some True Pair assms(2) rem by (simp add: remove_dots_def)
      next
        case (Inr x)
        obtain b' cf' ct' where x: "x = (b', cf', ct')" by (metis prod_cases3)
        then have R: "?sz \<le> cf'" "List.length b' = List.length ?b" "ct' \<le> ?sz"
          "normalize (split_slash path) [] = Some (take ct' b')"
          using L Some Inr rem by simp_all
        have "nul_free (take ct' b')"
          using normalize_nul_free [OF R(4)] split_slash_nul_free [OF assms(1)] by auto
        then have "cstr (b'[ct' := NUL]) = take ct' b'"
          using R(2,3) cstr_nul_free [of "take ct' b'" "drop (Suc ct') b'"] by (simp add: upd_conv_take_nth_drop)
        moreover have "dot_free (take ct' b')"
          using normalize_dot_free [OF R(4)] split_slash_no_slash [of _ path] by auto
        moreover have "tail_loop b' ?sz cf' ct' = (b', ct')" using R(1) by (simp add: tail_loop.simps)
        ultimately show ?thesis using Some Inr x R(4) True Pair assms(2) by (simp add: remove_dots_def)
      qed
    qed
  qed
qed

theorem remove_dots_normalizes_witness:
  "\<exists>rc e' b. remove_dots sample_env (''/a/b/../c/./d'' @ NUL # []) 13 = Some (rc, e', b) \<and>
     rc = UPNP_E_SUCCESS \<and> cstr b = ''/a/c/d''"
proof -
  have m: "fst (malloc_ok sample_env ((8 * List.length ''/a/b/../c/./d'') mod 2 ^ 64))"
    by (simp add: malloc_ok_def sample_env_def alloc_max_def)
  have n: "normalize (split_slash ''/a/b/../c/./d'') [] = Some ''/a/c/d''" by simp
  have l: "List.length ''/a/b/../c/./d'' = 13" by simp
  have p: "nul_free ''/a/b/../c/./d''" "''/a/b/../c/./d'' \<noteq> []" "CHR ''?'' \<notin> set ''/a/b/../c/./d''"
    "CHR ''#'' \<notin> set ''/a/b/../c/./d''" by simp_all
  from remove_dots_normalizes [OF p, of sample_env "[]"] m n show ?thesis unfolding l by auto
qed

text \<open>
  Dot segments directly before a query or fragment are not seen: the test for the end of a
  segment looks for a slash or the end of the whole text only, so \<open>/a/..?q\<close> keeps its \<open>..\<close>.
\<close>

theorem remove_dots_keeps_dots_before_query:
  "\<exists>e'. remove_dots sample_env (''/a/..?q'' @ [NUL]) 7 = Some (UPNP_E_SUCCESS, e', ''/a/..?q'' @ [NUL])"
  by (simp add: remove_dots_def malloc_ok_def sample_env_def alloc_max_def dots_loop.simps tail_loop.simps)


section \<open>Parsed URIs\<close>

lemma uric_loop_bound: "n \<le> List.length s \<Longrightarrow> \<exists>i. uric_loop s n = Some i \<and> i \<le> n"
proof (induction s n rule: uric_loop.induct)
  case (3 c cs n)
  then show ?case by auto
qed auto

lemma parse_uric_bound:
  assumes "off \<le> List.length s" and "List.length s < 2 ^ 64"
  shows "\<exists>t. parse_uric s off (size_sub (List.length s) off) = Some t \<and>
           tk_buff t = Some off \<and> off + tk_size t \<le> List.length s"
proof -
  have "size_sub (List.length s) off = List.length (drop off s)" using assms by (simp add: size_sub_exact)
  with uric_loop_bound [of "List.length (drop off s)" "drop off s"] assms(1) show ?thesis
    by (auto simp: parse_uric_def)
qed

lemma scheme_loop_bound: "scheme_loop s r i = Some j \<Longrightarrow> i \<le> j \<and> j < i + r"
  by (induction s r i rule: scheme_loop.induct) (auto split: if_splits)

definition in_text :: "string \<Rightarrow> token \<Rightarrow> bool" where
  "in_text s t \<longleftrightarrow> (case tk_buff t of None \<Rightarrow> tk_size t = 0 | Some off \<Rightarrow> off + tk_size t \<le> List.length s)"

lemma parse_scheme_bound:
  assumes "parse_scheme s (List.length s) = (n, t)"
  shows "tk_size t = n \<and> in_text s t \<and> n \<le> List.length s - 1"
proof (cases "s = [] \<or> \<not> isalpha (cchar_at s 0)")
  case True
  then show ?thesis using assms by (auto simp: parse_scheme_def in_text_def)
next
  case False
  then show ?thesis
    using assms scheme_loop_bound [of "tl s" "List.length s - 1" 1]
    by (auto simp: parse_scheme_def in_text_def split: option.splits)
qed

lemma parse_hostport_bound:
  assumes "parse_hostport env s off = Inr (k, hp)"
  shows "k \<le> List.length s - off \<and> hp_text hp = \<lparr>tk_buff = Some off, tk_size = k\<rparr>"
proof -
  have "List.length (cstr (take 255 (drop off s))) \<le> List.length s - off"
    using length_takeWhile_le [of "\<lambda>c. c \<noteq> NUL" "take 255 (drop off s)"] by (simp add: cstr_def)
  then show ?thesis using assms
    by (auto simp: parse_hostport_def Let_def split: option.splits if_splits)
qed

lemma parse_hostport_error: "parse_hostport env s off = Inl e \<Longrightarrow> e = UPNP_E_INVALID_URL"
  by (auto simp: parse_hostport_def Let_def split: option.splits if_splits)

lemma parse_uri_rest_bound:
  assumes "begin \<le> List.length s" and "List.length s < 2 ^ 64"
  shows "\<exists>u'. parse_uri_rest s (List.length s) u begin = Some u' \<and>
           u_type u' = u_type u \<and> u_scheme u' = u_scheme u \<and> u_hostport u' = u_hostport u \<and>
           in_text s (u_pathquery u') \<and> in_text s (u_fragment u') \<and>
           (u_path_type u' = u_path_type u \<or> u_path_type u' = ABS_PATH)"
proof -
  from parse_uric_bound [OF assms] obtain pq where
    pq: "parse_uric s begin (size_sub (List.length s) begin) = Some pq"
      "tk_buff pq = Some begin" "begin + tk_size pq \<le> List.length s" by blast
  show ?thesis
  proof (cases "tk_size pq + begin < List.length s \<and> cchar_at s (tk_size pq + begin) = CHR ''#''")
    case True
    then have "tk_size pq + begin + 1 \<le> List.length s" by simp
    from parse_uric_bound [OF this assms(2)] obtain fr where
      "parse_uric s (tk_size pq + begin + 1) (size_sub (List.length s) (tk_size pq + begin + 1)) = Some fr"
      "tk_buff fr = Some (tk_size pq + begin + 1)" "tk_size pq + begin + 1 + tk_size fr \<le> List.length s" by blast
    then show ?thesis using pq True by (auto simp: parse_uri_rest_def Let_def in_text_def)
  next
    case False
    then show ?thesis using pq by (auto simp: parse_uri_rest_def Let_def in_text_def)
  qed
qed

lemma parse_uri_bounded:
  assumes "List.length s < 2 ^ 31"
  shows "\<exists>r. parse_uri env s (List.length s) = Some r \<and>
           (case r of
              Inl e \<Rightarrow> e = UPNP_E_INVALID_URL
            | Inr u \<Rightarrow>
                in_text s (u_scheme u) \<and> in_text s (u_pathquery u) \<and> in_text s (u_fragment u) \<and>
                in_text s (hp_text (u_hostport u)) \<and>
                (u_type u = ABSOLUTE \<longleftrightarrow> tk_size (u_scheme u) > 0))"
proof -
  obtain n t where sc: "parse_scheme s (List.length s) = (n, t)" by (cases "parse_scheme s (List.length s)")
  note S = parse_scheme_bound [OF sc]
  have big: "List.length s < 2 ^ 64" using assms by simp
  let ?bh = "if n \<noteq> 0 then n + 1 else 0"
  let ?u = "\<lparr>u_type = (if n \<noteq> 0 then ABSOLUTE else RELATIVE), u_scheme = t,
             u_path_type = (if n \<noteq> 0 then OPAQUE_PART else REL_PATH),
             u_pathquery = null_token, u_fragment = null_token, u_hostport = null_hostport\<rparr>"
  have bh: "?bh \<le> List.length s" using S by auto
  show ?thesis
  proof (cases "?bh + 1 < List.length s \<and> cchar_at s ?bh = CHR ''/'' \<and> cchar_at s (?bh + 1) = CHR ''/''")
    case False
    have "parse_uri env s (List.length s) = map_option Inr (parse_uri_rest s (List.length s) ?u ?bh)"
      using sc False unfolding parse_uri_def by (simp only: prod.case Let_def if_False)
    then show ?thesis using parse_uri_rest_bound [OF bh big, of ?u] S
      by (auto simp: in_text_def null_hostport_def)
  next
    case True
    have eq: "parse_uri env s (List.length s) =
        (case parse_hostport env s (?bh + 2) of
           Inl e \<Rightarrow> Some (Inl e)
         | Inr (k, hp) \<Rightarrow>
             map_option Inr (parse_uri_rest s (List.length s) (?u\<lparr>u_hostport := hp\<rparr>) (?bh + 2 + k)))"
      using sc True unfolding parse_uri_def by (simp only: prod.case Let_def if_True simp_thms)
    show ?thesis
    proof (cases "parse_hostport env s (?bh + 2)")
      case (Inl e)
      then show ?thesis unfolding eq using parse_hostport_error [OF Inl] by simp
    next
      case (Inr r)
      obtain k hp where r: "r = (k, hp)" by (cases r)
      have H: "k \<le> List.length s - (?bh + 2)" "hp_text hp = \<lparr>tk_buff = Some (?bh + 2), tk_size = k\<rparr>"
        using parse_hostport_bound [of env s "?bh + 2" k hp] Inr r by simp_all
      have "?bh + 2 + k \<le> List.length s" using H(1) True by linarith
      from parse_uri_rest_bound [OF this big, of "?u\<lparr>u_hostport := hp\<rparr>"] S H(2) this
      show ?thesis unfolding eq Inr r by (auto simp: in_text_def)
    qed
  qed
qed


definition sample_net :: net_env where
  "sample_net = \<lparr>getaddrinfo = (\<lambda>_. Some [(AF_INET, ''addr'')]), inet_pton = (\<lambda>_ s. Some s), gIF_INDEX = 0\<rparr>"


text \<open>
  A host name that resolves to a single address is rejected: \<open>parse_hostport\<close> copies the first
  IPv4 or IPv6 address, but its loop steps to the next result before it stops, so when the address
  was the last one \<open>res\<close> is NULL and the result is \<open>UPNP_E_INVALID_URL\<close>.
\<close>

theorem single_address_host_rejected:
  assumes "cchar_at (cstr (take 255 s)) 0 \<noteq> CHR ''[''"
    and "\<forall>d. after_last_dot (takeWhile host_char (cstr (take 255 s))) = Some d \<longrightarrow> \<not> isdigit d"
    and "getaddrinfo env (takeWhile host_char (cstr (take 255 s))) = Some [x]"
  shows "parse_hostport env s 0 = Inl UPNP_E_INVALID_URL"
  using assms by (cases x) (auto simp: parse_hostport_def parse_host_def Let_def split: option.splits)

theorem single_address_host_rejected_witness:
  "parse_hostport sample_net ''localhost:80/desc.xml'' 0 = Inl UPNP_E_INVALID_URL"
  by (rule single_address_host_rejected [where x = "(AF_INET, ''addr'')"])
    (simp_all add: sample_net_def cstr_def cchar_at_def after_last_dot_def host_char_def
       isalnum_def isalpha_def isupper_def islower_def isdigit_def)


section \<open>Lists of URLs\<close>

text \<open>The bytes a token denotes in a text at a given address.\<close>

definition token_view :: "addr \<Rightarrow> string \<Rightarrow> token \<Rightarrow> string option" where
  "token_view base tx t =
     (case tk_buff t of
        None \<Rightarrow> None
      | Some a \<Rightarrow> if base \<le> a \<and> a - base + tk_size t \<le> List.length tx
                  then Some (take (tk_size t) (drop (a - base) tx)) else None)"

lemma copy_token_view:
  assumes "token_view ib tx t = Some v" and "ib + List.length tx < 2 ^ 64"
    and "ob + List.length tx < 2 ^ 64"
  shows "token_view ob (tx @ r) (copy_token t ib ob) = Some v"
proof -
  obtain a where a: "tk_buff t = Some a" "ib \<le> a" "a - ib + tk_size t \<le> List.length tx"
    "v = take (tk_size t) (drop (a - ib) tx)"
    using assms(1) by (auto simp: token_view_def split: option.splits if_splits)
  have "size_sub a ib = a - ib" by (rule size_sub_exact) (use a assms in linarith)+
  moreover have "size_add ob (a - ib) = ob + (a - ib)" by (rule size_add_exact) (use a assms in linarith)
  ultimately show ?thesis using a by (simp add: token_view_def copy_token_def)
qed

lemma copy_token_NULL: "tk_buff (copy_token null_token ib ob) = Some (size_add ob (size_sub NULL ib))"
  by (simp add: copy_token_def)

lemma take_Suc_cstr:
  assumes "cstr tx \<noteq> tx"
  shows "take (Suc (List.length (cstr tx))) tx = cstr tx @ [NUL]"
  using assms by (induction tx) (auto simp: cstr_def split: if_splits)

lemma copy_URL_list_success:
  assumes "copy_URL_list e ob usz l = Some (HTTP_SUCCESS, e', l')"
    and "ul_URLs l = Some (ib, tx)" and "ul_parsedURLs l = Some us"
  shows "l' = \<lparr>ul_size = ul_size l, ul_URLs = Some (ob, cstr tx @ [NUL]),
               ul_parsedURLs = Some (map (copy_parsed ib ob) (take (ul_size l) us))\<rparr> \<and>
         ul_size l \<le> List.length us"
proof -
  have ne: "cstr tx \<noteq> tx" using assms by (auto simp: copy_URL_list_def)
  show ?thesis
    using assms ne
    by (auto simp: copy_URL_list_def take_Suc_cstr Let_def split: if_splits prod.splits)
qed

text \<open>
  A successful copy of a list of URLs has the same text at its new address, and each token of
  each entry denotes in the copy the bytes the original denotes in the original text.
\<close>

theorem copy_URL_list_faithful:
  assumes "copy_URL_list e ob usz l = Some (HTTP_SUCCESS, e', l')"
    and "ul_URLs l = Some (ib, tx)" and "ul_parsedURLs l = Some us"
    and "ib + List.length tx < 2 ^ 64" and "ob + List.length tx < 2 ^ 64"
    and "i < ul_size l"
    and "sel \<in> {u_scheme, u_pathquery, u_fragment, hp_text \<circ> u_hostport}"
    and "token_view ib (cstr tx) (sel (us ! i)) = Some v"
  shows "\<exists>us'. ul_URLs l' = Some (ob, cstr tx @ [NUL]) \<and> ul_parsedURLs l' = Some us' \<and>
           List.length us' = ul_size l \<and> token_view ob (cstr tx @ [NUL]) (sel (us' ! i)) = Some v"
proof -
  have le: "List.length (cstr tx) \<le> List.length tx" by (simp add: cstr_def length_takeWhile_le)
  have len: "ul_size l \<le> List.length us" and
    l': "l' = \<lparr>ul_size = ul_size l, ul_URLs = Some (ob, cstr tx @ [NUL]),
               ul_parsedURLs = Some (map (copy_parsed ib ob) (take (ul_size l) us))\<rparr>"
    using copy_URL_list_success [OF assms(1-3)] by auto
  have sel: "sel (copy_parsed ib ob u) = copy_token (sel u) ib ob" for u
    using assms(7) by (auto simp: copy_parsed_def)
  have "token_view ob (cstr tx @ [NUL]) (copy_token (sel (us ! i)) ib ob) = Some v"
    by (rule copy_token_view [OF assms(8)]) (use le assms in linarith)+
  then show ?thesis using len assms(6) by (simp add: l' sel)
qed

definition sample_urls :: URL_list where
  "sample_urls =
     \<lparr>ul_size = 1, ul_URLs = Some (1000, ''<http:a>'' @ [NUL]),
      ul_parsedURLs = Some [\<lparr>u_type = ABSOLUTE, u_scheme = \<lparr>tk_buff = Some 1001, tk_size = 4\<rparr>,
        u_path_type = OPAQUE_PART, u_pathquery = \<lparr>tk_buff = Some 1006, tk_size = 1\<rparr>,
        u_fragment = null_token, u_hostport = null_hostport\<rparr>]\<rparr>"

theorem copy_URL_list_faithful_witness:
  "\<exists>e' l' us'. copy_URL_list \<lparr>oom = [], junk = \<lambda>_. NUL\<rparr> 5000 248 sample_urls =
      Some (HTTP_SUCCESS, e', l') \<and> ul_parsedURLs l' = Some us' \<and>
      token_view 5000 (''<http:a>'' @ [NUL]) (u_pathquery (us' ! 0)) = Some ''a''"
proof -
  have c: "cstr (''<http:a>'' @ [NUL]) = ''<http:a>''" by (rule cstr_nul_free) simp
  have am: "alloc_max = 9223372036854775807" by (simp add: alloc_max_def)
  let ?u = "\<lparr>u_type = ABSOLUTE, u_scheme = \<lparr>tk_buff = Some 1001, tk_size = 4\<rparr>,
        u_path_type = OPAQUE_PART, u_pathquery = \<lparr>tk_buff = Some 1006, tk_size = 1\<rparr>,
        u_fragment = null_token, u_hostport = null_hostport\<rparr>"
  obtain l' where run: "copy_URL_list \<lparr>oom = [], junk = \<lambda>_. NUL\<rparr> 5000 248 sample_urls =
      Some (HTTP_SUCCESS, \<lparr>oom = [], junk = \<lambda>_. NUL\<rparr>, l')"
    using c by (simp add: copy_URL_list_def sample_urls_def malloc_ok_def am)
  have "\<exists>us'. ul_URLs l' = Some (5000, cstr (''<http:a>'' @ [NUL]) @ [NUL]) \<and> ul_parsedURLs l' = Some us' \<and>
      List.length us' = ul_size sample_urls \<and>
      token_view 5000 (cstr (''<http:a>'' @ [NUL]) @ [NUL]) (u_pathquery (us' ! 0)) = Some ''a''"
    by (rule copy_URL_list_faithful [OF run, where ib = 1000 and us = "[?u]" and sel = u_pathquery])
      (use c in \<open>simp_all add: sample_urls_def token_view_def\<close>)
  then show ?thesis using run c by auto
qed

end
