(* ===== verification/HttpScanner.thy ===== *)
theory HttpScanner
  imports Uri "HOL-Library.Monad_Syntax"
begin

text \<open>
  The scanner of \<open>upnp/src/genlib/net/http/httpparser.c\<close>: the tokens of an HTTP message, the
  matchers built on them, and the format interpreter \<open>vfmatch\<close>.

  \<open>sc_msg\<close> holds the bytes \<open>msg->buf[0 .. msg->length - 1]\<close> of the buffer the scanner points to;
  the byte after them is the terminator. A token is an offset into it and a length (\<open>span\<close>). The
  variable arguments of \<open>vfmatch\<close> are the list of the values it writes, in order. \<open>None\<close> is a read
  outside the buffer or a format the source rejects with \<open>assert(0)\<close>.
\<close>

section \<open>Data\<close>

datatype token_type =
  TT_IDENTIFIER | TT_WHITESPACE | TT_CRLF | TT_CTRL | TT_SEPARATOR | TT_QUOTEDSTRING

datatype parse_status =
  PARSE_SUCCESS | PARSE_INCOMPLETE | PARSE_INCOMPLETE_ENTITY | PARSE_FAILURE | PARSE_OK
| PARSE_NO_MATCH | PARSE_CONTINUE_1

record span =
  sp_off :: nat
  sp_len :: nat

record scanner =
  sc_msg :: string
  sc_cursor :: nat
  sc_loaded :: bool

datatype arg = StrArg span | IntArg int | UriArg uri_type

abbreviation TAB :: char where "TAB \<equiv> CHR 0x09"
abbreviation TOKCHAR_CR :: char where "TOKCHAR_CR \<equiv> CHR 0x0D"
abbreviation TOKCHAR_LF :: char where "TOKCHAR_LF \<equiv> CHR 0x0A"

text \<open>What a span denotes: the bytes from its first one on, and its own bytes.\<close>

definition span_rest :: "string \<Rightarrow> span \<Rightarrow> string" where
  "span_rest m t = drop (sp_off t) m"

definition span_text :: "string \<Rightarrow> span \<Rightarrow> string" where
  "span_text m t = take (sp_len t) (drop (sp_off t) m)"


section \<open>Character classes\<close>

definition scanner_init :: "string \<Rightarrow> scanner" where
  "scanner_init m = \<lparr>sc_msg = m, sc_cursor = 0, sc_loaded = False\<rparr>"

definition is_separator_char :: "char \<Rightarrow> bool" where
  "is_separator_char c =
     strchr_found ('' '' @ [TAB] @ ''()<>@,;:'' @ [CHR 0x5C] @ [CHR 0x22] @ ''/[]?={}'') c"

definition is_identifier_char :: "char \<Rightarrow> bool" where
  "is_identifier_char c \<longleftrightarrow> 32 \<le> schar c \<and> schar c \<le> 126 \<and> \<not> is_separator_char c"

definition is_control_char :: "char \<Rightarrow> bool" where
  "is_control_char c \<longleftrightarrow> (0 \<le> schar c \<and> schar c \<le> 31) \<or> schar c = 127"

definition is_qdtext_char :: "char \<Rightarrow> bool" where
  "is_qdtext_char c \<longleftrightarrow>
     (32 \<le> schar c \<and> schar c \<noteq> 127) \<or> schar c < 0 \<or> c = TOKCHAR_CR \<or> c = TOKCHAR_LF \<or> c = TAB"

definition is_ws_char :: "char \<Rightarrow> bool" where
  "is_ws_char c \<longleftrightarrow> c = CHR '' '' \<or> c = TAB"


section \<open>Tokens\<close>

text \<open>The loop over a quoted string, with the number of bytes read so far.\<close>

fun quoted_loop :: "string \<Rightarrow> nat \<Rightarrow> parse_status + nat" where
  "quoted_loop [] n = Inl PARSE_INCOMPLETE"
| "quoted_loop (c # cs) n =
     (if c = CHR 0x22 then Inr (Suc n)
      else if c = CHR 0x5C then
        (case cs of [] \<Rightarrow> Inl PARSE_INCOMPLETE | _ # ds \<Rightarrow> quoted_loop ds (Suc (Suc n)))
      else if is_qdtext_char c then quoted_loop cs (Suc n)
      else Inl PARSE_FAILURE)"

text \<open>The body of \<open>scanner_get_token\<close> on the bytes from the cursor to the end of the buffer.\<close>

definition run_length :: "(char \<Rightarrow> bool) \<Rightarrow> string \<Rightarrow> nat" where
  "run_length p cs = Suc (List.length (takeWhile p cs))"

definition next_token :: "bool \<Rightarrow> string \<Rightarrow> parse_status + (nat \<times> token_type)" where
  "next_token loaded s =
     (case s of
        [] \<Rightarrow> Inl PARSE_INCOMPLETE
      | c # cs \<Rightarrow>
          if is_identifier_char c then
            (let n = run_length is_identifier_char cs
             in if \<not> loaded \<and> n = List.length s then Inl PARSE_INCOMPLETE else Inr (n, TT_IDENTIFIER))
          else if is_ws_char c then
            (let n = run_length is_ws_char cs
             in if \<not> loaded \<and> n = List.length s then Inl PARSE_INCOMPLETE else Inr (n, TT_WHITESPACE))
          else if c = TOKCHAR_CR then
            (case cs of
               [] \<Rightarrow> Inl PARSE_INCOMPLETE
             | d # _ \<Rightarrow> if d \<noteq> TOKCHAR_LF then Inr (1, TT_CTRL) else Inr (2, TT_CRLF))
          else if c = TOKCHAR_LF then Inr (1, TT_CRLF)
          else if c = CHR 0x22 then
            (case quoted_loop cs 1 of Inl st \<Rightarrow> Inl st | Inr n \<Rightarrow> Inr (n, TT_QUOTEDSTRING))
          else if is_separator_char c then Inr (1, TT_SEPARATOR)
          else if is_control_char c then Inr (1, TT_CTRL)
          else Inl PARSE_FAILURE)"

definition scanner_get_token :: "scanner \<Rightarrow> (scanner \<times> (parse_status + (span \<times> token_type))) option" where
  "scanner_get_token sc =
     (if List.length (sc_msg sc) < sc_cursor sc then None
      else case next_token (sc_loaded sc) (drop (sc_cursor sc) (sc_msg sc)) of
             Inl st \<Rightarrow> Some (sc, Inl st)
           | Inr (n, ty) \<Rightarrow>
               Some (sc\<lparr>sc_cursor := sc_cursor sc + n\<rparr>, Inr (\<lparr>sp_off = sc_cursor sc, sp_len = n\<rparr>, ty)))"

lemma quoted_loop_bounds: "quoted_loop cs n = Inr k \<Longrightarrow> n < k \<and> k \<le> n + List.length cs"
  by (induction cs n arbitrary: k rule: quoted_loop.induct) (force split: if_splits list.splits)+

lemma run_length_bounds: "0 < run_length p cs" "run_length p cs \<le> Suc (List.length cs)"
  by (simp_all add: run_length_def length_takeWhile_le)

lemma next_token_bounds:
  assumes "next_token l s = Inr (n, ty)"
  shows "0 < n \<and> n \<le> List.length s"
proof (cases s)
  case Nil
  then show ?thesis using assms by (simp add: next_token_def)
next
  case (Cons c cs)
  have q: "quoted_loop cs (Suc 0) = Inr k \<Longrightarrow> 0 < k \<and> k \<le> Suc (List.length cs)" for k
    using quoted_loop_bounds [of cs "Suc 0" k] by simp
  show ?thesis
    using assms Cons
    by (auto simp: next_token_def Let_def run_length_bounds dest!: q
             split: if_split_asm sum.split_asm list.split_asm)
qed

text \<open>Every token is a non-empty piece of the buffer at the cursor, and the cursor moves past it.\<close>

lemma scanner_get_token_Some:
  assumes "scanner_get_token sc = Some (sc', Inr (t, ty))"
  shows "sc_msg sc' = sc_msg sc \<and> sc_loaded sc' = sc_loaded sc \<and> sp_off t = sc_cursor sc \<and> 0 < sp_len t \<and>
         sc_cursor sc' = sc_cursor sc + sp_len t \<and> sc_cursor sc' \<le> List.length (sc_msg sc)"
proof -
  from assms obtain n where n: "next_token (sc_loaded sc) (drop (sc_cursor sc) (sc_msg sc)) = Inr (n, ty)"
    "sc' = sc\<lparr>sc_cursor := sc_cursor sc + n\<rparr>" "t = \<lparr>sp_off = sc_cursor sc, sp_len = n\<rparr>"
    and c: "sc_cursor sc \<le> List.length (sc_msg sc)"
    by (auto simp: scanner_get_token_def split: if_splits sum.splits)
  from next_token_bounds [OF n(1)] c show ?thesis by (auto simp: n)
qed

lemma scanner_get_token_error: "scanner_get_token sc = Some (sc', Inl st) \<Longrightarrow> sc' = sc"
  by (auto simp: scanner_get_token_def split: if_splits sum.splits)

lemma scanner_get_token_progress:
  "scanner_get_token sc = Some (sc', Inr r) \<Longrightarrow>
     List.length (sc_msg sc') - sc_cursor sc' < List.length (sc_msg sc) - sc_cursor sc"
  by (cases r) (auto dest: scanner_get_token_Some)


section \<open>Matchers\<close>

text \<open>\<open>sc_get_str\<close> is the offset of the next character: \<open>scanner_get_str\<close> points there.\<close>

definition scanner_get_str :: "scanner \<Rightarrow> nat" where
  "scanner_get_str sc = sc_cursor sc"

abbreviation push_back :: "span \<Rightarrow> scanner \<Rightarrow> scanner" where
  "push_back t sc \<equiv> sc\<lparr>sc_cursor := sc_cursor sc - sp_len t\<rparr>"

abbreviation remaining :: "scanner \<Rightarrow> nat" where
  "remaining sc \<equiv> List.length (sc_msg sc) - sc_cursor sc"

text \<open>
  The loops of the matchers read one token per round. \<open>body\<close> is the rest of the round: the new
  values of the loop's variables, or \<open>None\<close> when the token ends the loop. The result is the scanner
  after the last token, the variables, and the error that ended the loop or the token that did.
\<close>

function token_loop ::
  "('s \<Rightarrow> span \<Rightarrow> token_type \<Rightarrow> 's option) \<Rightarrow> scanner \<Rightarrow> 's \<Rightarrow> (scanner \<times> 's \<times> (parse_status + span)) option"
where
  "token_loop body sc s =
     (case scanner_get_token sc of
        None \<Rightarrow> None
      | Some (sc', Inl st) \<Rightarrow> Some (sc', s, Inl st)
      | Some (sc', Inr (t, ty)) \<Rightarrow>
          (case body s t ty of
             Some s' \<Rightarrow> token_loop body sc' s'
           | None \<Rightarrow> Some (sc', s, Inr t)))"
  by pat_completeness auto
termination
  by (relation "measure (\<lambda>(body, sc, s). remaining sc)")
    (auto dest!: scanner_get_token_progress sym [of "Some _"])

declare token_loop.simps [simp del]

definition blank_body :: "unit \<Rightarrow> span \<Rightarrow> token_type \<Rightarrow> unit option" where
  "blank_body s t ty = (if ty = TT_WHITESPACE \<or> ty = TT_CRLF then Some () else None)"

definition skip_blank_lines :: "scanner \<Rightarrow> (parse_status \<times> scanner) option" where
  "skip_blank_lines sc =
     map_option
       (\<lambda>(sc', _, r). case r of Inl st \<Rightarrow> (st, sc') | Inr t \<Rightarrow> (PARSE_OK, push_back t sc'))
       (token_loop blank_body sc ())"

text \<open>
  \<open>skip_lws\<close>: the variables are \<open>save_pos\<close>, and whether this round has read a CRLF before the
  whitespace. However the loop ends, the tokens of the unfinished round are pushed back.
\<close>

definition lws_body :: "nat \<times> bool \<Rightarrow> span \<Rightarrow> token_type \<Rightarrow> (nat \<times> bool) option" where
  "lws_body s t ty =
     (case s of (save_pos, crlf) \<Rightarrow>
        if ty = TT_WHITESPACE then Some (sp_off t + sp_len t, False)
        else if ty = TT_CRLF \<and> \<not> crlf then Some (save_pos, True)
        else None)"

definition skip_lws :: "scanner \<Rightarrow> (parse_status \<times> scanner) option" where
  "skip_lws sc =
     map_option
       (\<lambda>(sc', (save_pos, _), r).
          (case r of
             Inl st \<Rightarrow> if st = PARSE_INCOMPLETE \<and> sc_loaded sc' then PARSE_OK else st
           | Inr t \<Rightarrow> PARSE_OK,
           sc'\<lparr>sc_cursor := save_pos\<rparr>))
       (token_loop lws_body sc (sc_cursor sc, False))"

text \<open>\<open>match_non_ws_string\<close>: the variable is the length of the string.\<close>

definition non_ws_body :: "nat \<Rightarrow> span \<Rightarrow> token_type \<Rightarrow> nat option" where
  "non_ws_body len t ty = (if ty \<noteq> TT_WHITESPACE \<and> ty \<noteq> TT_CRLF then Some (len + sp_len t) else None)"

definition match_non_ws_string :: "scanner \<Rightarrow> (parse_status \<times> scanner \<times> span) option" where
  "match_non_ws_string sc =
     map_option
       (\<lambda>(sc', len, r).
          let str = \<lparr>sp_off = scanner_get_str sc, sp_len = len\<rparr>;
              found = (if len = 0 then PARSE_NO_MATCH else PARSE_OK)
          in case r of
               Inr t \<Rightarrow> (found, push_back t sc', str)
             | Inl st \<Rightarrow> if st = PARSE_INCOMPLETE \<and> sc_loaded sc' then (found, sc', str)
                         else (st, sc'\<lparr>sc_cursor := sc_cursor sc\<rparr>, str))
       (token_loop non_ws_body sc 0)"

text \<open>
  \<open>match_raw_value\<close>: the variables are \<open>pos_at_crlf\<close> when \<open>saw_crlf\<close> holds, and the length.
\<close>

definition raw_body :: "nat option \<times> nat \<Rightarrow> span \<Rightarrow> token_type \<Rightarrow> (nat option \<times> nat) option" where
  "raw_body s t ty =
     (case s of
        (None, len) \<Rightarrow> Some (if ty = TT_CRLF then Some (sp_off t) else None, len + sp_len t)
      | (Some pos_at_crlf, len) \<Rightarrow>
          if ty = TT_WHITESPACE then Some (None, len + sp_len t) else None)"

definition is_trim_char :: "char \<Rightarrow> bool" where
  "is_trim_char c \<longleftrightarrow> c = CHR '' '' \<or> c = TAB \<or> c = TOKCHAR_CR \<or> c = TOKCHAR_LF"

definition trim_right :: "string \<Rightarrow> string" where
  "trim_right s = rev (dropWhile is_trim_char (rev s))"

definition match_raw_value :: "scanner \<Rightarrow> (parse_status \<times> scanner \<times> span) option" where
  "match_raw_value sc =
     map_option
       (\<lambda>(sc', (crlf, len), r).
          let start = scanner_get_str sc
          in case r of
               Inl st \<Rightarrow> (st, sc'\<lparr>sc_cursor := sc_cursor sc\<rparr>, \<lparr>sp_off = start, sp_len = len\<rparr>)
             | Inr t \<Rightarrow> (PARSE_OK, sc'\<lparr>sc_cursor := the crlf\<rparr>,
                         \<lparr>sp_off = start,
                          sp_len = List.length (trim_right (take len (drop start (sc_msg sc))))\<rparr>))
       (token_loop raw_body sc (None, 0))"

definition line_body :: "unit \<Rightarrow> span \<Rightarrow> token_type \<Rightarrow> unit option" where
  "line_body s t ty = (if ty \<noteq> TT_CRLF then Some () else None)"

text \<open>
  \<open>read_until_crlf\<close>: the string is written on success; on an error only its start is.
\<close>

definition read_until_crlf :: "scanner \<Rightarrow> (parse_status \<times> scanner \<times> span option) option" where
  "read_until_crlf sc =
     map_option
       (\<lambda>(sc', _, r).
          case r of
            Inl st \<Rightarrow> (st, sc', None)
          | Inr t \<Rightarrow> (PARSE_OK, push_back t sc',
                      Some \<lparr>sp_off = scanner_get_str sc,
                            sp_len = sc_cursor (push_back t sc') - sc_cursor sc\<rparr>))
       (token_loop line_body sc ())"


section \<open>Numbers\<close>

text \<open>
  \<open>strtol\<close> for base 10 and 16 on the bytes up to the terminator: the value (clamped to \<open>long\<close>),
  how many characters it read, and whether \<open>errno\<close> is \<open>ERANGE\<close>.
\<close>

definition digit_of :: "nat \<Rightarrow> char \<Rightarrow> bool" where
  "digit_of base c = (if base = 16 then isxdigit c else isdigit c)"

definition num_value :: "nat \<Rightarrow> string \<Rightarrow> nat" where
  "num_value base ds = foldl (\<lambda>v c. base * v + hex_value c) 0 ds"

definition hex_prefix :: "nat \<Rightarrow> string \<Rightarrow> nat" where
  "hex_prefix base s =
     (if base = 16 \<and> cchar_at s 0 = CHR ''0'' \<and> tolower (cchar_at s 1) = CHR ''x'' \<and> isxdigit (cchar_at s 2)
      then 2 else 0)"

definition strtol :: "nat \<Rightarrow> string \<Rightarrow> int \<times> nat \<times> bool" where
  "strtol base s0 =
     (let ws = List.length (takeWhile isspace s0);
          s = drop ws s0;
          neg = (cchar_at s 0 = CHR ''-'');
          sg = (if neg \<or> cchar_at s 0 = CHR ''+'' then 1 else 0);
          pre = hex_prefix base (drop sg s);
          ds = takeWhile (digit_of base) (drop (sg + pre) s);
          v = (if neg then - int (num_value base ds) else int (num_value base ds))
      in if ds = [] then (0, 0, False)
         else (max (- LONG_MAX - 1) (min LONG_MAX v), ws + sg + pre + List.length ds,
               v < - LONG_MAX - 1 \<or> LONG_MAX < v))"

text \<open>The test \<open>match_int\<close> and \<open>raw_to_int\<close> share: a number that fills the whole token.\<close>

definition bad_number :: "int \<times> nat \<times> bool \<Rightarrow> nat \<Rightarrow> bool" where
  "bad_number r len =
     (case r of (num, stop, erange) \<Rightarrow>
        num < 0 \<or> stop \<noteq> len \<or> ((num = - LONG_MAX - 1 \<or> num = LONG_MAX) \<and> erange))"

definition match_int :: "scanner \<Rightarrow> nat \<Rightarrow> (parse_status \<times> scanner \<times> int option) option" where
  "match_int sc base =
     (case scanner_get_token sc of
        None \<Rightarrow> None
      | Some (sc', Inl st) \<Rightarrow> Some (st, sc'\<lparr>sc_cursor := sc_cursor sc\<rparr>, None)
      | Some (sc', Inr (t, ty)) \<Rightarrow>
          if ty = TT_IDENTIFIER then
            (let r = strtol base (span_rest (sc_msg sc) t); v = c_int (fst r)
             in if bad_number r (sp_len t) then Some (PARSE_NO_MATCH, sc'\<lparr>sc_cursor := sc_cursor sc\<rparr>, Some v)
                else Some (PARSE_OK, sc', Some v))
          else Some (PARSE_NO_MATCH, sc'\<lparr>sc_cursor := sc_cursor sc\<rparr>, None))"

definition match_char :: "scanner \<Rightarrow> char \<Rightarrow> bool \<Rightarrow> parse_status \<times> scanner" where
  "match_char sc c case_sensitive =
     (if List.length (sc_msg sc) \<le> sc_cursor sc then (PARSE_INCOMPLETE, sc)
      else
        (let scan_char = sc_msg sc ! sc_cursor sc;
             same = (if case_sensitive then c = scan_char else tolower c = tolower scan_char)
         in (if same then PARSE_OK else PARSE_NO_MATCH, sc\<lparr>sc_cursor := Suc (sc_cursor sc)\<rparr>)))"


section \<open>The format interpreter\<close>

text \<open>
  \<open>match_token\<close> is what \<open>%s\<close>, \<open>%c\<close>, \<open>%q\<close> and a tab share: the next token, which must have the
  given type.
\<close>

definition match_token :: "scanner \<Rightarrow> token_type \<Rightarrow> (parse_status \<times> scanner \<times> span option) option" where
  "match_token sc ty0 =
     (case scanner_get_token sc of
        None \<Rightarrow> None
      | Some (sc', Inl st) \<Rightarrow> Some (st, sc', None)
      | Some (sc', Inr (t, ty)) \<Rightarrow> Some (if ty = ty0 then PARSE_OK else PARSE_NO_MATCH, sc', Some t))"

text \<open>
  A directive \<open>%d\<close>: the status, the new \<open>case_sensitive\<close>, the scanner and the values written.
\<close>

definition match_directive ::
  "net_env \<Rightarrow> char \<Rightarrow> bool \<Rightarrow> scanner \<Rightarrow> (parse_status \<times> bool \<times> scanner \<times> arg list) option" where
  "match_directive env d cs sc =
     (if d = CHR ''R'' then
        map_option (\<lambda>(st, sc', t). (st, cs, sc', [StrArg t])) (match_raw_value sc)
      else if d = CHR ''s'' then
        map_option (\<lambda>(st, sc', t). (st, cs, sc', (case t of None \<Rightarrow> [] | Some t \<Rightarrow> [StrArg t])))
          (match_token sc TT_IDENTIFIER)
      else if d = CHR ''c'' then
        map_option (\<lambda>(st, sc', t). (st, cs, sc', [])) (match_token sc TT_CRLF)
      else if d = CHR ''d'' \<or> d = CHR ''x'' then
        map_option (\<lambda>(st, sc', v). (st, cs, sc', (case v of None \<Rightarrow> [] | Some v \<Rightarrow> [IntArg v])))
          (match_int sc (if d = CHR ''d'' then 10 else 16))
      else if d = CHR ''S'' then
        map_option (\<lambda>(st, sc', t). (st, cs, sc', [StrArg t])) (match_non_ws_string sc)
      else if d = CHR ''U'' then
        (case match_non_ws_string sc of
           None \<Rightarrow> None
         | Some (st, sc', t) \<Rightarrow>
             if st = PARSE_OK then
               (case parse_uri env (span_rest (sc_msg sc) t) (sp_len t) of
                  None \<Rightarrow> None
                | Some (Inl e) \<Rightarrow> Some (PARSE_NO_MATCH, cs, sc', [])
                | Some (Inr u) \<Rightarrow> Some (PARSE_OK, cs, sc', [UriArg u]))
             else Some (st, cs, sc', []))
      else if d = CHR ''L'' then
        map_option (\<lambda>(st, sc', t). (st, cs, sc', (case t of None \<Rightarrow> [] | Some t \<Rightarrow> [StrArg t])))
          (read_until_crlf sc)
      else if d = CHR '' '' \<or> d = CHR ''%'' then
        (case match_char sc d cs of (st, sc') \<Rightarrow> Some (st, cs, sc', []))
      else if d = CHR ''n'' then Some (PARSE_OK, True, sc, [])
      else if d = CHR ''i'' then Some (PARSE_OK, False, sc, [])
      else if d = CHR ''q'' then
        map_option (\<lambda>(st, sc', t). (st, cs, sc', (case t of None \<Rightarrow> [] | Some t \<Rightarrow> [StrArg t])))
          (match_token sc TT_QUOTEDSTRING)
      else if d = CHR ''w'' then
        (case scanner_get_token sc of
           None \<Rightarrow> None
         | Some (sc', Inl st) \<Rightarrow> Some (st, cs, sc', [])
         | Some (sc', Inr (t, ty)) \<Rightarrow>
             Some (PARSE_OK, cs, if ty \<noteq> TT_WHITESPACE then push_back t sc' else sc', []))
      else if d = CHR ''P'' then Some (PARSE_OK, cs, sc, [IntArg (c_int (int (sc_cursor sc)))])
      else if d = CHR ''0'' then
        Some (if sc_cursor sc = List.length (sc_msg sc) then PARSE_OK else PARSE_NO_MATCH, cs, sc, [])
      else None)"

definition match_literal :: "char \<Rightarrow> bool \<Rightarrow> scanner \<Rightarrow> (parse_status \<times> scanner) option" where
  "match_literal c cs sc =
     (if c = CHR '' '' then skip_lws sc
      else if c = TAB then map_option (\<lambda>(st, sc', t). (st, sc')) (match_token sc TT_WHITESPACE)
      else Some (match_char sc c cs))"

text \<open>The loop of \<open>vfmatch\<close> over the format, with the values written so far.\<close>

fun vfmatch_loop ::
  "net_env \<Rightarrow> string \<Rightarrow> bool \<Rightarrow> scanner \<Rightarrow> arg list \<Rightarrow> (parse_status \<times> scanner \<times> arg list) option" where
  "vfmatch_loop env [] cs sc outs = Some (PARSE_OK, sc, outs)"
| "vfmatch_loop env [c] cs sc outs =
     (if c = CHR ''%'' then None
      else map_option (\<lambda>(st, sc'). (st, sc', outs)) (match_literal c cs sc))"
| "vfmatch_loop env (c # d # f) cs sc outs =
     (if c = CHR ''%'' then
        (case match_directive env d cs sc of
           None \<Rightarrow> None
         | Some (st, cs', sc', vs) \<Rightarrow>
             if st = PARSE_OK then vfmatch_loop env f cs' sc' (outs @ vs) else Some (st, sc', outs @ vs))
      else
        (case match_literal c cs sc of
           None \<Rightarrow> None
         | Some (st, sc') \<Rightarrow>
             if st = PARSE_OK then vfmatch_loop env (d # f) cs sc' outs else Some (st, sc', outs)))"

definition vfmatch ::
  "net_env \<Rightarrow> scanner \<Rightarrow> string \<Rightarrow> (parse_status \<times> scanner \<times> arg list) option" where
  "vfmatch env sc fmt =
     map_option (\<lambda>(st, sc', outs). (st, if st = PARSE_OK then sc' else sc'\<lparr>sc_cursor := sc_cursor sc\<rparr>, outs))
       (vfmatch_loop env fmt True sc [])"

definition match_fmt ::
  "net_env \<Rightarrow> scanner \<Rightarrow> string \<Rightarrow> (parse_status \<times> scanner \<times> arg list) option" where
  "match_fmt env sc fmt = vfmatch env sc fmt"

text \<open>
  \<open>matchstr\<close> on the first \<open>slen\<close> bytes of a block, which must have a byte after them for the
  terminator.
\<close>

definition matchstr ::
  "net_env \<Rightarrow> string \<Rightarrow> nat \<Rightarrow> string \<Rightarrow> (parse_status \<times> arg list) option" where
  "matchstr env str slen fmt =
     (if List.length str \<le> slen then None
      else map_option (\<lambda>(st, sc, outs). (st, outs))
             (vfmatch env \<lparr>sc_msg = take slen str, sc_cursor = 0, sc_loaded = True\<rparr> fmt))"

end
