(* ===== verification/HttpParser.thy ===== *)
theory HttpParser
  imports HttpScanner StrIntMap ItemQueue
begin

text \<open>
  The message parser of \<open>upnp/src/genlib/net/http/httpparser.c\<close>: request and response lines,
  headers, and the ways an entity is read.

  The parser's scanner is the contents of the message buffer with a cursor (\<open>parser_scanner\<close>);
  \<open>entire_msg_loaded\<close> stays FALSE in it. The header list is the queue of \<open>ItemQueue\<close>, which
  \<open>LinkedList\<close> implements; a pointer to a header is its index. \<open>entity.buf\<close> is an offset into the
  message buffer. Allocations follow \<open>alloc_env\<close>. \<open>None\<close> is undefined behaviour, a failed
  \<open>assert\<close>, or a loop that does not end.
\<close>

section \<open>Tables\<close>

datatype http_method =
  HTTPMETHOD_POST | HTTPMETHOD_MPOST | HTTPMETHOD_SUBSCRIBE | HTTPMETHOD_UNSUBSCRIBE
| HTTPMETHOD_NOTIFY | HTTPMETHOD_GET | HTTPMETHOD_HEAD | HTTPMETHOD_MSEARCH | HTTPMETHOD_UNKNOWN
| SOAPMETHOD_POST | HTTPMETHOD_SIMPLEGET

definition http_methods :: "http_method list" where
  "http_methods =
     [HTTPMETHOD_POST, HTTPMETHOD_MPOST, HTTPMETHOD_SUBSCRIBE, HTTPMETHOD_UNSUBSCRIBE,
      HTTPMETHOD_NOTIFY, HTTPMETHOD_GET, HTTPMETHOD_HEAD, HTTPMETHOD_MSEARCH, HTTPMETHOD_UNKNOWN,
      SOAPMETHOD_POST, HTTPMETHOD_SIMPLEGET]"

text \<open>The number of an enumerator, and the conversion back.\<close>

primrec method_id :: "http_method \<Rightarrow> int" where
  "method_id HTTPMETHOD_POST = 0" | "method_id HTTPMETHOD_MPOST = 1"
| "method_id HTTPMETHOD_SUBSCRIBE = 2" | "method_id HTTPMETHOD_UNSUBSCRIBE = 3"
| "method_id HTTPMETHOD_NOTIFY = 4" | "method_id HTTPMETHOD_GET = 5" | "method_id HTTPMETHOD_HEAD = 6"
| "method_id HTTPMETHOD_MSEARCH = 7" | "method_id HTTPMETHOD_UNKNOWN = 8"
| "method_id SOAPMETHOD_POST = 9" | "method_id HTTPMETHOD_SIMPLEGET = 10"

definition method_of_id :: "int \<Rightarrow> http_method" where
  "method_of_id i = http_methods ! nat i"

definition NUM_HTTP_METHODS :: int where "NUM_HTTP_METHODS = 9"

definition Http_Method_Table :: "str_int_entry list" where
  "Http_Method_Table =
     [entry ''GET'' (method_id HTTPMETHOD_GET), entry ''HEAD'' (method_id HTTPMETHOD_HEAD),
      entry ''M-POST'' (method_id HTTPMETHOD_MPOST), entry ''M-SEARCH'' (method_id HTTPMETHOD_MSEARCH),
      entry ''NOTIFY'' (method_id HTTPMETHOD_NOTIFY), entry ''POST'' (method_id HTTPMETHOD_POST),
      entry ''SUBSCRIBE'' (method_id HTTPMETHOD_SUBSCRIBE),
      entry ''UNSUBSCRIBE'' (method_id HTTPMETHOD_UNSUBSCRIBE),
      entry ''POST'' (method_id SOAPMETHOD_POST)]"

definition HDR_UNKNOWN :: int where "HDR_UNKNOWN = -1"
definition HDR_CONTENT_LENGTH :: int where "HDR_CONTENT_LENGTH = 3"
definition HDR_SOAPACTION :: int where "HDR_SOAPACTION = 19"
definition HDR_TRANSFER_ENCODING :: int where "HDR_TRANSFER_ENCODING = 22"

definition NUM_HTTP_HEADER_NAMES :: int where "NUM_HTTP_HEADER_NAMES = 34"

definition Http_Header_Names :: "str_int_entry list" where
  "Http_Header_Names =
     [entry ''ACCEPT'' 25, entry ''ACCEPT-CHARSET'' 27, entry ''ACCEPT-ENCODING'' 26,
      entry ''ACCEPT-LANGUAGE'' 28, entry ''ACCEPT-RANGES'' 29, entry ''CACHE-CONTROL'' 1,
      entry ''CALLBACK'' 2, entry ''CONTENT-ENCODING'' 30, entry ''CONTENT-LANGUAGE'' 31,
      entry ''CONTENT-LENGTH'' HDR_CONTENT_LENGTH, entry ''CONTENT-LOCATION'' 32,
      entry ''CONTENT-RANGE'' 33, entry ''CONTENT-TYPE'' 4, entry ''DATE'' 5, entry ''DT'' 23,
      entry ''EXT'' 6, entry ''HOST'' 7, entry ''IF-RANGE'' 34, entry ''LOCATION'' 11,
      entry ''MAN'' 12, entry ''MX'' 13, entry ''NT'' 14, entry ''NTS'' 15, entry ''RANGE'' 35,
      entry ''SEQ'' 17, entry ''SERVER'' 16, entry ''SID'' 18,
      entry ''SOAPACTION'' HDR_SOAPACTION, entry ''ST'' 20, entry ''TE'' 36, entry ''TIMEOUT'' 21,
      entry ''TRANSFER-ENCODING'' HDR_TRANSFER_ENCODING, entry ''UID'' 37, entry ''USER-AGENT'' 24]"

definition HTTP_BAD_REQUEST :: int where "HTTP_BAD_REQUEST = 400"
definition HTTP_LENGTH_REQUIRED :: int where "HTTP_LENGTH_REQUIRED = 411"
definition HTTP_INTERNAL_SERVER_ERROR :: int where "HTTP_INTERNAL_SERVER_ERROR = 500"
definition HTTP_NOT_IMPLEMENTED :: int where "HTTP_NOT_IMPLEMENTED = 501"
definition HTTP_HTTP_VERSION_NOT_SUPPORTED :: int where "HTTP_HTTP_VERSION_NOT_SUPPORTED = 505"


section \<open>Messages and the parser\<close>

datatype parser_pos = POS_REQUEST_LINE | POS_RESPONSE_LINE | POS_HEADERS | POS_ENTITY | POS_COMPLETE

datatype ent_pos =
  ENTREAD_DETERMINE_READ_METHOD | ENTREAD_USING_CLEN | ENTREAD_USING_CHUNKED | ENTREAD_UNTIL_CLOSE
| ENTREAD_CHUNKY_BODY | ENTREAD_CHUNKY_HEADERS

record http_header =
  h_name :: memptr
  h_name_id :: int
  h_value :: membuffer
  h_name_buf :: membuffer

record http_message =
  hm_initialized :: bool
  hm_method :: http_method
  hm_uri :: uri_type
  hm_request_method :: http_method
  hm_status_code :: int
  hm_status_msg :: membuffer
  hm_amount_discarded :: nat
  hm_is_request :: bool
  hm_major_version :: int
  hm_minor_version :: int
  hm_headers :: "http_header queue"
  hm_entity_buf :: "nat option"
  hm_entity_length :: nat
  hm_msg :: membuffer
  hm_urlbuf :: "string option"

record http_parser =
  p_msg :: http_message
  p_http_error_code :: int
  p_valid_ssdp_notify_hack :: bool
  p_position :: parser_pos
  p_ent_position :: ent_pos
  p_content_length :: nat
  p_chunk_size :: nat
  p_entity_start_position :: nat
  p_cursor :: nat

definition new_membuffer :: membuffer where
  "new_membuffer = membuffer_init \<lparr>mb_buf = None, mb_length = 0, mb_capacity = 0, mb_size_inc = 0\<rparr>"

definition parser_scanner :: "http_parser \<Rightarrow> scanner" where
  "parser_scanner p = \<lparr>sc_msg = contents (hm_msg (p_msg p)), sc_cursor = p_cursor p, sc_loaded = False\<rparr>"

abbreviation set_cursor :: "scanner \<Rightarrow> http_parser \<Rightarrow> http_parser" where
  "set_cursor sc p \<equiv> p\<lparr>p_cursor := sc_cursor sc\<rparr>"

abbreviation upd_msg :: "(http_message \<Rightarrow> http_message) \<Rightarrow> http_parser \<Rightarrow> http_parser" where
  "upd_msg f p \<equiv> p\<lparr>p_msg := f (p_msg p)\<rparr>"

abbreviation fail_with :: "int \<Rightarrow> http_parser \<Rightarrow> http_parser" where
  "fail_with c p \<equiv> p\<lparr>p_http_error_code := c\<rparr>"


section \<open>Header lists\<close>

fun find_index :: "('a \<Rightarrow> bool) \<Rightarrow> 'a list \<Rightarrow> nat option" where
  "find_index f [] = None"
| "find_index f (x # xs) = (if f x then Some 0 else map_option Suc (find_index f xs))"

definition httpmsg_compare :: "int \<Rightarrow> http_header \<Rightarrow> bool" where
  "httpmsg_compare name_id h \<longleftrightarrow> name_id = h_name_id h"

definition httpheader_free :: "http_header \<Rightarrow> membuffer \<times> membuffer" where
  "httpheader_free h = (membuffer_init (h_name_buf h), membuffer_init (h_value h))"

definition httpmsg_init :: "http_message \<Rightarrow> http_message" where
  "httpmsg_init m =
     m\<lparr>hm_initialized := True, hm_entity_buf := None, hm_entity_length := 0, hm_headers := q_empty,
       hm_msg := membuffer_init (hm_msg m), hm_status_msg := membuffer_init (hm_status_msg m)\<rparr>"

text \<open>The headers freed, and the message; \<open>urlbuf\<close> dangles afterwards.\<close>

definition httpmsg_destroy :: "http_message \<Rightarrow> http_header list \<times> http_message" where
  "httpmsg_destroy m =
     (if hm_initialized m then
        (q_items (hm_headers m),
         m\<lparr>hm_headers := q_empty, hm_msg := membuffer_init (hm_msg m),
           hm_status_msg := membuffer_init (hm_status_msg m), hm_initialized := False\<rparr>)
      else ([], m))"

definition httpmsg_find_hdr_str :: "http_message \<Rightarrow> string \<Rightarrow> nat option" where
  "httpmsg_find_hdr_str m header_name =
     find_index (\<lambda>h. memptr_cmp_nocase (h_name h) header_name = 0) (q_items (hm_headers m))"

definition httpmsg_find_hdr :: "http_message \<Rightarrow> int \<Rightarrow> nat option" where
  "httpmsg_find_hdr m header_name_id =
     find_index (httpmsg_compare header_name_id) (q_items (hm_headers m))"

abbreviation header_at :: "http_message \<Rightarrow> nat \<Rightarrow> http_header" where
  "header_at m i \<equiv> q_items (hm_headers m) ! i"

abbreviation set_header :: "nat \<Rightarrow> http_header \<Rightarrow> http_message \<Rightarrow> http_message" where
  "set_header i h m \<equiv>
     m\<lparr>hm_headers := (hm_headers m)\<lparr>q_items := (q_items (hm_headers m))[i := h]\<rparr>\<rparr>"


section \<open>Initialisation\<close>

definition zero_uri :: uri_type where
  "zero_uri =
     \<lparr>u_type = ABSOLUTE, u_scheme = null_token, u_path_type = ABS_PATH, u_pathquery = null_token,
      u_fragment = null_token, u_hostport = null_hostport\<rparr>"

text \<open>What \<open>memset(parser, 0, sizeof(http_parser_t))\<close> leaves.\<close>

definition zero_message :: http_message where
  "zero_message =
     \<lparr>hm_initialized = False, hm_method = HTTPMETHOD_POST, hm_uri = zero_uri,
      hm_request_method = HTTPMETHOD_POST, hm_status_code = 0,
      hm_status_msg = \<lparr>mb_buf = None, mb_length = 0, mb_capacity = 0, mb_size_inc = 0\<rparr>,
      hm_amount_discarded = 0, hm_is_request = False, hm_major_version = 0, hm_minor_version = 0,
      hm_headers = q_empty, hm_entity_buf = None, hm_entity_length = 0,
      hm_msg = \<lparr>mb_buf = None, mb_length = 0, mb_capacity = 0, mb_size_inc = 0\<rparr>, hm_urlbuf = None\<rparr>"

definition parser_init :: http_parser where
  "parser_init =
     \<lparr>p_msg = httpmsg_init zero_message, p_http_error_code = HTTP_BAD_REQUEST,
      p_valid_ssdp_notify_hack = False, p_position = POS_REQUEST_LINE,
      p_ent_position = ENTREAD_DETERMINE_READ_METHOD, p_content_length = 0, p_chunk_size = 0,
      p_entity_start_position = 0, p_cursor = 0\<rparr>"

definition parser_request_init :: http_parser where
  "parser_request_init =
     upd_msg (\<lambda>m. m\<lparr>hm_is_request := True\<rparr>) parser_init\<lparr>p_position := POS_REQUEST_LINE\<rparr>"

definition parser_response_init :: "http_method \<Rightarrow> http_parser" where
  "parser_response_init request_method =
     upd_msg (\<lambda>m. m\<lparr>hm_is_request := False, hm_request_method := request_method, hm_amount_discarded := 0\<rparr>)
       parser_init\<lparr>p_position := POS_RESPONSE_LINE\<rparr>"


section \<open>Request and response lines\<close>

text \<open>\<open>sscanf\<close> with a format of \<open>%d\<close>, blanks and literals: the integers it stores.\<close>

definition scan_int :: "string \<Rightarrow> (int \<times> string) option" where
  "scan_int s =
     (case strtol 10 s of (v, stop, _) \<Rightarrow> if stop = 0 then None else Some (c_int v, drop stop s))"

function sscanf_ints :: "string \<Rightarrow> string \<Rightarrow> int list" where
  "sscanf_ints [] s = []"
| "sscanf_ints (f # fs) s =
     (if f = CHR '' '' then sscanf_ints fs (dropWhile isspace s)
      else if f = CHR ''%'' then
        (case scan_int s of None \<Rightarrow> [] | Some (v, s') \<Rightarrow> v # sscanf_ints (tl fs) s')
      else (case s of [] \<Rightarrow> [] | c # s' \<Rightarrow> if c = f then sscanf_ints fs s' else []))"
  by pat_completeness auto
termination by (relation "measure (\<lambda>(fs, s). List.length fs)") auto

declare sscanf_ints.simps [simp del]

definition request_line_fmt0 :: string where
  "request_line_fmt0 = ''%s'' @ [TAB] @ ''%S%w%c''"

definition request_line_fmt :: string where
  "request_line_fmt = ''%s'' @ [TAB] @ ''%S'' @ [TAB] @ ''%ihttp%w/%w%L%c''"

abbreviation method_index :: "string \<Rightarrow> span \<Rightarrow> int" where
  "method_index m t \<equiv> map_str_to_int (span_rest m t) (sp_len t) Http_Method_Table NUM_HTTP_METHODS True"

text \<open>
  Storing the url and parsing it, which both kinds of request do: \<open>None\<close> as the status means that
  the caller goes on.
\<close>

definition store_url ::
  "net_env \<Rightarrow> alloc_env \<Rightarrow> http_parser \<Rightarrow> span \<Rightarrow> (parse_status option \<times> alloc_env \<times> http_parser) option" where
  "store_url env e p url =
     (case str_alloc e (span_rest (contents (hm_msg (p_msg p))) url) (sp_len url) of
        None \<Rightarrow> None
      | Some (None, e1) \<Rightarrow>
          Some (Some PARSE_FAILURE, e1,
                fail_with HTTP_INTERNAL_SERVER_ERROR (upd_msg (\<lambda>m. m\<lparr>hm_urlbuf := None\<rparr>) p))
      | Some (Some b, e1) \<Rightarrow>
          (let p1 = upd_msg (\<lambda>m. m\<lparr>hm_urlbuf := Some b\<rparr>) p
           in case parse_uri env (take (sp_len url) b) (sp_len url) of
                None \<Rightarrow> None
              | Some (Inl _) \<Rightarrow> Some (Some PARSE_FAILURE, e1, p1)
              | Some (Inr u) \<Rightarrow> Some (None, e1, upd_msg (\<lambda>m. m\<lparr>hm_uri := u\<rparr>) p1)))"

text \<open>A request without a version, which only GET has.\<close>

definition simple_request ::
  "net_env \<Rightarrow> alloc_env \<Rightarrow> http_parser \<Rightarrow> span \<Rightarrow> span \<Rightarrow> (parse_status \<times> alloc_env \<times> http_parser) option" where
  "simple_request env e p method_str url_str =
     (let index = method_index (contents (hm_msg (p_msg p))) method_str
      in if index < 0 then Some (PARSE_FAILURE, e, fail_with HTTP_NOT_IMPLEMENTED p)
         else if ent_id (Http_Method_Table ! nat index) \<noteq> method_id HTTPMETHOD_GET then
           Some (PARSE_FAILURE, e, fail_with HTTP_BAD_REQUEST p)
         else
           (case store_url env e (upd_msg (\<lambda>m. m\<lparr>hm_method := HTTPMETHOD_SIMPLEGET\<rparr>) p) url_str of
              None \<Rightarrow> None
            | Some (Some st, e1, p1) \<Rightarrow> Some (st, e1, p1)
            | Some (None, e1, p1) \<Rightarrow> Some (PARSE_SUCCESS, e1, p1\<lparr>p_position := POS_COMPLETE\<rparr>)))"

text \<open>The numbers \<open>sscanf\<close> stored, over the old values of the variables.\<close>

definition stored :: "int list \<Rightarrow> nat \<Rightarrow> int \<Rightarrow> int" where
  "stored vs i old = (if i < List.length vs then vs ! i else old)"

definition full_request ::
  "net_env \<Rightarrow> alloc_env \<Rightarrow> http_parser \<Rightarrow> span \<Rightarrow> span \<Rightarrow> span \<Rightarrow>
     (parse_status \<times> alloc_env \<times> http_parser) option" where
  "full_request env e p method_str url_str version_str =
     (case store_url env e p url_str of
        None \<Rightarrow> None
      | Some (Some st, e1, p1) \<Rightarrow> Some (st, e1, p1)
      | Some (None, e1, p1) \<Rightarrow>
          (let text = contents (hm_msg (p_msg p1));
               index = method_index text method_str
           in if index < 0 then Some (PARSE_FAILURE, e1, fail_with HTTP_NOT_IMPLEMENTED p1)
              else
                (let vs = sscanf_ints ''%d . %d'' (cstr (span_text text version_str));
                     major = stored vs 0 (hm_major_version (p_msg p1));
                     minor = stored vs 1 (hm_minor_version (p_msg p1));
                     p2 = upd_msg (\<lambda>m. m\<lparr>hm_major_version := major, hm_minor_version := minor\<rparr>) p1;
                     id = ent_id (Http_Method_Table ! nat index)
                 in if List.length vs \<noteq> 2 \<or> major < 0 \<or>
                       (major = 1 \<and> minor < 1 \<and> id = method_id HTTPMETHOD_MSEARCH)
                    then Some (PARSE_FAILURE, e1, fail_with HTTP_HTTP_VERSION_NOT_SUPPORTED p2)
                    else Some (PARSE_OK, e1,
                               (upd_msg (\<lambda>m. m\<lparr>hm_method := method_of_id id\<rparr>) p2)
                                 \<lparr>p_position := POS_HEADERS\<rparr>))))"

definition parser_parse_requestline ::
  "net_env \<Rightarrow> alloc_env \<Rightarrow> http_parser \<Rightarrow> (parse_status \<times> alloc_env \<times> http_parser) option" where
  "parser_parse_requestline env e p =
     (if p_position p \<noteq> POS_REQUEST_LINE then None
      else case skip_blank_lines (parser_scanner p) of
        None \<Rightarrow> None
      | Some (st, sc) \<Rightarrow>
          (let p1 = set_cursor sc p
           in if st \<noteq> PARSE_OK then Some (st, e, p1)
              else case match_fmt env sc request_line_fmt0 of
                None \<Rightarrow> None
              | Some (st1, sc1, vs1) \<Rightarrow>
                  if st1 = PARSE_OK then
                    (case vs1 of
                       [StrArg method_str, StrArg url_str] \<Rightarrow>
                         simple_request env e (set_cursor sc1 p1) method_str url_str
                     | _ \<Rightarrow> None)
                  else
                    (case match_fmt env sc1 request_line_fmt of
                       None \<Rightarrow> None
                     | Some (st2, sc2, vs2) \<Rightarrow>
                         if st2 \<noteq> PARSE_OK then Some (st2, e, set_cursor sc2 p1)
                         else
                           (case vs2 of
                              [StrArg method_str, StrArg url_str, StrArg version_str] \<Rightarrow>
                                full_request env e (set_cursor sc2 p1) method_str url_str version_str
                            | _ \<Rightarrow> None))))"

text \<open>
  The two loops over one number of the status line; the first one runs on until it meets a digit.
\<close>

definition skip_number :: "string \<Rightarrow> string option" where
  "skip_number s =
     (case dropWhile (\<lambda>c. \<not> isdigit c) s of [] \<Rightarrow> None | s' \<Rightarrow> Some (dropWhile isdigit s'))"

text \<open>The status message from \<open>p\<close> on, which \<open>r3\<close> is: at least one blank, then the message.\<close>

definition status_message ::
  "alloc_env \<Rightarrow> http_parser \<Rightarrow> span \<Rightarrow> nat \<Rightarrow> string \<Rightarrow> (parse_status \<times> alloc_env \<times> http_parser) option" where
  "status_message e p line rest_len r3 =
     (if \<not> is_ws_char (cchar_at r3 0) then Some (PARSE_FAILURE, e, p)
      else
        (let r4 = dropWhile is_ws_char r3;
             n = size_sub (sp_len line) (rest_len - List.length r4)
         in case membuffer_assign e (hm_status_msg (p_msg p)) (Some r4) n of
              None \<Rightarrow> None
            | Some (rc, e1, sm) \<Rightarrow>
                (let p1 = upd_msg (\<lambda>m. m\<lparr>hm_status_msg := sm\<rparr>) p
                 in if rc \<noteq> 0 then Some (PARSE_FAILURE, e1, fail_with HTTP_INTERNAL_SERVER_ERROR p1)
                    else Some (PARSE_OK, e1, p1\<lparr>p_position := POS_HEADERS\<rparr>))))"

definition status_line ::
  "alloc_env \<Rightarrow> http_parser \<Rightarrow> span \<Rightarrow> (parse_status \<times> alloc_env \<times> http_parser) option" where
  "status_line e p line =
     (let text = contents (hm_msg (p_msg p));
          vs = sscanf_ints ''%d . %d %d'' (cstr (span_text text line));
          major = stored vs 0 (hm_major_version (p_msg p));
          minor = stored vs 1 (hm_minor_version (p_msg p));
          status = stored vs 2 (hm_status_code (p_msg p));
          p1 = upd_msg (\<lambda>m. m\<lparr>hm_major_version := major, hm_minor_version := minor,
                               hm_status_code := status\<rparr>) p
      in if List.length vs \<noteq> 3 \<or> major < 0 \<or> minor < 0 \<or> status < 0 then Some (PARSE_FAILURE, e, p1)
         else do {
           r1 \<leftarrow> skip_number (span_rest text line);
           r2 \<leftarrow> skip_number r1;
           r3 \<leftarrow> skip_number r2;
           status_message e p1 line (List.length (span_rest text line)) r3
         })"

definition parser_parse_responseline ::
  "net_env \<Rightarrow> alloc_env \<Rightarrow> http_parser \<Rightarrow> (parse_status \<times> alloc_env \<times> http_parser) option" where
  "parser_parse_responseline env e p =
     (if p_position p \<noteq> POS_RESPONSE_LINE then None
      else case skip_blank_lines (parser_scanner p) of
        None \<Rightarrow> None
      | Some (st, sc) \<Rightarrow>
          (let p1 = set_cursor sc p
           in if st \<noteq> PARSE_OK then Some (st, e, p1)
              else case match_fmt env sc ''%ihttp%w/%w%L%c'' of
                None \<Rightarrow> None
              | Some (st1, sc1, vs1) \<Rightarrow>
                  (let p2 = set_cursor sc1 p1
                   in if st1 \<noteq> PARSE_OK then Some (st1, e, p2)
                      else case vs1 of [StrArg line] \<Rightarrow> status_line e p2 line | _ \<Rightarrow> None)))"


section \<open>Headers\<close>

definition SIZEOF_http_header_t :: nat where "SIZEOF_http_header_t = 88"

text \<open>
  A new header at the end of the list. On failure what was allocated is freed and the list is as it
  was. An empty value is stored as one NUL.
\<close>

definition new_header ::
  "alloc_env \<Rightarrow> http_message \<Rightarrow> int \<Rightarrow> span \<Rightarrow> span \<Rightarrow> (bool \<times> alloc_env \<times> http_message) option" where
  "new_header e m header_id token hdr_value =
     (case malloc_ok e SIZEOF_http_header_t of
        (False, e1) \<Rightarrow> Some (False, e1, m)
      | (True, e1) \<Rightarrow>
          (let text = contents (hm_msg m);
               (vbuf, vlen) = (if sp_len hdr_value = 0 then ([NUL, NUL], 1)
                               else (span_rest text hdr_value, sp_len hdr_value))
           in case membuffer_assign e1 new_membuffer (Some (span_rest text token)) (sp_len token) of
                None \<Rightarrow> None
              | Some (rc1, e2, name_buf) \<Rightarrow>
                  if rc1 \<noteq> 0 then Some (False, e2, m)
                  else case membuffer_assign e2 new_membuffer (Some vbuf) vlen of
                    None \<Rightarrow> None
                  | Some (rc2, e3, val) \<Rightarrow>
                      if rc2 \<noteq> 0 then Some (False, e3, m)
                      else
                        (let h = \<lparr>h_name = \<lparr>mp_buf = bytes name_buf, mp_length = mb_length name_buf\<rparr>,
                                  h_name_id = header_id, h_value = val, h_name_buf = name_buf\<rparr>
                         in case q_add_tail (oom e3) (hm_headers m) h of
                              (ok, orc, hs) \<Rightarrow> Some (ok, e3\<lparr>oom := orc\<rparr>, m\<lparr>hm_headers := hs\<rparr>))))"

text \<open>The value of a repeated header is appended to the first one's, both pieces in any case.\<close>

definition append_header ::
  "alloc_env \<Rightarrow> http_message \<Rightarrow> nat \<Rightarrow> span \<Rightarrow> (bool \<times> alloc_env \<times> http_message) option" where
  "append_header e m i hdr_value =
     (if sp_len hdr_value = 0 then Some (True, e, m)
      else
        (let h = header_at m i
         in case membuffer_append_str e (h_value h) '', '' of
              None \<Rightarrow> None
            | Some (ret, e1, v1) \<Rightarrow>
                (case membuffer_append e1 v1 (Some (span_rest (contents (hm_msg m)) hdr_value))
                        (sp_len hdr_value) of
                   None \<Rightarrow> None
                 | Some (ret2, e2, v2) \<Rightarrow>
                     Some (\<not> (ret = UPNP_E_OUTOF_MEMORY \<or> ret2 = UPNP_E_OUTOF_MEMORY), e2,
                           set_header i (h\<lparr>h_value := v2\<rparr>) m))))"

definition add_header ::
  "alloc_env \<Rightarrow> http_message \<Rightarrow> span \<Rightarrow> span \<Rightarrow> (bool \<times> alloc_env \<times> http_message) option" where
  "add_header e m token hdr_value =
     (let text = contents (hm_msg m);
          index = map_str_to_int (span_rest text token) (sp_len token) Http_Header_Names
                    NUM_HTTP_HEADER_NAMES False;
          id = ent_id (Http_Header_Names ! nat index);
          header_id = (if index \<noteq> -1 then id else HDR_UNKNOWN);
          m1 = (if index \<noteq> -1 \<and> id = HDR_SOAPACTION then m\<lparr>hm_method := SOAPMETHOD_POST\<rparr> else m);
          orig_header = (if index \<noteq> -1 then httpmsg_find_hdr m1 header_id
                         else httpmsg_find_hdr_str m1 (cstr (span_text text token)))
      in case orig_header of
           None \<Rightarrow> new_header e m1 header_id token hdr_value
         | Some i \<Rightarrow> append_header e m1 i hdr_value)"

text \<open>
  One round of the loop of \<open>parser_parse_headers\<close>: the status it returns, or \<open>None\<close> to go on.
\<close>

definition header_round ::
  "net_env \<Rightarrow> alloc_env \<Rightarrow> http_parser \<Rightarrow> (parse_status option \<times> alloc_env \<times> http_parser) option" where
  "header_round env e p =
     (case scanner_get_token (parser_scanner p) of
        None \<Rightarrow> None
      | Some (sc, Inl st) \<Rightarrow> Some (Some st, e, p)
      | Some (sc, Inr (token, tok_type)) \<Rightarrow>
          if tok_type = TT_CRLF then
            (if hm_is_request (p_msg p) \<and> hm_method (p_msg p) = HTTPMETHOD_POST
             then Some (Some PARSE_SUCCESS, e, (set_cursor sc p)\<lparr>p_position := POS_COMPLETE\<rparr>)
             else Some (Some PARSE_OK, e, (set_cursor sc p)\<lparr>p_position := POS_ENTITY\<rparr>))
          else if tok_type \<noteq> TT_IDENTIFIER then Some (Some PARSE_FAILURE, e, set_cursor sc p)
          else
            (case match_fmt env sc '' : %R%c'' of
               None \<Rightarrow> None
             | Some (st, sc1, vs) \<Rightarrow>
                 if st \<noteq> PARSE_OK then Some (Some st, e, p)
                 else case vs of
                   [StrArg hdr_value] \<Rightarrow>
                     (case add_header e (p_msg p) token hdr_value of
                        None \<Rightarrow> None
                      | Some (ok, e1, m1) \<Rightarrow>
                          (let p1 = (set_cursor sc1 p)\<lparr>p_msg := m1\<rparr>
                           in if ok then Some (None, e1, p1)
                              else Some (Some PARSE_FAILURE, e1, fail_with HTTP_INTERNAL_SERVER_ERROR p1)))
                 | _ \<Rightarrow> None))"

partial_function (option) headers_loop ::
  "net_env \<Rightarrow> alloc_env \<Rightarrow> http_parser \<Rightarrow> (parse_status \<times> alloc_env \<times> http_parser) option" where
  "headers_loop env e p =
     Option.bind (header_round env e p) (\<lambda>(st, e1, p1).
       case st of Some st \<Rightarrow> Some (st, e1, p1) | None \<Rightarrow> headers_loop env e1 p1)"

definition parser_parse_headers ::
  "net_env \<Rightarrow> alloc_env \<Rightarrow> http_parser \<Rightarrow> (parse_status \<times> alloc_env \<times> http_parser) option" where
  "parser_parse_headers env e p =
     (if p_position p = POS_HEADERS \<or> p_ent_position p = ENTREAD_CHUNKY_HEADERS
      then headers_loop env e p else None)"


section \<open>Entities\<close>

definition parser_parse_entity_using_clen :: "http_parser \<Rightarrow> (parse_status \<times> http_parser) option" where
  "parser_parse_entity_using_clen p =
     (let m = p_msg p;
          len = size_add (size_sub (mb_length (hm_msg m)) (p_entity_start_position p)) (hm_amount_discarded m);
          p1 = upd_msg (\<lambda>m. m\<lparr>hm_entity_length := len\<rparr>) p
      in if p_ent_position p \<noteq> ENTREAD_USING_CLEN then None
         else if len < p_content_length p then Some (PARSE_INCOMPLETE, p1)
         else
           (let finish = (\<lambda>buf. Some (PARSE_SUCCESS,
                  (upd_msg (\<lambda>m. m\<lparr>hm_msg := (hm_msg m)\<lparr>mb_buf := buf\<rparr>,
                                   hm_entity_length := p_content_length p,
                                   hm_entity_buf := Some (p_entity_start_position p)\<rparr>) p1)
                    \<lparr>p_position := POS_COMPLETE\<rparr>))
            in if len > p_content_length p then
                 Option.bind (mb_buf (hm_msg m)) (\<lambda>b.
                 Option.bind (block_write b
                   (size_sub (size_add (p_entity_start_position p) (p_content_length p)) (hm_amount_discarded m))
                   [NUL]) (\<lambda>b'. finish (Some b')))
               else finish (mb_buf (hm_msg m))))"

abbreviation delete_from_msg ::
  "alloc_env \<Rightarrow> http_parser \<Rightarrow> nat \<Rightarrow> nat \<Rightarrow> (alloc_env \<times> http_parser) option" where
  "delete_from_msg e p index n \<equiv>
     map_option (\<lambda>(e', b). (e', upd_msg (\<lambda>m. m\<lparr>hm_msg := b\<rparr>) p))
       (membuffer_delete e (hm_msg (p_msg p)) index n)"

definition parser_parse_chunky_body ::
  "net_env \<Rightarrow> alloc_env \<Rightarrow> http_parser \<Rightarrow> (parse_status \<times> alloc_env \<times> http_parser) option" where
  "parser_parse_chunky_body env e p =
     (if size_sub (mb_length (hm_msg (p_msg p))) (p_cursor p) < p_chunk_size p then Some (PARSE_INCOMPLETE, e, p)
      else
        (let save_pos = size_add (p_cursor p) (p_chunk_size p); p1 = p\<lparr>p_cursor := save_pos\<rparr>
         in case match_fmt env (parser_scanner p1) ''%c'' of
              None \<Rightarrow> None
            | Some (st, sc, vs) \<Rightarrow>
                if st \<noteq> PARSE_OK
                then Some (st, e, p1\<lparr>p_cursor := size_sub (sc_cursor sc) (p_chunk_size p)\<rparr>)
                else
                  map_option
                    (\<lambda>(e1, p2). (PARSE_CONTINUE_1, e1,
                       (upd_msg (\<lambda>m. m\<lparr>hm_entity_length := size_add (hm_entity_length m) (p_chunk_size p)\<rparr>) p2)
                         \<lparr>p_cursor := save_pos, p_ent_position := ENTREAD_USING_CHUNKED\<rparr>))
                    (delete_from_msg e p1 save_pos (sc_cursor sc - save_pos))))"

definition parser_parse_chunky_headers ::
  "net_env \<Rightarrow> alloc_env \<Rightarrow> http_parser \<Rightarrow> (parse_status \<times> alloc_env \<times> http_parser) option" where
  "parser_parse_chunky_headers env e p =
     (case parser_parse_headers env e p of
        None \<Rightarrow> None
      | Some (st, e1, p1) \<Rightarrow>
          if st = PARSE_OK then
            map_option
              (\<lambda>(e2, p2). (PARSE_SUCCESS, e2,
                 (upd_msg (\<lambda>m. m\<lparr>hm_entity_buf := Some (p_entity_start_position p2)\<rparr>) p2)
                   \<lparr>p_cursor := p_cursor p\<rparr>))
              (delete_from_msg e1 (p1\<lparr>p_position := POS_COMPLETE\<rparr>) (p_cursor p) (p_cursor p1 - p_cursor p))
          else Some (st, e1, p1))"

text \<open>
  \<open>%x\<close> writes an \<open>int\<close>, which is the low half of \<open>chunk_size\<close>; the high half stays.
\<close>

definition store_chunk_size :: "nat \<Rightarrow> int \<Rightarrow> nat" where
  "store_chunk_size old v = old div 2 ^ 32 * 2 ^ 32 + nat (v mod 2 ^ 32)"

definition parser_parse_chunky_entity ::
  "net_env \<Rightarrow> alloc_env \<Rightarrow> http_parser \<Rightarrow> (parse_status \<times> alloc_env \<times> http_parser) option" where
  "parser_parse_chunky_entity env e p =
     (if p_ent_position p \<noteq> ENTREAD_USING_CHUNKED then None
      else case match_fmt env (parser_scanner p) ''%x%L%c'' of
        None \<Rightarrow> None
      | Some (st, sc, vs) \<Rightarrow>
          (let p1 = p\<lparr>p_chunk_size := (case vs of IntArg v # _ \<Rightarrow> store_chunk_size (p_chunk_size p) v
                                              | _ \<Rightarrow> p_chunk_size p)\<rparr>
           in if st \<noteq> PARSE_OK then Some (st, e, p1)
              else
                map_option
                  (\<lambda>(e1, p2). (PARSE_CONTINUE_1, e1,
                     if p_chunk_size p2 = 0 then
                       (upd_msg (\<lambda>m. m\<lparr>hm_entity_length :=
                          size_add (size_sub (p_cursor p) (p_entity_start_position p2)) (hm_amount_discarded m)\<rparr>) p2)
                         \<lparr>p_ent_position := ENTREAD_CHUNKY_HEADERS\<rparr>
                     else p2\<lparr>p_ent_position := ENTREAD_CHUNKY_BODY\<rparr>))
                  (delete_from_msg e p1 (p_cursor p) (sc_cursor sc - p_cursor p))))"

definition parser_parse_entity_until_close :: "http_parser \<Rightarrow> (parse_status \<times> http_parser) option" where
  "parser_parse_entity_until_close p =
     (if p_ent_position p \<noteq> ENTREAD_UNTIL_CLOSE then None
      else
        (let cursor = mb_length (hm_msg (p_msg p))
         in Some (PARSE_INCOMPLETE_ENTITY,
              (upd_msg (\<lambda>m. m\<lparr>hm_entity_length :=
                   size_add (size_sub cursor (p_entity_start_position p)) (hm_amount_discarded m),
                 hm_entity_buf := Some (p_entity_start_position p)\<rparr>) p)\<lparr>p_cursor := cursor\<rparr>)))"

text \<open>\<open>raw_to_int\<close> on the bytes from the value to the terminator.\<close>

definition raw_to_int :: "string \<Rightarrow> nat \<Rightarrow> nat \<Rightarrow> int" where
  "raw_to_int buf len base =
     (if len = 0 then -1
      else (let r = strtol base (cstr buf) in if bad_number r len then -1 else c_int (fst r)))"

fun strstr_from :: "string \<Rightarrow> string \<Rightarrow> nat \<Rightarrow> int" where
  "strstr_from s pat i =
     (if take (List.length pat) s = pat then int i
      else case s of [] \<Rightarrow> -1 | _ # s' \<Rightarrow> strstr_from s' pat (Suc i))"

text \<open>
  \<open>raw_find_str\<close> on the block of a value: it turns the block into lower case up to its first NUL,
  then searches the first \<open>len\<close> bytes.
\<close>

definition raw_find_str :: "string \<Rightarrow> nat \<Rightarrow> string \<Rightarrow> (int \<times> string) option" where
  "raw_find_str b len pat =
     (if List.length b \<le> len \<or> cstr b = b then None
      else
        (let low = map tolower (cstr b) @ drop (List.length (cstr b)) b
         in Some (strstr_from (cstr (take len low)) pat 0, low[len := b ! len])))"

text \<open>Which messages never have a body.\<close>

definition no_body_request :: "http_method \<Rightarrow> bool" where
  "no_body_request m \<longleftrightarrow>
     m \<in> {HTTPMETHOD_HEAD, HTTPMETHOD_GET, HTTPMETHOD_SUBSCRIBE, HTTPMETHOD_UNSUBSCRIBE, HTTPMETHOD_MSEARCH}"

definition no_body_response :: "int \<Rightarrow> http_method \<Rightarrow> bool" where
  "no_body_response response_code m \<longleftrightarrow>
     response_code = 204 \<or> response_code = 304 \<or> (100 \<le> response_code \<and> response_code \<le> 199) \<or>
     m \<in> {HTTPMETHOD_HEAD, HTTPMETHOD_MSEARCH, HTTPMETHOD_SUBSCRIBE, HTTPMETHOD_UNSUBSCRIBE,
           HTTPMETHOD_NOTIFY}"

text \<open>The test for chunked coding, which leaves the header's value in lower case.\<close>

definition chunked_coding :: "http_message \<Rightarrow> (bool \<times> http_message) option" where
  "chunked_coding m =
     (case httpmsg_find_hdr m HDR_TRANSFER_ENCODING of
        None \<Rightarrow> Some (False, m)
      | Some i \<Rightarrow>
          (let h = header_at m i
           in Option.bind (mb_buf (h_value h)) (\<lambda>b.
              map_option
                (\<lambda>(r, b'). (0 \<le> r, set_header i (h\<lparr>h_value := (h_value h)\<lparr>mb_buf := Some b'\<rparr>\<rparr>) m))
                (raw_find_str b (mb_length (h_value h)) ''chunked''))))"

definition parser_get_entity_read_method :: "http_parser \<Rightarrow> (parse_status \<times> http_parser) option" where
  "parser_get_entity_read_method p0 =
     (let p = (upd_msg (\<lambda>m. m\<lparr>hm_entity_buf := Some (p_cursor p0), hm_entity_length := 0\<rparr>) p0)
                \<lparr>p_entity_start_position := p_cursor p0\<rparr>;
          m = p_msg p
      in if p_ent_position p0 \<noteq> ENTREAD_DETERMINE_READ_METHOD then None
         else if (if hm_is_request m then no_body_request (hm_method m)
                  else no_body_response (hm_status_code m) (hm_request_method m))
         then Some (PARSE_SUCCESS, p\<lparr>p_position := POS_COMPLETE\<rparr>)
         else case chunked_coding m of
           None \<Rightarrow> None
         | Some (chunked, m1) \<Rightarrow>
             (let p1 = p\<lparr>p_msg := m1\<rparr>
              in if chunked then Some (PARSE_CONTINUE_1, p1\<lparr>p_ent_position := ENTREAD_USING_CHUNKED\<rparr>)
                 else case httpmsg_find_hdr m1 HDR_CONTENT_LENGTH of
                   Some i \<Rightarrow>
                     (let v = h_value (header_at m1 i)
                      in Some (PARSE_CONTINUE_1,
                           p1\<lparr>p_content_length := nat (raw_to_int (bytes v) (mb_length v) 10 mod 2 ^ 32),
                              p_ent_position := ENTREAD_USING_CLEN\<rparr>))
                 | None \<Rightarrow>
                     if hm_is_request m1 then
                       Some (PARSE_FAILURE,
                         fail_with HTTP_LENGTH_REQUIRED
                           (if hm_method m1 = HTTPMETHOD_NOTIFY
                            then p1\<lparr>p_valid_ssdp_notify_hack := True\<rparr> else p1))
                     else Some (PARSE_CONTINUE_1, p1\<lparr>p_ent_position := ENTREAD_UNTIL_CLOSE\<rparr>)))"


section \<open>Parsing\<close>

definition keep_env ::
  "alloc_env \<Rightarrow> (parse_status \<times> http_parser) option \<Rightarrow> (parse_status \<times> alloc_env \<times> http_parser) option" where
  "keep_env e r = map_option (\<lambda>(st, p). (st, e, p)) r"

definition entity_round ::
  "net_env \<Rightarrow> alloc_env \<Rightarrow> http_parser \<Rightarrow> (parse_status \<times> alloc_env \<times> http_parser) option" where
  "entity_round env e p =
     (case p_ent_position p of
        ENTREAD_USING_CLEN \<Rightarrow> keep_env e (parser_parse_entity_using_clen p)
      | ENTREAD_USING_CHUNKED \<Rightarrow> parser_parse_chunky_entity env e p
      | ENTREAD_CHUNKY_BODY \<Rightarrow> parser_parse_chunky_body env e p
      | ENTREAD_CHUNKY_HEADERS \<Rightarrow> parser_parse_chunky_headers env e p
      | ENTREAD_UNTIL_CLOSE \<Rightarrow> keep_env e (parser_parse_entity_until_close p)
      | ENTREAD_DETERMINE_READ_METHOD \<Rightarrow> keep_env e (parser_get_entity_read_method p))"

partial_function (option) entity_loop ::
  "net_env \<Rightarrow> alloc_env \<Rightarrow> http_parser \<Rightarrow> (parse_status \<times> alloc_env \<times> http_parser) option" where
  "entity_loop env e p =
     Option.bind (entity_round env e p) (\<lambda>(st, e1, p1).
       if st = PARSE_CONTINUE_1 then entity_loop env e1 p1 else Some (st, e1, p1))"

definition parser_parse_entity ::
  "net_env \<Rightarrow> alloc_env \<Rightarrow> http_parser \<Rightarrow> (parse_status \<times> alloc_env \<times> http_parser) option" where
  "parser_parse_entity env e p = (if p_position p = POS_ENTITY then entity_loop env e p else None)"

definition parse_round ::
  "net_env \<Rightarrow> alloc_env \<Rightarrow> http_parser \<Rightarrow> (parse_status \<times> alloc_env \<times> http_parser) option" where
  "parse_round env e p =
     (case p_position p of
        POS_ENTITY \<Rightarrow> parser_parse_entity env e p
      | POS_HEADERS \<Rightarrow> parser_parse_headers env e p
      | POS_REQUEST_LINE \<Rightarrow> parser_parse_requestline env e p
      | POS_RESPONSE_LINE \<Rightarrow> parser_parse_responseline env e p
      | POS_COMPLETE \<Rightarrow> None)"

partial_function (option) parser_parse ::
  "net_env \<Rightarrow> alloc_env \<Rightarrow> http_parser \<Rightarrow> (parse_status \<times> alloc_env \<times> http_parser) option" where
  "parser_parse env e p =
     Option.bind (parse_round env e p) (\<lambda>(st, e1, p1).
       if st = PARSE_OK then parser_parse env e1 p1 else Some (st, e1, p1))"

definition parser_append ::
  "net_env \<Rightarrow> alloc_env \<Rightarrow> http_parser \<Rightarrow> string \<Rightarrow> nat \<Rightarrow> (parse_status \<times> alloc_env \<times> http_parser) option" where
  "parser_append env e p buf buf_length =
     (case membuffer_append e (hm_msg (p_msg p)) (Some buf) buf_length of
        None \<Rightarrow> None
      | Some (ret_code, e1, b) \<Rightarrow>
          (let p1 = upd_msg (\<lambda>m. m\<lparr>hm_msg := b\<rparr>) p
           in if ret_code \<noteq> 0 then Some (PARSE_FAILURE, e1, fail_with HTTP_INTERNAL_SERVER_ERROR p1)
              else parser_parse env e1 p1))"

definition method_to_str :: "http_method \<Rightarrow> string option" where
  "method_to_str m =
     (let index = map_int_to_str (method_id m) Http_Method_Table (nat NUM_HTTP_METHODS)
      in if index = -1 then None else Some (ent_name (Http_Method_Table ! nat index)))"

end
