(* ===== verification/HttpScannerProps.thy ===== *)
theory HttpScannerProps
  imports HttpScanner UriProps
begin

text \<open>
  Properties of the scanner. Two facts carry every parser of the library: a matcher never reads
  outside the message (\<open>safe\<close>), and a result it has once given does not change when more bytes of
  the message arrive (\<open>stable\<close>). Both are closed under sequencing, so \<open>vfmatch\<close> has them for every
  format built from the directives that do.
\<close>

named_theorems safe_intros \<open>matchers that stay inside the message\<close>
named_theorems stable_intros \<open>matchers whose results do not depend on later bytes\<close>

section \<open>Safe and stable matchers\<close>

abbreviation at_ok :: "scanner \<Rightarrow> bool" where
  "at_ok sc \<equiv> sc_cursor sc \<le> List.length (sc_msg sc)"

text \<open>More bytes of the message arrive.\<close>

definition grow :: "string \<Rightarrow> scanner \<Rightarrow> scanner" where
  "grow late sc = sc\<lparr>sc_msg := sc_msg sc @ late\<rparr>"

definition within :: "scanner \<Rightarrow> scanner \<Rightarrow> bool" where
  "within sc sc' \<longleftrightarrow> sc_msg sc' = sc_msg sc \<and> sc_loaded sc' = sc_loaded sc \<and>
     sc_cursor sc \<le> sc_cursor sc' \<and> sc_cursor sc' \<le> List.length (sc_msg sc)"

definition plain :: "parse_status \<Rightarrow> bool" where
  "plain st \<longleftrightarrow> st = PARSE_OK \<or> st = PARSE_INCOMPLETE \<or> st = PARSE_FAILURE \<or> st = PARSE_NO_MATCH"

lemma plain_simps [simp]:
  "plain PARSE_OK" "plain PARSE_INCOMPLETE" "plain PARSE_FAILURE" "plain PARSE_NO_MATCH"
  "st = PARSE_INCOMPLETE \<or> st = PARSE_FAILURE \<Longrightarrow> plain st"
  by (auto simp: plain_def)

definition safe ::
  "(string \<Rightarrow> 'v \<Rightarrow> bool) \<Rightarrow> (scanner \<Rightarrow> (parse_status \<times> scanner \<times> 'v) option) \<Rightarrow> bool" where
  "safe good m \<longleftrightarrow>
     (\<forall>sc. at_ok sc \<longrightarrow> (\<exists>st sc' v. m sc = Some (st, sc', v) \<and> within sc sc' \<and> plain st \<and> good (sc_msg sc) v))"

definition stable :: "(scanner \<Rightarrow> (parse_status \<times> scanner \<times> 'v) option) \<Rightarrow> bool" where
  "stable m \<longleftrightarrow>
     (\<forall>sc st sc' v late. at_ok sc \<longrightarrow> \<not> sc_loaded sc \<longrightarrow> m sc = Some (st, sc', v) \<longrightarrow> st \<noteq> PARSE_INCOMPLETE \<longrightarrow>
        m (grow late sc) = Some (st, grow late sc', v))"

lemma grow_simps [simp]:
  "sc_msg (grow late sc) = sc_msg sc @ late" "sc_cursor (grow late sc) = sc_cursor sc"
  "sc_loaded (grow late sc) = sc_loaded sc"
  "(grow late sc)\<lparr>sc_cursor := k\<rparr> = grow late (sc\<lparr>sc_cursor := k\<rparr>)"
  by (simp_all add: grow_def)

lemma stableD:
  "stable m \<Longrightarrow> m sc = Some (st, sc', v) \<Longrightarrow> st \<noteq> PARSE_INCOMPLETE \<Longrightarrow> at_ok sc \<Longrightarrow> \<not> sc_loaded sc \<Longrightarrow>
     m (grow late sc) = Some (st, grow late sc', v)"
  by (auto simp: stable_def)

lemma safeD:
  assumes "safe good m" and "at_ok sc"
  obtains st sc' v where "m sc = Some (st, sc', v)" "within sc sc'" "plain st" "good (sc_msg sc) v"
  using assms by (auto simp: safe_def)

lemma within_refl [simp]: "at_ok sc \<Longrightarrow> within sc sc"
  by (simp add: within_def)

lemma within_trans [trans]: "within a b \<Longrightarrow> within b c \<Longrightarrow> within a c"
  by (auto simp: within_def)

lemma within_at_ok: "within sc sc' \<Longrightarrow> at_ok sc'"
  by (auto simp: within_def)

lemma within_set [simp]:
  "at_ok sc \<Longrightarrow> within sc sc' \<Longrightarrow> within sc (sc'\<lparr>sc_cursor := sc_cursor sc\<rparr>)"
  by (auto simp: within_def)

lemma safe_map:
  assumes "safe good m" and "\<And>s v. good s v \<Longrightarrow> good' s (f v)"
  shows "safe good' (\<lambda>sc. map_option (\<lambda>(st, sc', v). (st, sc', f v)) (m sc))"
  using assms by (fastforce simp: safe_def)

lemma stable_map:
  assumes "stable m"
  shows "stable (\<lambda>sc. map_option (\<lambda>(st, sc', v). (st, sc', f v)) (m sc))"
  unfolding stable_def
  by (auto dest: stableD [OF assms])


section \<open>Tokens\<close>

lemma quoted_loop_append:
  "quoted_loop cs n \<noteq> Inl PARSE_INCOMPLETE \<Longrightarrow> quoted_loop (cs @ late) n = quoted_loop cs n"
proof (induction cs n rule: quoted_loop.induct)
  case (1 n)
  then show ?case by simp
next
  case (2 c cs n)
  show ?case
  proof (cases cs)
    case Nil
    then show ?thesis using 2 by (simp split: if_splits)
  next
    case (Cons d ds)
    then show ?thesis using 2 by (simp split: if_splits)
  qed
qed

lemma takeWhile_append_stop:
  "List.length (takeWhile p cs) \<noteq> List.length cs \<Longrightarrow> takeWhile p (cs @ late) = takeWhile p cs"
  by (induction cs) auto

lemma run_length_append:
  "run_length p cs \<noteq> Suc (List.length cs) \<Longrightarrow> run_length p (cs @ late) = run_length p cs"
  by (simp add: run_length_def takeWhile_append_stop)

lemma next_token_append:
  assumes "next_token False s = r" and "r \<noteq> Inl PARSE_INCOMPLETE"
  shows "next_token False (s @ late) = r"
proof (cases s)
  case Nil
  then show ?thesis using assms by (simp add: next_token_def)
next
  case (Cons c cs)
  have keep: "run_length p (cs @ late) = run_length p cs \<and>
      run_length p cs \<noteq> Suc (List.length cs + List.length late)"
    if "run_length p cs \<noteq> Suc (List.length cs)" for p
    using run_length_append [OF that] that run_length_bounds(2) [of p cs] by simp
  consider (ident) "is_identifier_char c" | (ws) "\<not> is_identifier_char c" "is_ws_char c"
    | (quote) "\<not> is_identifier_char c" "\<not> is_ws_char c" "c = CHR 0x22"
    | (other) "\<not> is_identifier_char c" "\<not> is_ws_char c" "c \<noteq> CHR 0x22" by blast
  then show ?thesis
  proof cases
    case ident
    then show ?thesis using assms keep [of is_identifier_char] unfolding Cons
      by (simp add: next_token_def Let_def split: if_splits)
  next
    case ws
    then show ?thesis using assms keep [of is_ws_char] unfolding Cons
      by (simp add: next_token_def Let_def split: if_splits)
  next
    case quote
    have "quoted_loop cs 1 \<noteq> Inl PARSE_INCOMPLETE"
      using quote assms Cons by (auto simp: next_token_def)
    from quoted_loop_append [OF this] quote assms show ?thesis unfolding Cons
      by (simp add: next_token_def)
  next
    case other
    show ?thesis
    proof (cases cs)
      case Nil
      then show ?thesis using assms other unfolding \<open>s = c # cs\<close>
        by (simp add: next_token_def split: if_splits)
    next
      case (Cons d ds)
      then show ?thesis using assms other unfolding \<open>s = c # cs\<close>
        by (simp add: next_token_def split: if_splits)
    qed
  qed
qed

lemma quoted_loop_errors: "quoted_loop cs n = Inl st \<Longrightarrow> st = PARSE_INCOMPLETE \<or> st = PARSE_FAILURE"
proof (induction cs n rule: quoted_loop.induct)
  case (1 n)
  then show ?case by simp
next
  case (2 c cs n)
  then show ?case by (cases cs) (simp_all split: if_splits)
qed

lemma next_token_errors:
  assumes "next_token l s = Inl st"
  shows "st = PARSE_INCOMPLETE \<or> st = PARSE_FAILURE"
proof (cases s)
  case Nil
  then show ?thesis using assms by (simp add: next_token_def)
next
  case (Cons c cs)
  then show ?thesis using assms
    by (cases cs) (auto simp: next_token_def Let_def simp del: quoted_loop.simps dest: quoted_loop_errors
      split: if_split_asm sum.split_asm)
qed

definition span_in :: "string \<Rightarrow> span \<Rightarrow> bool" where
  "span_in m t \<longleftrightarrow> sp_off t + sp_len t \<le> List.length m"

lemma scanner_get_token_safe:
  assumes "at_ok sc"
  obtains (err) st where "scanner_get_token sc = Some (sc, Inl st)" "st = PARSE_INCOMPLETE \<or> st = PARSE_FAILURE"
  | (tok) sc' t ty where "scanner_get_token sc = Some (sc', Inr (t, ty))" "within sc sc'"
      "span_in (sc_msg sc) t" "sp_off t = sc_cursor sc" "0 < sp_len t" "sc_cursor sc' = sc_cursor sc + sp_len t"
proof (cases "next_token (sc_loaded sc) (drop (sc_cursor sc) (sc_msg sc))")
  case (Inl st)
  with assms next_token_errors [OF Inl] show ?thesis by (intro err) (simp_all add: scanner_get_token_def)
next
  case (Inr p)
  then obtain n ty where n: "next_token (sc_loaded sc) (drop (sc_cursor sc) (sc_msg sc)) = Inr (n, ty)"
    by (cases p) simp
  from next_token_bounds [OF n] n assms show ?thesis
    by (intro tok) (auto simp: scanner_get_token_def within_def span_in_def)
qed

lemma scanner_get_token_stable:
  assumes "scanner_get_token sc = Some (sc', r)" and "r \<noteq> Inl PARSE_INCOMPLETE" and "\<not> sc_loaded sc"
  shows "scanner_get_token (grow late sc) = Some (grow late sc', r)"
proof -
  have ok: "at_ok sc" using assms(1) by (auto simp: scanner_get_token_def split: if_splits)
  define res where "res = next_token False (drop (sc_cursor sc) (sc_msg sc))"
  have "res \<noteq> Inl PARSE_INCOMPLETE"
    using assms ok by (auto simp: scanner_get_token_def res_def)
  then have "next_token False (drop (sc_cursor sc) (sc_msg sc) @ late) = res"
    by (rule next_token_append [rotated]) (simp add: res_def)
  then show ?thesis
    using assms ok
    by (auto simp: scanner_get_token_def res_def split: sum.splits)
qed


section \<open>Loops over tokens\<close>

text \<open>
  A loop over tokens stays inside the message; \<open>I\<close> is an invariant of its variables and the
  cursor. When a token ends the loop it is the last one before the cursor.
\<close>

lemma token_loop_safe:
  assumes "at_ok sc" and "I s (sc_cursor sc)"
    and step: "\<And>s t ty s'. body s t ty = Some s' \<Longrightarrow> I s (sp_off t) \<Longrightarrow> span_in (sc_msg sc) t \<Longrightarrow>
                 sc_cursor sc \<le> sp_off t \<Longrightarrow> I s' (sp_off t + sp_len t)"
  obtains (err) sc' s' st where "token_loop body sc s = Some (sc', s', Inl st)" "within sc sc'"
      "I s' (sc_cursor sc')" "st = PARSE_INCOMPLETE \<or> st = PARSE_FAILURE"
  | (tok) sc' s' t ty where "token_loop body sc s = Some (sc', s', Inr t)" "within sc sc'"
      "I s' (sp_off t)" "body s' t ty = None" "sc_cursor sc' = sp_off t + sp_len t"
      "sc_cursor sc \<le> sp_off t" "span_in (sc_msg sc) t"
proof -
  have "\<exists>sc' s' r. token_loop body sc s = Some (sc', s', r) \<and> within sc sc' \<and>
          (case r of
             Inl st \<Rightarrow> I s' (sc_cursor sc') \<and> (st = PARSE_INCOMPLETE \<or> st = PARSE_FAILURE)
           | Inr t \<Rightarrow> I s' (sp_off t) \<and> (\<exists>ty. body s' t ty = None) \<and>
               sc_cursor sc' = sp_off t + sp_len t \<and> sc_cursor sc \<le> sp_off t \<and> span_in (sc_msg sc) t)"
    using assms
  proof (induction body sc s rule: token_loop.induct)
    case (1 body sc s)
    from 1(2) show ?case
    proof (cases rule: scanner_get_token_safe)
      case (err st)
      then show ?thesis using 1 by (subst token_loop.simps) auto
    next
      case (tok sc' t ty)
      show ?thesis
      proof (cases "body s t ty")
        case None
        with tok show ?thesis using 1 by (subst token_loop.simps) auto
      next
        case (Some s2)
        have m: "sc_msg sc' = sc_msg sc" and le: "sc_cursor sc \<le> sc_cursor sc'"
          using tok by (auto simp: within_def)
        have "I s2 (sc_cursor sc')" using 1(4) [OF Some] 1(3) tok by simp
        moreover have step: "I s' (sp_off t + sp_len t)"
          if "body s t ty = Some s'" "I s (sp_off t)" "span_in (sc_msg sc') t" "sc_cursor sc' \<le> sp_off t"
          for s t ty s'
          using 1(4) [OF that(1,2)] that m le by simp
        ultimately have "\<exists>sc2 s3 r. token_loop body sc' s2 = Some (sc2, s3, r) \<and> within sc' sc2 \<and>
          (case r of
             Inl st \<Rightarrow> I s3 (sc_cursor sc2) \<and> (st = PARSE_INCOMPLETE \<or> st = PARSE_FAILURE)
           | Inr t \<Rightarrow> I s3 (sp_off t) \<and> (\<exists>ty. body s3 t ty = None) \<and>
               sc_cursor sc2 = sp_off t + sp_len t \<and> sc_cursor sc' \<le> sp_off t \<and> span_in (sc_msg sc') t)"
          by (intro 1(1) [OF tok(1) refl refl refl Some within_at_ok [OF tok(2)]])
        then obtain sc2 s3 r where IH: "token_loop body sc' s2 = Some (sc2, s3, r)" "within sc' sc2"
          "case r of
             Inl st \<Rightarrow> I s3 (sc_cursor sc2) \<and> (st = PARSE_INCOMPLETE \<or> st = PARSE_FAILURE)
           | Inr t \<Rightarrow> I s3 (sp_off t) \<and> (\<exists>ty. body s3 t ty = None) \<and>
               sc_cursor sc2 = sp_off t + sp_len t \<and> sc_cursor sc' \<le> sp_off t \<and> span_in (sc_msg sc') t"
          by blast
        have "token_loop body sc s = Some (sc2, s3, r)"
          using tok Some IH by (subst token_loop.simps) simp
        moreover have "within sc sc2" using tok(2) IH(2) by (rule within_trans)
        ultimately show ?thesis using IH(3) m le by (auto split: sum.splits)
      qed
    qed
  qed
  then show ?thesis using err tok by (fastforce split: sum.splits)
qed

lemma token_loop_grow:
  assumes "token_loop body sc s = Some (sc', s', r)" and "r \<noteq> Inl PARSE_INCOMPLETE" and "\<not> sc_loaded sc"
  shows "token_loop body (grow late sc) s = Some (grow late sc', s', r)"
  using assms
proof (induction body sc s rule: token_loop.induct)
  case (1 body sc s)
  from 1(2) obtain sc1 q where get: "scanner_get_token sc = Some (sc1, q)"
    by (subst (asm) token_loop.simps) (auto split: option.splits)
  have "q \<noteq> Inl PARSE_INCOMPLETE"
    using 1(2,3) get by (subst (asm) token_loop.simps) auto
  note get' = scanner_get_token_stable [OF get this 1(4), of late]
  show ?case
  proof (cases q)
    case (Inl e)
    then show ?thesis using 1(2) get get'
      by (subst (asm) token_loop.simps, subst token_loop.simps) auto
  next
    case (Inr p)
    obtain t ty where p: "p = (t, ty)" by (cases p)
    have l: "\<not> sc_loaded sc1" using scanner_get_token_Some [of sc sc1 t ty] get Inr p 1(4) by simp
    show ?thesis
    proof (cases "body s t ty")
      case (Some s2)
      have "token_loop body sc1 s2 = Some (sc', s', r)"
        using 1(2) get Inr p Some by (subst (asm) token_loop.simps) simp
      with 1(1) [of _ sc1 "Inr (t, ty)" _ t ty s2] get Some Inr p 1(3) l
      have "token_loop body (grow late sc1) s2 = Some (grow late sc', s', r)" by simp
      then show ?thesis using get' Inr p Some by (subst token_loop.simps) simp
    next
      case None
      then show ?thesis using 1(2) get get' Inr p
        by (subst (asm) token_loop.simps, subst token_loop.simps) auto
    qed
  qed
qed


section \<open>The matchers\<close>

abbreviation lift :: "(parse_status \<times> scanner) option \<Rightarrow> (parse_status \<times> scanner \<times> unit) option" where
  "lift r \<equiv> map_option (\<lambda>(st, sc). (st, sc, ())) r"

abbreviation any :: "string \<Rightarrow> 'v \<Rightarrow> bool" where
  "any \<equiv> \<lambda>_ _. True"

definition opt_in :: "(string \<Rightarrow> 'v \<Rightarrow> bool) \<Rightarrow> string \<Rightarrow> 'v option \<Rightarrow> bool" where
  "opt_in good m v = (case v of None \<Rightarrow> True | Some x \<Rightarrow> good m x)"

lemma opt_in_simps [simp]: "opt_in good m None" "opt_in good m (Some x) = good m x"
  by (simp_all add: opt_in_def)

lemma within_back:
  "within sc sc' \<Longrightarrow> sc_cursor sc \<le> k \<Longrightarrow> k \<le> sc_cursor sc' \<Longrightarrow> within sc (sc'\<lparr>sc_cursor := k\<rparr>)"
  by (auto simp: within_def)

lemma safeI:
  assumes "\<And>sc. at_ok sc \<Longrightarrow> \<exists>st sc' v. m sc = Some (st, sc', v) \<and> within sc sc' \<and> plain st \<and> good (sc_msg sc) v"
  shows "safe good m"
  using assms by (simp add: safe_def)

lemma token_loop_loaded:
  "at_ok sc \<Longrightarrow> token_loop body sc s = Some (sc', s', r) \<Longrightarrow> sc_loaded sc' = sc_loaded sc \<and> sc_msg sc' = sc_msg sc"
  by (erule token_loop_safe [where I = "\<lambda>_ _. True" and body = body and s = s]) (auto simp: within_def)

lemma stable_loopI:
  assumes "\<And>sc late. init (grow late sc) = init sc"
    and "\<And>sc sc' s. \<not> sc_loaded sc' \<Longrightarrow> fst (f sc (sc', s, Inl PARSE_INCOMPLETE)) = PARSE_INCOMPLETE"
    and "\<And>sc sc' s r st sc2 v late. at_ok sc \<Longrightarrow> token_loop body sc (init sc) = Some (sc', s, r) \<Longrightarrow>
           f sc (sc', s, r) = (st, sc2, v) \<Longrightarrow> f (grow late sc) (grow late sc', s, r) = (st, grow late sc2, v)"
  shows "stable (\<lambda>sc. map_option (f sc) (token_loop body sc (init sc)))"
  unfolding stable_def
proof (intro allI impI)
  fix sc st sc2 v late
  assume ok: "at_ok sc" and l: "\<not> sc_loaded sc" and st: "st \<noteq> PARSE_INCOMPLETE"
    and m: "map_option (f sc) (token_loop body sc (init sc)) = Some (st, sc2, v)"
  from m obtain sc' s r where loop: "token_loop body sc (init sc) = Some (sc', s, r)"
    and f: "f sc (sc', s, r) = (st, sc2, v)" by auto
  have "r \<noteq> Inl PARSE_INCOMPLETE"
    using assms(2) [of sc' sc s] f st l token_loop_loaded [OF ok loop] by auto
  from token_loop_grow [OF loop this l] assms(1) assms(3) [OF ok loop f]
  show "map_option (f (grow late sc)) (token_loop body (grow late sc) (init (grow late sc))) =
      Some (st, grow late sc2, v)" by simp
qed

lemma push_back_grow [simp]: "push_back t (grow late sc) = grow late (push_back t sc)"
  by (simp add: grow_def)

lemma skip_blank_lines_safe [safe_intros]: "safe any (\<lambda>sc. lift (skip_blank_lines sc))"
proof (rule safeI)
  fix sc
  assume "at_ok sc"
  then show "\<exists>st sc' v. lift (skip_blank_lines sc) = Some (st, sc', v) \<and> within sc sc' \<and> plain st \<and> any (sc_msg sc) v"
    by (rule token_loop_safe [where I = "\<lambda>_ _. True" and body = blank_body and s = "()"])
      (auto simp: skip_blank_lines_def intro!: within_back)
qed

lemma skip_blank_lines_stable [stable_intros]: "stable (\<lambda>sc. lift (skip_blank_lines sc))"
  unfolding skip_blank_lines_def option.map_comp o_def
  by (rule stable_loopI) (auto split: sum.splits)

lemma skip_lws_safe [safe_intros]: "safe any (\<lambda>sc. lift (skip_lws sc))"
proof (rule safeI)
  fix sc
  assume ok: "at_ok sc"
  let ?I = "\<lambda>(save_pos, crlf) c. sc_cursor sc \<le> save_pos \<and> save_pos \<le> c"
  have init: "?I (sc_cursor sc, False) (sc_cursor sc)" by simp
  have step: "?I s' (sp_off t + sp_len t)"
    if "lws_body s t ty = Some s'" "?I s (sp_off t)" "span_in (sc_msg sc) t" "sc_cursor sc \<le> sp_off t"
    for s t ty s'
    using that by (auto simp: lws_body_def split: if_splits prod.splits)
  show "\<exists>st sc' v. lift (skip_lws sc) = Some (st, sc', v) \<and> within sc sc' \<and> plain st \<and> any (sc_msg sc) v"
    using ok init step
    by (rule token_loop_safe [where I = ?I and body = lws_body and s = "(sc_cursor sc, False)"])
      (auto simp: skip_lws_def intro!: within_back)
qed

lemma skip_lws_stable [stable_intros]: "stable (\<lambda>sc. lift (skip_lws sc))"
  unfolding skip_lws_def option.map_comp o_def
  by (rule stable_loopI) (auto split: sum.splits if_splits)

lemma match_non_ws_string_safe [safe_intros]: "safe span_in match_non_ws_string"
proof (rule safeI)
  fix sc
  assume ok: "at_ok sc"
  let ?I = "\<lambda>len c. sc_cursor sc + len = c"
  have init: "?I 0 (sc_cursor sc)" by simp
  have step: "?I s' (sp_off t + sp_len t)"
    if "non_ws_body s t ty = Some s'" "?I s (sp_off t)" "span_in (sc_msg sc) t" "sc_cursor sc \<le> sp_off t"
    for s t ty s'
    using that by (auto simp: non_ws_body_def split: if_splits)
  have str: "within sc sc' \<Longrightarrow> sc_cursor sc + n \<le> sc_cursor sc' \<Longrightarrow>
      span_in (sc_msg sc) \<lparr>sp_off = scanner_get_str sc, sp_len = n\<rparr>" for sc' n
    by (simp add: within_def span_in_def scanner_get_str_def)
  show "\<exists>st sc' v. match_non_ws_string sc = Some (st, sc', v) \<and> within sc sc' \<and> plain st \<and> span_in (sc_msg sc) v"
    using ok init step
    by (rule token_loop_safe [where I = ?I and body = non_ws_body and s = 0])
      (simp add: match_non_ws_string_def Let_def str within_back)+
qed

lemma match_non_ws_string_stable [stable_intros]: "stable match_non_ws_string"
  unfolding match_non_ws_string_def
  by (rule stable_loopI) (auto simp: scanner_get_str_def Let_def split: sum.splits if_splits)

lemma length_trim_right: "List.length (trim_right s) \<le> List.length s"
  unfolding trim_right_def by (metis length_dropWhile_le length_rev)

lemma match_raw_value_safe [safe_intros]: "safe span_in match_raw_value"
proof (rule safeI)
  fix sc
  assume ok: "at_ok sc"
  let ?I = "\<lambda>(crlf, len) c. sc_cursor sc + len = c \<and> opt_in (\<lambda>_ p. sc_cursor sc \<le> p \<and> p \<le> c) [] crlf"
  have init: "?I (None, 0) (sc_cursor sc)" by simp
  have step: "?I s' (sp_off t + sp_len t)"
    if "raw_body s t ty = Some s'" "?I s (sp_off t)" "span_in (sc_msg sc) t" "sc_cursor sc \<le> sp_off t"
    for s t ty s'
    using that by (auto simp: raw_body_def opt_in_def split: if_splits prod.splits option.splits)
  have str: "span_in (sc_msg sc) \<lparr>sp_off = scanner_get_str sc, sp_len = n\<rparr>"
    if "within sc sc'" "sc_cursor sc + n \<le> sc_cursor sc'" for sc' n
    using that by (simp add: within_def span_in_def scanner_get_str_def)
  show "\<exists>st sc' v. match_raw_value sc = Some (st, sc', v) \<and> within sc sc' \<and> plain st \<and> span_in (sc_msg sc) v"
    using ok init step
  proof (rule token_loop_safe [where I = ?I and body = raw_body and s = "(None, 0)"])
    fix sc' s' st
    assume "token_loop raw_body sc (None, 0) = Some (sc', s', Inl st)" "within sc sc'" "?I s' (sc_cursor sc')"
      "st = PARSE_INCOMPLETE \<or> st = PARSE_FAILURE"
    then show ?thesis using ok by (cases s') (auto simp: match_raw_value_def Let_def intro!: str)
  next
    fix sc' s' t ty
    assume loop: "token_loop raw_body sc (None, 0) = Some (sc', s', Inr t)" "within sc sc'"
      and I: "?I s' (sp_off t)" and stop: "raw_body s' t ty = None"
      and c: "sc_cursor sc' = sp_off t + sp_len t" "sc_cursor sc \<le> sp_off t"
    from stop obtain p len where s': "s' = (Some p, len)"
      by (cases s') (auto simp: raw_body_def split: option.splits)
    let ?v = "\<lparr>sp_off = scanner_get_str sc,
               sp_len = List.length (trim_right (take len (drop (scanner_get_str sc) (sc_msg sc))))\<rparr>"
    have "sp_len ?v \<le> len" using length_trim_right [of "take len (drop (scanner_get_str sc) (sc_msg sc))"] by simp
    then have "span_in (sc_msg sc) ?v" using str [OF loop(2), of "sp_len ?v"] I c s' by simp
    moreover have "within sc (sc'\<lparr>sc_cursor := p\<rparr>)" using I c s' by (intro within_back [OF loop(2)]) auto
    ultimately show ?thesis using loop(1) s' by (simp add: match_raw_value_def Let_def)
  qed
qed

lemma match_raw_value_stable [stable_intros]: "stable match_raw_value"
  unfolding match_raw_value_def
proof (rule stable_loopI, goal_cases)
  case (1 sc late)
  then show ?case by simp
next
  case (2 sc sc' s)
  then show ?case by (cases s) (simp add: Let_def)
next
  case (3 sc sc' s r st sc2 v late)
  let ?I = "\<lambda>(crlf, len) c. sc_cursor sc + len = c"
  have init: "?I (None, 0) (sc_cursor sc)" by simp
  have step: "?I s' (sp_off t + sp_len t)"
    if "raw_body s t ty = Some s'" "?I s (sp_off t)" "span_in (sc_msg sc) t" "sc_cursor sc \<le> sp_off t"
    for s t ty s'
    using that by (auto simp: raw_body_def split: if_splits prod.splits option.splits)
  have "sc_cursor sc + snd s \<le> List.length (sc_msg sc)"
    using 3(1) init step
    by (rule token_loop_safe [where I = ?I and body = raw_body and s = "(None, 0)"])
      (use 3(2) in \<open>auto simp: within_def\<close>)
  then have "take (snd s) (drop (sc_cursor sc) (sc_msg sc @ late)) = take (snd s) (drop (sc_cursor sc) (sc_msg sc))"
    by simp
  with 3(3) show ?case by (cases s) (auto simp: Let_def scanner_get_str_def split: sum.splits)
qed

lemma read_until_crlf_safe [safe_intros]: "safe (opt_in span_in) read_until_crlf"
proof (rule safeI)
  fix sc
  assume ok: "at_ok sc"
  then show "\<exists>st sc' v. read_until_crlf sc = Some (st, sc', v) \<and> within sc sc' \<and> plain st \<and> opt_in span_in (sc_msg sc) v"
    by (rule token_loop_safe [where I = "\<lambda>_ _. True" and body = line_body and s = "()"])
      (auto simp: read_until_crlf_def scanner_get_str_def span_in_def intro!: within_back)
qed

lemma read_until_crlf_stable [stable_intros]: "stable read_until_crlf"
  unfolding read_until_crlf_def
  by (rule stable_loopI) (auto simp: scanner_get_str_def split: sum.splits)

lemma match_char_safe [safe_intros]: "safe any (\<lambda>sc. lift (Some (match_char sc c cs)))"
  by (rule safeI) (auto simp: match_char_def Let_def within_def)

lemma match_char_stable [stable_intros]: "stable (\<lambda>sc. lift (Some (match_char sc c cs)))"
  by (auto simp: stable_def match_char_def Let_def nth_append split: if_splits)

lemma match_token_safe [safe_intros]: "safe (opt_in span_in) (\<lambda>sc. match_token sc ty)"
proof (rule safeI)
  fix sc
  assume ok: "at_ok sc"
  then show "\<exists>st sc' v. match_token sc ty = Some (st, sc', v) \<and> within sc sc' \<and> plain st \<and> opt_in span_in (sc_msg sc) v"
    by (rule scanner_get_token_safe) (use ok in \<open>auto simp: match_token_def\<close>)
qed

lemma get_token_cases:
  assumes "at_ok sc"
  obtains (err) st where "scanner_get_token sc = Some (sc, Inl st)"
  | (tok) sc' t ty where "scanner_get_token sc = Some (sc', Inr (t, ty))"
  using assms by (rule scanner_get_token_safe) auto

lemma match_token_stable [stable_intros]: "stable (\<lambda>sc. match_token sc ty)"
  unfolding stable_def
proof (intro allI impI)
  fix sc st sc' v late
  assume "at_ok sc" and m: "match_token sc ty = Some (st, sc', v)" and st: "st \<noteq> PARSE_INCOMPLETE"
    and l: "\<not> sc_loaded sc"
  from this(1) show "match_token (grow late sc) ty = Some (st, grow late sc', v)"
  proof (cases rule: get_token_cases)
    case (err e)
    with m st scanner_get_token_stable [OF err _ l, of late] show ?thesis by (auto simp: match_token_def)
  next
    case (tok sc1 t ty1)
    with m scanner_get_token_stable [OF tok _ l, of late] show ?thesis by (auto simp: match_token_def)
  qed
qed


section \<open>Numbers\<close>

lemma xdigit_identifier: "isxdigit c \<Longrightarrow> is_identifier_char c"
  by (auto simp: isxdigit_def isdigit_def is_identifier_char_def is_separator_char_def strchr_found_def schar_def)

lemma x_identifier: "tolower c = CHR ''x'' \<Longrightarrow> is_identifier_char c"
proof -
  assume "tolower c = CHR ''x''"
  then have "code (tolower c) = 120" by simp
  then have "code c = 120 \<or> code c = 88" by (auto simp: tolower_def isupper_def split: if_splits)
  then show "is_identifier_char c"
    by (auto simp: is_identifier_char_def is_separator_char_def strchr_found_def schar_def)
qed

lemma identifier_not_space: "is_identifier_char c \<Longrightarrow> \<not> isspace c"
proof -
  assume c: "is_identifier_char c"
  have "c \<noteq> CHR '' ''" using c by (auto simp: is_identifier_char_def is_separator_char_def strchr_found_def)
  moreover have "code (CHR '' '') = 32" by simp
  ultimately have "code c \<noteq> 32" by (metis of_char_eq_iff)
  then show ?thesis using c by (auto simp: is_identifier_char_def isspace_def schar_def split: if_splits)
qed

lemma takeWhile_identifiers:
  assumes "\<And>c. p c \<Longrightarrow> is_identifier_char c" and "b = [] \<or> \<not> is_identifier_char (hd b)"
  shows "takeWhile p (a @ b) = takeWhile p a"
  using assms by (induction a) (cases b, auto)

lemma hex_prefix_append:
  assumes "b = [] \<or> \<not> is_identifier_char (hd b)"
  shows "hex_prefix base (a @ b) = hex_prefix base a"
proof -
  have b0: "\<not> is_identifier_char (cchar_at b 0)"
    using assms by (cases b) (auto simp: cchar_at_def is_identifier_char_def schar_def)
  have i: "is_identifier_char (CHR ''0'')" by (rule xdigit_identifier) (simp add: isxdigit_def isdigit_def)
  have nul: "\<not> is_identifier_char NUL" by (simp add: is_identifier_char_def schar_def)
  consider "a = []" | x where "a = [x]" | x y where "a = [x, y]" | x y z r where "a = x # y # z # r"
    by (metis list.exhaust)
  then show ?thesis
  proof cases
    case 1
    have "cchar_at b 0 \<noteq> CHR ''0''" using b0 i by metis
    then show ?thesis using 1 by (simp add: hex_prefix_def cchar_at_def)
  next
    case 2
    have "tolower (cchar_at (x # b) 1) \<noteq> CHR ''x''" using b0 x_identifier by (auto simp: cchar_at_def)
    moreover have "tolower (cchar_at [x] 1) \<noteq> CHR ''x''" using nul x_identifier by (auto simp: cchar_at_def)
    ultimately show ?thesis using 2 by (simp add: hex_prefix_def)
  next
    case 3
    have "\<not> isxdigit (cchar_at (x # y # b) 2)" using b0 xdigit_identifier by (auto simp: cchar_at_def numeral_2_eq_2)
    moreover have "\<not> isxdigit (cchar_at [x, y] 2)" using nul xdigit_identifier by (auto simp: cchar_at_def)
    ultimately show ?thesis using 3 by (simp add: hex_prefix_def)
  next
    case 4
    then show ?thesis by (simp add: hex_prefix_def cchar_at_def)
  qed
qed

lemma hex_prefix_le: "hex_prefix base a \<le> List.length a"
  by (auto simp: hex_prefix_def cchar_at_def isxdigit_def isdigit_def split: if_splits)

text \<open>\<open>strtol\<close> on an identifier reads nothing after it.\<close>

lemma strtol_identifier:
  assumes "a \<noteq> []" and "list_all is_identifier_char a" and b: "b = [] \<or> \<not> is_identifier_char (hd b)"
  shows "strtol base (a @ b) = strtol base a"
proof -
  obtain c a' where a: "a = c # a'" using assms(1) by (cases a) auto
  have sp: "\<not> isspace c" using assms(2) a identifier_not_space by simp
  have ws: "takeWhile isspace (a @ b) = []" "takeWhile isspace a = []" using sp a by simp_all
  define sg where "sg = (if cchar_at a 0 = CHR ''-'' \<or> cchar_at a 0 = CHR ''+'' then 1 else (0::nat))"
  have c0: "cchar_at (a @ b) 0 = cchar_at a 0" using a by (simp add: cchar_at_def)
  have sg1: "sg \<le> List.length a" using a by (simp add: sg_def)
  have pre: "hex_prefix base (drop sg (a @ b)) = hex_prefix base (drop sg a)"
    using hex_prefix_append [OF b] sg1 by simp
  have le: "sg + hex_prefix base (drop sg a) \<le> List.length a"
    using hex_prefix_le [of base "drop sg a"] sg1 by simp
  have dig: "digit_of base c \<Longrightarrow> is_identifier_char c" for c
    using xdigit_identifier [of c] by (simp add: digit_of_def isxdigit_def split: if_splits)
  have "takeWhile (digit_of base) (drop (sg + hex_prefix base (drop sg a)) (a @ b)) =
        takeWhile (digit_of base) (drop (sg + hex_prefix base (drop sg a)) a)"
    using takeWhile_identifiers [of "digit_of base" b "drop (sg + hex_prefix base (drop sg a)) a", OF dig b] le
    by simp
  then show ?thesis
    unfolding strtol_def Let_def ws c0 List.list.size drop_0 sg_def [symmetric] pre by simp
qed

text \<open>An identifier token is a maximal run of identifier characters.\<close>

lemma identifier_token:
  assumes "scanner_get_token sc = Some (sc', Inr (t, TT_IDENTIFIER))"
  shows "span_text (sc_msg sc) t \<noteq> [] \<and> list_all is_identifier_char (span_text (sc_msg sc) t) \<and>
         (let r = drop (sp_off t + sp_len t) (sc_msg sc) in r = [] \<or> \<not> is_identifier_char (hd r))"
proof -
  let ?s = "drop (sc_cursor sc) (sc_msg sc)"
  from assms obtain n where n: "next_token (sc_loaded sc) ?s = Inr (n, TT_IDENTIFIER)"
    and t: "t = \<lparr>sp_off = sc_cursor sc, sp_len = n\<rparr>"
    by (auto simp: scanner_get_token_def split: if_splits sum.splits)
  obtain c cs where s: "?s = c # cs" using n by (cases ?s) (auto simp: next_token_def)
  have c: "is_identifier_char c" and len: "n = Suc (List.length (takeWhile is_identifier_char cs))"
    using n unfolding s
    by (auto simp: next_token_def Let_def run_length_def split: if_splits list.splits sum.splits)
  have tk: "span_text (sc_msg sc) t = takeWhile is_identifier_char (c # cs)"
    using c len s by (simp add: span_text_def t takeWhile_eq_take [symmetric])
  have "drop (sp_off t + sp_len t) (sc_msg sc) = drop n ?s" by (simp add: t add.commute)
  then have rest: "drop (sp_off t + sp_len t) (sc_msg sc) = dropWhile is_identifier_char (c # cs)"
    unfolding s using c len by (simp add: dropWhile_eq_drop)
  show ?thesis
    unfolding Let_def tk rest
    using c hd_dropWhile [of is_identifier_char "c # cs"]
    by (auto simp: list_all_iff dest: set_takeWhileD)
qed

lemma strtol_token:
  assumes "scanner_get_token sc = Some (sc', Inr (t, TT_IDENTIFIER))"
  shows "strtol base (span_rest (sc_msg sc) t) = strtol base (span_text (sc_msg sc) t)"
proof -
  have "span_rest (sc_msg sc) t = span_text (sc_msg sc) t @ drop (sp_off t + sp_len t) (sc_msg sc)"
    by (simp add: span_rest_def span_text_def add.commute flip: drop_drop)
  with identifier_token [OF assms] strtol_identifier show ?thesis by (simp add: Let_def)
qed

lemma span_text_append: "span_in m t \<Longrightarrow> span_text (m @ late) t = span_text m t"
  by (simp add: span_in_def span_text_def)

lemma match_int_safe [safe_intros]: "safe any (\<lambda>sc. match_int sc base)"
proof (rule safeI)
  fix sc
  assume ok: "at_ok sc"
  then show "\<exists>st sc' v. match_int sc base = Some (st, sc', v) \<and> within sc sc' \<and> plain st \<and> any (sc_msg sc) v"
    by (rule scanner_get_token_safe) (use ok in \<open>auto simp: match_int_def Let_def\<close>)
qed

lemma match_int_stable [stable_intros]: "stable (\<lambda>sc. match_int sc base)"
  unfolding stable_def
proof (intro allI impI)
  fix sc st sc' v late
  assume ok: "at_ok sc" and m: "match_int sc base = Some (st, sc', v)" and st: "st \<noteq> PARSE_INCOMPLETE"
    and l: "\<not> sc_loaded sc"
  from ok show "match_int (grow late sc) base = Some (st, grow late sc', v)"
  proof (cases rule: scanner_get_token_safe)
    case (err e)
    with m st scanner_get_token_stable [OF err(1) _ l, of late] show ?thesis
      by (auto simp: match_int_def)
  next
    case (tok sc1 t ty)
    note tok' = scanner_get_token_stable [OF tok(1) _ l, of late]
    show ?thesis
    proof (cases "ty = TT_IDENTIFIER")
      case True
      have "strtol base (span_rest (sc_msg (grow late sc)) t) = strtol base (span_rest (sc_msg sc) t)"
        using strtol_token [of sc sc1 t base] strtol_token [of "grow late sc" "grow late sc1" t base]
          tok tok' True span_text_append [OF tok(3)] by simp
      with m tok' tok(1) True show ?thesis by (auto simp: match_int_def Let_def split: if_splits)
    next
      case False
      with m tok' tok(1) show ?thesis by (auto simp: match_int_def)
    qed
  qed
qed


section \<open>The format interpreter\<close>

fun arg_in :: "string \<Rightarrow> arg \<Rightarrow> bool" where
  "arg_in m (StrArg t) = span_in m t"
| "arg_in m _ = True"

abbreviation args_in :: "string \<Rightarrow> arg list \<Rightarrow> bool" where
  "args_in m \<equiv> list_all (arg_in m)"

text \<open>The directives of \<open>vfmatch\<close>, but \<open>%U\<close>, and the formats built from them.\<close>

definition is_directive :: "char \<Rightarrow> bool" where
  "is_directive d \<longleftrightarrow> d = CHR ''R'' \<or> d = CHR ''L'' \<or> d = CHR ''S'' \<or> d = CHR '' '' \<or> d = CHR ''%'' \<or>
     d = CHR ''d'' \<or> d = CHR ''x'' \<or> d = CHR ''s'' \<or> d = CHR ''c'' \<or> d = CHR ''q'' \<or>
     d = CHR ''n'' \<or> d = CHR ''i'' \<or> d = CHR ''P'' \<or> d = CHR ''0'' \<or> d = CHR ''w''"

fun fmt_of :: "(char \<Rightarrow> bool) \<Rightarrow> string \<Rightarrow> bool" where
  "fmt_of ds [] = True"
| "fmt_of ds [c] = (c \<noteq> CHR ''%'')"
| "fmt_of ds (c # d # f) = (if c = CHR ''%'' then ds d \<and> fmt_of ds f else fmt_of ds (d # f))"

abbreviation stable_directive :: "char \<Rightarrow> bool" where
  "stable_directive \<equiv> \<lambda>d. is_directive d \<and> d \<noteq> CHR ''0''"

lemma directive_cases:
  assumes "is_directive d"
  obtains "d = CHR ''R''" | "d = CHR ''L''" | "d = CHR ''S''" | "d = CHR '' '' \<or> d = CHR ''%''"
    | "d = CHR ''d'' \<or> d = CHR ''x''" | "d = CHR ''s'' \<or> d = CHR ''c'' \<or> d = CHR ''q''"
    | "d = CHR ''n'' \<or> d = CHR ''i'' \<or> d = CHR ''P'' \<or> d = CHR ''0''" | "d = CHR ''w''"
  using assms unfolding is_directive_def by metis

lemma match_directive_safe:
  assumes "is_directive d" and ok: "at_ok sc"
  shows "\<exists>st cs' sc' vs. match_directive env d cs sc = Some (st, cs', sc', vs) \<and> within sc sc' \<and>
           plain st \<and> args_in (sc_msg sc) vs"
proof -
  from assms(1) show ?thesis
  proof (cases rule: directive_cases)
    case 1
    obtain st sc' v where "match_raw_value sc = Some (st, sc', v)" "within sc sc'" "plain st" "span_in (sc_msg sc) v"
      by (rule safeD [OF match_raw_value_safe ok])
    with 1 show ?thesis by (simp add: match_directive_def)
  next
    case 2
    obtain st sc' v where "read_until_crlf sc = Some (st, sc', v)" "within sc sc'" "plain st" "opt_in span_in (sc_msg sc) v"
      by (rule safeD [OF read_until_crlf_safe ok])
    with 2 show ?thesis by (cases v) (auto simp: match_directive_def)
  next
    case 3
    obtain st sc' v where "match_non_ws_string sc = Some (st, sc', v)" "within sc sc'" "plain st" "span_in (sc_msg sc) v"
      by (rule safeD [OF match_non_ws_string_safe ok])
    with 3 show ?thesis by (simp add: match_directive_def)
  next
    case 4
    have "within sc (snd (match_char sc d cs)) \<and> plain (fst (match_char sc d cs))"
      using ok by (simp add: match_char_def Let_def within_def)
    with 4 show ?thesis by (cases "match_char sc d cs") (elim disjE; simp add: match_directive_def)
  next
    case 5
    obtain st sc' v where "match_int sc (if d = CHR ''d'' then 10 else 16) = Some (st, sc', v)" "within sc sc'" "plain st"
      by (rule safeD [OF match_int_safe ok])
    with 5 show ?thesis by (cases v) (auto simp: match_directive_def)
  next
    case 6
    have tok: "\<exists>st sc' v. match_token sc ty = Some (st, sc', v) \<and> within sc sc' \<and> plain st \<and> opt_in span_in (sc_msg sc) v"
      for ty by (rule safeD [OF match_token_safe ok]) blast
    from 6 show ?thesis
    proof (elim disjE)
      assume d: "d = CHR ''s''"
      obtain st sc' v where "match_token sc TT_IDENTIFIER = Some (st, sc', v)" "within sc sc'" "plain st" "opt_in span_in (sc_msg sc) v"
        using tok [of TT_IDENTIFIER] by blast
      with d show ?thesis by (cases v) (simp_all add: match_directive_def)
    next
      assume "d = CHR ''c''"
      then show ?thesis using tok [of TT_CRLF] by (auto simp: match_directive_def)
    next
      assume d: "d = CHR ''q''"
      obtain st sc' v where "match_token sc TT_QUOTEDSTRING = Some (st, sc', v)" "within sc sc'" "plain st" "opt_in span_in (sc_msg sc) v"
        using tok [of TT_QUOTEDSTRING] by blast
      with d show ?thesis by (cases v) (simp_all add: match_directive_def)
    qed
  next
    case 7
    then show ?thesis using ok by (elim disjE; simp add: match_directive_def; blast)
  next
    case 8
    from ok show ?thesis
      by (rule scanner_get_token_safe) (use ok 8 in \<open>auto simp: match_directive_def intro: within_back\<close>)
  qed
qed

lemma match_directive_stable:
  assumes "stable_directive d" and ok: "at_ok sc" and l: "\<not> sc_loaded sc"
    and m: "match_directive env d cs sc = Some (st, cs', sc', vs)" and st: "st \<noteq> PARSE_INCOMPLETE"
  shows "match_directive env d cs (grow late sc) = Some (st, cs', grow late sc', vs)"
proof -
  note grows = stableD [OF _ _ st ok l, of _ _ _ late]
  have d0: "d \<noteq> CHR ''0''" using assms(1) by simp
  from assms(1) have "is_directive d" by simp
  then show ?thesis
  proof (cases rule: directive_cases)
    case 1
    with m grows [OF match_raw_value_stable] show ?thesis by (auto simp: match_directive_def)
  next
    case 2
    with m grows [OF read_until_crlf_stable] show ?thesis by (auto simp: match_directive_def)
  next
    case 3
    with m grows [OF match_non_ws_string_stable] show ?thesis by (auto simp: match_directive_def)
  next
    case 4
    obtain st2 sc2 where mc: "match_char sc d cs = (st2, sc2)" by fastforce
    have "match_directive env d cs sc = Some (st2, cs, sc2, [])"
      using 4 mc by (elim disjE; simp add: match_directive_def)
    then have eqs: "st2 = st" "cs' = cs" "sc2 = sc'" "vs = []" using m by simp_all
    then have "match_char (grow late sc) d cs = (st, grow late sc')"
      using grows [OF match_char_stable [of d cs], of sc' "()"] mc
      by (cases "match_char (grow late sc) d cs") simp
    then show ?thesis using 4 eqs by (elim disjE; simp add: match_directive_def)
  next
    case 5
    with m grows [OF match_int_stable] show ?thesis by (auto simp: match_directive_def)
  next
    case 6
    define ty where
      "ty = (if d = CHR ''s'' then TT_IDENTIFIER else if d = CHR ''c'' then TT_CRLF else TT_QUOTEDSTRING)"
    define out where "out v = (if d = CHR ''c'' then [] else case v of None \<Rightarrow> [] | Some t \<Rightarrow> [StrArg t])" for v
    have run: "match_directive env d cs sc = map_option (\<lambda>(st, sc', t). (st, cs, sc', out t)) (match_token sc ty)"
      for sc using 6 unfolding ty_def out_def by (elim disjE; simp add: match_directive_def)
    obtain v where v: "match_token sc ty = Some (st, sc', v)" "cs' = cs" "vs = out v"
      using m unfolding run by auto
    then show ?thesis using grows [OF match_token_stable v(1)] by (simp add: run)
  next
    case 7
    then show ?thesis using m d0 by (elim disjE; simp add: match_directive_def; elim conjE; simp)
  next
    case 8
    from ok show ?thesis
    proof (cases rule: get_token_cases)
      case (err e)
      with m st 8 scanner_get_token_stable [OF err _ l, of late] show ?thesis
        by (auto simp: match_directive_def)
    next
      case (tok sc1 t ty)
      with m 8 scanner_get_token_stable [OF tok _ l, of late] show ?thesis
        by (auto simp: match_directive_def)
    qed
  qed
qed

lemma match_literal_safe: "at_ok sc \<Longrightarrow> \<exists>st sc'. match_literal c cs sc = Some (st, sc') \<and> within sc sc' \<and> plain st"
proof -
  assume ok: "at_ok sc"
  obtain st sc' where "skip_lws sc = Some (st, sc')" "within sc sc'" "plain st"
    using safeD [OF skip_lws_safe ok] by auto
  moreover obtain st2 sc2 v where "match_token sc TT_WHITESPACE = Some (st2, sc2, v)" "within sc sc2" "plain st2"
    by (rule safeD [OF match_token_safe ok])
  moreover have "within sc (snd (match_char sc c cs)) \<and> plain (fst (match_char sc c cs))"
    using ok by (simp add: match_char_def Let_def within_def)
  ultimately show ?thesis by (cases "match_char sc c cs") (auto simp: match_literal_def)
qed

lemma match_literal_stable:
  assumes ok: "at_ok sc" and l: "\<not> sc_loaded sc" and m: "match_literal c cs sc = Some (st, sc')"
    and st: "st \<noteq> PARSE_INCOMPLETE"
  shows "match_literal c cs (grow late sc) = Some (st, grow late sc')"
proof -
  note grows = stableD [OF _ _ st ok l, of _ _ _ late]
  show ?thesis
    using m grows [OF skip_lws_stable, of sc' "()"] grows [OF match_token_stable, of TT_WHITESPACE sc']
      grows [OF match_char_stable [of c cs], of sc' "()"]
    by (auto simp: match_literal_def split: if_splits prod.splits)
qed

lemma vfmatch_loop_safe:
  assumes "fmt_of is_directive fmt" and "at_ok sc" and "args_in (sc_msg sc) vs"
  shows "\<exists>st sc' vs'. vfmatch_loop env fmt cs sc vs = Some (st, sc', vs') \<and> within sc sc' \<and>
           plain st \<and> args_in (sc_msg sc) vs'"
  using assms
proof (induction env fmt cs sc vs rule: vfmatch_loop.induct)
  case (1 env cs sc vs)
  then show ?case by simp
next
  case (2 env c cs sc vs)
  then show ?case using match_literal_safe [of sc c cs] by auto
next
  case (3 env c d f cs sc vs)
  show ?case
  proof (cases "c = CHR ''%''")
    case True
    with 3(3) have d: "is_directive d" "fmt_of is_directive f" by simp_all
    from match_directive_safe [OF d(1) 3(4), of env cs] obtain st cs' sc1 vs1 where
      m: "match_directive env d cs sc = Some (st, cs', sc1, vs1)" "within sc sc1" "args_in (sc_msg sc) vs1" "plain st"
      by blast
    have a1: "args_in (sc_msg sc1) (vs @ vs1)" using m(2,3) 3(5) by (simp add: within_def)
    show ?thesis
    proof (cases "st = PARSE_OK")
      case ok: True
      from 3(1) [OF True m(1) refl refl refl ok d(2) within_at_ok [OF m(2)] a1]
      obtain st2 sc2 vs2 where r: "vfmatch_loop env f cs' sc1 (vs @ vs1) = Some (st2, sc2, vs2)"
        "within sc1 sc2" "args_in (sc_msg sc1) vs2" "plain st2" by blast
      moreover have "sc_msg sc1 = sc_msg sc" using m(2) by (simp add: within_def)
      ultimately show ?thesis using True m ok within_trans [OF m(2) r(2)] by simp
    next
      case False
      then show ?thesis using True m 3(5) by simp
    qed
  next
    case False
    with 3(3) have f: "fmt_of is_directive (d # f)" by simp
    from match_literal_safe [OF 3(4), of c cs] obtain st sc1 where
      m: "match_literal c cs sc = Some (st, sc1)" "within sc sc1" "plain st" by blast
    have eq: "sc_msg sc1 = sc_msg sc" using m(2) by (simp add: within_def)
    show ?thesis
    proof (cases "st = PARSE_OK")
      case ok: True
      have a1: "args_in (sc_msg sc1) vs" using eq 3(5) by simp
      from 3(2) [OF False m(1) refl ok f within_at_ok [OF m(2)] a1]
      obtain st2 sc2 vs2 where r: "vfmatch_loop env (d # f) cs sc1 vs = Some (st2, sc2, vs2)"
        "within sc1 sc2" "args_in (sc_msg sc1) vs2" "plain st2" by blast
      then show ?thesis using False m ok eq within_trans [OF m(2) r(2)] by simp
    next
      case nok: False
      then show ?thesis using False m 3(5) by simp
    qed
  qed
qed

lemma match_literal_loaded:
  "match_literal c cs sc = Some (st, sc') \<Longrightarrow> at_ok sc \<Longrightarrow> at_ok sc' \<and> sc_loaded sc' = sc_loaded sc"
  using match_literal_safe [of sc c cs] by (auto simp: within_def)

lemma match_directive_loaded:
  "match_directive env d cs sc = Some (st, cs', sc', vs) \<Longrightarrow> is_directive d \<Longrightarrow> at_ok sc \<Longrightarrow>
     at_ok sc' \<and> sc_loaded sc' = sc_loaded sc"
  using match_directive_safe [of d sc env cs] by (auto simp: within_def)

lemma vfmatch_loop_stable:
  assumes "fmt_of stable_directive fmt" and "at_ok sc" and "\<not> sc_loaded sc"
    and "vfmatch_loop env fmt cs sc vs = Some (st, sc', vs')" and "st \<noteq> PARSE_INCOMPLETE"
  shows "vfmatch_loop env fmt cs (grow late sc) vs = Some (st, grow late sc', vs')"
  using assms
proof (induction env fmt cs sc vs rule: vfmatch_loop.induct)
  case (1 env cs sc vs)
  then show ?case by simp
next
  case (2 env c cs sc vs)
  then show ?case using match_literal_stable [of sc c cs st sc' late] by auto
next
  case (3 env c d f cs sc vs)
  show ?case
  proof (cases "c = CHR ''%''")
    case True
    with 3(3) have d: "stable_directive d" "fmt_of stable_directive f" by simp_all
    from 3(6) True obtain st1 cs1 sc1 vs1 where m: "match_directive env d cs sc = Some (st1, cs1, sc1, vs1)"
      by (auto split: option.splits)
    have st1: "st1 \<noteq> PARSE_INCOMPLETE" using 3(6,7) m True by auto
    note m' = match_directive_stable [OF d(1) 3(4,5) m st1, of late]
    show ?thesis
    proof (cases "st1 = PARSE_OK")
      case ok: True
      have "at_ok sc1" "\<not> sc_loaded sc1" using match_directive_loaded [OF m _ 3(4)] d(1) 3(5) by auto
      from 3(1) [OF True m refl refl refl ok d(2) this _ 3(7)] 3(6) m m' True ok
      show ?thesis by simp
    next
      case False
      then show ?thesis using 3(6) m m' True by simp
    qed
  next
    case False
    with 3(3) have f: "fmt_of stable_directive (d # f)" by simp
    from 3(6) False obtain st1 sc1 where m: "match_literal c cs sc = Some (st1, sc1)"
      by (auto split: option.splits)
    have st1: "st1 \<noteq> PARSE_INCOMPLETE" using 3(6,7) m False by auto
    note m' = match_literal_stable [OF 3(4,5) m st1, of late]
    show ?thesis
    proof (cases "st1 = PARSE_OK")
      case ok: True
      have "at_ok sc1" "\<not> sc_loaded sc1" using match_literal_loaded [OF m 3(4)] 3(5) by auto
      from 3(2) [OF False m refl ok f this _ 3(7)] 3(6) m m' False ok
      show ?thesis by simp
    next
      case nok: False
      then show ?thesis using 3(6) m m' False by simp
    qed
  qed
qed


section \<open>The values a format writes\<close>

fun is_str :: "arg \<Rightarrow> bool" where
  "is_str (StrArg _) = True"
| "is_str _ = False"

definition directive_kinds :: "char \<Rightarrow> bool list" where
  "directive_kinds d =
     (if d = CHR ''R'' \<or> d = CHR ''L'' \<or> d = CHR ''S'' \<or> d = CHR ''s'' \<or> d = CHR ''q'' then [True]
      else if d = CHR ''d'' \<or> d = CHR ''x'' \<or> d = CHR ''P'' then [False] else [])"

fun fmt_kinds :: "string \<Rightarrow> bool list" where
  "fmt_kinds [] = []"
| "fmt_kinds [c] = []"
| "fmt_kinds (c # d # f) = (if c = CHR ''%'' then directive_kinds d @ fmt_kinds f else fmt_kinds (d # f))"

lemma match_token_OK: "match_token sc ty = Some (PARSE_OK, sc', v) \<Longrightarrow> at_ok sc \<Longrightarrow> \<exists>t. v = Some t"
  by (erule scanner_get_token_safe) (auto simp: match_token_def)

lemma match_int_OK: "match_int sc base = Some (PARSE_OK, sc', v) \<Longrightarrow> at_ok sc \<Longrightarrow> \<exists>i. v = Some i"
  by (erule scanner_get_token_safe) (auto simp: match_int_def Let_def split: if_splits)

lemma read_until_crlf_OK:
  assumes "read_until_crlf sc = Some (PARSE_OK, sc', v)" and "at_ok sc"
  shows "\<exists>t. v = Some t"
  using assms(2)
  by (rule token_loop_safe [where I = "\<lambda>_ _. True" and body = line_body and s = "()"])
    (use assms(1) in \<open>auto simp: read_until_crlf_def\<close>)

lemma match_directive_kinds:
  assumes "is_directive d" and ok: "at_ok sc"
    and m: "match_directive env d cs sc = Some (PARSE_OK, cs', sc', vs)"
  shows "map is_str vs = directive_kinds d"
  using assms(1)
proof (cases rule: directive_cases)
  case 1
  then show ?thesis using m by (auto simp: match_directive_def directive_kinds_def)
next
  case 2
  then obtain v where "read_until_crlf sc = Some (PARSE_OK, sc', v)"
    "vs = (case v of None \<Rightarrow> [] | Some t \<Rightarrow> [StrArg t])" using m by (auto simp: match_directive_def)
  then show ?thesis using read_until_crlf_OK [OF _ ok] 2 by (fastforce simp: directive_kinds_def)
next
  case 3
  then show ?thesis using m by (auto simp: match_directive_def directive_kinds_def)
next
  case 4
  then show ?thesis using m
    by (cases "match_char sc d cs") (elim disjE; simp add: match_directive_def directive_kinds_def)
next
  case 5
  then obtain v where "match_int sc (if d = CHR ''d'' then 10 else 16) = Some (PARSE_OK, sc', v)"
    "vs = (case v of None \<Rightarrow> [] | Some t \<Rightarrow> [IntArg t])" using m by (auto simp: match_directive_def)
  then show ?thesis using match_int_OK [OF _ ok] 5 by (fastforce simp: directive_kinds_def)
next
  case 6
  define ty where
    "ty = (if d = CHR ''s'' then TT_IDENTIFIER else if d = CHR ''c'' then TT_CRLF else TT_QUOTEDSTRING)"
  have "\<exists>v. match_token sc ty = Some (PARSE_OK, sc', v) \<and>
      vs = (if d = CHR ''c'' then [] else case v of None \<Rightarrow> [] | Some t \<Rightarrow> [StrArg t])"
    using 6 m unfolding ty_def by (elim disjE; simp add: match_directive_def; auto)
  then show ?thesis using match_token_OK [OF _ ok] 6 by (elim disjE) (fastforce simp: directive_kinds_def)+
next
  case 7
  then show ?thesis using m
    by (elim disjE; simp add: match_directive_def directive_kinds_def; auto)
next
  case 8
  then show ?thesis using m ok
    by (elim get_token_cases) (auto simp: match_directive_def directive_kinds_def)
qed

lemma vfmatch_loop_kinds:
  assumes "fmt_of is_directive fmt" and "at_ok sc"
    and "vfmatch_loop env fmt cs sc vs = Some (PARSE_OK, sc', vs')"
  shows "map is_str vs' = map is_str vs @ fmt_kinds fmt"
  using assms
proof (induction env fmt cs sc vs rule: vfmatch_loop.induct)
  case (1 env cs sc vs)
  then show ?case by simp
next
  case (2 env c cs sc vs)
  then show ?case by auto
next
  case (3 env c d f cs sc vs)
  show ?case
  proof (cases "c = CHR ''%''")
    case True
    with 3(3) have d: "is_directive d" "fmt_of is_directive f" by simp_all
    from 3(5) True obtain st1 cs1 sc1 vs1 where m: "match_directive env d cs sc = Some (st1, cs1, sc1, vs1)"
      by (auto split: option.splits)
    have ok: "st1 = PARSE_OK" using 3(5) m True by (auto split: if_splits)
    have "at_ok sc1" using match_directive_loaded [OF m d(1) 3(4)] by simp
    from 3(1) [OF True m refl refl refl ok d(2) this] 3(5) m True ok match_directive_kinds [OF d(1) 3(4)]
    show ?thesis by simp
  next
    case False
    with 3(3) have f: "fmt_of is_directive (d # f)" by simp
    from 3(5) False obtain st1 sc1 where m: "match_literal c cs sc = Some (st1, sc1)"
      by (auto split: option.splits)
    have ok: "st1 = PARSE_OK" using 3(5) m False by (auto split: if_splits)
    have "at_ok sc1" using match_literal_loaded [OF m 3(4)] by simp
    from 3(2) [OF False m refl ok f this] 3(5) m False ok show ?thesis by simp
  qed
qed

lemma vfmatch_kinds:
  assumes "fmt_of is_directive fmt" and "at_ok sc" and "vfmatch env sc fmt = Some (PARSE_OK, sc', vs)"
  shows "map is_str vs = fmt_kinds fmt"
proof -
  obtain sc1 where "vfmatch_loop env fmt True sc [] = Some (PARSE_OK, sc1, vs)"
    using assms(3) by (auto simp: vfmatch_def)
  from vfmatch_loop_kinds [OF assms(1,2) this] show ?thesis by simp
qed

text \<open>A string \<open>%L\<close> writes ends right before a line break.\<close>

definition line_end :: "string \<Rightarrow> span \<Rightarrow> bool" where
  "line_end m t \<longleftrightarrow> sp_off t + sp_len t < List.length m \<and>
     (m ! (sp_off t + sp_len t) = TOKCHAR_CR \<or> m ! (sp_off t + sp_len t) = TOKCHAR_LF)"

fun arg_line :: "string \<Rightarrow> arg \<Rightarrow> bool" where
  "arg_line m (StrArg t) = line_end m t"
| "arg_line m _ = True"

lemma crlf_token:
  assumes "scanner_get_token sc = Some (sc', Inr (t, TT_CRLF))"
  shows "sp_off t < List.length (sc_msg sc) \<and>
         (sc_msg sc ! sp_off t = TOKCHAR_CR \<or> sc_msg sc ! sp_off t = TOKCHAR_LF)"
proof -
  let ?s = "drop (sc_cursor sc) (sc_msg sc)"
  from assms obtain n where n: "next_token (sc_loaded sc) ?s = Inr (n, TT_CRLF)"
    and t: "sp_off t = sc_cursor sc"
    by (auto simp: scanner_get_token_def split: if_splits sum.splits)
  obtain c cs where s: "?s = c # cs" using n by (cases ?s) (auto simp: next_token_def)
  have c: "c = TOKCHAR_CR \<or> c = TOKCHAR_LF"
    using n unfolding s
    by (auto simp: next_token_def Let_def split: if_splits sum.splits)
  have "sc_cursor sc < List.length (sc_msg sc)" using s by (cases "sc_cursor sc < List.length (sc_msg sc)") auto
  moreover have "sc_msg sc ! sc_cursor sc = c" using s by (metis hd_drop_conv_nth list.sel(1) calculation)
  ultimately show ?thesis using c t by simp
qed

lemma line_loop_end:
  assumes "token_loop line_body sc s = Some (sc', s', Inr t)"
  shows "sp_off t < List.length (sc_msg sc) \<and>
         (sc_msg sc ! sp_off t = TOKCHAR_CR \<or> sc_msg sc ! sp_off t = TOKCHAR_LF)"
  using assms
proof (induction "line_body" sc s rule: token_loop.induct)
  case (1 sc s)
  obtain sc1 t1 ty where get: "scanner_get_token sc = Some (sc1, Inr (t1, ty))"
    using 1(2) by (subst (asm) token_loop.simps) (auto split: option.splits sum.splits)
  show ?case
  proof (cases "ty = TT_CRLF")
    case True
    then have "t1 = t" using 1(2) get by (subst (asm) token_loop.simps) (simp add: line_body_def)
    then show ?thesis using crlf_token [of sc sc1 t] get True by simp
  next
    case False
    then have "token_loop line_body sc1 () = Some (sc', s', Inr t)"
      using 1(2) get by (subst (asm) token_loop.simps) (simp add: line_body_def)
    moreover have "sc_msg sc1 = sc_msg sc" using scanner_get_token_Some [OF get] by simp
    ultimately show ?thesis using 1(1) [OF get refl refl refl, of "()"] False by (simp add: line_body_def)
  qed
qed

lemma read_until_crlf_line:
  assumes "read_until_crlf sc = Some (st, sc', Some t)" and ok: "at_ok sc"
  shows "line_end (sc_msg sc) t"
  using ok
proof (rule token_loop_safe [where I = "\<lambda>_ _. True" and body = line_body and s = "()"])
  fix sc2 s' t2 ty
  assume loop: "token_loop line_body sc () = Some (sc2, s', Inr t2)"
    and c: "sc_cursor sc2 = sp_off t2 + sp_len t2" "sc_cursor sc \<le> sp_off t2"
  have "sp_off t + sp_len t = sp_off t2"
    using assms(1) loop c by (auto simp: read_until_crlf_def scanner_get_str_def)
  then show ?thesis using line_loop_end [OF loop] by (simp add: line_end_def)
qed (use assms(1) in \<open>auto simp: read_until_crlf_def\<close>)

abbreviation line_directive :: "char \<Rightarrow> bool" where
  "line_directive \<equiv> \<lambda>d. is_directive d \<and> d \<noteq> CHR ''R'' \<and> d \<noteq> CHR ''S'' \<and> d \<noteq> CHR ''s'' \<and> d \<noteq> CHR ''q''"

lemma match_directive_line:
  assumes "line_directive d" and ok: "at_ok sc"
    and m: "match_directive env d cs sc = Some (st, cs', sc', vs)"
  shows "list_all (arg_line (sc_msg sc)) vs"
proof -
  have "is_directive d" using assms(1) by simp
  then show ?thesis
  proof (cases rule: directive_cases)
    case 1
    then show ?thesis using assms(1) by simp
  next
    case 2
    then obtain v where v: "read_until_crlf sc = Some (st, sc', v)"
      "vs = (case v of None \<Rightarrow> [] | Some t \<Rightarrow> [StrArg t])" using m by (auto simp: match_directive_def)
    then show ?thesis using read_until_crlf_line [OF _ ok] by (cases v) auto
  next
    case 3
    then show ?thesis using assms(1) by simp
  next
    case 4
    then show ?thesis using m
      by (cases "match_char sc d cs") (elim disjE; simp add: match_directive_def; force)
  next
    case 5
    then obtain v where "vs = (case v of None \<Rightarrow> [] | Some t \<Rightarrow> [IntArg t])"
      using m by (auto simp: match_directive_def)
    then show ?thesis by (cases v) simp_all
  next
    case 6
    then have "d = CHR ''c''" using assms(1) by auto
    then show ?thesis using m by (auto simp: match_directive_def)
  next
    case 7
    then show ?thesis using m by (elim disjE; simp add: match_directive_def; auto)
  next
    case 8
    then show ?thesis using m ok by (elim get_token_cases) (auto simp: match_directive_def)
  qed
qed

lemma vfmatch_loop_line:
  assumes "fmt_of line_directive fmt" and "at_ok sc" and "list_all (arg_line (sc_msg sc)) vs"
    and "vfmatch_loop env fmt cs sc vs = Some (st, sc', vs')"
  shows "list_all (arg_line (sc_msg sc)) vs'"
  using assms
proof (induction env fmt cs sc vs rule: vfmatch_loop.induct)
  case (1 env cs sc vs)
  then show ?case by simp
next
  case (2 env c cs sc vs)
  then show ?case by (auto split: if_splits)
next
  case (3 env c d f cs sc vs)
  show ?case
  proof (cases "c = CHR ''%''")
    case True
    with 3(3) have d: "line_directive d" "fmt_of line_directive f" by simp_all
    then have id: "is_directive d" by simp
    from match_directive_safe [OF id 3(4), of env cs] obtain st1 cs1 sc1 vs1 where
      m: "match_directive env d cs sc = Some (st1, cs1, sc1, vs1)" "within sc sc1" by blast
    have msg: "sc_msg sc1 = sc_msg sc" using m(2) by (simp add: within_def)
    have l: "list_all (arg_line (sc_msg sc)) (vs @ vs1)"
      using match_directive_line [OF d(1) 3(4) m(1)] 3(5) by simp
    show ?thesis
    proof (cases "st1 = PARSE_OK")
      case ok: True
      from 3(1) [OF True m(1) refl refl refl ok d(2) within_at_ok [OF m(2)]] 3(6) m True ok l msg
      show ?thesis by simp
    next
      case False
      then show ?thesis using 3(6) m True l by simp
    qed
  next
    case False
    with 3(3) have f: "fmt_of line_directive (d # f)" by simp
    from match_literal_safe [OF 3(4), of c cs] obtain st1 sc1 where
      m: "match_literal c cs sc = Some (st1, sc1)" "within sc sc1" by blast
    have msg: "sc_msg sc1 = sc_msg sc" using m(2) by (simp add: within_def)
    show ?thesis
    proof (cases "st1 = PARSE_OK")
      case ok: True
      from 3(2) [OF False m(1) refl ok f within_at_ok [OF m(2)]] 3(5,6) m False ok msg
      show ?thesis by simp
    next
      case nok: False
      then show ?thesis using 3(5,6) m False by simp
    qed
  qed
qed

lemma vfmatch_line:
  assumes "fmt_of line_directive fmt" and "at_ok sc" and "vfmatch env sc fmt = Some (st, sc', vs)"
  shows "list_all (arg_line (sc_msg sc)) vs"
proof -
  obtain sc1 where "vfmatch_loop env fmt True sc [] = Some (st, sc1, vs)"
    using assms(3) by (auto simp: vfmatch_def)
  from vfmatch_loop_line [OF assms(1,2) _ this] show ?thesis by simp
qed

lemma is_str_iff: "is_str a \<longleftrightarrow> (\<exists>t. a = StrArg t)"
  by (cases a) auto


lemma directive_progress:
  assumes "d = CHR ''c'' \<or> d = CHR ''x''" and ok: "at_ok sc"
    and m: "match_directive env d cs sc = Some (PARSE_OK, cs', sc', vs)"
  shows "sc_cursor sc < sc_cursor sc'"
  using ok
  by (rule scanner_get_token_safe)
    (use assms(1) m in \<open>auto simp: match_directive_def match_token_def match_int_def Let_def split: if_splits\<close>)

text \<open>A format that starts with \<open>%c\<close> or \<open>%x\<close> consumes something when it matches.\<close>

lemma vfmatch_progress:
  assumes "d = CHR ''c'' \<or> d = CHR ''x''" and f: "fmt_of is_directive f" and ok: "at_ok sc"
    and m: "vfmatch env sc (CHR ''%'' # d # f) = Some (PARSE_OK, sc', vs)"
  shows "sc_cursor sc < sc_cursor sc'"
proof -
  have d: "is_directive d" using assms(1) by (auto simp: is_directive_def)
  from m obtain sc2 where l: "vfmatch_loop env (CHR ''%'' # d # f) True sc [] = Some (PARSE_OK, sc2, vs)"
    and sc': "sc' = sc2" by (auto simp: vfmatch_def)
  obtain st cs' sc1 vs1 where r: "match_directive env d True sc = Some (st, cs', sc1, vs1)"
    "within sc sc1" "args_in (sc_msg sc) vs1" using match_directive_safe [OF d ok] by blast
  have st: "st = PARSE_OK" using l r by (auto split: if_splits)
  have l1: "vfmatch_loop env f cs' sc1 vs1 = Some (PARSE_OK, sc2, vs)" using l r st by simp
  have "args_in (sc_msg sc1) vs1" using r by (simp add: within_def)
  from vfmatch_loop_safe [OF f within_at_ok [OF r(2)] this, of env cs'] l1
  have "sc_cursor sc1 \<le> sc_cursor sc2" by (auto simp: within_def)
  moreover have "sc_cursor sc < sc_cursor sc1"
    using directive_progress [OF assms(1) ok] r(1) unfolding st by blast
  ultimately show ?thesis using sc' by simp
qed


lemma vfmatch_safe:
  assumes "fmt_of is_directive fmt" and "sc_cursor sc \<le> List.length (sc_msg sc)"
  shows "\<exists>st sc' vs. vfmatch env sc fmt = Some (st, sc', vs) \<and> within sc sc' \<and> plain st \<and> args_in (sc_msg sc) vs \<and>
           (st \<noteq> PARSE_OK \<longrightarrow> sc' = sc)"
proof -
  obtain st sc' vs where r: "vfmatch_loop env fmt True sc [] = Some (st, sc', vs)" "within sc sc'" "plain st"
    "args_in (sc_msg sc) vs" using vfmatch_loop_safe [OF assms, of "[]" env True] by (simp, blast)
  have "sc'\<lparr>sc_cursor := sc_cursor sc\<rparr> = sc" using r(2) by (simp add: within_def)
  then show ?thesis using r assms(2) by (auto simp: vfmatch_def)
qed

lemma vfmatch_stable:
  assumes "fmt_of stable_directive fmt" and "sc_cursor sc \<le> List.length (sc_msg sc)" and "\<not> sc_loaded sc"
    and "vfmatch env sc fmt = Some (st, sc', vs)" and "st \<noteq> PARSE_INCOMPLETE"
  shows "vfmatch env (grow late sc) fmt = Some (st, grow late sc', vs)"
proof -
  from assms(4) obtain sc1 where "vfmatch_loop env fmt True sc [] = Some (st, sc1, vs)"
    and sc': "sc' = (if st = PARSE_OK then sc1 else sc1\<lparr>sc_cursor := sc_cursor sc\<rparr>)"
    by (auto simp: vfmatch_def)
  from vfmatch_loop_stable [OF assms(1-3) this(1) assms(5)] sc' show ?thesis by (simp add: vfmatch_def)
qed


section \<open>Properties\<close>


definition sample_scanner :: scanner where
  "sample_scanner = \<lparr>sc_msg = ''HTTP/1.1 200 OK'' @ [TOKCHAR_CR, TOKCHAR_LF], sc_cursor = 0, sc_loaded = False\<rparr>"




end
