(* ===== verification/HttpParserProps.thy ===== *)
theory HttpParserProps
  imports HttpParser HttpScannerProps
begin

text \<open>
  Properties of the message parser. \<open>wf_parser\<close> is its state invariant; from a state with it, every
  operation returns and re-establishes it, whatever the bytes and whatever the allocator does.
\<close>

section \<open>The invariant\<close>

definition wf_header :: "http_header \<Rightarrow> bool" where
  "wf_header h \<longleftrightarrow> wf_membuffer (h_value h) \<and> mb_buf (h_value h) \<noteq> None \<and> terminated (h_value h)"

definition wf_msg :: "http_message \<Rightarrow> bool" where
  "wf_msg m \<longleftrightarrow>
     wf_membuffer (hm_msg m) \<and> wf_membuffer (hm_status_msg m) \<and>
     list_all wf_header (q_items (hm_headers m)) \<and> hm_amount_discarded m = 0"

definition wf_parser :: "http_parser \<Rightarrow> bool" where
  "wf_parser p \<longleftrightarrow>
     wf_msg (p_msg p) \<and> mb_length (hm_msg (p_msg p)) < 2 ^ 31 \<and>
     p_cursor p \<le> mb_length (hm_msg (p_msg p)) \<and>
     p_entity_start_position p \<le> p_cursor p \<and> p_chunk_size p < 2 ^ 32 \<and> p_content_length p < 2 ^ 32"

lemma new_membuffer_wf: "wf_membuffer new_membuffer"
  using membuffer_init_ok by (simp add: new_membuffer_def)

lemma membuffer_init_length: "mb_length (membuffer_init m) = 0"
  by (simp add: membuffer_init_def membuffer_initialize_def)

lemma parser_init_wf: "wf_parser parser_request_init" "wf_parser (parser_response_init rm)"
  by (simp_all add: wf_parser_def wf_msg_def parser_request_init_def parser_response_init_def
      parser_init_def httpmsg_init_def zero_message_def membuffer_init_ok membuffer_init_length q_empty_def)

lemma wf_msg_lengths:
  assumes "wf_msg m"
  shows "List.length (contents (hm_msg m)) = mb_length (hm_msg m)" "mb_length (hm_msg m) \<le> alloc_max"
  using assms wf_membuffer_bounds [of "hm_msg m"] length_contents [of "hm_msg m"]
  by (auto simp: wf_msg_def)

lemma parser_scanner_ok:
  assumes "wf_parser p"
  shows "at_ok (parser_scanner p)" "\<not> sc_loaded (parser_scanner p)"
  using assms wf_msg_lengths [of "p_msg p"] by (simp_all add: wf_parser_def parser_scanner_def)

lemma parser_scanner_msg: "sc_msg (parser_scanner p) = contents (hm_msg (p_msg p))"
  by (simp add: parser_scanner_def)

lemma set_cursor_wf:
  assumes "wf_parser p" and "within (parser_scanner p) sc"
  shows "wf_parser (set_cursor sc p)"
  using assms wf_msg_lengths [of "p_msg p"]
  by (auto simp: wf_parser_def within_def parser_scanner_def)

lemma scanner_of_set_cursor:
  "within (parser_scanner p) sc \<Longrightarrow> parser_scanner (set_cursor sc p) = sc"
  by (cases sc) (simp add: within_def parser_scanner_def)


section \<open>Copies of pieces of a message\<close>

lemma block_read_take: "n \<le> List.length s \<Longrightarrow> block_read (take n s) 0 n = block_read s 0 n"
  by (simp add: block_read_def)

lemma membuffer_assign_take:
  assumes "n \<le> List.length s"
  shows "membuffer_assign e m (Some (take n s)) n = membuffer_assign e m (Some s) n"
  by (simp only: membuffer_assign_def option.case block_read_take [OF assms])

lemma membuffer_append_take:
  assumes "n \<le> List.length s"
  shows "membuffer_append e m (Some (take n s)) n = membuffer_append e m (Some s) n"
  by (simp only: membuffer_append_def membuffer_insert_def option.sel option.distinct block_read_take [OF assms])

lemma contents_buf: "contents m \<noteq> [] \<Longrightarrow> mb_buf m \<noteq> None"
  by (cases "mb_buf m") (auto simp: contents_def bytes_def)

text \<open>Assigning a non-empty piece, and appending a piece.\<close>

lemma assign_piece:
  assumes "wf_membuffer m" and "0 < n" and "n \<le> List.length s" and "n \<le> alloc_max"
  shows "\<exists>rc e' m'. membuffer_assign e m (Some s) n = Some (rc, e', m') \<and>
           updates_to m (take n s) rc m' \<and> (rc = 0 \<longrightarrow> terminated m' \<and> mb_buf m' \<noteq> None) \<and>
           (oom e = [] \<and> n < alloc_max \<longrightarrow> rc = 0)"
proof -
  have len: "List.length (take n s) = n" "take n s \<noteq> []" using assms by auto
  from membuffer_assign_ok [OF assms(1), of "take n s" e] assms len
  obtain rc e' m' where r: "membuffer_assign e m (Some s) n = Some (rc, e', m')"
    "updates_to m (take n s) rc m'" "rc = 0 \<longrightarrow> terminated m'" "oom e = [] \<and> n < alloc_max \<longrightarrow> rc = 0"
    by (auto simp: membuffer_assign_take)
  have "mb_buf m' \<noteq> None" if "rc = 0"
    using r(2) that len contents_buf [of m'] by (simp add: updates_to_def)
  with r show ?thesis by blast
qed

lemma append_piece:
  assumes "wf_membuffer m" and "0 < n" and "n \<le> List.length s" and "n \<le> alloc_max"
  shows "\<exists>rc e' m'. membuffer_append e m (Some s) n = Some (rc, e', m') \<and>
           updates_to m (contents m @ take n s) rc m' \<and> (rc = 0 \<longrightarrow> terminated m' \<and> mb_buf m' \<noteq> None)"
proof -
  have len: "List.length (take n s) = n" "take n s \<noteq> []" using assms by auto
  have sp: "take (mb_length m) (contents m) = contents m" "drop (mb_length m) (contents m) = []"
    using length_contents [OF assms(1)] by simp_all
  from membuffer_insert_bytes [OF assms(1) order_refl _ len(2), of e] assms len sp
  obtain rc e' m' where r: "membuffer_append e m (Some (take n s)) n = Some (rc, e', m')"
    "updates_to m (contents m @ take n s) rc m'" "rc = 0 \<longrightarrow> terminated m'"
    by (auto simp: membuffer_append_def)
  have "mb_buf m' \<noteq> None" if "rc = 0"
    using r(2) that len contents_buf [of m'] by (simp add: updates_to_def)
  with r show ?thesis using assms(3) by (auto simp: membuffer_append_take)
qed


section \<open>Headers\<close>

lemma find_index_Some: "find_index f xs = Some i \<Longrightarrow> i < List.length xs \<and> f (xs ! i)"
  by (induction xs arbitrary: i) (auto split: if_splits)

lemma find_index_None: "find_index f xs = None \<longleftrightarrow> (\<forall>x \<in> set xs. \<not> f x)"
  by (induction xs) auto

lemma wf_msg_update:
  assumes "wf_msg m" and "list_all wf_header (q_items hs)"
  shows "wf_msg (m\<lparr>hm_headers := hs\<rparr>)"
  using assms by (simp add: wf_msg_def)

lemma wf_msg_set_header: "wf_msg m \<Longrightarrow> wf_header h \<Longrightarrow> wf_msg (set_header i h m)"
  by (auto simp: wf_msg_def list_all_iff dest: set_update_subset_insert [THEN subsetD])

lemma span_rest_length: "span_in t sp \<Longrightarrow> sp_len sp \<le> List.length (span_rest t sp)"
  by (simp add: span_in_def span_rest_def)

lemma span_len_max: "wf_msg m \<Longrightarrow> span_in (contents (hm_msg m)) sp \<Longrightarrow> sp_len sp \<le> alloc_max"
  using wf_msg_lengths [of m] by (simp add: span_in_def)

text \<open>What the header operations leave alone.\<close>

definition same_but_headers :: "http_message \<Rightarrow> http_message \<Rightarrow> bool" where
  "same_but_headers m m' \<longleftrightarrow>
     m' = m\<lparr>hm_headers := hm_headers m', hm_method := hm_method m'\<rparr> \<and>
     (hm_method m' = hm_method m \<or> hm_method m' = SOAPMETHOD_POST)"

lemma new_header_ok:
  assumes wf: "wf_msg m" and tok: "span_in (contents (hm_msg m)) token" "0 < sp_len token"
    and val: "span_in (contents (hm_msg m)) v"
  shows "\<exists>ok e' hs. new_header e m hid token v = Some (ok, e', m\<lparr>hm_headers := hs\<rparr>) \<and>
           list_all wf_header (q_items hs)"
proof -
  have hs0: "list_all wf_header (q_items (hm_headers m))" and keep: "m\<lparr>hm_headers := hm_headers m\<rparr> = m"
    using wf by (simp_all add: wf_msg_def)
  obtain ok0 e1 where e1: "malloc_ok e SIZEOF_http_header_t = (ok0, e1)" by fastforce
  define vb where "vb = (if sp_len v = 0 then [NUL, NUL] else span_rest (contents (hm_msg m)) v)"
  define vl where "vl = (if sp_len v = 0 then 1 else sp_len v)"
  have vlen: "0 < vl" "vl \<le> List.length vb" "vl \<le> alloc_max"
    using span_rest_length [OF val] span_len_max [OF wf val]
    by (auto simp: vb_def vl_def alloc_max_def)
  have pair: "(if sp_len v = 0 then ([NUL, NUL], 1) else (span_rest (contents (hm_msg m)) v, sp_len v)) = (vb, vl)"
    by (simp add: vb_def vl_def)
  from assign_piece [OF new_membuffer_wf tok(2) span_rest_length [OF tok(1)] span_len_max [OF wf tok(1)], of e1]
  obtain rc1 e2 nb where a1: "membuffer_assign e1 new_membuffer (Some (span_rest (contents (hm_msg m)) token))
      (sp_len token) = Some (rc1, e2, nb)" by blast
  from assign_piece [OF new_membuffer_wf vlen, of e2]
  obtain rc2 e3 vbuf where a2: "membuffer_assign e2 new_membuffer (Some vb) vl = Some (rc2, e3, vbuf)"
    and up: "updates_to new_membuffer (take vl vb) rc2 vbuf"
    and trm: "rc2 = 0 \<longrightarrow> terminated vbuf \<and> mb_buf vbuf \<noteq> None" by blast
  define h where "h = \<lparr>h_name = \<lparr>mp_buf = bytes nb, mp_length = mb_length nb\<rparr>,
                       h_name_id = hid, h_value = vbuf, h_name_buf = nb\<rparr>"
  obtain ok orc q where q: "q_add_tail (oom e3) (hm_headers m) h = (ok, orc, q)" by (metis prod_cases3)
  have fh: "wf_header h" if "rc2 = 0" using up trm that by (auto simp: wf_header_def h_def updates_to_def)
  have "list_all wf_header (q_items q)" if "rc2 = 0"
    using q_add_tail_items [OF q] fh [OF that] hs0 by simp
  moreover have "new_header e m hid token v =
      (if \<not> ok0 then Some (False, e1, m) else if rc1 \<noteq> 0 then Some (False, e2, m)
       else if rc2 \<noteq> 0 then Some (False, e3, m) else Some (ok, e3\<lparr>oom := orc\<rparr>, m\<lparr>hm_headers := q\<rparr>))"
    unfolding new_header_def e1 pair Let_def
    by (simp add: a1 a2 q [unfolded h_def] split: bool.split)
  moreover have "\<exists>hs. m = m\<lparr>hm_headers := hs\<rparr> \<and> list_all wf_header (q_items hs)"
    using keep hs0 by metis
  ultimately show ?thesis by (metis (full_types))
qed

text \<open>A value buffer stays usable whether or not an append to it succeeds.\<close>

definition wf_value :: "membuffer \<Rightarrow> bool" where
  "wf_value v \<longleftrightarrow> wf_membuffer v \<and> mb_buf v \<noteq> None \<and> terminated v"

lemma wf_header_value: "wf_header h = wf_value (h_value h)"
  by (simp add: wf_header_def wf_value_def)

lemma append_value:
  assumes "wf_value v" and "0 < n" and "n \<le> List.length s" and "n \<le> alloc_max"
  shows "\<exists>rc e' v'. membuffer_append e v (Some s) n = Some (rc, e', v') \<and> wf_value v' \<and>
           contents v' = (if rc = 0 then contents v @ take n s else contents v)"
  using append_piece [OF _ assms(2-4), of v e] assms(1) by (fastforce simp: wf_value_def updates_to_def)

lemma append_header_ok:
  assumes wf: "wf_msg m" and i: "i < List.length (q_items (hm_headers m))"
    and val: "span_in (contents (hm_msg m)) v"
  shows "\<exists>ok e' hs. append_header e m i v = Some (ok, e', m\<lparr>hm_headers := hs\<rparr>) \<and>
           list_all wf_header (q_items hs)"
proof (cases "sp_len v = 0")
  case True
  have "m = m\<lparr>hm_headers := hm_headers m\<rparr>" by simp
  then show ?thesis using True wf by (auto simp: append_header_def wf_msg_def intro!: exI [of _ "hm_headers m"])
next
  case False
  let ?h = "header_at m i"
  have h: "wf_value (h_value ?h)" using wf i by (simp add: wf_msg_def list_all_length wf_header_value)
  have l2: "List.length '', '' = 2" by simp
  have "(2::nat) \<le> alloc_max" by (simp add: alloc_max_def)
  from append_value [OF h, of 2 "'', ''" e] this obtain ret e1 v1 where
    a1: "membuffer_append_str e (h_value ?h) '', '' = Some (ret, e1, v1)" and v1: "wf_value v1"
    by (auto simp: membuffer_append_str_def membuffer_append_def numeral_2_eq_2)
  from append_value [OF v1 _ span_rest_length [OF val] span_len_max [OF wf val], of e1] False
  obtain ret2 e2 v2 where
    a2: "membuffer_append e1 v1 (Some (span_rest (contents (hm_msg m)) v)) (sp_len v) = Some (ret2, e2, v2)"
    and v2: "wf_value v2" by blast
  let ?hs = "(hm_headers m)\<lparr>q_items := (q_items (hm_headers m))[i := ?h\<lparr>h_value := v2\<rparr>]\<rparr>"
  have "list_all wf_header (q_items ?hs)"
    using wf v2 by (auto simp: wf_msg_def list_all_iff wf_header_value
      dest: set_update_subset_insert [THEN subsetD])
  moreover have "append_header e m i v =
      Some (\<not> (ret = UPNP_E_OUTOF_MEMORY \<or> ret2 = UPNP_E_OUTOF_MEMORY), e2, m\<lparr>hm_headers := ?hs\<rparr>)"
    using False a1 a2 by (simp add: append_header_def)
  ultimately show ?thesis by blast
qed

lemma add_header_ok:
  assumes wf: "wf_msg m" and tok: "span_in (contents (hm_msg m)) token" "0 < sp_len token"
    and val: "span_in (contents (hm_msg m)) v"
  shows "\<exists>ok e' m'. add_header e m token v = Some (ok, e', m') \<and> wf_msg m' \<and> same_but_headers m m'"
proof -
  define index where "index = map_str_to_int (span_rest (contents (hm_msg m)) token) (sp_len token)
      Http_Header_Names NUM_HTTP_HEADER_NAMES False"
  define hid where "hid = ent_id (Http_Header_Names ! nat index)"
  define header_id where "header_id = (if index \<noteq> -1 then hid else HDR_UNKNOWN)"
  define m1 where "m1 = (if index \<noteq> -1 \<and> hid = HDR_SOAPACTION then m\<lparr>hm_method := SOAPMETHOD_POST\<rparr> else m)"
  define orig where "orig = (if index \<noteq> -1 then httpmsg_find_hdr m1 header_id
      else httpmsg_find_hdr_str m1 (cstr (span_text (contents (hm_msg m)) token)))"
  have run: "add_header e m token v = (case orig of None \<Rightarrow> new_header e m1 header_id token v
      | Some i \<Rightarrow> append_header e m1 i v)"
    unfolding add_header_def Let_def index_def [symmetric] hid_def [symmetric]
      header_id_def [symmetric] m1_def [symmetric] orig_def [symmetric] ..
  have wf1: "wf_msg m1" and same: "hm_msg m1 = hm_msg m" using wf by (simp_all add: m1_def wf_msg_def)
  have keep: "same_but_headers m (m1\<lparr>hm_headers := hs\<rparr>)" for hs
    by (cases m) (simp add: same_but_headers_def m1_def)
  have "\<exists>ok e' hs. add_header e m token v = Some (ok, e', m1\<lparr>hm_headers := hs\<rparr>) \<and> list_all wf_header (q_items hs)"
  proof (cases orig)
    case None
    then show ?thesis using new_header_ok [OF wf1, of token v e header_id] tok val same by (simp add: run)
  next
    case (Some i)
    have "i < List.length (q_items (hm_headers m1))"
      using Some find_index_Some
      by (auto simp: orig_def httpmsg_find_hdr_def httpmsg_find_hdr_str_def split: if_splits)
    then show ?thesis using append_header_ok [OF wf1, of i v e] val same Some by (simp add: run)
  qed
  then show ?thesis using wf_msg_update [OF wf1] keep by blast
qed

text \<open>
  What parsing headers changes: the header list, the method, the cursor (only forwards), the
  position and the error code.
\<close>

definition header_frame :: "http_parser \<Rightarrow> http_parser \<Rightarrow> bool" where
  "header_frame p p' \<longleftrightarrow>
     (\<exists>m c pos err. p' = p\<lparr>p_msg := m, p_cursor := c, p_position := pos, p_http_error_code := err\<rparr> \<and>
        same_but_headers (p_msg p) m \<and> wf_msg m \<and> p_cursor p \<le> c \<and> c \<le> mb_length (hm_msg (p_msg p)))"

lemma same_but_headers_refl [simp]: "same_but_headers m m"
  by (simp add: same_but_headers_def)

lemma same_but_headers_trans: "same_but_headers a b \<Longrightarrow> same_but_headers b c \<Longrightarrow> same_but_headers a c"
  by (cases a; cases b; cases c) (auto simp: same_but_headers_def)

lemma same_but_headers_msg: "same_but_headers m m' \<Longrightarrow> hm_msg m' = hm_msg m"
  by (cases m; cases m') (simp add: same_but_headers_def)

lemma header_frameI:
  assumes "wf_parser p" and "same_but_headers (p_msg p) m" and "wf_msg m" and "p_cursor p \<le> c"
    and "c \<le> mb_length (hm_msg (p_msg p))"
  shows "header_frame p (p\<lparr>p_msg := m, p_cursor := c, p_position := pos, p_http_error_code := err\<rparr>)"
  using assms unfolding header_frame_def by blast

lemma header_frame_refl: "wf_parser p \<Longrightarrow> header_frame p p"
proof -
  assume wf: "wf_parser p"
  have "p = p\<lparr>p_msg := p_msg p, p_cursor := p_cursor p, p_position := p_position p,
              p_http_error_code := p_http_error_code p\<rparr>" by simp
  then show ?thesis using header_frameI [OF wf, of "p_msg p" "p_cursor p"] wf
    by (metis order_refl same_but_headers_refl wf_parser_def)
qed

lemma header_frame_wf: "wf_parser p \<Longrightarrow> header_frame p p' \<Longrightarrow> wf_parser p'"
  by (auto simp: header_frame_def wf_parser_def dest: same_but_headers_msg)

lemma header_frame_trans: "header_frame a b \<Longrightarrow> header_frame b c \<Longrightarrow> header_frame a c"
proof -
  assume "header_frame a b" "header_frame b c"
  then obtain m c1 pos err m2 c2 pos2 err2 where
    "b = a\<lparr>p_msg := m, p_cursor := c1, p_position := pos, p_http_error_code := err\<rparr>"
    "same_but_headers (p_msg a) m" "p_cursor a \<le> c1"
    "c = b\<lparr>p_msg := m2, p_cursor := c2, p_position := pos2, p_http_error_code := err2\<rparr>"
    "same_but_headers (p_msg b) m2" "wf_msg m2" "p_cursor b \<le> c2" "c2 \<le> mb_length (hm_msg (p_msg b))"
    unfolding header_frame_def by blast
  then show ?thesis
    unfolding header_frame_def
    by (intro exI [of _ m2] exI [of _ c2] exI [of _ pos2] exI [of _ err2])
      (auto simp: same_but_headers_msg intro: same_but_headers_trans)
qed

lemma header_fmt: "fmt_of stable_directive '' : %R%c''" "fmt_of is_directive '' : %R%c''"
  "fmt_kinds '' : %R%c'' = [True]"
  by (simp_all add: is_directive_def directive_kinds_def)

lemma header_round_ok:
  assumes wf: "wf_parser p"
  shows "\<exists>r e' p'. header_round env e p = Some (r, e', p') \<and> header_frame p p' \<and>
           (r = None \<longrightarrow> p_cursor p < p_cursor p' \<and> p_position p' = p_position p) \<and>
           (r = Some PARSE_OK \<longrightarrow> p_position p' = POS_ENTITY) \<and> r \<noteq> Some PARSE_CONTINUE_1"
proof -
  let ?sc = "parser_scanner p"
  note wfm = wf [unfolded wf_parser_def, THEN conjunct1]
  have c0: "sc_cursor ?sc = p_cursor p" by (simp add: parser_scanner_def)
  have len: "List.length (sc_msg ?sc) = mb_length (hm_msg (p_msg p))"
    using wf_msg_lengths [OF wfm] by (simp add: parser_scanner_def)
  have move: "header_frame p (p\<lparr>p_cursor := c, p_position := pos\<rparr>)"
    if "p_cursor p \<le> c" "c \<le> mb_length (hm_msg (p_msg p))" for c pos
    using header_frameI [OF wf same_but_headers_refl wfm that, where pos = pos and err = "p_http_error_code p"] by simp
  from parser_scanner_ok(1) [OF wf] show ?thesis
  proof (cases rule: scanner_get_token_safe)
    case (err st)
    then show ?thesis using header_frame_refl [OF wf] by (auto simp: header_round_def)
  next
    case (tok sc t ty)
    have csc: "p_cursor p < sc_cursor sc" "sc_cursor sc \<le> mb_length (hm_msg (p_msg p))"
      using tok c0 len by (auto simp: within_def)
    show ?thesis
    proof (cases "ty = TT_IDENTIFIER")
      case False
      have "header_frame p (set_cursor sc p)"
        using move [of "sc_cursor sc" "p_position p"] csc by simp
      then show ?thesis using False tok(1) move [of "sc_cursor sc"] csc by (simp add: header_round_def)
    next
      case True
      obtain st sc1 vs where m: "vfmatch env sc '' : %R%c'' = Some (st, sc1, vs)" "within sc sc1"
        "plain st" "args_in (sc_msg sc) vs"
        using vfmatch_safe [OF header_fmt(2), of sc env] within_at_ok [OF tok(2)] by blast
      show ?thesis
      proof (cases "st = PARSE_OK")
        case False
        have st: "st \<noteq> PARSE_CONTINUE_1" using m(3) by (auto simp: plain_def)
        then show ?thesis using False True tok(1) m header_frame_refl [OF wf]
          by (auto simp: header_round_def match_fmt_def)
      next
        case ok: True
        have "map is_str vs = [True]"
          using vfmatch_kinds [OF header_fmt(2) within_at_ok [OF tok(2)]] m(1) ok header_fmt(3) by simp
        then obtain v where vs: "vs = [StrArg v]" by (auto simp: is_str_iff)
        have msg: "sc_msg sc = contents (hm_msg (p_msg p))" "sc_msg sc1 = sc_msg sc"
          using tok(2) m(2) by (simp_all add: within_def parser_scanner_def)
        have spans: "span_in (contents (hm_msg (p_msg p))) t" "span_in (contents (hm_msg (p_msg p))) v"
          using tok(3) m(4) vs msg by (simp_all add: parser_scanner_def)
        obtain ok1 e1 m1 where a: "add_header e (p_msg p) t v = Some (ok1, e1, m1)" "wf_msg m1"
          "same_but_headers (p_msg p) m1" using add_header_ok [OF wfm spans(1) tok(5) spans(2)] by blast
        have c1: "sc_cursor sc \<le> sc_cursor sc1" "sc_cursor sc1 \<le> mb_length (hm_msg (p_msg p))"
          using m(2) tok(2) len by (auto simp: within_def)
        have fr: "header_frame p ((set_cursor sc1 p)\<lparr>p_msg := m1, p_http_error_code := err\<rparr>)" for err
        proof -
          have eq: "(set_cursor sc1 p)\<lparr>p_msg := m1, p_http_error_code := err\<rparr> =
              p\<lparr>p_msg := m1, p_cursor := sc_cursor sc1, p_position := p_position p, p_http_error_code := err\<rparr>"
            by (cases p) simp
          show ?thesis unfolding eq by (rule header_frameI [OF wf a(3,2)]) (use c1 csc in auto)
        qed
        have fr0: "header_frame p ((set_cursor sc1 p)\<lparr>p_msg := m1\<rparr>)"
          using fr [of "p_http_error_code p"] by (cases p) simp
        show ?thesis
          using True ok tok(1) m(1) vs a(1) fr0 fr csc c1
          by (cases ok1) (simp_all add: header_round_def match_fmt_def)
      qed
    qed
  qed
qed

lemma headers_loop_ok:
  assumes "wf_parser p"
  shows "\<exists>st e' p'. headers_loop env e p = Some (st, e', p') \<and> header_frame p p' \<and>
           (st = PARSE_OK \<longrightarrow> p_position p' = POS_ENTITY) \<and> st \<noteq> PARSE_CONTINUE_1"
  using assms
proof (induction "mb_length (hm_msg (p_msg p)) - p_cursor p" arbitrary: e p rule: less_induct)
  case less
  from header_round_ok [OF less.prems, of env e] obtain r e1 p1 where
    r: "header_round env e p = Some (r, e1, p1)" "header_frame p p1"
      "r = None \<longrightarrow> p_cursor p < p_cursor p1 \<and> p_position p1 = p_position p"
      "r = Some PARSE_OK \<longrightarrow> p_position p1 = POS_ENTITY" "r \<noteq> Some PARSE_CONTINUE_1" by blast
  show ?case
  proof (cases r)
    case (Some st)
    then show ?thesis using r by (subst headers_loop.simps) simp
  next
    case None
    have wf1: "wf_parser p1" by (rule header_frame_wf [OF less.prems r(2)])
    have "hm_msg (p_msg p1) = hm_msg (p_msg p)"
      using r(2) by (auto simp: header_frame_def dest: same_but_headers_msg)
    moreover have "p_cursor p1 \<le> mb_length (hm_msg (p_msg p1))" using wf1 by (simp add: wf_parser_def)
    ultimately have "mb_length (hm_msg (p_msg p1)) - p_cursor p1 < mb_length (hm_msg (p_msg p)) - p_cursor p"
      using r(3) None by (simp add: diff_less_mono2)
    from less.hyps [OF this wf1, of e1] obtain st e' p' where
      "headers_loop env e1 p1 = Some (st, e', p')" "header_frame p1 p'"
      "st = PARSE_OK \<longrightarrow> p_position p' = POS_ENTITY" "st \<noteq> PARSE_CONTINUE_1" by blast
    then show ?thesis using None r header_frame_trans [OF r(2)] by (subst headers_loop.simps) simp
  qed
qed


section \<open>Request and response lines\<close>

lemma parse_uri_total: "List.length s < 2 ^ 31 \<Longrightarrow> \<exists>r. parse_uri env s (List.length s) = Some r"
  using parse_uri_bounded by blast

lemma str_alloc_ok:
  assumes "n \<le> List.length s" and "n < 2 ^ 63"
  shows "\<exists>r e'. str_alloc e s n = Some (r, e') \<and> (\<forall>b. r = Some b \<longrightarrow> List.length b = n + 1 \<and> take n b = take n s)"
proof -
  have sz: "size_add n 1 = n + 1" using assms(2) by (simp add: size_add_def)
  obtain r e' where m: "malloc_block e (n + 1) = (r, e')" by fastforce
  show ?thesis
  proof (cases r)
    case None
    then show ?thesis using m sz by (simp add: str_alloc_def)
  next
    case (Some b)
    have len: "List.length b = n + 1"
      using realloc_block_Some [of e None "n + 1" b e'] m Some by (simp add: malloc_block_def)
    then show ?thesis using m sz Some assms(1) by (simp add: str_alloc_def)
  qed
qed

lemma store_url_ok:
  assumes wf: "wf_parser p" and url: "span_in (contents (hm_msg (p_msg p))) url"
  shows "\<exists>r e' p'. store_url env e p url = Some (r, e', p') \<and> wf_parser p' \<and>
           hm_msg (p_msg p') = hm_msg (p_msg p) \<and> (r = None \<or> r = Some PARSE_FAILURE)"
proof -
  have wfm: "wf_msg (p_msg p)" and big: "mb_length (hm_msg (p_msg p)) < 2 ^ 31"
    using wf by (simp_all add: wf_parser_def)
  have n: "sp_len url < 2 ^ 31" using url wf_msg_lengths(1) [OF wfm] big by (simp add: span_in_def)
  then obtain r e1 where a: "str_alloc e (span_rest (contents (hm_msg (p_msg p))) url) (sp_len url) = Some (r, e1)"
    and b: "\<forall>b. r = Some b \<longrightarrow> List.length b = sp_len url + 1"
    using str_alloc_ok [OF span_rest_length [OF url], of e] by fastforce
  show ?thesis
  proof (cases r)
    case None
    then show ?thesis using a wf by (simp add: store_url_def wf_parser_def wf_msg_def)
  next
    case (Some blk)
    have "List.length (take (sp_len url) blk) = sp_len url" using b Some by simp
    then obtain q where "parse_uri env (take (sp_len url) blk) (sp_len url) = Some q"
      using parse_uri_total [of "take (sp_len url) blk" env] n by auto
    then show ?thesis using a Some wf
      by (cases q) (simp_all add: store_url_def Let_def wf_parser_def wf_msg_def)
  qed
qed

lemma simple_request_ok:
  assumes "wf_parser p" and "span_in (contents (hm_msg (p_msg p))) url"
  shows "\<exists>st e' p'. simple_request env e p mt url = Some (st, e', p') \<and> wf_parser p' \<and> st \<noteq> PARSE_OK"
proof -
  let ?p = "upd_msg (\<lambda>m. m\<lparr>hm_method := HTTPMETHOD_SIMPLEGET\<rparr>) p"
  have wf: "wf_parser ?p" using assms(1) by (simp add: wf_parser_def wf_msg_def)
  obtain r e1 p1 where s: "store_url env e ?p url = Some (r, e1, p1)" "wf_parser p1"
    "r = None \<or> r = Some PARSE_FAILURE" using store_url_ok [OF wf, of url env e] assms(2) by auto
  have pos: "wf_parser (p1\<lparr>p_position := q\<rparr>)" for q using s(2) by (simp add: wf_parser_def)
  have fl: "wf_parser (fail_with c p)" for c using assms(1) by (simp add: wf_parser_def)
  show ?thesis using s pos fl by (auto simp: simple_request_def Let_def)
qed

lemma full_request_ok:
  assumes "wf_parser p" and "span_in (contents (hm_msg (p_msg p))) url"
  shows "\<exists>st e' p'. full_request env e p mt url v = Some (st, e', p') \<and> wf_parser p' \<and>
           (st = PARSE_OK \<longrightarrow> p_position p' = POS_HEADERS)"
proof -
  obtain r e1 p1 where s: "store_url env e p url = Some (r, e1, p1)" "wf_parser p1"
    "r = None \<or> r = Some PARSE_FAILURE" using store_url_ok [OF assms, of env e] by auto
  have upd: "wf_parser ((upd_msg (\<lambda>m. m\<lparr>hm_method := x\<rparr>)
      (upd_msg (\<lambda>m. m\<lparr>hm_major_version := a, hm_minor_version := b\<rparr>) p1))\<lparr>p_position := q\<rparr>)"
    "wf_parser (fail_with c (upd_msg (\<lambda>m. m\<lparr>hm_major_version := a, hm_minor_version := b\<rparr>) p1))"
    "wf_parser (fail_with c p1)" for x a b c q
    using s(2) by (simp_all add: wf_parser_def wf_msg_def)
  from s(3) show ?thesis
  proof
    assume "r = Some PARSE_FAILURE"
    then show ?thesis using s by (simp add: full_request_def)
  next
    assume "r = None"
    then show ?thesis using s(1) upd by (simp add: full_request_def Let_def)
  qed
qed

lemma skip_blank_lines_ok:
  assumes "wf_parser p"
  shows "\<exists>st sc. skip_blank_lines (parser_scanner p) = Some (st, sc) \<and> within (parser_scanner p) sc \<and> plain st"
  by (rule safeD [OF skip_blank_lines_safe parser_scanner_ok(1) [OF assms]]) auto

lemma request_fmts:
  "fmt_of is_directive request_line_fmt0" "fmt_kinds request_line_fmt0 = [True, True]"
  "fmt_of is_directive request_line_fmt" "fmt_kinds request_line_fmt = [True, True, True]"
  "fmt_of stable_directive request_line_fmt0" "fmt_of stable_directive request_line_fmt"
  by (simp_all add: request_line_fmt0_def request_line_fmt_def is_directive_def directive_kinds_def)

text \<open>One format matched from a scanner of the parser.\<close>

lemma match_from_parser:
  assumes wf: "wf_parser p" and sc: "within (parser_scanner p) sc" and f: "fmt_of is_directive fmt"
  shows "\<exists>st sc' vs. match_fmt env sc fmt = Some (st, sc', vs) \<and> within (parser_scanner p) sc' \<and>
           within sc sc' \<and> plain st \<and> args_in (contents (hm_msg (p_msg p))) vs \<and>
           (st \<noteq> PARSE_OK \<longrightarrow> sc' = sc) \<and> (st = PARSE_OK \<longrightarrow> map is_str vs = fmt_kinds fmt)"
proof -
  have ok: "at_ok sc" by (rule within_at_ok [OF sc])
  have msg: "sc_msg sc = contents (hm_msg (p_msg p))" using sc by (simp add: within_def parser_scanner_def)
  from vfmatch_safe [OF f ok, of env] obtain st sc' vs where
    r: "vfmatch env sc fmt = Some (st, sc', vs)" "within sc sc'" "plain st" "args_in (sc_msg sc) vs"
      "st \<noteq> PARSE_OK \<longrightarrow> sc' = sc" by blast
  have "st = PARSE_OK \<longrightarrow> map is_str vs = fmt_kinds fmt" using vfmatch_kinds [OF f ok] r(1) by auto
  with r within_trans [OF sc r(2)] msg show ?thesis by (auto simp: match_fmt_def)
qed

lemma parser_parse_requestline_ok:
  assumes wf: "wf_parser p" and pos: "p_position p = POS_REQUEST_LINE"
  shows "\<exists>st e' p'. parser_parse_requestline env e p = Some (st, e', p') \<and> wf_parser p' \<and>
           (st = PARSE_OK \<longrightarrow> p_position p' = POS_HEADERS)"
proof -
  obtain st sc where b: "skip_blank_lines (parser_scanner p) = Some (st, sc)" "within (parser_scanner p) sc"
    using skip_blank_lines_ok [OF wf] by blast
  have at: "wf_parser (set_cursor sc' (set_cursor sc p))" if "within (parser_scanner p) sc'" for sc'
    using set_cursor_wf [OF wf that] by simp
  show ?thesis
  proof (cases "st = PARSE_OK")
    case False
    then show ?thesis using b set_cursor_wf [OF wf b(2)] pos by (simp add: parser_parse_requestline_def)
  next
    case True
    from match_from_parser [OF wf b(2) request_fmts(1), of env] obtain st1 sc1 vs1 where
      m1: "match_fmt env sc request_line_fmt0 = Some (st1, sc1, vs1)" "within (parser_scanner p) sc1"
        "args_in (contents (hm_msg (p_msg p))) vs1" "st1 = PARSE_OK \<longrightarrow> map is_str vs1 = [True, True]"
      using request_fmts(2) by auto
    show ?thesis
    proof (cases "st1 = PARSE_OK")
      case ok: True
      then obtain mt url where vs: "vs1 = [StrArg mt, StrArg url]" using m1(4) by (auto simp: is_str_iff)
      have url: "span_in (contents (hm_msg (p_msg (set_cursor sc1 (set_cursor sc p))))) url"
        using m1(3) vs by simp
      from simple_request_ok [OF at [OF m1(2)] url, of env e mt]
      show ?thesis using b m1 vs ok True pos by (auto simp: parser_parse_requestline_def)
    next
      case nok: False
      from match_from_parser [OF wf m1(2) request_fmts(3), of env] obtain st2 sc2 vs2 where
        m2: "match_fmt env sc1 request_line_fmt = Some (st2, sc2, vs2)" "within (parser_scanner p) sc2"
          "args_in (contents (hm_msg (p_msg p))) vs2" "st2 = PARSE_OK \<longrightarrow> map is_str vs2 = [True, True, True]"
        using request_fmts(4) by auto
      show ?thesis
      proof (cases "st2 = PARSE_OK")
        case False
        then show ?thesis using b m1 m2 nok True pos at [OF m2(2)] by (simp add: parser_parse_requestline_def)
      next
        case ok: True
        then obtain mt url v where vs: "vs2 = [StrArg mt, StrArg url, StrArg v]"
          using m2(4) by (auto simp: is_str_iff)
        have url: "span_in (contents (hm_msg (p_msg (set_cursor sc2 (set_cursor sc p))))) url"
          using m2(3) vs by simp
        from full_request_ok [OF at [OF m2(2)] url, of env e mt v]
        show ?thesis using b m1 m2 vs ok nok True pos by (auto simp: parser_parse_requestline_def)
      qed
    qed
  qed
qed


text \<open>
  The loops over the digits of a status line end because \<open>sscanf\<close> has just read three numbers there.
\<close>

lemma strtol10_split:
  assumes "strtol 10 s = (v, stop, er)" and "stop \<noteq> 0"
  shows "\<exists>pre ds. s = pre @ ds @ drop stop s \<and> ds \<noteq> [] \<and> list_all isdigit ds \<and>
           list_all (\<lambda>c. \<not> isdigit c) pre \<and> (drop stop s = [] \<or> \<not> isdigit (hd (drop stop s)))"
proof -
  define ws where "ws = List.length (takeWhile isspace s)"
  define s1 where "s1 = drop ws s"
  define sg where "sg = (if cchar_at s1 0 = CHR ''-'' \<or> cchar_at s1 0 = CHR ''+'' then 1 else (0::nat))"
  define ds where "ds = takeWhile isdigit (drop sg s1)"
  have dig: "digit_of 10 = isdigit" by (rule ext) (simp add: digit_of_def)
  have pre0: "hex_prefix 10 x = 0" for x by (simp add: hex_prefix_def)
  have "fst (snd (strtol 10 s)) = (if ds = [] then 0 else ws + sg + List.length ds)"
    unfolding strtol_def Let_def dig pre0 ws_def [symmetric] s1_def [symmetric] sg_def [symmetric] add_0_right
      ds_def [symmetric]
    by simp
  with assms have ds: "ds \<noteq> []" and stop: "stop = ws + sg + List.length ds" by (auto split: if_splits)
  have sg1: "take sg s1 = (if sg = 0 then [] else [hd s1])" "list_all (\<lambda>c. \<not> isdigit c) (take sg s1)"
  proof -
    have "sg = 0 \<or> (s1 \<noteq> [] \<and> sg = 1 \<and> (hd s1 = CHR ''-'' \<or> hd s1 = CHR ''+''))"
      by (cases s1) (auto simp: sg_def cchar_at_def)
    then show "take sg s1 = (if sg = 0 then [] else [hd s1])" "list_all (\<lambda>c. \<not> isdigit c) (take sg s1)"
      by (cases s1; auto simp: isdigit_def)+
  qed
  have sp: "list_all (\<lambda>c. \<not> isdigit c) (takeWhile isspace s)"
    by (auto simp: list_all_iff isspace_def isdigit_def dest: set_takeWhileD)
  have "s = takeWhile isspace s @ s1" by (simp add: s1_def ws_def flip: dropWhile_eq_drop)
  moreover have "s1 = take sg s1 @ ds @ dropWhile isdigit (drop sg s1)"
    by (simp add: ds_def)
  moreover have rest: "drop stop s = dropWhile isdigit (drop sg s1)"
    by (simp add: stop s1_def ds_def dropWhile_eq_drop add.commute add.left_commute)
  ultimately have split: "s = (takeWhile isspace s @ take sg s1) @ ds @ drop stop s"
    by (metis append.assoc)
  have "list_all (\<lambda>c. \<not> isdigit c) (takeWhile isspace s @ take sg s1)" using sp sg1 by simp
  moreover have "list_all isdigit ds" by (auto simp: ds_def list_all_iff dest: set_takeWhileD)
  moreover have "drop stop s = [] \<or> \<not> isdigit (hd (drop stop s))"
    unfolding rest using hd_dropWhile by blast
  ultimately show ?thesis using split ds by blast
qed

lemma skip_number_split:
  assumes "s = pre @ ds @ r" and "ds \<noteq> []" and "list_all isdigit ds" and "list_all (\<lambda>c. \<not> isdigit c) pre"
    and "r = [] \<or> \<not> isdigit (hd r)"
  shows "skip_number (s @ t) = Some (if r = [] then dropWhile isdigit t else r @ t)"
proof -
  obtain d ds' where ds: "ds = d # ds'" using assms(2) by (cases ds) auto
  have "dropWhile (\<lambda>c. \<not> isdigit c) (s @ t) = ds @ r @ t"
    using assms(1,3,4) by (simp add: ds list_all_iff dropWhile_append)
  moreover have "dropWhile isdigit (ds @ r @ t) = (if r = [] then dropWhile isdigit t else r @ t)"
    using assms(3,5) by (cases r) (auto simp: list_all_iff dropWhile_append)
  ultimately show ?thesis by (simp add: skip_number_def ds)
qed

lemma scan_int_split:
  assumes "scan_int s = Some (v, r)"
  shows "\<exists>pre ds. s = pre @ ds @ r \<and> ds \<noteq> [] \<and> list_all isdigit ds \<and> list_all (\<lambda>c. \<not> isdigit c) pre \<and>
           (r = [] \<or> \<not> isdigit (hd r))"
proof -
  obtain w stop er where st: "strtol 10 s = (w, stop, er)" by (metis prod_cases3)
  with assms have "stop \<noteq> 0" "r = drop stop s" by (auto simp: scan_int_def split: if_splits)
  with strtol10_split [OF st] show ?thesis by blast
qed

lemma skip_number_scan:
  assumes "s = q @ s0" and "list_all (\<lambda>c. \<not> isdigit c) q" and "scan_int s0 = Some (v, r)"
  shows "skip_number (s @ t) = Some (if r = [] then dropWhile isdigit t else r @ t) \<and> (\<exists>k. s = k @ r)"
proof -
  obtain pre ds where sp: "s0 = pre @ ds @ r" "ds \<noteq> []" "list_all isdigit ds" "list_all (\<lambda>c. \<not> isdigit c) pre"
    "r = [] \<or> \<not> isdigit (hd r)" using scan_int_split [OF assms(3)] by blast
  have "s = (q @ pre) @ ds @ r" using sp(1) assms(1) by simp
  moreover have "list_all (\<lambda>c. \<not> isdigit c) (q @ pre)" using assms(2) sp(4) by simp
  ultimately show ?thesis using skip_number_split [of s "q @ pre" ds r t] sp by (metis append.assoc)
qed

lemma space_not_digit: "list_all (\<lambda>c. \<not> isdigit c) (takeWhile isspace s)"
  by (auto simp: list_all_iff isspace_def isdigit_def dest: set_takeWhileD)

text \<open>Three numbers stored means three runs of digits, and the last one ends in the scanned text.\<close>

lemma three_numbers:
  assumes "List.length (sscanf_ints ''%d . %d %d'' s) = 3"
  shows "\<exists>r1 r2 r3 k r. skip_number (s @ t) = Some r1 \<and> skip_number r1 = Some r2 \<and> skip_number r2 = Some r3 \<and>
           s = k @ r \<and> r3 = (if r = [] then dropWhile isdigit t else r @ t)"
proof -
  obtain v1 s1 where a: "scan_int s = Some (v1, s1)"
    using assms by (cases "scan_int s") (auto simp: sscanf_ints.simps)
  define s2 where "s2 = dropWhile isspace s1"
  have n1: "List.length (case s2 of [] \<Rightarrow> [] | c # s' \<Rightarrow>
      if c = CHR ''.'' then sscanf_ints '' %d %d'' s' else []) = 2"
    using assms a by (simp add: s2_def sscanf_ints.simps split: list.split)
  then obtain s3 where s2: "s2 = CHR ''.'' # s3" by (cases s2) (auto split: if_splits)
  define s4 where "s4 = dropWhile isspace s3"
  have n2: "List.length (sscanf_ints ''%d %d'' s4) = 2" using n1 s2 by (simp add: s4_def sscanf_ints.simps(2) [of "CHR '' ''"])
  obtain v2 s5 where b: "scan_int s4 = Some (v2, s5)" using n2 by (cases "scan_int s4") (auto simp: sscanf_ints.simps)
  define s6 where "s6 = dropWhile isspace s5"
  have n3: "List.length (sscanf_ints ''%d'' s6) = 1" using n2 b by (simp add: s6_def sscanf_ints.simps)
  obtain v3 s7 where c: "scan_int s6 = Some (v3, s7)" using n3 by (cases "scan_int s6") (auto simp: sscanf_ints.simps)
  have e1: "s1 = (takeWhile isspace s1 @ CHR ''.'' # takeWhile isspace s3) @ s4"
    using s2 s2_def s4_def by (metis append.assoc append_Cons takeWhile_dropWhile_id)
  have e2: "s5 = takeWhile isspace s5 @ s6" by (simp add: s6_def)
  have d1: "list_all (\<lambda>c. \<not> isdigit c) (takeWhile isspace s1 @ CHR ''.'' # takeWhile isspace s3)"
    using space_not_digit [of s1] space_not_digit [of s3] by (simp add: isdigit_def)
  have ne1: "s1 \<noteq> []" using s2 s2_def by auto
  have ne5: "s5 \<noteq> []"
  proof
    assume "s5 = []"
    then have "scan_int [] = Some (v3, s7)" using c by (simp add: s6_def)
    then show False using scan_int_split by fastforce
  qed
  from skip_number_scan [of s "[]" s v1 s1 t] a ne1 obtain k1 where
    r1: "skip_number (s @ t) = Some (s1 @ t)" "s = k1 @ s1" by auto
  from skip_number_scan [OF e1 d1 b, of t] ne5 obtain k2 where
    r2: "skip_number (s1 @ t) = Some (s5 @ t)" "s1 = k2 @ s5" by auto
  from skip_number_scan [OF e2 space_not_digit c, of t] obtain k3 where
    r3: "skip_number (s5 @ t) = Some (if s7 = [] then dropWhile isdigit t else s7 @ t)" "s5 = k3 @ s7" by auto
  have "s = (k1 @ k2 @ k3) @ s7" using r1 r2 r3 by simp
  with r1(1) r2(1) r3(1) show ?thesis by blast
qed

lemma assign_any:
  assumes "wf_membuffer m" and "n \<le> List.length s" and "n \<le> alloc_max"
  shows "\<exists>rc e' m'. membuffer_assign e m (Some s) n = Some (rc, e', m') \<and> wf_membuffer m' \<and>
           (rc = 0 \<longrightarrow> contents m' = take n s)"
proof -
  have len: "List.length (take n s) = n" using assms by simp
  from membuffer_assign_ok [OF assms(1), of "take n s" e] assms len obtain rc e' m' where
    "membuffer_assign e m (Some s) n = Some (rc, e', m')" "updates_to m (take n s) rc m'"
    by (auto simp: membuffer_assign_take)
  then show ?thesis using assms(1) by (auto simp: updates_to_def)
qed

lemma cstr_split: "\<exists>t. s = cstr s @ t \<and> (t = [] \<or> hd t = NUL)"
proof (intro exI conjI)
  show "s = cstr s @ dropWhile (\<lambda>c. c \<noteq> NUL) s" by (simp add: cstr_def)
  show "dropWhile (\<lambda>c. c \<noteq> NUL) s = [] \<or> hd (dropWhile (\<lambda>c. c \<noteq> NUL) s) = NUL"
    using hd_dropWhile [of "\<lambda>c. c \<noteq> NUL" s] by blast
qed

text \<open>The bytes of a line from the end of its C string on start with a NUL or a line break.\<close>

lemma line_split:
  assumes "span_in m line" and "line_end m line"
  shows "\<exists>t. span_rest m line = cstr (span_text m line) @ t \<and> t \<noteq> [] \<and> \<not> isdigit (hd t) \<and>
           \<not> is_ws_char (hd t)"
proof -
  obtain t where t: "span_text m line = cstr (span_text m line) @ t" "t = [] \<or> hd t = NUL"
    using cstr_split by blast
  let ?u = "drop (sp_off line + sp_len line) m"
  have u: "?u \<noteq> []" "hd ?u = TOKCHAR_CR \<or> hd ?u = TOKCHAR_LF"
    using assms(2) by (auto simp: line_end_def hd_drop_conv_nth)
  have "span_rest m line = span_text m line @ ?u"
    by (simp add: span_rest_def span_text_def add.commute flip: drop_drop)
  then have eq: "span_rest m line = cstr (span_text m line) @ t @ ?u" using t(1) by simp
  have h: "hd (t @ ?u) = NUL \<or> hd (t @ ?u) = TOKCHAR_CR \<or> hd (t @ ?u) = TOKCHAR_LF"
    using t(2) u by (cases t) auto
  have "\<not> isdigit (hd (t @ ?u)) \<and> \<not> is_ws_char (hd (t @ ?u))"
    using h by (elim disjE) (simp_all add: isdigit_def is_ws_char_def)
  with eq u(1) show ?thesis by blast
qed

lemma dropWhile_append_stop: "b \<noteq> [] \<Longrightarrow> \<not> p (hd b) \<Longrightarrow> dropWhile p (a @ b) = dropWhile p a @ b"
  by (induction a) (cases b, auto)

lemma response_fmt: "fmt_of line_directive ''%ihttp%w/%w%L%c''" "fmt_of is_directive ''%ihttp%w/%w%L%c''"
  "fmt_kinds ''%ihttp%w/%w%L%c'' = [True]"
  by (simp_all add: is_directive_def directive_kinds_def)

text \<open>The pointer into the line stays in it, so the message length does not wrap.\<close>

lemma status_message_ok:
  assumes wf: "wf_parser p" and rest: "rest = s @ t" "s = k @ r" and sp: "List.length s \<le> sp_len line"
    and n: "sp_len line \<le> List.length rest" "sp_len line \<le> alloc_max" and t: "t \<noteq> []" "\<not> is_ws_char (hd t)"
  shows "\<exists>st e' p'. status_message e p line (List.length rest) (r @ t) = Some (st, e', p') \<and> wf_parser p' \<and>
           (st = PARSE_OK \<longrightarrow> p_position p' = POS_HEADERS)"
proof -
  define r4 where "r4 = dropWhile is_ws_char (r @ t)"
  have r4: "r4 = dropWhile is_ws_char r @ t" unfolding r4_def by (rule dropWhile_append_stop [of t is_ws_char r, OF t])
  have dl: "List.length (dropWhile is_ws_char r) \<le> List.length r" by (rule length_dropWhile_le)
  define x where "x = List.length rest - List.length r4"
  have xle: "x \<le> sp_len line" and x: "List.length r4 + x = List.length rest"
    using dl rest sp by (simp_all add: x_def r4)
  have n': "size_sub (sp_len line) x = sp_len line - x"
    by (rule size_sub_exact [OF xle]) (use n(2) in \<open>simp add: alloc_max_def\<close>)
  have "wf_membuffer (hm_status_msg (p_msg p))" using wf by (simp add: wf_parser_def wf_msg_def)
  moreover have "sp_len line - x \<le> List.length r4" "sp_len line - x \<le> alloc_max" using x n by simp_all
  ultimately obtain rc e1 sm where
    sm: "membuffer_assign e (hm_status_msg (p_msg p)) (Some r4) (sp_len line - x) = Some (rc, e1, sm)"
      "wf_membuffer sm" using assign_any by blast
  have upd: "wf_parser ((upd_msg (\<lambda>m. m\<lparr>hm_status_msg := sm\<rparr>) p)\<lparr>p_position := q\<rparr>)"
    "wf_parser (fail_with c (upd_msg (\<lambda>m. m\<lparr>hm_status_msg := sm\<rparr>) p))" for q c
    using wf sm(2) by (simp_all add: wf_parser_def wf_msg_def)
  show ?thesis
    using sm(1) upd wf n'
    by (simp add: status_message_def Let_def flip: r4_def x_def)
qed

lemma status_line_ok:
  assumes wf: "wf_parser p" and sp: "span_in (contents (hm_msg (p_msg p))) line"
    and le: "line_end (contents (hm_msg (p_msg p))) line"
  shows "\<exists>st e' p'. status_line e p line = Some (st, e', p') \<and> wf_parser p' \<and>
           (st = PARSE_OK \<longrightarrow> p_position p' = POS_HEADERS)"
proof -
  let ?m = "contents (hm_msg (p_msg p))"
  let ?s = "cstr (span_text ?m line)"
  obtain t where t: "span_rest ?m line = ?s @ t" "t \<noteq> []" "\<not> isdigit (hd t)" "\<not> is_ws_char (hd t)"
    using line_split [OF sp le] by blast
  define vs where "vs = sscanf_ints ''%d . %d %d'' ?s"
  define p1 where "p1 = upd_msg (\<lambda>m. m\<lparr>hm_major_version := stored vs 0 (hm_major_version (p_msg p)),
      hm_minor_version := stored vs 1 (hm_minor_version (p_msg p)),
      hm_status_code := stored vs 2 (hm_status_code (p_msg p))\<rparr>) p"
  have wf1: "wf_parser p1" using wf by (simp add: p1_def wf_parser_def wf_msg_def)
  have len: "List.length ?s \<le> sp_len line"
    by (simp add: cstr_def span_text_def) (metis length_takeWhile_le length_take min.bounded_iff)
  have max: "sp_len line \<le> alloc_max" using span_len_max [of "p_msg p" line] sp wf by (simp add: wf_parser_def)
  show ?thesis
  proof (cases "List.length vs = 3")
    case False
    then show ?thesis unfolding status_line_def Let_def vs_def [symmetric] p1_def [symmetric]
      using wf1 by simp
  next
    case True
    from three_numbers [OF this [unfolded vs_def], of t] obtain r1 r2 r3 k r where
      r: "skip_number (span_rest ?m line) = Some r1" "skip_number r1 = Some r2" "skip_number r2 = Some r3"
        "?s = k @ r" "r3 = (if r = [] then dropWhile isdigit t else r @ t)"
      using t(1) by metis
    have r3: "r3 = r @ t" using r(5) t(2,3) by (cases t) auto
    from status_message_ok [OF wf1 t(1) r(4) len span_rest_length [OF sp] max t(2,4), of e] obtain st e' p' where
      m: "status_message e p1 line (List.length (span_rest ?m line)) r3 = Some (st, e', p')" "wf_parser p'"
        "st = PARSE_OK \<longrightarrow> p_position p' = POS_HEADERS" unfolding r3 by blast
    show ?thesis
      unfolding status_line_def Let_def vs_def [symmetric] p1_def [symmetric]
      using r(1-3) m wf1 True by simp
  qed
qed

lemma parser_parse_responseline_ok:
  assumes wf: "wf_parser p" and pos: "p_position p = POS_RESPONSE_LINE"
  shows "\<exists>st e' p'. parser_parse_responseline env e p = Some (st, e', p') \<and> wf_parser p' \<and>
           (st = PARSE_OK \<longrightarrow> p_position p' = POS_HEADERS)"
proof -
  let ?m = "contents (hm_msg (p_msg p))"
  obtain st sc where b: "skip_blank_lines (parser_scanner p) = Some (st, sc)" "within (parser_scanner p) sc"
    using skip_blank_lines_ok [OF wf] by blast
  from match_from_parser [OF wf b(2) response_fmt(2), of env] obtain st1 sc1 vs1 where
    m1: "match_fmt env sc ''%ihttp%w/%w%L%c'' = Some (st1, sc1, vs1)" "within (parser_scanner p) sc1"
      "args_in ?m vs1" "st1 = PARSE_OK \<longrightarrow> map is_str vs1 = [True]"
    using response_fmt(3) by auto
  have wf2: "wf_parser (set_cursor sc1 (set_cursor sc p))" using set_cursor_wf [OF wf m1(2)] by simp
  consider "st \<noteq> PARSE_OK" | "st = PARSE_OK" "st1 \<noteq> PARSE_OK" | "st = PARSE_OK" "st1 = PARSE_OK" by blast
  then show ?thesis
  proof cases
    case 1
    then show ?thesis using b set_cursor_wf [OF wf b(2)] pos by (simp add: parser_parse_responseline_def)
  next
    case 2
    then show ?thesis using b m1(1) wf2 pos by (simp add: parser_parse_responseline_def)
  next
    case 3
    obtain line where vs: "vs1 = [StrArg line]" using m1(4) 3 by (auto simp: is_str_iff)
    have sp: "span_in (contents (hm_msg (p_msg (set_cursor sc1 (set_cursor sc p))))) line"
      using m1(3) vs by simp
    have le: "line_end (contents (hm_msg (p_msg (set_cursor sc1 (set_cursor sc p))))) line"
      using vfmatch_line [OF response_fmt(1) within_at_ok [OF b(2)], of env st1 sc1 vs1] m1(1) vs b(2)
      by (simp add: match_fmt_def within_def parser_scanner_def)
    from status_line_ok [OF wf2 sp le, of e] show ?thesis
      using b m1(1) vs 3 pos by (auto simp: parser_parse_responseline_def)
  qed
qed


section \<open>Entities\<close>

lemma malloc_ok_oom:
  assumes "malloc_ok e n = (ok, e')"
  shows "List.length (oom e') \<le> List.length (oom e) \<and>
         (\<not> ok \<longrightarrow> n \<le> alloc_max \<longrightarrow> List.length (oom e') < List.length (oom e))"
  using assms by (auto simp: malloc_ok_def split: list.splits)

lemma realloc_block_oom:
  assumes "realloc_block e b n = (r, e')"
  shows "List.length (oom e') \<le> List.length (oom e) \<and>
         (r = None \<longrightarrow> n \<le> alloc_max \<longrightarrow> List.length (oom e') < List.length (oom e))"
  using assms malloc_ok_oom [of e n]
  by (auto simp: realloc_block_def Let_def split: prod.splits if_splits)

lemma membuffer_realloc_oom:
  assumes "membuffer_realloc e m a n = (rc, e', m')" and "n < alloc_max"
  shows "List.length (oom e') \<le> List.length (oom e) \<and> (rc \<noteq> 0 \<longrightarrow> List.length (oom e') < List.length (oom e))"
proof -
  obtain r1 e1 where r1: "realloc_block e (mb_buf m) (size_add a 1) = (r1, e1)" by fastforce
  obtain r2 e2 where r2: "realloc_block e1 (mb_buf m) (size_add n 1) = (r2, e2)" by fastforce
  have n1: "size_add n 1 \<le> alloc_max" using assms(2) by (simp add: size_add_def alloc_max_def)
  note o1 = realloc_block_oom [OF r1] and o2 = realloc_block_oom [OF r2]
  show ?thesis
  proof (cases r1)
    case (Some b)
    then show ?thesis using assms(1) r1 o1 by (auto simp: membuffer_realloc_def)
  next
    case None
    then show ?thesis using assms(1) r1 r2 o1 o2 n1
      by (cases r2) (auto simp: membuffer_realloc_def)
  qed
qed

lemma membuffer_set_size_oom:
  assumes "membuffer_set_size e m n = (rc, e', m')" and "n < alloc_max"
  shows "List.length (oom e') \<le> List.length (oom e) \<and> (rc \<noteq> 0 \<longrightarrow> List.length (oom e') < List.length (oom e))"
  using assms membuffer_realloc_oom [OF _ assms(2)]
  by (auto simp: membuffer_set_size_def split: if_splits)

text \<open>
  Deleting a piece of the message: it gets shorter, or a planned allocation failure is used up, so a
  loop that deletes ends.
\<close>

lemma membuffer_delete_progress:
  assumes wf: "wf_membuffer m" and n: "0 < n" "index + n \<le> mb_length m"
  shows "\<exists>e' m'. membuffer_delete e m index n = Some (e', m') \<and> wf_membuffer m' \<and> index \<le> mb_length m' \<and>
           mb_length m' \<le> mb_length m \<and>
           List.length (oom e') + mb_length m' < List.length (oom e) + mb_length m \<and>
           (oom e = [] \<longrightarrow> oom e' = [] \<and> contents m' = take index (contents m) @ drop (index + n) (contents m))"
proof -
  from membuffer_delete_ok [OF wf, of index n e] n obtain e' m' where
    d: "membuffer_delete e m index n = Some (e', m')" "wf_membuffer m'"
      "contents m' = take index (contents m) @ drop (index + n) (contents m) \<or>
       mb_length m' = mb_length m \<and> oom e \<noteq> []" by auto
  have len: "List.length (contents m) = mb_length m" "List.length (contents m') = mb_length m'"
    using length_contents wf d(2) by blast+
  have bd: "mb_length m \<le> alloc_max" using wf_membuffer_bounds [OF wf] by simp
  have sub: "size_add index n = index + n" "size_sub (mb_length m) n = mb_length m - n"
    using n bd by (simp_all add: size_add_def size_sub_exact alloc_max_def)
  have nz: "(mb_length m = 0) = False" and over: "(mb_length m < index + n) = False"
    using n sub by simp_all
  from d(1) obtain b1 where
    rest: "(case membuffer_set_size e (m\<lparr>mb_buf := Some b1\<rparr>) (mb_length m - n) of
       (rc, e', m') \<Rightarrow>
         if rc \<noteq> 0 then Some (e', m')
         else Option.bind (mb_buf m') (\<lambda>b2. Option.bind (block_write b2 (mb_length m - n) [NUL]) (\<lambda>b3.
                Some (e', m'\<lparr>mb_buf := Some b3, mb_length := mb_length m - n\<rparr>)))) = Some (e', m')"
    unfolding membuffer_delete_def Let_def nz sub over if_False sub
    by (cases "mb_buf m"; cases "block_move (the (mb_buf m)) index (index + n) (size_sub (mb_length m) (index + n))")
      simp_all
  define m0 where "m0 = m\<lparr>mb_buf := Some b1\<rparr>"
  have m0: "mb_length m0 = mb_length m" by (simp add: m0_def)
  obtain rc e2 m1 where set2: "membuffer_set_size e m0 (mb_length m - n) = (rc, e2, m1)" by (metis prod_cases3)
  have set: "membuffer_set_size e m0 (mb_length m - n) = (rc, e', m1)"
    and m1: "rc \<noteq> 0 \<Longrightarrow> m' = m1" and m': "rc = 0 \<Longrightarrow> mb_length m' = mb_length m - n"
    using rest set2 unfolding m0_def [symmetric]
    by (auto simp: bind_eq_Some_conv split: if_splits)
  have oo: "List.length (oom e') \<le> List.length (oom e)" "rc \<noteq> 0 \<longrightarrow> List.length (oom e') < List.length (oom e)"
    using membuffer_set_size_oom [OF set] n bd by auto
  have fail: "rc \<noteq> 0 \<Longrightarrow> mb_length m' = mb_length m"
    using membuffer_set_size_fail [OF set] m1 m0 by auto
  have ml: "mb_length m' = mb_length m - n \<or> mb_length m' = mb_length m \<and> List.length (oom e') < List.length (oom e)"
    using m' fail oo by blast
  show ?thesis
  proof (intro exI conjI)
    show "membuffer_delete e m index n = Some (e', m')" "wf_membuffer m'" by (rule d)+
    show "index \<le> mb_length m'" "mb_length m' \<le> mb_length m" using ml n by auto
    show "List.length (oom e') + mb_length m' < List.length (oom e) + mb_length m" using ml oo n by auto
    show "oom e = [] \<longrightarrow> oom e' = [] \<and> contents m' = take index (contents m) @ drop (index + n) (contents m)"
      using d(3) oo(1) by auto
  qed
qed

end
