(* ===== verification/HttpEntityProps.thy ===== *)
theory HttpEntityProps
  imports HttpParserProps
begin

text \<open>
  Reading entities: every way of reading keeps the invariant and ends; then the whole parser, fed
  with any bytes, returns and keeps it.
\<close>

section \<open>Each way of reading an entity\<close>

lemma wf_parserD:
  assumes "wf_parser p"
  shows "wf_msg (p_msg p)" "wf_membuffer (hm_msg (p_msg p))" "hm_amount_discarded (p_msg p) = 0"
    "mb_length (hm_msg (p_msg p)) < 2 ^ 31" "p_cursor p \<le> mb_length (hm_msg (p_msg p))"
    "p_entity_start_position p \<le> p_cursor p" "p_chunk_size p < 2 ^ 32" "p_content_length p < 2 ^ 32"
  using assms by (simp_all add: wf_parser_def wf_msg_def)

text \<open>The sizes computed in \<open>size_t\<close> do not wrap.\<close>

lemma entity_len:
  assumes "wf_parser p" and "p_entity_start_position p \<le> n" and "n < 2 ^ 31"
  shows "size_add (size_sub n (p_entity_start_position p)) (hm_amount_discarded (p_msg p)) =
         n - p_entity_start_position p"
  using assms(2,3) wf_parserD(3) [OF assms(1)] by (simp add: size_sub_exact size_add_def)

lemma using_clen_ok:
  assumes wf: "wf_parser p" and ent: "p_ent_position p = ENTREAD_USING_CLEN"
  shows "\<exists>st p'. parser_parse_entity_using_clen p = Some (st, p') \<and> wf_parser p' \<and>
           (st = PARSE_INCOMPLETE \<or> st = PARSE_SUCCESS)"
proof -
  note D = wf_parserD [OF wf]
  let ?n = "mb_length (hm_msg (p_msg p))" and ?s = "p_entity_start_position p" and ?c = "p_content_length p"
  have len: "size_add (size_sub ?n ?s) (hm_amount_discarded (p_msg p)) = ?n - ?s"
    by (rule entity_len [OF wf]) (use D in auto)
  show ?thesis
  proof (cases "?c < ?n - ?s")
    case False
    then show ?thesis using wf ent len
      by (auto simp: parser_parse_entity_using_clen_def Let_def wf_parser_def wf_msg_def)
  next
    case True
    have ix: "size_sub (size_add ?s ?c) (hm_amount_discarded (p_msg p)) = ?s + ?c"
      using D True by (simp add: size_add_exact size_sub_exact)
    from True D(2) obtain b where b: "mb_buf (hm_msg (p_msg p)) = Some b" "?n < List.length b"
      by (auto simp: wf_membuffer_def room_def split: option.splits)
    define b' where "b' = take (?s + ?c) b @ [NUL] @ drop (Suc (?s + ?c)) b"
    have w: "block_write b (?s + ?c) [NUL] = Some b'" "List.length b' = List.length b"
      using True b(2) by (simp_all add: b'_def)
    have "wf_membuffer ((hm_msg (p_msg p))\<lparr>mb_buf := Some b'\<rparr>)"
      using D(2) b(1) w(2) by (simp add: wf_membuffer_def room_def)
    then show ?thesis using wf ent len True ix b(1) w(1)
      by (simp add: parser_parse_entity_using_clen_def Let_def wf_parser_def wf_msg_def)
  qed
qed

lemma until_close_ok:
  assumes wf: "wf_parser p" and ent: "p_ent_position p = ENTREAD_UNTIL_CLOSE"
  shows "\<exists>p'. parser_parse_entity_until_close p = Some (PARSE_INCOMPLETE_ENTITY, p') \<and> wf_parser p'"
  using wf ent by (simp add: parser_parse_entity_until_close_def Let_def wf_parser_def wf_msg_def)

lemma raw_find_str_ok:
  assumes "len < List.length b" and "b ! len = NUL"
  shows "\<exists>r b'. raw_find_str b len pat = Some (r, b') \<and> List.length b' = List.length b \<and> b' ! len = NUL"
proof -
  have nul: "NUL \<in> set b" using nth_mem [OF assms(1)] assms(2) by simp
  have ne: "cstr b \<noteq> b"
  proof
    assume "cstr b = b"
    then have "nul_free b" using nul_free_cstr [of b] by simp
    then show False using nul by (auto simp: nul_free_def list_all_iff)
  qed
  have "List.length (map tolower (cstr b) @ drop (List.length (cstr b)) b) = List.length b"
    by (simp add: cstr_def length_takeWhile_le)
  then show ?thesis using assms ne by (simp add: raw_find_str_def Let_def)
qed

lemma chunked_coding_ok:
  assumes wf: "wf_msg m"
  shows "\<exists>c hs. chunked_coding m = Some (c, m\<lparr>hm_headers := hs\<rparr>) \<and> list_all wf_header (q_items hs)"
proof (cases "httpmsg_find_hdr m HDR_TRANSFER_ENCODING")
  case None
  have "m = m\<lparr>hm_headers := hm_headers m\<rparr>" by simp
  then show ?thesis using None wf
    by (intro exI [of _ False] exI [of _ "hm_headers m"]) (simp add: chunked_coding_def wf_msg_def)
next
  case (Some i)
  let ?h = "header_at m i"
  have i: "i < List.length (q_items (hm_headers m))"
    using Some find_index_Some by (auto simp: httpmsg_find_hdr_def)
  then have h: "wf_header ?h" using wf by (simp add: wf_msg_def list_all_length)
  then obtain b where b: "mb_buf (h_value ?h) = Some b" "mb_length (h_value ?h) < List.length b"
    "b ! mb_length (h_value ?h) = NUL"
    by (auto simp: wf_header_def wf_membuffer_def room_def terminated_def split: option.splits)
  from raw_find_str_ok [OF b(2,3), of "''chunked''"] obtain r b' where
    r: "raw_find_str b (mb_length (h_value ?h)) ''chunked'' = Some (r, b')" "List.length b' = List.length b"
      "b' ! mb_length (h_value ?h) = NUL" by blast
  let ?h' = "?h\<lparr>h_value := (h_value ?h)\<lparr>mb_buf := Some b'\<rparr>\<rparr>"
  have "wf_header ?h'" using h b r by (simp add: wf_header_def wf_membuffer_def room_def terminated_def)
  then have "list_all wf_header ((q_items (hm_headers m))[i := ?h'])"
    using wf by (auto simp: wf_msg_def list_all_iff dest: set_update_subset_insert [THEN subsetD])
  then show ?thesis using Some b(1) r(1)
    by (intro exI [of _ "0 \<le> r"] exI [of _ "(hm_headers m)\<lparr>q_items := (q_items (hm_headers m))[i := ?h']\<rparr>"])
      (simp add: chunked_coding_def Let_def)
qed

lemma read_method_ok:
  assumes wf: "wf_parser p" and ent: "p_ent_position p = ENTREAD_DETERMINE_READ_METHOD"
  shows "\<exists>st p'. parser_get_entity_read_method p = Some (st, p') \<and> wf_parser p' \<and>
           hm_msg (p_msg p') = hm_msg (p_msg p) \<and>
           (st = PARSE_SUCCESS \<or> st = PARSE_FAILURE \<or>
            st = PARSE_CONTINUE_1 \<and> p_ent_position p' \<in> {ENTREAD_USING_CLEN, ENTREAD_USING_CHUNKED, ENTREAD_UNTIL_CLOSE})"
proof -
  define m where "m = (p_msg p)\<lparr>hm_entity_buf := Some (p_cursor p), hm_entity_length := 0\<rparr>"
  define q where "q = p\<lparr>p_msg := m, p_entity_start_position := p_cursor p\<rparr>"
  have wfm: "wf_msg m" using wf by (simp add: m_def wf_parser_def wf_msg_def)
  obtain c hs where c: "chunked_coding m = Some (c, m\<lparr>hm_headers := hs\<rparr>)" "list_all wf_header (q_items hs)"
    using chunked_coding_ok [OF wfm] by blast
  have wf1: "wf_parser (q\<lparr>p_msg := m\<lparr>hm_headers := hs\<rparr>\<rparr>)" "wf_parser q"
    using wf c(2) by (simp_all add: q_def m_def wf_parser_def wf_msg_def)
  have upd: "wf_parser (q\<lparr>p_msg := m\<lparr>hm_headers := hs\<rparr>, p_content_length := nat (v mod 2 ^ 32), p_ent_position := x\<rparr>)"
    "wf_parser (q\<lparr>p_msg := m\<lparr>hm_headers := hs\<rparr>, p_ent_position := x\<rparr>)"
    "wf_parser (q\<lparr>p_msg := m\<lparr>hm_headers := hs\<rparr>, p_valid_ssdp_notify_hack := True, p_http_error_code := y\<rparr>)"
    "wf_parser (q\<lparr>p_msg := m\<lparr>hm_headers := hs\<rparr>, p_http_error_code := y\<rparr>)"
    "wf_parser (q\<lparr>p_position := z\<rparr>)" for v x y z
  proof -
    have "nat (v mod 2 ^ 32) < 2 ^ 32" by (simp add: nat_less_iff)
    then show "wf_parser (q\<lparr>p_msg := m\<lparr>hm_headers := hs\<rparr>, p_content_length := nat (v mod 2 ^ 32), p_ent_position := x\<rparr>)"
      using wf1 by (simp add: wf_parser_def)
  qed (use wf1 in \<open>simp_all add: wf_parser_def\<close>)
  have msg: "hm_msg m = hm_msg (p_msg p)" by (simp add: m_def)
  have q: "p_msg q = m" "(upd_msg (\<lambda>m. m\<lparr>hm_entity_buf := Some (p_cursor p), hm_entity_length := 0\<rparr>) p)
      \<lparr>p_entity_start_position := p_cursor p\<rparr> = q" by (simp_all add: q_def m_def)
  show ?thesis
    unfolding parser_get_entity_read_method_def Let_def q c(1) option.case prod.case
    using ent upd msg q(1)
    by (auto split: option.splits simp: msg)
qed

lemma store_chunk_size_small: "old < 2 ^ 32 \<Longrightarrow> store_chunk_size old v = nat (v mod 2 ^ 32)"
  by (simp add: store_chunk_size_def)

lemma store_chunk_size_bound: "old < 2 ^ 32 \<Longrightarrow> store_chunk_size old v < 2 ^ 32"
  by (simp add: store_chunk_size_small nat_less_iff)

text \<open>What a round that goes on has consumed: bytes of the message, or a planned failure.\<close>

definition entity_weight :: "alloc_env \<Rightarrow> http_parser \<Rightarrow> nat" where
  "entity_weight e p = List.length (oom e) + mb_length (hm_msg (p_msg p))"

lemma delete_wf:
  assumes wf: "wf_parser p" and n: "p_cursor p \<le> i" "0 < n" "i + n \<le> mb_length (hm_msg (p_msg p))"
  shows "\<exists>e' b. delete_from_msg e p i n = Some (e', upd_msg (\<lambda>m. m\<lparr>hm_msg := b\<rparr>) p) \<and>
           wf_parser (upd_msg (\<lambda>m. m\<lparr>hm_msg := b\<rparr>) p) \<and> i \<le> mb_length b \<and>
           List.length (oom e') + mb_length b < entity_weight e p"
proof -
  from membuffer_delete_progress [OF wf_parserD(2) [OF wf] n(2,3), of e] obtain e' b where
    d: "membuffer_delete e (hm_msg (p_msg p)) i n = Some (e', b)" "wf_membuffer b" "i \<le> mb_length b"
      "mb_length b \<le> mb_length (hm_msg (p_msg p))"
      "List.length (oom e') + mb_length b < List.length (oom e) + mb_length (hm_msg (p_msg p))" by blast
  have "wf_parser (upd_msg (\<lambda>m. m\<lparr>hm_msg := b\<rparr>) p)" using wf d n by (simp add: wf_parser_def wf_msg_def)
  then show ?thesis using d by (intro exI [of _ e'] exI [of _ b]) (simp add: entity_weight_def)
qed

lemma chunk_fmt: "fmt_of is_directive ''%x%L%c''" "fmt_kinds ''%x%L%c'' = [False, True]"
  "fmt_of is_directive ''L%c''" "fmt_of is_directive ''%L%c''" "fmt_of is_directive ''%c''" "fmt_of is_directive []"
  by (simp_all add: is_directive_def directive_kinds_def)

lemma at_scanner: "sc_cursor (parser_scanner p) = p_cursor p"
  by (simp add: parser_scanner_def)

lemma within_scanner_length:
  assumes "wf_parser p" and "within (parser_scanner p) sc"
  shows "p_cursor p \<le> sc_cursor sc" "sc_cursor sc \<le> mb_length (hm_msg (p_msg p))"
  using assms wf_msg_lengths(1) [OF wf_parserD(1) [OF assms(1)]]
  by (auto simp: within_def parser_scanner_def)

lemma chunky_entity_ok:
  assumes wf: "wf_parser p" and ent: "p_ent_position p = ENTREAD_USING_CHUNKED"
  shows "\<exists>st e' p'. parser_parse_chunky_entity env e p = Some (st, e', p') \<and> wf_parser p' \<and> st \<noteq> PARSE_OK \<and>
           (st = PARSE_CONTINUE_1 \<longrightarrow> entity_weight e' p' < entity_weight e p)"
proof -
  let ?sc = "parser_scanner p"
  from match_from_parser [OF wf within_refl [OF parser_scanner_ok(1) [OF wf]] chunk_fmt(1), of env]
  obtain st sc vs where m: "match_fmt env ?sc ''%x%L%c'' = Some (st, sc, vs)" "within ?sc sc" "plain st" by blast
  define ck where "ck = (case vs of IntArg v # _ \<Rightarrow> store_chunk_size (p_chunk_size p) v | _ \<Rightarrow> p_chunk_size p)"
  define p1 where "p1 = p\<lparr>p_chunk_size := ck\<rparr>"
  have "ck < 2 ^ 32"
    using store_chunk_size_bound wf_parserD(7) [OF wf] by (simp add: ck_def split: list.split arg.split)
  then have wf1: "wf_parser p1" using wf by (simp add: p1_def wf_parser_def)
  show ?thesis
  proof (cases "st = PARSE_OK")
    case False
    then show ?thesis using ent m wf1
      by (auto simp: parser_parse_chunky_entity_def Let_def p1_def ck_def plain_def)
  next
    case True
    have lt: "p_cursor p < sc_cursor sc"
      using vfmatch_progress [of "CHR ''x''" "''%L%c''" ?sc env sc vs] m True parser_scanner_ok(1) [OF wf] chunk_fmt(4)
      by (simp add: match_fmt_def at_scanner)
    have le: "sc_cursor sc \<le> mb_length (hm_msg (p_msg p))" by (rule within_scanner_length [OF wf m(2)])
    have pre: "p_cursor p1 \<le> p_cursor p" "0 < sc_cursor sc - p_cursor p"
      "p_cursor p + (sc_cursor sc - p_cursor p) \<le> mb_length (hm_msg (p_msg p1))"
      and w: "entity_weight e p1 = entity_weight e p"
      using lt le by (simp_all add: p1_def entity_weight_def)
    from delete_wf [OF wf1 pre, of e] obtain e1 b where
      d: "delete_from_msg e p1 (p_cursor p) (sc_cursor sc - p_cursor p) =
            Some (e1, upd_msg (\<lambda>m. m\<lparr>hm_msg := b\<rparr>) p1)"
        "wf_parser (upd_msg (\<lambda>m. m\<lparr>hm_msg := b\<rparr>) p1)"
        "List.length (oom e1) + mb_length b < entity_weight e p"
      unfolding w by blast
    define p2 where "p2 = upd_msg (\<lambda>m. m\<lparr>hm_msg := b\<rparr>) p1"
    have run: "parser_parse_chunky_entity env e p =
        Some (PARSE_CONTINUE_1, e1,
          if p_chunk_size p2 = 0 then
            (upd_msg (\<lambda>m. m\<lparr>hm_entity_length :=
               size_add (size_sub (p_cursor p) (p_entity_start_position p2)) (hm_amount_discarded m)\<rparr>) p2)
              \<lparr>p_ent_position := ENTREAD_CHUNKY_HEADERS\<rparr>
          else p2\<lparr>p_ent_position := ENTREAD_CHUNKY_BODY\<rparr>)"
      unfolding parser_parse_chunky_entity_def Let_def m(1) option.case prod.case ck_def [symmetric] p1_def [symmetric]
        d(1) p2_def [symmetric]
      using ent True by simp
    have "wf_parser p2" "mb_length (hm_msg (p_msg p2)) = mb_length b" using d(2) by (simp_all add: p2_def)
    then show ?thesis
      unfolding run using d(3) by (simp add: wf_parser_def wf_msg_def entity_weight_def)
  qed
qed

lemma chunky_body_ok:
  assumes wf: "wf_parser p"
  shows "\<exists>st e' p'. parser_parse_chunky_body env e p = Some (st, e', p') \<and> wf_parser p' \<and> st \<noteq> PARSE_OK \<and>
           (st = PARSE_CONTINUE_1 \<longrightarrow> entity_weight e' p' < entity_weight e p)"
proof -
  note D = wf_parserD [OF wf]
  have sub: "size_sub (mb_length (hm_msg (p_msg p))) (p_cursor p) = mb_length (hm_msg (p_msg p)) - p_cursor p"
    by (rule size_sub_exact) (use D in auto)
  have add: "size_add (p_cursor p) (p_chunk_size p) = p_cursor p + p_chunk_size p"
    by (rule size_add_exact) (use D in auto)
  show ?thesis
  proof (cases "mb_length (hm_msg (p_msg p)) - p_cursor p < p_chunk_size p")
    case True
    then show ?thesis using wf sub by (simp add: parser_parse_chunky_body_def)
  next
    case False
    define q where "q = p_cursor p + p_chunk_size p"
    define p1 where "p1 = p\<lparr>p_cursor := q\<rparr>"
    have qle: "q \<le> mb_length (hm_msg (p_msg p))" using False D by (simp add: q_def)
    have wf1: "wf_parser p1" using wf qle by (simp add: p1_def wf_parser_def q_def)
    let ?sc = "parser_scanner p1"
    from match_from_parser [OF wf1 within_refl [OF parser_scanner_ok(1) [OF wf1]] chunk_fmt(5), of env]
    obtain st sc vs where m: "match_fmt env ?sc ''%c'' = Some (st, sc, vs)" "within ?sc sc" "plain st"
      "st \<noteq> PARSE_OK \<longrightarrow> sc = ?sc" by blast
    show ?thesis
    proof (cases "st = PARSE_OK")
      case nok: False
      have "size_sub (sc_cursor sc) (p_chunk_size p) = p_cursor p"
        using m(4) nok qle D by (simp add: at_scanner p1_def q_def size_sub_exact)
      then have "parser_parse_chunky_body env e p = Some (st, e, p1\<lparr>p_cursor := p_cursor p\<rparr>)"
        using False nok m(1) sub add
        by (simp add: parser_parse_chunky_body_def Let_def flip: q_def p1_def)
      moreover have "p1\<lparr>p_cursor := p_cursor p\<rparr> = p" by (simp add: p1_def)
      ultimately show ?thesis using nok m(3) wf by (auto simp: plain_def)
    next
      case True
      have lt: "q < sc_cursor sc"
        using vfmatch_progress [of "CHR ''c''" "[]" ?sc env sc vs] m True parser_scanner_ok(1) [OF wf1] chunk_fmt(6)
        by (simp add: match_fmt_def at_scanner p1_def)
      have le: "sc_cursor sc \<le> mb_length (hm_msg (p_msg p))"
        using within_scanner_length(2) [OF wf1 m(2)] by (simp add: p1_def)
      have pre: "p_cursor p1 \<le> q" "0 < sc_cursor sc - q"
        "q + (sc_cursor sc - q) \<le> mb_length (hm_msg (p_msg p1))"
        and w: "entity_weight e p1 = entity_weight e p"
        using lt le by (simp_all add: p1_def entity_weight_def)
      from delete_wf [OF wf1 pre, of e] obtain e1 b where
        d: "delete_from_msg e p1 q (sc_cursor sc - q) = Some (e1, upd_msg (\<lambda>m. m\<lparr>hm_msg := b\<rparr>) p1)"
          "wf_parser (upd_msg (\<lambda>m. m\<lparr>hm_msg := b\<rparr>) p1)" "q \<le> mb_length b"
          "List.length (oom e1) + mb_length b < entity_weight e p"
        unfolding w by blast
      define p2 where "p2 = upd_msg (\<lambda>m. m\<lparr>hm_msg := b\<rparr>) p1"
      have run: "parser_parse_chunky_body env e p = Some (PARSE_CONTINUE_1, e1,
          (upd_msg (\<lambda>m. m\<lparr>hm_entity_length := size_add (hm_entity_length m) (p_chunk_size p)\<rparr>) p2)
            \<lparr>p_cursor := q, p_ent_position := ENTREAD_USING_CHUNKED\<rparr>)"
        unfolding parser_parse_chunky_body_def Let_def sub add q_def [symmetric] p1_def [symmetric] m(1)
          option.case prod.case d(1) p2_def [symmetric]
        using False True by simp
      have "wf_parser p2" "mb_length (hm_msg (p_msg p2)) = mb_length b" "p_cursor p2 = q"
        using d(2) by (simp_all add: p2_def p1_def)
      then show ?thesis
        unfolding run using d(3,4) by (simp add: wf_parser_def wf_msg_def entity_weight_def)
    qed
  qed
qed

lemma membuffer_delete_le:
  assumes wf: "wf_membuffer m" and n: "index + n \<le> mb_length m"
  shows "\<exists>e' m'. membuffer_delete e m index n = Some (e', m') \<and> wf_membuffer m' \<and> index \<le> mb_length m' \<and>
           mb_length m' \<le> mb_length m"
proof -
  from membuffer_delete_ok [OF wf, of index n e] n obtain e' m' where
    d: "membuffer_delete e m index n = Some (e', m')" "wf_membuffer m'"
      "contents m' = take index (contents m) @ drop (index + n) (contents m) \<or> mb_length m' = mb_length m"
    by auto
  have "index \<le> mb_length m' \<and> mb_length m' \<le> mb_length m"
    using d(3)
  proof
    assume "contents m' = take index (contents m) @ drop (index + n) (contents m)"
    then have "List.length (contents m') = index + (mb_length m - (index + n))"
      using length_contents [OF wf] n by simp
    then show ?thesis using length_contents [OF d(2)] n by simp
  qed (use n in simp)
  with d show ?thesis by blast
qed

lemma chunky_headers_ok:
  assumes wf: "wf_parser p" and ent: "p_ent_position p = ENTREAD_CHUNKY_HEADERS"
  shows "\<exists>st e' p'. parser_parse_chunky_headers env e p = Some (st, e', p') \<and> wf_parser p' \<and>
           st \<noteq> PARSE_OK \<and> st \<noteq> PARSE_CONTINUE_1"
proof -
  from headers_loop_ok [OF wf, of env e] obtain st e1 p1 where
    l: "headers_loop env e p = Some (st, e1, p1)" "header_frame p p1" "st \<noteq> PARSE_CONTINUE_1" by blast
  have h: "parser_parse_headers env e p = Some (st, e1, p1)" using ent l by (simp add: parser_parse_headers_def)
  have wf1: "wf_parser p1" by (rule header_frame_wf [OF wf l(2)])
  show ?thesis
  proof (cases "st = PARSE_OK")
    case False
    then show ?thesis using h l(3) wf1 by (simp add: parser_parse_chunky_headers_def)
  next
    case True
    have fr: "p_cursor p \<le> p_cursor p1" "p_entity_start_position p1 = p_entity_start_position p"
      using l(2) by (auto simp: header_frame_def)
    have "p_cursor p + (p_cursor p1 - p_cursor p) \<le> mb_length (hm_msg (p_msg p1))"
      using fr wf_parserD(5) [OF wf1] by simp
    from membuffer_delete_le [OF wf_parserD(2) [OF wf1] this, of e1] obtain e2 b where
      d: "membuffer_delete e1 (hm_msg (p_msg p1)) (p_cursor p) (p_cursor p1 - p_cursor p) = Some (e2, b)"
        "wf_membuffer b" "p_cursor p \<le> mb_length b" "mb_length b \<le> mb_length (hm_msg (p_msg p1))" by blast
    then show ?thesis
      using h True wf1 fr wf_parserD(6) [OF wf]
      by (simp add: parser_parse_chunky_headers_def wf_parser_def wf_msg_def)
  qed
qed

definition entity_rank :: "alloc_env \<Rightarrow> http_parser \<Rightarrow> nat" where
  "entity_rank e p =
     2 * entity_weight e p + (if p_ent_position p = ENTREAD_DETERMINE_READ_METHOD then 1 else 0)"

lemma entity_rank_less: "entity_weight e' p' < entity_weight e p \<Longrightarrow> entity_rank e' p' < entity_rank e p"
  by (simp add: entity_rank_def)

lemma entity_round_ok:
  assumes wf: "wf_parser p"
  shows "\<exists>st e' p'. entity_round env e p = Some (st, e', p') \<and> wf_parser p' \<and> st \<noteq> PARSE_OK \<and>
           (st = PARSE_CONTINUE_1 \<longrightarrow> entity_rank e' p' < entity_rank e p)"
proof (cases "p_ent_position p")
  case ENTREAD_DETERMINE_READ_METHOD
  from read_method_ok [OF wf this] obtain st p' where
    r: "parser_get_entity_read_method p = Some (st, p')" "wf_parser p'" "hm_msg (p_msg p') = hm_msg (p_msg p)"
      "st = PARSE_SUCCESS \<or> st = PARSE_FAILURE \<or> st = PARSE_CONTINUE_1 \<and>
       p_ent_position p' \<in> {ENTREAD_USING_CLEN, ENTREAD_USING_CHUNKED, ENTREAD_UNTIL_CLOSE}" by blast
  have "st = PARSE_CONTINUE_1 \<longrightarrow> entity_rank e p' < entity_rank e p"
    using r(3,4) ENTREAD_DETERMINE_READ_METHOD by (auto simp: entity_rank_def entity_weight_def)
  moreover have "st \<noteq> PARSE_OK" using r(4) by auto
  ultimately show ?thesis using r(1,2) ENTREAD_DETERMINE_READ_METHOD
    by (simp add: entity_round_def keep_env_def)
next
  case ENTREAD_USING_CLEN
  from using_clen_ok [OF wf this] show ?thesis using ENTREAD_USING_CLEN
    by (auto simp: entity_round_def keep_env_def)
next
  case ENTREAD_USING_CHUNKED
  from chunky_entity_ok [OF wf this, of env e] show ?thesis using ENTREAD_USING_CHUNKED entity_rank_less
    by (simp add: entity_round_def) blast
next
  case ENTREAD_UNTIL_CLOSE
  from until_close_ok [OF wf this] show ?thesis using ENTREAD_UNTIL_CLOSE
    by (auto simp: entity_round_def keep_env_def)
next
  case ENTREAD_CHUNKY_BODY
  from chunky_body_ok [OF wf, of env e] show ?thesis using ENTREAD_CHUNKY_BODY entity_rank_less
    by (simp add: entity_round_def) blast
next
  case ENTREAD_CHUNKY_HEADERS
  from chunky_headers_ok [OF wf this, of env e] show ?thesis using ENTREAD_CHUNKY_HEADERS
    by (auto simp: entity_round_def)
qed

lemma entity_loop_ok:
  assumes "wf_parser p"
  shows "\<exists>st e' p'. entity_loop env e p = Some (st, e', p') \<and> wf_parser p' \<and> st \<noteq> PARSE_OK \<and>
           st \<noteq> PARSE_CONTINUE_1"
  using assms
proof (induction "entity_rank e p" arbitrary: e p rule: less_induct)
  case less
  from entity_round_ok [OF less.prems, of env e] obtain st e1 p1 where
    r: "entity_round env e p = Some (st, e1, p1)" "wf_parser p1" "st \<noteq> PARSE_OK"
      "st = PARSE_CONTINUE_1 \<longrightarrow> entity_rank e1 p1 < entity_rank e p" by blast
  show ?case
  proof (cases "st = PARSE_CONTINUE_1")
    case True
    with less.hyps [OF _ r(2), of e1] r(4) obtain st' e' p' where
      "entity_loop env e1 p1 = Some (st', e', p')" "wf_parser p'" "st' \<noteq> PARSE_OK" "st' \<noteq> PARSE_CONTINUE_1"
      by blast
    then show ?thesis using r(1) True by (subst entity_loop.simps) simp
  next
    case False
    then show ?thesis using r by (subst entity_loop.simps) simp
  qed
qed


section \<open>The whole parser\<close>

definition position_rank :: "parser_pos \<Rightarrow> nat" where
  "position_rank pos =
     (case pos of POS_ENTITY \<Rightarrow> 0 | POS_HEADERS \<Rightarrow> 1 | POS_REQUEST_LINE \<Rightarrow> 2 | POS_RESPONSE_LINE \<Rightarrow> 2
      | POS_COMPLETE \<Rightarrow> 0)"

lemma parse_round_ok:
  assumes wf: "wf_parser p" and pos: "p_position p \<noteq> POS_COMPLETE"
  shows "\<exists>st e' p'. parse_round env e p = Some (st, e', p') \<and> wf_parser p' \<and>
           (st = PARSE_OK \<longrightarrow> p_position p' \<noteq> POS_COMPLETE \<and>
              position_rank (p_position p') < position_rank (p_position p))"
proof (cases "p_position p")
  case POS_REQUEST_LINE
  from parser_parse_requestline_ok [OF wf this, of env e] show ?thesis using POS_REQUEST_LINE
    by (auto simp: parse_round_def position_rank_def)
next
  case POS_RESPONSE_LINE
  from parser_parse_responseline_ok [OF wf this, of env e] show ?thesis using POS_RESPONSE_LINE
    by (auto simp: parse_round_def position_rank_def)
next
  case POS_HEADERS
  from headers_loop_ok [OF wf, of env e] show ?thesis using POS_HEADERS header_frame_wf [OF wf]
    by (auto simp: parse_round_def parser_parse_headers_def position_rank_def)
next
  case POS_ENTITY
  from entity_loop_ok [OF wf, of env e] show ?thesis using POS_ENTITY
    by (auto simp: parse_round_def parser_parse_entity_def)
next
  case POS_COMPLETE
  then show ?thesis using pos by simp
qed

lemma parser_parse_ok:
  assumes "wf_parser p" and "p_position p \<noteq> POS_COMPLETE"
  shows "\<exists>st e' p'. parser_parse env e p = Some (st, e', p') \<and> wf_parser p' \<and> st \<noteq> PARSE_OK"
  using assms
proof (induction "position_rank (p_position p)" arbitrary: e p rule: less_induct)
  case less
  from parse_round_ok [OF less.prems, of env e] obtain st e1 p1 where
    r: "parse_round env e p = Some (st, e1, p1)" "wf_parser p1"
      "st = PARSE_OK \<longrightarrow> p_position p1 \<noteq> POS_COMPLETE \<and>
         position_rank (p_position p1) < position_rank (p_position p)" by blast
  show ?case
  proof (cases "st = PARSE_OK")
    case True
    with less.hyps [OF _ r(2), of e1] r(3) obtain st' e' p' where
      "parser_parse env e1 p1 = Some (st', e', p')" "wf_parser p'" "st' \<noteq> PARSE_OK" by blast
    then show ?thesis using r(1) True by (subst parser_parse.simps) simp
  next
    case False
    then show ?thesis using r by (subst parser_parse.simps) simp
  qed
qed


section \<open>Feeding the parser\<close>

lemma append_bytes:
  assumes "wf_membuffer m" and "n \<le> List.length s" and "n \<le> alloc_max"
  shows "\<exists>rc e' m'. membuffer_append e m (Some s) n = Some (rc, e', m') \<and>
           updates_to m (contents m @ take n s) rc m'"
proof (cases "n = 0")
  case True
  then show ?thesis using assms(1) by (simp add: membuffer_append_def membuffer_insert_noop updates_to_def)
next
  case False
  then show ?thesis using append_piece [OF assms(1) _ assms(2,3), of e] by blast
qed

lemma parser_append_ok:
  assumes wf: "wf_parser p" and pos: "p_position p \<noteq> POS_COMPLETE"
    and n: "n \<le> List.length s" "mb_length (hm_msg (p_msg p)) + n < 2 ^ 31"
  shows "\<exists>st e' p'. parser_append env e p s n = Some (st, e', p') \<and> wf_parser p' \<and> st \<noteq> PARSE_OK"
proof -
  let ?m = "hm_msg (p_msg p)"
  note D = wf_parserD [OF wf]
  have "n \<le> alloc_max" using n(2) by (simp add: alloc_max_def)
  from append_bytes [OF D(2) n(1) this, of e] obtain rc e1 b where
    a: "membuffer_append e ?m (Some s) n = Some (rc, e1, b)" "updates_to ?m (contents ?m @ take n s) rc b" by blast
  have b: "wf_membuffer b" "mb_length ?m \<le> mb_length b" "mb_length b < 2 ^ 31"
    using a(2) D(2) n length_contents [OF D(2)] length_contents [of b]
    by (auto simp: updates_to_def dest: arg_cong [of _ _ List.length] split: if_splits)
  define p1 where "p1 = upd_msg (\<lambda>m. m\<lparr>hm_msg := b\<rparr>) p"
  have wf1: "wf_parser p1" "wf_parser (fail_with c p1)" "p_position p1 \<noteq> POS_COMPLETE" for c
    using wf b pos by (simp_all add: p1_def wf_parser_def wf_msg_def)
  show ?thesis
    using parser_parse_ok [OF wf1(1,3), of env e1] wf1(2) a(1)
    by (simp add: parser_append_def flip: p1_def)
qed



end
