(* ===== verification/HttpResume.thy ===== *)
theory HttpResume
  imports HttpEntityProps
begin

text \<open>
  A message arrives in pieces of any size. The parser is run after each piece and reports
  \<open>PARSE_INCOMPLETE\<close> when the bytes so far end too early; here it is shown that running it again
  when more bytes are there gives what one run on all the bytes gives, for everything up to and
  including an entity with a Content-Length.
\<close>

section \<open>More bytes in the message buffer\<close>

definition receive :: "membuffer \<Rightarrow> http_parser \<Rightarrow> http_parser" where
  "receive b p = upd_msg (\<lambda>m. m\<lparr>hm_msg := b\<rparr>) p"

lemma receive_simps [simp]:
  "p_msg (receive b p) = (p_msg p)\<lparr>hm_msg := b\<rparr>" "p_cursor (receive b p) = p_cursor p"
  "p_position (receive b p) = p_position p" "p_ent_position (receive b p) = p_ent_position p"
  "p_content_length (receive b p) = p_content_length p" "p_chunk_size (receive b p) = p_chunk_size p"
  "p_entity_start_position (receive b p) = p_entity_start_position p"
  "receive b (receive b' p) = receive b p"
  by (simp_all add: receive_def)

lemma receive_updates [simp]:
  "(receive b p)\<lparr>p_cursor := c\<rparr> = receive b (p\<lparr>p_cursor := c\<rparr>)"
  "(receive b p)\<lparr>p_position := pos\<rparr> = receive b (p\<lparr>p_position := pos\<rparr>)"
  "(receive b p)\<lparr>p_ent_position := ent\<rparr> = receive b (p\<lparr>p_ent_position := ent\<rparr>)"
  "(receive b p)\<lparr>p_http_error_code := x\<rparr> = receive b (p\<lparr>p_http_error_code := x\<rparr>)"
  "(receive b p)\<lparr>p_content_length := n\<rparr> = receive b (p\<lparr>p_content_length := n\<rparr>)"
  "(receive b p)\<lparr>p_entity_start_position := n\<rparr> = receive b (p\<lparr>p_entity_start_position := n\<rparr>)"
  "(receive b p)\<lparr>p_valid_ssdp_notify_hack := f\<rparr> = receive b (p\<lparr>p_valid_ssdp_notify_hack := f\<rparr>)"
  "(receive b p)\<lparr>p_msg := m\<lparr>hm_msg := b\<rparr>\<rparr> = receive b (p\<lparr>p_msg := m\<rparr>)"
  by (cases p; simp add: receive_def)+

definition receive_result ::
  "membuffer \<Rightarrow> ('st \<times> alloc_env \<times> http_parser) option \<Rightarrow> ('st \<times> alloc_env \<times> http_parser) option" where
  "receive_result b r = map_option (\<lambda>(st, e, p). (st, e, receive b p)) r"

lemma receive_result_simps [simp]:
  "receive_result b None = None" "receive_result b (Some (st, e, p)) = Some (st, e, receive b p)"
  by (simp_all add: receive_result_def)

text \<open>The buffer \<open>b\<close> holds the bytes of \<open>p\<close> and then \<open>late\<close>.\<close>

definition extends :: "membuffer \<Rightarrow> string \<Rightarrow> http_parser \<Rightarrow> bool" where
  "extends b late p \<longleftrightarrow> contents b = contents (hm_msg (p_msg p)) @ late"

lemma scanner_receive: "extends b late p \<Longrightarrow> parser_scanner (receive b p) = grow late (parser_scanner p)"
  by (simp add: extends_def parser_scanner_def grow_def)

lemma extends_cong: "hm_msg (p_msg q) = hm_msg (p_msg p) \<Longrightarrow> extends b late q = extends b late p"
  by (simp add: extends_def)


section \<open>Pieces of the message do not change\<close>

lemma span_rest_more: "span_in t s \<Longrightarrow> span_rest (t @ late) s = span_rest t s @ late"
  by (simp add: span_in_def span_rest_def)

lemma span_text_more: "span_in t s \<Longrightarrow> span_text (t @ late) s = span_text t s"
  by (simp add: span_in_def span_text_def)

lemma assign_more:
  "n \<le> List.length s \<Longrightarrow> membuffer_assign e m (Some (s @ late)) n = membuffer_assign e m (Some s) n"
  using membuffer_assign_take [of n "s @ late" e m] membuffer_assign_take [of n s e m] by simp

lemma append_more:
  "n \<le> List.length s \<Longrightarrow> membuffer_append e m (Some (s @ late)) n = membuffer_append e m (Some s) n"
  using membuffer_append_take [of n "s @ late" e m] membuffer_append_take [of n s e m] by simp

lemma str_alloc_more:
  assumes "n \<le> List.length s"
  shows "str_alloc e (s @ late) n = str_alloc e s n"
proof -
  have "block_read (s @ late) 0 n = block_read s 0 n" using assms by (simp add: block_read_def)
  then show ?thesis by (simp only: str_alloc_def)
qed

lemma strn_cmp_more: "n \<le> List.length xs \<Longrightarrow> strn_cmp k (xs @ late) ys n = strn_cmp k xs ys n"
  using strn_cmp_take [of n "xs @ late" k ys] strn_cmp_take [of n xs k ys] by simp

lemma map_str_to_int_more:
  assumes "n \<le> List.length s"
  shows "map_str_to_int (s @ late) n table k cs = map_str_to_int s n table k cs"
proof -
  have "memptr_cmp \<lparr>mp_buf = s @ late, mp_length = n\<rparr> = memptr_cmp \<lparr>mp_buf = s, mp_length = n\<rparr>"
    "memptr_cmp_nocase \<lparr>mp_buf = s @ late, mp_length = n\<rparr> = memptr_cmp_nocase \<lparr>mp_buf = s, mp_length = n\<rparr>"
    by (simp_all add: fun_eq_iff memptr_cmp_def memptr_cmp_nocase_def strncmp_def strncasecmp_def
        strn_cmp_more [OF assms])
  then show ?thesis by (simp only: map_str_to_int_def Let_def)
qed

lemmas more_bytes = span_rest_more span_text_more assign_more append_more str_alloc_more
  map_str_to_int_more span_rest_length


section \<open>Headers\<close>

abbreviation receive_header ::
  "membuffer \<Rightarrow> (bool \<times> alloc_env \<times> http_message) option \<Rightarrow> (bool \<times> alloc_env \<times> http_message) option" where
  "receive_header b r \<equiv> map_option (\<lambda>(ok, e, m). (ok, e, m\<lparr>hm_msg := b\<rparr>)) r"

lemma find_hdr_receive [simp]:
  "httpmsg_find_hdr (m\<lparr>hm_msg := b\<rparr>) k = httpmsg_find_hdr m k"
  "httpmsg_find_hdr_str (m\<lparr>hm_msg := b\<rparr>) name = httpmsg_find_hdr_str m name"
  by (simp_all add: httpmsg_find_hdr_def httpmsg_find_hdr_str_def)

lemma new_header_receive:
  assumes "contents b = contents (hm_msg m) @ late" and "span_in (contents (hm_msg m)) token"
    and "span_in (contents (hm_msg m)) v"
  shows "new_header e (m\<lparr>hm_msg := b\<rparr>) k token v = receive_header b (new_header e m k token v)"
  using assms
  by (simp add: new_header_def Let_def more_bytes split: prod.split option.split bool.split)

lemma append_header_receive:
  assumes "contents b = contents (hm_msg m) @ late" and "span_in (contents (hm_msg m)) v"
  shows "append_header e (m\<lparr>hm_msg := b\<rparr>) i v = receive_header b (append_header e m i v)"
  using assms
  by (simp add: append_header_def Let_def more_bytes split: prod.split option.split)

lemma add_header_receive:
  assumes "contents b = contents (hm_msg m) @ late" and "span_in (contents (hm_msg m)) token"
    and "span_in (contents (hm_msg m)) v"
  shows "add_header e (m\<lparr>hm_msg := b\<rparr>) token v = receive_header b (add_header e m token v)"
proof -
  have soap: "(m\<lparr>hm_msg := b\<rparr>)\<lparr>hm_method := x\<rparr> = (m\<lparr>hm_method := x\<rparr>)\<lparr>hm_msg := b\<rparr>" for x by (cases m) simp
  have idx: "map_str_to_int (span_rest (contents b) token) (sp_len token) t k c =
      map_str_to_int (span_rest (contents (hm_msg m)) token) (sp_len token) t k c" for t k c
    using assms by (simp add: more_bytes)
  have tx: "span_text (contents b) token = span_text (contents (hm_msg m)) token"
    using assms by (simp add: more_bytes)
  have new: "new_header e ((m\<lparr>hm_method := x\<rparr>)\<lparr>hm_msg := b\<rparr>) k token v =
      receive_header b (new_header e (m\<lparr>hm_method := x\<rparr>) k token v)" for x k
    by (rule new_header_receive) (use assms in simp_all)
  have app: "append_header e ((m\<lparr>hm_method := x\<rparr>)\<lparr>hm_msg := b\<rparr>) i v =
      receive_header b (append_header e (m\<lparr>hm_method := x\<rparr>) i v)" for x i
    by (rule append_header_receive) (use assms in simp_all)
  show ?thesis
    using new_header_receive [OF assms] append_header_receive [OF assms(1,3)] new app
    unfolding add_header_def Let_def
    by (simp add: idx tx soap split: option.split)
qed

text \<open>One round on the longer message, and the loop.\<close>

lemma header_round_receive:
  assumes wf: "wf_parser p" and more: "extends b late p" and r: "header_round env e p = Some (r, e1, p1)"
  shows "if r = Some PARSE_INCOMPLETE then e1 = e \<and> p1 = p
         else header_round env e (receive b p) = Some (r, e1, receive b p1)"
proof -
  let ?sc = "parser_scanner p"
  note wfm = wf [unfolded wf_parser_def, THEN conjunct1]
  note ok = parser_scanner_ok [OF wf]
  note sg = scanner_receive [OF more]
  from ok(1) show ?thesis
  proof (cases rule: scanner_get_token_safe)
    case (err st)
    then show ?thesis
      using r scanner_get_token_stable [OF err(1) _ ok(2), of late] sg by (auto simp: header_round_def)
  next
    case (tok sc t ty)
    have nl: "\<not> sc_loaded sc" using tok(2) ok(2) by (simp add: within_def)
    have tg: "scanner_get_token (grow late ?sc) = Some (grow late sc, Inr (t, ty))"
      by (rule scanner_get_token_stable [OF tok(1) _ ok(2)]) simp
    show ?thesis
    proof (cases "ty = TT_IDENTIFIER")
      case False
      then show ?thesis using r tok(1) tg sg by (auto simp: header_round_def)
    next
      case True
      obtain st sc1 vs where m: "vfmatch env sc '' : %R%c'' = Some (st, sc1, vs)" "args_in (sc_msg sc) vs"
        using vfmatch_safe [OF header_fmt(2), of sc env] within_at_ok [OF tok(2)] by blast
      have mg: "vfmatch env (grow late sc) '' : %R%c'' = Some (st, grow late sc1, vs)" if "st \<noteq> PARSE_INCOMPLETE"
        by (rule vfmatch_stable [OF header_fmt(1) within_at_ok [OF tok(2)] nl m(1) that])
      show ?thesis
      proof (cases "st = PARSE_OK")
        case False
        then show ?thesis using True r tok(1) tg m(1) mg sg
          by (cases "st = PARSE_INCOMPLETE") (auto simp: header_round_def match_fmt_def)
      next
        case st: True
        have "map is_str vs = [True]"
          using vfmatch_kinds [OF header_fmt(2) within_at_ok [OF tok(2)]] m(1) st header_fmt(3) by simp
        then obtain v where vs: "vs = [StrArg v]" by (auto simp: is_str_iff)
        have msg: "sc_msg sc = contents (hm_msg (p_msg p))" using tok(2) by (simp add: within_def parser_scanner_def)
        have spans: "span_in (contents (hm_msg (p_msg p))) t" "span_in (contents (hm_msg (p_msg p))) v"
          using tok(3) m(2) vs msg by (simp_all add: parser_scanner_def)
        have add: "add_header e ((p_msg p)\<lparr>hm_msg := b\<rparr>) t v = receive_header b (add_header e (p_msg p) t v)"
          by (rule add_header_receive [OF more [unfolded extends_def] spans])
        show ?thesis
          using True st r tok(1) tg m(1) mg vs add sg
          by (cases "add_header e (p_msg p) t v")
            (auto simp: header_round_def match_fmt_def Let_def split: if_splits)
      qed
    qed
  qed
qed

text \<open>
  A function of the parser carries over to the longer message: a result other than
  \<open>PARSE_INCOMPLETE\<close> is the same there, and after \<open>PARSE_INCOMPLETE\<close> a second call gives what one
  call gives.
\<close>

definition carries ::
  "membuffer \<Rightarrow> (alloc_env \<Rightarrow> http_parser \<Rightarrow> (parse_status \<times> alloc_env \<times> http_parser) option) \<Rightarrow>
     alloc_env \<Rightarrow> http_parser \<Rightarrow> parse_status \<Rightarrow> alloc_env \<Rightarrow> http_parser \<Rightarrow> bool" where
  "carries b g e p st e1 p1 \<longleftrightarrow>
     (if st = PARSE_INCOMPLETE then p_position p1 = p_position p \<and> g e1 (receive b p1) = g e (receive b p)
      else g e (receive b p) = Some (st, e1, receive b p1))"

lemma carries_same: "st \<noteq> PARSE_INCOMPLETE \<Longrightarrow> g e (receive b p) = Some (st, e1, receive b p1) \<Longrightarrow>
    carries b g e p st e1 p1"
  by (simp add: carries_def)

lemma carries_again: "p_position p1 = p_position p \<Longrightarrow> g e1 (receive b p1) = g e (receive b p) \<Longrightarrow>
    carries b g e p PARSE_INCOMPLETE e1 p1"
  by (simp add: carries_def)

lemma header_frame_msg: "header_frame p p' \<Longrightarrow> hm_msg (p_msg p') = hm_msg (p_msg p)"
  by (auto simp: header_frame_def dest: same_but_headers_msg)

lemma headers_loop_receive:
  assumes "wf_parser p" and "extends b late p" and "headers_loop env e p = Some (st, e1, p1)"
  shows "carries b (headers_loop env) e p st e1 p1"
  using assms
proof (induction "mb_length (hm_msg (p_msg p)) - p_cursor p" arbitrary: e p rule: less_induct)
  case less
  from header_round_ok [OF less.prems(1), of env e] obtain r e2 p2 where
    r: "header_round env e p = Some (r, e2, p2)" "header_frame p p2"
      "r = None \<longrightarrow> p_cursor p < p_cursor p2 \<and> p_position p2 = p_position p" by blast
  note g = header_round_receive [OF less.prems(1,2) r(1)]
  show ?case
  proof (cases r)
    case (Some st')
    then have st: "st' = st" "e2 = e1" "p2 = p1"
      using less.prems(3) r(1) by (simp_all add: headers_loop.simps [of env e p])
    show ?thesis
    proof (cases "st = PARSE_INCOMPLETE")
      case True
      then show ?thesis using g Some st by (simp add: carries_def)
    next
      case False
      then show ?thesis using g Some st
        by (intro carries_same) (simp_all add: headers_loop.simps [of env e "receive b p"])
    qed
  next
    case None
    have wf2: "wf_parser p2" by (rule header_frame_wf [OF less.prems(1) r(2)])
    have msg: "hm_msg (p_msg p2) = hm_msg (p_msg p)" by (rule header_frame_msg [OF r(2)])
    have ext: "extends b late p2" using less.prems(2) extends_cong [OF msg] by simp
    have "mb_length (hm_msg (p_msg p2)) - p_cursor p2 < mb_length (hm_msg (p_msg p)) - p_cursor p"
      using r(3) None msg wf_parserD(5) [OF wf2] by (simp add: diff_less_mono2)
    moreover have "headers_loop env e2 p2 = Some (st, e1, p1)"
      using less.prems(3) r(1) None by (simp add: headers_loop.simps [of env e p])
    ultimately have "carries b (headers_loop env) e2 p2 st e1 p1"
      using less.hyps wf2 ext by blast
    moreover have "headers_loop env e (receive b p) = headers_loop env e2 (receive b p2)"
      using g None by (simp add: headers_loop.simps [of env e "receive b p"])
    ultimately show ?thesis using r(3) None by (simp add: carries_def)
  qed
qed


section \<open>Request and response lines\<close>

lemma token_loop_resume:
  assumes "token_loop body sc s = Some (sc', s', Inl PARSE_INCOMPLETE)" and "\<not> sc_loaded sc"
  shows "token_loop body (grow late sc') s' = token_loop body (grow late sc) s"
  using assms
proof (induction body sc s rule: token_loop.induct)
  case (1 body sc s)
  show ?case
  proof (cases "scanner_get_token sc")
    case None
    then show ?thesis using 1(2) by (simp add: token_loop.simps [of body sc s])
  next
    case (Some r)
    obtain sc1 res where r: "scanner_get_token sc = Some (sc1, res)" using Some by (cases r) simp
    show ?thesis
    proof (cases res)
      case (Inl st)
      then show ?thesis using 1(2) r scanner_get_token_error [of sc sc1 st]
        by (simp add: token_loop.simps [of body sc s])
    next
      case (Inr q)
      obtain t ty where q: "res = Inr (t, ty)" using Inr by (cases q) simp
      have nl: "\<not> sc_loaded sc1" using scanner_get_token_Some [of sc sc1 t ty] r q 1(3) by simp
      have g: "scanner_get_token (grow late sc) = Some (grow late sc1, Inr (t, ty))"
        by (rule scanner_get_token_stable [OF r [unfolded q] _ 1(3)]) simp
      obtain s2 where b: "body s t ty = Some s2" and rest: "token_loop body sc1 s2 = Some (sc', s', Inl PARSE_INCOMPLETE)"
        using 1(2) r q by (auto simp: token_loop.simps [of body sc s] split: option.splits)
      have "token_loop body (grow late sc') s' = token_loop body (grow late sc1) s2"
        using 1(1) [OF _ _ _ _ _ rest nl] r q b by simp
      then show ?thesis using g b by (simp add: token_loop.simps [of body "grow late sc" s])
    qed
  qed
qed

lemma skip_blank_lines_resume:
  assumes "skip_blank_lines sc = Some (PARSE_INCOMPLETE, sc')" and "\<not> sc_loaded sc"
  shows "skip_blank_lines (grow late sc') = skip_blank_lines (grow late sc)"
proof -
  from assms(1) obtain sc1 r where t: "token_loop blank_body sc () = Some (sc1, (), r)"
    by (auto simp: skip_blank_lines_def)
  then have "token_loop blank_body sc () = Some (sc', (), Inl PARSE_INCOMPLETE)"
    using assms(1) by (cases r) (auto simp: skip_blank_lines_def)
  from token_loop_resume [OF this assms(2)] show ?thesis by (simp add: skip_blank_lines_def)
qed

text \<open>The token that ended a loop is read again from where it was pushed back.\<close>

lemma token_loop_end:
  assumes "token_loop body sc s = Some (sc', s', Inr t)"
  shows "\<exists>ty. scanner_get_token (push_back t sc') = Some (sc', Inr (t, ty)) \<and> body s' t ty = None"
  using assms
proof (induction body sc s rule: token_loop.induct)
  case (1 body sc s)
  from 1(2) obtain sc1 res where r: "scanner_get_token sc = Some (sc1, res)"
    by (auto simp: token_loop.simps [of body sc s] split: option.splits)
  obtain t1 ty where q: "res = Inr (t1, ty)" using 1(2) r
    by (cases res) (auto simp: token_loop.simps [of body sc s])
  show ?case
  proof (cases "body s t1 ty")
    case None
    have "push_back t1 sc1 = sc"
      using scanner_get_token_Some [of sc sc1 t1 ty] r q by (cases sc; cases sc1) simp
    then show ?thesis using None 1(2) r q by (simp add: token_loop.simps [of body sc s])
  next
    case (Some s2)
    have "token_loop body sc1 s2 = Some (sc', s', Inr t)"
      using 1(2) r q Some by (simp add: token_loop.simps [of body sc s])
    from 1(1) [OF _ _ _ _ _ this] r q Some show ?thesis by simp
  qed
qed

lemma skip_blank_lines_idem:
  assumes "skip_blank_lines sc = Some (PARSE_OK, sc')" and "at_ok sc"
  shows "skip_blank_lines sc' = Some (PARSE_OK, sc')"
proof -
  from assms(1) obtain sc1 r where l: "token_loop blank_body sc () = Some (sc1, (), r)"
    by (auto simp: skip_blank_lines_def)
  have "r \<noteq> Inl PARSE_OK"
    by (rule token_loop_safe [where I = "\<lambda>_ _. True" and body = blank_body and sc = sc and s = "()"])
      (use l assms(2) in auto)
  then obtain t where t: "r = Inr t" "sc' = push_back t sc1"
    using assms l by (cases r) (auto simp: skip_blank_lines_def)
  from token_loop_end [of blank_body sc "()" sc1 "()" t] l t(1) obtain ty where
    "scanner_get_token sc' = Some (sc1, Inr (t, ty))" "blank_body () t ty = None" unfolding t(2) by auto
  then have "token_loop blank_body sc' () = Some (sc1, (), Inr t)" by (simp add: token_loop.simps [of _ sc'])
  then show ?thesis by (simp add: skip_blank_lines_def t(2))
qed

lemma msg_updates [simp]:
  "(m\<lparr>hm_msg := b\<rparr>)\<lparr>hm_urlbuf := u\<rparr> = (m\<lparr>hm_urlbuf := u\<rparr>)\<lparr>hm_msg := b\<rparr>"
  "(m\<lparr>hm_msg := b\<rparr>)\<lparr>hm_uri := v\<rparr> = (m\<lparr>hm_uri := v\<rparr>)\<lparr>hm_msg := b\<rparr>"
  "(m\<lparr>hm_msg := b\<rparr>)\<lparr>hm_method := w\<rparr> = (m\<lparr>hm_method := w\<rparr>)\<lparr>hm_msg := b\<rparr>"
  "(m\<lparr>hm_msg := b\<rparr>)\<lparr>hm_major_version := i\<rparr> = (m\<lparr>hm_major_version := i\<rparr>)\<lparr>hm_msg := b\<rparr>"
  "(m\<lparr>hm_msg := b\<rparr>)\<lparr>hm_minor_version := j\<rparr> = (m\<lparr>hm_minor_version := j\<rparr>)\<lparr>hm_msg := b\<rparr>"
  "(m\<lparr>hm_msg := b\<rparr>)\<lparr>hm_status_code := k\<rparr> = (m\<lparr>hm_status_code := k\<rparr>)\<lparr>hm_msg := b\<rparr>"
  "(m\<lparr>hm_msg := b\<rparr>)\<lparr>hm_status_msg := x\<rparr> = (m\<lparr>hm_status_msg := x\<rparr>)\<lparr>hm_msg := b\<rparr>"
  "(m\<lparr>hm_msg := b\<rparr>)\<lparr>hm_entity_buf := y\<rparr> = (m\<lparr>hm_entity_buf := y\<rparr>)\<lparr>hm_msg := b\<rparr>"
  "(m\<lparr>hm_msg := b\<rparr>)\<lparr>hm_entity_length := z\<rparr> = (m\<lparr>hm_entity_length := z\<rparr>)\<lparr>hm_msg := b\<rparr>"
  "(m\<lparr>hm_msg := b\<rparr>)\<lparr>hm_headers := hs\<rparr> = (m\<lparr>hm_headers := hs\<rparr>)\<lparr>hm_msg := b\<rparr>"
  by (cases m; simp)+

lemma store_url_receive:
  assumes "extends b late p" and "span_in (contents (hm_msg (p_msg p))) url"
  shows "store_url env e (receive b p) url = receive_result b (store_url env e p url)"
  using assms
  by (simp add: store_url_def extends_def Let_def more_bytes split: prod.split option.split sum.split)

lemma simple_request_receive:
  assumes "extends b late p" and "span_in (contents (hm_msg (p_msg p))) mt"
    and "span_in (contents (hm_msg (p_msg p))) url"
  shows "simple_request env e (receive b p) mt url = receive_result b (simple_request env e p mt url)"
proof -
  let ?q = "upd_msg (\<lambda>m. m\<lparr>hm_method := HTTPMETHOD_SIMPLEGET\<rparr>) p"
  have "store_url env e (receive b ?q) url = receive_result b (store_url env e ?q url)"
    by (rule store_url_receive [of b late]) (use assms in \<open>simp_all add: extends_def\<close>)
  then show ?thesis using assms
    by (simp add: simple_request_def extends_def Let_def more_bytes split: prod.split option.split)
qed

lemma full_request_receive:
  assumes wf: "wf_parser p" and "extends b late p" and "span_in (contents (hm_msg (p_msg p))) mt"
    and "span_in (contents (hm_msg (p_msg p))) url" and "span_in (contents (hm_msg (p_msg p))) v"
  shows "full_request env e (receive b p) mt url v = receive_result b (full_request env e p mt url v)"
proof -
  from store_url_ok [OF wf assms(4), of env e] obtain r e1 p1 where
    s: "store_url env e p url = Some (r, e1, p1)" "hm_msg (p_msg p1) = hm_msg (p_msg p)" by blast
  then show ?thesis using assms store_url_receive [OF assms(2,4), of env e]
    by (cases r) (simp_all add: full_request_def extends_def Let_def more_bytes)
qed

lemma skip_blank_lines_stableD:
  assumes "skip_blank_lines sc = Some (st, sc')" and "st \<noteq> PARSE_INCOMPLETE" and "at_ok sc" and "\<not> sc_loaded sc"
  shows "skip_blank_lines (grow late sc) = Some (st, grow late sc')"
  using stableD [OF skip_blank_lines_stable, of sc st sc' "()" late] assms by simp

text \<open>
  The two formats of a request line have their first five characters in common. When the shorter
  form runs out of bytes the longer one cannot be complete: the rest of its first token is missing.
\<close>

lemma format_prefix:
  "\<exists>r. \<forall>f. vfmatch_loop env (''%s'' @ TAB # ''%S'' @ f) True sc [] =
     (case r of None \<Rightarrow> None | Some (st, sc', vs) \<Rightarrow>
        if st = PARSE_OK then vfmatch_loop env f True sc' vs else Some (st, sc', vs))"
proof (cases "match_directive env (CHR ''s'') True sc")
  case None
  then show ?thesis by (intro exI [of _ None]) simp
next
  case (Some r)
  obtain st cs sc1 vs where r: "match_directive env (CHR ''s'') True sc = Some (st, cs, sc1, vs)"
    using Some by (cases r) simp
  have cs: "cs = True" using r by (auto simp: match_directive_def)
  show ?thesis
  proof (cases "st = PARSE_OK")
    case False
    then show ?thesis using r by (intro exI [of _ "Some (st, sc1, vs)"]) simp
  next
    case True
    show ?thesis
    proof (cases "match_literal TAB True sc1")
      case None
      then show ?thesis using r cs True by (intro exI [of _ None]) simp
    next
      case (Some l)
      obtain st2 sc2 where l: "match_literal TAB True sc1 = Some (st2, sc2)" using Some by (cases l) simp
      show ?thesis
      proof (cases "st2 = PARSE_OK")
        case False
        then show ?thesis using r cs True l by (intro exI [of _ "Some (st2, sc2, vs)"]) simp
      next
        case st2: True
        show ?thesis
        proof (cases "match_directive env (CHR ''S'') True sc2")
          case None
          then show ?thesis using r cs True l st2 by (intro exI [of _ None]) simp
        next
          case (Some q)
          obtain st3 cs3 sc3 vs3 where q: "match_directive env (CHR ''S'') True sc2 = Some (st3, cs3, sc3, vs3)"
            using Some by (cases q) simp
          have "cs3 = True" using q by (auto simp: match_directive_def)
          then show ?thesis using r cs True l st2 q by (intro exI [of _ "Some (st3, sc3, vs @ vs3)"]) simp
        qed
      qed
    qed
  qed
qed

lemma next_token_incomplete_ident:
  assumes "next_token False (c # cs) = Inl PARSE_INCOMPLETE" and "is_identifier_char c"
  shows "list_all is_identifier_char (c # cs)"
proof -
  have "List.length (takeWhile is_identifier_char cs) = List.length cs"
    using assms by (auto simp: next_token_def Let_def run_length_def split: if_splits)
  then have "takeWhile is_identifier_char cs = cs" by (metis takeWhile_eq_take take_all_iff order_refl)
  then have "list_all is_identifier_char cs" unfolding list_all_iff by (metis set_takeWhileD)
  then show ?thesis using assms(2) by simp
qed

lemma list_all_drop: "list_all P xs \<Longrightarrow> list_all P (drop n xs)"
  by (auto simp: list_all_iff dest: in_set_dropD)

lemma ident_incomplete: "list_all is_identifier_char s \<Longrightarrow> next_token False s = Inl PARSE_INCOMPLETE"
  by (cases s) (simp_all add: next_token_def Let_def run_length_def list_all_iff takeWhile_eq_all_conv [THEN iffD2])

lemma h_is_ident: "tolower c = CHR ''h'' \<Longrightarrow> is_identifier_char c"
proof -
  assume h: "tolower c = CHR ''h''"
  have "c = CHR ''h'' \<or> c = CHR ''H''"
  proof (cases "isupper c")
    case True
    then have "(of_char (char_of (code c + 32) :: char) :: nat) = 104" using h by (simp add: tolower_def)
    then have "code c = 72" using True by (simp add: isupper_def of_char_of)
    then have "code c = code (CHR ''H'')" by simp
    then show ?thesis by (metis char_of_char)
  qed (use h in \<open>simp add: tolower_def\<close>)
  then show "is_identifier_char c"
    by (elim disjE) (simp_all add: is_identifier_char_def is_separator_char_def strchr_found_def schar_def)
qed

text \<open>A literal that matches without regard to case.\<close>

lemma match_char_nocase:
  assumes "match_char sc c False = (PARSE_OK, sc')"
  shows "sc_cursor sc < List.length (sc_msg sc) \<and> tolower c = tolower (sc_msg sc ! sc_cursor sc) \<and>
         sc' = sc\<lparr>sc_cursor := Suc (sc_cursor sc)\<rparr>"
  using assms by (auto simp: match_char_def Let_def split: if_splits)

lemma literal_http:
  assumes "vfmatch_loop env (''http'' @ f) False sc vs = Some (PARSE_OK, sc', vs')" and "f = CHR ''%'' # f'"
  shows "sc_cursor sc < List.length (sc_msg sc) \<and> tolower (sc_msg sc ! sc_cursor sc) = CHR ''h'' \<and>
         sc_cursor sc + 4 \<le> List.length (sc_msg sc) \<and>
         vfmatch_loop env f False (sc\<lparr>sc_cursor := sc_cursor sc + 4\<rparr>) vs = Some (PARSE_OK, sc', vs')"
proof -
  have lit: "match_literal c False sc = Some (match_char sc c False)" if "c \<noteq> CHR '' ''" "c \<noteq> TAB" for c sc
    using that by (simp add: match_literal_def)
  have low: "tolower (CHR ''h'') = CHR ''h''" by (simp add: tolower_def isupper_def)
  have step: "\<exists>sc2. match_char sc c False = (PARSE_OK, sc2) \<and> vfmatch_loop env (d # g) False sc2 vs = Some (PARSE_OK, sc', vs')"
    if "vfmatch_loop env (c # d # g) False sc vs = Some (PARSE_OK, sc', vs')" "c \<noteq> CHR ''%''" "c \<noteq> CHR '' ''"
      "c \<noteq> TAB" for c d g sc
    using that by (cases "match_char sc c False") (auto simp: lit split: if_splits)
  obtain sc1 where 1: "match_char sc (CHR ''h'') False = (PARSE_OK, sc1)"
    "vfmatch_loop env (''ttp'' @ f) False sc1 vs = Some (PARSE_OK, sc', vs')"
    using step [of "CHR ''h''" "CHR ''t''" "''tp'' @ f"] assms by auto
  obtain sc2 where 2: "match_char sc1 (CHR ''t'') False = (PARSE_OK, sc2)"
    "vfmatch_loop env (''tp'' @ f) False sc2 vs = Some (PARSE_OK, sc', vs')"
    using step [of "CHR ''t''" "CHR ''t''" "''p'' @ f"] 1(2) by auto
  obtain sc3 where 3: "match_char sc2 (CHR ''t'') False = (PARSE_OK, sc3)"
    "vfmatch_loop env (''p'' @ f) False sc3 vs = Some (PARSE_OK, sc', vs')"
    using step [of "CHR ''t''" "CHR ''p''" f] 2(2) by auto
  obtain sc4 where 4: "match_char sc3 (CHR ''p'') False = (PARSE_OK, sc4)"
    "vfmatch_loop env f False sc4 vs = Some (PARSE_OK, sc', vs')"
    using step [of "CHR ''p''" "CHR ''%''" f'] 3(2) assms(2) by auto
  have four: "sc_cursor sc + 4 = Suc (Suc (Suc (Suc (sc_cursor sc))))" by simp
  show ?thesis unfolding four
    using match_char_nocase [OF 1(1)] match_char_nocase [OF 2(1)] match_char_nocase [OF 3(1)]
      match_char_nocase [OF 4(1)] 4(2) low by auto
qed

lemma version_missing:
  assumes inc: "scanner_get_token sc = Some (sc0, Inl PARSE_INCOMPLETE)" and nl: "\<not> sc_loaded sc"
    and ok: "vfmatch_loop env ''http%w/%w%L%c'' False sc vs = Some (PARSE_OK, sc', vs')"
  shows False
proof -
  let ?k = "sc_cursor sc" and ?m = "sc_msg sc"
  from literal_http [of env "''%w/%w%L%c''" sc vs sc' vs' "''w/%w%L%c''"] ok have
    h: "?k < List.length ?m" "tolower (?m ! ?k) = CHR ''h''" "?k + 4 \<le> List.length ?m"
      "vfmatch_loop env ''%w/%w%L%c'' False (sc\<lparr>sc_cursor := ?k + 4\<rparr>) vs = Some (PARSE_OK, sc', vs')"
    by auto
  have d: "drop ?k ?m = (?m ! ?k) # drop (Suc ?k) ?m" using h(1) by (simp add: Cons_nth_drop_Suc)
  have "next_token False (drop ?k ?m) = Inl PARSE_INCOMPLETE"
    using inc nl by (auto simp: scanner_get_token_def split: if_splits sum.splits)
  then have "list_all is_identifier_char (drop ?k ?m)"
    using next_token_incomplete_ident h_is_ident [OF h(2)] unfolding d by blast
  then have "list_all is_identifier_char (drop 4 (drop ?k ?m))" by (rule list_all_drop)
  then have "next_token False (drop (?k + 4) ?m) = Inl PARSE_INCOMPLETE"
    using ident_incomplete by (simp add: add.commute)
  then have "scanner_get_token (sc\<lparr>sc_cursor := ?k + 4\<rparr>) =
      Some (sc\<lparr>sc_cursor := ?k + 4\<rparr>, Inl PARSE_INCOMPLETE)"
    using h(3) nl by (simp add: scanner_get_token_def)
  then show False using h(4) by (simp add: match_directive_def)
qed

lemma vfmatch_loop_within:
  assumes "fmt_of is_directive fmt" and "at_ok sc" and "vfmatch_loop env fmt cs sc [] = Some (st, sc', vs)"
  shows "within sc sc'"
  using vfmatch_loop_safe [OF assms(1,2), of "[]" env cs] assms(3) by auto

lemma short_form_incomplete:
  assumes m: "vfmatch env sc request_line_fmt0 = Some (PARSE_INCOMPLETE, sc1, vs1)"
    and ok: "vfmatch env sc request_line_fmt = Some (PARSE_OK, sc2, vs2)"
    and nl: "\<not> sc_loaded sc" and at: "at_ok sc"
  shows False
proof -
  obtain r where r: "\<And>f. vfmatch_loop env (''%s'' @ TAB # ''%S'' @ f) True sc [] =
     (case r of None \<Rightarrow> None | Some (st, sc', vs) \<Rightarrow>
        if st = PARSE_OK then vfmatch_loop env f True sc' vs else Some (st, sc', vs))"
    using format_prefix [of env sc] by blast
  have f0: "request_line_fmt0 = ''%s'' @ TAB # ''%S'' @ ''%w%c''" by (simp add: request_line_fmt0_def)
  have f1: "request_line_fmt = ''%s'' @ TAB # ''%S'' @ (TAB # ''%ihttp%w/%w%L%c'')"
    by (simp add: request_line_fmt_def)
  obtain a where a: "vfmatch_loop env (''%s'' @ TAB # ''%S'' @ ''%w%c'') True sc [] = Some (PARSE_INCOMPLETE, a, vs1)"
    using m unfolding vfmatch_def f0 by auto
  obtain c where c: "vfmatch_loop env (''%s'' @ TAB # ''%S'' @ (TAB # ''%ihttp%w/%w%L%c'')) True sc [] =
      Some (PARSE_OK, c, vs2)"
    using ok unfolding vfmatch_def f1 by auto
  obtain sc3 vs where p: "r = Some (PARSE_OK, sc3, vs)"
    using c unfolding r by (auto split: option.splits if_splits)
  have w: "vfmatch_loop env ''%w%c'' True sc3 vs = Some (PARSE_INCOMPLETE, a, vs1)" using a unfolding r p by simp
  have v: "vfmatch_loop env (TAB # ''%ihttp%w/%w%L%c'') True sc3 vs = Some (PARSE_OK, c, vs2)"
    using c unfolding r p by simp
  have "vfmatch_loop env (''%s'' @ TAB # ''%S'' @ []) True sc [] = Some (PARSE_OK, sc3, vs)"
    unfolding r p by simp
  from vfmatch_loop_within [OF _ at this] nl have nl3: "\<not> sc_loaded sc3" and at3: "at_ok sc3"
    by (auto simp: within_def is_directive_def)
  obtain sc4 t where t: "scanner_get_token sc3 = Some (sc4, Inr (t, TT_WHITESPACE))"
    using v
    by (rule_tac scanner_get_token_safe [OF at3])
      (auto simp: match_literal_def match_token_def split: option.splits sum.splits if_splits)
  have at4: "at_ok sc4" using scanner_get_token_Some [OF t] by simp
  have "vfmatch_loop env ''http%w/%w%L%c'' False sc4 vs = Some (PARSE_OK, c, vs2)"
  proof -
    have lit: "match_literal TAB True sc3 = Some (PARSE_OK, sc4)"
      using t by (simp add: match_literal_def match_token_def)
    have dir: "vfmatch_loop env (CHR ''%'' # CHR ''i'' # f) True sc4 vs = vfmatch_loop env f False sc4 vs" for f
      by (simp add: match_directive_def)
    show ?thesis
      using v lit vfmatch_loop.simps(3) [of env TAB "CHR ''%''" "''ihttp%w/%w%L%c''" True sc3 vs]
      by (simp add: dir del: vfmatch_loop.simps)
  qed
  moreover have "scanner_get_token sc4 = Some (a, Inl PARSE_INCOMPLETE)"
    using w t
    by (rule_tac scanner_get_token_safe [OF at4])
      (auto simp: match_directive_def match_token_def split: option.splits sum.splits if_splits)
  ultimately show False
    using version_missing nl3 scanner_get_token_Some [OF t] by blast
qed

text \<open>A format matched on the longer message.\<close>

lemma match_grow:
  assumes "match_fmt env sc fmt = Some (st, sc', vs)" and "st \<noteq> PARSE_INCOMPLETE"
    and "fmt_of stable_directive fmt" and "at_ok sc" and "\<not> sc_loaded sc"
  shows "match_fmt env (grow late sc) fmt = Some (st, grow late sc', vs)"
  using vfmatch_stable [OF assms(3,4,5)] assms(1,2) by (simp add: match_fmt_def)

lemma store_url_status: "store_url env e p url = Some (Some st, e1, p1) \<Longrightarrow> st = PARSE_FAILURE"
  by (auto simp: store_url_def Let_def split: option.splits sum.splits)

lemma simple_request_status:
  "simple_request env e p mt url = Some (st, e1, p1) \<Longrightarrow> st = PARSE_FAILURE \<or> st = PARSE_SUCCESS"
  by (auto simp: simple_request_def Let_def dest: store_url_status split: option.splits if_splits)

lemma full_request_status:
  "full_request env e p mt url v = Some (st, e1, p1) \<Longrightarrow> st = PARSE_FAILURE \<or> st = PARSE_OK"
  by (auto simp: full_request_def Let_def dest: store_url_status split: option.splits if_splits)

lemma requestline_receive:
  assumes wf: "wf_parser p" and pos: "p_position p = POS_REQUEST_LINE" and more: "extends b late p"
    and r: "parser_parse_requestline env e p = Some (st, e1, p1)" and st: "st = PARSE_OK \<or> st = PARSE_INCOMPLETE"
  shows "carries b (parser_parse_requestline env) e p st e1 p1"
proof -
  let ?sc = "parser_scanner p"
  note ok = parser_scanner_ok [OF wf]
  note sg = scanner_receive [OF more]
  obtain st0 sc where b: "skip_blank_lines ?sc = Some (st0, sc)" "within ?sc sc"
    using skip_blank_lines_ok [OF wf] by blast
  have sc: "at_ok sc" "\<not> sc_loaded sc" using within_at_ok [OF b(2)] b(2) ok by (auto simp: within_def)
  have psc: "parser_scanner (set_cursor sc p) = sc" by (rule scanner_of_set_cursor [OF b(2)])
  have ext: "extends b late (set_cursor sc p)" using more by (simp add: extends_def)
  have sg1: "parser_scanner (receive b (set_cursor sc p)) = grow late sc"
    using scanner_receive [OF ext] psc by simp
  show ?thesis
  proof (cases "st0 = PARSE_OK")
    case False
    then have eq: "st = st0" "e1 = e" "p1 = set_cursor sc p" using r b(1) pos
      by (simp_all add: parser_parse_requestline_def)
    show ?thesis
    proof (cases "st0 = PARSE_INCOMPLETE")
      case True
      have skip: "skip_blank_lines (grow late sc) = skip_blank_lines (grow late ?sc)"
        by (rule skip_blank_lines_resume [OF b(1) [unfolded True] ok(2)])
      have cur: "set_cursor x (receive b (set_cursor sc p)) = set_cursor x (receive b p)" for x by simp
      have "parser_parse_requestline env e (receive b (set_cursor sc p)) =
          parser_parse_requestline env e (receive b p)"
        unfolding parser_parse_requestline_def sg sg1 skip cur by simp
      then show ?thesis using eq True by (simp add: carries_def)
    next
      case False
      then show ?thesis
        using eq pos sg \<open>st0 \<noteq> PARSE_OK\<close> skip_blank_lines_stableD [OF b(1) False ok, of late]
        by (intro carries_same) (simp_all add: parser_parse_requestline_def)
    qed
  next
    case st0: True
    have bg: "skip_blank_lines (grow late ?sc) = Some (PARSE_OK, grow late sc)"
      "skip_blank_lines (grow late sc) = Some (PARSE_OK, grow late sc)"
      using skip_blank_lines_stableD [OF b(1) _ ok, of late]
        skip_blank_lines_stableD [OF skip_blank_lines_idem [OF b(1) [unfolded st0] ok(1)] _ sc, of late] st0 by simp_all
    from match_from_parser [OF wf b(2) request_fmts(1), of env] obtain st1 sc1 vs1 where
      m1: "match_fmt env sc request_line_fmt0 = Some (st1, sc1, vs1)" "within ?sc sc1"
        "args_in (contents (hm_msg (p_msg p))) vs1" "st1 \<noteq> PARSE_OK \<longrightarrow> sc1 = sc"
        "st1 = PARSE_OK \<longrightarrow> map is_str vs1 = [True, True]"
      using request_fmts(2) by auto
    note g1 = match_grow [OF m1(1) _ request_fmts(5) sc, of late]
    show ?thesis
    proof (cases "st1 = PARSE_OK")
      case ok1: True
      then obtain mt url where vs: "vs1 = [StrArg mt, StrArg url]" using m1(5) by (auto simp: is_str_iff)
      let ?q = "set_cursor sc1 (set_cursor sc p)"
      have spans: "span_in (contents (hm_msg (p_msg ?q))) mt" "span_in (contents (hm_msg (p_msg ?q))) url"
        using m1(3) vs by simp_all
      have extq: "extends b late ?q" using more by (simp add: extends_def)
      have run: "simple_request env e ?q mt url = Some (st, e1, p1)"
        using r b(1) st0 m1(1) ok1 vs pos by (simp add: parser_parse_requestline_def)
      have ne: "st \<noteq> PARSE_INCOMPLETE"
        using simple_request_status [OF run] by auto
      show ?thesis
        using simple_request_receive [OF extq spans, of env e] run g1 ok1 vs bg(1) sg pos ne
        by (intro carries_same) (simp_all add: parser_parse_requestline_def)
    next
      case nok: False
      then have sc1: "sc1 = sc" using m1(4) by simp
      from match_from_parser [OF wf b(2) request_fmts(3), of env] obtain st2 sc2 vs2 where
        m2: "match_fmt env sc request_line_fmt = Some (st2, sc2, vs2)" "within ?sc sc2"
          "args_in (contents (hm_msg (p_msg p))) vs2" "st2 \<noteq> PARSE_OK \<longrightarrow> sc2 = sc"
          "st2 = PARSE_OK \<longrightarrow> map is_str vs2 = [True, True, True]" "plain st2"
        using request_fmts(4) by auto
      note g2 = match_grow [OF m2(1) _ request_fmts(6) sc, of late]
      show ?thesis
      proof (cases "st2 = PARSE_OK")
        case False
        then have eq: "st = st2" "e1 = e" "p1 = set_cursor sc p" using r b(1) st0 m1(1) nok sc1 m2(1,4) pos
          by (simp_all add: parser_parse_requestline_def)
        show ?thesis
        proof (cases "st2 = PARSE_INCOMPLETE")
          case True
          then show ?thesis using eq bg pos sg sg1 by (simp add: carries_def parser_parse_requestline_def)
        next
          case False
          then show ?thesis using st eq \<open>st2 \<noteq> PARSE_OK\<close> by simp
        qed
      next
        case ok2: True
        then obtain mt url v where vs: "vs2 = [StrArg mt, StrArg url, StrArg v]"
          using m2(5) by (auto simp: is_str_iff)
        have st1: "st1 \<noteq> PARSE_INCOMPLETE"
          using short_form_incomplete [OF _ _ sc(2,1)] m1(1) m2(1) ok2 unfolding match_fmt_def by blast
        let ?q = "set_cursor sc2 (set_cursor sc p)"
        have spans: "span_in (contents (hm_msg (p_msg ?q))) mt" "span_in (contents (hm_msg (p_msg ?q))) url"
          "span_in (contents (hm_msg (p_msg ?q))) v"
          using m2(3) vs by simp_all
        have extq: "extends b late ?q" using more by (simp add: extends_def)
        have wfq: "wf_parser ?q" using set_cursor_wf [OF wf m2(2)] by simp
        have run: "full_request env e ?q mt url v = Some (st, e1, p1)"
          using r b(1) st0 m1(1) nok m2(1) ok2 vs pos sc1 by (simp add: parser_parse_requestline_def)
        have ne: "st \<noteq> PARSE_INCOMPLETE"
          using full_request_status [OF run] by auto
        show ?thesis
          using full_request_receive [OF wfq extq spans, of env e] run g1 [OF st1] nok g2 ok2 vs bg(1) sg pos ne sc1
          by (intro carries_same) (simp_all add: parser_parse_requestline_def)
      qed
    qed
  qed
qed

text \<open>Response lines: the three numbers and the blank after them lie before the line break.\<close>

lemma skip_number_more: "skip_number x = Some y \<Longrightarrow> y \<noteq> [] \<Longrightarrow> skip_number (x @ late) = Some (y @ late)"
proof -
  assume s: "skip_number x = Some y" and y: "y \<noteq> []"
  let ?d = "dropWhile (\<lambda>c. \<not> isdigit c) x"
  have d: "?d \<noteq> []" "y = dropWhile isdigit ?d" using s by (cases "?d"; simp add: skip_number_def)+
  then have "\<exists>c \<in> set x. isdigit c" by (metis dropWhile_eq_Nil_conv)
  then have front: "dropWhile (\<lambda>c. \<not> isdigit c) (x @ late) = ?d @ late" by (auto simp: dropWhile_append)
  have "\<not> (\<forall>c \<in> set ?d. isdigit c)" using y unfolding d(2) dropWhile_eq_Nil_conv .
  then have rear: "dropWhile isdigit (?d @ late) = y @ late"
    unfolding d(2) dropWhile_append [of isdigit] by (rule if_not_P)
  have "skip_number (x @ late) = Some (dropWhile isdigit (?d @ late))"
    unfolding skip_number_def front using d(1) by (simp split: list.split)
  then show ?thesis unfolding rear .
qed

lemma skip_number_Some_ne: "skip_number x = Some y \<Longrightarrow> x \<noteq> []"
  by (auto simp: skip_number_def)

lemma status_message_receive:
  assumes wf: "wf_parser p" and rest: "rest = s @ t" "s = k @ r" and sp: "List.length s \<le> sp_len line"
    and n: "sp_len line \<le> List.length rest" "sp_len line \<le> alloc_max" and t: "t \<noteq> []" "\<not> is_ws_char (hd t)"
  shows "status_message e (receive b p) line (List.length (rest @ late)) ((r @ t) @ late) =
         receive_result b (status_message e p line (List.length rest) (r @ t))"
proof -
  have dw: "dropWhile is_ws_char (r @ t) = dropWhile is_ws_char r @ t"
    "dropWhile is_ws_char ((r @ t) @ late) = (dropWhile is_ws_char r @ t) @ late"
    using dropWhile_append_stop [of t is_ws_char r] dropWhile_append_stop [of "t @ late" is_ws_char r] t by auto
  define r4 where "r4 = dropWhile is_ws_char r @ t"
  have "List.length (dropWhile is_ws_char r) \<le> List.length r" by (rule length_dropWhile_le)
  then have x: "List.length rest - List.length r4 \<le> sp_len line" "List.length r4 \<le> List.length rest"
    using rest sp by (simp_all add: r4_def)
  have len: "List.length (rest @ late) - List.length (r4 @ late) = List.length rest - List.length r4" by simp
  have "size_sub (sp_len line) (List.length rest - List.length r4) = sp_len line - (List.length rest - List.length r4)"
    by (rule size_sub_exact [OF x(1)]) (use n(2) in \<open>simp add: alloc_max_def\<close>)
  then have le: "size_sub (sp_len line) (List.length rest - List.length r4) \<le> List.length r4" using n(1) x by simp
  have c0: "cchar_at ((r @ t) @ late) 0 = cchar_at (r @ t) 0" using t by (cases r; cases t) (simp_all add: cchar_at_def)
  show ?thesis
    unfolding status_message_def Let_def dw c0 r4_def [symmetric] len
    by (simp add: assign_more [OF le] split: option.split prod.split)
qed

lemma status_line_receive:
  assumes wf: "wf_parser p" and more: "extends b late p" and sp: "span_in (contents (hm_msg (p_msg p))) line"
    and le: "line_end (contents (hm_msg (p_msg p))) line"
  shows "status_line e (receive b p) line = receive_result b (status_line e p line)"
proof -
  let ?m = "contents (hm_msg (p_msg p))"
  let ?s = "cstr (span_text ?m line)"
  obtain t where t: "span_rest ?m line = ?s @ t" "t \<noteq> []" "\<not> isdigit (hd t)" "\<not> is_ws_char (hd t)"
    using line_split [OF sp le] by blast
  have more': "contents b = ?m @ late" using more by (simp add: extends_def)
  have tx: "span_text (contents b) line = span_text ?m line" "span_rest (contents b) line = span_rest ?m line @ late"
    using more' sp by (simp_all add: more_bytes)
  define vs where "vs = sscanf_ints ''%d . %d %d'' ?s"
  define p1 where "p1 = upd_msg (\<lambda>m. m\<lparr>hm_major_version := stored vs 0 (hm_major_version (p_msg p)),
      hm_minor_version := stored vs 1 (hm_minor_version (p_msg p)),
      hm_status_code := stored vs 2 (hm_status_code (p_msg p))\<rparr>) p"
  have up: "upd_msg (\<lambda>m. m\<lparr>hm_major_version := x, hm_minor_version := y, hm_status_code := z\<rparr>) (receive b p) =
      receive b (upd_msg (\<lambda>m. m\<lparr>hm_major_version := x, hm_minor_version := y, hm_status_code := z\<rparr>) p)" for x y z
    by simp
  have wf1: "wf_parser p1" using wf by (simp add: p1_def wf_parser_def wf_msg_def)
  have len: "List.length ?s \<le> sp_len line"
    by (simp add: cstr_def span_text_def) (metis length_takeWhile_le length_take min.bounded_iff)
  have max: "sp_len line \<le> alloc_max" using span_len_max [of "p_msg p" line] sp wf by (simp add: wf_parser_def)
  have fields: "hm_major_version (p_msg (receive b p)) = hm_major_version (p_msg p)"
    "hm_minor_version (p_msg (receive b p)) = hm_minor_version (p_msg p)"
    "hm_status_code (p_msg (receive b p)) = hm_status_code (p_msg p)"
    "hm_msg (p_msg (receive b p)) = b" by simp_all
  show ?thesis
  proof (cases "List.length vs = 3")
    case False
    then show ?thesis unfolding status_line_def Let_def fields tx vs_def [symmetric] up p1_def [symmetric] by simp
  next
    case True
    from three_numbers [OF this [unfolded vs_def], of t] obtain r1 r2 r3 k r where
      r: "skip_number (span_rest ?m line) = Some r1" "skip_number r1 = Some r2" "skip_number r2 = Some r3"
        "?s = k @ r" "r3 = (if r = [] then dropWhile isdigit t else r @ t)"
      using t(1) by metis
    have r3: "r3 = r @ t" using r(5) t(2,3) by (cases t) auto
    have "skip_number (span_rest ?m line @ late) = Some (r1 @ late)" "skip_number (r1 @ late) = Some (r2 @ late)"
      "skip_number (r2 @ late) = Some (r3 @ late)"
      using skip_number_more r(1,2,3) skip_number_Some_ne [OF r(2)] skip_number_Some_ne [OF r(3)] r3 t(2) by auto
    then show ?thesis
      using status_message_receive [OF wf1 t(1) r(4) len span_rest_length [OF sp] max t(2,4), of e b late] r(1-3)
      unfolding status_line_def Let_def fields tx vs_def [symmetric] up p1_def [symmetric] r3
      by simp
  qed
qed

lemma status_line_status:
  "status_line e p line = Some (st, e1, p1) \<Longrightarrow> st = PARSE_FAILURE \<or> st = PARSE_OK"
  by (auto simp: status_line_def status_message_def Let_def split: option.splits bind_splits if_splits)

lemma responseline_receive:
  assumes wf: "wf_parser p" and pos: "p_position p = POS_RESPONSE_LINE" and more: "extends b late p"
    and r: "parser_parse_responseline env e p = Some (st, e1, p1)"
  shows "carries b (parser_parse_responseline env) e p st e1 p1"
proof -
  let ?sc = "parser_scanner p"
  note ok = parser_scanner_ok [OF wf]
  note sg = scanner_receive [OF more]
  obtain st0 sc where b: "skip_blank_lines ?sc = Some (st0, sc)" "within ?sc sc"
    using skip_blank_lines_ok [OF wf] by blast
  have sc: "at_ok sc" "\<not> sc_loaded sc" using within_at_ok [OF b(2)] b(2) ok by (auto simp: within_def)
  have psc: "parser_scanner (set_cursor sc p) = sc" by (rule scanner_of_set_cursor [OF b(2)])
  have ext: "extends b late (set_cursor sc p)" using more by (simp add: extends_def)
  have sg1: "parser_scanner (receive b (set_cursor sc p)) = grow late sc"
    using scanner_receive [OF ext] psc by simp
  have cur: "set_cursor x (receive b (set_cursor sc p)) = set_cursor x (receive b p)" for x by simp
  have again: "parser_parse_responseline env e (receive b (set_cursor sc p)) =
      parser_parse_responseline env e (receive b p)"
    if "skip_blank_lines (grow late sc) = skip_blank_lines (grow late ?sc)"
    unfolding parser_parse_responseline_def sg sg1 that cur by simp
  show ?thesis
  proof (cases "st0 = PARSE_OK")
    case False
    then have eq: "st = st0" "e1 = e" "p1 = set_cursor sc p" using r b(1) pos
      by (simp_all add: parser_parse_responseline_def)
    show ?thesis
    proof (cases "st0 = PARSE_INCOMPLETE")
      case True
      show ?thesis unfolding eq True
        by (simp add: carries_def again [OF skip_blank_lines_resume [OF b(1) [unfolded True] ok(2)]])
    next
      case False
      then show ?thesis
        using eq pos sg \<open>st0 \<noteq> PARSE_OK\<close> skip_blank_lines_stableD [OF b(1) False ok, of late]
        by (intro carries_same) (simp_all add: parser_parse_responseline_def)
    qed
  next
    case st0: True
    have bg: "skip_blank_lines (grow late ?sc) = Some (PARSE_OK, grow late sc)"
      "skip_blank_lines (grow late sc) = Some (PARSE_OK, grow late sc)"
      using skip_blank_lines_stableD [OF b(1) _ ok, of late]
        skip_blank_lines_stableD [OF skip_blank_lines_idem [OF b(1) [unfolded st0] ok(1)] _ sc, of late] st0 by simp_all
    from match_from_parser [OF wf b(2) response_fmt(2), of env] obtain st1 sc1 vs1 where
      m1: "match_fmt env sc ''%ihttp%w/%w%L%c'' = Some (st1, sc1, vs1)" "within ?sc sc1"
        "args_in (contents (hm_msg (p_msg p))) vs1" "st1 \<noteq> PARSE_OK \<longrightarrow> sc1 = sc"
        "st1 = PARSE_OK \<longrightarrow> map is_str vs1 = [True]"
      using response_fmt(3) by auto
    have stable: "fmt_of stable_directive ''%ihttp%w/%w%L%c''" by (simp add: is_directive_def)
    note g1 = match_grow [OF m1(1) _ stable sc, of late]
    show ?thesis
    proof (cases "st1 = PARSE_OK")
      case False
      then have eq: "st = st1" "e1 = e" "p1 = set_cursor sc p" using r b(1) st0 m1(1,4) pos
        by (simp_all add: parser_parse_responseline_def)
      show ?thesis
      proof (cases "st1 = PARSE_INCOMPLETE")
        case True
        show ?thesis unfolding eq True by (simp add: carries_def again bg)
      next
        case st1: False
        then show ?thesis using eq bg(1) pos sg g1 False m1(4)
          by (intro carries_same) (simp_all add: parser_parse_responseline_def)
      qed
    next
      case ok1: True
      then obtain line where vs: "vs1 = [StrArg line]" using m1(5) by (auto simp: is_str_iff)
      let ?q = "set_cursor sc1 (set_cursor sc p)"
      have sp: "span_in (contents (hm_msg (p_msg ?q))) line" using m1(3) vs by simp
      have le: "line_end (contents (hm_msg (p_msg ?q))) line"
        using vfmatch_line [OF response_fmt(1) within_at_ok [OF b(2)], of env st1 sc1 vs1] m1(1) vs b(2)
        by (simp add: match_fmt_def within_def parser_scanner_def)
      have extq: "extends b late ?q" using more by (simp add: extends_def)
      have wfq: "wf_parser ?q" using set_cursor_wf [OF wf m1(2)] by simp
      have run: "status_line e ?q line = Some (st, e1, p1)"
        using r b(1) st0 m1(1) ok1 vs pos by (simp add: parser_parse_responseline_def)
      have ne: "st \<noteq> PARSE_INCOMPLETE" using status_line_status [OF run] by auto
      show ?thesis
        using status_line_receive [OF wfq extq sp le, of e] run g1 ok1 vs bg(1) sg pos ne
        by (intro carries_same) (simp_all add: parser_parse_responseline_def)
    qed
  qed
qed


section \<open>Entities\<close>

definition chunked :: "http_parser \<Rightarrow> bool" where
  "chunked p \<longleftrightarrow> p_ent_position p \<in> {ENTREAD_USING_CHUNKED, ENTREAD_CHUNKY_BODY, ENTREAD_CHUNKY_HEADERS}"

lemma chunked_coding_receive:
  "chunked_coding (m\<lparr>hm_msg := b\<rparr>) = map_option (\<lambda>(c, m). (c, m\<lparr>hm_msg := b\<rparr>)) (chunked_coding m)"
proof (cases "httpmsg_find_hdr m HDR_TRANSFER_ENCODING")
  case (Some i)
  then show ?thesis
    by (cases "mb_buf (h_value (header_at m i))")
      (auto simp: chunked_coding_def Let_def option.map_comp o_def intro!: option.map_cong)
qed (simp add: chunked_coding_def)

lemma read_method_receive:
  "parser_get_entity_read_method (receive b p) =
     map_option (\<lambda>(st, p). (st, receive b p)) (parser_get_entity_read_method p)"
  by (auto simp: parser_get_entity_read_method_def Let_def chunked_coding_receive split: option.splits)

lemma using_clen_receive:
  assumes "parser_parse_entity_using_clen p = Some (PARSE_INCOMPLETE, p1)"
  shows "p_position p1 = p_position p \<and>
         parser_parse_entity_using_clen (receive b p1) = parser_parse_entity_using_clen (receive b p)"
proof -
  obtain len where p1: "p1 = upd_msg (\<lambda>m. m\<lparr>hm_entity_length := len\<rparr>) p"
    using assms by (auto simp: parser_parse_entity_using_clen_def Let_def split: if_splits bind_splits)
  show ?thesis unfolding p1 by (simp add: parser_parse_entity_using_clen_def Let_def)
qed

lemma entity_round_receive:
  assumes "\<not> chunked p" and "entity_round env e p = Some (st, e1, p1)"
    and "st = PARSE_CONTINUE_1 \<or> st = PARSE_INCOMPLETE"
  shows "carries b (entity_round env) e p st e1 p1 \<and> p_position p1 = p_position p"
proof (cases "p_ent_position p")
  case ENTREAD_DETERMINE_READ_METHOD
  then have r: "parser_get_entity_read_method p = Some (st, p1)" "e1 = e"
    using assms(2) by (auto simp: entity_round_def keep_env_def)
  have "st \<noteq> PARSE_INCOMPLETE"
    using r(1) by (auto simp: parser_get_entity_read_method_def Let_def split: option.splits if_splits)
  moreover have "p_position p1 = p_position p"
    using r(1) assms(3) by (auto simp: parser_get_entity_read_method_def Let_def split: option.splits if_splits)
  ultimately show ?thesis using r ENTREAD_DETERMINE_READ_METHOD
    by (simp add: carries_def entity_round_def keep_env_def read_method_receive)
next
  case ENTREAD_USING_CLEN
  then have r: "parser_parse_entity_using_clen p = Some (st, p1)" "e1 = e"
    using assms(2) by (auto simp: entity_round_def keep_env_def)
  then have st: "st = PARSE_INCOMPLETE" "p_ent_position p1 = ENTREAD_USING_CLEN"
    using assms(3) ENTREAD_USING_CLEN
    by (auto simp: parser_parse_entity_using_clen_def Let_def split: if_splits bind_splits)
  then show ?thesis using using_clen_receive [of p p1 b] r ENTREAD_USING_CLEN
    by (simp add: carries_def entity_round_def)
next
  case ENTREAD_UNTIL_CLOSE
  then show ?thesis using assms(2,3)
    by (auto simp: entity_round_def keep_env_def parser_parse_entity_until_close_def Let_def)
qed (use assms(1) in \<open>simp_all add: chunked_def\<close>)

text \<open>Reading headers does not change how the entity is read, and once chunks are read, they are read to the end.\<close>

lemma header_round_ent:
  assumes "header_round env e p = Some (st, e', p')"
  shows "p_ent_position p' = p_ent_position p"
proof -
  obtain sc r where t: "scanner_get_token (parser_scanner p) = Some (sc, r)"
    using assms by (auto simp: header_round_def split: option.split_asm)
  show ?thesis
  proof (cases r)
    case (Inl s)
    then show ?thesis using assms t by (simp add: header_round_def)
  next
    case (Inr tt)
    obtain token ty where tt: "tt = (token, ty)" by (cases tt)
    show ?thesis
    proof (cases "ty = TT_CRLF \<or> ty \<noteq> TT_IDENTIFIER")
      case True
      then show ?thesis using assms t Inr tt by (auto simp: header_round_def split: if_split_asm)
    next
      case False
      obtain st1 sc1 vs where m: "match_fmt env sc '' : %R%c'' = Some (st1, sc1, vs)"
        using assms t Inr tt False by (auto simp: header_round_def split: option.split_asm)
      show ?thesis using assms t Inr tt False m
        by (auto simp: header_round_def Let_def split: if_split_asm list.split_asm arg.split_asm option.split_asm)
    qed
  qed
qed

lemma headers_loop_ent:
  assumes "headers_loop env e p = Some y"
  shows "p_ent_position (snd (snd y)) = p_ent_position p"
proof (rule headers_loop.raw_induct [where P = "\<lambda>env e p y. p_ent_position (snd (snd y)) = p_ent_position p", OF _ assms])
  fix f env e p y
  assume ih: "\<And>env e p y. f env e p = Some y \<Longrightarrow> p_ent_position (snd (snd y)) = p_ent_position p"
    and body: "Option.bind (header_round env e p) (\<lambda>(st, e1, p1). case st of Some st \<Rightarrow> Some (st, e1, p1) | None \<Rightarrow> f env e1 p1) = Some y"
  obtain st e1 p1 where r: "header_round env e p = Some (st, e1, p1)" using body by (auto simp: bind_eq_Some_conv)
  show "p_ent_position (snd (snd y)) = p_ent_position p"
    using header_round_ent [OF r] ih [of env e1 p1 y] body r by (cases st) auto
qed

lemma entity_round_chunked:
  assumes "chunked p" and r: "entity_round env e p = Some (st, e1, p1)"
  shows "chunked p1"
proof (cases "p_ent_position p")
  case ENTREAD_USING_CHUNKED
  then have c: "parser_parse_chunky_entity env e p = Some (st, e1, p1)" using r by (simp add: entity_round_def)
  obtain st2 sc vs where m: "match_fmt env (parser_scanner p) ''%x%L%c'' = Some (st2, sc, vs)"
    using c ENTREAD_USING_CHUNKED by (auto simp: parser_parse_chunky_entity_def split: option.splits)
  define q where "q = p\<lparr>p_chunk_size := (case vs of IntArg v # _ \<Rightarrow> store_chunk_size (p_chunk_size p) v
                                              | _ \<Rightarrow> p_chunk_size p)\<rparr>"
  have pos: "p_ent_position q = ENTREAD_USING_CHUNKED" using ENTREAD_USING_CHUNKED by (simp add: q_def)
  have c': "(if st2 \<noteq> PARSE_OK then Some (st2, e, q) else
      map_option (\<lambda>(e1, p2). (PARSE_CONTINUE_1, e1,
                     if p_chunk_size p2 = 0 then
                       (upd_msg (\<lambda>m. m\<lparr>hm_entity_length :=
                          size_add (size_sub (p_cursor p) (p_entity_start_position p2)) (hm_amount_discarded m)\<rparr>) p2)
                         \<lparr>p_ent_position := ENTREAD_CHUNKY_HEADERS\<rparr>
                     else p2\<lparr>p_ent_position := ENTREAD_CHUNKY_BODY\<rparr>))
                  (delete_from_msg e q (p_cursor p) (sc_cursor sc - p_cursor p))) = Some (st, e1, p1)"
    using c ENTREAD_USING_CHUNKED
    unfolding parser_parse_chunky_entity_def Let_def m option.case prod.case q_def [symmetric] by simp
  show ?thesis
  proof (cases "st2 = PARSE_OK")
    case False
    then show ?thesis using c' pos by (simp add: chunked_def)
  next
    case True
    obtain e3 p3 where d: "delete_from_msg e q (p_cursor p) (sc_cursor sc - p_cursor p) = Some (e3, p3)"
      using c' True by (cases "delete_from_msg e q (p_cursor p) (sc_cursor sc - p_cursor p)") auto
    show ?thesis using c' True unfolding d by (cases "p_chunk_size p3 = 0") (auto simp: chunked_def)
  qed
next
  case ENTREAD_CHUNKY_BODY
  then show ?thesis using r
    by (auto simp: chunked_def entity_round_def parser_parse_chunky_body_def Let_def split: option.splits if_splits)
next
  case ENTREAD_CHUNKY_HEADERS
  then have c: "parser_parse_chunky_headers env e p = Some (st, e1, p1)" using r by (simp add: entity_round_def)
  obtain st2 e2 p2 where h: "parser_parse_headers env e p = Some (st2, e2, p2)"
    using c by (auto simp: parser_parse_chunky_headers_def split: option.split_asm)
  have p2: "p_ent_position p2 = ENTREAD_CHUNKY_HEADERS"
    using h headers_loop_ent [of env e p "(st2, e2, p2)"] ENTREAD_CHUNKY_HEADERS by (simp add: parser_parse_headers_def)
  show ?thesis
  proof (cases "st2 = PARSE_OK")
    case False
    then show ?thesis using c p2 unfolding parser_parse_chunky_headers_def h by (simp add: chunked_def)
  next
    case True
    obtain e3 p3 where d: "delete_from_msg e2 (p2\<lparr>p_position := POS_COMPLETE\<rparr>) (p_cursor p) (p_cursor p2 - p_cursor p) = Some (e3, p3)"
      using c True unfolding parser_parse_chunky_headers_def h
      by (cases "delete_from_msg e2 (p2\<lparr>p_position := POS_COMPLETE\<rparr>) (p_cursor p) (p_cursor p2 - p_cursor p)") auto
    have "p_ent_position p3 = ENTREAD_CHUNKY_HEADERS" using d p2 by auto
    then show ?thesis using c True unfolding parser_parse_chunky_headers_def h option.case prod.case d
      by (auto simp: chunked_def)
  qed
qed (use assms(1) in \<open>simp_all add: chunked_def\<close>)

lemma entity_loop_receive:
  assumes "wf_parser p" and "entity_loop env e p = Some (PARSE_INCOMPLETE, e1, p1)" and "\<not> chunked p1"
  shows "\<not> chunked p \<and> carries b (entity_loop env) e p PARSE_INCOMPLETE e1 p1"
  using assms
proof (induction "entity_rank e p" arbitrary: e p rule: less_induct)
  case less
  from entity_round_ok [OF less.prems(1), of env e] obtain st e2 p2 where
    r: "entity_round env e p = Some (st, e2, p2)" "wf_parser p2"
      "st = PARSE_CONTINUE_1 \<longrightarrow> entity_rank e2 p2 < entity_rank e p" by blast
  show ?case
  proof (cases "st = PARSE_CONTINUE_1")
    case False
    then have eq: "st = PARSE_INCOMPLETE" "e2 = e1" "p2 = p1"
      using less.prems(2) r(1) by (simp_all add: entity_loop.simps [of env e p])
    have nc: "\<not> chunked p" using entity_round_chunked [OF _ r(1)] less.prems(3) eq by auto
    from entity_round_receive [OF nc r(1), of b] eq have
      "p_position p1 = p_position p" "entity_round env e1 (receive b p1) = entity_round env e (receive b p)"
      by (simp_all add: carries_def)
    with nc show ?thesis
      by (simp add: carries_def entity_loop.simps [of env e "receive b p"] entity_loop.simps [of env e1 "receive b p1"])
  next
    case True
    have run: "entity_loop env e2 p2 = Some (PARSE_INCOMPLETE, e1, p1)"
      using less.prems(2) r(1) True by (simp add: entity_loop.simps [of env e p])
    have ch: "\<not> chunked p2" "carries b (entity_loop env) e2 p2 PARSE_INCOMPLETE e1 p1"
      using less.hyps r(2,3) True run less.prems(3) by blast+
    have nc: "\<not> chunked p" using entity_round_chunked [OF _ r(1)] True ch(1) by auto
    from entity_round_receive [OF nc r(1), of b] True have
      "p_position p2 = p_position p" "entity_loop env e (receive b p) = entity_loop env e2 (receive b p2)"
      by (simp_all add: carries_def entity_loop.simps [of env e "receive b p"])
    with ch(2) nc show ?thesis by (simp add: carries_def)
  qed
qed


section \<open>The whole parser\<close>

lemma store_url_msg:
  "store_url env e p url = Some (r, e1, p1) \<Longrightarrow> hm_msg (p_msg p1) = hm_msg (p_msg p)"
  by (auto simp: store_url_def Let_def split: option.splits sum.splits)

lemma full_request_msg:
  assumes "full_request env e p mt url v = Some (PARSE_OK, e1, p1)"
  shows "hm_msg (p_msg p1) = hm_msg (p_msg p)"
proof -
  obtain e2 p2 where s: "store_url env e p url = Some (None, e2, p2)"
    using assms by (auto simp: full_request_def dest: store_url_status split: option.splits)
  have "hm_msg (p_msg p1) = hm_msg (p_msg p2)"
    using assms s by (auto simp: full_request_def Let_def split: if_splits)
  then show ?thesis using store_url_msg [OF s] by simp
qed

lemma requestline_msg:
  assumes "parser_parse_requestline env e p = Some (PARSE_OK, e1, p1)"
  shows "hm_msg (p_msg p1) = hm_msg (p_msg p)"
proof -
  have simple: "simple_request env e q mt url \<noteq> Some (PARSE_OK, e1, p1)" for q mt url
    using simple_request_status [of env e q mt url PARSE_OK] by auto
  show ?thesis
    using assms simple
    by (auto simp: parser_parse_requestline_def Let_def dest!: full_request_msg
        split: if_splits option.splits list.splits arg.splits)
qed

lemma responseline_msg:
  "parser_parse_responseline env e p = Some (PARSE_OK, e1, p1) \<Longrightarrow> hm_msg (p_msg p1) = hm_msg (p_msg p)"
  by (auto simp: parser_parse_responseline_def status_line_def status_message_def Let_def
      split: if_splits option.splits list.splits arg.splits bind_splits)

lemma parse_round_receive:
  assumes wf: "wf_parser p" and more: "extends b late p" and r: "parse_round env e p = Some (st, e1, p1)"
    and st: "st = PARSE_OK \<or> st = PARSE_INCOMPLETE \<and> \<not> chunked p1"
  shows "carries b (parse_round env) e p st e1 p1 \<and> (st = PARSE_OK \<longrightarrow> hm_msg (p_msg p1) = hm_msg (p_msg p))"
proof (cases "p_position p")
  case POS_REQUEST_LINE
  then have q: "parser_parse_requestline env e p = Some (st, e1, p1)" using r by (simp add: parse_round_def)
  from requestline_receive [OF wf POS_REQUEST_LINE more q] st show ?thesis
    using POS_REQUEST_LINE requestline_msg q by (auto simp: carries_def parse_round_def split: if_splits)
next
  case POS_RESPONSE_LINE
  then have q: "parser_parse_responseline env e p = Some (st, e1, p1)" using r by (simp add: parse_round_def)
  from responseline_receive [OF wf POS_RESPONSE_LINE more q] show ?thesis
    using POS_RESPONSE_LINE responseline_msg q by (auto simp: carries_def parse_round_def split: if_splits)
next
  case POS_HEADERS
  then have q: "headers_loop env e p = Some (st, e1, p1)" using r by (simp add: parse_round_def parser_parse_headers_def)
  have "hm_msg (p_msg p1) = hm_msg (p_msg p)"
    using headers_loop_ok [OF wf, of env e] q header_frame_msg by auto
  with headers_loop_receive [OF wf more q] show ?thesis
    using POS_HEADERS by (auto simp: carries_def parse_round_def parser_parse_headers_def split: if_splits)
next
  case POS_ENTITY
  then have q: "entity_loop env e p = Some (st, e1, p1)" using r by (simp add: parse_round_def parser_parse_entity_def)
  then have "st \<noteq> PARSE_OK" using entity_loop_ok [OF wf, of env e] by auto
  then show ?thesis using entity_loop_receive [OF wf, of env e e1 p1 b] q st
    using POS_ENTITY by (auto simp: carries_def parse_round_def parser_parse_entity_def)
next
  case POS_COMPLETE
  then show ?thesis using r by (simp add: parse_round_def)
qed

lemma parser_parse_receive:
  assumes "wf_parser p" and "p_position p \<noteq> POS_COMPLETE" and "extends b late p"
    and "parser_parse env e p = Some (PARSE_INCOMPLETE, e1, p1)" and "\<not> chunked p1"
  shows "parser_parse env e1 (receive b p1) = parser_parse env e (receive b p)"
  using assms
proof (induction "position_rank (p_position p)" arbitrary: e p rule: less_induct)
  case less
  from parse_round_ok [OF less.prems(1,2), of env e] obtain st e2 p2 where
    r: "parse_round env e p = Some (st, e2, p2)" "wf_parser p2"
      "st = PARSE_OK \<longrightarrow> p_position p2 \<noteq> POS_COMPLETE \<and>
         position_rank (p_position p2) < position_rank (p_position p)" by blast
  show ?case
  proof (cases "st = PARSE_OK")
    case True
    have run: "parser_parse env e2 p2 = Some (PARSE_INCOMPLETE, e1, p1)"
      using less.prems(4) r(1) True by (simp add: parser_parse.simps [of env e p])
    from parse_round_receive [OF less.prems(1,3) r(1)] True have
      g: "parse_round env e (receive b p) = Some (PARSE_OK, e2, receive b p2)"
      and msg: "hm_msg (p_msg p2) = hm_msg (p_msg p)" by (simp_all add: carries_def)
    have "extends b late p2" using less.prems(3) extends_cong [OF msg] by simp
    then have "parser_parse env e1 (receive b p1) = parser_parse env e2 (receive b p2)"
      using less.hyps r(2,3) True run less.prems(5) by blast
    then show ?thesis using g by (simp add: parser_parse.simps [of env e "receive b p"])
  next
    case False
    then have eq: "st = PARSE_INCOMPLETE" "e2 = e1" "p2 = p1"
      using less.prems(4) r(1) by (simp_all add: parser_parse.simps [of env e p])
    with parse_round_receive [OF less.prems(1,3) r(1)] less.prems(5) have
      "parse_round env e1 (receive b p1) = parse_round env e (receive b p)" by (simp add: carries_def)
    then show ?thesis
      by (simp add: parser_parse.simps [of env e "receive b p"] parser_parse.simps [of env e1 "receive b p1"])
  qed
qed


section \<open>Property\<close>

text \<open>
  C29. A message may arrive in any pieces: when \<open>parser_parse\<close> has reported
  \<open>PARSE_INCOMPLETE\<close> on the bytes so far, outside a chunked entity, then calling it again when any
  more bytes have been appended to the message buffer gives the same status, message and error
  code as one call on all the bytes: no request or status line, header or Content-Length entity is
  read differently because of where it was split, and no header is added twice.
\<close>

theorem split_message_resumes:
  assumes "wf_parser p" and "p_position p \<noteq> POS_COMPLETE"
    and "contents b = contents (hm_msg (p_msg p)) @ late"
    and "parser_parse env e p = Some (PARSE_INCOMPLETE, e1, p1)" and "\<not> chunked p1"
  shows "parser_parse env e1 (receive b p1) = parser_parse env e (receive b p)"
  by (rule parser_parse_receive [OF assms(1,2) _ assms(4,5)]) (simp add: extends_def assms(3))

definition half_request :: http_parser where
  "half_request =
     receive \<lparr>mb_buf = Some ([TOKCHAR_CR, TOKCHAR_LF] @ ''NOTIFY /a HT'' @ [NUL]), mb_length = 14,
              mb_capacity = 14, mb_size_inc = 5\<rparr>
       parser_request_init"

lemma half_request_ok: "wf_parser half_request" "p_position half_request = POS_REQUEST_LINE" "\<not> chunked half_request"
  by (simp_all add: half_request_def wf_parser_def wf_msg_def wf_membuffer_def room_def parser_request_init_def
      parser_init_def httpmsg_init_def zero_message_def membuffer_init_def membuffer_initialize_def q_empty_def
      alloc_max_def MEMBUF_DEF_SIZE_INC_def chunked_def)

lemma half_request_runs:
  "parser_parse sample_net sample_env half_request = Some (PARSE_INCOMPLETE, sample_env, half_request\<lparr>p_cursor := 2\<rparr>)"
proof -
  let ?sc = "parser_scanner half_request"
  let ?sc' = "?sc\<lparr>sc_cursor := 2\<rparr>"
  let ?vs = "[StrArg \<lparr>sp_off = 2, sp_len = 6\<rparr>, StrArg \<lparr>sp_off = 9, sp_len = 2\<rparr>]"
  have "skip_blank_lines ?sc = Some (PARSE_OK, ?sc')" by code_simp
  moreover have "match_fmt sample_net ?sc' request_line_fmt0 = Some (PARSE_INCOMPLETE, ?sc', ?vs)" by code_simp
  moreover have "match_fmt sample_net ?sc' request_line_fmt = Some (PARSE_INCOMPLETE, ?sc', ?vs)" by code_simp
  ultimately show ?thesis
    by (simp add: parser_parse.simps [of sample_net sample_env half_request] parse_round_def half_request_ok
        parser_parse_requestline_def)
qed

definition whole_request :: membuffer where
  "whole_request =
     \<lparr>mb_buf = Some ([TOKCHAR_CR, TOKCHAR_LF] @ ''NOTIFY /a HTTP/1.1'' @ [NUL]), mb_length = 20,
      mb_capacity = 20, mb_size_inc = 5\<rparr>"

theorem split_message_resumes_witness:
  "parser_parse sample_net sample_env (receive whole_request (half_request\<lparr>p_cursor := 2\<rparr>)) =
     parser_parse sample_net sample_env (receive whole_request half_request)"
proof (rule split_message_resumes [OF half_request_ok(1) _ _ half_request_runs])
  show "p_position half_request \<noteq> POS_COMPLETE" by (simp add: half_request_ok)
  show "contents whole_request = contents (hm_msg (p_msg half_request)) @ ''TP/1.1''"
    by (simp add: whole_request_def half_request_def contents_def bytes_def)
  show "\<not> chunked (half_request\<lparr>p_cursor := 2\<rparr>)" using half_request_ok(3) by (simp add: chunked_def)
qed

end
