(* ===== verification/HttpChunks.thy ===== *)
theory HttpChunks
  imports HttpEntityProps
begin

text \<open>
  Chunked entities: an encoder, and the proof that the parser decodes what it writes, for every way
  of cutting the data into chunks and of writing their sizes.
\<close>

section \<open>The encoding\<close>

definition CRLF :: string where
  "CRLF = [TOKCHAR_CR, TOKCHAR_LF]"

text \<open>\<open>h\<close> writes the size \<open>n\<close>: hexadecimal digits in either case, with any leading zeros.\<close>

definition is_size :: "string \<Rightarrow> nat \<Rightarrow> bool" where
  "is_size h n \<longleftrightarrow> h \<noteq> [] \<and> list_all isxdigit h \<and> num_value 16 h = n"

definition encode_chunk :: "string \<times> string \<Rightarrow> string" where
  "encode_chunk c = fst c @ CRLF @ snd c @ CRLF"

definition good_chunk :: "string \<times> string \<Rightarrow> bool" where
  "good_chunk c \<longleftrightarrow> is_size (fst c) (List.length (snd c)) \<and> snd c \<noteq> []"


section \<open>Reading a size line\<close>

lemma xdigit_ident:
  assumes "isxdigit c"
  shows "is_identifier_char c" "\<not> isspace c" "c \<noteq> CHR ''-''" "c \<noteq> CHR ''+''" "tolower c \<noteq> CHR ''x''"
proof -
  have s: "schar c = int (code c)" "code c < 128"
    using assms by (auto simp: isxdigit_def isdigit_def schar_def)
  show "\<not> isspace c" "c \<noteq> CHR ''-''" "c \<noteq> CHR ''+''"
    using assms by (auto simp: isxdigit_def isdigit_def isspace_def)
  show "is_identifier_char c"
    using assms s(1)
    by (auto simp: isxdigit_def isdigit_def is_identifier_char_def is_separator_char_def strchr_found_def)
  have "code (tolower c) \<noteq> 120"
    using assms by (auto simp: isxdigit_def isdigit_def tolower_def isupper_def)
  then show "tolower c \<noteq> CHR ''x''" by auto
qed

lemma strtol_size:
  assumes "is_size h n" and "n < 2 ^ 31"
  shows "strtol 16 h = (int n, List.length h, False)"
proof -
  obtain c cs where h: "h = c # cs" "isxdigit c" "list_all isxdigit cs"
    using assms(1) by (cases h) (auto simp: is_size_def)
  note c = xdigit_ident [OF h(2)]
  have "tolower (cchar_at h 1) \<noteq> CHR ''x''"
    using h(1,3) xdigit_ident(5) by (cases cs) (auto simp: cchar_at_def tolower_def isupper_def)
  then have p: "hex_prefix 16 h = 0" by (simp add: hex_prefix_def)
  have ds: "takeWhile (digit_of 16) h = h"
    using h by (simp add: digit_of_def list_all_iff takeWhile_eq_all_conv [THEN iffD2])
  have n: "num_value 16 h = n" "h \<noteq> []" using assms(1) by (simp_all add: is_size_def)
  have "cchar_at h 0 = c" "takeWhile isspace h = []" using h(1) c(2) by (simp_all add: cchar_at_def)
  then show ?thesis using c(3,4) p n assms(2)
    by (simp add: strtol_def Let_def LONG_MAX_def ds del: takeWhile_eq_all_conv)
qed

lemma crlf_read:
  assumes "drop (sc_cursor sc) (sc_msg sc) = CRLF @ rest" and "at_ok sc"
  shows "scanner_get_token sc =
     Some (sc\<lparr>sc_cursor := sc_cursor sc + 2\<rparr>, Inr (\<lparr>sp_off = sc_cursor sc, sp_len = 2\<rparr>, TT_CRLF))"
  using assms
  by (simp add: scanner_get_token_def next_token_def CRLF_def is_identifier_char_def is_ws_char_def schar_def)

lemma size_token:
  assumes "is_size h n" and "drop (sc_cursor sc) (sc_msg sc) = h @ CRLF @ rest" and "at_ok sc"
  shows "scanner_get_token sc =
     Some (sc\<lparr>sc_cursor := sc_cursor sc + List.length h\<rparr>,
           Inr (\<lparr>sp_off = sc_cursor sc, sp_len = List.length h\<rparr>, TT_IDENTIFIER))"
proof -
  obtain c cs where h: "h = c # cs" "isxdigit c" "list_all isxdigit cs"
    using assms(1) by (cases h) (auto simp: is_size_def)
  have "takeWhile is_identifier_char (cs @ CRLF @ rest) = cs"
    using h(3) xdigit_ident(1)
    by (auto simp: list_all_iff CRLF_def is_identifier_char_def schar_def takeWhile_append2)
  then have "next_token (sc_loaded sc) (h @ CRLF @ rest) = Inr (List.length h, TT_IDENTIFIER)"
    using h(1) xdigit_ident(1) [OF h(2)] by (simp add: next_token_def Let_def run_length_def CRLF_def)
  then show ?thesis using assms(2,3) by (simp add: scanner_get_token_def)
qed

lemma size_line:
  assumes sz: "is_size h n" "n < 2 ^ 31" and d: "drop (sc_cursor sc) (sc_msg sc) = h @ CRLF @ rest"
    and ok: "at_ok sc"
  shows "\<exists>s. match_fmt env sc ''%x%L%c'' =
           Some (PARSE_OK, sc\<lparr>sc_cursor := sc_cursor sc + List.length h + 2\<rparr>, [IntArg (int n), StrArg s])"
proof -
  let ?k = "sc_cursor sc + List.length h"
  let ?sc1 = "sc\<lparr>sc_cursor := ?k\<rparr>"
  have d1: "drop ?k (sc_msg sc) = CRLF @ rest"
    using arg_cong [OF d, of "drop (List.length h)"] by (simp add: add.commute)
  have ok1: "at_ok ?sc1" using arg_cong [OF d, of List.length] ok by simp
  have c: "scanner_get_token ?sc1 = Some (?sc1\<lparr>sc_cursor := ?k + 2\<rparr>, Inr (\<lparr>sp_off = ?k, sp_len = 2\<rparr>, TT_CRLF))"
    using crlf_read [of ?sc1 rest] d1 ok1 by simp
  have hd: "list_all is_identifier_char h" "h \<noteq> []"
    using sz(1) xdigit_ident(1) by (auto simp: is_size_def list_all_iff)
  have "strtol 16 (h @ CRLF @ rest) = strtol 16 h"
    by (rule strtol_identifier [OF hd(2,1)]) (simp add: CRLF_def is_identifier_char_def schar_def)
  then have st: "strtol 16 (h @ CRLF @ rest) = (int n, List.length h, False)" using strtol_size [OF sz] by simp
  have x: "match_int sc 16 = Some (PARSE_OK, ?sc1, Some (int n))"
    using size_token [OF sz(1) d ok] st d sz(2)
    by (simp add: match_int_def Let_def span_rest_def bad_number_def c_int_def)
  have l: "token_loop line_body ?sc1 () = Some (?sc1\<lparr>sc_cursor := ?k + 2\<rparr>, (), Inr \<lparr>sp_off = ?k, sp_len = 2\<rparr>)"
    using c by (simp add: token_loop.simps [of line_body ?sc1] line_body_def)
  then have r: "read_until_crlf ?sc1 = Some (PARSE_OK, ?sc1, Some \<lparr>sp_off = ?k, sp_len = 0\<rparr>)"
    by (simp add: read_until_crlf_def scanner_get_str_def)
  show ?thesis
    using x r c by (simp add: match_fmt_def vfmatch_def match_directive_def match_token_def)
qed


section \<open>Reading chunks\<close>

text \<open>What reading an entity leaves alone.\<close>

definition same_entity :: "http_parser \<Rightarrow> http_parser \<Rightarrow> bool" where
  "same_entity p p' \<longleftrightarrow>
     p_entity_start_position p' = p_entity_start_position p \<and> hm_is_request (p_msg p') = hm_is_request (p_msg p) \<and>
     hm_method (p_msg p') = hm_method (p_msg p) \<and> p_position p' = p_position p"

lemma delete_exact:
  assumes wf: "wf_parser p" and n: "0 < n" and e: "oom e = []"
    and c: "contents (hm_msg (p_msg p)) = a @ x @ b" "List.length a = i" "List.length x = n"
  shows "\<exists>e' m. delete_from_msg e p i n = Some (e', upd_msg (\<lambda>m'. m'\<lparr>hm_msg := m\<rparr>) p) \<and> oom e' = [] \<and>
           contents m = a @ b \<and> wf_membuffer m"
proof -
  have "i + n \<le> mb_length (hm_msg (p_msg p))"
    using c length_contents [OF wf_parserD(2) [OF wf]] by simp
  from membuffer_delete_progress [OF wf_parserD(2) [OF wf] n this, of e] e obtain e' m where
    "membuffer_delete e (hm_msg (p_msg p)) i n = Some (e', m)" "oom e' = []" "wf_membuffer m"
    "contents m = take i (contents (hm_msg (p_msg p))) @ drop (i + n) (contents (hm_msg (p_msg p)))" by blast
  then show ?thesis using c by (intro exI [of _ e'] exI [of _ m]) simp
qed

lemma chunk_size_run:
  assumes wf: "wf_parser p" and ent: "p_ent_position p = ENTREAD_USING_CHUNKED" and e: "oom e = []"
    and sz: "is_size h n" "n < 2 ^ 31"
    and c: "contents (hm_msg (p_msg p)) = pre @ h @ CRLF @ rest" "List.length pre = p_cursor p"
  shows "\<exists>e' p'. parser_parse_chunky_entity env e p = Some (PARSE_CONTINUE_1, e', p') \<and> oom e' = [] \<and>
           contents (hm_msg (p_msg p')) = pre @ rest \<and> p_cursor p' = p_cursor p \<and> p_chunk_size p' = n \<and>
           p_ent_position p' = (if n = 0 then ENTREAD_CHUNKY_HEADERS else ENTREAD_CHUNKY_BODY) \<and>
           (n = 0 \<longrightarrow> hm_entity_length (p_msg p') = p_cursor p - p_entity_start_position p) \<and> same_entity p p'"
proof -
  let ?sc = "parser_scanner p"
  have d: "drop (sc_cursor ?sc) (sc_msg ?sc) = h @ CRLF @ rest" using c by (simp add: parser_scanner_def)
  from size_line [OF sz d parser_scanner_ok(1) [OF wf], of env] obtain sc s where
    m: "match_fmt env ?sc ''%x%L%c'' = Some (PARSE_OK, sc, [IntArg (int n), StrArg s])"
      "sc_cursor sc - p_cursor p = List.length h + 2"
    by (auto simp: at_scanner)
  define q where "q = p\<lparr>p_chunk_size := n\<rparr>"
  have st: "store_chunk_size (p_chunk_size p) (int n) = n"
    using store_chunk_size_small [OF wf_parserD(7) [OF wf]] sz(2) by simp
  have wfq: "wf_parser q" using wf sz(2) by (simp add: q_def wf_parser_def)
  have x: "contents (hm_msg (p_msg q)) = pre @ (h @ CRLF) @ rest" "List.length (h @ CRLF) = List.length h + 2"
    using c by (simp_all add: q_def CRLF_def)
  have two: "0 < List.length h + 2" by simp
  from delete_exact [OF wfq two e x(1) c(2) x(2)] obtain e' b where
    del: "delete_from_msg e q (p_cursor p) (List.length h + 2) = Some (e', upd_msg (\<lambda>m'. m'\<lparr>hm_msg := b\<rparr>) q)"
      "oom e' = []" "contents b = pre @ rest" by blast
  define p2 where "p2 = upd_msg (\<lambda>m'. m'\<lparr>hm_msg := b\<rparr>) q"
  have len: "size_add (size_sub (p_cursor p) (p_entity_start_position p)) 0 = p_cursor p - p_entity_start_position p"
    using wf_parserD(4,5,6) [OF wf] by (simp add: size_sub_exact size_add_def)
  have run: "parser_parse_chunky_entity env e p =
      Some (PARSE_CONTINUE_1, e',
        if p_chunk_size p2 = 0 then
          (upd_msg (\<lambda>m. m\<lparr>hm_entity_length :=
             size_add (size_sub (p_cursor p) (p_entity_start_position p2)) (hm_amount_discarded m)\<rparr>) p2)
            \<lparr>p_ent_position := ENTREAD_CHUNKY_HEADERS\<rparr>
        else p2\<lparr>p_ent_position := ENTREAD_CHUNKY_BODY\<rparr>)"
    unfolding parser_parse_chunky_entity_def Let_def m option.case prod.case list.case arg.case st q_def [symmetric]
      del(1) p2_def [symmetric]
    using ent by simp
  have p2: "p_chunk_size p2 = n" "p_cursor p2 = p_cursor p" "hm_msg (p_msg p2) = b"
    "p_entity_start_position p2 = p_entity_start_position p" "hm_amount_discarded (p_msg p2) = 0" "same_entity p p2"
    using wf_parserD(3) [OF wf] by (simp_all add: p2_def q_def same_entity_def)
  show ?thesis
    unfolding run using del(2,3) p2 len by (cases "n = 0") (simp_all add: same_entity_def)
qed

lemma chunk_body_run:
  assumes wf: "wf_parser p" and ent: "p_ent_position p = ENTREAD_CHUNKY_BODY" and e: "oom e = []"
    and c: "contents (hm_msg (p_msg p)) = pre @ d @ CRLF @ rest" "List.length pre = p_cursor p"
    and n: "p_chunk_size p = List.length d"
  shows "\<exists>e' p'. parser_parse_chunky_body env e p = Some (PARSE_CONTINUE_1, e', p') \<and> oom e' = [] \<and>
           contents (hm_msg (p_msg p')) = (pre @ d) @ rest \<and> p_cursor p' = List.length (pre @ d) \<and>
           p_ent_position p' = ENTREAD_USING_CHUNKED \<and> same_entity p p'"
proof -
  note D = wf_parserD [OF wf]
  have lm: "mb_length (hm_msg (p_msg p)) = List.length (pre @ d @ CRLF @ rest)"
    using c(1) length_contents [OF D(2)] by simp
  have sub: "size_sub (mb_length (hm_msg (p_msg p))) (p_cursor p) = mb_length (hm_msg (p_msg p)) - p_cursor p"
    by (rule size_sub_exact) (use D in auto)
  have add: "size_add (p_cursor p) (p_chunk_size p) = p_cursor p + p_chunk_size p"
    by (rule size_add_exact) (use D in auto)
  define q where "q = p_cursor p + p_chunk_size p"
  define p1 where "p1 = p\<lparr>p_cursor := q\<rparr>"
  have q: "q = List.length (pre @ d)" using c(2) n by (simp add: q_def)
  have wf1: "wf_parser p1" using wf lm q by (simp add: p1_def wf_parser_def q_def)
  let ?sc = "parser_scanner p1"
  have d: "drop (sc_cursor ?sc) (sc_msg ?sc) = CRLF @ rest" using c(1) q by (simp add: parser_scanner_def p1_def)
  have m: "match_fmt env ?sc ''%c'' = Some (PARSE_OK, ?sc\<lparr>sc_cursor := sc_cursor ?sc + 2\<rparr>, [])"
    using crlf_read [OF d parser_scanner_ok(1) [OF wf1]]
    by (simp add: match_fmt_def vfmatch_def match_directive_def match_token_def)
  have k: "sc_cursor (?sc\<lparr>sc_cursor := sc_cursor ?sc + 2\<rparr>) - q = 2" by (simp add: at_scanner p1_def)
  have x: "contents (hm_msg (p_msg p1)) = (pre @ d) @ CRLF @ rest" "List.length CRLF = 2" "List.length (pre @ d) = q"
    using c q by (simp_all add: p1_def CRLF_def)
  have two: "0 < (2 :: nat)" by simp
  from delete_exact [OF wf1 two e x(1,3,2)] obtain e' b where
    del: "delete_from_msg e p1 q 2 = Some (e', upd_msg (\<lambda>m'. m'\<lparr>hm_msg := b\<rparr>) p1)"
      "oom e' = []" "contents b = (pre @ d) @ rest" by blast
  define p2 where "p2 = upd_msg (\<lambda>m'. m'\<lparr>hm_msg := b\<rparr>) p1"
  have "\<not> mb_length (hm_msg (p_msg p)) - p_cursor p < p_chunk_size p" using lm n c(2) by simp
  then have run: "parser_parse_chunky_body env e p = Some (PARSE_CONTINUE_1, e',
      (upd_msg (\<lambda>m. m\<lparr>hm_entity_length := size_add (hm_entity_length m) (p_chunk_size p)\<rparr>) p2)
        \<lparr>p_cursor := q, p_ent_position := ENTREAD_USING_CHUNKED\<rparr>)"
    unfolding parser_parse_chunky_body_def Let_def sub add q_def [symmetric] p1_def [symmetric] m
      option.case prod.case k del(1) p2_def [symmetric]
    by simp
  have p2: "hm_msg (p_msg p2) = b" "same_entity p p2" by (simp_all add: p2_def p1_def same_entity_def)
  show ?thesis unfolding run using del(2,3) p2 q by (simp add: same_entity_def)
qed

lemma last_headers_run:
  assumes wf: "wf_parser p" and ent: "p_ent_position p = ENTREAD_CHUNKY_HEADERS" and e: "oom e = []"
    and c: "contents (hm_msg (p_msg p)) = pre @ CRLF @ rest" "List.length pre = p_cursor p"
    and post: "\<not> (hm_is_request (p_msg p) \<and> hm_method (p_msg p) = HTTPMETHOD_POST)"
  shows "\<exists>e' p'. parser_parse_chunky_headers env e p = Some (PARSE_SUCCESS, e', p') \<and>
           contents (hm_msg (p_msg p')) = pre @ rest \<and> p_position p' = POS_COMPLETE \<and>
           hm_entity_buf (p_msg p') = Some (p_entity_start_position p) \<and>
           hm_entity_length (p_msg p') = hm_entity_length (p_msg p)"
proof -
  let ?sc = "parser_scanner p"
  have d: "drop (sc_cursor ?sc) (sc_msg ?sc) = CRLF @ rest" using c by (simp add: parser_scanner_def)
  define p1 where "p1 = p\<lparr>p_cursor := p_cursor p + 2, p_position := POS_ENTITY\<rparr>"
  have "header_round env e p = Some (Some PARSE_OK, e, p1)"
    using crlf_read [OF d parser_scanner_ok(1) [OF wf]] post
    by (auto simp: header_round_def p1_def at_scanner)
  then have h: "parser_parse_headers env e p = Some (PARSE_OK, e, p1)"
    using ent by (simp add: parser_parse_headers_def headers_loop.simps [of env e p])
  define q where "q = p1\<lparr>p_position := POS_COMPLETE\<rparr>"
  have lm: "p_cursor p + 2 \<le> mb_length (hm_msg (p_msg p))"
    using c length_contents [OF wf_parserD(2) [OF wf]] by (simp add: CRLF_def)
  have wfq: "wf_parser q" using wf lm by (simp add: q_def p1_def wf_parser_def)
  have x: "contents (hm_msg (p_msg q)) = pre @ CRLF @ rest" "List.length CRLF = 2" "0 < (2 :: nat)"
    using c by (simp_all add: q_def p1_def CRLF_def)
  from delete_exact [OF wfq x(3) e x(1) c(2) x(2)] obtain e' b where
    del: "delete_from_msg e q (p_cursor p) 2 = Some (e', upd_msg (\<lambda>m'. m'\<lparr>hm_msg := b\<rparr>) q)"
      "contents b = pre @ rest" by blast
  have two: "p_cursor p1 - p_cursor p = 2" by (simp add: p1_def)
  define p2 where "p2 = upd_msg (\<lambda>m'. m'\<lparr>hm_msg := b\<rparr>) q"
  have run: "parser_parse_chunky_headers env e p = Some (PARSE_SUCCESS, e',
      (upd_msg (\<lambda>m. m\<lparr>hm_entity_buf := Some (p_entity_start_position p2)\<rparr>) p2)\<lparr>p_cursor := p_cursor p\<rparr>)"
    unfolding parser_parse_chunky_headers_def h option.case prod.case q_def [symmetric] two del(1) p2_def [symmetric]
    by simp
  have "hm_msg (p_msg p2) = b" "p_position p2 = POS_COMPLETE" "p_entity_start_position p2 = p_entity_start_position p"
    "hm_entity_length (p_msg p2) = hm_entity_length (p_msg p)"
    by (simp_all add: p2_def q_def p1_def)
  then show ?thesis unfolding run using del(2) by simp
qed


section \<open>The round trip\<close>

lemma entity_loop_step:
  assumes "entity_round env e p = Some (PARSE_CONTINUE_1, e', p')"
  shows "entity_loop env e p = entity_loop env e' p'"
  using assms by (simp add: entity_loop.simps [of env e p])

lemma chunks_decode:
  assumes "wf_parser p" and "p_ent_position p = ENTREAD_USING_CHUNKED" and "oom e = []"
    and "contents (hm_msg (p_msg p)) = pre @ concat (map encode_chunk cs) @ z @ CRLF @ CRLF @ rest"
    and "List.length pre = p_cursor p" and "list_all good_chunk cs" and "is_size z 0"
    and "\<not> (hm_is_request (p_msg p) \<and> hm_method (p_msg p) = HTTPMETHOD_POST)"
  shows "\<exists>e' p'. entity_loop env e p = Some (PARSE_SUCCESS, e', p') \<and>
           contents (hm_msg (p_msg p')) = pre @ concat (map snd cs) @ rest \<and> p_position p' = POS_COMPLETE \<and>
           hm_entity_buf (p_msg p') = Some (p_entity_start_position p) \<and>
           hm_entity_length (p_msg p') =
             p_cursor p - p_entity_start_position p + List.length (concat (map snd cs))"
  using assms
proof (induction cs arbitrary: e p pre)
  case Nil
  note wf = Nil.prems(1)
  have c: "contents (hm_msg (p_msg p)) = pre @ z @ CRLF @ (CRLF @ rest)" using Nil.prems(4) by simp
  from chunk_size_run [OF wf Nil.prems(2,3,7) _ c Nil.prems(5), of env] obtain e1 p1 where
    r1: "parser_parse_chunky_entity env e p = Some (PARSE_CONTINUE_1, e1, p1)" "oom e1 = []"
      "contents (hm_msg (p_msg p1)) = pre @ CRLF @ rest" "p_cursor p1 = p_cursor p"
      "p_ent_position p1 = ENTREAD_CHUNKY_HEADERS"
      "hm_entity_length (p_msg p1) = p_cursor p - p_entity_start_position p" "same_entity p p1" by auto
  have wf1: "wf_parser p1" using chunky_entity_ok [OF wf Nil.prems(2), of env e] r1(1) by auto
  have post: "\<not> (hm_is_request (p_msg p1) \<and> hm_method (p_msg p1) = HTTPMETHOD_POST)"
    using Nil.prems(8) r1(7) by (simp add: same_entity_def)
  from last_headers_run [OF wf1 r1(5,2,3) _ post, of env] Nil.prems(5) r1(4) obtain e2 p2 where
    r2: "parser_parse_chunky_headers env e1 p1 = Some (PARSE_SUCCESS, e2, p2)"
      "contents (hm_msg (p_msg p2)) = pre @ rest" "p_position p2 = POS_COMPLETE"
      "hm_entity_buf (p_msg p2) = Some (p_entity_start_position p1)"
      "hm_entity_length (p_msg p2) = hm_entity_length (p_msg p1)" by auto
  have "entity_loop env e p = entity_loop env e1 p1"
    using r1(1) Nil.prems(2) by (intro entity_loop_step) (simp add: entity_round_def)
  also have "\<dots> = Some (PARSE_SUCCESS, e2, p2)"
    using r2(1) r1(5) by (simp add: entity_loop.simps [of env e1 p1] entity_round_def)
  finally show ?case using r2 r1(6,7) by (simp add: same_entity_def)
next
  case (Cons ck cs)
  note wf = Cons.prems(1)
  obtain h d where ck: "ck = (h, d)" by (cases ck)
  let ?tail = "concat (map encode_chunk cs) @ z @ CRLF @ CRLF @ rest"
  have sz: "is_size h (List.length d)" "d \<noteq> []" "list_all good_chunk cs"
    using Cons.prems(6) ck by (simp_all add: good_chunk_def [of "(h, d)"])
  have c: "contents (hm_msg (p_msg p)) = pre @ h @ CRLF @ (d @ CRLF @ ?tail)"
    using Cons.prems(4) ck by (simp add: encode_chunk_def [of "(h, d)"])
  have "List.length d < 2 ^ 31"
    using arg_cong [OF c, of List.length] wf_msg_lengths(1) [OF wf_parserD(1) [OF wf]] wf_parserD(4) [OF wf] by simp
  from chunk_size_run [OF wf Cons.prems(2,3) sz(1) this c Cons.prems(5), of env] sz(2) obtain e1 p1 where
    r1: "parser_parse_chunky_entity env e p = Some (PARSE_CONTINUE_1, e1, p1)" "oom e1 = []"
      "contents (hm_msg (p_msg p1)) = pre @ d @ CRLF @ ?tail" "p_cursor p1 = p_cursor p"
      "p_chunk_size p1 = List.length d" "p_ent_position p1 = ENTREAD_CHUNKY_BODY" "same_entity p p1" by auto
  have wf1: "wf_parser p1" using chunky_entity_ok [OF wf Cons.prems(2), of env e] r1(1) by auto
  have c1: "List.length pre = p_cursor p1" using Cons.prems(5) r1(4) by simp
  from chunk_body_run [OF wf1 r1(6,2,3) c1 r1(5), of env] obtain e2 p2 where
    r2: "parser_parse_chunky_body env e1 p1 = Some (PARSE_CONTINUE_1, e2, p2)" "oom e2 = []"
      "contents (hm_msg (p_msg p2)) = (pre @ d) @ ?tail" "p_cursor p2 = List.length (pre @ d)"
      "p_ent_position p2 = ENTREAD_USING_CHUNKED" "same_entity p1 p2" by blast
  have wf2: "wf_parser p2" using chunky_body_ok [OF wf1, of env e1] r2(1) by auto
  have post: "\<not> (hm_is_request (p_msg p2) \<and> hm_method (p_msg p2) = HTTPMETHOD_POST)"
    and st: "p_entity_start_position p2 = p_entity_start_position p"
    using Cons.prems(8) r1(7) r2(6) by (simp_all add: same_entity_def)
  have steps: "entity_loop env e p = entity_loop env e2 p2"
    using r1(1,6) r2(1) Cons.prems(2)
    by (simp add: entity_loop_step [of env e p e1 p1] entity_loop_step [of env e1 p1 e2 p2] entity_round_def)
  from Cons.IH [OF wf2 r2(5,2,3) r2(4) [symmetric] sz(3) Cons.prems(7) post] st
  show ?case
    unfolding steps using ck r2(4) Cons.prems(5) wf_parserD(6) [OF wf] by (simp add: add.assoc)
qed

text \<open>
  C30. Chunked coding is undone: when the message buffer holds, from the cursor on, the encoding of
  any non-empty pieces of data (each size written with any hexadecimal digits and leading zeros), a
  last chunk of size zero and the empty line, reading the entity succeeds, the buffer then holds the
  data without the framing, and the entity is exactly the data: nothing is lost, and what follows
  the message stays in the buffer behind it.
\<close>

theorem chunked_entity_decodes:
  assumes "wf_parser p" and "p_position p = POS_ENTITY" and "p_ent_position p = ENTREAD_USING_CHUNKED"
    and "oom e = []" and "List.length pre = p_cursor p" and "p_entity_start_position p = p_cursor p"
    and "contents (hm_msg (p_msg p)) = pre @ concat (map encode_chunk cs) @ z @ CRLF @ CRLF @ rest"
    and "list_all good_chunk cs" and "is_size z 0"
    and "\<not> (hm_is_request (p_msg p) \<and> hm_method (p_msg p) = HTTPMETHOD_POST)"
  shows "\<exists>e' p'. parser_parse_entity env e p = Some (PARSE_SUCCESS, e', p') \<and> p_position p' = POS_COMPLETE \<and>
           contents (hm_msg (p_msg p')) = pre @ concat (map snd cs) @ rest \<and>
           hm_entity_buf (p_msg p') = Some (List.length pre) \<and>
           hm_entity_length (p_msg p') = List.length (concat (map snd cs))"
  using chunks_decode [OF assms(1,3,4,7,5,8,9,10), of env] assms(2,5,6) by (auto simp: parser_parse_entity_def)

definition chunked_parser :: http_parser where
  "chunked_parser =
     upd_msg (\<lambda>m. m\<lparr>hm_msg := \<lparr>mb_buf = Some (''3'' @ CRLF @ ''abc'' @ CRLF @ ''01'' @ CRLF @ ''d'' @ CRLF @ ''0'' @ CRLF @ CRLF @ [NUL]),
                             mb_length = 20, mb_capacity = 20, mb_size_inc = 5\<rparr>\<rparr>)
       (parser_response_init HTTPMETHOD_GET)\<lparr>p_position := POS_ENTITY, p_ent_position := ENTREAD_USING_CHUNKED\<rparr>"

theorem chunked_entity_decodes_witness:
  "\<exists>e' p'. parser_parse_entity sample_net sample_env chunked_parser = Some (PARSE_SUCCESS, e', p') \<and>
     contents (hm_msg (p_msg p')) = ''abcd'' \<and> hm_entity_length (p_msg p') = 4"
proof -
  let ?cs = "[(''3'', ''abc''), (''01'', ''d'')]"
  have wf: "wf_parser chunked_parser"
    by (simp add: chunked_parser_def CRLF_def wf_parser_def wf_msg_def wf_membuffer_def room_def
        parser_response_init_def parser_init_def httpmsg_init_def zero_message_def membuffer_init_def
        membuffer_initialize_def q_empty_def alloc_max_def MEMBUF_DEF_SIZE_INC_def)
  have st: "p_position chunked_parser = POS_ENTITY" "p_ent_position chunked_parser = ENTREAD_USING_CHUNKED"
    "List.length [] = p_cursor chunked_parser" "p_entity_start_position chunked_parser = p_cursor chunked_parser"
    "\<not> (hm_is_request (p_msg chunked_parser) \<and> hm_method (p_msg chunked_parser) = HTTPMETHOD_POST)"
    "oom sample_env = []"
    by (simp_all add: chunked_parser_def parser_response_init_def parser_init_def sample_env_def)
  have c: "contents (hm_msg (p_msg chunked_parser)) = [] @ concat (map encode_chunk ?cs) @ ''0'' @ CRLF @ CRLF @ []"
    by (simp add: chunked_parser_def contents_def bytes_def encode_chunk_def CRLF_def)
  have sz: "is_size ''3'' 3" "is_size ''01'' 1" "is_size ''0'' 0"
    by (simp_all add: is_size_def isxdigit_def isdigit_def num_value_def hex_value_def)
  then have good: "list_all good_chunk ?cs" by (simp add: good_chunk_def eval_nat_numeral)
  from chunked_entity_decodes [OF wf st(1,2,6,3,4) c good sz(3) st(5), of sample_net]
  show ?thesis by auto
qed

end
