(* ===== verification/Socket.thy ===== *)
theory Socket
  imports Prelude
begin

text \<open>
  Sockets, \<open>upnp/src/genlib/net/sock.c\<close>.

  What the operating system will answer about one connection is a script, \<open>sock_env\<close>: the results of
  \<open>select\<close>, of \<open>recv\<close> (a packet of bytes of which one call takes at most as many as it asks for, an
  empty one at the end of the stream, or an error), of \<open>send\<close> (how many bytes it will take, or an
  error), of \<open>time\<close>, and of closing. \<open>se_out\<close> is what has been sent and \<open>se_waits\<close> the timeouts the
  calls have waited with, \<open>None\<close> for as long as it takes. A call that finds its script used up
  is \<open>None\<close>: it blocks.
\<close>

abbreviation (input) UPNP_E_TIMEDOUT :: int where "UPNP_E_TIMEDOUT \<equiv> -207"
abbreviation (input) UPNP_E_SOCKET_ERROR :: int where "UPNP_E_SOCKET_ERROR \<equiv> -208"
abbreviation (input) INVALID_SOCKET :: int where "INVALID_SOCKET \<equiv> -1"

datatype select_result = SelectReady | SelectTimeout | SelectInterrupted | SelectError

record sock_env =
  se_select :: "select_result list"
  se_recv :: "string option list"
  se_send :: "nat option list"
  se_time :: "int list"
  se_close :: "bool list"
  se_out :: string
  se_waits :: "int option list"

record sockinfo =
  si_socket :: int
  si_foreign_sockaddr :: string

definition sock_init :: "int \<Rightarrow> int \<times> sockinfo" where
  "sock_init sockfd = (0, \<lparr>si_socket = sockfd, si_foreign_sockaddr = replicate 128 NUL\<rparr>)"

definition sock_init_with_ip :: "int \<Rightarrow> string \<Rightarrow> int \<times> sockinfo" where
  "sock_init_with_ip sockfd foreign_sockaddr =
     (let (ret, info) = sock_init sockfd
      in if ret \<noteq> 0 then (ret, info) else (0, info\<lparr>si_foreign_sockaddr := foreign_sockaddr\<rparr>))"

text \<open>The failure of \<open>shutdown\<close> is only reported on the debug output.\<close>

definition sock_destroy :: "sock_env \<Rightarrow> sockinfo \<Rightarrow> (int \<times> sock_env \<times> sockinfo) option" where
  "sock_destroy w info =
     (if si_socket info \<noteq> INVALID_SOCKET then
        (case se_close w of
           [] \<Rightarrow> None
         | closed # r \<Rightarrow>
             Some (if closed then 0 else UPNP_E_SOCKET_ERROR, w\<lparr>se_close := r\<rparr>, info\<lparr>si_socket := INVALID_SOCKET\<rparr>))
      else Some (0, w, info))"

section \<open>Reading and writing\<close>

fun next_time :: "sock_env \<Rightarrow> (int \<times> sock_env) option" where
  "next_time w = (case se_time w of [] \<Rightarrow> None | t # ts \<Rightarrow> Some (t, w\<lparr>se_time := ts\<rparr>))"

text \<open>The loop around \<open>select\<close>: 0 when the socket is ready, else the error code.\<close>

fun select_loop :: "select_result list \<Rightarrow> (int \<times> select_result list) option" where
  "select_loop [] = None"
| "select_loop (SelectReady # r) = Some (0, r)"
| "select_loop (SelectTimeout # r) = Some (UPNP_E_TIMEDOUT, r)"
| "select_loop (SelectInterrupted # r) = select_loop r"
| "select_loop (SelectError # r) = Some (UPNP_E_SOCKET_ERROR, r)"

text \<open>The loop of the writing branch: \<open>Inl\<close> at an error, \<open>Inr\<close> the bytes sent.\<close>

fun send_loop :: "nat option list \<Rightarrow> string \<Rightarrow> nat \<Rightarrow> string \<Rightarrow> ((int + nat) \<times> nat option list \<times> string) option" where
  "send_loop s [] sent out = Some (Inr sent, s, out)"
| "send_loop [] (c # cs) sent out = None"
| "send_loop (None # s) (c # cs) sent out = Some (Inl (-1), s, out)"
| "send_loop (Some k # s) (c # cs) sent out =
     send_loop s (drop k (c # cs)) (sent + List.length (take k (c # cs))) (out @ take k (c # cs))"

definition recv_bytes :: "string option list \<Rightarrow> nat \<Rightarrow> (string option \<times> string option list) option" where
  "recv_bytes s bufsize =
     (case s of
        [] \<Rightarrow> None
      | None # r \<Rightarrow> Some (None, r)
      | Some d # r \<Rightarrow> Some (Some (take bufsize d), if List.length d \<le> bufsize then r else Some (drop bufsize d) # r))"

text \<open>What both branches share: the wait, and the time taken off \<open>*timeoutSecs\<close>.\<close>

definition sock_wait :: "sock_env \<Rightarrow> int \<Rightarrow> (int \<times> int \<times> sock_env) option" where
  "sock_wait w timeoutSecs =
     Option.bind (next_time w) (\<lambda>(start_time, w1).
       if timeoutSecs < 0 then Some (UPNP_E_TIMEDOUT, start_time, w1)
       else
         (let wait = (if timeoutSecs = 0 then None else Some timeoutSecs)
          in map_option (\<lambda>(rc, r). (rc, start_time, w1\<lparr>se_select := r, se_waits := se_waits w1 @ [wait]\<rparr>))
               (select_loop (se_select w1))))"

definition time_left :: "sock_env \<Rightarrow> int \<Rightarrow> int \<Rightarrow> (int \<times> sock_env) option" where
  "time_left w start_time timeoutSecs =
     (if timeoutSecs \<noteq> 0
      then map_option (\<lambda>(now, w1). (c_int (timeoutSecs - c_int (now - start_time)), w1)) (next_time w)
      else Some (timeoutSecs, w))"

text \<open>The result, the bytes read, the time left.\<close>

definition sock_read :: "sock_env \<Rightarrow> nat \<Rightarrow> int \<Rightarrow> (int \<times> string \<times> int \<times> sock_env) option" where
  "sock_read w bufsize timeoutSecs =
     Option.bind (sock_wait w timeoutSecs) (\<lambda>(rc, start_time, w1).
       if rc \<noteq> 0 then Some (rc, [], timeoutSecs, w1)
       else Option.bind (recv_bytes (se_recv w1) bufsize) (\<lambda>(d, r).
         case d of
           None \<Rightarrow> Some (UPNP_E_SOCKET_ERROR, [], timeoutSecs, w1\<lparr>se_recv := r\<rparr>)
         | Some bs \<Rightarrow>
             map_option (\<lambda>(left, w2). (c_int (int (List.length bs)), bs, left, w2))
               (time_left (w1\<lparr>se_recv := r\<rparr>) start_time timeoutSecs)))"

definition sock_write :: "sock_env \<Rightarrow> string \<Rightarrow> int \<Rightarrow> (int \<times> int \<times> sock_env) option" where
  "sock_write w buffer timeoutSecs =
     Option.bind (sock_wait w timeoutSecs) (\<lambda>(rc, start_time, w1).
       if rc \<noteq> 0 then Some (rc, timeoutSecs, w1)
       else Option.bind (send_loop (se_send w1) buffer 0 (se_out w1)) (\<lambda>(r, s, out).
         let w2 = w1\<lparr>se_send := s, se_out := out\<rparr>
         in case r of
              Inl e \<Rightarrow> Some (e, timeoutSecs, w2)
            | Inr n \<Rightarrow> map_option (\<lambda>(left, w3). (c_int (int n), left, w3)) (time_left w2 start_time timeoutSecs)))"

section \<open>What reading and writing do\<close>

lemma select_loop_codes:
  "select_loop s = Some (rc, r) \<Longrightarrow> rc \<in> {0, UPNP_E_TIMEDOUT, UPNP_E_SOCKET_ERROR}"
  by (induction s rule: select_loop.induct) auto

lemma send_loop_out:
  assumes "send_loop s buf sent out = Some (r, s', out')"
  shows "\<exists>k \<le> List.length buf. out' = out @ take k buf \<and> (\<forall>n. r = Inr n \<longrightarrow> k = List.length buf \<and> n = sent + List.length buf) \<and>
     (\<forall>e. r = Inl e \<longrightarrow> e = -1)"
  using assms
proof (induction s buf sent out rule: send_loop.induct)
  case (4 k s c cs sent out)
  let ?b = "c # cs"
  from 4 obtain j where j: "j \<le> List.length (drop k ?b)" "out' = (out @ take k ?b) @ take j (drop k ?b)"
    "\<forall>n. r = Inr n \<longrightarrow> j = List.length (drop k ?b) \<and> n = sent + List.length (take k ?b) + List.length (drop k ?b)"
    "\<forall>e. r = Inl e \<longrightarrow> e = -1"
    by (metis send_loop.simps(4))
  have t: "take k ?b @ take j (drop k ?b) = take (min k (List.length ?b) + j) ?b"
    by (simp add: take_add min_def del: List.list.size)
  have l: "List.length (take k ?b) + List.length (drop k ?b) = List.length ?b" by simp
  show ?case
  proof (intro exI [of _ "min k (List.length ?b) + j"] conjI allI impI)
    show "min k (List.length ?b) + j \<le> List.length ?b" using j(1) by (cases "k \<le> List.length ?b") simp_all
    show "out' = out @ take (min k (List.length ?b) + j) ?b" using j(2) t by simp
  next
    fix n assume "r = Inr n"
    then have jn: "j = List.length (drop k ?b)" "n = sent + List.length (take k ?b) + List.length (drop k ?b)"
      using j(3) by blast+
    show "min k (List.length ?b) + j = List.length ?b" using jn(1) by (cases "k \<le> List.length ?b") simp_all
    show "n = sent + List.length ?b" using jn(2) l by simp
  qed (use j(4) in blast)
qed auto

lemma sock_write_out:
  assumes "sock_write w buf t = Some (n, t', w')" and "List.length buf < 2 ^ 31"
  shows "\<exists>k \<le> List.length buf. se_out w' = se_out w @ take k buf \<and>
     (n = int (List.length buf) \<and> k = List.length buf \<or> n < 0)"
proof -
  obtain rc st w1 where wt: "sock_wait w t = Some (rc, st, w1)"
    using assms(1) by (auto simp: sock_write_def bind_eq_Some_conv)
  have out: "se_out w1 = se_out w" and codes: "rc = 0 \<or> rc < 0"
    using wt by (auto simp: sock_wait_def bind_eq_Some_conv Let_def split: if_splits list.splits dest: select_loop_codes)
  show ?thesis
  proof (cases "rc = 0")
    case False
    then show ?thesis using assms(1) wt out codes by (auto simp: sock_write_def intro!: exI [of _ 0])
  next
    case True
    then obtain r s o2 where s: "send_loop (se_send w1) buf 0 (se_out w1) = Some (r, s, o2)"
      using assms(1) wt by (auto simp: sock_write_def bind_eq_Some_conv)
    from send_loop_out [OF s] obtain k where k: "k \<le> List.length buf" "o2 = se_out w @ take k buf"
      "\<forall>n. r = Inr n \<longrightarrow> k = List.length buf \<and> n = List.length buf" "\<forall>e. r = Inl e \<longrightarrow> e = -1"
      using out by auto
    have n: "c_int (int (List.length buf)) = int (List.length buf)" using assms(2) by (simp add: c_int_exact)
    show ?thesis
      using assms(1) wt True s k n
      by (cases r) (auto simp: sock_write_def time_left_def Let_def bind_eq_Some_conv intro!: exI [of _ k] split: if_splits list.splits)
  qed
qed

text \<open>
  A timeout that a call uses up exactly is 0 afterwards, which the next call takes for no timeout:
  it waits without limit.
\<close>

lemma timeout_used_up_is_none:
  assumes "time_left w start t = Some (left, w1)" and "0 < t" and "t < 2 ^ 31"
    and "se_time w = (start + t) # r" and "sock_wait w1 left = Some (rc, st, w2)"
  shows "se_waits w2 = se_waits w @ [None]"
proof -
  have "left = 0" "w1 = w\<lparr>se_time := r\<rparr>" using assms(1-4) by (auto simp: time_left_def c_int_exact)
  then show ?thesis using assms(5) by (auto simp: sock_wait_def bind_eq_Some_conv Let_def split: list.splits)
qed

end
