(* ===== verification/HttpReadWrite.thy ===== *)
theory HttpReadWrite
  imports HttpResume HttpChunks Socket
begin

text \<open>
  Messages over sockets, the transfer half of \<open>upnp/src/genlib/net/http/httpreadwrite.c\<close>: receiving a
  message, sending one from memory and from a file, whole or in chunks, and the handles of a POST and
  of a GET in progress.

  A handle is its parser or its content length with the connection, a \<open>sock_env\<close>, passed in and out.
  \<open>None\<close> is a call that blocks or has undefined behaviour.
\<close>

abbreviation (input) UPNP_E_INVALID_PARAM :: int where "UPNP_E_INVALID_PARAM \<equiv> -101"
abbreviation (input) UPNP_E_BAD_RESPONSE :: int where "UPNP_E_BAD_RESPONSE \<equiv> -113"
abbreviation (input) UPNP_E_BAD_HTTPMSG :: int where "UPNP_E_BAD_HTTPMSG \<equiv> -119"
abbreviation (input) UPNP_E_CANCELED :: int where "UPNP_E_CANCELED \<equiv> -210"
abbreviation (input) UPNP_E_FILE_READ_ERROR :: int where "UPNP_E_FILE_READ_ERROR \<equiv> -503"
abbreviation (input) UPNP_E_INTERNAL_ERROR :: int where "UPNP_E_INTERNAL_ERROR \<equiv> -911"
abbreviation (input) HTTP_REQ_ENTITY_TOO_LARGE :: int where "HTTP_REQ_ENTITY_TOO_LARGE \<equiv> 413"
abbreviation (input) UPNP_USING_CHUNKED :: int where "UPNP_USING_CHUNKED \<equiv> -3"
abbreviation (input) UPNP_UNTIL_CLOSE :: int where "UPNP_UNTIL_CLOSE \<equiv> -4"

text \<open>The numbers of \<open>parse_status_t\<close>, which some functions return as their result.\<close>

primrec status_code :: "parse_status \<Rightarrow> int" where
  "status_code PARSE_SUCCESS = 0"
| "status_code PARSE_INCOMPLETE = 1"
| "status_code PARSE_INCOMPLETE_ENTITY = 2"
| "status_code PARSE_FAILURE = 3"
| "status_code PARSE_OK = 4"
| "status_code PARSE_NO_MATCH = 5"
| "status_code PARSE_CONTINUE_1 = 6"


section \<open>Receiving a message\<close>

record receiving =
  rv_alloc :: alloc_env
  rv_sock :: sock_env
  rv_parser :: http_parser
  rv_timeout :: int
  rv_ok_on_close :: bool
  rv_error_code :: int

definition recv_buf_size :: nat where "recv_buf_size = 2048"

text \<open>What a round of the loop does with the status of \<open>parser_append\<close>.\<close>

definition after_append :: "nat \<Rightarrow> parse_status \<Rightarrow> receiving \<Rightarrow> int option \<times> receiving" where
  "after_append g_maxContentLength status rv2 =
     (case status of
        PARSE_SUCCESS \<Rightarrow>
          if g_maxContentLength > 0 \<and> p_content_length (rv_parser rv2) > g_maxContentLength mod 2 ^ 32
          then (Some UPNP_E_OUTOF_BOUNDS, rv2\<lparr>rv_error_code := HTTP_REQ_ENTITY_TOO_LARGE\<rparr>)
          else (Some 0, rv2)
      | PARSE_FAILURE \<Rightarrow> (Some UPNP_E_BAD_HTTPMSG, rv2\<lparr>rv_error_code := p_http_error_code (rv_parser rv2)\<rparr>)
      | PARSE_NO_MATCH \<Rightarrow> (Some UPNP_E_BAD_HTTPMSG, rv2\<lparr>rv_error_code := p_http_error_code (rv_parser rv2)\<rparr>)
      | PARSE_INCOMPLETE_ENTITY \<Rightarrow> (None, rv2\<lparr>rv_ok_on_close := True\<rparr>)
      | PARSE_CONTINUE_1 \<Rightarrow> (Some 0, rv2)
      | _ \<Rightarrow> (None, rv2))"

text \<open>One round of the loop: what it returns, or \<open>None\<close> to go on.\<close>

definition recv_round :: "net_env \<Rightarrow> nat \<Rightarrow> receiving \<Rightarrow> (int option \<times> receiving) option" where
  "recv_round env g_maxContentLength rv =
     Option.bind (sock_read (rv_sock rv) recv_buf_size (rv_timeout rv)) (\<lambda>(num_read, buf, timeout, w).
       let rv1 = rv\<lparr>rv_sock := w, rv_timeout := timeout\<rparr>
       in if num_read > 0 then
            Option.bind (parser_append env (rv_alloc rv) (rv_parser rv) buf (nat num_read)) (\<lambda>(status, e, p).
              Some (after_append g_maxContentLength status (rv1\<lparr>rv_alloc := e, rv_parser := p\<rparr>)))
          else if num_read = 0 then
            Some (if rv_ok_on_close rv then (Some 0, rv1)
                  else (Some UPNP_E_BAD_HTTPMSG, rv1\<lparr>rv_error_code := HTTP_BAD_REQUEST\<rparr>))
          else Some (Some num_read, rv1\<lparr>rv_error_code := p_http_error_code (rv_parser rv)\<rparr>))"

partial_function (option) recv_loop :: "net_env \<Rightarrow> nat \<Rightarrow> receiving \<Rightarrow> (int \<times> receiving) option" where
  "recv_loop env g rv =
     Option.bind (recv_round env g rv) (\<lambda>(ret, rv1).
       case ret of Some r \<Rightarrow> Some (r, rv1) | None \<Rightarrow> recv_loop env g rv1)"

definition message_init :: "http_method \<Rightarrow> http_parser" where
  "message_init request_method =
     (if request_method = HTTPMETHOD_UNKNOWN then parser_request_init else parser_response_init request_method)"

definition http_RecvMessage ::
  "net_env \<Rightarrow> nat \<Rightarrow> alloc_env \<Rightarrow> sock_env \<Rightarrow> http_method \<Rightarrow> int \<Rightarrow> int \<Rightarrow> (int \<times> receiving) option" where
  "http_RecvMessage env g e w request_method timeout_secs http_error_code =
     recv_loop env g
       \<lparr>rv_alloc = e, rv_sock = w, rv_parser = message_init request_method, rv_timeout = timeout_secs,
        rv_ok_on_close = False, rv_error_code = http_error_code\<rparr>"

end
