(* ===== verification/HttpReceive.thy ===== *)
theory HttpReceive
  imports HttpReadWrite
begin

text \<open>
  What \<open>http_RecvMessage\<close> returns does not depend on how the network cuts the message: when it
  succeeds, outside chunked and until-close entities, its parser is the one a single call of
  \<open>parser_parse\<close> gives on all the bytes it has read.
\<close>

section \<open>An allocator that never fails stays as it is\<close>

definition quiet :: "alloc_env \<Rightarrow> bool" where
  "quiet e \<longleftrightarrow> oom e = []"

lemma quiet_malloc [simp]: "quiet e \<Longrightarrow> malloc_ok e n = (n \<le> alloc_max, e)"
  by (simp add: quiet_def malloc_ok_def)

lemma quiet_realloc [simp]: "quiet e \<Longrightarrow> snd (realloc_block e p n) = e"
  by (simp add: realloc_block_def Let_def)

lemma quiet_set_size [simp]: "quiet e \<Longrightarrow> fst (snd (membuffer_set_size e m n)) = e"
  by (simp add: membuffer_set_size_def membuffer_realloc_def split_beta split: option.split)

lemma quiet_assign: "quiet e \<Longrightarrow> membuffer_assign e m s n = Some (rc, e', m') \<Longrightarrow> e' = e"
  by (auto simp: membuffer_assign_def bind_eq_Some_conv split_beta split: option.split_asm if_split_asm)

lemma quiet_insert: "quiet e \<Longrightarrow> membuffer_insert e m s n i = Some (rc, e', m') \<Longrightarrow> e' = e"
  by (auto simp: membuffer_insert_def bind_eq_Some_conv split_beta split: if_split_asm)

lemma quiet_append: "quiet e \<Longrightarrow> membuffer_append e m s n = Some (rc, e', m') \<Longrightarrow> e' = e"
  by (simp add: membuffer_append_def quiet_insert)

lemma quiet_append_str: "quiet e \<Longrightarrow> membuffer_append_str e m s = Some (rc, e', m') \<Longrightarrow> e' = e"
  by (simp add: membuffer_append_str_def quiet_insert)

lemma quiet_delete: "quiet e \<Longrightarrow> membuffer_delete e m i n = Some (e', m') \<Longrightarrow> e' = e"
  by (auto simp: membuffer_delete_def Let_def bind_eq_Some_conv split_beta split: if_split_asm)

lemma quiet_str_alloc: "quiet e \<Longrightarrow> str_alloc e s n = Some (r, e') \<Longrightarrow> e' = e"
  by (auto simp: str_alloc_def malloc_block_def bind_eq_Some_conv split_beta split: option.split_asm)

lemma quiet_store_url: "quiet e \<Longrightarrow> store_url env e p url = Some (st, e', p') \<Longrightarrow> e' = e"
  by (auto simp: store_url_def Let_def split: option.split_asm sum.split_asm prod.split_asm dest: quiet_str_alloc)

lemma quiet_requestline: "quiet e \<Longrightarrow> parser_parse_requestline env e p = Some (st, e', p') \<Longrightarrow> e' = e"
  by (auto simp: parser_parse_requestline_def simple_request_def full_request_def Let_def
      split: option.splits prod.splits if_splits list.splits arg.splits dest: quiet_store_url)

lemma quiet_responseline: "quiet e \<Longrightarrow> parser_parse_responseline env e p = Some (st, e', p') \<Longrightarrow> e' = e"
  by (auto simp: parser_parse_responseline_def status_line_def status_message_def Let_def bind_eq_Some_conv
      split: option.splits prod.splits if_splits list.splits arg.splits dest: quiet_assign)

lemma quiet_add_tail: "q_add_tail [] q x = (ok, f, q') \<Longrightarrow> f = []"
  by (auto simp: q_add_tail_def q_insert_at_def node_alloc_def split: list.splits if_splits prod.splits bool.splits)

lemma quiet_new_header: "quiet e \<Longrightarrow> new_header e m i t v = Some (ok, e', m') \<Longrightarrow> e' = e"
  by (cases e) (auto simp: new_header_def Let_def quiet_def dest: quiet_add_tail
      split: prod.split_asm option.split_asm if_split_asm bool.split_asm
      dest!: quiet_assign [unfolded quiet_def, rotated])

lemma quiet_append_header:
  assumes q: "quiet e" and a: "append_header e m i v = Some (ok, e', m')"
  shows "e' = e"
proof (cases "sp_len v = 0")
  case True
  then show ?thesis using a by (simp add: append_header_def)
next
  case False
  then obtain ret e1 v1 ret2 v2 where
    "membuffer_append_str e (h_value (header_at m i)) '', '' = Some (ret, e1, v1)"
    "membuffer_append e1 v1 (Some (span_rest (contents (hm_msg m)) v)) (sp_len v) = Some (ret2, e', v2)"
    using a by (auto simp: append_header_def Let_def split: option.split_asm prod.split_asm)
  then show ?thesis using q quiet_append_str quiet_append by metis
qed

lemma quiet_header_round: "quiet e \<Longrightarrow> header_round env e p = Some (st, e', p') \<Longrightarrow> e' = e"
  by (auto simp: header_round_def add_header_def Let_def
      split: prod.split_asm option.split_asm if_split_asm sum.split_asm list.split_asm arg.split_asm
      dest: quiet_new_header quiet_append_header)

lemma quiet_headers_loop:
  assumes "headers_loop env e p = Some y" and "quiet e"
  shows "fst (snd y) = e"
proof -
  have "quiet e \<longrightarrow> fst (snd y) = e"
  proof (rule headers_loop.raw_induct [where P = "\<lambda>env e p y. quiet e \<longrightarrow> fst (snd y) = e", OF _ assms(1)], rule impI)
    fix f env e p y
    assume ih: "\<And>env e p y. f env e p = Some y \<Longrightarrow> quiet e \<longrightarrow> fst (snd y) = e" and q: "quiet e"
      and body: "Option.bind (header_round env e p) (\<lambda>(st, e1, p1). case st of Some st \<Rightarrow> Some (st, e1, p1) | None \<Rightarrow> f env e1 p1) = Some y"
    obtain st e1 p1 where r: "header_round env e p = Some (st, e1, p1)" using body by (auto simp: bind_eq_Some_conv)
    have "e1 = e" by (rule quiet_header_round [OF q r])
    then show "fst (snd y) = e" using ih body r q by (cases st) auto
  qed
  then show ?thesis using assms(2) by simp
qed

lemma quiet_parse_headers: "quiet e \<Longrightarrow> parser_parse_headers env e p = Some (st, e', p') \<Longrightarrow> e' = e"
  by (auto simp: parser_parse_headers_def split: if_split_asm dest: quiet_headers_loop)

lemma quiet_entity_round:
  assumes "quiet e" and "entity_round env e p = Some (st, e', p')"
  shows "e' = e"
proof (cases "p_ent_position p")
  case ENTREAD_CHUNKY_HEADERS
  then have c: "parser_parse_chunky_headers env e p = Some (st, e', p')" using assms(2) by (simp add: entity_round_def)
  obtain st1 e1 p1 where h: "parser_parse_headers env e p = Some (st1, e1, p1)"
    using c by (auto simp: parser_parse_chunky_headers_def split: option.split_asm)
  have "e1 = e" by (rule quiet_parse_headers [OF assms(1) h])
  then show ?thesis using c h assms(1)
    by (auto simp: parser_parse_chunky_headers_def split: if_split_asm dest: quiet_delete)
qed (use assms in \<open>auto simp: entity_round_def keep_env_def parser_parse_chunky_entity_def parser_parse_chunky_body_def Let_def
      split: option.split_asm if_split_asm prod.split_asm dest: quiet_delete\<close>)

lemma quiet_entity_loop:
  assumes "entity_loop env e p = Some y" and "quiet e"
  shows "fst (snd y) = e"
proof -
  have "quiet e \<longrightarrow> fst (snd y) = e"
  proof (rule entity_loop.raw_induct [where P = "\<lambda>env e p y. quiet e \<longrightarrow> fst (snd y) = e", OF _ assms(1)], rule impI)
    fix f env e p y
    assume ih: "\<And>env e p y. f env e p = Some y \<Longrightarrow> quiet e \<longrightarrow> fst (snd y) = e" and q: "quiet e"
      and body: "Option.bind (entity_round env e p) (\<lambda>(st, e1, p1). if st = PARSE_CONTINUE_1 then f env e1 p1 else Some (st, e1, p1)) = Some y"
    obtain st e1 p1 where r: "entity_round env e p = Some (st, e1, p1)" using body by (auto simp: bind_eq_Some_conv)
    have "e1 = e" by (rule quiet_entity_round [OF q r])
    then show "fst (snd y) = e" using ih body r q by (cases "st = PARSE_CONTINUE_1") auto
  qed
  then show ?thesis using assms(2) by simp
qed

lemma quiet_parse_round: "quiet e \<Longrightarrow> parse_round env e p = Some (st, e', p') \<Longrightarrow> e' = e"
  by (auto simp: parse_round_def parser_parse_entity_def split: parser_pos.split_asm if_split_asm
      dest: quiet_entity_loop quiet_parse_headers quiet_requestline quiet_responseline)

lemma quiet_parse:
  assumes "parser_parse env e p = Some y" and "quiet e"
  shows "fst (snd y) = e"
proof -
  have "quiet e \<longrightarrow> fst (snd y) = e"
  proof (rule parser_parse.raw_induct [where P = "\<lambda>env e p y. quiet e \<longrightarrow> fst (snd y) = e", OF _ assms(1)], rule impI)
    fix f env e p y
    assume ih: "\<And>env e p y. f env e p = Some y \<Longrightarrow> quiet e \<longrightarrow> fst (snd y) = e" and q: "quiet e"
      and body: "Option.bind (parse_round env e p) (\<lambda>(st, e1, p1). if st = PARSE_OK then f env e1 p1 else Some (st, e1, p1)) = Some y"
    obtain st e1 p1 where r: "parse_round env e p = Some (st, e1, p1)" using body by (auto simp: bind_eq_Some_conv)
    have "e1 = e" by (rule quiet_parse_round [OF q r])
    then show "fst (snd y) = e" using ih body r q by (cases "st = PARSE_OK") auto
  qed
  then show ?thesis using assms(2) by simp
qed


section \<open>Chunks are read to the end\<close>

lemma entity_loop_chunked:
  assumes "entity_loop env e p = Some y" and "chunked p"
  shows "chunked (snd (snd y))"
proof -
  have "chunked p \<longrightarrow> chunked (snd (snd y))"
  proof (rule entity_loop.raw_induct [where P = "\<lambda>env e p y. chunked p \<longrightarrow> chunked (snd (snd y))", OF _ assms(1)], rule impI)
    fix f env e p y
    assume ih: "\<And>env e p y. f env e p = Some y \<Longrightarrow> chunked p \<longrightarrow> chunked (snd (snd y))" and ch: "chunked p"
      and body: "Option.bind (entity_round env e p) (\<lambda>(st, e1, p1). if st = PARSE_CONTINUE_1 then f env e1 p1 else Some (st, e1, p1)) = Some y"
    obtain st e1 p1 where r: "entity_round env e p = Some (st, e1, p1)" using body by (auto simp: bind_eq_Some_conv)
    have "chunked p1" using entity_round_chunked r ch by blast
    then show "chunked (snd (snd y))" using ih [of env e1 p1 y] body r by (cases "st = PARSE_CONTINUE_1") auto
  qed
  then show ?thesis using assms(2) by simp
qed

lemma store_url_ent: "store_url env e p url = Some (st, e', p') \<Longrightarrow> p_ent_position p' = p_ent_position p"
  by (auto simp: store_url_def Let_def split: option.split_asm sum.split_asm prod.split_asm)

lemma requestline_ent: "parser_parse_requestline env e p = Some (st, e', p') \<Longrightarrow> p_ent_position p' = p_ent_position p"
  by (auto simp: parser_parse_requestline_def simple_request_def full_request_def Let_def
      split: option.splits prod.splits if_splits list.splits arg.splits dest!: store_url_ent)

lemma responseline_ent: "parser_parse_responseline env e p = Some (st, e', p') \<Longrightarrow> p_ent_position p' = p_ent_position p"
  by (auto simp: parser_parse_responseline_def status_line_def status_message_def Let_def bind_eq_Some_conv
      split: option.splits prod.splits if_splits list.splits arg.splits)

lemma parse_round_chunked: "parse_round env e p = Some (st, e', p') \<Longrightarrow> chunked p \<Longrightarrow> chunked p'"
  using entity_loop_chunked [of env e p "(st, e', p')"] headers_loop_ent [of env e p "(st, e', p')"]
    requestline_ent [of env e p st e' p'] responseline_ent [of env e p st e' p']
  by (auto simp: parse_round_def parser_parse_entity_def parser_parse_headers_def chunked_def split: parser_pos.split_asm if_split_asm)

lemma parser_parse_chunked:
  assumes "parser_parse env e p = Some y" and "chunked p"
  shows "chunked (snd (snd y))"
proof -
  have "chunked p \<longrightarrow> chunked (snd (snd y))"
  proof (rule parser_parse.raw_induct [where P = "\<lambda>env e p y. chunked p \<longrightarrow> chunked (snd (snd y))", OF _ assms(1)], rule impI)
    fix f env e p y
    assume ih: "\<And>env e p y. f env e p = Some y \<Longrightarrow> chunked p \<longrightarrow> chunked (snd (snd y))" and ch: "chunked p"
      and body: "Option.bind (parse_round env e p) (\<lambda>(st, e1, p1). if st = PARSE_OK then f env e1 p1 else Some (st, e1, p1)) = Some y"
    obtain st e1 p1 where r: "parse_round env e p = Some (st, e1, p1)" using body by (auto simp: bind_eq_Some_conv)
    have "chunked p1" using parse_round_chunked r ch by blast
    then show "chunked (snd (snd y))" using ih [of env e1 p1 y] body r by (cases "st = PARSE_OK") auto
  qed
  then show ?thesis using assms(2) by simp
qed


section \<open>An incomplete message stays where it is\<close>

lemma entity_round_frame:
  assumes wf: "wf_parser p" and r: "entity_round env e p = Some (st, e1, p1)" and nc: "\<not> chunked p"
    and st: "st = PARSE_CONTINUE_1 \<or> st = PARSE_INCOMPLETE"
  shows "hm_msg (p_msg p1) = hm_msg (p_msg p)"
proof (cases "p_ent_position p")
  case ENTREAD_DETERMINE_READ_METHOD
  from read_method_ok [OF wf this] r ENTREAD_DETERMINE_READ_METHOD show ?thesis
    by (auto simp: entity_round_def keep_env_def)
next
  case ENTREAD_USING_CLEN
  then show ?thesis using r st
    by (auto simp: entity_round_def keep_env_def parser_parse_entity_using_clen_def Let_def bind_eq_Some_conv
        split: if_split_asm)
next
  case ENTREAD_UNTIL_CLOSE
  then show ?thesis using r st
    by (auto simp: entity_round_def keep_env_def parser_parse_entity_until_close_def Let_def)
qed (use nc in \<open>simp_all add: chunked_def\<close>)

lemma entity_loop_frame:
  assumes "wf_parser p" and "entity_loop env e p = Some (PARSE_INCOMPLETE, e1, p1)" and "\<not> chunked p1"
  shows "hm_msg (p_msg p1) = hm_msg (p_msg p)"
  using assms
proof (induction "entity_rank e p" arbitrary: e p rule: less_induct)
  case less
  from entity_round_ok [OF less.prems(1), of env e] obtain st e2 p2 where
    r: "entity_round env e p = Some (st, e2, p2)" "wf_parser p2"
      "st = PARSE_CONTINUE_1 \<longrightarrow> entity_rank e2 p2 < entity_rank e p" by blast
  have nc: "\<not> chunked p" using entity_loop_chunked [OF less.prems(2)] less.prems(3) by auto
  show ?case
  proof (cases "st = PARSE_CONTINUE_1")
    case True
    then have "entity_loop env e2 p2 = Some (PARSE_INCOMPLETE, e1, p1)"
      using less.prems(2) r(1) by (simp add: entity_loop.simps [of env e p])
    then have "hm_msg (p_msg p1) = hm_msg (p_msg p2)" using less.hyps r(2,3) True less.prems(3) by blast
    then show ?thesis using entity_round_frame [OF less.prems(1) r(1) nc] True by simp
  next
    case False
    then have "st = PARSE_INCOMPLETE" "p2 = p1"
      using less.prems(2) r(1) by (simp_all add: entity_loop.simps [of env e p])
    then show ?thesis using entity_round_frame [OF less.prems(1) r(1) nc] by simp
  qed
qed

lemma requestline_frame:
  assumes "parser_parse_requestline env e p = Some (PARSE_INCOMPLETE, e1, p1)"
  shows "hm_msg (p_msg p1) = hm_msg (p_msg p)"
proof -
  have "simple_request env e q mt url \<noteq> Some (PARSE_INCOMPLETE, e1, p1)"
    "full_request env e q mt url v \<noteq> Some (PARSE_INCOMPLETE, e1, p1)" for q mt url v
    using simple_request_status [of env e q mt url PARSE_INCOMPLETE] full_request_status [of env e q mt url v PARSE_INCOMPLETE]
    by auto
  then show ?thesis
    using assms by (auto simp: parser_parse_requestline_def Let_def split: if_splits option.splits list.splits arg.splits)
qed

lemma responseline_frame:
  assumes "parser_parse_responseline env e p = Some (PARSE_INCOMPLETE, e1, p1)"
  shows "hm_msg (p_msg p1) = hm_msg (p_msg p)"
  using assms
  by (auto simp: parser_parse_responseline_def status_line_def status_message_def Let_def
      split: if_splits option.splits list.splits arg.splits bind_splits)

lemma parse_round_frame:
  assumes wf: "wf_parser p" and r: "parse_round env e p = Some (PARSE_INCOMPLETE, e1, p1)" and nc: "\<not> chunked p1"
  shows "hm_msg (p_msg p1) = hm_msg (p_msg p)"
proof (cases "p_position p")
  case POS_HEADERS
  with r headers_loop_ok [OF wf, of env e] show ?thesis
    by (auto simp: parse_round_def parser_parse_headers_def dest: header_frame_msg)
next
  case POS_ENTITY
  with r entity_loop_frame [OF wf _ nc, of env e e1] show ?thesis
    by (simp add: parse_round_def parser_parse_entity_def)
qed (use r requestline_frame responseline_frame in \<open>auto simp: parse_round_def\<close>)

lemma parser_parse_frame:
  assumes "wf_parser p" and "p_position p \<noteq> POS_COMPLETE"
    and "parser_parse env e p = Some (PARSE_INCOMPLETE, e1, p1)" and "\<not> chunked p1"
  shows "hm_msg (p_msg p1) = hm_msg (p_msg p) \<and> p_position p1 \<noteq> POS_COMPLETE"
  using assms
proof (induction "position_rank (p_position p)" arbitrary: e p rule: less_induct)
  case less
  from parse_round_ok [OF less.prems(1,2), of env e] obtain st e2 p2 where
    r: "parse_round env e p = Some (st, e2, p2)" "wf_parser p2"
      "st = PARSE_OK \<longrightarrow> p_position p2 \<noteq> POS_COMPLETE \<and>
         position_rank (p_position p2) < position_rank (p_position p)" by blast
  have more: "extends (hm_msg (p_msg p)) [] p" by (simp add: extends_def)
  show ?case
  proof (cases "st = PARSE_OK")
    case True
    have run: "parser_parse env e2 p2 = Some (PARSE_INCOMPLETE, e1, p1)"
      using less.prems(3) r(1) True by (simp add: parser_parse.simps [of env e p])
    from parse_round_receive [OF less.prems(1) more r(1)] True have "hm_msg (p_msg p2) = hm_msg (p_msg p)" by simp
    then show ?thesis using less.hyps r(2,3) True run less.prems(4) by metis
  next
    case False
    then have eq: "st = PARSE_INCOMPLETE" "e2 = e1" "p2 = p1"
      using less.prems(3) r(1) by (simp_all add: parser_parse.simps [of env e p])
    with parse_round_receive [OF less.prems(1) more r(1)] less.prems(2,4) have "p_position p1 \<noteq> POS_COMPLETE"
      by (simp add: carries_def)
    then show ?thesis using parse_round_frame [OF less.prems(1)] r(1) eq less.prems(4) by blast
  qed
qed


section \<open>Receiving\<close>

text \<open>The bytes a connection will deliver.\<close>

definition incoming :: "sock_env \<Rightarrow> string" where
  "incoming w = concat (map (case_option [] id) (se_recv w))"

lemma sock_read_incoming:
  assumes "sock_read w n t = Some (num_read, buf, t', w')" and "n < 2 ^ 31"
  shows "incoming w = buf @ incoming w' \<and> (0 \<le> num_read \<longrightarrow> num_read = int (List.length buf))"
proof -
  obtain rc st w1 where wt: "sock_wait w t = Some (rc, st, w1)"
    using assms(1) by (auto simp: sock_read_def bind_eq_Some_conv)
  have in1: "incoming w1 = incoming w" and codes: "rc = 0 \<or> rc < 0"
    using wt by (auto simp: sock_wait_def incoming_def bind_eq_Some_conv Let_def split: if_splits list.splits dest: select_loop_codes)
  show ?thesis
  proof (cases "rc = 0")
    case False
    then show ?thesis using assms(1) wt in1 codes by (auto simp: sock_read_def)
  next
    case True
    obtain d r where d: "recv_bytes (se_recv w1) n = Some (d, r)"
      using assms(1) wt True by (auto simp: sock_read_def bind_eq_Some_conv)
    have s: "incoming w1 = case_option [] id d @ concat (map (case_option [] id) r)"
      "\<And>bs. d = Some bs \<Longrightarrow> List.length bs \<le> n"
      using d by (auto simp: recv_bytes_def incoming_def split: list.splits option.splits if_splits)
    show ?thesis
    proof (cases d)
      case None
      then show ?thesis using assms(1) wt True d s in1 by (auto simp: sock_read_def incoming_def)
    next
      case (Some bs)
      have "c_int (int (List.length bs)) = int (List.length bs)" using s(2) [OF Some] assms(2) by (simp add: c_int_exact)
      then show ?thesis using assms(1) wt True d s in1 Some
        by (auto simp: sock_read_def incoming_def time_left_def bind_eq_Some_conv split: if_splits list.splits)
    qed
  qed
qed

text \<open>One call on the whole of \<open>bs\<close>, in a message buffer \<open>b\<close>, from the initial parser \<open>p0\<close>.\<close>

definition parses_at_once ::
  "net_env \<Rightarrow> alloc_env \<Rightarrow> http_parser \<Rightarrow> string \<Rightarrow> parse_status \<Rightarrow> http_parser \<Rightarrow> bool" where
  "parses_at_once env e p0 bs st p \<longleftrightarrow>
     (\<exists>b. wf_membuffer b \<and> contents b = bs \<and> parser_parse env e (receive b p0) = Some (st, e, p))"

definition pending :: "net_env \<Rightarrow> alloc_env \<Rightarrow> http_parser \<Rightarrow> string \<Rightarrow> receiving \<Rightarrow> bool" where
  "pending env e p0 bs rv \<longleftrightarrow>
     rv_alloc rv = e \<and>
     (rv_ok_on_close rv \<or> chunked (rv_parser rv) \<or>
      wf_parser (rv_parser rv) \<and> p_position (rv_parser rv) \<noteq> POS_COMPLETE \<and>
      contents (hm_msg (p_msg (rv_parser rv))) = bs \<and>
      (\<forall>b late. extends b late (rv_parser rv) \<longrightarrow>
         parser_parse env e (receive b (rv_parser rv)) = parser_parse env e (receive b p0)))"

lemma parser_append_parses:
  assumes q: "quiet e" and wf: "wf_parser p" and pos: "p_position p \<noteq> POS_COMPLETE"
    and eq: "\<And>b late. extends b late p \<Longrightarrow> parser_parse env e (receive b p) = parser_parse env e (receive b p0)"
    and a: "parser_append env e p buf (List.length buf) = Some (st, e1, p1)"
    and len: "mb_length (hm_msg (p_msg p)) + List.length buf < 2 ^ 31"
  shows "e1 = e \<and> (st = PARSE_FAILURE \<or>
     parses_at_once env e p0 (contents (hm_msg (p_msg p)) @ buf) st p1 \<and> wf_parser p1 \<and> st \<noteq> PARSE_OK \<and>
     (st = PARSE_INCOMPLETE \<and> \<not> chunked p1 \<longrightarrow>
        p_position p1 \<noteq> POS_COMPLETE \<and> contents (hm_msg (p_msg p1)) = contents (hm_msg (p_msg p)) @ buf \<and>
        (\<forall>b late. extends b late p1 \<longrightarrow> parser_parse env e (receive b p1) = parser_parse env e (receive b p0))))"
proof -
  let ?m = "hm_msg (p_msg p)"
  note D = wf_parserD [OF wf]
  have "List.length buf \<le> alloc_max" using len by (simp add: alloc_max_def)
  from membuffer_append_ok [OF D(2) this, of e] obtain rc e2 b where
    ap: "membuffer_append e ?m (Some buf) (List.length buf) = Some (rc, e2, b)" "updates_to ?m (contents ?m @ buf) rc b" by blast
  have e2: "e2 = e" by (rule quiet_append [OF q ap(1)])
  show ?thesis
  proof (cases "rc = 0")
    case False
    then show ?thesis using a ap(1) e2 by (simp add: parser_append_def)
  next
    case True
    then have b: "wf_membuffer b" "contents b = contents ?m @ buf" using ap(2) by (auto simp: updates_to_def)
    have bl: "mb_length b = mb_length ?m + List.length buf"
      using b length_contents [OF D(2)] length_contents [OF b(1)] by simp
    have wfb: "wf_parser (receive b p)" "p_position (receive b p) \<noteq> POS_COMPLETE"
      using wf b bl len pos by (simp_all add: wf_parser_def wf_msg_def)
    have run: "parser_parse env e (receive b p) = Some (st, e1, p1)"
      using a ap(1) e2 True by (simp add: parser_append_def receive_def)
    have ext: "extends b buf p" using b(2) by (simp add: extends_def)
    have e1: "e1 = e" using quiet_parse [OF run q] by simp
    have once: "parses_at_once env e p0 (contents ?m @ buf) st p1"
      using eq [OF ext] run b e1 unfolding parses_at_once_def by metis
    have wf1: "wf_parser p1" "st \<noteq> PARSE_OK" using parser_parse_ok [OF wfb, of env e] run by auto
    have "p_position p1 \<noteq> POS_COMPLETE \<and> contents (hm_msg (p_msg p1)) = contents ?m @ buf \<and>
        (\<forall>b late. extends b late p1 \<longrightarrow> parser_parse env e (receive b p1) = parser_parse env e (receive b p0))"
      if inc: "st = PARSE_INCOMPLETE" "\<not> chunked p1"
    proof -
      have fr: "hm_msg (p_msg p1) = b" "p_position p1 \<noteq> POS_COMPLETE"
        using parser_parse_frame [OF wfb _ inc(2)] run inc(1) by auto
      have "parser_parse env e (receive b' p1) = parser_parse env e (receive b' p0)" if x: "extends b' late p1" for b' late
      proof -
        have x': "extends b' late (receive b p)" "extends b' (buf @ late) p"
          using x fr(1) b(2) by (simp_all add: extends_def)
        have "parser_parse env e1 (receive b' p1) = parser_parse env e (receive b' (receive b p))"
          by (rule parser_parse_receive [OF wfb x'(1) _ inc(2)]) (use run inc(1) in simp)
        then show ?thesis using e1 eq [OF x'(2)] by simp
      qed
      then show ?thesis using fr b(2) by auto
    qed
    then show ?thesis using once wf1 e1 by blast
  qed
qed

lemma parser_append_quiet:
  assumes "quiet e" and "parser_append env e p buf n = Some (st, e1, p1)"
  shows "e1 = e \<and> (chunked p \<longrightarrow> chunked p1)"
proof -
  obtain rc e2 b where a: "membuffer_append e (hm_msg (p_msg p)) (Some buf) n = Some (rc, e2, b)"
    using assms(2) by (auto simp: parser_append_def split: option.split_asm)
  have e2: "e2 = e" by (rule quiet_append [OF assms(1) a])
  show ?thesis
  proof (cases "rc = 0")
    case True
    then have "parser_parse env e (receive b p) = Some (st, e1, p1)"
      using assms(2) a e2 by (simp add: parser_append_def receive_def)
    from quiet_parse [OF this assms(1)] parser_parse_chunked [OF this] show ?thesis by (simp add: chunked_def)
  next
    case False
    then show ?thesis using assms(2) a e2 by (auto simp: parser_append_def chunked_def)
  qed
qed

lemma after_append_frame:
  assumes "after_append g status rv2 = (ret, rv1)"
  shows "rv_parser rv1 = rv_parser rv2" "rv_sock rv1 = rv_sock rv2" "rv_alloc rv1 = rv_alloc rv2"
    "rv_ok_on_close rv2 \<longrightarrow> rv_ok_on_close rv1"
    "ret = Some 0 \<longrightarrow> status = PARSE_SUCCESS \<or> status = PARSE_CONTINUE_1"
    "ret = None \<longrightarrow> rv_ok_on_close rv1 \<or> status = PARSE_INCOMPLETE \<or> status = PARSE_OK"
  using assms by (auto simp: after_append_def split: parse_status.split_asm if_split_asm)

lemma recv_round_pending:
  assumes q: "quiet e" and pe: "pending env e p0 bs rv" and r: "recv_round env g rv = Some (ret, rv1)"
    and len: "List.length bs + List.length (incoming (rv_sock rv)) < 2 ^ 31"
  shows "\<exists>bs1. bs @ incoming (rv_sock rv) = bs1 @ incoming (rv_sock rv1) \<and>
     (ret = None \<longrightarrow> pending env e p0 bs1 rv1) \<and>
     (ret = Some 0 \<longrightarrow> rv_ok_on_close rv1 \<or> chunked (rv_parser rv1) \<or>
        parses_at_once env e p0 bs1 PARSE_SUCCESS (rv_parser rv1) \<or>
        parses_at_once env e p0 bs1 PARSE_CONTINUE_1 (rv_parser rv1))"
proof -
  obtain n buf t w where rd: "sock_read (rv_sock rv) recv_buf_size (rv_timeout rv) = Some (n, buf, t, w)"
    using r by (auto simp: recv_round_def bind_eq_Some_conv)
  have inc: "incoming (rv_sock rv) = buf @ incoming w" "0 \<le> n \<longrightarrow> n = int (List.length buf)"
    using sock_read_incoming [OF rd] by (simp_all add: recv_buf_size_def)
  have al: "rv_alloc rv = e" using pe by (simp add: pending_def)
  show ?thesis
  proof (cases "n > 0")
    case False
    then have "ret \<noteq> None" "rv_sock rv1 = w" "ret = Some 0 \<longrightarrow> rv_ok_on_close rv1"
      using r rd by (auto simp: recv_round_def Let_def split: if_splits)
    then show ?thesis using inc by (intro exI [of _ "bs @ buf"]) auto
  next
    case True
    then have nb: "nat n = List.length buf" using inc(2) by simp
    obtain st e1 p1 where ap: "parser_append env e (rv_parser rv) buf (List.length buf) = Some (st, e1, p1)"
      and fin: "after_append g st (rv\<lparr>rv_sock := w, rv_timeout := t, rv_alloc := e1, rv_parser := p1\<rparr>) = (ret, rv1)"
      using r rd True nb al by (auto simp: recv_round_def Let_def bind_eq_Some_conv)
    note F = after_append_frame [OF fin, simplified]
    have qa: "e1 = e" "chunked (rv_parser rv) \<longrightarrow> chunked p1" using parser_append_quiet [OF q ap] by auto
    have al1: "rv_alloc rv1 = e" using F(3) qa(1) by simp
    show ?thesis
    proof (cases "rv_ok_on_close rv \<or> chunked (rv_parser rv)")
      case ok: True
      then have "rv_ok_on_close rv1 \<or> chunked (rv_parser rv1)" using F(1,4) qa(2) by auto
      then show ?thesis using F(2) inc(1) al1 by (intro exI [of _ "bs @ buf"]) (auto simp: pending_def)
    next
      case no: False
      then have P: "wf_parser (rv_parser rv)" "p_position (rv_parser rv) \<noteq> POS_COMPLETE"
        "contents (hm_msg (p_msg (rv_parser rv))) = bs"
        "\<And>b late. extends b late (rv_parser rv) \<Longrightarrow>
           parser_parse env e (receive b (rv_parser rv)) = parser_parse env e (receive b p0)"
        using pe by (auto simp: pending_def)
      have ml: "mb_length (hm_msg (p_msg (rv_parser rv))) + List.length buf < 2 ^ 31"
        using length_contents [OF wf_parserD(2) [OF P(1)]] P(3) len inc(1) by simp
      have A: "st = PARSE_FAILURE \<or>
          parses_at_once env e p0 (bs @ buf) st p1 \<and> wf_parser p1 \<and> st \<noteq> PARSE_OK \<and>
          (st = PARSE_INCOMPLETE \<and> \<not> chunked p1 \<longrightarrow>
             p_position p1 \<noteq> POS_COMPLETE \<and> contents (hm_msg (p_msg p1)) = bs @ buf \<and>
             (\<forall>b late. extends b late p1 \<longrightarrow> parser_parse env e (receive b p1) = parser_parse env e (receive b p0)))"
        using parser_append_parses [OF q P(1,2) _ ap ml, of p0] P(4) unfolding P(3) by blast
      have "ret = None \<longrightarrow> pending env e p0 (bs @ buf) rv1"
        unfolding pending_def F(1) using F(6) A al1 by (auto simp: after_append_def)
      moreover have "ret = Some 0 \<longrightarrow> parses_at_once env e p0 (bs @ buf) PARSE_SUCCESS p1 \<or>
          parses_at_once env e p0 (bs @ buf) PARSE_CONTINUE_1 p1"
        using F(5) A by auto
      ultimately show ?thesis using F(1,2) inc(1) by (intro exI [of _ "bs @ buf"]) simp
    qed
  qed
qed

lemma recv_loop_once:
  assumes "recv_loop env g rv = Some y" and q: "quiet e"
    and "pending env e p0 bs rv" and "List.length bs + List.length (incoming (rv_sock rv)) < 2 ^ 31"
    and "fst y = 0" and "\<not> rv_ok_on_close (snd y)" and "\<not> chunked (rv_parser (snd y))"
  shows "\<exists>bs1. bs @ incoming (rv_sock rv) = bs1 @ incoming (rv_sock (snd y)) \<and>
     (parses_at_once env e p0 bs1 PARSE_SUCCESS (rv_parser (snd y)) \<or>
      parses_at_once env e p0 bs1 PARSE_CONTINUE_1 (rv_parser (snd y)))"
proof -
  define G where "G env rv y \<longleftrightarrow> (\<forall>bs. pending env e p0 bs rv \<longrightarrow>
     List.length bs + List.length (incoming (rv_sock rv)) < 2 ^ 31 \<longrightarrow>
     fst y = 0 \<longrightarrow> \<not> rv_ok_on_close (snd y) \<longrightarrow> \<not> chunked (rv_parser (snd y)) \<longrightarrow>
     (\<exists>bs1. bs @ incoming (rv_sock rv) = bs1 @ incoming (rv_sock (snd y)) \<and>
       (parses_at_once env e p0 bs1 PARSE_SUCCESS (rv_parser (snd y)) \<or>
        parses_at_once env e p0 bs1 PARSE_CONTINUE_1 (rv_parser (snd y)))))"
    for env rv and y :: "int \<times> receiving"
  have "G env rv y"
  proof (rule recv_loop.raw_induct [where P = "\<lambda>env g rv y. G env rv y", OF _ assms(1)])
    fix f env g rv y
    assume ih: "\<And>env g rv y. f env g rv = Some y \<Longrightarrow> G env rv y"
      and body: "Option.bind (recv_round env g rv) (\<lambda>(ret, rv1). case ret of Some r \<Rightarrow> Some (r, rv1) | None \<Rightarrow> f env g rv1) = Some y"
    obtain ret rv1 where r: "recv_round env g rv = Some (ret, rv1)" using body by (auto simp: bind_eq_Some_conv)
    show "G env rv y"
      unfolding G_def
    proof (intro allI impI)
      fix bs
      assume pe: "pending env e p0 bs rv" and len: "List.length bs + List.length (incoming (rv_sock rv)) < 2 ^ 31"
        and y: "fst y = 0" "\<not> rv_ok_on_close (snd y)" "\<not> chunked (rv_parser (snd y))"
      from recv_round_pending [OF q pe r len] obtain bs1 where
        b: "bs @ incoming (rv_sock rv) = bs1 @ incoming (rv_sock rv1)" "ret = None \<longrightarrow> pending env e p0 bs1 rv1"
          "ret = Some 0 \<longrightarrow> rv_ok_on_close rv1 \<or> chunked (rv_parser rv1) \<or>
             parses_at_once env e p0 bs1 PARSE_SUCCESS (rv_parser rv1) \<or>
             parses_at_once env e p0 bs1 PARSE_CONTINUE_1 (rv_parser rv1)" by blast
      show "\<exists>bs2. bs @ incoming (rv_sock rv) = bs2 @ incoming (rv_sock (snd y)) \<and>
         (parses_at_once env e p0 bs2 PARSE_SUCCESS (rv_parser (snd y)) \<or>
          parses_at_once env e p0 bs2 PARSE_CONTINUE_1 (rv_parser (snd y)))"
      proof (cases ret)
        case None
        have "List.length bs1 + List.length (incoming (rv_sock rv1)) < 2 ^ 31"
          using arg_cong [OF b(1), of List.length] len by simp
        then show ?thesis using ih [of env g rv1 y] body r None b y unfolding G_def by auto
      next
        case (Some k)
        then have "y = (k, rv1)" using body r by simp
        then show ?thesis using b y Some by auto
      qed
    qed
  qed
  then show ?thesis using assms(3-) unfolding G_def by blast
qed

text \<open>\<open>parser_parse\<close> never reports the internal \<open>PARSE_CONTINUE_1\<close>.\<close>

lemma requestline_continue:
  assumes wf: "wf_parser p" and r: "parser_parse_requestline env e p = Some (st, e1, p1)"
  shows "st \<noteq> PARSE_CONTINUE_1"
proof -
  obtain st0 sc where b: "skip_blank_lines (parser_scanner p) = Some (st0, sc)" "within (parser_scanner p) sc" "plain st0"
    using skip_blank_lines_ok [OF wf] by blast
  from match_from_parser [OF wf b(2) request_fmts(1), of env] obtain st1 sc1 vs1 where
    m1: "match_fmt env sc request_line_fmt0 = Some (st1, sc1, vs1)" "within (parser_scanner p) sc1" by blast
  from match_from_parser [OF wf m1(2) request_fmts(3), of env] obtain st2 sc2 vs2 where
    m2: "match_fmt env sc1 request_line_fmt = Some (st2, sc2, vs2)" "plain st2" by blast
  show ?thesis
    using r b(1,3) m1 m2
    by (auto simp: parser_parse_requestline_def Let_def plain_def split: if_split_asm list.split_asm arg.split_asm
        dest: simple_request_status full_request_status)
qed

lemma responseline_continue:
  assumes wf: "wf_parser p" and r: "parser_parse_responseline env e p = Some (st, e1, p1)"
  shows "st \<noteq> PARSE_CONTINUE_1"
proof -
  obtain st0 sc where b: "skip_blank_lines (parser_scanner p) = Some (st0, sc)" "within (parser_scanner p) sc" "plain st0"
    using skip_blank_lines_ok [OF wf] by blast
  have f: "fmt_of is_directive ''%ihttp%w/%w%L%c''" by (simp add: is_directive_def)
  from match_from_parser [OF wf b(2) f, of env] obtain st1 sc1 vs1 where
    m: "match_fmt env sc ''%ihttp%w/%w%L%c'' = Some (st1, sc1, vs1)" "plain st1" by blast
  show ?thesis
    using r b(1,3) m
    by (auto simp: parser_parse_responseline_def status_line_def status_message_def plain_def Let_def bind_eq_Some_conv
        split: if_split_asm list.split_asm arg.split_asm option.split_asm prod.split_asm)
qed

lemma parser_parse_continue:
  assumes "wf_parser p" and "p_position p \<noteq> POS_COMPLETE" and "parser_parse env e p = Some (st, e1, p1)"
  shows "st \<noteq> PARSE_CONTINUE_1"
  using assms
proof (induction "position_rank (p_position p)" arbitrary: e p rule: less_induct)
  case less
  from parse_round_ok [OF less.prems(1,2), of env e] obtain st2 e2 p2 where
    r: "parse_round env e p = Some (st2, e2, p2)" "wf_parser p2"
      "st2 = PARSE_OK \<longrightarrow> p_position p2 \<noteq> POS_COMPLETE \<and>
         position_rank (p_position p2) < position_rank (p_position p)" by blast
  show ?case
  proof (cases "st2 = PARSE_OK")
    case True
    have run: "parser_parse env e2 p2 = Some (st, e1, p1)"
      using less.prems(3) r(1) True by (simp add: parser_parse.simps [of env e p])
    then show ?thesis using less.hyps r(2,3) True by blast
  next
    case False
    then have st: "st2 = st" using less.prems(3) r(1) by (simp add: parser_parse.simps [of env e p])
    show ?thesis
      using r(1) st requestline_continue [OF less.prems(1)] responseline_continue [OF less.prems(1)]
        headers_loop_ok [OF less.prems(1), of env e] entity_loop_ok [OF less.prems(1), of env e]
      by (auto simp: parse_round_def parser_parse_entity_def parser_parse_headers_def split: parser_pos.split_asm if_split_asm)
  qed
qed

lemma message_init_ok: "wf_parser (message_init m)" "p_position (message_init m) \<noteq> POS_COMPLETE" "\<not> chunked (message_init m)"
  "contents (hm_msg (p_msg (message_init m))) = []"
  by (simp_all add: message_init_def parser_init_wf)
    (simp_all add: parser_request_init_def parser_response_init_def parser_init_def chunked_def httpmsg_init_def
      membuffer_init_def membuffer_initialize_def contents_def)

lemma http_RecvMessage_once:
  assumes r: "http_RecvMessage env g e w m t c = Some (0, rv)" and q: "quiet e"
    and len: "List.length (incoming w) < 2 ^ 31" and nc: "\<not> rv_ok_on_close rv" "\<not> chunked (rv_parser rv)"
  shows "\<exists>bs. incoming w = bs @ incoming (rv_sock rv) \<and> parses_at_once env e (message_init m) bs PARSE_SUCCESS (rv_parser rv)"
proof -
  let ?rv = "\<lparr>rv_alloc = e, rv_sock = w, rv_parser = message_init m, rv_timeout = t, rv_ok_on_close = False, rv_error_code = c\<rparr>"
  have "receive b (message_init m) = receive b (receive b' (message_init m))" for b b' by simp
  then have pe: "pending env e (message_init m) [] ?rv"
    using message_init_ok [of m] by (simp add: pending_def)
  from recv_loop_once [OF r [unfolded http_RecvMessage_def] q pe] len nc obtain bs where
    b: "incoming w = bs @ incoming (rv_sock rv)"
      "parses_at_once env e (message_init m) bs PARSE_SUCCESS (rv_parser rv) \<or>
       parses_at_once env e (message_init m) bs PARSE_CONTINUE_1 (rv_parser rv)" by auto
  have "\<not> parses_at_once env e (message_init m) bs PARSE_CONTINUE_1 (rv_parser rv)"
  proof
    assume "parses_at_once env e (message_init m) bs PARSE_CONTINUE_1 (rv_parser rv)"
    then obtain b' where b': "wf_membuffer b'" "contents b' = bs"
      "parser_parse env e (receive b' (message_init m)) = Some (PARSE_CONTINUE_1, e, rv_parser rv)"
      by (auto simp: parses_at_once_def)
    have "mb_length b' < 2 ^ 31" using length_contents [OF b'(1)] b'(2) b(1) len by simp
    moreover have "p_cursor (message_init m) = 0" "p_entity_start_position (message_init m) = 0"
      by (simp_all add: message_init_def parser_request_init_def parser_response_init_def parser_init_def)
    ultimately have "wf_parser (receive b' (message_init m))"
      using message_init_ok(1) [of m] b'(1) by (simp add: wf_parser_def wf_msg_def)
    from parser_parse_continue [OF this _ b'(3)] message_init_ok(2) [of m] show False by simp
  qed
  then show ?thesis using b by blast
qed


section \<open>Property\<close>


definition two_packets :: sock_env where
  "two_packets = \<lparr>se_select = [SelectReady, SelectInterrupted, SelectReady],
     se_recv = [Some ''GET '', Some (''/a'' @ CRLF), Some ''late''], se_send = [], se_time = [10, 11, 11, 13],
     se_close = [], se_out = [], se_waits = []\<rparr>"


lemma append_succeeds:
  assumes "wf_membuffer m" and "oom e = []" and "s \<noteq> []" and "mb_length m + List.length s < 2 ^ 31" and n: "n = List.length s"
  shows "\<exists>b. membuffer_append e m (Some s) n = Some (0, e, b) \<and> wf_membuffer b \<and> contents b = contents m @ s"
proof -
  have l: "List.length s \<le> alloc_max" "mb_length m + List.length s < alloc_max" using assms(4) by (simp_all add: alloc_max_def)
  from membuffer_insert_bytes [OF assms(1) order.refl l(1) assms(3), of e] obtain rc e' b where
    i: "membuffer_insert e m (Some s) (List.length s) (mb_length m) = Some (rc, e', b)"
      "updates_to m (take (mb_length m) (contents m) @ s @ drop (mb_length m) (contents m)) rc b" "rc = 0"
    using assms(2) l(2) by blast
  have "e' = e" using quiet_insert [OF _ i(1)] assms(2) by (simp add: quiet_def)
  then show ?thesis using i length_contents [OF assms(1)] n by (auto simp: membuffer_append_def updates_to_def)
qed

lemma sample_path: "\<exists>u. parse_uri sample_net ''/a'' 2 = Some (Inr u)"
proof -
  have "uric_loop ''/a'' 2 = Some 2" by code_simp
  then show ?thesis
    by (simp add: parse_uri_def parse_scheme_def parse_uri_rest_def parse_uric_def size_sub_def cchar_at_def
        isalpha_def isupper_def islower_def Let_def)
qed

lemma two_packets_received:
  "\<exists>rv. http_RecvMessage sample_net 16000 sample_env two_packets HTTPMETHOD_UNKNOWN 30 0 = Some (0, rv) \<and>
     \<not> rv_ok_on_close rv \<and> \<not> chunked (rv_parser rv) \<and> incoming (rv_sock rv) = ''late''"
proof -
  let ?p0 = "parser_request_init" and ?e = sample_env
  have oom: "oom ?e = []" by (simp add: sample_env_def)
  have p0: "wf_parser ?p0" "p_position ?p0 = POS_REQUEST_LINE" "p_cursor ?p0 = 0" "p_content_length ?p0 = 0"
    "\<not> chunked ?p0" "contents (hm_msg (p_msg ?p0)) = []" "mb_length (hm_msg (p_msg ?p0)) = 0"
    by (simp_all add: parser_init_wf)
      (simp_all add: parser_request_init_def parser_init_def chunked_def httpmsg_init_def membuffer_init_def
        membuffer_initialize_def contents_def)
  obtain b1 where b1: "membuffer_append ?e (hm_msg (p_msg ?p0)) (Some ''GET '') 4 = Some (0, ?e, b1)"
    "wf_membuffer b1" "contents b1 = ''GET ''"
    using append_succeeds [OF wf_parserD(2) [OF p0(1)] oom, of "''GET ''" 4] p0 by auto
  let ?sc = "\<lparr>sc_msg = ''GET '', sc_cursor = 0, sc_loaded = False\<rparr>"
  have "skip_blank_lines ?sc = Some (PARSE_OK, ?sc)"
    "match_fmt sample_net ?sc request_line_fmt0 = Some (PARSE_INCOMPLETE, ?sc, [StrArg \<lparr>sp_off = 0, sp_len = 3\<rparr>])"
    "match_fmt sample_net ?sc request_line_fmt = Some (PARSE_INCOMPLETE, ?sc, [StrArg \<lparr>sp_off = 0, sp_len = 3\<rparr>])"
    by code_simp+
  moreover have p0c: "?p0\<lparr>p_cursor := 0\<rparr> = ?p0" by (simp add: parser_request_init_def parser_init_def)
  ultimately have r1: "parser_append sample_net ?e ?p0 ''GET '' 4 = Some (PARSE_INCOMPLETE, ?e, receive b1 ?p0)"
    using b1(1,3) p0(2,3)
    apply (simp add: parser_append_def parser_parse.simps [of _ _ "receive b1 ?p0"] parse_round_def
        parser_parse_requestline_def parser_scanner_def flip: receive_def)
    by (simp only: p0c)
  obtain b2 where b2: "membuffer_append ?e b1 (Some (''/a'' @ CRLF)) 4 = Some (0, ?e, b2)"
    "wf_membuffer b2" "contents b2 = ''GET /a'' @ CRLF"
    using append_succeeds [OF b1(2) oom, of "''/a'' @ CRLF" 4] length_contents [OF b1(2)] b1(3) by (auto simp: CRLF_def)
  let ?sc = "\<lparr>sc_msg = ''GET /a'' @ CRLF, sc_cursor = 0, sc_loaded = False\<rparr>"
  have m: "skip_blank_lines ?sc = Some (PARSE_OK, ?sc)"
    "match_fmt sample_net ?sc request_line_fmt0 =
       Some (PARSE_OK, ?sc\<lparr>sc_cursor := 8\<rparr>, [StrArg \<lparr>sp_off = 0, sp_len = 3\<rparr>, StrArg \<lparr>sp_off = 4, sp_len = 2\<rparr>])"
    "method_index (''GET /a'' @ CRLF) \<lparr>sp_off = 0, sp_len = 3\<rparr> = 0"
    "ent_id (Http_Method_Table ! 0) = method_id HTTPMETHOD_GET"
    "span_rest (''GET /a'' @ CRLF) \<lparr>sp_off = 4, sp_len = 2\<rparr> = ''/a'' @ CRLF"
    by code_simp+
  obtain u where u: "parse_uri sample_net ''/a'' 2 = Some (Inr u)" using sample_path by blast
  have st: "\<exists>b. str_alloc ?e (''/a'' @ CRLF) 2 = Some (Some b, ?e) \<and> take 2 b = ''/a''"
    by (simp add: str_alloc_def malloc_block_def realloc_block_def malloc_ok_def sample_env_def size_add_def alloc_max_def
        block_read_def block_write_def upt_rec)
  from st obtain ub where ub: "str_alloc ?e (''/a'' @ CRLF) 2 = Some (Some ub, ?e)" "take 2 ub = ''/a''" by blast
  define p2 where "p2 = (upd_msg (\<lambda>m. m\<lparr>hm_uri := u\<rparr>) (upd_msg (\<lambda>m. m\<lparr>hm_urlbuf := Some ub\<rparr>)
      (upd_msg (\<lambda>m. m\<lparr>hm_method := HTTPMETHOD_SIMPLEGET\<rparr>) ((receive b2 ?p0)\<lparr>p_cursor := 0, p_cursor := 8\<rparr>))))\<lparr>p_position := POS_COMPLETE\<rparr>"
  have req: "parser_parse_requestline sample_net ?e (receive b2 ?p0) = Some (PARSE_SUCCESS, ?e, p2)"
    using b2(3) p0(2,3) m ub u
    by (simp add: parser_parse_requestline_def parser_scanner_def simple_request_def store_url_def Let_def p2_def)
  have rcv2: "(receive b1 ?p0)\<lparr>p_msg := (p_msg ?p0)\<lparr>hm_msg := b2\<rparr>\<rparr> = receive b2 ?p0" by (simp add: receive_def)
  have r2: "parser_append sample_net ?e (receive b1 ?p0) (''/a'' @ CRLF) 4 = Some (PARSE_SUCCESS, ?e, p2)"
    using b2(1) p0(2) req rcv2
    by (simp add: parser_append_def parser_parse.simps [of _ _ "receive b2 ?p0"] parse_round_def)
  have c2: "p_content_length p2 = 0" "\<not> chunked p2" using p0(4,5) by (simp_all add: p2_def chunked_def)
  let ?rv = "\<lparr>rv_alloc = ?e, rv_sock = two_packets, rv_parser = ?p0, rv_timeout = 30, rv_ok_on_close = False, rv_error_code = 0\<rparr>"
  obtain rv1 where rv1: "recv_round sample_net 16000 ?rv = Some (None, rv1)"
    "se_select (rv_sock rv1) = [SelectInterrupted, SelectReady]" "se_recv (rv_sock rv1) = [Some (''/a'' @ CRLF), Some ''late'']"
    "se_time (rv_sock rv1) = [11, 13]" "rv_timeout rv1 = 29" "rv_alloc rv1 = ?e" "rv_parser rv1 = receive b1 ?p0"
    "\<not> rv_ok_on_close rv1"
    using r1
    by (simp add: recv_round_def sock_read_def sock_wait_def time_left_def recv_bytes_def two_packets_def recv_buf_size_def
        CRLF_def c_int_exact after_append_def)
  have "\<exists>rv2. recv_round sample_net 16000 rv1 = Some (Some 0, rv2) \<and> \<not> rv_ok_on_close rv2 \<and> rv_parser rv2 = p2 \<and>
      se_recv (rv_sock rv2) = [Some ''late'']"
    using rv1(2-) r2 c2
    by (simp add: recv_round_def sock_read_def sock_wait_def time_left_def recv_bytes_def recv_buf_size_def
        CRLF_def c_int_exact after_append_def)
  then obtain rv2 where rv2: "recv_round sample_net 16000 rv1 = Some (Some 0, rv2)" "\<not> rv_ok_on_close rv2" "rv_parser rv2 = p2"
    "se_recv (rv_sock rv2) = [Some ''late'']" by blast
  then have "recv_loop sample_net 16000 ?rv = Some (0, rv2)"
    by (simp add: recv_loop.simps [of _ _ ?rv] recv_loop.simps [of _ _ rv1] rv1(1))
  then show ?thesis using rv2 c2(2) by (simp add: http_RecvMessage_def message_init_def incoming_def)
qed


end
