(* ===== verification/HttpSend.thy ===== *)
theory HttpSend
  imports HttpReadWrite
begin

text \<open>
  Sending messages, \<open>upnp/src/genlib/net/http/httpreadwrite.c\<close>: from memory and from a file, whole or
  in chunks, and the body of a POST. A file that is sent in chunks, and a POST that is written in
  chunks, is a body the parser of the library decodes to the same bytes.

  The files of the system, and the callbacks of a virtual directory, are a record of functions
  \<open>files\<close>; their first argument says which of the two is meant.
\<close>

section \<open>Data\<close>

record send_instruction =
  ins_IsVirtualFile :: bool
  ins_IsChunkActive :: bool
  ins_IsRangeActive :: bool
  ins_IsTrailers :: bool
  ins_RangeHeader :: string
  ins_AcceptLanguageHeader :: string
  ins_RangeOffset :: int
  ins_ReadSendSize :: int
  ins_RecvWriteSize :: int

text \<open>Opening, moving forward, and reading: the count returned, and the bytes stored.\<close>

record 'f files =
  fe_open :: "bool \<Rightarrow> string \<Rightarrow> 'f option"
  fe_seek :: "bool \<Rightarrow> 'f \<Rightarrow> int \<Rightarrow> 'f option"
  fe_read :: "bool \<Rightarrow> 'f \<Rightarrow> nat \<Rightarrow> int \<times> string \<times> 'f"

text \<open>A character of the format with its arguments.\<close>

datatype send_arg = ArgInstr send_instruction | ArgFile string | ArgBuf string nat

definition WEB_SERVER_BUF_SIZE :: nat where "WEB_SERVER_BUF_SIZE = 1024 * 1024"
definition CHUNK_HEADER_SIZE :: nat where "CHUNK_HEADER_SIZE = 10"
definition CHUNK_TAIL_SIZE :: nat where "CHUNK_TAIL_SIZE = 10"

definition hex_digit :: "nat \<Rightarrow> char" where
  "hex_digit d = ''0123456789abcdef'' ! d"

text \<open>The text of \<open>%zx\<close>.\<close>

fun hex_digits :: "nat \<Rightarrow> string" where
  "hex_digits n = (if n < 16 then [hex_digit n] else hex_digits (n div 16) @ [hex_digit (n mod 16)])"

declare hex_digits.simps [simp del]

definition last_chunk :: string where
  "last_chunk = ''0'' @ CRLF @ CRLF"

text \<open>\<open>snprintf\<close> into the ten bytes of \<open>Chunk_Header\<close>, less two for the end of line.\<close>

definition chunk_header :: "nat \<Rightarrow> string option" where
  "chunk_header num_read =
     (let s = hex_digits num_read
      in if List.length s \<ge> CHUNK_HEADER_SIZE - 2 then None else Some (s @ CRLF))"

section \<open>Sending\<close>

definition size_of_int :: "int \<Rightarrow> nat" where
  "size_of_int n = nat (n mod 2 ^ 64)"

text \<open>
  One round of the loop over the file, with an amount left: what it returns, or \<open>None\<close> to go on with the
  amount left. A read that reports more bytes than asked for has overrun the buffer; a negative count
  is used as a length.
\<close>

definition file_round ::
  "'f files \<Rightarrow> send_instruction \<Rightarrow> nat \<Rightarrow> 'f \<Rightarrow> nat \<Rightarrow> sock_env \<Rightarrow> int
     \<Rightarrow> (int option \<times> 'f \<times> nat \<times> sock_env \<times> int) option"
where
  "file_round fs ins Data_Buf_Size f amount w t =
     (let n = (if amount \<ge> Data_Buf_Size then Data_Buf_Size else amount);
          (nr, file_buf, f1) = fe_read fs (ins_IsVirtualFile ins) f n;
          num_read = size_of_int nr;
          amount1 = (if ins_ReadSendSize ins < 0 then Data_Buf_Size else size_sub amount num_read)
      in if num_read = 0 then
           (if ins_IsChunkActive ins
            then map_option (\<lambda>(nw, t1, w1). (Some 0, f1, amount1, w1, t1)) (sock_write w last_chunk t)
            else Some (Some UPNP_E_FILE_READ_ERROR, f1, amount1, w, t))
         else if nr > int n \<or> nr < - int CHUNK_HEADER_SIZE then None
         else if ins_IsChunkActive ins then
           (case chunk_header num_read of
              None \<Rightarrow> Some (Some UPNP_E_INTERNAL_ERROR, f1, amount1, w, t)
            | Some h \<Rightarrow>
                map_option
                  (\<lambda>(nw, t1, w1).
                     (if nw \<le> 0 \<or> size_of_int nw \<noteq> num_read + List.length h + 2 then Some 0 else None,
                      f1, amount1, w1, t1))
                  (sock_write w (h @ file_buf @ CRLF) t))
         else if nr < 0 then None
         else
           map_option
             (\<lambda>(nw, t1, w1).
                (if nw \<le> 0 \<or> size_of_int nw \<noteq> num_read then Some 0 else None, f1, amount1, w1, t1))
             (sock_write w file_buf t))"

partial_function (option) file_loop ::
  "'f files \<Rightarrow> send_instruction \<Rightarrow> nat \<Rightarrow> 'f \<Rightarrow> nat \<Rightarrow> sock_env \<Rightarrow> int \<Rightarrow> (int \<times> sock_env \<times> int) option"
where
  "file_loop fs ins Data_Buf_Size f amount w t =
     (if amount = 0 then Some (0, w, t)
      else Option.bind (file_round fs ins Data_Buf_Size f amount w t) (\<lambda>(ret, f1, amount1, w1, t1).
        case ret of
          Some r \<Rightarrow> Some (r, w1, t1)
        | None \<Rightarrow> file_loop fs ins Data_Buf_Size f1 amount1 w1 t1))"

text \<open>
  The letter \<open>f\<close>. Without an instruction the amount to read is still 0, so nothing of the file is sent.
\<close>

definition send_file ::
  "'f files \<Rightarrow> send_instruction option \<Rightarrow> nat \<Rightarrow> nat \<Rightarrow> string \<Rightarrow> sock_env \<Rightarrow> int \<Rightarrow> (int \<times> sock_env \<times> int) option"
where
  "send_file fs instr amount Data_Buf_Size filename w t =
     (case instr of
        None \<Rightarrow>
          (case fe_open fs False filename of
             None \<Rightarrow> Some (UPNP_E_FILE_READ_ERROR, w, t)
           | Some f \<Rightarrow> Some (0, w, t))
      | Some ins \<Rightarrow>
          (case fe_open fs (ins_IsVirtualFile ins) filename of
             None \<Rightarrow> Some (UPNP_E_FILE_READ_ERROR, w, t)
           | Some f \<Rightarrow>
               (case (if ins_IsRangeActive ins then fe_seek fs (ins_IsVirtualFile ins) f (ins_RangeOffset ins) else Some f) of
                  None \<Rightarrow> Some (UPNP_E_FILE_READ_ERROR, w, t)
                | Some f1 \<Rightarrow> file_loop fs ins Data_Buf_Size f1 amount w t)))"

fun send_args ::
  "'f files \<Rightarrow> send_instruction option \<Rightarrow> nat \<Rightarrow> nat \<Rightarrow> alloc_env \<Rightarrow> sock_env \<Rightarrow> int \<Rightarrow> send_arg list
     \<Rightarrow> (int \<times> alloc_env \<times> sock_env \<times> int) option"
where
  "send_args fs instr amount Data_Buf_Size e w t [] = Some (0, e, w, t)"
| "send_args fs instr amount Data_Buf_Size e w t (ArgInstr ins # r) =
     (let amount1 = (if ins_ReadSendSize ins \<ge> 0 then nat (ins_ReadSendSize ins) else Data_Buf_Size);
          buf_size = (if amount1 < WEB_SERVER_BUF_SIZE then amount1 else Data_Buf_Size)
      in case malloc_ok e (buf_size + CHUNK_HEADER_SIZE + CHUNK_TAIL_SIZE) of
           (False, e1) \<Rightarrow> Some (UPNP_E_OUTOF_MEMORY, e1, w, t)
         | (True, e1) \<Rightarrow> send_args fs (Some ins) amount1 buf_size e1 w t r)"
| "send_args fs instr amount Data_Buf_Size e w t (ArgFile filename # r) =
     map_option (\<lambda>(ret, w1, t1). (ret, e, w1, t1)) (send_file fs instr amount Data_Buf_Size filename w t)"
| "send_args fs instr amount Data_Buf_Size e w t (ArgBuf buf buf_length # r) =
     (if buf_length = 0 then send_args fs instr amount Data_Buf_Size e w t r
      else
        Option.bind (block_read buf 0 buf_length) (\<lambda>bytes.
        Option.bind (sock_write w bytes t) (\<lambda>(nw, t1, w1).
          if size_of_int nw \<noteq> buf_length then Some (0, e, w1, t1)
          else send_args fs instr amount Data_Buf_Size e w1 t1 r)))"

definition http_SendMessage ::
  "'f files \<Rightarrow> alloc_env \<Rightarrow> sock_env \<Rightarrow> int \<Rightarrow> send_arg list \<Rightarrow> (int \<times> alloc_env \<times> sock_env \<times> int) option" where
  "http_SendMessage fs e w TimeOut args = send_args fs None 0 WEB_SERVER_BUF_SIZE e w TimeOut args"

section \<open>The body of a POST\<close>

record post_handle =
  ph_sock :: sock_env
  ph_info :: sockinfo
  ph_contentLength :: int

text \<open>The write both ways of \<open>http_WriteHttpPost\<close> end with; the result, and \<open>*size\<close>.\<close>

definition write_post ::
  "alloc_env \<Rightarrow> post_handle \<Rightarrow> string \<Rightarrow> int \<Rightarrow> (int \<times> nat option \<times> alloc_env \<times> post_handle option) option" where
  "write_post e h tempbuf timeout =
     map_option
       (\<lambda>(numWritten, t1, w1).
          let h1 = h\<lparr>ph_sock := w1\<rparr>
          in if numWritten < 0 then (numWritten, Some 0, e, Some h1) else (0, Some (nat numWritten), e, Some h1))
       (sock_write (ph_sock h) tempbuf timeout)"

definition http_WriteHttpPost ::
  "alloc_env \<Rightarrow> post_handle option \<Rightarrow> string option \<Rightarrow> nat option \<Rightarrow> int
     \<Rightarrow> (int \<times> nat option \<times> alloc_env \<times> post_handle option) option"
where
  "http_WriteHttpPost e handle bufp sizep timeout =
     (case (handle, sizep, bufp) of
        (Some h, Some sz, Some buf) \<Rightarrow>
          if ph_contentLength h = UPNP_USING_CHUNKED then
            if sz = 0 then write_post e h [] timeout
            else
              (case malloc_ok e (size_add (size_add sz CHUNK_HEADER_SIZE) CHUNK_TAIL_SIZE) of
                 (False, e1) \<Rightarrow> Some (UPNP_E_OUTOF_MEMORY, sizep, e1, handle)
               | (True, e1) \<Rightarrow>
                   Option.bind (block_read buf 0 sz) (\<lambda>bytes.
                     write_post e1 h (hex_digits sz @ CRLF @ bytes @ CRLF) timeout))
          else Option.bind (block_read buf 0 sz) (\<lambda>bytes. write_post e h bytes timeout)
      | _ \<Rightarrow> Some (UPNP_E_INVALID_PARAM, map_option (\<lambda>_. 0) sizep, e, handle))"

text \<open>
  \<open>http_error_code\<close> is the value of the uninitialised local variable of that name. The result,
  \<open>*httpStatus\<close>, and the connection at the end.
\<close>

definition http_CloseHttpPost ::
  "net_env \<Rightarrow> nat \<Rightarrow> alloc_env \<Rightarrow> post_handle option \<Rightarrow> int option \<Rightarrow> int \<Rightarrow> int
     \<Rightarrow> (int \<times> int option \<times> alloc_env \<times> sock_env option) option"
where
  "http_CloseHttpPost env g e handle httpStatus timeout http_error_code =
     (case (handle, httpStatus) of
        (Some h, Some _) \<Rightarrow>
          Option.bind
            (if ph_contentLength h = UPNP_USING_CHUNKED
             then map_option snd (sock_write (ph_sock h) last_chunk timeout)
             else Some (timeout, ph_sock h)) (\<lambda>(t1, w1).
          Option.bind (http_RecvMessage env g e w1 HTTPMETHOD_POST t1 http_error_code) (\<lambda>(retc, rv).
          Option.bind (sock_destroy (rv_sock rv) (ph_info h)) (\<lambda>(_, w2, _).
            Some (retc, Some (rv_error_code rv), rv_alloc rv, Some w2))))
      | _ \<Rightarrow> Some (UPNP_E_INVALID_PARAM, httpStatus, e, map_option ph_sock handle))"


section \<open>Sizes in hexadecimal\<close>

lemma hex_digit_value: "d < 16 \<Longrightarrow> isxdigit (hex_digit d) \<and> hex_value (hex_digit d) = d"
proof -
  have "\<forall>d \<in> set [0..<16]. isxdigit (hex_digit d) \<and> hex_value (hex_digit d) = d" by code_simp
  then show "d < 16 \<Longrightarrow> ?thesis" by simp
qed

lemma hex_digits_size: "is_size (hex_digits n) n"
proof (induction n rule: hex_digits.induct)
  case (1 n)
  show ?case
  proof (cases "n < 16")
    case True
    then show ?thesis by (simp add: hex_digits.simps [of n] is_size_def num_value_def hex_digit_value)
  next
    case False
    then have "is_size (hex_digits (n div 16)) (n div 16)" using 1 by simp
    then show ?thesis using False hex_digit_value [of "n mod 16"]
      by (simp add: hex_digits.simps [of n] is_size_def num_value_def)
  qed
qed

lemma hex_digits_length: "n < 16 ^ Suc k \<Longrightarrow> List.length (hex_digits n) \<le> Suc k"
proof (induction k arbitrary: n)
  case 0
  then show ?case by (simp add: hex_digits.simps [of n])
next
  case (Suc k)
  then have "n div 16 < 16 ^ Suc k" by (simp add: less_mult_imp_div_less)
  from Suc.IH [OF this] show ?case by (simp add: hex_digits.simps [of n])
qed

lemma chunk_header_small:
  assumes "n \<le> WEB_SERVER_BUF_SIZE"
  shows "chunk_header n = Some (hex_digits n @ CRLF)" "List.length (hex_digits n) \<le> 6"
proof -
  show l: "List.length (hex_digits n) \<le> 6"
    using hex_digits_length [of n 5] assms by (simp add: WEB_SERVER_BUF_SIZE_def)
  then show "chunk_header n = Some (hex_digits n @ CRLF)" by (simp add: chunk_header_def CHUNK_HEADER_SIZE_def)
qed


section \<open>A connection that takes what it is given\<close>

text \<open>
  \<open>willing w n b\<close>: the connection will be ready for \<open>n\<close> more writes of \<open>b\<close> bytes together, each of
  which may be taken in pieces of any size.
\<close>

definition willing :: "sock_env \<Rightarrow> nat \<Rightarrow> nat \<Rightarrow> bool" where
  "willing w n b \<longleftrightarrow>
     set (se_select w) \<subseteq> {SelectReady, SelectInterrupted} \<and> n \<le> count_list (se_select w) SelectReady \<and>
     n \<le> List.length (se_time w) \<and> (\<forall>k \<in> set (se_send w). \<exists>m. k = Some (Suc m)) \<and> b \<le> List.length (se_send w)"

lemma willing_mono: "willing w n b \<Longrightarrow> n' \<le> n \<Longrightarrow> b' \<le> b \<Longrightarrow> willing w n' b'"
  by (auto simp: willing_def)

lemma select_ready:
  "set s \<subseteq> {SelectReady, SelectInterrupted} \<Longrightarrow> Suc n \<le> count_list s SelectReady \<Longrightarrow>
   \<exists>r. select_loop s = Some (0, r) \<and> set r \<subseteq> {SelectReady, SelectInterrupted} \<and> n \<le> count_list r SelectReady"
  by (induction s rule: select_loop.induct) auto

lemma send_loop_all:
  "\<forall>k \<in> set s. \<exists>m. k = Some (Suc m) \<Longrightarrow> List.length buf + b \<le> List.length s \<Longrightarrow>
   \<exists>r. send_loop s buf sent out = Some (Inr (sent + List.length buf), r, out @ buf) \<and>
     set r \<subseteq> set s \<and> b \<le> List.length r"
proof (induction s buf sent out rule: send_loop.induct)
  case (4 k s c cs sent out)
  then obtain m where k: "k = Suc m" by auto
  have "List.length (drop k (c # cs)) + b \<le> List.length s" using 4(3) k by simp
  with 4 obtain r where "send_loop s (drop k (c # cs)) (sent + List.length (take k (c # cs))) (out @ take k (c # cs)) =
      Some (Inr (sent + List.length (take k (c # cs)) + List.length (drop k (c # cs))), r,
        (out @ take k (c # cs)) @ drop k (c # cs))" "set r \<subseteq> set s" "b \<le> List.length r"
    by auto
  moreover have "List.length (take k (c # cs)) + List.length (drop k (c # cs)) = List.length (c # cs)"
    by (metis append_take_drop_id length_append)
  ultimately show ?case by (auto simp: k)
qed auto

lemma write_willing:
  assumes "willing w (Suc n) (List.length buf + b)" and "List.length buf < 2 ^ 31"
  shows "\<exists>w'. sock_write w buf 0 = Some (int (List.length buf), 0, w') \<and> se_out w' = se_out w @ buf \<and> willing w' n b"
proof -
  from select_ready [of "se_select w" n] assms(1) obtain r where
    r: "select_loop (se_select w) = Some (0, r)" "set r \<subseteq> {SelectReady, SelectInterrupted}" "n \<le> count_list r SelectReady"
    by (auto simp: willing_def)
  from assms(1) obtain t ts where t: "se_time w = t # ts" "n \<le> List.length ts" by (cases "se_time w") (auto simp: willing_def)
  from send_loop_all [of "se_send w" buf b 0 "se_out w"] assms(1) obtain q where
    q: "send_loop (se_send w) buf 0 (se_out w) = Some (Inr (List.length buf), q, se_out w @ buf)"
      "set q \<subseteq> set (se_send w)" "b \<le> List.length q" by (auto simp: willing_def)
  have k: "\<forall>k \<in> set q. \<exists>m. k = Some (Suc m)" using assms(1) q(2) by (auto simp: willing_def)
  show ?thesis using r t q(1,3) k assms(2)
    by (simp add: sock_write_def sock_wait_def time_left_def Let_def c_int_exact willing_def)
qed

section \<open>A file in chunks\<close>

text \<open>What \<open>fread\<close> and a well-behaved callback do: \<open>left f\<close> is what can still be read.\<close>

definition reader :: "'f files \<Rightarrow> bool \<Rightarrow> ('f \<Rightarrow> string) \<Rightarrow> bool" where
  "reader fs virt left \<longleftrightarrow>
     (\<forall>f n. 0 < n \<longrightarrow>
        (case fe_read fs virt f n of (nr, bs, f1) \<Rightarrow>
           nr = int (List.length bs) \<and> List.length bs \<le> n \<and> left f = bs @ left f1 \<and>
           (bs = [] \<longrightarrow> left f = [])))"

lemma last_chunk_length [simp]: "List.length last_chunk = 5"
  by (simp add: last_chunk_def CRLF_def)

lemma readerD:
  assumes "reader fs virt left" and "0 < n" and "fe_read fs virt f n = (nr, bs, f1)"
  shows "nr = int (List.length bs)" "List.length bs \<le> n" "left f = bs @ left f1" "bs = [] \<Longrightarrow> left f = []"
  using assms(1) [unfolded reader_def, rule_format, OF assms(2), of f] assms(3) by auto

lemma file_loop_chunked:
  assumes "reader fs (ins_IsVirtualFile ins) left" and "ins_IsChunkActive ins" and "ins_ReadSendSize ins < 0"
    and "0 < B" and "B \<le> WEB_SERVER_BUF_SIZE"
    and "willing w (Suc (List.length (left f))) (12 * List.length (left f) + 5)"
  shows "\<exists>cs w'. file_loop fs ins B f B w 0 = Some (0, w', 0) \<and> list_all good_chunk cs \<and>
     concat (map snd cs) = left f \<and> se_out w' = se_out w @ concat (map encode_chunk cs) @ last_chunk"
  using assms(6)
proof (induction "List.length (left f)" arbitrary: f w rule: less_induct)
  case less
  obtain nr bs f1 where rd: "fe_read fs (ins_IsVirtualFile ins) f B = (nr, bs, f1)"
    by (cases "fe_read fs (ins_IsVirtualFile ins) f B")
  note b = readerD [OF assms(1,4) this]
  have small: "List.length bs \<le> WEB_SERVER_BUF_SIZE" using b(2) assms(5) by simp
  then have n: "size_of_int nr = List.length bs" using b(1) by (simp add: size_of_int_def WEB_SERVER_BUF_SIZE_def)
  show ?case
  proof (cases "bs = []")
    case True
    have "willing w (Suc 0) (List.length last_chunk + 0)"
      using less.prems b(4) True by simp
    from write_willing [OF this] obtain w' where
      "sock_write w last_chunk 0 = Some (5, 0, w')" "se_out w' = se_out w @ last_chunk"
      by auto
    then show ?thesis
      using True b(4) n rd assms(2,4)
      by (intro exI [of _ "[]"] exI [of _ w']) (simp add: file_loop.simps [of _ _ _ f] file_round_def)
  next
    case False
    let ?h = "hex_digits (List.length bs)" and ?c = "(hex_digits (List.length bs), bs)"
    note h = chunk_header_small [OF small]
    have enc: "(?h @ CRLF) @ bs @ CRLF = encode_chunk ?c" by (simp add: encode_chunk_def)
    have l: "List.length (encode_chunk ?c) = List.length bs + List.length (?h @ CRLF) + 2"
      by (simp add: encode_chunk_def CRLF_def)
    then have lb: "List.length (encode_chunk ?c) \<le> List.length bs + 10" using h(2) by (simp add: CRLF_def)
    have "1 \<le> List.length bs" using False by (cases bs) auto
    then have "List.length (encode_chunk ?c) + (12 * List.length (left f1) + 5) \<le> 12 * List.length (left f) + 5"
      "Suc (List.length (left f1)) \<le> List.length (left f)"
      using lb b(3) by simp_all
    then have w: "willing w (Suc (Suc (List.length (left f1)))) (List.length (encode_chunk ?c) + (12 * List.length (left f1) + 5))"
      using willing_mono [OF less.prems] by simp
    have "List.length (encode_chunk ?c) < 2 ^ 31" using lb small by (simp add: WEB_SERVER_BUF_SIZE_def)
    from write_willing [OF w this] obtain w1 where
      w1: "sock_write w (encode_chunk ?c) 0 = Some (int (List.length (encode_chunk ?c)), 0, w1)"
      "se_out w1 = se_out w @ encode_chunk ?c" "willing w1 (Suc (List.length (left f1))) (12 * List.length (left f1) + 5)"
      by auto
    obtain nw where nw: "sock_write w ((?h @ CRLF) @ bs @ CRLF) 0 = Some (nw, 0, w1)" "0 < nw"
      "size_of_int nw = List.length bs + List.length (?h @ CRLF) + 2"
      using w1(1) l lb small unfolding enc by (simp add: size_of_int_def WEB_SERVER_BUF_SIZE_def)
    have rnd: "file_round fs ins B f B w 0 = Some (None, f1, B, w1, 0)"
      using rd n b(1,2) False h(1) assms(2,3) nw
      by (simp add: file_round_def Let_def del: append_assoc length_append)
    from less.hyps [OF _ w1(3)] b(3) False obtain cs w' where
      r: "file_loop fs ins B f1 B w1 0 = Some (0, w', 0)" "list_all good_chunk cs"
      "concat (map snd cs) = left f1" "se_out w' = se_out w1 @ concat (map encode_chunk cs) @ last_chunk" by auto
    have "good_chunk ?c" using False by (simp add: good_chunk_def hex_digits_size)
    then show ?thesis
      using r b(3) rnd assms(4) w1(2)
      by (intro exI [of _ "?c # cs"] exI [of _ w']) (simp add: file_loop.simps [of _ _ _ f])
  qed
qed

lemma http_SendMessage_chunked:
  assumes rd: "reader fs (ins_IsVirtualFile ins) left" and ch: "ins_IsChunkActive ins" "ins_ReadSendSize ins < 0"
    and op: "fe_open fs (ins_IsVirtualFile ins) filename = Some f0"
      "(if ins_IsRangeActive ins then fe_seek fs (ins_IsVirtualFile ins) f0 (ins_RangeOffset ins) else Some f0) = Some f"
    and hdr: "hdr \<noteq> []" "List.length hdr < 2 ^ 31" and oom: "oom e = []"
    and w: "willing w (List.length (left f) + 2) (List.length hdr + 12 * List.length (left f) + 5)"
  shows "\<exists>cs w'. http_SendMessage fs e w 0 [ArgInstr ins, ArgBuf hdr (List.length hdr), ArgFile filename] = Some (0, e, w', 0) \<and>
     list_all good_chunk cs \<and> concat (map snd cs) = left f \<and>
     se_out w' = se_out w @ hdr @ concat (map encode_chunk cs) @ last_chunk"
proof -
  let ?B = WEB_SERVER_BUF_SIZE
  have m: "malloc_ok e (?B + CHUNK_HEADER_SIZE + CHUNK_TAIL_SIZE) = (True, e)"
    using oom by (simp add: malloc_ok_def WEB_SERVER_BUF_SIZE_def CHUNK_HEADER_SIZE_def CHUNK_TAIL_SIZE_def alloc_max_def)
  have "willing w (Suc (Suc (List.length (left f)))) (List.length hdr + (12 * List.length (left f) + 5))" using w by (simp add: add.assoc)
  from write_willing [OF this hdr(2)] obtain w1 where
    w1: "sock_write w hdr 0 = Some (int (List.length hdr), 0, w1)" "se_out w1 = se_out w @ hdr"
      "willing w1 (Suc (List.length (left f))) (12 * List.length (left f) + 5)" by auto
  have B: "0 < ?B" "?B \<le> ?B" by (simp_all add: WEB_SERVER_BUF_SIZE_def)
  from file_loop_chunked [OF rd ch B w1(3)] obtain cs w' where
    c: "file_loop fs ins ?B f ?B w1 0 = Some (0, w', 0)" "list_all good_chunk cs" "concat (map snd cs) = left f"
      "se_out w' = se_out w1 @ concat (map encode_chunk cs) @ last_chunk" by auto
  have sz: "size_of_int (int (List.length hdr)) = List.length hdr" using hdr(2) by (simp add: size_of_int_def)
  have "http_SendMessage fs e w 0 [ArgInstr ins, ArgBuf hdr (List.length hdr), ArgFile filename] = Some (0, e, w', 0)"
    using ch m hdr(1) w1(1) sz op c(1)
    by (simp add: http_SendMessage_def Let_def send_file_def block_read_def)
  then show ?thesis using c w1(2) by auto
qed


section \<open>Property\<close>


text \<open>A file is here what is left of its text; a read returns at most three bytes of it.\<close>

definition sample_files :: "string files" where
  "sample_files =
     \<lparr>fe_open = (\<lambda>virt name. if name = ''a.txt'' then Some ''abcdefgh'' else None),
      fe_seek = (\<lambda>virt f off. if 0 \<le> off then Some (drop (nat off) f) else None),
      fe_read = (\<lambda>virt f n. (int (List.length (take (min 3 n) f)), take (min 3 n) f, drop (min 3 n) f))\<rparr>"

definition sample_instruction :: send_instruction where
  "sample_instruction =
     \<lparr>ins_IsVirtualFile = False, ins_IsChunkActive = True, ins_IsRangeActive = True, ins_IsTrailers = False,
      ins_RangeHeader = [], ins_AcceptLanguageHeader = [], ins_RangeOffset = 2, ins_ReadSendSize = -1, ins_RecvWriteSize = 0\<rparr>"

definition sample_socket :: sock_env where
  "sample_socket =
     \<lparr>se_select = SelectInterrupted # replicate 8 SelectReady, se_recv = [], se_send = replicate 80 (Some 6),
      se_time = replicate 8 100, se_close = [], se_out = [], se_waits = []\<rparr>"


text \<open>
  With the number of bytes given beforehand the loop ends without another read, and so without
  the last chunk.
\<close>

lemma known_size_not_terminated:
  "\<exists>w' t'. http_SendMessage sample_files sample_env sample_socket 0
       [ArgInstr (sample_instruction\<lparr>ins_ReadSendSize := 3\<rparr>), ArgFile ''a.txt''] = Some (0, sample_env, w', t') \<and>
     se_out w' = encode_chunk (''3'', ''cde'')"
proof -
  let ?ins = "sample_instruction\<lparr>ins_ReadSendSize := 3\<rparr>"
  have h: "hex_digits 3 = ''3''" by (simp add: hex_digits.simps hex_digit_def)
  have s: "willing sample_socket (Suc 0) (List.length (encode_chunk (''3'', ''cde'')) + 0)"
    by (simp add: willing_def sample_socket_def encode_chunk_def CRLF_def eval_nat_numeral)
  have "List.length (encode_chunk (''3'', ''cde'')) < 2 ^ 31" by (simp add: encode_chunk_def CRLF_def)
  from write_willing [OF s this] obtain w1 where
    w1: "sock_write sample_socket (encode_chunk (''3'', ''cde'')) 0 = Some (8, 0, w1)" "se_out w1 = encode_chunk (''3'', ''cde'')"
    by (auto simp: encode_chunk_def CRLF_def sample_socket_def)
  have "file_round sample_files ?ins 3 ''cdefgh'' 3 sample_socket 0 = Some (None, ''fgh'', 0, w1, 0)"
    using w1(1) h
    by (simp add: file_round_def sample_files_def sample_instruction_def size_of_int_def chunk_header_def
        CHUNK_HEADER_SIZE_def encode_chunk_def CRLF_def size_sub_def)
  then have "file_loop sample_files ?ins 3 ''cdefgh'' 3 sample_socket 0 = Some (0, w1, 0)"
    by (simp add: file_loop.simps)
  then show ?thesis using w1(2)
    by (simp add: http_SendMessage_def send_file_def sample_files_def sample_instruction_def sample_env_def malloc_ok_def
        WEB_SERVER_BUF_SIZE_def CHUNK_HEADER_SIZE_def CHUNK_TAIL_SIZE_def alloc_max_def)
qed

text \<open>A file name without an instruction before it sends nothing of the file.\<close>

lemma file_without_instruction:
  "fe_open fs False filename = Some f \<Longrightarrow> http_SendMessage fs e w t [ArgFile filename] = Some (0, e, w, t)"
  by (simp add: http_SendMessage_def send_file_def)

end
