(* ===== verification/HttpGet.thy ===== *)
theory HttpGet
  imports HttpReceive HttpSend
begin

text \<open>
  Requests and their responses, \<open>upnp/src/genlib/net/http/httpreadwrite.c\<close>: a request with the whole
  response, and a GET whose entity is read piece by piece through a handle. The pieces that successive
  calls of \<open>http_ReadHttpGet\<close> return are, in order, the entity.

  The results of \<open>socket\<close> and \<open>connect\<close> are arguments. \<open>cancel\<close>, which another thread may set, is
  what it is when the call starts.
\<close>

abbreviation (input) UPNP_E_SOCKET_CONNECT :: int where "UPNP_E_SOCKET_CONNECT \<equiv> -204"

section \<open>A request and its response\<close>

text \<open>The result, the response, the allocator, and the connection as it is left.\<close>

definition http_RequestAndResponse ::
  "'f files \<Rightarrow> net_env \<Rightarrow> nat \<Rightarrow> alloc_env \<Rightarrow> sock_env \<Rightarrow> int \<Rightarrow> int \<Rightarrow> string \<Rightarrow> nat \<Rightarrow> http_method \<Rightarrow> int \<Rightarrow> int
     \<Rightarrow> (int \<times> http_parser \<times> alloc_env \<times> sock_env) option"
where
  "http_RequestAndResponse fs env g e w tcp_connection connected request request_length req_method timeout_secs
       http_error_code =
     (if tcp_connection = INVALID_SOCKET then Some (UPNP_E_SOCKET_ERROR, parser_response_init req_method, e, w)
      else
        (let (rc, info) = sock_init tcp_connection;
             end_function = (\<lambda>(ret_code, response, e1, w1).
               map_option (\<lambda>(_, w2, _). (ret_code, response, e1, w2)) (sock_destroy w1 info))
         in if rc \<noteq> 0 then end_function (UPNP_E_SOCKET_ERROR, parser_response_init req_method, e, w)
            else if connected = -1 then end_function (UPNP_E_SOCKET_CONNECT, parser_response_init req_method, e, w)
            else
              Option.bind (http_SendMessage fs e w timeout_secs [ArgBuf request request_length]) (\<lambda>(ret_code, e1, w1, t1).
                if ret_code \<noteq> 0 then end_function (ret_code, parser_response_init req_method, e1, w1)
                else
                  Option.bind (http_RecvMessage env g e1 w1 req_method t1 http_error_code) (\<lambda>(ret, rv).
                    end_function (ret, rv_parser rv, rv_alloc rv, rv_sock rv)))))"


section \<open>The response line and the headers\<close>

definition line_step ::
  "net_env \<Rightarrow> bool \<Rightarrow> alloc_env \<Rightarrow> http_parser \<Rightarrow> (parse_status \<times> alloc_env \<times> http_parser) option" where
  "line_step env headers e p =
     (if headers then parser_parse_headers env e p else parser_parse_responseline env e p)"

definition line_done :: "bool \<Rightarrow> parse_status \<Rightarrow> http_parser \<Rightarrow> bool" where
  "line_done headers st p \<longleftrightarrow> st = PARSE_OK \<and> (headers \<longrightarrow> p_position p = POS_ENTITY)"

text \<open>One of the two loops; the value it returns, or \<open>None\<close> when it is done.\<close>

partial_function (option) read_lines :: "net_env \<Rightarrow> bool \<Rightarrow> receiving \<Rightarrow> (int option \<times> receiving) option" where
  "read_lines env headers rv =
     Option.bind (sock_read (rv_sock rv) recv_buf_size (rv_timeout rv)) (\<lambda>(num_read, buf, t, w).
       let rv1 = rv\<lparr>rv_sock := w, rv_timeout := t\<rparr>
       in if num_read > 0 then
            Option.bind (membuffer_append (rv_alloc rv) (hm_msg (p_msg (rv_parser rv))) (Some buf) (nat num_read))
              (\<lambda>(ret_code, e1, b).
                let p1 = upd_msg (\<lambda>m. m\<lparr>hm_msg := b\<rparr>) (rv_parser rv)
                in if ret_code \<noteq> 0
                   then Some (Some (status_code PARSE_FAILURE),
                              rv1\<lparr>rv_alloc := e1, rv_parser := fail_with HTTP_INTERNAL_SERVER_ERROR p1\<rparr>)
                   else
                     Option.bind (line_step env headers e1 p1) (\<lambda>(st, e2, p2).
                       let rv2 = rv1\<lparr>rv_alloc := e2, rv_parser := p2\<rparr>
                       in if line_done headers st p2 then Some (None, rv2)
                          else if st = PARSE_INCOMPLETE then read_lines env headers rv2
                          else Some (Some (status_code st), rv2)))
          else if num_read = 0 then Some (Some UPNP_E_BAD_HTTPMSG, rv1\<lparr>rv_error_code := HTTP_BAD_REQUEST\<rparr>)
          else Some (Some num_read, rv1\<lparr>rv_error_code := p_http_error_code (rv_parser rv)\<rparr>))"

definition lines_phase :: "net_env \<Rightarrow> bool \<Rightarrow> receiving \<Rightarrow> (int option \<times> receiving) option" where
  "lines_phase env headers rv =
     Option.bind (line_step env headers (rv_alloc rv) (rv_parser rv)) (\<lambda>(st, e, p).
       let rv1 = rv\<lparr>rv_alloc := e, rv_parser := p\<rparr>
       in if line_done headers st p then Some (None, rv1)
          else if st = PARSE_INCOMPLETE then read_lines env headers rv1
          else Some (Some (status_code st), rv1))"

definition ReadResponseLineAndHeaders :: "net_env \<Rightarrow> receiving \<Rightarrow> (int \<times> receiving) option" where
  "ReadResponseLineAndHeaders env rv =
     Option.bind (lines_phase env False rv) (\<lambda>(r, rv1).
       case r of
         Some c \<Rightarrow> Some (c, rv1)
       | None \<Rightarrow>
           map_option (\<lambda>(r, rv2). (case r of Some c \<Rightarrow> c | None \<Rightarrow> status_code PARSE_OK, rv2))
             (lines_phase env True rv1))"


section \<open>The handle of a GET\<close>

record get_handle =
  gh_response :: http_parser
  gh_sock :: sock_env
  gh_info :: sockinfo
  gh_entity_offset :: int
  gh_cancel :: bool

text \<open>The state of the loop of \<open>http_ReadHttpGet\<close>.\<close>

record reading =
  rd_alloc :: alloc_env
  rd_sock :: sock_env
  rd_parser :: http_parser
  rd_timeout :: int
  rd_ok_on_close :: bool

abbreviation rd_msg :: "reading \<Rightarrow> http_message" where "rd_msg rd \<equiv> p_msg (rd_parser rd)"

text \<open>What is done with the status of \<open>parser_parse_entity\<close>: \<open>None\<close> to go on.\<close>

definition after_entity :: "parse_status \<Rightarrow> reading \<Rightarrow> int option \<times> reading" where
  "after_entity status rd =
     (case status of
        PARSE_INCOMPLETE_ENTITY \<Rightarrow> (None, rd\<lparr>rd_ok_on_close := True\<rparr>)
      | PARSE_SUCCESS \<Rightarrow> (None, rd)
      | PARSE_CONTINUE_1 \<Rightarrow> (None, rd)
      | PARSE_INCOMPLETE \<Rightarrow> (None, rd)
      | _ \<Rightarrow> (Some UPNP_E_BAD_RESPONSE, rd))"

definition parse_what_came :: "net_env \<Rightarrow> reading \<Rightarrow> (int option \<times> reading) option" where
  "parse_what_came env rd =
     Option.bind (parser_parse_entity env (rd_alloc rd) (rd_parser rd)) (\<lambda>(status, e, p).
       Some (after_entity status (rd\<lparr>rd_alloc := e, rd_parser := p\<rparr>)))"

definition read_more :: "net_env \<Rightarrow> reading \<Rightarrow> (int option \<times> reading) option" where
  "read_more env rd =
     Option.bind (sock_read (rd_sock rd) recv_buf_size (rd_timeout rd)) (\<lambda>(num_read, tempbuf, t, w).
       let rd1 = rd\<lparr>rd_sock := w, rd_timeout := t\<rparr>
       in if num_read > 0 then
            Option.bind (membuffer_append (rd_alloc rd) (hm_msg (rd_msg rd)) (Some tempbuf) (nat num_read))
              (\<lambda>(ret_code, e1, b).
                let p1 = upd_msg (\<lambda>m. m\<lparr>hm_msg := b\<rparr>) (rd_parser rd)
                in if ret_code \<noteq> 0
                   then Some (Some (status_code PARSE_FAILURE),
                              rd1\<lparr>rd_alloc := e1, rd_parser := fail_with HTTP_INTERNAL_SERVER_ERROR p1\<rparr>)
                   else parse_what_came env (rd1\<lparr>rd_alloc := e1, rd_parser := p1\<rparr>))
          else if num_read = 0 then
            Some (if rd_ok_on_close rd
                  then (None, rd1\<lparr>rd_parser := (rd_parser rd)\<lparr>p_position := POS_COMPLETE\<rparr>\<rparr>)
                  else (Some UPNP_E_BAD_HTTPMSG, rd1\<lparr>rd_parser := fail_with HTTP_BAD_REQUEST (rd_parser rd)\<rparr>))
          else Some (Some num_read, rd1))"

definition wants_more :: "nat \<Rightarrow> bool \<Rightarrow> reading \<Rightarrow> bool" where
  "wants_more sz cancel rd \<longleftrightarrow>
     size_add (hm_amount_discarded (rd_msg rd)) sz > hm_entity_length (rd_msg rd) \<and>
     \<not> cancel \<and> p_position (rd_parser rd) \<noteq> POS_COMPLETE"

partial_function (option) read_get_loop :: "net_env \<Rightarrow> nat \<Rightarrow> bool \<Rightarrow> reading \<Rightarrow> (int option \<times> reading) option" where
  "read_get_loop env sz cancel rd =
     (if wants_more sz cancel rd then
        Option.bind (read_more env rd) (\<lambda>(r, rd1).
          case r of None \<Rightarrow> read_get_loop env sz cancel rd1 | Some c \<Rightarrow> Some (Some c, rd1))
      else Some (None, rd))"

text \<open>The end of the function: what is copied to the caller, and the parser afterwards.\<close>

definition take_data :: "nat \<Rightarrow> reading \<Rightarrow> (nat \<times> string \<times> reading) option" where
  "take_data sz rd =
     (let m = rd_msg rd; p = rd_parser rd;
          size1 = (if size_add (hm_amount_discarded m) sz > hm_entity_length m
                   then size_sub (hm_entity_length m) (hm_amount_discarded m) else sz)
      in if size1 = 0 then Some (0, [], rd)
         else
           Option.bind (mb_buf (hm_msg m)) (\<lambda>b.
           Option.bind (block_read b (p_entity_start_position p) size1) (\<lambda>data.
           Option.bind (delete_from_msg (rd_alloc rd) p (p_entity_start_position p) size1) (\<lambda>(e1, p1).
             Some (size1, data,
               rd\<lparr>rd_alloc := e1,
                  rd_parser := (upd_msg (\<lambda>m. m\<lparr>hm_amount_discarded := size_add (hm_amount_discarded m) size1\<rparr>) p1)
                    \<lparr>p_cursor := size_sub (p_cursor p1) size1\<rparr>\<rparr>)))))"

text \<open>The result, \<open>*size\<close>, the bytes stored in \<open>buf\<close>, and the handle; \<open>buf\<close> says whether it is given.\<close>

definition http_ReadHttpGet ::
  "net_env \<Rightarrow> alloc_env \<Rightarrow> get_handle option \<Rightarrow> bool \<Rightarrow> nat option \<Rightarrow> int
     \<Rightarrow> (int \<times> nat option \<times> string \<times> alloc_env \<times> get_handle option) option"
where
  "http_ReadHttpGet env e handle buf sizep timeout =
     (case (handle, sizep) of
        (Some h, Some sz) \<Rightarrow>
          if sz > 0 \<and> \<not> buf then Some (UPNP_E_INVALID_PARAM, Some 0, [], e, handle)
          else
            (let rd = \<lparr>rd_alloc = e, rd_sock = gh_sock h, rd_parser = gh_response h, rd_timeout = timeout, rd_ok_on_close = False\<rparr>;
                 result = (\<lambda>rd1. h\<lparr>gh_sock := rd_sock rd1, gh_response := rd_parser rd1\<rparr>)
             in Option.bind
                  (if p_position (gh_response h) \<noteq> POS_COMPLETE then parse_what_came env rd else Some (None, rd)) (\<lambda>(r, rd1).
                  case r of
                    Some c \<Rightarrow> Some (c, Some 0, [], rd_alloc rd1, Some (result rd1))
                  | None \<Rightarrow>
                      Option.bind (read_get_loop env sz (gh_cancel h) rd1) (\<lambda>(r, rd2).
                      case r of
                        Some c \<Rightarrow> Some (c, Some 0, [], rd_alloc rd2, Some (result rd2))
                      | None \<Rightarrow>
                          if gh_cancel h then Some (UPNP_E_CANCELED, sizep, [], rd_alloc rd2, Some (result rd2))
                          else map_option (\<lambda>(n, data, rd3). (0, Some n, data, rd_alloc rd3, Some (result rd3)))
                                 (take_data sz rd2))))
      | _ \<Rightarrow> Some (UPNP_E_INVALID_PARAM, map_option (\<lambda>_. 0) sizep, [], e, handle))"

definition http_HttpGetProgress :: "get_handle option \<Rightarrow> bool \<Rightarrow> bool \<Rightarrow> int \<times> (nat \<times> nat) option" where
  "http_HttpGetProgress handle len_ptr total_ptr =
     (case handle of
        Some h \<Rightarrow>
          if \<not> len_ptr \<or> \<not> total_ptr then (UPNP_E_INVALID_PARAM, None)
          else (0, Some (hm_entity_length (p_msg (gh_response h)), p_content_length (gh_response h)))
      | None \<Rightarrow> (UPNP_E_INVALID_PARAM, None))"

definition http_CancelHttpGet :: "get_handle option \<Rightarrow> int \<times> get_handle option" where
  "http_CancelHttpGet handle =
     (case handle of None \<Rightarrow> (UPNP_E_INVALID_PARAM, None) | Some h \<Rightarrow> (0, Some (h\<lparr>gh_cancel := True\<rparr>)))"

text \<open>The result, and the connection and the message once destroyed.\<close>

definition http_CloseHttpGet ::
  "get_handle option \<Rightarrow> (int \<times> (sock_env \<times> http_header list \<times> http_message) option) option" where
  "http_CloseHttpGet handle =
     (case handle of
        None \<Rightarrow> Some (UPNP_E_INVALID_PARAM, None)
      | Some h \<Rightarrow>
          map_option (\<lambda>(_, w, _). (0, Some (w, httpmsg_destroy (p_msg (gh_response h)))))
            (sock_destroy (gh_sock h) (gh_info h)))"


section \<open>An entity of known length\<close>

definition entity_bytes :: "http_parser \<Rightarrow> string" where
  "entity_bytes p = drop (p_entity_start_position p) (contents (hm_msg (p_msg p)))"

text \<open>
  The state between two calls. \<open>E\<close> is what is still to be delivered of an entity of \<open>n\<close> bytes: as
  much of it as is in the buffer or on its way.
\<close>

definition getting :: "nat \<Rightarrow> nat \<Rightarrow> string \<Rightarrow> http_parser \<Rightarrow> sock_env \<Rightarrow> bool" where
  "getting n d E p w \<longleftrightarrow>
     wf_membuffer (hm_msg (p_msg p)) \<and> p_entity_start_position p \<le> mb_length (hm_msg (p_msg p)) \<and>
     p_ent_position p = ENTREAD_USING_CLEN \<and> p_content_length p = n \<and> n < 2 ^ 32 \<and>
     hm_amount_discarded (p_msg p) = d \<and> d \<le> n \<and> mb_length (hm_msg (p_msg p)) + List.length (incoming w) < 2 ^ 31 \<and>
     (if p_position p = POS_COMPLETE
      then hm_entity_length (p_msg p) = n \<and> n \<le> hm_amount_discarded (p_msg p) + List.length (entity_bytes p) \<and>
        E = take (n - hm_amount_discarded (p_msg p)) (entity_bytes p)
      else p_position p = POS_ENTITY \<and> E = take (n - hm_amount_discarded (p_msg p)) (entity_bytes p @ incoming w))"

text \<open>What the entity's length is once the parser has seen what is there.\<close>

definition synced :: "http_parser \<Rightarrow> bool" where
  "synced p \<longleftrightarrow> p_position p = POS_ENTITY \<longrightarrow>
     hm_entity_length (p_msg p) = hm_amount_discarded (p_msg p) + List.length (entity_bytes p) \<and>
     hm_entity_length (p_msg p) < p_content_length p"

lemma entity_bytes_length:
  "wf_membuffer (hm_msg (p_msg p)) \<Longrightarrow>
   List.length (entity_bytes p) = mb_length (hm_msg (p_msg p)) - p_entity_start_position p"
  by (simp add: entity_bytes_def length_contents)

text \<open>The terminator the parser writes after the entity.\<close>

lemma terminate_entity:
  assumes "wf_membuffer m" and "mb_buf m = Some b" and "i < mb_length m"
  shows "\<exists>b'. block_write b i [NUL] = Some b' \<and> wf_membuffer (m\<lparr>mb_buf := Some b'\<rparr>) \<and>
     contents (m\<lparr>mb_buf := Some b'\<rparr>) = (contents m)[i := NUL]"
proof -
  have l: "mb_length m < List.length b" using assms(1,2) by (auto simp: wf_membuffer_def room_def)
  then have w: "block_write b i [NUL] = Some (b[i := NUL])"
    using assms(3) by (simp add: block_write_def upd_conv_take_nth_drop)
  show ?thesis using assms w
    by (auto simp: wf_membuffer_def room_def contents_def bytes_def take_update_swap)
qed

lemma parse_clen:
  assumes g: "getting n d E p w" and en: "p_position p = POS_ENTITY"
  shows "\<exists>st p'. parser_parse_entity env e p = Some (st, e, p') \<and> st \<in> {PARSE_SUCCESS, PARSE_INCOMPLETE} \<and>
     getting n d E p' w \<and> synced p'"
proof -
  let ?m = "p_msg p" and ?es = "p_entity_start_position p" and ?d = "hm_amount_discarded (p_msg p)"
  let ?B = "entity_bytes p" and ?len = "List.length (entity_bytes p) + hm_amount_discarded (p_msg p)"
  note gd = g [unfolded getting_def]
  have wf: "wf_membuffer (hm_msg ?m)" and es: "?es \<le> mb_length (hm_msg ?m)" and d: "?d \<le> n" and n32: "n < 2 ^ 32"
    and sm: "mb_length (hm_msg ?m) < 2 ^ 31" and E: "E = take (n - ?d) (?B @ incoming w)"
    using gd en by auto
  note B = entity_bytes_length [OF wf]
  have len: "size_add (size_sub (mb_length (hm_msg ?m)) ?es) ?d = ?len"
    using es d n32 sm B by (simp add: size_sub_exact size_add_exact)
  let ?p1 = "upd_msg (\<lambda>m. m\<lparr>hm_entity_length := ?len\<rparr>) p"
  show ?thesis
  proof (cases "?len < n")
    case True
    then have r: "parser_parse_entity env e p = Some (PARSE_INCOMPLETE, e, ?p1)"
      using gd en len
      by (simp add: parser_parse_entity_def entity_loop.simps [of env e p] entity_round_def
          keep_env_def parser_parse_entity_using_clen_def Let_def)
    have "entity_bytes ?p1 = ?B" by (simp add: entity_bytes_def)
    then have "getting n d E ?p1 w" "synced ?p1" using gd en True by (simp_all add: getting_def synced_def)
    then show ?thesis using r by blast
  next
    case False
    define p2 where "p2 = (\<lambda>buf. (upd_msg (\<lambda>m. m\<lparr>hm_msg := (hm_msg m)\<lparr>mb_buf := buf\<rparr>, hm_entity_length := n,
        hm_entity_buf := Some ?es\<rparr>) ?p1)\<lparr>p_position := POS_COMPLETE\<rparr>)"
    let ?b2 = "\<lambda>buf. (hm_msg ?m)\<lparr>mb_buf := buf\<rparr>"
    have "\<exists>buf. parser_parse_entity env e p = Some (PARSE_SUCCESS, e, p2 buf) \<and> wf_membuffer (?b2 buf) \<and>
        take (n - ?d) (drop ?es (contents (?b2 buf))) = take (n - ?d) ?B"
    proof (cases "?len = n")
      case True
      then have "parser_parse_entity env e p = Some (PARSE_SUCCESS, e, p2 (mb_buf (hm_msg ?m)))"
        using gd en len
        by (simp add: parser_parse_entity_def entity_loop.simps [of env e p] entity_round_def
            keep_env_def parser_parse_entity_using_clen_def Let_def p2_def)
      then show ?thesis using wf by (intro exI [of _ "mb_buf (hm_msg ?m)"]) (simp add: entity_bytes_def)
    next
      case long: False
      then have gt: "n < ?len" using False by simp
      then have i: "?es + (n - ?d) < mb_length (hm_msg ?m)" using B d es by simp
      then obtain b where b: "mb_buf (hm_msg ?m) = Some b" using wf by (auto simp: wf_membuffer_def room_def split: option.splits)
      have ix: "size_sub (size_add ?es n) ?d = ?es + (n - ?d)"
        using es sm n32 d by (simp add: size_sub_exact size_add_exact)
      from terminate_entity [OF wf b i] obtain b' where
        b': "block_write b (?es + (n - ?d)) [NUL] = Some b'" "wf_membuffer (?b2 (Some b'))"
          "contents (?b2 (Some b')) = (contents (hm_msg ?m))[?es + (n - ?d) := NUL]" by blast
      have "parser_parse_entity env e p = Some (PARSE_SUCCESS, e, p2 (Some b'))"
        using gd en len gt b b'(1) ix
        by (simp add: parser_parse_entity_def entity_loop.simps [of env e p] entity_round_def
            keep_env_def parser_parse_entity_using_clen_def Let_def p2_def)
      moreover have "take (n - ?d) (drop ?es ((contents (hm_msg ?m))[?es + (n - ?d) := NUL])) = take (n - ?d) ?B"
        by (simp add: entity_bytes_def drop_update_swap)
      ultimately show ?thesis using b' by auto
    qed
    then obtain buf where buf: "parser_parse_entity env e p = Some (PARSE_SUCCESS, e, p2 buf)" "wf_membuffer (?b2 buf)"
      "take (n - ?d) (drop ?es (contents (?b2 buf))) = take (n - ?d) ?B" by blast
    have eb: "entity_bytes (p2 buf) = drop ?es (contents (?b2 buf))" by (simp add: entity_bytes_def p2_def)
    have "List.length (entity_bytes (p2 buf)) = List.length ?B"
      using entity_bytes_length [of "p2 buf"] buf(2) B by (simp add: p2_def)
    moreover have "E = take (n - ?d) ?B" using E False by simp
    ultimately have "getting n d E (p2 buf) w" "synced (p2 buf)"
      using gd buf(2,3) eb False by (simp_all add: getting_def synced_def p2_def)
    then show ?thesis using buf(1) by blast
  qed
qed

text \<open>The state of one call that is going well.\<close>

definition on_course :: "nat \<Rightarrow> nat \<Rightarrow> string \<Rightarrow> alloc_env \<Rightarrow> reading \<Rightarrow> bool" where
  "on_course n d E e rd \<longleftrightarrow>
     rd_alloc rd = e \<and> quiet e \<and> \<not> rd_ok_on_close rd \<and> getting n d E (rd_parser rd) (rd_sock rd)"

lemma parse_what_came_on_course:
  assumes "on_course n d E e rd" and "p_position (rd_parser rd) \<noteq> POS_COMPLETE"
  shows "\<exists>rd1. parse_what_came env rd = Some (None, rd1) \<and> on_course n d E e rd1 \<and> synced (rd_parser rd1)"
proof -
  have g: "getting n d E (rd_parser rd) (rd_sock rd)" and c: "rd_alloc rd = e" "quiet e" "\<not> rd_ok_on_close rd"
    using assms(1) by (simp_all add: on_course_def)
  have "p_position (rd_parser rd) = POS_ENTITY" using g assms(2) by (simp add: getting_def)
  from parse_clen [OF g this, of env e] c show ?thesis
    by (auto simp: parse_what_came_def on_course_def after_entity_def)
qed

lemma getting_append:
  assumes g: "getting n d E p w" and en: "p_position p \<noteq> POS_COMPLETE" and inc: "incoming w = buf @ incoming w'"
    and q: "quiet e" and ne: "buf \<noteq> []" and k: "k = List.length buf"
  shows "\<exists>b. membuffer_append e (hm_msg (p_msg p)) (Some buf) k = Some (0, e, b) \<and>
     getting n d E (upd_msg (\<lambda>m. m\<lparr>hm_msg := b\<rparr>) p) w'"
proof -
  note gd = g [unfolded getting_def]
  have wf: "wf_membuffer (hm_msg (p_msg p))" and sm: "mb_length (hm_msg (p_msg p)) + List.length (incoming w) < 2 ^ 31"
    using gd by auto
  have "mb_length (hm_msg (p_msg p)) + List.length buf < 2 ^ 31" using sm inc by simp
  from append_succeeds [OF wf _ ne this k] q obtain b where
    b: "membuffer_append e (hm_msg (p_msg p)) (Some buf) k = Some (0, e, b)" "wf_membuffer b"
      "contents b = contents (hm_msg (p_msg p)) @ buf" by (auto simp: quiet_def)
  let ?p = "upd_msg (\<lambda>m. m\<lparr>hm_msg := b\<rparr>) p"
  have l: "mb_length b = mb_length (hm_msg (p_msg p)) + List.length buf"
    using length_contents [OF b(2)] length_contents [OF wf] b(3) by simp
  have "entity_bytes ?p = entity_bytes p @ buf"
    using gd b(3) length_contents [OF wf] by (simp add: entity_bytes_def)
  then have "getting n d E ?p w'" using gd en b(2) l inc by (simp add: getting_def)
  then show ?thesis using b(1) by blast
qed

lemma read_more_on_course:
  assumes c: "on_course n d E e rd" and en: "p_position (rd_parser rd) \<noteq> POS_COMPLETE"
    and r: "read_more env rd = Some (None, rd1)"
  shows "on_course n d E e rd1 \<and> synced (rd_parser rd1)"
proof -
  obtain num_read buf t w where s: "sock_read (rd_sock rd) recv_buf_size (rd_timeout rd) = Some (num_read, buf, t, w)"
    using r by (auto simp: read_more_def bind_eq_Some_conv)
  from sock_read_incoming [OF s] have inc: "incoming (rd_sock rd) = buf @ incoming w"
    "0 \<le> num_read \<Longrightarrow> num_read = int (List.length buf)" by (simp_all add: recv_buf_size_def)
  have pos: "0 < num_read"
    using r s c by (auto simp: read_more_def on_course_def Let_def split: if_splits)
  then have k: "nat num_read = List.length buf" "buf \<noteq> []" using inc(2) by auto
  have g: "getting n d E (rd_parser rd) (rd_sock rd)" and q: "quiet e" "rd_alloc rd = e" "\<not> rd_ok_on_close rd"
    using c by (simp_all add: on_course_def)
  from getting_append [OF g en inc(1) q(1) k(2,1)] obtain b where
    b: "membuffer_append e (hm_msg (rd_msg rd)) (Some buf) (nat num_read) = Some (0, e, b)"
      "getting n d E (upd_msg (\<lambda>m. m\<lparr>hm_msg := b\<rparr>) (rd_parser rd)) w" by blast
  let ?rd = "rd\<lparr>rd_sock := w, rd_timeout := t, rd_alloc := e, rd_parser := upd_msg (\<lambda>m. m\<lparr>hm_msg := b\<rparr>) (rd_parser rd)\<rparr>"
  have "on_course n d E e ?rd" using b(2) q by (simp add: on_course_def)
  moreover have "p_position (rd_parser ?rd) \<noteq> POS_COMPLETE" using en by simp
  ultimately obtain rd2 where "parse_what_came env ?rd = Some (None, rd2)" "on_course n d E e rd2" "synced (rd_parser rd2)"
    using parse_what_came_on_course by blast
  then show ?thesis using r s pos b(1) q(2) by (simp add: read_more_def)
qed

lemma read_get_loop_on_course:
  assumes "read_get_loop env sz False rd = Some (None, rd1)" and "on_course n d E e rd" and "synced (rd_parser rd)"
  shows "on_course n d E e rd1 \<and> synced (rd_parser rd1) \<and> \<not> wants_more sz False rd1"
proof -
  let ?P = "\<lambda>(env :: net_env) sz cancel rd (y :: int option \<times> reading). \<not> cancel \<longrightarrow> fst y = None \<longrightarrow> on_course n d E e rd \<longrightarrow> synced (rd_parser rd) \<longrightarrow>
    on_course n d E e (snd y) \<and> synced (rd_parser (snd y)) \<and> \<not> wants_more sz False (snd y)"
  have "?P env sz False rd (None, rd1)"
  proof (rule read_get_loop.raw_induct [where P = ?P, OF _ assms(1)], intro impI)
    fix loop env sz cancel rd y
    assume IH: "\<And>env sz cancel rd y. loop env sz cancel rd = Some y \<Longrightarrow> ?P env sz cancel rd y"
      and y: "(if wants_more sz cancel rd then
         Option.bind (read_more env rd) (\<lambda>(r, rd1).
           case r of None \<Rightarrow> loop env sz cancel rd1 | Some c \<Rightarrow> Some (Some c, rd1))
       else Some (None, rd)) = Some y"
      and c: "\<not> cancel" "fst y = None" "on_course n d E e rd" "synced (rd_parser rd)"
    show "on_course n d E e (snd y) \<and> synced (rd_parser (snd y)) \<and> \<not> wants_more sz False (snd y)"
    proof (cases "wants_more sz cancel rd")
      case False
      then show ?thesis using y c by auto
    next
      case True
      then obtain r rd2 where rd2: "read_more env rd = Some (r, rd2)"
        "(case r of None \<Rightarrow> loop env sz cancel rd2 | Some c \<Rightarrow> Some (Some c, rd2)) = Some y"
        using y by (auto simp: bind_eq_Some_conv)
      then have r: "r = None" "loop env sz cancel rd2 = Some y" using c(2) by (auto split: option.splits)
      have "p_position (rd_parser rd) \<noteq> POS_COMPLETE" using True by (simp add: wants_more_def)
      from read_more_on_course [OF c(3) this] rd2(1) r(1) have "on_course n d E e rd2 \<and> synced (rd_parser rd2)" by blast
      with IH [OF r(2)] c show ?thesis by blast
    qed
  qed
  then show ?thesis using assms(2,3) by simp
qed

lemma take_data_on_course:
  assumes c: "on_course n d E e rd" and sy: "synced (rd_parser rd)" and nw: "\<not> wants_more sz False rd" and sz: "sz < 2 ^ 63"
  shows "\<exists>rd1. take_data sz rd = Some (List.length (take sz E), take sz E, rd1) \<and> on_course n (d + List.length (take sz E)) (drop sz E) e rd1"
proof -
  let ?p = "rd_parser rd" and ?m = "p_msg (rd_parser rd)"
  let ?d = "hm_amount_discarded ?m" and ?B = "entity_bytes ?p" and ?es = "p_entity_start_position ?p"
  have g: "getting n d E ?p (rd_sock rd)" and q: "quiet e" "rd_alloc rd = e" "\<not> rd_ok_on_close rd"
    using c by (simp_all add: on_course_def)
  note gd = g [unfolded getting_def]
  have wf: "wf_membuffer (hm_msg ?m)" and es: "?es \<le> mb_length (hm_msg ?m)" and d: "?d \<le> n" "n < 2 ^ 32" using gd by auto
  define k where "k = List.length (take sz E)"
  have El: "hm_entity_length ?m \<le> n" "hm_entity_length ?m \<le> ?d + List.length ?B"
    using gd sy c by (auto simp: synced_def split: if_splits)
  have B2: "List.length ?B < 2 ^ 31" using gd entity_bytes_length [OF wf] by auto
  have "(if size_add ?d sz > hm_entity_length ?m then size_sub (hm_entity_length ?m) ?d else sz) = k \<and>
     k \<le> List.length ?B \<and> ?d + k \<le> n \<and> take sz E = take k ?B \<and> drop sz E = drop k E"
  proof (cases "p_position ?p = POS_COMPLETE")
    case True
    then have e: "hm_entity_length ?m = n" "n \<le> ?d + List.length ?B" "E = take (n - ?d) ?B" using gd by auto
    have kd: "k = min sz (n - ?d)" using e d by (simp add: k_def)
    have a: "size_add ?d sz = ?d + sz" "size_sub n ?d = n - ?d" using d sz by (simp_all add: size_add_exact size_sub_exact)
    have "drop sz E = drop k E" "take sz E = take k ?B"
      unfolding e(3) using e(2) by (simp_all add: kd min_def)
    moreover have "(if ?d + sz > n then n - ?d else sz) = k" "k \<le> List.length ?B" "?d + k \<le> n"
      using kd d(1) e(2) by simp_all
    ultimately show ?thesis unfolding e(1) a by blast
  next
    case False
    then have e: "E = take (n - ?d) (?B @ incoming (rd_sock rd))" "hm_entity_length ?m = ?d + List.length ?B"
      "hm_entity_length ?m < n" using gd sy by (auto simp: synced_def)
    have a: "size_add ?d sz = ?d + sz" using d sz by (simp add: size_add_exact)
    then have le: "sz \<le> List.length ?B" "\<not> ?d + sz > hm_entity_length ?m"
      using nw False e(2) by (simp_all add: wants_more_def)
    have kd: "k = sz" using e le by (simp add: k_def)
    have "take sz E = take sz ?B" unfolding e(1) using le e by simp
    then show ?thesis using e a le kd by simp
  qed
  then have kif: "(if size_add ?d sz > hm_entity_length ?m then size_sub (hm_entity_length ?m) ?d else sz) = k"
    and kB: "k \<le> List.length ?B" and kn: "?d + k \<le> n" and kt: "take sz E = take k ?B" and kdr: "drop sz E = drop k E"
    by blast+
  show ?thesis
  proof (cases "k = 0")
    case True
    then have z: "take sz E = []" "drop sz E = E" using kt kdr by simp_all
    have "take_data sz rd = Some (0, [], rd)" using kif True by (simp add: take_data_def Let_def)
    then show ?thesis unfolding z using c by (intro exI [of _ rd]) simp
  next
    case False
    then obtain b where b: "mb_buf (hm_msg ?m) = Some b"
      using kB False wf entity_bytes_length [OF wf] by (auto simp: wf_membuffer_def room_def split: option.splits)
    have lb: "mb_length (hm_msg ?m) < List.length b" using wf b by (auto simp: wf_membuffer_def room_def)
    have kb: "k \<le> mb_length (hm_msg ?m) - ?es" using kB entity_bytes_length [OF wf] by simp
    have rdb: "block_read b ?es k = Some (take k ?B)"
      using kb es lb b by (simp add: block_read_def entity_bytes_def contents_def bytes_def drop_take min_def)
    have kl: "k \<le> mb_length (hm_msg ?m)" using kb by simp
    obtain e1 m1 where dl: "membuffer_delete e (hm_msg ?m) ?es k = Some (e1, m1)" "wf_membuffer m1"
      "contents m1 = take ?es (contents (hm_msg ?m)) @ drop (?es + k) (contents (hm_msg ?m))"
      using membuffer_delete_ok [OF wf es kl, of e] q(1) by (auto simp: quiet_def)
    have e1: "e1 = e" using quiet_delete [OF q(1) dl(1)] .
    let ?p1 = "(upd_msg (\<lambda>m. m\<lparr>hm_amount_discarded := size_add (hm_amount_discarded m) k\<rparr>)
        (upd_msg (\<lambda>m. m\<lparr>hm_msg := m1\<rparr>) ?p))\<lparr>p_cursor := size_sub (p_cursor ?p) k\<rparr>"
    let ?rd = "rd\<lparr>rd_alloc := e, rd_parser := ?p1\<rparr>"
    have t: "take_data sz rd = Some (k, take k ?B, ?rd)"
      using kif False b rdb dl(1) e1 q(2) by (simp add: take_data_def Let_def)
    have ml: "mb_length m1 = mb_length (hm_msg ?m) - k"
      using length_contents [OF dl(2)] dl(3) length_contents [OF wf] es kb by simp
    have eb: "entity_bytes ?p1 = drop k ?B"
      using dl(3) es length_contents [OF wf] by (simp add: entity_bytes_def add.commute)
    have dk: "size_add ?d k = ?d + k" "?d + k \<le> n" using kn d by (simp_all add: size_add_exact)
    have bnd: "?es \<le> mb_length m1" "mb_length m1 + List.length (incoming (rd_sock rd)) < 2 ^ 31"
      using ml kb es gd by auto
    have gf: "p_ent_position ?p = ENTREAD_USING_CLEN" "p_content_length ?p = n" "n < 2 ^ 32" "?d = d" using gd by auto
    have E1: "(if p_position ?p = POS_COMPLETE
        then hm_entity_length ?m = n \<and> n \<le> (?d + k) + List.length (drop k ?B) \<and> drop k E = take (n - (?d + k)) (drop k ?B)
        else p_position ?p = POS_ENTITY \<and> drop k E = take (n - (?d + k)) (drop k ?B @ incoming (rd_sock rd)))"
      using gd kB dk(2) by (auto simp: drop_take)
    have "getting n (d + k) (drop k E) ?p1 (rd_sock rd)"
      unfolding getting_def eb using gf dl(2) bnd dk E1 by (auto split: if_splits)
    then have "on_course n (d + List.length (take sz E)) (drop sz E) e ?rd" unfolding k_def [symmetric] kdr using q by (simp add: on_course_def)
    moreover have "take_data sz rd = Some (List.length (take sz E), take sz E, ?rd)"
      unfolding k_def [symmetric] unfolding kt by (rule t)
    ultimately show ?thesis by blast
  qed
qed

lemma after_entity_code: "after_entity st rd = (Some c, rd1) \<Longrightarrow> c \<noteq> 0"
  by (cases st) (auto simp: after_entity_def)

lemma read_more_code: "read_more env rd = Some (Some c, rd1) \<Longrightarrow> c \<noteq> 0"
  by (auto simp: read_more_def parse_what_came_def Let_def bind_eq_Some_conv dest: after_entity_code split: if_split_asm)

lemma read_get_loop_code:
  assumes "read_get_loop env sz cancel rd = Some (r, rd1)"
  shows "r \<noteq> Some 0"
proof -
  have "fst (r, rd1) \<noteq> Some 0"
  proof (rule read_get_loop.raw_induct [where P = "\<lambda>(env :: net_env) sz cancel rd (y :: int option \<times> reading). fst y \<noteq> Some 0", OF _ assms])
    fix loop env sz cancel rd y
    assume IH: "\<And>env sz cancel rd y. loop env sz cancel rd = Some y \<Longrightarrow> fst y \<noteq> Some (0 :: int)"
      and y: "(if wants_more sz cancel rd then
         Option.bind (read_more env rd) (\<lambda>(r, rd1).
           case r of None \<Rightarrow> loop env sz cancel rd1 | Some c \<Rightarrow> Some (Some c, rd1))
       else Some (None, rd)) = Some y"
    show "fst y \<noteq> Some 0"
    proof (cases "wants_more sz cancel rd")
      case True
      then obtain r rd2 where rd2: "read_more env rd = Some (r, rd2)"
        "(case r of None \<Rightarrow> loop env sz cancel rd2 | Some c \<Rightarrow> Some (Some c, rd2)) = Some y"
        using y by (auto simp: bind_eq_Some_conv)
      then show ?thesis using IH [of env sz cancel rd2 y] read_more_code [of env rd _ rd2] by (cases r) auto
    qed (use y in auto)
  qed
  then show ?thesis by simp
qed

lemma http_ReadHttpGet_piece:
  assumes r: "http_ReadHttpGet env e (Some h) True (Some sz) t = Some (0, szp, data, e1, h1)"
    and g: "getting n d E (gh_response h) (gh_sock h)" and c: "\<not> gh_cancel h" and q: "quiet e" and sz: "sz < 2 ^ 63"
  shows "\<exists>h2. h1 = Some h2 \<and> e1 = e \<and> szp = Some (List.length data) \<and> data = take sz E \<and>
     getting n (d + List.length (take sz E)) (drop sz E) (gh_response h2) (gh_sock h2) \<and> \<not> gh_cancel h2"
proof -
  let ?rd = "\<lparr>rd_alloc = e, rd_sock = gh_sock h, rd_parser = gh_response h, rd_timeout = t, rd_ok_on_close = False\<rparr>"
  have oc: "on_course n d E e ?rd" using g q by (simp add: on_course_def)
  obtain rd1 where rd1: "(if p_position (gh_response h) \<noteq> POS_COMPLETE then parse_what_came env ?rd else Some (None, ?rd)) = Some (None, rd1)"
    "on_course n d E e rd1" "synced (rd_parser rd1)"
  proof (cases "p_position (gh_response h) = POS_COMPLETE")
    case True
    then show thesis using that [of ?rd] oc by (simp add: synced_def)
  next
    case False
    then show thesis using that parse_what_came_on_course [OF oc, of env] by auto
  qed
  then obtain x rd2 where x: "read_get_loop env sz False rd1 = Some (x, rd2)" "x = Some 0 \<or> x = None"
    using r c by (auto simp: http_ReadHttpGet_def Let_def bind_eq_Some_conv split: option.splits)
  then have rd2: "read_get_loop env sz False rd1 = Some (None, rd2)" using read_get_loop_code [OF x(1)] by simp
  from read_get_loop_on_course [OF rd2 rd1(2,3)] have s2: "on_course n d E e rd2" "synced (rd_parser rd2)" "\<not> wants_more sz False rd2" by auto
  from take_data_on_course [OF s2 sz] obtain rd3 where
    rd3: "take_data sz rd2 = Some (List.length (take sz E), take sz E, rd3)" "on_course n (d + List.length (take sz E)) (drop sz E) e rd3" by blast
  have "rd_alloc rd3 = e" "getting n (d + List.length (take sz E)) (drop sz E) (rd_parser rd3) (rd_sock rd3)" using rd3(2) by (simp_all add: on_course_def)
  then show ?thesis using r c rd1(1) rd2 rd3(1) by (auto simp: http_ReadHttpGet_def Let_def)
qed


section \<open>The calls return\<close>

text \<open>A connection on which every byte on its way arrives, in pieces of any size, without a timeout.\<close>

definition delivers :: "sock_env \<Rightarrow> bool" where
  "delivers w \<longleftrightarrow>
     set (se_select w) \<subseteq> {SelectReady, SelectInterrupted} \<and>
     List.length (incoming w) \<le> count_list (se_select w) SelectReady \<and>
     List.length (incoming w) \<le> List.length (se_time w) \<and> (\<forall>d \<in> set (se_recv w). \<exists>c cs. d = Some (c # cs))"

lemma sock_read_delivers:
  assumes "delivers w" and "incoming w \<noteq> []" and n: "0 < n" "n < 2 ^ 31"
  shows "\<exists>buf w'. sock_read w n 0 = Some (int (List.length buf), buf, 0, w') \<and> buf \<noteq> [] \<and> delivers w'"
proof -
  from assms(1,2) obtain c cs ds where d: "se_recv w = Some (c # cs) # ds"
    by (cases "se_recv w") (auto simp: delivers_def incoming_def)
  then obtain k where k: "List.length (incoming w) = Suc k" by (auto simp: incoming_def)
  from select_ready [of "se_select w" k] assms(1) k obtain r where
    r: "select_loop (se_select w) = Some (0, r)" "set r \<subseteq> {SelectReady, SelectInterrupted}" "k \<le> count_list r SelectReady"
    by (auto simp: delivers_def)
  from assms(1) k obtain t ts where t: "se_time w = t # ts" "k \<le> List.length ts"
    by (cases "se_time w") (auto simp: delivers_def)
  let ?b = "take n (c # cs)" and ?r = "if List.length (c # cs) \<le> n then ds else Some (drop n (c # cs)) # ds"
  have b: "recv_bytes (se_recv w) n = Some (Some ?b, ?r)" "?b \<noteq> []"
    using d n by (auto simp: recv_bytes_def simp del: List.list.size)
  obtain w' where w': "sock_read w n 0 = Some (int (List.length ?b), ?b, 0, w')" "se_select w' = r" "se_time w' = ts" "se_recv w' = ?r"
    using r(1) t(1) b(1) n by (simp add: sock_read_def sock_wait_def time_left_def Let_def c_int_exact del: take_Suc_Cons)
  have "incoming w = ?b @ incoming w'" using sock_read_incoming [OF w'(1) n(2)] by simp
  then have "List.length (incoming w') \<le> k" using k b(2) by (cases ?b) auto
  moreover have "\<forall>d \<in> set ?r. \<exists>c cs. d = Some (c # cs)"
    using assms(1) d by (auto simp: delivers_def neq_Nil_conv [symmetric])
  ultimately have "delivers w'" using r t w' by (simp add: delivers_def)
  then show ?thesis using w'(1) b(2) by blast
qed

lemma after_entity_frame:
  "after_entity st rd = (r, rd1) \<Longrightarrow> rd_sock rd1 = rd_sock rd \<and> rd_timeout rd1 = rd_timeout rd"
  by (cases st) (auto simp: after_entity_def)

lemma read_more_delivers:
  assumes c: "on_course n d E e rd" and en: "p_position (rd_parser rd) \<noteq> POS_COMPLETE"
    and d: "delivers (rd_sock rd)" "incoming (rd_sock rd) \<noteq> []" "rd_timeout rd = 0"
  shows "\<exists>rd1. read_more env rd = Some (None, rd1) \<and> delivers (rd_sock rd1) \<and> rd_timeout rd1 = 0 \<and>
     List.length (incoming (rd_sock rd1)) < List.length (incoming (rd_sock rd))"
proof -
  from sock_read_delivers [OF d(1,2), of recv_buf_size] obtain buf w where
    s: "sock_read (rd_sock rd) recv_buf_size 0 = Some (int (List.length buf), buf, 0, w)" "buf \<noteq> []" "delivers w"
    by (auto simp: recv_buf_size_def)
  have inc: "incoming (rd_sock rd) = buf @ incoming w" using sock_read_incoming [OF s(1)] by (simp add: recv_buf_size_def)
  have g: "getting n d E (rd_parser rd) (rd_sock rd)" and q: "quiet e" "rd_alloc rd = e" "\<not> rd_ok_on_close rd"
    using c by (simp_all add: on_course_def)
  from getting_append [OF g en inc q(1) s(2) refl] obtain b where
    b: "membuffer_append e (hm_msg (rd_msg rd)) (Some buf) (List.length buf) = Some (0, e, b)"
      "getting n d E (upd_msg (\<lambda>m. m\<lparr>hm_msg := b\<rparr>) (rd_parser rd)) w" by blast
  let ?rd = "rd\<lparr>rd_sock := w, rd_timeout := 0, rd_alloc := e, rd_parser := upd_msg (\<lambda>m. m\<lparr>hm_msg := b\<rparr>) (rd_parser rd)\<rparr>"
  have "on_course n d E e ?rd" using b(2) q by (simp add: on_course_def)
  moreover have "p_position (rd_parser ?rd) \<noteq> POS_COMPLETE" using en by simp
  ultimately obtain rd2 where rd2: "parse_what_came env ?rd = Some (None, rd2)"
    using parse_what_came_on_course by blast
  then have "rd_sock rd2 = w" "rd_timeout rd2 = 0"
    by (auto simp: parse_what_came_def bind_eq_Some_conv dest!: after_entity_frame)
  moreover have "read_more env rd = Some (None, rd2)"
    using s(1,2) b(1) q(2) rd2 d(3) by (simp add: read_more_def)
  ultimately show ?thesis using s(2,3) inc by (intro exI [of _ rd2]) simp
qed

text \<open>When all of an entity is in the buffer or on its way, what is missing is on its way.\<close>

lemma missing_is_coming:
  assumes "getting n d E p w" and "synced p" and "p_position p \<noteq> POS_COMPLETE"
    and "List.length E = n - d"
  shows "incoming w \<noteq> []"
  using assms by (auto simp: getting_def synced_def)

lemma read_get_loop_returns:
  assumes "on_course n d E e rd" and "synced (rd_parser rd)" and "delivers (rd_sock rd)" and "rd_timeout rd = 0"
    and "List.length E = n - d"
  shows "\<exists>rd1. read_get_loop env sz False rd = Some (None, rd1) \<and> delivers (rd_sock rd1)"
  using assms
proof (induction "List.length (incoming (rd_sock rd))" arbitrary: rd rule: less_induct)
  case less
  show ?case
  proof (cases "wants_more sz False rd")
    case False
    then show ?thesis using less.prems(3) by (simp add: read_get_loop.simps)
  next
    case True
    then have p: "p_position (rd_parser rd) \<noteq> POS_COMPLETE" by (simp add: wants_more_def)
    have g: "getting n d E (rd_parser rd) (rd_sock rd)" using less.prems(1) by (simp add: on_course_def)
    have inc: "incoming (rd_sock rd) \<noteq> []" by (rule missing_is_coming [OF g less.prems(2) p less.prems(5)])
    from read_more_delivers [OF less.prems(1) p less.prems(3) inc less.prems(4), of env] obtain rd1 where
      rd1: "read_more env rd = Some (None, rd1)" "delivers (rd_sock rd1)" "rd_timeout rd1 = 0"
        "List.length (incoming (rd_sock rd1)) < List.length (incoming (rd_sock rd))" by blast
    from read_more_on_course [OF less.prems(1) p rd1(1)] less.hyps [OF rd1(4)] rd1(2,3) less.prems(5)
    show ?thesis using True rd1(1) by (simp add: read_get_loop.simps [of env sz False rd])
  qed
qed

lemma http_ReadHttpGet_returns:
  assumes g: "getting n d E (gh_response h) (gh_sock h)" and c: "\<not> gh_cancel h" and q: "quiet e" and sz: "sz < 2 ^ 63"
    and w: "delivers (gh_sock h)" and l: "List.length E = n - d"
  shows "\<exists>szp data e1 h1. http_ReadHttpGet env e (Some h) True (Some sz) 0 = Some (0, szp, data, e1, Some h1) \<and>
     delivers (gh_sock h1)"
proof -
  let ?rd = "\<lparr>rd_alloc = e, rd_sock = gh_sock h, rd_parser = gh_response h, rd_timeout = 0, rd_ok_on_close = False\<rparr>"
  have oc: "on_course n d E e ?rd" using g q by (simp add: on_course_def)
  obtain rd1 where rd1: "(if p_position (gh_response h) \<noteq> POS_COMPLETE then parse_what_came env ?rd else Some (None, ?rd)) = Some (None, rd1)"
    "on_course n d E e rd1" "synced (rd_parser rd1)" "rd_sock rd1 = gh_sock h" "rd_timeout rd1 = 0"
  proof (cases "p_position (gh_response h) = POS_COMPLETE")
    case True
    then show thesis using that [of ?rd] oc by (simp add: synced_def)
  next
    case False
    then obtain rd1 where r: "parse_what_came env ?rd = Some (None, rd1)" "on_course n d E e rd1" "synced (rd_parser rd1)"
      using parse_what_came_on_course [OF oc, of env] by auto
    then have "rd_sock rd1 = gh_sock h" "rd_timeout rd1 = 0"
      by (auto simp: parse_what_came_def bind_eq_Some_conv dest!: after_entity_frame)
    then show thesis using that [of rd1] r False by simp
  qed
  have "delivers (rd_sock rd1)" using w rd1(4) by simp
  from read_get_loop_returns [OF rd1(2,3) this rd1(5) l, of env sz] obtain rd2 where
    rd2: "read_get_loop env sz False rd1 = Some (None, rd2)" "delivers (rd_sock rd2)" by blast
  from read_get_loop_on_course [OF rd2(1) rd1(2,3)] have s2: "on_course n d E e rd2" "synced (rd_parser rd2)" "\<not> wants_more sz False rd2" by auto
  from take_data_on_course [OF s2 sz] obtain rd3 where
    rd3: "take_data sz rd2 = Some (List.length (take sz E), take sz E, rd3)" by blast
  then have "rd_sock rd3 = rd_sock rd2" by (auto simp: take_data_def Let_def bind_eq_Some_conv split: if_splits)
  then show ?thesis using c rd1(1) rd2 rd3 by (auto simp: http_ReadHttpGet_def Let_def)
qed


section \<open>Property\<close>

text \<open>Successive calls with the sizes of \<open>szs\<close>: what each stores, or \<open>None\<close> when one does not succeed.\<close>

fun read_pieces :: "net_env \<Rightarrow> alloc_env \<Rightarrow> get_handle \<Rightarrow> int \<Rightarrow> nat list \<Rightarrow> string list option" where
  "read_pieces env e h t [] = Some []"
| "read_pieces env e h t (sz # szs) =
     (case http_ReadHttpGet env e (Some h) True (Some sz) t of
        Some (ret, _, data, e1, Some h1) \<Rightarrow>
          if ret = 0 then map_option (\<lambda>ds. data # ds) (read_pieces env e1 h1 t szs) else None
      | _ \<Rightarrow> None)"

lemma read_pieces_concat:
  "read_pieces env e h t szs = Some ds \<Longrightarrow> getting n d E (gh_response h) (gh_sock h) \<Longrightarrow> \<not> gh_cancel h \<Longrightarrow> quiet e \<Longrightarrow>
   \<forall>sz \<in> set szs. sz < 2 ^ 63 \<Longrightarrow> concat ds = take (sum_list szs) E \<and> list_all2 (\<lambda>d sz. List.length d \<le> sz) ds szs"
proof (induction szs arbitrary: e h E d ds)
  case Nil
  then show ?case by simp
next
  case (Cons sz szs)
  obtain data e1 h1 szp ds1 where r: "http_ReadHttpGet env e (Some h) True (Some sz) t = Some (0, szp, data, e1, Some h1)"
    "read_pieces env e1 h1 t szs = Some ds1" "ds = data # ds1"
    using Cons.prems(1) by (auto split: option.splits if_splits)
  have "sz < 2 ^ 63" using Cons.prems(5) by simp
  from http_ReadHttpGet_piece [OF r(1) Cons.prems(2-4) this] have p: "data = take sz E" "e1 = e"
    "getting n (d + List.length (take sz E)) (drop sz E) (gh_response h1) (gh_sock h1)" "\<not> gh_cancel h1" by auto
  from Cons.IH [OF r(2) p(3,4)] Cons.prems(4,5) p(2) have "concat ds1 = take (sum_list szs) (drop sz E)"
    "list_all2 (\<lambda>d sz. List.length d \<le> sz) ds1 szs" by auto
  then show ?case using r(3) p(1) by (simp add: take_add)
qed

lemma read_pieces_returns:
  "getting n d E (gh_response h) (gh_sock h) \<Longrightarrow> \<not> gh_cancel h \<Longrightarrow> quiet e \<Longrightarrow>
   \<forall>sz \<in> set szs. sz < 2 ^ 63 \<Longrightarrow> delivers (gh_sock h) \<Longrightarrow> List.length E = n - d \<Longrightarrow>
   \<exists>ds. read_pieces env e h 0 szs = Some ds"
proof (induction szs arbitrary: e h E d)
  case Nil
  then show ?case by simp
next
  case (Cons sz szs)
  have sz: "sz < 2 ^ 63" using Cons.prems(4) by simp
  from http_ReadHttpGet_returns [OF Cons.prems(1-3) sz Cons.prems(5,6), of env] obtain szp data e1 h1 where
    r: "http_ReadHttpGet env e (Some h) True (Some sz) 0 = Some (0, szp, data, e1, Some h1)" "delivers (gh_sock h1)" by blast
  from http_ReadHttpGet_piece [OF r(1) Cons.prems(1-3) sz] have p: "e1 = e"
    "getting n (d + List.length (take sz E)) (drop sz E) (gh_response h1) (gh_sock h1)" "\<not> gh_cancel h1" by auto
  have "List.length (drop sz E) = n - (d + List.length (take sz E))" using Cons.prems(6) by simp
  from Cons.IH [OF p(2,3) Cons.prems(3) _ r(2) this] Cons.prems(4) r(1) p(1) show ?case by auto
qed


definition get_parser :: http_parser where
  "get_parser =
     upd_msg (\<lambda>m. m\<lparr>hm_msg := \<lparr>mb_buf = Some (''hdr'' @ ''ab'' @ [NUL]), mb_length = 5, mb_capacity = 5, mb_size_inc = MEMBUF_DEF_SIZE_INC\<rparr>\<rparr>)
       ((parser_response_init HTTPMETHOD_GET)
          \<lparr>p_position := POS_ENTITY, p_ent_position := ENTREAD_USING_CLEN, p_content_length := 6, p_cursor := 3,
           p_entity_start_position := 3\<rparr>)"

definition get_socket :: sock_env where
  "get_socket =
     \<lparr>se_select = replicate 6 SelectReady, se_recv = [Some ''c'', Some ''defX''], se_send = [],
      se_time = replicate 6 100, se_close = [], se_out = [], se_waits = []\<rparr>"


end
