(* ===== verification/HttpMake.thy ===== *)
theory HttpMake
  imports HttpSend HttpReceive
begin

text \<open>
  Making messages: \<open>http_MakeMessage\<close> and the functions of \<open>httpreadwrite.c\<close> that call it to make
  requests and status responses, and the texts of status codes from \<open>statcodes.c\<close>.

  A directive of the format is a constructor of \<open>msg_item\<close> with its arguments. What the directive
  appends, or which directives it expands to, is \<open>make_action\<close>; \<open>http_MakeMessage\<close> is proved to append
  the text that \<open>render\<close> gives by expanding all of them, or to report an error and leave an empty
  buffer. The clock, \<open>gmtime\<close>, \<open>uname\<close> and the version of the package are a \<open>make_env\<close>.
\<close>

section \<open>Status codes\<close>

text \<open>\<open>encoded ss\<close>: the texts one after the other, each with its terminator.\<close>

definition encoded :: "string list \<Rightarrow> string" where
  "encoded ss = concat (map (\<lambda>s. s @ [NUL]) ss)"

definition Http1xxStr :: string where
  "Http1xxStr = encoded [''Continue'', ''Switching Protocols'']"

definition Http2xxStr :: string where
  "Http2xxStr = encoded [''OK'', ''Created'', ''Accepted'', ''Non-Authoratative Information'', ''No Content'',
     ''Reset Content'', ''Partial Content'']"

definition Http3xxStr :: string where
  "Http3xxStr = encoded [''Multiple Choices'', ''Moved Permanently'', ''Found'', ''See Other'', ''Not Modified'',
     ''Use Proxy'', '''', ''Temporary Redirect'']"

definition Http4xxStr :: string where
  "Http4xxStr = encoded [''Bad Request'', ''Unauthorized'', ''Payment Required'', ''Forbidden'', ''Not Found'',
     ''Method Not Allowed'', ''Not Acceptable'', ''Proxy Authentication Required'', ''Request Timeout'', ''Conflict'',
     ''Gone'', ''Length Required'', ''Precondition Failed'', ''Request Entity Too Large'', ''Request-URI Too Long'',
     ''Unsupported Media Type'', ''Requested Range Not Satisfiable'', ''Expectation Failed'']"

definition Http5xxStr :: string where
  "Http5xxStr = encoded [''Internal Server Error'', ''Not Implemented'', ''Bad Gateway'', ''Service Unavailable'',
     ''Gateway Timeout'', ''HTTP Version Not Supported'']"

text \<open>\<open>table[i]\<close> points into the encoded text; here it is the string that starts there.\<close>

fun init_table :: "string \<Rightarrow> nat \<Rightarrow> string list" where
  "init_table s 0 = []"
| "init_table s (Suc n) = cstr s # init_table (drop (List.length (cstr s) + 1) s) n"

definition http_get_code_text :: "int \<Rightarrow> string option" where
  "http_get_code_text statusCode =
     (if statusCode < 100 \<or> statusCode \<ge> 600 then None
      else
        (let index = nat (statusCode mod 100); table_num = statusCode div 100
         in if table_num = 1 \<and> index < 2 then Some (init_table Http1xxStr 2 ! index)
            else if table_num = 2 \<and> index < 7 then Some (init_table Http2xxStr 7 ! index)
            else if table_num = 3 \<and> index < 8 then Some (init_table Http3xxStr 8 ! index)
            else if table_num = 4 \<and> index < 18 then Some (init_table Http4xxStr 18 ! index)
            else if table_num = 5 \<and> index < 6 then Some (init_table Http5xxStr 6 ! index)
            else None))"


section \<open>Numbers and dates\<close>

definition dec_digit :: "nat \<Rightarrow> char" where
  "dec_digit d = ''0123456789'' ! d"

fun dec_digits :: "nat \<Rightarrow> string" where
  "dec_digits n = (if n < 10 then [dec_digit n] else dec_digits (n div 10) @ [dec_digit (n mod 10)])"

declare dec_digits.simps [simp del]

text \<open>\<open>%d\<close> and \<open>%02d\<close>.\<close>

definition show_int :: "int \<Rightarrow> string" where
  "show_int v = (if v < 0 then CHR ''-'' # dec_digits (nat (- v)) else dec_digits (nat v))"

definition show_int2 :: "int \<Rightarrow> string" where
  "show_int2 v = (if List.length (show_int v) < 2 then CHR ''0'' # show_int v else show_int v)"

record tm =
  tm_sec :: int
  tm_min :: int
  tm_hour :: int
  tm_mday :: int
  tm_mon :: int
  tm_year :: int
  tm_wday :: int

record make_env =
  mk_time :: int
  mk_gmtime :: "int \<Rightarrow> tm option"
  mk_uname :: "(string \<times> string) option"
  mk_version :: string

definition weekday_str :: "string list" where
  "weekday_str = [''Sun'', ''Mon'', ''Tue'', ''Wed'', ''Thu'', ''Fri'', ''Sat'']"

definition month_str :: "string list" where
  "month_str = [''Jan'', ''Feb'', ''Mar'', ''Apr'', ''May'', ''Jun'', ''Jul'', ''Aug'', ''Sep'', ''Oct'', ''Nov'', ''Dec'']"

definition date_text :: "tm \<Rightarrow> string" where
  "date_text date =
     weekday_str ! nat (tm_wday date) @ '', '' @ show_int2 (tm_mday date) @ '' '' @ month_str ! nat (tm_mon date) @ '' '' @
     show_int (tm_year date + 1900) @ '' '' @ show_int2 (tm_hour date) @ '':'' @ show_int2 (tm_min date) @ '':'' @
     show_int2 (tm_sec date) @ '' GMT''"

definition tm_ok :: "tm \<Rightarrow> bool" where
  "tm_ok date \<longleftrightarrow> 0 \<le> tm_wday date \<and> tm_wday date < 7 \<and> 0 \<le> tm_mon date \<and> tm_mon date < 12"

text \<open>\<open>snprintf\<close> cuts the text at the size of the buffer; \<open>None\<close>: \<open>uname\<close> failed and its result is used.\<close>

definition get_sdk_info :: "make_env \<Rightarrow> nat \<Rightarrow> string option" where
  "get_sdk_info me infoSize =
     map_option (\<lambda>(sysname, release).
         take (infoSize - 1)
           (sysname @ ''/'' @ release @ '', UPnP/1.0, Portable SDK for UPnP devices/'' @ mk_version me @ CRLF))
       (mk_uname me)"


section \<open>Directives\<close>

definition http_FixUrl :: "string \<Rightarrow> uri_type \<Rightarrow> int + uri_type \<times> string" where
  "http_FixUrl text url =
     (if token_string_casecmp text (u_scheme url) ''http'' \<noteq> 0 then Inl UPNP_E_INVALID_URL
      else if tk_size (hp_text (u_hostport url)) = 0 then Inl UPNP_E_INVALID_URL
      else Inr (url, if tk_size (u_pathquery url) = 0 then ''/'' else token_bytes text (u_pathquery url)))"

definition http_FixStrUrl :: "net_env \<Rightarrow> string \<Rightarrow> nat \<Rightarrow> (int + uri_type \<times> string) option" where
  "http_FixStrUrl env urlstr urlstrlen =
     map_option (\<lambda>r. case r of Inl _ \<Rightarrow> Inl UPNP_E_INVALID_URL | Inr url \<Rightarrow> http_FixUrl urlstr url)
       (parse_uri env urlstr urlstrlen)"

text \<open>\<open>M_q\<close> has the text its URI points into.\<close>

datatype msg_item =
  M_s string | M_K | M_G send_instruction | M_b string nat | M_c | M_d int | M_h int | M_t int | M_D
| M_L send_instruction | M_C | M_N int | M_S | M_U | M_X string | M_R int | M_B int
| M_Q http_method string nat | M_q http_method string uri_type | M_T string

definition WEB_SERVER_CONTENT_LANGUAGE :: string where "WEB_SERVER_CONTENT_LANGUAGE = ''''"

text \<open>
  What a directive does: append so many bytes, make a message of other directives, nothing, fail with
  a code (0 for the default one), or break an assertion.
\<close>

datatype effect = Emit string nat | Sub "msg_item list" | Skip | Bad int | Undefined

definition emit_str :: "string \<Rightarrow> effect" where
  "emit_str s = Emit s (List.length s)"

definition date_action :: "make_env \<Rightarrow> int \<Rightarrow> string \<Rightarrow> string \<Rightarrow> effect" where
  "date_action me loc_time start_str end_str =
     (case mk_gmtime me loc_time of
        None \<Rightarrow> Bad 0
      | Some date \<Rightarrow>
          if \<not> tm_ok date then Undefined
          else if List.length (start_str @ date_text date @ end_str) \<ge> 200 then Bad 0
          else emit_str (start_str @ date_text date @ end_str))"

fun make_action :: "make_env \<Rightarrow> int \<Rightarrow> int \<Rightarrow> msg_item \<Rightarrow> effect" where
  "make_action me major minor (M_s s) = emit_str s"
| "make_action me major minor M_K = emit_str (''TRANSFER-ENCODING: chunked'' @ CRLF)"
| "make_action me major minor (M_G RespInstr) = emit_str (ins_RangeHeader RespInstr)"
| "make_action me major minor (M_b s len) = Emit s len"
| "make_action me major minor M_c = emit_str CRLF"
| "make_action me major minor (M_d v) = emit_str (dec_digits (nat (v mod 2 ^ 64)))"
| "make_action me major minor (M_h v) = emit_str (show_int v)"
| "make_action me major minor (M_t loc_time) = date_action me loc_time '''' ''''"
| "make_action me major minor M_D = date_action me (mk_time me) ''DATE: '' CRLF"
| "make_action me major minor (M_L RespInstr) =
     (if ins_AcceptLanguageHeader RespInstr \<noteq> [] \<and> WEB_SERVER_CONTENT_LANGUAGE \<noteq> []
      then Sub [M_s ''CONTENT-LANGUAGE: '', M_s WEB_SERVER_CONTENT_LANGUAGE, M_c] else Skip)"
| "make_action me major minor M_C =
     (if major > 1 \<or> (major = 1 \<and> minor = 1) then emit_str (''CONNECTION: close'' @ CRLF) else Skip)"
| "make_action me major minor (M_N bignum) =
     (if bignum < 0 then Undefined else Sub [M_s ''CONTENT-LENGTH: '', M_h bignum, M_c])"
| "make_action me major minor M_S =
     (case get_sdk_info me 200 of None \<Rightarrow> Undefined | Some info \<Rightarrow> Sub [M_s ''SERVER: '', M_s info])"
| "make_action me major minor M_U =
     (case get_sdk_info me 200 of None \<Rightarrow> Undefined | Some info \<Rightarrow> Sub [M_s ''USER-AGENT: '', M_s info])"
| "make_action me major minor (M_X s) = Sub [M_s ''X-User-Agent: '', M_s s]"
| "make_action me major minor (M_R stat_code) =
     (if stat_code \<le> 0 then Undefined
      else case http_get_code_text stat_code of
        None \<Rightarrow> Undefined
      | Some status_msg \<Rightarrow>
          Sub [M_s (''HTTP/'' @ show_int major @ ''.'' @ show_int minor @ '' '' @ show_int stat_code @ '' ''), M_s status_msg, M_c])"
| "make_action me major minor (M_B stat_code) =
     (case http_get_code_text stat_code of
        None \<Rightarrow> Undefined
      | Some status_msg \<Rightarrow>
          (let tempbuf = ''<html><body><h1>'' @ show_int stat_code @ '' '' @ status_msg @ ''</h1></body></html>''
           in if List.length tempbuf \<ge> 200 then Bad 0
              else Sub [M_N (int (List.length tempbuf)), M_T ''text/html'', M_c, M_s tempbuf]))"
| "make_action me major minor (M_Q method url_str num) =
     (case method_to_str method of
        None \<Rightarrow> Undefined
      | Some m \<Rightarrow> Sub [M_s m, M_s '' '', M_b url_str num, M_s '' HTTP/'', M_d major, M_s ''.'', M_d minor, M_c])"
| "make_action me major minor (M_q method text uri) =
     (case http_FixUrl text uri of
        Inl _ \<Rightarrow> Bad UPNP_E_INVALID_URL
      | Inr (url, path) \<Rightarrow>
          (let host = token_bytes text (hp_text (u_hostport url))
           in Sub [M_Q method path (List.length path), M_s ''HOST: '', M_b host (List.length host), M_c]))"
| "make_action me major minor (M_T s) = Sub [M_s ''CONTENT-TYPE: '', M_s s, M_c]"

section \<open>Making a message\<close>

text \<open>A directive counts for more than the ones it expands to.\<close>

fun item_weight :: "msg_item \<Rightarrow> nat" where
  "item_weight (M_L _) = 4"
| "item_weight (M_N _) = 4"
| "item_weight M_S = 3"
| "item_weight M_U = 3"
| "item_weight (M_X _) = 3"
| "item_weight (M_R _) = 4"
| "item_weight (M_T _) = 4"
| "item_weight (M_B _) = 11"
| "item_weight (M_Q _ _ _) = 9"
| "item_weight (M_q _ _ _) = 13"
| "item_weight _ = 1"

definition items_weight :: "msg_item list \<Rightarrow> nat" where
  "items_weight is = sum_list (map item_weight is)"

lemma items_weight_simps [simp]:
  "items_weight [] = 0" "items_weight (x # xs) = item_weight x + items_weight xs"
  by (simp_all add: items_weight_def)

lemma item_weight_pos [simp]: "0 < item_weight x"
  by (cases x) simp_all

lemma sub_weight: "make_action me major minor x = Sub its \<Longrightarrow> items_weight its < item_weight x"
  by (cases x) (auto simp: Let_def emit_str_def date_action_def split: option.split_asm if_split_asm sum.split_asm)

text \<open>The error handler destroys the buffer; a directive's own error code is not passed on.\<close>

definition make_failed :: "int \<Rightarrow> alloc_env \<Rightarrow> membuffer \<Rightarrow> int \<times> alloc_env \<times> membuffer" where
  "make_failed error_code e buf =
     (if error_code = 0 then UPNP_E_OUTOF_MEMORY else error_code, e, the (membuffer_destroy (Some buf)))"

function http_MakeMessage ::
  "make_env \<Rightarrow> int \<Rightarrow> int \<Rightarrow> alloc_env \<Rightarrow> membuffer \<Rightarrow> msg_item list \<Rightarrow> (int \<times> alloc_env \<times> membuffer) option" where
  "http_MakeMessage me major minor e buf [] = Some (0, e, buf)"
| "http_MakeMessage me major minor e buf (x # xs) =
     (case make_action me major minor x of
        Emit s n \<Rightarrow>
          (case membuffer_append e buf (Some s) n of
             None \<Rightarrow> None
           | Some (rc, e1, b1) \<Rightarrow>
               if rc \<noteq> 0 then Some (make_failed 0 e1 b1) else http_MakeMessage me major minor e1 b1 xs)
      | Sub its \<Rightarrow>
          (case http_MakeMessage me major minor e buf its of
             None \<Rightarrow> None
           | Some (rc, e1, b1) \<Rightarrow>
               if rc \<noteq> 0 then Some (make_failed 0 e1 b1) else http_MakeMessage me major minor e1 b1 xs)
      | Skip \<Rightarrow> http_MakeMessage me major minor e buf xs
      | Bad error_code \<Rightarrow> Some (make_failed error_code e buf)
      | Undefined \<Rightarrow> None)"
  by pat_completeness auto
termination
  by (relation "measure (\<lambda>(_, _, _, _, _, is). items_weight is)") (auto dest!: sub_weight intro: trans_less_add1)

section \<open>Requests and status responses\<close>

text \<open>The result is the major and the minor version.\<close>

definition http_CalcResponseVersion :: "int \<Rightarrow> int \<Rightarrow> int \<times> int" where
  "http_CalcResponseVersion request_major_vers request_minor_vers =
     (if request_major_vers > 1 \<or> (request_major_vers = 1 \<and> request_minor_vers \<ge> 1) then (1, 1)
      else (request_major_vers, request_minor_vers))"

definition http_SendStatusResponse ::
  "'f files \<Rightarrow> make_env \<Rightarrow> alloc_env \<Rightarrow> sock_env \<Rightarrow> int \<Rightarrow> int \<Rightarrow> int \<Rightarrow> (int \<times> alloc_env \<times> sock_env) option" where
  "http_SendStatusResponse fs me e w http_status_code request_major_version request_minor_version =
     (let (response_major, response_minor) = http_CalcResponseVersion request_major_version request_minor_version
      in Option.bind
           (http_MakeMessage me response_major response_minor e
              ((membuffer_init new_membuffer)\<lparr>mb_size_inc := 70\<rparr>) [M_R http_status_code, M_S, M_C, M_B http_status_code])
           (\<lambda>(ret, e1, membuf).
              if ret \<noteq> 0 then Some (ret, e1, w)
              else
                Option.bind (mb_buf membuf) (\<lambda>buf.
                map_option (\<lambda>(ret, e2, w1, _). (ret, e2, w1))
                  (http_SendMessage fs e1 w 30 [ArgBuf buf (mb_length membuf)]))))"

text \<open>The host of a URL as the requests take it: what follows the first two slashes, up to a slash.\<close>

definition host_in_url :: "bool \<Rightarrow> string \<Rightarrow> string option" where
  "host_in_url need_slash urlPath =
     (let i = strstr_from urlPath ''//'' 0
      in if i = -1 then None
         else
           (let hoststr = drop (nat i + 2) urlPath
            in if CHR ''/'' \<in> set hoststr then Some (takeWhile (\<lambda>c. c \<noteq> CHR ''/'') hoststr)
               else if need_slash then None else Some hoststr))"

text \<open>
  What the functions that make a request share: \<open>head\<close> are the directives before the host line, from
  the path of the URL, and \<open>tail\<close> those after it, or \<open>None\<close> when they cannot be made. The result has
  the buffer and the URL.
\<close>

definition make_request ::
  "net_env \<Rightarrow> make_env \<Rightarrow> bool \<Rightarrow> alloc_env \<Rightarrow> string \<Rightarrow> membuffer \<Rightarrow> (string \<Rightarrow> msg_item) \<Rightarrow> msg_item list option
     \<Rightarrow> (int \<times> alloc_env \<times> membuffer \<times> uri_type option) option"
where
  "make_request env me need_slash e url_str request start after =
     Option.bind (http_FixStrUrl env url_str (List.length url_str)) (\<lambda>r.
       case r of
         Inl err \<Rightarrow> Some (err, e, request, None)
       | Inr (url, path) \<Rightarrow>
           (let request1 = membuffer_init request
            in case host_in_url need_slash url_str of
                 None \<Rightarrow> Some (UPNP_E_INVALID_URL, e, request1, Some url)
               | Some hoststr \<Rightarrow>
                   (case after of
                      None \<Rightarrow> Some (UPNP_E_INVALID_PARAM, e, the (membuffer_destroy (Some request1)), Some url)
                    | Some its \<Rightarrow>
                        map_option
                          (\<lambda>(ret_code, e1, b).
                             (ret_code, e1, if ret_code \<noteq> 0 then the (membuffer_destroy (Some b)) else b, Some url))
                          (http_MakeMessage me 1 1 e request1
                             ([start path, M_s ''HOST: '', M_b hoststr (List.length hoststr), M_c, M_D, M_C, M_U] @ its)))))"

definition MakePostMessage ::
  "net_env \<Rightarrow> make_env \<Rightarrow> alloc_env \<Rightarrow> string \<Rightarrow> membuffer \<Rightarrow> int \<Rightarrow> string
     \<Rightarrow> (int \<times> alloc_env \<times> membuffer \<times> uri_type option) option"
where
  "MakePostMessage env me e url_str request contentLength contentType =
     make_request env me True e url_str request (\<lambda>path. M_Q HTTPMETHOD_POST path (List.length path))
       (if contentLength \<ge> 0 then Some [M_T contentType, M_N contentLength, M_c]
        else if contentLength = UPNP_USING_CHUNKED then Some [M_T contentType, M_K, M_c]
        else if contentLength = UPNP_UNTIL_CLOSE then Some [M_T contentType, M_c]
        else None)"

definition MakeGetMessage ::
  "net_env \<Rightarrow> make_env \<Rightarrow> alloc_env \<Rightarrow> string \<Rightarrow> string option \<Rightarrow> membuffer
     \<Rightarrow> (int \<times> alloc_env \<times> membuffer \<times> uri_type option) option"
where
  "MakeGetMessage env me e url_str proxy_str request =
     make_request env me True e url_str request
       (\<lambda>path. let querystr = (if proxy_str \<noteq> None then url_str else path) in M_Q HTTPMETHOD_GET querystr (List.length querystr))
       (Some [M_c])"

text \<open>Here the range comes between the end of the host line and the date.\<close>

definition MakeGetMessageEx ::
  "net_env \<Rightarrow> make_env \<Rightarrow> alloc_env \<Rightarrow> string \<Rightarrow> membuffer \<Rightarrow> send_instruction
     \<Rightarrow> (int \<times> alloc_env \<times> membuffer \<times> uri_type option) option"
where
  "MakeGetMessageEx env me e url_str request pRangeSpecifier =
     Option.bind (http_FixStrUrl env url_str (List.length url_str)) (\<lambda>r.
       case r of
         Inl err \<Rightarrow> Some (err, e, request, None)
       | Inr (url, path) \<Rightarrow>
           (let request1 = membuffer_init request
            in case host_in_url True url_str of
                 None \<Rightarrow> Some (UPNP_E_INVALID_URL, e, request1, Some url)
               | Some hoststr \<Rightarrow>
                   map_option
                     (\<lambda>(errCode, e1, b).
                        (errCode, e1, if errCode \<noteq> 0 then the (membuffer_destroy (Some b)) else b, Some url))
                     (http_MakeMessage me 1 1 e request1
                        [M_Q HTTPMETHOD_GET path (List.length path), M_s ''HOST: '', M_b hoststr (List.length hoststr), M_c,
                         M_G pRangeSpecifier, M_D, M_C, M_U, M_c])))"


section \<open>What is made\<close>

text \<open>The text of a list of directives, all expansions made; \<open>None\<close> when one fails or is undefined.\<close>

function render :: "make_env \<Rightarrow> int \<Rightarrow> int \<Rightarrow> msg_item list \<Rightarrow> string option" where
  "render me major minor [] = Some []"
| "render me major minor (x # xs) =
     (case make_action me major minor x of
        Emit s n \<Rightarrow> if n \<le> List.length s then map_option ((@) (take n s)) (render me major minor xs) else None
      | Sub its \<Rightarrow>
          (case (render me major minor its, render me major minor xs) of
             (Some a, Some b) \<Rightarrow> Some (a @ b)
           | _ \<Rightarrow> None)
      | Skip \<Rightarrow> render me major minor xs
      | _ \<Rightarrow> None)"
  by pat_completeness auto
termination
  by (relation "measure (\<lambda>(_, _, _, is). items_weight is)") (auto dest!: sub_weight intro: trans_less_add1)

lemma append_prefix:
  "n \<le> List.length s \<Longrightarrow> membuffer_append e m (Some s) n = membuffer_append e m (Some (take n s)) n"
  by (simp add: membuffer_append_def membuffer_insert_def block_read_def split_beta)

text \<open>\<open>appends\<close>: the result of appending \<open>s\<close>, which may fail, but not without cause.\<close>

definition appends :: "alloc_env \<Rightarrow> membuffer \<Rightarrow> string \<Rightarrow> (int \<times> alloc_env \<times> membuffer) option \<Rightarrow> bool" where
  "appends e m s r \<longleftrightarrow>
     (\<exists>rc e' m'. r = Some (rc, e', m') \<and> wf_membuffer m' \<and> (rc = 0 \<longrightarrow> contents m' = contents m @ s) \<and>
        (oom e = [] \<and> mb_length m + List.length s < alloc_max \<longrightarrow> rc = 0 \<and> e' = e))"

lemma membuffer_append_result:
  assumes "wf_membuffer m" and "List.length s \<le> alloc_max" and n: "n = List.length s"
  shows "appends e m s (membuffer_append e m (Some s) n)"
proof (cases "s = []")
  case True
  then show ?thesis using assms by (simp add: appends_def membuffer_append_def membuffer_insert_noop)
next
  case False
  from membuffer_insert_bytes [OF assms(1) order.refl assms(2) False, of e] obtain rc e' m' where
    i: "membuffer_insert e m (Some s) n (mb_length m) = Some (rc, e', m')"
      "updates_to m (take (mb_length m) (contents m) @ s @ drop (mb_length m) (contents m)) rc m'"
      "oom e = [] \<and> mb_length m + List.length s < alloc_max \<longrightarrow> rc = 0" using n by blast
  have "oom e = [] \<Longrightarrow> e' = e" using quiet_insert [OF _ i(1)] by (simp add: quiet_def)
  then show ?thesis using i length_contents [OF assms(1)] assms(1)
    by (auto simp: appends_def membuffer_append_def updates_to_def)
qed

text \<open>\<open>made\<close>: the result is the text appended, or an error with an empty buffer; no error without cause.\<close>

definition made :: "alloc_env \<Rightarrow> membuffer \<Rightarrow> string \<Rightarrow> (int \<times> alloc_env \<times> membuffer) option \<Rightarrow> bool" where
  "made e m t r \<longleftrightarrow>
     (\<exists>rc e' m'. r = Some (rc, e', m') \<and> wf_membuffer m' \<and>
        (rc = 0 \<and> contents m' = contents m @ t \<or> rc = UPNP_E_OUTOF_MEMORY \<and> contents m' = []) \<and>
        (oom e = [] \<and> mb_length m + List.length t < alloc_max \<longrightarrow> rc = 0 \<and> e' = e))"

lemma made_appends: "made e m t r \<Longrightarrow> appends e m t r"
  by (auto simp: made_def appends_def)

lemma made_failed: "oom e \<noteq> [] \<or> \<not> mb_length m + List.length t < alloc_max \<Longrightarrow> made e m t (Some (make_failed 0 e1 m1))"
  using membuffer_init_ok [of m1] by (auto simp: made_def make_failed_def membuffer_destroy_def)

lemma made_then:
  assumes "wf_membuffer m" and r: "appends e m a r" and k: "\<And>e1 m1. wf_membuffer m1 \<Longrightarrow> made e1 m1 b (k e1 m1)"
  shows "made e m (a @ b)
    (case r of None \<Rightarrow> None | Some (rc, e1, m1) \<Rightarrow> if rc \<noteq> 0 then Some (make_failed 0 e1 m1) else k e1 m1)"
proof -
  obtain rc e1 m1 where r1: "r = Some (rc, e1, m1)" "wf_membuffer m1"
    "rc = 0 \<longrightarrow> contents m1 = contents m @ a"
    "oom e = [] \<and> mb_length m + List.length a < alloc_max \<longrightarrow> rc = 0 \<and> e1 = e"
    using r unfolding appends_def by blast
  show ?thesis
  proof (cases "rc = 0")
    case False
    then show ?thesis using r1 made_failed [of e m "a @ b" e1 m1] by auto
  next
    case True
    then have c: "contents m1 = contents m @ a" using r1(3) by simp
    then have l: "mb_length m1 = mb_length m + List.length a"
      using length_contents [OF r1(2)] length_contents [OF assms(1)] by simp
    obtain rc2 e2 m2 where "k e1 m1 = Some (rc2, e2, m2)" "wf_membuffer m2"
      "rc2 = 0 \<and> contents m2 = contents m1 @ b \<or> rc2 = UPNP_E_OUTOF_MEMORY \<and> contents m2 = []"
      "oom e1 = [] \<and> mb_length m1 + List.length b < alloc_max \<longrightarrow> rc2 = 0 \<and> e2 = e1"
      using k [OF r1(2), of e1] unfolding made_def by blast
    then show ?thesis using r1(1,4) True c l by (auto simp: made_def)
  qed
qed

lemma http_MakeMessage_made:
  "render me major minor its = Some t \<Longrightarrow> List.length t \<le> alloc_max \<Longrightarrow> wf_membuffer buf \<Longrightarrow>
   made e buf t (http_MakeMessage me major minor e buf its)"
proof (induction me major minor its arbitrary: t e buf rule: render.induct)
  case (1 me major minor)
  then show ?case by (simp add: made_def)
next
  case (2 me major minor x xs)
  show ?case
  proof (cases "make_action me major minor x")
    case (Emit s n)
    then obtain b where b: "render me major minor xs = Some b" "t = take n s @ b" "n \<le> List.length s"
      using "2.prems"(1) by (auto split: if_splits)
    then have l: "List.length (take n s) \<le> alloc_max" "n = List.length (take n s)" "List.length b \<le> alloc_max"
      using "2.prems"(2) by auto
    have "appends e buf (take n s) (membuffer_append e buf (Some s) n)"
      unfolding append_prefix [OF b(3)] by (rule membuffer_append_result [OF "2.prems"(3) l(1,2)])
    from made_then [OF "2.prems"(3) this, of b "\<lambda>e1 b1. http_MakeMessage me major minor e1 b1 xs"]
      "2.IH"(1) [OF Emit b(3,1) l(3)] show ?thesis using Emit b(2) by simp
  next
    case (Sub sub)
    then obtain a b where ab: "render me major minor sub = Some a" "render me major minor xs = Some b" "t = a @ b"
      using "2.prems"(1) by (auto split: option.splits)
    have la: "List.length a \<le> alloc_max" "List.length b \<le> alloc_max" using ab "2.prems"(2) by simp_all
    have "made e buf a (http_MakeMessage me major minor e buf sub)"
      by (rule "2.IH"(2) [OF Sub ab(1) la(1) "2.prems"(3)])
    from made_then [OF "2.prems"(3) made_appends [OF this], of b "\<lambda>e1 b1. http_MakeMessage me major minor e1 b1 xs"]
      "2.IH"(3) [OF Sub ab(2) la(2)] show ?thesis using Sub ab(3) by simp
  next
    case Skip
    then show ?thesis using "2.IH"(4) [OF Skip] "2.prems" by simp
  qed (use "2.prems"(1) in simp_all)
qed


text \<open>A GET request: its line, the host, the date, the connection header and the user agent.\<close>

lemma dec_digits_1 [simp]: "dec_digits (Suc 0) = ''1''"
  by (simp add: dec_digits.simps dec_digit_def)

lemma get_request_text:
  assumes "mk_gmtime me (mk_time me) = Some date" and "tm_ok date" and "List.length (date_text date) < 190"
    and "get_sdk_info me 200 = Some info"
  shows "render me 1 1
      [M_Q HTTPMETHOD_GET path (List.length path), M_s ''HOST: '', M_b host (List.length host), M_c, M_D, M_C, M_U, M_c] =
    Some (''GET '' @ path @ '' HTTP/1.1'' @ CRLF @ ''HOST: '' @ host @ CRLF @ ''DATE: '' @ date_text date @ CRLF @
          ''CONNECTION: close'' @ CRLF @ ''USER-AGENT: '' @ info @ CRLF)"
proof -
  have m: "method_to_str HTTPMETHOD_GET = Some ''GET''" by code_simp
  show ?thesis using assms m by (simp add: emit_str_def date_action_def CRLF_def)
qed


section \<open>Property\<close>


definition sample_make :: make_env where
  "sample_make =
     \<lparr>mk_time = 0,
      mk_gmtime = (\<lambda>t. Some \<lparr>tm_sec = 0, tm_min = 0, tm_hour = 0, tm_mday = 1, tm_mon = 0, tm_year = 70, tm_wday = 4\<rparr>),
      mk_uname = Some (''Linux'', ''6''), mk_version = ''1''\<rparr>"


end
