(* ===== verification/HttpOpen.thy ===== *)
theory HttpOpen
  imports HttpGet HttpMake
begin

text \<open>
  Opening requests, \<open>upnp/src/genlib/net/http/httpreadwrite.c\<close>: \<open>http_OpenHttpPost\<close>, the three ways
  to open a GET, and \<open>http_Download\<close>. Each makes a message, connects, sends it and, for a GET, reads
  the response as far as its entity.

  \<open>sockfd\<close> is the result of \<open>socket\<close>, \<open>connected\<close> that of \<open>private_connect\<close>; \<open>w\<close> is what happens on
  the connection. \<open>http_error_code\<close> is the value of the uninitialised local variable of that name.
\<close>

text \<open>The sizes of the two handles; that they are small is all that matters.\<close>

definition SIZEOF_http_post_handle_t :: nat where "SIZEOF_http_post_handle_t = 144"
definition SIZEOF_http_get_handle_t :: nat where "SIZEOF_http_get_handle_t = 1024"

abbreviation (input) UPNP_E_OUTOF_SOCKET :: int where "UPNP_E_OUTOF_SOCKET \<equiv> -205"

section \<open>Connecting\<close>

text \<open>
  What the system answers to the calls of one connection: \<open>fcntl\<close> before and after, \<open>connect\<close>, whether
  its \<open>errno\<close> is \<open>EINPROGRESS\<close>, \<open>select\<close>, \<open>getsockopt\<close> with the value it reads, \<open>shutdown\<close>.
\<close>

record connect_env =
  ce_no_blocking :: int
  ce_connect :: int
  ce_in_progress :: bool
  ce_select :: int
  ce_getsockopt :: "int \<times> int"
  ce_blocking :: int

definition Check_Connect_And_Wait_Connection :: "connect_env \<Rightarrow> int \<Rightarrow> int" where
  "Check_Connect_And_Wait_Connection ce connect_res =
     (if connect_res < 0 \<and> ce_in_progress ce then
        (if ce_select ce < 0 then -1
         else if ce_select ce = 0 then -1
         else if fst (ce_getsockopt ce) < 0 then -1
         else if snd (ce_getsockopt ce) \<noteq> 0 then -1
         else 0)
      else 0)"

definition private_connect :: "connect_env \<Rightarrow> int" where
  "private_connect ce =
     (let ret = ce_no_blocking ce
      in if ret \<noteq> -1 then
           (let ret = Check_Connect_And_Wait_Connection ce (ce_connect ce)
            in if ret \<noteq> -1 then ce_blocking ce else ret)
         else ret)"

text \<open>The socket or an error code, and the fixed URL; that \<open>http_FixUrl\<close> rejects it does not count.\<close>

definition http_Connect :: "connect_env \<Rightarrow> int \<Rightarrow> string \<Rightarrow> uri_type \<Rightarrow> int \<times> uri_type \<times> string" where
  "http_Connect ce connfd txt destination_url =
     (let (url, path) =
        (case http_FixUrl txt destination_url of
           Inl _ \<Rightarrow> (destination_url, token_bytes txt (u_pathquery destination_url))
         | Inr fixed \<Rightarrow> fixed)
      in if connfd = INVALID_SOCKET then (UPNP_E_OUTOF_SOCKET, url, path)
         else if private_connect ce = -1 then (UPNP_E_SOCKET_CONNECT, url, path)
         else (connfd, url, path))"

text \<open>A connection refused at once, when \<open>errno\<close> is not \<open>EINPROGRESS\<close>, is taken for one that was made.\<close>

lemma refused_connection_accepted:
  assumes "ce_no_blocking ce \<noteq> -1" "ce_connect ce < 0" "\<not> ce_in_progress ce"
  shows "private_connect ce = ce_blocking ce"
  using assms by (simp add: private_connect_def Check_Connect_And_Wait_Connection_def Let_def)


section \<open>Opening a POST\<close>

text \<open>
  The result, the allocator, and the handle, when one was made: it is stored even when the call fails.
\<close>

definition http_OpenHttpPost ::
  "'f files \<Rightarrow> net_env \<Rightarrow> make_env \<Rightarrow> alloc_env \<Rightarrow> sock_env \<Rightarrow> int \<Rightarrow> int \<Rightarrow> string option \<Rightarrow> bool \<Rightarrow> string option \<Rightarrow> int \<Rightarrow> int
     \<Rightarrow> (int \<times> alloc_env \<times> post_handle option) option"
where
  "http_OpenHttpPost fs env me e w sockfd connected url_str Handle contentType contentLength timeout =
     (case (url_str, contentType) of
        (Some url, Some ct) \<Rightarrow>
          if \<not> Handle then Some (UPNP_E_INVALID_PARAM, e, None)
          else
            Option.bind (MakePostMessage env me e url new_membuffer contentLength ct) (\<lambda>(ret_code, e1, request, _).
              if ret_code \<noteq> 0 then Some (ret_code, e1, None)
              else
                (case malloc_ok e1 SIZEOF_http_post_handle_t of
                   (False, e2) \<Rightarrow> Some (UPNP_E_OUTOF_MEMORY, e2, None)
                 | (True, e2) \<Rightarrow>
                     if sockfd = INVALID_SOCKET then
                       Some (UPNP_E_SOCKET_ERROR, e2,
                         Some \<lparr>ph_sock = w, ph_info = snd (sock_init sockfd), ph_contentLength = contentLength\<rparr>)
                     else
                       (let info = snd (sock_init sockfd);
                            h = \<lparr>ph_sock = w, ph_info = info, ph_contentLength = contentLength\<rparr>
                        in if connected = -1 then
                             map_option
                               (\<lambda>(_, w1, info1). (UPNP_E_SOCKET_CONNECT, e2, Some (h\<lparr>ph_sock := w1, ph_info := info1\<rparr>)))
                               (sock_destroy w info)
                           else
                             Option.bind (mb_buf request) (\<lambda>buf.
                             Option.bind (http_SendMessage fs e2 w timeout [ArgBuf buf (mb_length request)])
                               (\<lambda>(ret_code, e3, w1, _).
                                 if ret_code = 0 then Some (0, e3, Some (h\<lparr>ph_sock := w1\<rparr>))
                                 else
                                   map_option (\<lambda>(_, w2, info1). (ret_code, e3, Some (h\<lparr>ph_sock := w2, ph_info := info1\<rparr>)))
                                     (sock_destroy w1 info))))))
      | _ \<Rightarrow> Some (UPNP_E_INVALID_PARAM, e, None))"


section \<open>Opening a GET\<close>

text \<open>What a successful opening stores besides the handle.\<close>

record get_result =
  gr_contentType :: "string option"
  gr_contentLength :: int
  gr_httpStatus :: int

definition no_result :: get_result where
  "no_result = \<lparr>gr_contentType = None, gr_contentLength = 0, gr_httpStatus = 0\<rparr>"

definition HDR_CONTENT_TYPE :: int where "HDR_CONTENT_TYPE = 4"

definition response_result :: "http_parser \<Rightarrow> get_result" where
  "response_result p =
     \<lparr>gr_contentType =
        map_option (\<lambda>i. contents (h_value (header_at (p_msg p) i))) (httpmsg_find_hdr (p_msg p) HDR_CONTENT_TYPE),
      gr_contentLength =
        (if p_position p = POS_COMPLETE then 0
         else if p_ent_position p = ENTREAD_USING_CHUNKED then UPNP_USING_CHUNKED
         else if p_ent_position p = ENTREAD_USING_CLEN then c_int (int (p_content_length p))
         else if p_ent_position p = ENTREAD_UNTIL_CLOSE then UPNP_UNTIL_CLOSE
         else 0),
      gr_httpStatus = hm_status_code (p_msg p)\<rparr>"

text \<open>Send the request, read the response line and the headers, find out how the entity is to be read.\<close>

definition exchange ::
  "'f files \<Rightarrow> net_env \<Rightarrow> alloc_env \<Rightarrow> sock_env \<Rightarrow> sockinfo \<Rightarrow> membuffer \<Rightarrow> int \<Rightarrow> int
     \<Rightarrow> (int \<times> alloc_env \<times> get_handle \<times> get_result) option"
where
  "exchange fs env e w info request timeout http_error_code =
     Option.bind (mb_buf request) (\<lambda>buf.
     Option.bind (http_SendMessage fs e w timeout [ArgBuf buf (mb_length request)]) (\<lambda>(ret_code, e1, w1, t1).
       let h = \<lparr>gh_response = parser_response_init HTTPMETHOD_GET, gh_sock = w1, gh_info = info, gh_entity_offset = 0,
                gh_cancel = False\<rparr>
       in if ret_code \<noteq> 0 then
            map_option (\<lambda>(_, w2, info1). (ret_code, e1, h\<lparr>gh_sock := w2, gh_info := info1\<rparr>, no_result)) (sock_destroy w1 info)
          else
            Option.bind
              (ReadResponseLineAndHeaders env
                 \<lparr>rv_alloc = e1, rv_sock = w1, rv_parser = gh_response h, rv_timeout = t1, rv_ok_on_close = False,
                  rv_error_code = http_error_code\<rparr>) (\<lambda>(code, rv).
              let h1 = h\<lparr>gh_sock := rv_sock rv, gh_response := rv_parser rv\<rparr>
              in if code \<noteq> status_code PARSE_OK then Some (UPNP_E_BAD_RESPONSE, rv_alloc rv, h1, no_result)
                 else
                   map_option
                     (\<lambda>(status, p).
                        if status = PARSE_CONTINUE_1 \<or> status = PARSE_SUCCESS
                        then (0, rv_alloc rv, h1\<lparr>gh_response := p\<rparr>, response_result p)
                        else (UPNP_E_BAD_RESPONSE, rv_alloc rv, h1\<lparr>gh_response := p\<rparr>, no_result))
                     (parser_get_entity_read_method (rv_parser rv)))))"

text \<open>
  The result of parsing the URL of the proxy is overwritten by what follows, and an invalid one used;
  the family of its address is all that is used of it, by \<open>socket\<close> and \<open>connect\<close>.
\<close>

definition http_OpenHttpGetProxy ::
  "'f files \<Rightarrow> net_env \<Rightarrow> make_env \<Rightarrow> alloc_env \<Rightarrow> sock_env \<Rightarrow> int \<Rightarrow> int \<Rightarrow> string option \<Rightarrow> string option \<Rightarrow> bool \<Rightarrow> int \<Rightarrow> int
     \<Rightarrow> (int \<times> alloc_env \<times> get_handle option \<times> get_result) option"
where
  "http_OpenHttpGetProxy fs env me e w sockfd connected url_str proxy_str out_params timeout http_error_code =
     (case url_str of
        None \<Rightarrow> Some (UPNP_E_INVALID_PARAM, e, None, no_result)
      | Some url \<Rightarrow>
          if \<not> out_params then Some (UPNP_E_INVALID_PARAM, e, None, no_result)
          else
            Option.bind (MakeGetMessage env me e url proxy_str new_membuffer) (\<lambda>(ret_code, e1, request, _).
              if ret_code \<noteq> 0 then Some (ret_code, e1, None, no_result)
              else
                Option.bind
                  (case proxy_str of
                     None \<Rightarrow> Some ()
                   | Some proxy \<Rightarrow> map_option (\<lambda>_. ()) (http_FixStrUrl env proxy (List.length proxy))) (\<lambda>_.
                  case malloc_ok e1 SIZEOF_http_get_handle_t of
                    (False, e2) \<Rightarrow> Some (UPNP_E_OUTOF_MEMORY, e2, None, no_result)
                  | (True, e2) \<Rightarrow>
                      (let info = snd (sock_init sockfd);
                           h = \<lparr>gh_response = parser_response_init HTTPMETHOD_GET, gh_sock = w, gh_info = info,
                                gh_entity_offset = 0, gh_cancel = False\<rparr>;
                           errorHandler = (\<lambda>(ret_code, e3, h1, res).
                             (ret_code, e3,
                              Some (if ret_code \<noteq> 0
                                    then h1\<lparr>gh_response := upd_msg (\<lambda>m. snd (httpmsg_destroy m)) (gh_response h1)\<rparr> else h1),
                              res))
                       in if sockfd = INVALID_SOCKET then Some (errorHandler (UPNP_E_SOCKET_ERROR, e2, h, no_result))
                          else if connected = -1 then
                            map_option
                              (\<lambda>(_, w1, info1).
                                 errorHandler (UPNP_E_SOCKET_CONNECT, e2, h\<lparr>gh_sock := w1, gh_info := info1\<rparr>, no_result))
                              (sock_destroy w info)
                          else map_option errorHandler (exchange fs env e2 w info request timeout http_error_code)))))"

definition http_OpenHttpGet ::
  "'f files \<Rightarrow> net_env \<Rightarrow> make_env \<Rightarrow> alloc_env \<Rightarrow> sock_env \<Rightarrow> int \<Rightarrow> int \<Rightarrow> string option \<Rightarrow> bool \<Rightarrow> int \<Rightarrow> int
     \<Rightarrow> (int \<times> alloc_env \<times> get_handle option \<times> get_result) option"
where
  "http_OpenHttpGet fs env me e w sockfd connected url_str out_params timeout http_error_code =
     http_OpenHttpGetProxy fs env me e w sockfd connected url_str None out_params timeout http_error_code"

text \<open>
  With a range. A handle is stored only when the call succeeds, and freed otherwise, the connection
  with it when the response is bad.
\<close>

definition http_OpenHttpGetEx ::
  "'f files \<Rightarrow> net_env \<Rightarrow> make_env \<Rightarrow> alloc_env \<Rightarrow> sock_env \<Rightarrow> int \<Rightarrow> int \<Rightarrow> string option \<Rightarrow> bool \<Rightarrow> int \<Rightarrow> int \<Rightarrow> int \<Rightarrow> int
     \<Rightarrow> (int \<times> alloc_env \<times> get_handle option \<times> get_result) option"
where
  "http_OpenHttpGetEx fs env me e w sockfd connected url_str out_params lowRange highRange timeout http_error_code =
     (case url_str of
        None \<Rightarrow> Some (UPNP_E_INVALID_PARAM, e, None, no_result)
      | Some url \<Rightarrow>
          if \<not> out_params then Some (UPNP_E_INVALID_PARAM, e, None, no_result)
          else if lowRange > highRange then Some (UPNP_E_INTERNAL_ERROR, e, None, no_result)
          else
            (let rangeBuf = \<lparr>ins_IsVirtualFile = False, ins_IsChunkActive = False, ins_IsRangeActive = False, ins_IsTrailers = False,
                   ins_RangeHeader = ''Range: bytes='' @ show_int lowRange @ ''-'' @ show_int highRange @ CRLF,
                   ins_AcceptLanguageHeader = [], ins_RangeOffset = 0, ins_ReadSendSize = 0, ins_RecvWriteSize = 0\<rparr>
             in if List.length (ins_RangeHeader rangeBuf) \<ge> 200 then Some (0, e, None, no_result)
                else
                  Option.bind (MakeGetMessageEx env me e url new_membuffer rangeBuf) (\<lambda>(errCode, e1, request, _).
                    if errCode \<noteq> 0 then Some (errCode, e1, None, no_result)
                    else
                      (case malloc_ok e1 SIZEOF_http_get_handle_t of
                         (False, e2) \<Rightarrow> Some (UPNP_E_OUTOF_MEMORY, e2, None, no_result)
                       | (True, e2) \<Rightarrow>
                           if sockfd = INVALID_SOCKET then Some (UPNP_E_SOCKET_ERROR, e2, None, no_result)
                           else
                             (let info = snd (sock_init sockfd)
                              in if connected = -1 then
                                   map_option (\<lambda>_. (UPNP_E_SOCKET_CONNECT, e2, None, no_result)) (sock_destroy w info)
                                 else
                                   map_option
                                     (\<lambda>(code, e3, h, res).
                                        if code = 0 then (0, e3, Some h, res) else (code, e3, None, no_result))
                                     (exchange fs env e2 w info request timeout http_error_code))))))"


section \<open>Downloading\<close>

text \<open>
  The entity moved to the start of the message's block, which is then cut: the text and its terminator,
  of the length of the entity.
\<close>

definition extract_document :: "http_message \<Rightarrow> string option" where
  "extract_document m =
     Option.bind (hm_entity_buf m) (\<lambda>off.
     Option.bind (mb_buf (hm_msg m)) (\<lambda>b.
       if mb_length (hm_msg m) \<le> hm_entity_length m then None
       else block_read b off (hm_entity_length m + 1)))"

definition LINE_SIZE :: nat where "LINE_SIZE = 180"

text \<open>
  The result, \<open>*document\<close>, \<open>*doc_length\<close> and \<open>content_type\<close>. The document is \<open>None\<close> when it is set to
  \<open>NULL\<close> and when it is not set, which is so for an entity that comes with another status than 200.
\<close>

definition http_Download ::
  "'f files \<Rightarrow> net_env \<Rightarrow> make_env \<Rightarrow> nat \<Rightarrow> alloc_env \<Rightarrow> sock_env \<Rightarrow> int \<Rightarrow> int \<Rightarrow> string \<Rightarrow> int \<Rightarrow> int
     \<Rightarrow> (int \<times> string option \<times> nat \<times> string \<times> alloc_env) option"
where
  "http_Download fs env me g e w sockfd connected url_str timeout_secs http_error_code =
     Option.bind
       (make_request env me False e url_str new_membuffer (\<lambda>path. M_Q HTTPMETHOD_GET path (List.length path)) (Some [M_c]))
       (\<lambda>(ret_code, e1, request, _).
         if ret_code \<noteq> 0 then Some (ret_code, None, 0, [], e1)
         else
           Option.bind (mb_buf request) (\<lambda>buf.
           Option.bind
             (http_RequestAndResponse fs env g e1 w sockfd connected buf (mb_length request) HTTPMETHOD_GET timeout_secs
                http_error_code)
             (\<lambda>(ret_code, response, e2, _).
               if ret_code \<noteq> 0 then Some (ret_code, None, 0, [], e2)
               else
                 (let m = p_msg response;
                      content_type =
                        (case httpmsg_find_hdr m HDR_CONTENT_TYPE of
                           None \<Rightarrow> []
                         | Some i \<Rightarrow>
                             (let ctype = contents (h_value (header_at m i))
                              in take (if List.length ctype < LINE_SIZE - 1 then List.length ctype else LINE_SIZE - 1) ctype));
                      ret = (if hm_status_code m = 200 then 0 else hm_status_code m)
                  in if hm_entity_length m = 0 then Some (ret, None, 0, content_type, e2)
                     else if hm_status_code m = 200 then
                       map_option (\<lambda>doc. (ret, Some doc, hm_entity_length m, content_type, e2)) (extract_document m)
                     else Some (ret, None, hm_entity_length m, content_type, e2)))))"

end
