(* ===== verification/WebServer.thy ===== *)
theory WebServer
  imports HttpOpen
begin

text \<open>
  The web server, \<open>upnp/src/genlib/net/http/webserver.c\<close>: content types by file extension, byte ranges,
  the headers of a request that change how it is answered, the file a request is for, the answer, and
  the entity of a POST.

  The directories and files of the system and of the virtual directories are arguments: \<open>web_env\<close> for
  their attributes, \<open>files\<close> for what is read, \<open>post_files\<close> for what is written.
\<close>

abbreviation (input) HTTP_OK :: int where "HTTP_OK \<equiv> 200"
abbreviation (input) HTTP_PARTIAL_CONTENT :: int where "HTTP_PARTIAL_CONTENT \<equiv> 206"
abbreviation (input) HTTP_UNAUTHORIZED :: int where "HTTP_UNAUTHORIZED \<equiv> 401"
abbreviation (input) HTTP_FORBIDDEN :: int where "HTTP_FORBIDDEN \<equiv> 403"
abbreviation (input) HTTP_NOT_FOUND :: int where "HTTP_NOT_FOUND \<equiv> 404"
abbreviation (input) HTTP_NOT_ACCEPTABLE :: int where "HTTP_NOT_ACCEPTABLE \<equiv> 406"
abbreviation (input) HTTP_REQUEST_RANGE_NOT_SATISFIABLE :: int where "HTTP_REQUEST_RANGE_NOT_SATISFIABLE \<equiv> 416"
abbreviation (input) HTTP_SERVICE_UNAVAILABLE :: int where "HTTP_SERVICE_UNAVAILABLE \<equiv> 503"

section \<open>Content types\<close>

record document_type =
  dt_file_ext :: string
  dt_content_type :: "string option"
  dt_content_subtype :: string

definition gMediaTypes :: "string option list" where
  "gMediaTypes = [None, Some ''audio'', Some ''video'', Some ''image'', Some ''application'', Some ''text'']"

abbreviation (input) AUDIO_INDEX :: nat where "AUDIO_INDEX \<equiv> 1"
abbreviation (input) VIDEO_INDEX :: nat where "VIDEO_INDEX \<equiv> 2"
abbreviation (input) IMAGE_INDEX :: nat where "IMAGE_INDEX \<equiv> 3"
abbreviation (input) APPLICATION_INDEX :: nat where "APPLICATION_INDEX \<equiv> 4"
abbreviation (input) TEXT_INDEX :: nat where "TEXT_INDEX \<equiv> 5"

text \<open>The entries, and their encoding: extension, terminator, index of the type, subtype, terminator.\<close>

definition media_entries :: "(string \<times> nat \<times> string) list" where
  "media_entries =
     [(''aif'', AUDIO_INDEX, ''aiff''), (''aifc'', AUDIO_INDEX, ''aiff''), (''aiff'', AUDIO_INDEX, ''aiff''),
      (''asf'', VIDEO_INDEX, ''x-ms-asf''), (''asx'', VIDEO_INDEX, ''x-ms-asf''), (''au'', AUDIO_INDEX, ''basic''),
      (''avi'', VIDEO_INDEX, ''msvideo''), (''bmp'', IMAGE_INDEX, ''bmp''),
      (''dcr'', APPLICATION_INDEX, ''x-director''), (''dib'', IMAGE_INDEX, ''bmp''),
      (''dir'', APPLICATION_INDEX, ''x-director''), (''dxr'', APPLICATION_INDEX, ''x-director''),
      (''gif'', IMAGE_INDEX, ''gif''), (''hta'', TEXT_INDEX, ''hta''), (''htm'', TEXT_INDEX, ''html''),
      (''html'', TEXT_INDEX, ''html''), (''jar'', APPLICATION_INDEX, ''java-archive''),
      (''jfif'', IMAGE_INDEX, ''pjpeg''), (''jpe'', IMAGE_INDEX, ''jpeg''), (''jpeg'', IMAGE_INDEX, ''jpeg''),
      (''jpg'', IMAGE_INDEX, ''jpeg''), (''js'', APPLICATION_INDEX, ''x-javascript''),
      (''kar'', AUDIO_INDEX, ''midi''), (''m3u'', AUDIO_INDEX, ''mpegurl''), (''mid'', AUDIO_INDEX, ''midi''),
      (''midi'', AUDIO_INDEX, ''midi''), (''mov'', VIDEO_INDEX, ''quicktime''), (''mp2v'', VIDEO_INDEX, ''x-mpeg2''),
      (''mp3'', AUDIO_INDEX, ''mpeg''), (''mpe'', VIDEO_INDEX, ''mpeg''), (''mpeg'', VIDEO_INDEX, ''mpeg''),
      (''mpg'', VIDEO_INDEX, ''mpeg''), (''mpv'', VIDEO_INDEX, ''mpeg''), (''mpv2'', VIDEO_INDEX, ''x-mpeg2''),
      (''pdf'', APPLICATION_INDEX, ''pdf''), (''pjp'', IMAGE_INDEX, ''jpeg''), (''pjpeg'', IMAGE_INDEX, ''jpeg''),
      (''plg'', TEXT_INDEX, ''html''), (''pls'', AUDIO_INDEX, ''scpls''), (''png'', IMAGE_INDEX, ''png''),
      (''qt'', VIDEO_INDEX, ''quicktime''), (''ram'', AUDIO_INDEX, ''x-pn-realaudio''),
      (''rmi'', AUDIO_INDEX, ''mid''), (''rmm'', AUDIO_INDEX, ''x-pn-realaudio''),
      (''rtf'', APPLICATION_INDEX, ''rtf''), (''shtml'', TEXT_INDEX, ''html''), (''smf'', AUDIO_INDEX, ''midi''),
      (''snd'', AUDIO_INDEX, ''basic''), (''spl'', APPLICATION_INDEX, ''futuresplash''),
      (''ssm'', APPLICATION_INDEX, ''streamingmedia''), (''swf'', APPLICATION_INDEX, ''x-shockwave-flash''),
      (''tar'', APPLICATION_INDEX, ''tar''), (''tcl'', APPLICATION_INDEX, ''x-tcl''),
      (''text'', TEXT_INDEX, ''plain''), (''tif'', IMAGE_INDEX, ''tiff''), (''tiff'', IMAGE_INDEX, ''tiff''),
      (''txt'', TEXT_INDEX, ''plain''), (''ulw'', AUDIO_INDEX, ''basic''), (''wav'', AUDIO_INDEX, ''wav''),
      (''wax'', AUDIO_INDEX, ''x-ms-wax''), (''wm'', VIDEO_INDEX, ''x-ms-wm''), (''wma'', AUDIO_INDEX, ''x-ms-wma''),
      (''wmv'', VIDEO_INDEX, ''x-ms-wmv''), (''wvx'', VIDEO_INDEX, ''x-ms-wvx''),
      (''xbm'', IMAGE_INDEX, ''x-xbitmap''), (''xml'', TEXT_INDEX, ''xml''), (''xsl'', TEXT_INDEX, ''xml''),
      (''z'', APPLICATION_INDEX, ''x-compress''), (''zip'', APPLICATION_INDEX, ''zip'')]"

definition gEncodedMediaTypes :: string where
  "gEncodedMediaTypes =
     concat (map (\<lambda>(ext, ty, sub). ext @ [NUL] @ [char_of ty] @ sub @ [NUL]) media_entries) @ [NUL, NUL]"

definition NUM_MEDIA_TYPES :: int where "NUM_MEDIA_TYPES = 69"

function media_list_init :: "string \<Rightarrow> document_type list" where
  "media_list_init s =
     (if s = [] \<or> hd s = NUL then []
      else
        (let file_ext = cstr s; s1 = drop (List.length file_ext + 1) s; subtype = cstr (tl s1)
         in \<lparr>dt_file_ext = file_ext, dt_content_type = gMediaTypes ! of_char (hd s1), dt_content_subtype = subtype\<rparr> #
            media_list_init (drop (List.length subtype + 1) (tl s1))))"
  by pat_completeness auto
termination
  by (relation "measure List.length") (auto simp: Let_def)

declare media_list_init.simps [simp del]

definition gMediaTypeList :: "document_type list" where
  "gMediaTypeList = media_list_init gEncodedMediaTypes"

definition strcasecmp :: "string \<Rightarrow> string \<Rightarrow> int" where
  "strcasecmp s1 s2 = strncasecmp s1 s2 (Suc (max (List.length s1) (List.length s2)))"

function search_loop :: "string \<Rightarrow> document_type list \<Rightarrow> int \<Rightarrow> int \<Rightarrow> nat option" where
  "search_loop extension table top_idx bot_idx =
     (if top_idx \<le> bot_idx then
        (let mid = (top_idx + bot_idx) div 2; cmp = strcasecmp extension (dt_file_ext (table ! nat mid))
         in if cmp > 0 then search_loop extension table (mid + 1) bot_idx
            else if cmp < 0 then search_loop extension table top_idx (mid - 1)
            else Some (nat mid))
      else None)"
  by pat_completeness auto
termination
  by (relation "measure (\<lambda>(_, _, t, b). nat (b - t + 1))") auto

declare search_loop.simps [simp del]

text \<open>0 with the type and the subtype, or -1.\<close>

definition search_extension :: "string \<Rightarrow> int \<times> (string option \<times> string) option" where
  "search_extension extension =
     (case search_loop extension gMediaTypeList 0 (NUM_MEDIA_TYPES - 1) of
        None \<Rightarrow> (-1, None)
      | Some mid \<Rightarrow> (0, Some (dt_content_type (gMediaTypeList ! mid), dt_content_subtype (gMediaTypeList ! mid))))"


section \<open>Strings\<close>

definition toupper :: "char \<Rightarrow> char" where
  "toupper c = (if islower c then char_of (of_char c - 32 :: nat) else c)"

definition ToUpperCase :: "string \<Rightarrow> string" where
  "ToUpperCase = map toupper"

text \<open>The offset of the first occurrence, whatever the case; none when memory is short.\<close>

definition StrStr :: "alloc_env \<Rightarrow> string \<Rightarrow> string \<Rightarrow> nat option \<times> alloc_env" where
  "StrStr e s1 s2 =
     (case malloc_ok e (List.length s1 + 1) of
        (False, e1) \<Rightarrow> (None, e1)
      | (True, e1) \<Rightarrow>
          (case malloc_ok e1 (List.length s2 + 1) of
             (False, e2) \<Rightarrow> (None, e2)
           | (True, e2) \<Rightarrow>
               (let i = strstr_from (ToUpperCase s1) (ToUpperCase s2) 0 in (if i = -1 then None else Some (nat i), e2))))"

text \<open>The token, and what \<open>*Src\<close> points to afterwards.\<close>

definition StrTok :: "string option \<Rightarrow> string \<Rightarrow> string option \<times> string option" where
  "StrTok Src Del =
     (case Src of
        None \<Rightarrow> (None, None)
      | Some s \<Rightarrow>
          (let i = strstr_from s Del 0
           in if i = -1 then (Some s, None) else (Some (take (nat i) s), Some (drop (nat i + List.length Del) s))))"


section \<open>Byte ranges\<close>

text \<open>\<open>sscanf\<close> with two 64-bit numbers, over -1 and -1.\<close>

definition scan_two :: "string \<Rightarrow> int \<times> int" where
  "scan_two s =
     (case strtol 10 s of (f, stop, _) \<Rightarrow>
        if stop = 0 then (-1, -1)
        else (case strtol 10 (drop stop s) of (l, stop2, _) \<Rightarrow> (f, if stop2 = 0 then -1 else l)))"

text \<open>Whether the first character that is a dash or a digit is a dash.\<close>

definition is_suffix_range :: "string \<Rightarrow> bool" where
  "is_suffix_range tok =
     (case dropWhile (\<lambda>c. c \<noteq> CHR ''-'' \<and> \<not> isdigit c) tok of [] \<Rightarrow> True | c # _ \<Rightarrow> c = CHR ''-'')"

text \<open>The first and the last byte, or \<open>None\<close> for the result -1; and the rest of the string.\<close>

definition GetNextRange :: "string option \<Rightarrow> (int \<times> int) option \<times> string option" where
  "GetNextRange SrcRangeStr =
     (case StrTok SrcRangeStr '','' of
        (None, src) \<Rightarrow> (None, src)
      | (Some tok, src) \<Rightarrow>
          (let p = strstr_from tok ''-'' 0
           in if p = -1 then (None, src)
              else
                (let (f, l) = scan_two (tok[nat p := CHR '' ''])
                 in (Some (if (f = -1 \<or> l = -1) \<and> is_suffix_range tok then (l, f) else (f, l)), src))))"

definition content_range :: "int \<Rightarrow> int \<Rightarrow> int \<Rightarrow> string" where
  "content_range firstb lastb len =
     ''CONTENT-RANGE: bytes '' @ show_int firstb @ ''-'' @ show_int lastb @ ''/'' @ show_int len @ CRLF"

text \<open>The tail every satisfiable range has: the place, the size, the header.\<close>

definition set_range :: "send_instruction \<Rightarrow> int \<Rightarrow> int \<Rightarrow> string \<Rightarrow> int \<times> send_instruction" where
  "set_range Instr off n header =
     (if List.length header \<ge> 200
      then (HTTP_INTERNAL_SERVER_ERROR, Instr\<lparr>ins_RangeOffset := off, ins_ReadSendSize := n, ins_RangeHeader := take 199 header\<rparr>)
      else (HTTP_OK, Instr\<lparr>ins_RangeOffset := off, ins_ReadSendSize := n, ins_RangeHeader := header\<rparr>))"

definition apply_range :: "int \<Rightarrow> int \<Rightarrow> int \<Rightarrow> send_instruction \<Rightarrow> int \<times> send_instruction" where
  "apply_range FileLength FirstByte LastByte Instr =
     (if FileLength < FirstByte then (HTTP_REQUEST_RANGE_NOT_SATISFIABLE, Instr)
      else if FirstByte \<ge> 0 \<and> LastByte \<ge> 0 \<and> LastByte \<ge> FirstByte then
        (let lst = (if LastByte \<ge> FileLength then FileLength - 1 else LastByte)
         in set_range Instr FirstByte (lst - FirstByte + 1) (content_range FirstByte lst FileLength))
      else if FirstByte \<ge> 0 \<and> LastByte = -1 \<and> FirstByte < FileLength then
        set_range Instr FirstByte (FileLength - FirstByte) (content_range FirstByte (FileLength - 1) FileLength)
      else if FirstByte = -1 \<and> LastByte > 0 then
        (if LastByte \<ge> FileLength then set_range Instr 0 FileLength (content_range 0 (FileLength - 1) FileLength)
         else set_range Instr (FileLength - LastByte) LastByte
                (content_range (FileLength - LastByte) (FileLength - 1) FileLength))
      else (HTTP_REQUEST_RANGE_NOT_SATISFIABLE, Instr))"

definition CreateHTTPRangeResponseHeader ::
  "alloc_env \<Rightarrow> string option \<Rightarrow> int \<Rightarrow> send_instruction \<Rightarrow> int \<times> alloc_env \<times> send_instruction" where
  "CreateHTTPRangeResponseHeader e ByteRangeSpecifier FileLength Instr0 =
     (let Instr = Instr0\<lparr>ins_IsRangeActive := True, ins_ReadSendSize := FileLength\<rparr>
      in case ByteRangeSpecifier of
           None \<Rightarrow> (HTTP_BAD_REQUEST, e, Instr)
         | Some RangeInput \<Rightarrow>
             (case malloc_ok e (List.length RangeInput + 1) of
                (False, e1) \<Rightarrow> (HTTP_INTERNAL_SERVER_ERROR, e1, Instr)
              | (True, e1) \<Rightarrow>
                  (case StrStr e1 RangeInput ''bytes'' of
                     (None, e2) \<Rightarrow> (HTTP_BAD_REQUEST, e2, Instr\<lparr>ins_IsRangeActive := False\<rparr>)
                   | (Some _, e2) \<Rightarrow>
                       (case StrStr e2 RangeInput ''='' of
                          (None, e3) \<Rightarrow> (HTTP_BAD_REQUEST, e3, Instr\<lparr>ins_IsRangeActive := False\<rparr>)
                        | (Some i, e3) \<Rightarrow>
                            if FileLength < 0 then (HTTP_REQUEST_RANGE_NOT_SATISFIABLE, e3, Instr)
                            else
                              (case GetNextRange (Some (drop (i + 1) RangeInput)) of
                                 (None, _) \<Rightarrow> (HTTP_REQUEST_RANGE_NOT_SATISFIABLE, e3, Instr)
                               | (Some (FirstByte, LastByte), _) \<Rightarrow>
                                   (case apply_range FileLength FirstByte LastByte Instr of
                                      (rc, Instr1) \<Rightarrow> (rc, e3, Instr1)))))))"


section \<open>The headers of a request\<close>

definition HDR_TE :: int where "HDR_TE = 36"
definition HDR_RANGE :: int where "HDR_RANGE = 35"
definition HDR_ACCEPT_LANGUAGE :: int where "HDR_ACCEPT_LANGUAGE = 28"

text \<open>
  What the loop does with one header: \<open>tmp\<close> is its value as a C string, \<open>TmpBufSize\<close> the size of
  the buffer for it. \<open>Inl\<close> is a return.
\<close>

definition check_header ::
  "alloc_env \<Rightarrow> http_header \<Rightarrow> int \<Rightarrow> send_instruction \<Rightarrow> int \<times> alloc_env \<times> send_instruction" where
  "check_header e header FileSize RespInstr =
     (let index = map_str_to_int (mp_buf (h_name header)) (mp_length (h_name header)) Http_Header_Names
            NUM_HTTP_HEADER_NAMES False;
          tmp = cstr (contents (h_value header))
      in if index < 0 then (HTTP_OK, e, RespInstr)
         else
           (let hdr = ent_id (Http_Header_Names ! nat index)
            in if hdr = HDR_TE then
                 (let r1 = RespInstr\<lparr>ins_IsChunkActive := True\<rparr>
                  in if List.length tmp > List.length ''gzip'' then
                       (case StrStr e tmp ''trailers'' of
                          (None, e1) \<Rightarrow> (HTTP_OK, e1, r1)
                        | (Some _, e1) \<Rightarrow> (HTTP_OK, e1, r1\<lparr>ins_IsTrailers := True\<rparr>))
                     else (HTTP_OK, e, r1))
               else if hdr = HDR_CONTENT_LENGTH then
                 (HTTP_OK, e, RespInstr\<lparr>ins_RecvWriteSize := c_int (fst (strtol 10 tmp))\<rparr>)
               else if hdr = HDR_RANGE then CreateHTTPRangeResponseHeader e (Some tmp) FileSize RespInstr
               else if hdr = HDR_ACCEPT_LANGUAGE then
                 (HTTP_OK, e, RespInstr\<lparr>ins_AcceptLanguageHeader :=
                    cstr (if mb_length (h_value header) + 1 > 200 then take 199 (contents (h_value header))
                          else contents (h_value header))\<rparr>)
               else (HTTP_OK, e, RespInstr)))"

fun check_headers ::
  "alloc_env \<Rightarrow> nat \<Rightarrow> http_header list \<Rightarrow> int \<Rightarrow> send_instruction \<Rightarrow> int \<times> alloc_env \<times> send_instruction" where
  "check_headers e TmpBufSize [] FileSize RespInstr = (HTTP_OK, e, RespInstr)"
| "check_headers e TmpBufSize (header # hs) FileSize RespInstr =
     (let len = mb_length (h_value header);
          (ok, e1) = (if len \<ge> TmpBufSize then malloc_ok e (len + 1) else (True, e))
      in if \<not> ok then (HTTP_INTERNAL_SERVER_ERROR, e1, RespInstr)
         else
           (case check_header e1 header FileSize RespInstr of
              (RetCode, e2, r2) \<Rightarrow>
                if RetCode \<noteq> HTTP_OK then (RetCode, e2, r2)
                else check_headers e2 (if len \<ge> TmpBufSize then len + 1 else TmpBufSize) hs FileSize r2))"

definition CheckOtherHTTPHeaders ::
  "alloc_env \<Rightarrow> http_message \<Rightarrow> send_instruction \<Rightarrow> int \<Rightarrow> int \<times> alloc_env \<times> send_instruction" where
  "CheckOtherHTTPHeaders e Req RespInstr FileSize =
     (case malloc_ok e LINE_SIZE of
        (False, e1) \<Rightarrow> (HTTP_INTERNAL_SERVER_ERROR, e1, RespInstr)
      | (True, e1) \<Rightarrow> check_headers e1 LINE_SIZE (q_items (hm_headers Req)) FileSize RespInstr)"


section \<open>Files\<close>

datatype file_kind = Directory | Regular | Other_kind

record file_info =
  fi_file_length :: int
  fi_last_modified :: int
  fi_is_directory :: bool
  fi_is_readable :: bool

text \<open>
  What there is: the root directory, the virtual directories, their \<open>get_info\<close> callback, and what \<open>stat\<close>
  and an \<open>fopen\<close> for reading give for a name.
\<close>

record web_env =
  we_root :: membuffer
  we_dirs :: "string list"
  we_get_info :: "string \<Rightarrow> int \<times> file_info"
  we_stat :: "string \<Rightarrow> (file_kind \<times> int \<times> int) option"
  we_readable :: "string \<Rightarrow> bool"

definition web_server_set_root_dir :: "alloc_env \<Rightarrow> web_env \<Rightarrow> string \<Rightarrow> (int \<times> alloc_env \<times> web_env) option" where
  "web_server_set_root_dir e we root_dir =
     (case membuffer_assign_str e (we_root we) root_dir of
        None \<Rightarrow> None
      | Some (ret, e1, m) \<Rightarrow>
          if ret \<noteq> 0 then Some (ret, e1, we\<lparr>we_root := m\<rparr>)
          else if mb_length m > 0 then
            Option.bind (mb_buf m) (\<lambda>b.
              let index = mb_length m - 1
              in if b ! index = CHR ''/''
                 then map_option (\<lambda>(e2, m2). (0, e2, we\<lparr>we_root := m2\<rparr>)) (membuffer_delete e1 m index 1)
                 else Some (0, e1, we\<lparr>we_root := m\<rparr>))
          else Some (0, e1, we\<lparr>we_root := m\<rparr>))"

definition get_file_info :: "web_env \<Rightarrow> string \<Rightarrow> file_info option" where
  "get_file_info we filename =
     (case we_stat we filename of
        None \<Rightarrow> None
      | Some (kind, len, mtime) \<Rightarrow>
          if kind = Other_kind then None
          else Some \<lparr>fi_file_length = len, fi_last_modified = mtime, fi_is_directory = (kind = Directory),
                     fi_is_readable = we_readable we filename\<rparr>)"

definition in_virtual_dir :: "string \<Rightarrow> string \<Rightarrow> bool" where
  "in_virtual_dir filePath dirName =
     (let webDirLen = List.length dirName
      in webDirLen \<noteq> 0 \<and>
         (if dirName ! (webDirLen - 1) = CHR ''/'' then strncmp dirName filePath webDirLen = 0
          else strncmp dirName filePath webDirLen = 0 \<and>
            cchar_at filePath webDirLen \<in> {CHR ''/'', NUL, CHR ''?''}))"

fun isFileInVirtualDir :: "string list \<Rightarrow> string \<Rightarrow> bool" where
  "isFileInVirtualDir [] filePath = False"
| "isFileInVirtualDir (dirName # ds) filePath = (in_virtual_dir filePath dirName \<or> isFileInVirtualDir ds filePath)"

end
