(* ===== verification/WebServerProps.thy ===== *)
theory WebServerProps
  imports WebServer
begin

text \<open>
  What the web server does with a byte range, \<open>CreateHTTPRangeResponseHeader\<close> of \<open>webserver.c\<close>: the
  part of the file it sets up lies in the file, whatever the client asks for, and for the three forms a
  range has it is the part the client asked for.
\<close>

abbreviation (input) send0 :: send_instruction where
  "send0 \<equiv> \<lparr>ins_IsVirtualFile = False, ins_IsChunkActive = False, ins_IsRangeActive = False, ins_IsTrailers = False,
     ins_RangeHeader = [], ins_AcceptLanguageHeader = [], ins_RangeOffset = 0, ins_ReadSendSize = 0, ins_RecvWriteSize = 0\<rparr>"

section \<open>Ranges lie in the file\<close>

text \<open>\<open>places len Instr Instr1\<close>: \<open>Instr1\<close> is \<open>Instr\<close> with a part of a file of length \<open>len\<close> set up.\<close>

definition places :: "int \<Rightarrow> send_instruction \<Rightarrow> send_instruction \<Rightarrow> bool" where
  "places len Instr Instr1 \<longleftrightarrow>
     (\<exists>off n. Instr1 = Instr\<lparr>ins_RangeOffset := off, ins_ReadSendSize := n,
                ins_RangeHeader := content_range off (off + n - 1) len\<rparr> \<and>
        0 \<le> off \<and> 0 \<le> n \<and> off + n \<le> len \<and> List.length (content_range off (off + n - 1) len) < 200)"

lemma set_range_places:
  assumes "set_range Instr off n (content_range off l len) = (HTTP_OK, Instr1)"
    and "l = off + n - 1" and "0 \<le> off" and "0 \<le> n" and "off + n \<le> len"
  shows "places len Instr Instr1"
  using assms unfolding places_def
  by (rule_tac x = off in exI, rule_tac x = n in exI)
    (auto simp: set_range_def HTTP_INTERNAL_SERVER_ERROR_def split: if_splits)

lemma apply_range_places:
  assumes "apply_range len FirstByte LastByte Instr = (HTTP_OK, Instr1)" and "0 \<le> len"
  shows "places len Instr Instr1"
  using assms
  by (auto simp: apply_range_def Let_def split: if_splits elim!: set_range_places)

lemma range_places:
  assumes "CreateHTTPRangeResponseHeader e spec len Instr = (HTTP_OK, e1, Instr1)"
  shows "places len (Instr\<lparr>ins_IsRangeActive := True\<rparr>) Instr1"
proof -
  let ?I = "Instr\<lparr>ins_IsRangeActive := True, ins_ReadSendSize := len\<rparr>"
  have "places len ?I Instr1"
    using assms
    by (auto simp: CreateHTTPRangeResponseHeader_def Let_def HTTP_INTERNAL_SERVER_ERROR_def HTTP_BAD_REQUEST_def intro: apply_range_places
        split: option.splits prod.splits bool.splits if_splits)
  then show ?thesis by (auto simp: places_def)
qed

section \<open>Ranges are what was asked for\<close>

lemma strstr_char:
  "c \<notin> set xs \<Longrightarrow> strstr_from (xs @ c # ys) [c] i = int (i + List.length xs)"
  "c \<notin> set xs \<Longrightarrow> strstr_from xs [c] i = -1"
  by (induction xs arbitrary: i) auto

lemma dec_digit_isdigit: "d < 10 \<Longrightarrow> isdigit (dec_digit d) \<and> hex_value (dec_digit d) = d"
  by (auto simp: dec_digit_def isdigit_def hex_value_def numeral_eq_Suc less_Suc_eq)

lemma num_value_snoc: "num_value b (ds @ [c]) = b * num_value b ds + hex_value c"
  by (simp add: num_value_def)

lemma dec_digits_number:
  "dec_digits n \<noteq> [] \<and> list_all isdigit (dec_digits n) \<and> num_value 10 (dec_digits n) = n"
proof (induction n rule: dec_digits.induct)
  case (1 n)
  then show ?case
    by (subst (1 2 3) dec_digits.simps)
      (auto simp: num_value_snoc dec_digit_isdigit, simp add: num_value_def dec_digit_isdigit)
qed

lemma dec_digits_length: "n < 10 ^ Suc k \<Longrightarrow> List.length (dec_digits n) \<le> Suc k"
proof (induction k arbitrary: n)
  case 0
  then show ?case by (simp add: dec_digits.simps)
next
  case (Suc k)
  then have "n div 10 < 10 ^ Suc k" by (simp add: div_less_iff_less_mult mult.commute)
  from Suc.IH [OF this] show ?case by (subst dec_digits.simps) simp
qed

lemma isdigit_other: "isdigit c \<Longrightarrow> \<not> isspace c \<and> c \<notin> {CHR ''-'', CHR ''+'', CHR '','', NUL, CHR ''=''}"
  by (auto simp: isdigit_def isspace_def)

lemma strtol_dec:
  assumes "n < 2 ^ 63" and "list_all isspace ws" and "rest = [] \<or> \<not> isdigit (hd rest)"
  shows "strtol 10 (ws @ dec_digits n @ rest) = (int n, List.length ws + List.length (dec_digits n), False)"
proof -
  obtain c cs where ds: "dec_digits n = c # cs" and c: "isdigit c"
    using dec_digits_number [of n] by (cases "dec_digits n") auto
  have ws: "takeWhile isspace (ws @ dec_digits n @ rest) = ws"
    using assms(2) isdigit_other [OF c] by (simp add: ds list_all_iff)
  have tw: "takeWhile (digit_of 10) (dec_digits n @ rest) = dec_digits n"
    using dec_digits_number [of n] assms(3)
    by (cases rest) (auto simp: digit_of_def list_all_iff takeWhile_append)
  have c0: "cchar_at (dec_digits n @ rest) 0 = c" by (simp add: ds cchar_at_def)
  show ?thesis
    using isdigit_other [OF c] dec_digits_number [of n] assms(1)
    by (simp add: strtol_def Let_def ws c0 hex_prefix_def tw LONG_MAX_def)
qed

text \<open>A range as a client writes it, and the place and the size of what it asks of a file.\<close>

datatype byte_range = FromTo nat nat | FromOn nat | LastOf nat

fun range_spec :: "byte_range \<Rightarrow> string" where
  "range_spec (FromTo a b) = dec_digits a @ ''-'' @ dec_digits b"
| "range_spec (FromOn a) = dec_digits a @ ''-''"
| "range_spec (LastOf n) = ''-'' @ dec_digits n"

fun range_small :: "byte_range \<Rightarrow> bool" where
  "range_small (FromTo a b) \<longleftrightarrow> a < 2 ^ 63 \<and> b < 2 ^ 63"
| "range_small (FromOn a) \<longleftrightarrow> a < 2 ^ 63"
| "range_small (LastOf n) \<longleftrightarrow> n < 2 ^ 63"

fun wanted :: "byte_range \<Rightarrow> int \<Rightarrow> (int \<times> int) option" where
  "wanted (FromTo a b) len =
     (if a \<le> b \<and> int a < len then Some (int a, min (int b + 1) len - int a) else None)"
| "wanted (FromOn a) len = (if int a < len then Some (int a, len - int a) else None)"
| "wanted (LastOf n) len = (if 0 < n \<and> 0 < len then Some (max 0 (len - int n), min (int n) len) else None)"

fun first_last :: "byte_range \<Rightarrow> int \<times> int" where
  "first_last (FromTo a b) = (int a, int b)"
| "first_last (FromOn a) = (int a, -1)"
| "first_last (LastOf n) = (-1, int n)"

lemma dec_digits_chars: "c \<in> {CHR ''-'', CHR '','', CHR ''=''} \<Longrightarrow> c \<notin> set (dec_digits n)"
  using dec_digits_number [of n] isdigit_other by (auto simp: list_all_iff)

lemma dec_digits_hd: "\<exists>c cs. dec_digits n = c # cs \<and> isdigit c"
  using dec_digits_number [of n] by (cases "dec_digits n") auto

lemma strtol_nothing: "strtol 10 [] = (0, 0, False)" "strtol 10 '' '' = (0, 0, False)"
  by (simp_all add: strtol_def Let_def cchar_at_def isspace_def)

lemma one_token: "CHR '','' \<notin> set s \<Longrightarrow> StrTok (Some s) '','' = (Some s, None)"
  by (simp add: StrTok_def strstr_char del: strstr_from.simps)

lemma next_range: "range_small r \<Longrightarrow> GetNextRange (Some (range_spec r)) = (Some (first_last r), None)"
proof (cases r)
  case (FromTo a b)
  assume small: "range_small r"
  have "CHR '','' \<notin> set (range_spec r)" using FromTo dec_digits_chars by auto
  then have tok: "StrTok (Some (range_spec r)) '','' = (Some (range_spec r), None)"
    by (rule one_token)
  have p: "strstr_from (range_spec r) ''-'' 0 = int (List.length (dec_digits a))"
    using strstr_char(1) [of "CHR ''-''" "dec_digits a" "dec_digits b" 0] FromTo dec_digits_chars by auto
  have up: "(range_spec r)[List.length (dec_digits a) := CHR '' ''] = dec_digits a @ '' '' @ dec_digits b"
    using FromTo by (simp add: list_update_append)
  have "strtol 10 (dec_digits a @ '' '' @ dec_digits b) = (int a, List.length (dec_digits a), False)"
    using strtol_dec [of a "[]" "'' '' @ dec_digits b"] small FromTo by (simp add: isdigit_def)
  moreover have "strtol 10 ('' '' @ dec_digits b) = (int b, Suc (List.length (dec_digits b)), False)"
    using strtol_dec [of b "'' ''" "[]"] small FromTo by (simp add: isspace_def)
  ultimately have "scan_two (dec_digits a @ '' '' @ dec_digits b) = (int a, int b)"
    using dec_digits_number [of a] by (simp add: scan_two_def)
  then show ?thesis using tok p up FromTo by (simp add: GetNextRange_def Let_def)
next
  case (FromOn a)
  assume small: "range_small r"
  have "CHR '','' \<notin> set (range_spec r)" using FromOn dec_digits_chars by auto
  then have tok: "StrTok (Some (range_spec r)) '','' = (Some (range_spec r), None)"
    by (rule one_token)
  have p: "strstr_from (range_spec r) ''-'' 0 = int (List.length (dec_digits a))"
    using strstr_char(1) [of "CHR ''-''" "dec_digits a" "[]" 0] FromOn dec_digits_chars by auto
  have up: "(range_spec r)[List.length (dec_digits a) := CHR '' ''] = dec_digits a @ '' ''"
    using FromOn by (simp add: list_update_append)
  have "strtol 10 (dec_digits a @ '' '') = (int a, List.length (dec_digits a), False)"
    using strtol_dec [of a "[]" "'' ''"] small FromOn by (simp add: isdigit_def)
  then have sc: "scan_two (dec_digits a @ '' '') = (int a, -1)"
    using dec_digits_number [of a] by (simp add: scan_two_def strtol_nothing)
  have "\<not> is_suffix_range (range_spec r)"
    using dec_digits_hd [of a] isdigit_other FromOn by (auto simp: is_suffix_range_def)
  then show ?thesis using tok p up sc FromOn by (simp add: GetNextRange_def Let_def)
next
  case (LastOf n)
  assume small: "range_small r"
  have "CHR '','' \<notin> set (range_spec r)" using LastOf dec_digits_chars by auto
  then have tok: "StrTok (Some (range_spec r)) '','' = (Some (range_spec r), None)"
    by (rule one_token)
  have "strtol 10 ('' '' @ dec_digits n) = (int n, Suc (List.length (dec_digits n)), False)"
    using strtol_dec [of n "'' ''" "[]"] small LastOf by (simp add: isspace_def)
  then have "scan_two ('' '' @ dec_digits n) = (int n, -1)" by (simp add: scan_two_def strtol_nothing)
  then show ?thesis using tok LastOf by (simp add: GetNextRange_def Let_def is_suffix_range_def)
qed

lemma malloc_plenty: "oom e = [] \<Longrightarrow> n \<le> alloc_max \<Longrightarrow> malloc_ok e n = (True, e)"
  by (simp add: malloc_ok_def)

lemma StrStr_plenty:
  assumes "oom e = []" and "List.length s < alloc_max" and "List.length t < alloc_max"
  shows "StrStr e s t =
     (let i = strstr_from (ToUpperCase s) (ToUpperCase t) 0 in (if i = -1 then None else Some (nat i), e))"
  using assms by (simp add: StrStr_def malloc_plenty)

lemma upper_bytes: "ToUpperCase ''bytes'' = ''BYTES''" "ToUpperCase ''='' = ''=''"
  by code_simp+

lemma find_bytes: "strstr_from (ToUpperCase (''bytes='' @ s)) (ToUpperCase ''bytes'') 0 = 0"
  by (simp add: ToUpperCase_def)

lemma find_equals: "strstr_from (ToUpperCase (''bytes='' @ s)) (ToUpperCase ''='') 0 = 5"
proof -
  have "ToUpperCase (''bytes='' @ s) = ''BYTES'' @ CHR ''='' # ToUpperCase s" "ToUpperCase ''='' = ''=''"
    using upper_bytes by (simp_all add: ToUpperCase_def)
  then show ?thesis using strstr_char(1) [of "CHR ''=''" "''BYTES''" "ToUpperCase s" 0] by simp
qed

lemma range_spec_length:
  assumes "range_small r"
  shows "List.length (range_spec r) < 100"
proof -
  have "List.length (dec_digits n) \<le> 19" if "n < 2 ^ 63" for n
    using dec_digits_length [of n 18] that by simp
  note d = this
  show ?thesis
  proof (cases r)
    case (FromTo a b)
    with d [of a] d [of b] assms show ?thesis by simp
  next
    case (FromOn a)
    with d [of a] assms show ?thesis by simp
  next
    case (LastOf n)
    with d [of n] assms show ?thesis by simp
  qed
qed

lemma show_int_length: "- 1 \<le> v \<Longrightarrow> v < 2 ^ 63 \<Longrightarrow> List.length (show_int v) \<le> 20"
proof -
  assume v: "- 1 \<le> v" "v < 2 ^ 63"
  have "List.length (dec_digits (nat \<bar>v\<bar>)) \<le> 19"
    using dec_digits_length [of "nat \<bar>v\<bar>" 18] v by simp
  then show ?thesis by (auto simp: show_int_def)
qed

lemma content_range_length:
  assumes "0 \<le> f" "f < 2 ^ 63" "- 1 \<le> l" "l < 2 ^ 63" "0 \<le> len" "len < 2 ^ 63"
  shows "List.length (content_range f l len) < 200"
  using show_int_length [of f] show_int_length [of l] show_int_length [of len] assms
  by (simp add: content_range_def CRLF_def)

lemma create_range:
  assumes "oom e = []" and "range_small r" and "0 \<le> len"
  shows "CreateHTTPRangeResponseHeader e (Some (''bytes='' @ range_spec r)) len Instr =
     (case first_last r of (f, l) \<Rightarrow>
        (case apply_range len f l (Instr\<lparr>ins_IsRangeActive := True, ins_ReadSendSize := len\<rparr>) of
           (rc, Instr1) \<Rightarrow> (rc, e, Instr1)))"
proof -
  have len: "List.length (''bytes='' @ range_spec r) + 1 \<le> alloc_max"
    using range_spec_length [OF assms(2)] by (simp add: alloc_max_def)
  have "StrStr e (''bytes='' @ range_spec r) ''bytes'' = (Some 0, e)"
    "StrStr e (''bytes='' @ range_spec r) ''='' = (Some 5, e)"
    using StrStr_plenty [OF assms(1)] len find_bytes find_equals by (simp_all add: alloc_max_def Let_def)
  then show ?thesis
    using assms(3) malloc_plenty [OF assms(1) len] next_range [OF assms(2)]
    by (simp add: CreateHTTPRangeResponseHeader_def Let_def eval_nat_numeral split: prod.split)
qed

lemma set_range_fits:
  assumes "0 \<le> off" "0 \<le> n" "off + n \<le> len" "len < 2 ^ 63"
  shows "set_range Instr off n (content_range off (off + n - 1) len) =
     (HTTP_OK, Instr\<lparr>ins_RangeOffset := off, ins_ReadSendSize := n, ins_RangeHeader := content_range off (off + n - 1) len\<rparr>)"
  using assms content_range_length [of off "off + n - 1" len] by (simp add: set_range_def)

lemma apply_wanted:
  assumes "range_small r" and "0 < len" and "len < 2 ^ 63" and "fst (first_last r) \<noteq> len"
  shows "(case first_last r of (f, l) \<Rightarrow> apply_range len f l Instr) =
     (case wanted r len of
        None \<Rightarrow> (HTTP_REQUEST_RANGE_NOT_SATISFIABLE, Instr)
      | Some (off, n) \<Rightarrow>
          (HTTP_OK, Instr\<lparr>ins_RangeOffset := off, ins_ReadSendSize := n,
             ins_RangeHeader := content_range off (off + n - 1) len\<rparr>))"
proof (cases r)
  case (FromTo a b)
  have "apply_range len (int a) (int b) Instr =
      (if a \<le> b \<and> int a < len
       then (let n = min (int b + 1) len - int a in set_range Instr (int a) n (content_range (int a) (int a + n - 1) len))
       else (HTTP_REQUEST_RANGE_NOT_SATISFIABLE, Instr))"
    using assms(2,4) FromTo by (simp add: apply_range_def min_def Let_def diff_add_eq)
  then show ?thesis using FromTo assms(3) set_range_fits [of "int a" "min (int b + 1) len - int a" len]
    by (simp add: Let_def)
next
  case (FromOn a)
  have "apply_range len (int a) (- 1) Instr =
      (if int a < len then set_range Instr (int a) (len - int a) (content_range (int a) (int a + (len - int a) - 1) len)
       else (HTTP_REQUEST_RANGE_NOT_SATISFIABLE, Instr))"
    using assms(2,4) FromOn by (simp add: apply_range_def Let_def)
  then show ?thesis using FromOn assms(3) set_range_fits [of "int a" "len - int a" len] by simp
next
  case (LastOf n)
  have "apply_range len (- 1) (int n) Instr =
      (if 0 < n then (let o1 = max 0 (len - int n); m = min (int n) len
                      in set_range Instr o1 m (content_range o1 (o1 + m - 1) len))
       else (HTTP_REQUEST_RANGE_NOT_SATISFIABLE, Instr))"
    using assms(2) by (simp add: apply_range_def Let_def min_def max_def)
  then show ?thesis
    using LastOf assms(2,3) set_range_fits [of "max 0 (len - int n)" "min (int n) len" len] by (simp add: Let_def)
qed



text \<open>The excepted range: it is answered with nothing, and with a header whose last byte comes before its first.\<close>

lemma range_at_the_end:
  assumes "oom e = []" and "a \<le> b" and "b < 2 ^ 63" and "int a = len"
  shows "CreateHTTPRangeResponseHeader e (Some (''bytes='' @ range_spec (FromTo a b))) len Instr =
     (HTTP_OK, e, Instr\<lparr>ins_IsRangeActive := True, ins_RangeOffset := len, ins_ReadSendSize := 0,
        ins_RangeHeader := content_range len (len - 1) len\<rparr>)"
  using assms create_range [of e "FromTo a b" len Instr] set_range_fits [of len 0 len]
  by (simp add: apply_range_def Let_def)

text \<open>
  Whatever the client writes after \<open>Range:\<close>, when the server accepts it the part of the file it sets
  up lies in the file, its header names exactly that part, and the header fits its array.
\<close>

theorem range_within_file:
  assumes "CreateHTTPRangeResponseHeader e spec len Instr = (HTTP_OK, e1, Instr1)"
  shows "places len (Instr\<lparr>ins_IsRangeActive := True\<rparr>) Instr1"
  using assms by (rule range_places)

theorem range_within_file_witness:
  "places 12 (send0\<lparr>ins_IsRangeActive := True\<rparr>)
     (send0\<lparr>ins_IsRangeActive := True, ins_RangeOffset := 7, ins_ReadSendSize := 5,
        ins_RangeHeader := content_range 7 11 12\<rparr>)"
proof -
  have "CreateHTTPRangeResponseHeader \<lparr>oom = [], junk = (\<lambda>_. NUL)\<rparr> (Some (''bytes='' @ range_spec (FromOn 7))) 12 send0 =
     (HTTP_OK, \<lparr>oom = [], junk = (\<lambda>_. NUL)\<rparr>,
      send0\<lparr>ins_IsRangeActive := True, ins_RangeOffset := 7, ins_ReadSendSize := 5,
        ins_RangeHeader := content_range 7 11 12\<rparr>)"
    using create_range [of "\<lparr>oom = [], junk = (\<lambda>_. NUL)\<rparr>" "FromOn 7" 12 send0] set_range_fits [of 7 5 12 "send0\<lparr>ins_IsRangeActive := True, ins_ReadSendSize := 12\<rparr>"]
    by (simp add: apply_range_def)
  then show ?thesis by (rule range_within_file)
qed


section \<open>The headers of a request\<close>

text \<open>
  The arrays of an instruction hold strings that fit them; the range, once it is active, is a part of
  the file, and the array for its header, which the server does not initialise, has been written.
\<close>

definition placed :: "int \<Rightarrow> send_instruction \<Rightarrow> bool" where
  "placed len Instr \<longleftrightarrow>
     0 \<le> ins_RangeOffset Instr \<and> 0 \<le> ins_ReadSendSize Instr \<and> ins_RangeOffset Instr + ins_ReadSendSize Instr \<le> len \<and>
     ins_RangeHeader Instr = content_range (ins_RangeOffset Instr) (ins_RangeOffset Instr + ins_ReadSendSize Instr - 1) len \<and>
     List.length (ins_RangeHeader Instr) < 200"

definition instr_ok :: "int \<Rightarrow> send_instruction \<Rightarrow> bool" where
  "instr_ok len Instr \<longleftrightarrow>
     List.length (ins_AcceptLanguageHeader Instr) < 200 \<and> nul_free (ins_AcceptLanguageHeader Instr) \<and>
     (ins_IsRangeActive Instr \<longrightarrow> placed len Instr)"

lemma instr_ok_simps [simp]:
  "instr_ok len (I\<lparr>ins_IsChunkActive := b\<rparr>) = instr_ok len I"
  "instr_ok len (I\<lparr>ins_IsTrailers := b\<rparr>) = instr_ok len I"
  "instr_ok len (I\<lparr>ins_RecvWriteSize := k\<rparr>) = instr_ok len I"
  "instr_ok len (I\<lparr>ins_AcceptLanguageHeader := s\<rparr>) \<longleftrightarrow>
     List.length s < 200 \<and> nul_free s \<and> (ins_IsRangeActive I \<longrightarrow> placed len I)"
  by (simp_all add: instr_ok_def placed_def)

lemma cstr_short: "List.length s < n \<Longrightarrow> List.length (cstr s) < n"
  using length_takeWhile_le [of "\<lambda>c. c \<noteq> NUL" s] by (simp add: cstr_def)

lemma contents_short: "mb_length m < n \<Longrightarrow> List.length (contents m) < n"
  by (simp add: contents_def)

lemma placed_active: "instr_ok len I \<Longrightarrow> ins_IsRangeActive I \<Longrightarrow> placed len I"
  by (simp add: instr_ok_def)

lemma range_ok:
  assumes "CreateHTTPRangeResponseHeader e spec len Instr = (HTTP_OK, e1, Instr1)" and "instr_ok len Instr"
  shows "instr_ok len Instr1"
  using range_places [OF assms(1)] assms(2) by (auto simp: places_def instr_ok_def placed_def)

lemma check_header_ok:
  assumes "check_header e header len Instr = (HTTP_OK, e1, Instr1)" and "instr_ok len Instr"
  shows "instr_ok len Instr1"
  using assms
  by (auto simp: check_header_def Let_def cstr_short contents_short
      intro: range_ok placed_active split: if_splits prod.splits option.splits)

lemma check_headers_ok:
  "check_headers e k hs len Instr = (HTTP_OK, e1, Instr1) \<Longrightarrow> instr_ok len Instr \<Longrightarrow> instr_ok len Instr1"
proof (induction e k hs len Instr rule: check_headers.induct)
  case (2 e k header hs len Instr)
  then show ?case
    by (auto simp: Let_def HTTP_INTERNAL_SERVER_ERROR_def dest: check_header_ok split: prod.splits if_splits)
qed simp

text \<open>
  C40. The headers of a request, whatever their number, names and values, are noted in the instruction
  for the response without overflowing its arrays, and when they are accepted a range that is active
  is a part of the file with the header that names it: the array for that header, which
  \<open>web_server_callback\<close> leaves uninitialised, is written before it is used.
\<close>

theorem CheckOtherHTTPHeaders_fits:
  assumes "CheckOtherHTTPHeaders e Req Instr len = (HTTP_OK, e1, Instr1)" and "instr_ok len Instr"
  shows "instr_ok len Instr1"
  using assms check_headers_ok
  by (auto simp: CheckOtherHTTPHeaders_def HTTP_INTERNAL_SERVER_ERROR_def split: prod.splits bool.splits)

definition range_header :: http_header where
  "range_header = \<lparr>h_name = \<lparr>mp_buf = ''RANGE'', mp_length = 5\<rparr>, h_name_id = HDR_RANGE,
     h_value = \<lparr>mb_buf = Some (''bytes=7-'' @ [NUL]), mb_length = 8, mb_capacity = 8, mb_size_inc = 5\<rparr>,
     h_name_buf = new_membuffer\<rparr>"

definition sample_request :: http_message where
  "sample_request = (p_msg parser_request_init)\<lparr>hm_headers := \<lparr>q_items = [range_header], q_cached = 0\<rparr>\<rparr>"

lemma five: "(5::nat) = Suc (Suc (Suc (Suc (Suc 0))))"
  by simp

theorem CheckOtherHTTPHeaders_fits_witness:
  "instr_ok 12 (send0\<lparr>ins_IsRangeActive := True, ins_RangeOffset := 7, ins_ReadSendSize := 5,
     ins_RangeHeader := content_range 7 11 12\<rparr>)"
proof -
  let ?e = "\<lparr>oom = [], junk = (\<lambda>_. NUL)\<rparr>"
  have idx: "map_str_to_int ''RANGE'' 5 Http_Header_Names NUM_HTTP_HEADER_NAMES False = 23"
    "ent_id (Http_Header_Names ! 23) = 35"
    by (simp_all add: five map_str_to_int_def NUM_HTTP_HEADER_NAMES_def Http_Header_Names_def map_str_loop.simps
        memptr_cmp_nocase_def strncasecmp_def tolower_def isupper_def Let_def HDR_RANGE_def)
  have spec: "''bytes=7-'' = ''bytes='' @ range_spec (FromOn 7)" by (simp add: dec_digits.simps dec_digit_def)
  have "CreateHTTPRangeResponseHeader ?e (Some ''bytes=7-'') 12 send0 =
     (HTTP_OK, ?e, send0\<lparr>ins_IsRangeActive := True, ins_RangeOffset := 7, ins_ReadSendSize := 5,
        ins_RangeHeader := content_range 7 11 12\<rparr>)"
    unfolding spec
    using create_range [of ?e "FromOn 7" 12 send0]
      set_range_fits [of 7 5 12 "send0\<lparr>ins_IsRangeActive := True, ins_ReadSendSize := 12\<rparr>"]
    by (simp add: apply_range_def)
  moreover have "cstr (contents (h_value range_header)) = ''bytes=7-''" "mb_length (h_value range_header) = 8"
    by code_simp+
  moreover have "mp_buf (h_name range_header) = ''RANGE''" "mp_length (h_name range_header) = 5"
    by (simp_all add: range_header_def)
  ultimately have h: "check_header ?e range_header 12 send0 =
     (HTTP_OK, ?e, send0\<lparr>ins_IsRangeActive := True, ins_RangeOffset := 7, ins_ReadSendSize := 5,
        ins_RangeHeader := content_range 7 11 12\<rparr>)" and l: "mb_length (h_value range_header) = 8"
    by (simp_all add: check_header_def idx HDR_RANGE_def HDR_TE_def HDR_CONTENT_LENGTH_def)
  have "malloc_ok ?e LINE_SIZE = (True, ?e)" by (simp add: malloc_ok_def alloc_max_def LINE_SIZE_def)
  moreover have "q_items (hm_headers sample_request) = [range_header]" by (simp add: sample_request_def)
  ultimately have "CheckOtherHTTPHeaders ?e sample_request send0 12 =
     (HTTP_OK, ?e, send0\<lparr>ins_IsRangeActive := True, ins_RangeOffset := 7, ins_ReadSendSize := 5,
        ins_RangeHeader := content_range 7 11 12\<rparr>)"
    by (simp add: CheckOtherHTTPHeaders_def LINE_SIZE_def l h)
  from CheckOtherHTTPHeaders_fits [OF this] show ?thesis by (simp add: instr_ok_def)
qed

end
