(* ===== verification/WebRequest.thy ===== *)
theory WebRequest
  imports WebServer
begin

text \<open>
  Answering requests, the second half of \<open>upnp/src/genlib/net/http/webserver.c\<close>: \<open>process_request\<close>,
  which finds the file and makes the headers of the response, \<open>http_RecvPostMessage\<close>, which stores the
  entity of a POST in a file, and \<open>web_server_callback\<close>, which does one or the other and sends the
  response.

  The file system and the callbacks of virtual directories are the \<open>web_env\<close>, the \<open>files\<close> to read and a
  \<open>sink\<close> to write to. \<open>None\<close> is a call that blocks, does not end or has undefined behaviour.
  \<open>using_alias\<close> is false throughout, as the code sets it.
\<close>

abbreviation (input) X_USER_AGENT :: string where "X_USER_AGENT \<equiv> ''redsonic''"

datatype resp_type = RESP_FILEDOC | RESP_XMLDOC | RESP_HEADERS | RESP_WEBDOC | RESP_POST

section \<open>Starting and stopping\<close>

text \<open>
  The result, whether the server is enabled, and the root with the virtual directories. The callbacks,
  which are reset to \<open>NULL\<close>, are not called while there are no virtual directories.
\<close>

definition web_server_init :: "bool \<Rightarrow> bool \<Rightarrow> web_env \<Rightarrow> int \<times> bool \<times> web_env" where
  "web_server_init bWebServerState mutex_ok we =
     (if bWebServerState then (0, True, we)
      else
        (let we1 = we\<lparr>we_root := membuffer_init (we_root we), we_dirs := []\<rparr>
         in if \<not> mutex_ok then (UPNP_E_OUTOF_MEMORY, False, we1) else (0, True, we1)))"

definition web_server_destroy :: "bool \<Rightarrow> web_env \<Rightarrow> bool \<times> web_env" where
  "web_server_destroy bWebServerState we =
     (if bWebServerState then (False, we\<lparr>we_root := the (membuffer_destroy (Some (we_root we)))\<rparr>) else (False, we))"


section \<open>The path of a request\<close>

text \<open>
  The path, unescaped and without dot segments, or the status of the error. The size that \<open>remove_dots\<close>
  gets is that of the path before it was unescaped.
\<close>

definition request_path :: "alloc_env \<Rightarrow> http_message \<Rightarrow> ((int + string) \<times> alloc_env) option" where
  "request_path e req =
     (let sz = tk_size (u_pathquery (hm_uri req))
      in case malloc_ok e (sz + 1) of
           (False, e1) \<Rightarrow> Some (Inl HTTP_INTERNAL_SERVER_ERROR, e1)
         | (True, e1) \<Rightarrow>
             Option.bind (hm_urlbuf req) (\<lambda>urlbuf.
             Option.bind (remove_escaped_chars (token_bytes urlbuf (u_pathquery (hm_uri req)) @ [NUL]) sz) (\<lambda>(_, doc, _).
             Option.bind (remove_dots e1 doc sz) (\<lambda>(code, e2, doc1).
               Some (if code \<noteq> 0 then Inl HTTP_FORBIDDEN
                     else if cchar_at doc1 0 \<noteq> CHR ''/'' then Inl HTTP_BAD_REQUEST
                     else Inr (cstr doc1), e2)))))"


section \<open>The file of a request\<close>

definition no_file_info :: file_info where
  "no_file_info = \<lparr>fi_file_length = 0, fi_last_modified = 0, fi_is_directory = False, fi_is_readable = False\<rparr>"

text \<open>
  What is done with the name of the file, the same for files and for virtual files but for the function
  that gives the information on a name: \<open>index.html\<close> for a directory, and the checks. The status of the
  error, if any, and the name and the information.
\<close>

definition find_file ::
  "(string \<Rightarrow> file_info option) \<Rightarrow> alloc_env \<Rightarrow> membuffer \<Rightarrow> (int option \<times> alloc_env \<times> membuffer \<times> file_info) option"
where
  "find_file info e filename =
     Option.bind (mb_buf filename) (\<lambda>buf.
       case info (cstr buf) of
         None \<Rightarrow> Some (Some HTTP_NOT_FOUND, e, filename, no_file_info)
       | Some finfo \<Rightarrow>
           if fi_is_directory finfo then
             (if mb_length filename = 0 then None
              else
                (let temp_str = (if buf ! (mb_length filename - 1) = CHR ''/'' then ''index.html'' else ''/index.html'')
                 in Option.bind (membuffer_append_str e filename temp_str) (\<lambda>(rc, e1, filename1).
                      if rc \<noteq> 0 then Some (Some HTTP_INTERNAL_SERVER_ERROR, e1, filename1, finfo)
                      else
                        Option.bind (mb_buf filename1) (\<lambda>buf1.
                          case info (cstr buf1) of
                            None \<Rightarrow> Some (Some HTTP_NOT_FOUND, e1, filename1, finfo)
                          | Some finfo1 \<Rightarrow>
                              Some (if fi_is_directory finfo1 then Some HTTP_NOT_FOUND
                                    else if \<not> fi_is_readable finfo1 then Some HTTP_FORBIDDEN else None,
                                    e1, filename1, finfo1)))))
           else Some (if \<not> fi_is_readable finfo then Some HTTP_FORBIDDEN else None, e, filename, finfo))"

definition virtual_info :: "web_env \<Rightarrow> string \<Rightarrow> file_info option" where
  "virtual_info we filename = (case we_get_info we filename of (rc, finfo) \<Rightarrow> if rc = 0 then Some finfo else None)"

text \<open>The loop that removes slashes from the end of the name; a deletion that fails is tried again.\<close>

partial_function (option) strip_slashes :: "alloc_env \<Rightarrow> membuffer \<Rightarrow> (alloc_env \<times> membuffer) option" where
  "strip_slashes e filename =
     (if mb_length filename = 0 then Some (e, filename)
      else
        Option.bind (mb_buf filename) (\<lambda>buf.
          if buf ! (mb_length filename - 1) = CHR ''/''
          then Option.bind (membuffer_delete e filename (mb_length filename - 1) 1) (\<lambda>(e1, f1). strip_slashes e1 f1)
          else Some (e, filename)))"

text \<open>The status of the error, if any, whether the file is a virtual one, its name and information.\<close>

definition locate ::
  "web_env \<Rightarrow> alloc_env \<Rightarrow> http_method \<Rightarrow> string \<Rightarrow> membuffer
     \<Rightarrow> (int option \<times> bool \<times> alloc_env \<times> membuffer \<times> file_info) option"
where
  "locate we e method request_doc filename =
     (if isFileInVirtualDir (we_dirs we) request_doc then
        Option.bind (membuffer_assign_str e filename request_doc) (\<lambda>(rc, e1, filename1).
          if rc \<noteq> 0 then Some (Some HTTP_INTERNAL_SERVER_ERROR, True, e1, filename1, no_file_info)
          else if method = HTTPMETHOD_POST then Some (None, True, e1, filename1, no_file_info)
          else map_option (\<lambda>(r, e2, f2, finfo). (r, True, e2, f2, finfo)) (find_file (virtual_info we) e1 filename1))
      else if mb_length (we_root we) = 0 then Some (Some HTTP_INTERNAL_SERVER_ERROR, False, e, filename, no_file_info)
      else
        Option.bind (mb_buf (we_root we)) (\<lambda>root.
        Option.bind (membuffer_assign_str e filename (cstr root)) (\<lambda>(rc, e1, filename1).
          if rc \<noteq> 0 then Some (Some HTTP_INTERNAL_SERVER_ERROR, False, e1, filename1, no_file_info)
          else
            Option.bind (membuffer_append_str e1 filename1 request_doc) (\<lambda>(rc, e2, filename2).
              if rc \<noteq> 0 then Some (Some HTTP_INTERNAL_SERVER_ERROR, False, e2, filename2, no_file_info)
              else
                Option.bind (strip_slashes e2 filename2) (\<lambda>(e3, filename3).
                  if method = HTTPMETHOD_POST then Some (None, False, e3, filename3, no_file_info)
                  else
                    map_option (\<lambda>(r, e4, f4, finfo). (r, False, e4, f4, finfo))
                      (find_file (get_file_info we) e3 filename3))))))"


section \<open>The headers of a response\<close>

definition common_items :: "int \<Rightarrow> msg_item list" where
  "common_items last_modified =
     [M_s ''LAST-MODIFIED: '', M_t last_modified, M_c, M_S, M_X X_USER_AGENT, M_c, M_s '''', M_C, M_c]"

definition response_items :: "send_instruction \<Rightarrow> int \<Rightarrow> msg_item list" where
  "response_items RespInstr last_modified =
     (if ins_IsRangeActive RespInstr \<and> ins_IsChunkActive RespInstr then
        [M_R HTTP_PARTIAL_CONTENT, M_G RespInstr, M_K, M_L RespInstr, M_D] @ common_items last_modified
      else if ins_IsRangeActive RespInstr \<and> \<not> ins_IsChunkActive RespInstr then
        [M_R HTTP_PARTIAL_CONTENT, M_N (ins_ReadSendSize RespInstr), M_G RespInstr, M_L RespInstr, M_D] @
          common_items last_modified
      else if \<not> ins_IsRangeActive RespInstr \<and> ins_IsChunkActive RespInstr then
        [M_R HTTP_OK, M_K, M_L RespInstr, M_D] @ common_items last_modified
      else if ins_ReadSendSize RespInstr \<ge> 0 then
        [M_R HTTP_OK, M_N (ins_ReadSendSize RespInstr), M_L RespInstr, M_D] @ common_items last_modified
      else [M_R HTTP_OK, M_L RespInstr, M_D] @ common_items last_modified)"


section \<open>Processing a request\<close>

record response =
  rs_type :: resp_type
  rs_headers :: membuffer
  rs_filename :: membuffer
  rs_instr :: send_instruction

text \<open>The part after the file has been found.\<close>

definition make_response ::
  "make_env \<Rightarrow> alloc_env \<Rightarrow> http_message \<Rightarrow> bool \<Rightarrow> file_info \<Rightarrow> response \<Rightarrow> (int \<times> alloc_env \<times> response) option"
where
  "make_response me e req using_virtual_dir finfo rs =
     (let (resp_major, resp_minor) = http_CalcResponseVersion (hm_major_version req) (hm_minor_version req);
          len = fi_file_length finfo;
          (code, e1, ins) = CheckOtherHTTPHeaders e req ((rs_instr rs)\<lparr>ins_ReadSendSize := len\<rparr>) len;
          rs1 = rs\<lparr>rs_instr := ins\<rparr>
      in if code \<noteq> HTTP_OK then Some (code, e1, rs1)
         else if hm_method req = HTTPMETHOD_POST then Some (HTTP_OK, e1, rs1\<lparr>rs_type := RESP_POST\<rparr>)
         else if using_virtual_dir \<and> len = UPNP_USING_CHUNKED \<and> \<not> (resp_major = 1 \<and> resp_minor = 1)
         then Some (HTTP_NOT_ACCEPTABLE, e1, rs1)
         else
           (let ins1 = (if using_virtual_dir \<and> len = UPNP_USING_CHUNKED then ins\<lparr>ins_IsChunkActive := True\<rparr> else ins)
            in Option.bind
                 (http_MakeMessage me resp_major resp_minor e1 (rs_headers rs1) (response_items ins1 (fi_last_modified finfo)))
                 (\<lambda>(rc, e2, headers).
                   let rs2 = rs1\<lparr>rs_instr := ins1, rs_headers := headers\<rparr>
                   in if rc \<noteq> 0 then Some (HTTP_INTERNAL_SERVER_ERROR, e2, rs2)
                      else
                        Some (HTTP_OK, e2,
                          rs2\<lparr>rs_type := (if hm_method req = HTTPMETHOD_HEAD then RESP_HEADERS
                                        else if using_virtual_dir then RESP_WEBDOC else RESP_FILEDOC),
                              rs_headers := (if hm_method req = HTTPMETHOD_SIMPLEGET
                                             then the (membuffer_destroy (Some headers)) else headers)\<rparr>))))"

definition process_request ::
  "web_env \<Rightarrow> make_env \<Rightarrow> alloc_env \<Rightarrow> http_message \<Rightarrow> response \<Rightarrow> (int \<times> alloc_env \<times> response) option"
where
  "process_request we me e req rs =
     (if hm_method req \<notin> {HTTPMETHOD_GET, HTTPMETHOD_HEAD, HTTPMETHOD_POST, HTTPMETHOD_SIMPLEGET} then None
      else
        Option.bind (request_path e req) (\<lambda>(path, e1).
          case path of
            Inl err_code \<Rightarrow> Some (err_code, e1, rs)
          | Inr request_doc \<Rightarrow>
              Option.bind (locate we e1 (hm_method req) request_doc (rs_filename rs)) (\<lambda>(r, using_virtual_dir, e2, filename, finfo).
                let rs1 = rs\<lparr>rs_filename := filename,
                             rs_instr := (if using_virtual_dir then (rs_instr rs)\<lparr>ins_IsVirtualFile := True\<rparr>
                                          else rs_instr rs)\<rparr>
                in case r of
                     Some err_code \<Rightarrow> Some (err_code, e2, rs1)
                   | None \<Rightarrow> make_response me e2 req using_virtual_dir finfo rs1)))"


section \<open>Receiving a POST\<close>

text \<open>Opening a file for writing, and writing: the number the call returns, and the file.\<close>

record 'f sink =
  sk_open :: "bool \<Rightarrow> string \<Rightarrow> 'f option"
  sk_write :: "bool \<Rightarrow> 'f \<Rightarrow> string \<Rightarrow> int \<times> 'f"

text \<open>What is done with the status of \<open>parser_parse_entity\<close>: \<open>None\<close> to go on.\<close>

definition post_entity :: "net_env \<Rightarrow> reading \<Rightarrow> (int option \<times> reading) option" where
  "post_entity env rd =
     Option.bind (parser_parse_entity env (rd_alloc rd) (rd_parser rd)) (\<lambda>(status, e, p).
       let rd1 = rd\<lparr>rd_alloc := e, rd_parser := p\<rparr>
       in Some (if status = PARSE_INCOMPLETE_ENTITY then (None, rd1\<lparr>rd_ok_on_close := True\<rparr>)
                else if status \<noteq> PARSE_SUCCESS \<and> status \<noteq> PARSE_CONTINUE_1 \<and> status \<noteq> PARSE_INCOMPLETE
                then (Some HTTP_BAD_REQUEST, rd1)
                else (None, rd1)))"

definition post_read_more :: "net_env \<Rightarrow> reading \<Rightarrow> (int option \<times> reading) option" where
  "post_read_more env rd =
     Option.bind (sock_read (rd_sock rd) 1024 (rd_timeout rd)) (\<lambda>(num_read, Buf, t, w).
       let rd1 = rd\<lparr>rd_sock := w, rd_timeout := t\<rparr>
       in if num_read > 0 then
            Option.bind (membuffer_append (rd_alloc rd) (hm_msg (rd_msg rd)) (Some Buf) (nat num_read)) (\<lambda>(rc, e1, b).
              let p1 = upd_msg (\<lambda>m. m\<lparr>hm_msg := b\<rparr>) (rd_parser rd)
              in if rc \<noteq> 0
                 then Some (Some HTTP_INTERNAL_SERVER_ERROR,
                            rd1\<lparr>rd_alloc := e1, rd_parser := fail_with HTTP_INTERNAL_SERVER_ERROR p1\<rparr>)
                 else post_entity env (rd1\<lparr>rd_alloc := e1, rd_parser := p1\<rparr>))
          else if num_read = 0 then
            Some (if rd_ok_on_close rd
                  then (None, rd1\<lparr>rd_parser := (rd_parser rd)\<lparr>p_position := POS_COMPLETE\<rparr>\<rparr>)
                  else (Some HTTP_BAD_REQUEST, rd1\<lparr>rd_parser := fail_with HTTP_BAD_REQUEST (rd_parser rd)\<rparr>))
          else Some (Some HTTP_SERVICE_UNAVAILABLE, rd1))"

partial_function (option) post_read_loop :: "net_env \<Rightarrow> nat \<Rightarrow> reading \<Rightarrow> (int option \<times> reading) option" where
  "post_read_loop env needed rd =
     (if needed > hm_entity_length (rd_msg rd) \<and> p_position (rd_parser rd) \<noteq> POS_COMPLETE then
        Option.bind (post_read_more env rd) (\<lambda>(r, rd1).
          case r of None \<Rightarrow> post_read_loop env needed rd1 | Some c \<Rightarrow> Some (Some c, rd1))
      else Some (None, rd))"

text \<open>A round of the outer loop: the bytes it writes.\<close>

definition post_take :: "nat \<Rightarrow> nat \<Rightarrow> reading \<Rightarrow> (nat \<times> string) option" where
  "post_take entity_offset Data_Buf_Size rd =
     (let k = (if entity_offset + Data_Buf_Size > hm_entity_length (rd_msg rd)
               then size_sub (hm_entity_length (rd_msg rd)) entity_offset else Data_Buf_Size)
      in if k > 1024 then None
         else if k = 0 then Some (0, [])
         else
           Option.bind (mb_buf (hm_msg (rd_msg rd))) (\<lambda>b.
             map_option (\<lambda>bytes. (k, bytes)) (block_read b (p_entity_start_position (rd_parser rd) + entity_offset) k)))"

partial_function (option) recv_post_loop ::
  "net_env \<Rightarrow> 'f sink \<Rightarrow> bool \<Rightarrow> 'f \<Rightarrow> nat \<Rightarrow> nat \<Rightarrow> reading \<Rightarrow> (int \<times> reading \<times> 'f) option"
where
  "recv_post_loop env sk virt f entity_offset Data_Buf_Size rd =
     Option.bind (if p_position (rd_parser rd) \<noteq> POS_COMPLETE then post_entity env rd else Some (None, rd)) (\<lambda>(r, rd1).
       case r of
         Some c \<Rightarrow> Some (c, rd1, f)
       | None \<Rightarrow>
           Option.bind (post_read_loop env (entity_offset + Data_Buf_Size) rd1) (\<lambda>(r2, rd2).
             case r2 of
               Some c \<Rightarrow> Some (c, rd2, f)
             | None \<Rightarrow>
                 Option.bind (post_take entity_offset Data_Buf_Size rd2) (\<lambda>(k, bytes).
                   case sk_write sk virt f bytes of
                     (n, f1) \<Rightarrow>
                       if (if virt then n < 0 else n \<noteq> int k) then Some (HTTP_INTERNAL_SERVER_ERROR, rd2, f1)
                       else if p_position (rd_parser rd2) \<noteq> POS_COMPLETE \<or>
                               entity_offset + k \<noteq> hm_entity_length (rd_msg rd2)
                       then recv_post_loop env sk virt f1 (entity_offset + k) k rd2
                       else Some (HTTP_OK, rd2, f1))))"

definition http_RecvPostMessage ::
  "net_env \<Rightarrow> 'f sink \<Rightarrow> alloc_env \<Rightarrow> sock_env \<Rightarrow> http_parser \<Rightarrow> string \<Rightarrow> send_instruction
     \<Rightarrow> (int \<times> alloc_env \<times> sock_env \<times> 'f option) option"
where
  "http_RecvPostMessage env sk e w parser filename Instr =
     (case sk_open sk (ins_IsVirtualFile Instr) filename of
        None \<Rightarrow>
          Some (if ins_IsVirtualFile Instr then HTTP_INTERNAL_SERVER_ERROR else HTTP_UNAUTHORIZED, e, w, None)
      | Some Fp \<Rightarrow>
          map_option (\<lambda>(ret_code, rd, f). (ret_code, rd_alloc rd, rd_sock rd, Some f))
            (recv_post_loop env sk (ins_IsVirtualFile Instr) Fp 0 1024
               \<lparr>rd_alloc = e, rd_sock = w, rd_parser = parser\<lparr>p_position := POS_ENTITY\<rparr>, rd_timeout = 0,
                rd_ok_on_close = False\<rparr>))"


section \<open>The callback\<close>

text \<open>
  \<open>stack\<close> is what the instruction, a local variable, holds before some of its fields are initialised.
  The result is the connection, and the file a POST was written to.
\<close>

definition web_server_callback ::
  "web_env \<Rightarrow> net_env \<Rightarrow> 'g files \<Rightarrow> 'f sink \<Rightarrow> make_env \<Rightarrow> send_instruction \<Rightarrow> alloc_env \<Rightarrow> sock_env \<Rightarrow> http_parser
     \<Rightarrow> (alloc_env \<times> sock_env \<times> 'f option) option"
where
  "web_server_callback we env fs sk me stack e w parser =
     (let req = p_msg parser;
          RespInstr = stack\<lparr>ins_IsVirtualFile := False, ins_IsChunkActive := False, ins_IsRangeActive := False,
            ins_IsTrailers := False, ins_AcceptLanguageHeader := []\<rparr>
      in Option.bind
           (process_request we me e req
              \<lparr>rs_type = RESP_FILEDOC, rs_headers = membuffer_init new_membuffer, rs_filename = membuffer_init new_membuffer,
               rs_instr = RespInstr\<rparr>) (\<lambda>(ret, e1, rs).
         if ret \<noteq> HTTP_OK then
           map_option (\<lambda>(_, e2, w1). (e2, w1, None))
             (http_SendStatusResponse fs me e1 w ret (hm_major_version req) (hm_minor_version req))
         else
           (case rs_type rs of
              RESP_HEADERS \<Rightarrow>
                map_option (\<lambda>(_, e2, w1, _). (e2, w1, None))
                  (http_SendMessage fs e1 w 0 [ArgBuf (bytes (rs_headers rs)) (mb_length (rs_headers rs))])
            | RESP_POST \<Rightarrow>
                Option.bind (mb_buf (rs_filename rs)) (\<lambda>filename.
                Option.bind (http_RecvPostMessage env sk e1 w parser (cstr filename) (rs_instr rs)) (\<lambda>(ret, e2, w1, f).
                Option.bind
                  (http_MakeMessage me 1 1 e2 (rs_headers rs)
                     [M_R ret, M_T ''text/html'', M_L (rs_instr rs), M_S, M_X X_USER_AGENT, M_c, M_C, M_c])
                  (\<lambda>(_, e3, headers).
                    map_option (\<lambda>(_, e4, w2, _). (e4, w2, f))
                      (http_SendMessage fs e3 w1 0 [ArgBuf (bytes headers) (mb_length headers)]))))
            | RESP_XMLDOC \<Rightarrow> None
            | _ \<Rightarrow>
                Option.bind (mb_buf (rs_filename rs)) (\<lambda>filename.
                  map_option (\<lambda>(_, e2, w1, _). (e2, w1, None))
                    (http_SendMessage fs e1 w 0
                       [ArgInstr (rs_instr rs), ArgBuf (bytes (rs_headers rs)) (mb_length (rs_headers rs)),
                        ArgFile (cstr filename)])))))"

end
