(* ===== verification/WebRequestProps.thy ===== *)
theory WebRequestProps
  imports WebRequest
begin

text \<open>
  Which file the web server opens for a request: the name is that of the document root followed by the
  path of the request, in which two dots can only come last, and then only when the path is escaped.
\<close>

section \<open>The path\<close>

lemma remove_dots_block:
  assumes "remove_dots e b sz = Some (0, e', b1)" and "sz < List.length b"
    and "CHR ''?'' \<notin> set (take sz b)" and "CHR ''#'' \<notin> set (take sz b)"
  shows "\<exists>p. normalize (split_slash (take sz b)) [] = Some p \<and> dot_free p \<and> cstr b1 = cstr p \<and> List.length b1 = List.length b"
proof -
  have inv: "dots_inv b sz 0 0 [] []" using assms(2-4) by (simp add: dots_inv_def)
  note L = dots_loop_normalizes [OF inv]
  obtain b' cf' ct' where R: "dots_loop b sz 0 0 [] = Some (Inr (b', cf', ct'))"
    and t: "case tail_loop b' sz cf' ct' of (b2, ct2) \<Rightarrow> b1 = b2[ct2 := NUL]"
    using assms(1) L
    by (auto simp: remove_dots_def split: prod.splits bool.splits if_splits option.splits sum.splits)
  have cf: "sz \<le> cf'" and len: "List.length b' = List.length b" and ct: "ct' \<le> sz"
    and norm: "normalize (split_slash (take sz b)) [] = Some (take ct' b')"
    using L R by (simp_all add: hd_tl_split)
  have "b1 = b'[ct' := NUL]" using t cf by (simp add: tail_loop.simps)
  then have "b1 = take ct' b' @ NUL # drop (Suc ct') b'"
    using ct len assms(2) by (simp add: upd_conv_take_nth_drop)
  then have "cstr b1 = cstr (take ct' b')"
    by (simp add: cstr_def takeWhile_tail)
  moreover have "dot_free (take ct' b')"
    using normalize_dot_free [OF norm] split_slash_no_slash [of _ "take sz b"] by auto
  moreover have "List.length b1 = List.length b" using t cf len by (simp add: tail_loop.simps)
  ultimately show ?thesis using norm by blast
qed

text \<open>Cutting a path at a NUL leaves its segments but the last as they are.\<close>

lemma split_slash_prefix: "\<exists>r. split_slash (xs @ ys) = butlast (split_slash xs) @ r"
proof (induction xs)
  case Nil
  then show ?case by simp
next
  case (Cons c xs)
  then obtain r where r: "split_slash (xs @ ys) = butlast (split_slash xs) @ r" by blast
  obtain h t where "split_slash xs = h # t" using split_slash_not_Nil by (metis list.exhaust)
  then show ?case using r by (cases t) auto
qed

lemma cut_segments: "set (butlast (split_slash (cstr p))) \<subseteq> set (split_slash p)"
proof -
  obtain r where "split_slash (cstr p @ dropWhile (\<lambda>c. c \<noteq> NUL) p) = butlast (split_slash (cstr p)) @ r"
    using split_slash_prefix by blast
  then have "split_slash p = butlast (split_slash (cstr p)) @ r" by (simp add: cstr_def)
  then show ?thesis by auto
qed

lemma percent_decode_id: "CHR ''%'' \<notin> set s \<Longrightarrow> percent_decode s = s"
  by (induction s rule: percent_decode.induct) auto

text \<open>The text of the path in a request.\<close>

definition path_text :: "http_message \<Rightarrow> string" where
  "path_text req = token_bytes (the (hm_urlbuf req)) (u_pathquery (hm_uri req))"

text \<open>A path of the request: absolute, and the segments before the last are not dots.\<close>

definition inner_free :: "string \<Rightarrow> bool" where
  "inner_free doc \<longleftrightarrow> ''.'' \<notin> set (butlast (split_slash doc)) \<and> ''..'' \<notin> set (butlast (split_slash doc))"

lemma request_path_free:
  assumes "request_path e req = Some (Inr doc, e1)"
    and "List.length (path_text req) = tk_size (u_pathquery (hm_uri req))"
    and "CHR ''?'' \<notin> set (percent_decode (path_text req))" and "CHR ''#'' \<notin> set (percent_decode (path_text req))"
  shows "nul_free doc \<and> (\<exists>r. doc = CHR ''/'' # r) \<and> inner_free doc \<and> List.length doc \<le> alloc_max \<and>
     (CHR ''%'' \<notin> set (path_text req) \<and> nul_free (path_text req) \<longrightarrow> dot_free doc)"
proof -
  let ?sz = "tk_size (u_pathquery (hm_uri req))" and ?d = "percent_decode (path_text req)"
  let ?z = "replicate (?sz - List.length ?d) NUL"
  obtain urlbuf where url: "hm_urlbuf req = Some urlbuf"
    using assms(1) by (cases "hm_urlbuf req") (auto simp: request_path_def Let_def split: prod.splits bool.splits)
  obtain e0 where mal: "malloc_ok e (Suc ?sz) = (True, e0)"
    using assms(1) by (auto simp: request_path_def Let_def split: prod.splits bool.splits)
  have sz: "?sz + 1 \<le> alloc_max" using mal by (auto simp: malloc_ok_def split: list.splits)
  have "\<not> isxdigit NUL" by (simp add: isxdigit_def isdigit_def)
  moreover have "List.length (path_text req @ [NUL]) < 2 ^ 64" using sz assms(2) by (simp add: alloc_max_def)
  ultimately have esc: "remove_escaped_chars (path_text req @ [NUL]) ?sz =
      Some (UPNP_E_SUCCESS, ?d @ ?z @ [NUL], List.length ?d)"
    using escaped_loop_spec [of "[]" "path_text req" "[NUL]"] assms(2) by (simp add: remove_escaped_chars_def)
  have tok: "token_bytes urlbuf (u_pathquery (hm_uri req)) = path_text req" by (simp add: path_text_def url)
  obtain b1 where rd: "remove_dots e0 (?d @ ?z @ [NUL]) ?sz = Some (0, e1, b1)"
    and doc: "doc = cstr b1" and sl: "cchar_at b1 0 = CHR ''/''"
    using assms(1)
    by (auto simp: request_path_def Let_def mal url tok esc bind_eq_Some_conv split: prod.splits if_splits)
  have dl: "List.length ?d \<le> ?sz" using length_percent_decode [of "path_text req"] assms(2) by simp
  then have tk: "take ?sz (?d @ ?z @ [NUL]) = ?d @ ?z" by simp
  obtain p where p: "normalize (split_slash (?d @ ?z)) [] = Some p" "dot_free p" "cstr b1 = cstr p" "List.length b1 = List.length (?d @ ?z @ [NUL])"
    using remove_dots_block [OF rd] dl assms(3,4) unfolding tk by auto
  have inner: "inner_free doc"
    using cut_segments [of p] p(2,3) by (auto simp: doc inner_free_def dot_free_def)
  have "\<exists>r. doc = CHR ''/'' # r"
    using sl by (cases b1) (auto simp: doc cstr_def cchar_at_def split: if_splits)
  moreover have "List.length doc \<le> alloc_max"
    using length_takeWhile_le [of "\<lambda>c. c \<noteq> NUL" b1] p(4) sz dl
    by (simp add: doc cstr_def)
  moreover have "dot_free doc" if "CHR ''%'' \<notin> set (path_text req)" "nul_free (path_text req)"
  proof -
    have "?d = path_text req" using that(1) by (rule percent_decode_id)
    then have "nul_free p"
      using normalize_nul_free [OF p(1)] split_slash_nul_free [OF that(2)] assms(2) by simp
    then show ?thesis using p(2,3) doc by (simp add: cstr_id)
  qed
  ultimately show ?thesis using inner doc by simp
qed


section \<open>The name of the file\<close>

text \<open>A buffer that holds a C string.\<close>

definition is_name :: "membuffer \<Rightarrow> bool" where
  "is_name m \<longleftrightarrow> wf_membuffer m \<and> terminated m \<and> nul_free (contents m)"

lemma cstr_buf:
  assumes "is_name m" and "mb_buf m = Some b"
  shows "cstr b = contents m"
proof -
  have "mb_length m < List.length b" "b ! mb_length m = NUL"
    using assms by (auto simp: is_name_def wf_membuffer_def room_def terminated_def)
  then have "b = contents m @ NUL # drop (Suc (mb_length m)) b"
    using id_take_nth_drop [of "mb_length m" b] assms(2) by (simp add: contents_def bytes_def)
  then show ?thesis using cstr_nul_free [of "contents m"] assms(1) by (metis is_name_def)
qed

lemma delete_last:
  assumes "is_name m" and "0 < mb_length m" and "membuffer_delete e m (mb_length m - 1) 1 = Some (e1, m1)"
  shows "is_name m1 \<and> (contents m1 = butlast (contents m) \<or> contents m1 = contents m)"
proof -
  note wf = assms(1) [unfolded is_name_def]
  have len: "List.length (contents m) = mb_length m" using wf length_contents by blast
  obtain b where b: "mb_buf m = Some b" "mb_length m < List.length b" "List.length b < 2 ^ 63"
    using wf assms(2) alloc_max_lt
    by (cases "mb_buf m") (auto simp: wf_membuffer_def room_def)
  have sz: "size_add (mb_length m - Suc 0) (Suc 0) = mb_length m"
    "size_sub (mb_length m) (Suc 0) = mb_length m - Suc 0"
    "size_sub (mb_length m) (mb_length m) = 0"
    using b assms(2) by (simp_all add: size_add_def size_sub_exact)
  have mv: "block_move b (mb_length m - 1) (mb_length m) 0 = Some b"
    using b by (simp add: block_move_def block_read_def block_write_def)
  obtain rc e2 m2 where set: "membuffer_set_size e (m\<lparr>mb_buf := Some b\<rparr>) (mb_length m - 1) = (rc, e2, m2)"
    by (metis prod_cases3)
  have mm: "m\<lparr>mb_buf := Some b\<rparr> = m" using b by simp
  show ?thesis
  proof (cases "rc = 0")
    case False
    then have "m1 = m2"
      using assms(2,3) b(1) mv set by (simp add: membuffer_delete_def Let_def sz)
    then have "m1 = m" using membuffer_set_size_fail [OF set False] mm by simp
    then show ?thesis using assms(1) by simp
  next
    case True
    have "mb_length m - 1 \<le> mb_length m + alloc_max" by simp
    note S = membuffer_set_size_ok [OF _ this set [unfolded mm] True]
    obtain b2 b3 where m2: "mb_buf m2 = Some b2" "block_write b2 (mb_length m - 1) [NUL] = Some b3"
      and m1: "m1 = m2\<lparr>mb_buf := Some b3, mb_length := mb_length m - 1\<rparr>"
      using True assms(2,3) b(1) mv set by (auto simp: membuffer_delete_def Let_def sz bind_eq_Some_conv)
    let ?k = "mb_length m - 1"
    have w: "b3 = take ?k b2 @ NUL # drop (Suc ?k) b2" "?k < List.length b2"
      using m2(2) assms(2) by (auto simp: block_write_def split: if_splits)
    have R: "room m2 ?k" "mb_size_inc m2 = mb_size_inc m" "take ?k b2 = take ?k b"
      using S wf m2(1) b(1) by (auto simp: bytes_def)
    have "wf_membuffer m1" using R(1,2) wf w m2(1) by (auto simp: wf_membuffer_def room_def m1)
    moreover have "terminated m1" using w by (simp add: terminated_def m1 nth_append)
    moreover have c: "contents m1 = butlast (contents m)"
      using w R(3) b len by (simp add: contents_def bytes_def m1 butlast_take)
    moreover have "nul_free (butlast (contents m))"
      using wf by (simp add: butlast_conv_take nul_free_take)
    ultimately show ?thesis by (simp add: is_name_def)
  qed
qed

lemma strip_slashes_name:
  assumes "strip_slashes e m = Some r" and "is_name m"
  shows "is_name (snd r) \<and> (\<exists>k. contents m = contents (snd r) @ replicate k (CHR ''/''))"
proof -
  let ?P = "\<lambda>(e :: alloc_env) m (r :: alloc_env \<times> membuffer). is_name m \<longrightarrow>
     is_name (snd r) \<and> (\<exists>k. contents m = contents (snd r) @ replicate k (CHR ''/''))"
  have "?P e m r"
  proof (rule strip_slashes.raw_induct [where P = ?P, OF _ assms(1)])
    fix rec e m r
    assume IH: "\<And>e m r. rec e m = Some r \<Longrightarrow> ?P e m r"
      and r: "(if mb_length m = 0 then Some (e, m)
      else
        Option.bind (mb_buf m) (\<lambda>buf.
          if buf ! (mb_length m - 1) = CHR ''/''
          then Option.bind (membuffer_delete e m (mb_length m - 1) 1) (\<lambda>(e1, f1). rec e1 f1)
          else Some (e, m))) = Some r"
    show "?P e m r"
  proof (cases "mb_length m = 0")
    case True
    then have "r = (e, m)" using r by simp
    moreover have "contents m = contents m @ replicate 0 (CHR ''/'')" by simp
    ultimately show ?thesis by (metis snd_conv)
  next
    case False
    obtain b where b: "mb_buf m = Some b" using r False by (cases "mb_buf m") auto
    show ?thesis
    proof (cases "b ! (mb_length m - 1) = CHR ''/''")
      case False
      then have "r = (e, m)" using r b \<open>mb_length m \<noteq> 0\<close> by simp
      moreover have "contents m = contents m @ replicate 0 (CHR ''/'')" by simp
      ultimately show ?thesis by (metis snd_conv)
    next
      case True
      then obtain e1 m1 where d: "membuffer_delete e m (mb_length m - 1) 1 = Some (e1, m1)"
        and rec: "rec e1 m1 = Some r"
        using r b \<open>mb_length m \<noteq> 0\<close> by (auto simp: bind_eq_Some_conv)
      show ?thesis
      proof
        assume n: "is_name m"
        have D: "is_name m1" "contents m1 = butlast (contents m) \<or> contents m1 = contents m"
          using delete_last [OF n _ d] False by simp_all
        obtain k where k: "is_name (snd r)" "contents m1 = contents (snd r) @ replicate k (CHR ''/'')"
          using IH [OF rec] D(1) by blast
        have "mb_length m < List.length b" using n b by (auto simp: is_name_def wf_membuffer_def room_def)
        then have "contents m = take (mb_length m - 1) b @ [b ! (mb_length m - 1)]"
          using b False by (simp add: contents_def bytes_def flip: take_Suc_conv_app_nth)
        then have "contents m = butlast (contents m) @ ''/''" using True by simp
        then have "contents m = (contents (snd r) @ replicate k (CHR ''/'')) @ ''/'' \<or>
            contents m = contents (snd r) @ replicate k (CHR ''/'')"
          using D(2) k(2) by metis
        then have "contents m = contents (snd r) @ replicate (Suc k) (CHR ''/'') \<or>
            contents m = contents (snd r) @ replicate k (CHR ''/'')"
          by (simp add: replicate_append_same)
        then show "is_name (snd r) \<and> (\<exists>k. contents m = contents (snd r) @ replicate k (CHR ''/''))"
          using k(1) by blast
      qed
    qed
  qed
  qed
  then show ?thesis using assms(2) by simp
qed

lemma append_name:
  assumes "is_name m" and "nul_free s" and "List.length s \<le> alloc_max" and "s \<noteq> []"
    and "membuffer_append_str e m s = Some (0, e1, m1)"
  shows "is_name m1 \<and> contents m1 = contents m @ s"
proof -
  have wf: "wf_membuffer m" using assms(1) by (simp add: is_name_def)
  obtain rc e' m' where "membuffer_append_str e m s = Some (rc, e', m')"
    "updates_to m (take (mb_length m) (contents m) @ s @ drop (mb_length m) (contents m)) rc m'"
    "rc = 0 \<longrightarrow> terminated m'"
    using membuffer_insert_bytes [OF wf le_refl assms(3,4), of e] by (auto simp: membuffer_append_str_def)
  then have "wf_membuffer m1" "terminated m1" "contents m1 = contents m @ s"
    using assms(5) length_contents [OF wf] by (auto simp: updates_to_def)
  then show ?thesis using assms(1,2) by (simp add: is_name_def nul_free_def)
qed

lemma assign_name:
  assumes "wf_membuffer m" and "nul_free s" and "List.length s \<le> alloc_max" and "s \<noteq> []"
    and "membuffer_assign_str e m s = Some (0, e1, m1)"
  shows "is_name m1 \<and> contents m1 = s"
  using membuffer_assign_ok [OF assms(1,3), of e] assms(2,4,5)
  by (auto simp: membuffer_assign_str_def updates_to_def is_name_def)

definition index_names :: "string set" where "index_names = {[], ''index.html'', ''/index.html''}"

lemma find_file_name:
  assumes "find_file info e m = Some (None, e1, m1, finfo)" and "is_name m"
  shows "is_name m1 \<and> (\<exists>t \<in> index_names. contents m1 = contents m @ t)"
proof -
  have short: "List.length t \<le> alloc_max" if "t \<in> index_names" for t
    using that by (auto simp: index_names_def alloc_max_def)
  obtain b f where b: "mb_buf m = Some b" "info (cstr b) = Some f"
    using assms(1) by (auto simp: find_file_def bind_eq_Some_conv split: option.splits)
  show ?thesis
  proof (cases "fi_is_directory f")
    case False
    then have "m1 = m" using assms(1) b by (auto simp: find_file_def split: if_splits)
    then show ?thesis using assms(2) by (auto simp: index_names_def)
  next
    case True
    let ?t = "if b ! (mb_length m - 1) = CHR ''/'' then ''index.html'' else ''/index.html''"
    have t: "?t \<in> index_names" "nul_free ?t" "?t \<noteq> []" by (auto simp: index_names_def)
    obtain e2 where "membuffer_append_str e m ?t = Some (0, e2, m1)"
      using assms(1) b True
      by (auto simp: find_file_def Let_def bind_eq_Some_conv split: if_split_asm option.split_asm)
    then show ?thesis using append_name [OF assms(2) t(2) short [OF t(1)] t(3)] t(1) by blast
  qed
qed

lemma root_name:
  assumes "is_name m" and "mb_length m \<noteq> 0"
  shows "\<exists>b. mb_buf m = Some b \<and> cstr b = contents m \<and> contents m \<noteq> [] \<and> List.length (contents m) \<le> alloc_max"
proof -
  obtain b where b: "mb_buf m = Some b" "mb_length m < List.length b" "List.length b \<le> alloc_max"
    using assms by (cases "mb_buf m") (auto simp: is_name_def wf_membuffer_def room_def)
  then show ?thesis using cstr_buf [OF assms(1)] assms(2) by (auto simp: contents_def bytes_def)
qed

text \<open>The name \<open>n\<close> is that of the path \<open>doc\<close> below the root, without slashes at its end, or with the name of an index.\<close>

definition below :: "string \<Rightarrow> string \<Rightarrow> string \<Rightarrow> bool" where
  "below root doc name \<longleftrightarrow> (\<exists>n k. root @ doc = n @ replicate k (CHR ''/'') \<and> (\<exists>t \<in> index_names. name = n @ t))"

lemma locate_name:
  assumes loc: "locate we e method doc m = Some (None, False, e1, m1, finfo)"
    and "wf_membuffer m" and root: "is_name (we_root we)"
    and doc: "nul_free doc" "doc \<noteq> []" "List.length doc \<le> alloc_max"
  shows "is_name m1 \<and> below (contents (we_root we)) doc (contents m1)"
proof -
  have nv: "\<not> isFileInVirtualDir (we_dirs we) doc"
    using loc by (auto simp: locate_def bind_eq_Some_conv split: if_split_asm)
  then have len: "mb_length (we_root we) \<noteq> 0" using loc by (auto simp: locate_def split: if_split_asm)
  obtain b where b: "mb_buf (we_root we) = Some b" "cstr b = contents (we_root we)" "contents (we_root we) \<noteq> []"
    "List.length (contents (we_root we)) \<le> alloc_max" using root_name [OF root len] by blast
  obtain e2 m2 e3 m3 e4 m4 where
    r: "membuffer_assign_str e m (cstr b) = Some (0, e2, m2)" "membuffer_append_str e2 m2 doc = Some (0, e3, m3)"
      "strip_slashes e3 m3 = Some (e4, m4)"
    and f: "m1 = m4 \<or> (\<exists>e5. find_file (get_file_info we) e4 m4 = Some (None, e5, m1, finfo))"
    using loc nv len b(1) by (auto simp: locate_def bind_eq_Some_conv split: if_split_asm)
  have root_free: "nul_free (contents (we_root we))" using root by (simp add: is_name_def)
  have m2: "is_name m2" "contents m2 = contents (we_root we)"
    using assign_name [OF assms(2) root_free b(4,3) r(1) [unfolded b(2)]] by simp_all
  have m3: "is_name m3" "contents m3 = contents (we_root we) @ doc"
    using append_name [OF m2(1) doc(1,3,2) r(2)] m2(2) by simp_all
  obtain k where m4: "is_name m4" "contents m3 = contents m4 @ replicate k (CHR ''/'')"
    using strip_slashes_name [OF r(3) m3(1)] by auto
  have "is_name m1 \<and> (\<exists>t \<in> index_names. contents m1 = contents m4 @ t)"
    using f
  proof
    assume "m1 = m4"
    then show ?thesis using m4(1) by (auto simp: index_names_def)
  next
    assume "\<exists>e5. find_file (get_file_info we) e4 m4 = Some (None, e5, m1, finfo)"
    then show ?thesis using find_file_name [OF _ m4(1)] by blast
  qed
  then show ?thesis unfolding below_def using m3(2) m4(2) by metis
qed

lemma make_response_filename:
  assumes "make_response me e req v finfo rs = Some (HTTP_OK, e1, rs1)" and "rs_type rs1 = RESP_FILEDOC"
  shows "rs_filename rs1 = rs_filename rs \<and> \<not> v"
  using assms
  by (auto simp: make_response_def Let_def bind_eq_Some_conv HTTP_INTERNAL_SERVER_ERROR_def
      split: prod.splits if_split_asm)

lemma request_path_error: "request_path e req = Some (Inl c, e1) \<Longrightarrow> c \<noteq> HTTP_OK"
  by (auto simp: request_path_def Let_def bind_eq_Some_conv HTTP_INTERNAL_SERVER_ERROR_def HTTP_BAD_REQUEST_def
      split: prod.splits bool.splits if_split_asm)

lemma find_file_error:
  assumes "find_file info e m = Some (Some c, e1, m1, finfo)"
  shows "c \<noteq> HTTP_OK"
proof -
  obtain b where b: "mb_buf m = Some b" using assms by (auto simp: find_file_def bind_eq_Some_conv)
  show ?thesis
  proof (cases "info (cstr b)")
    case None
    then show ?thesis using assms b by (auto simp: find_file_def)
  next
    case (Some f)
    show ?thesis
    proof (cases "fi_is_directory f")
      case False
      then show ?thesis using assms b Some by (auto simp: find_file_def split: if_split_asm)
    next
      case True
      let ?t = "if b ! (mb_length m - 1) = CHR ''/'' then ''index.html'' else ''/index.html''"
      obtain rc e2 m2 where a: "mb_length m \<noteq> 0" "membuffer_append_str e m ?t = Some (rc, e2, m2)"
        using assms b Some True by (auto simp: find_file_def Let_def bind_eq_Some_conv split: if_split_asm)
      note A = assms [unfolded find_file_def b bind.simps Some option.case Let_def a prod.case]
      show ?thesis
      proof (cases "rc = 0")
        case False
        then show ?thesis using A True a(1) by (simp add: HTTP_INTERNAL_SERVER_ERROR_def)
      next
        case rc: True
        obtain b2 where b2: "mb_buf m2 = Some b2" using A True a(1) rc by (cases "mb_buf m2") auto
        show ?thesis
        proof (cases "info (cstr b2)")
          case None
          then show ?thesis using A True a(1) rc b2 by simp
        next
          case i: (Some f2)
          then show ?thesis using A True a(1) rc b2 by (simp split: if_split_asm)
        qed
      qed
    qed
  qed
qed

lemma found_error:
  "map_option (\<lambda>(r, e2, f2, finfo). (r, v, e2, f2, finfo)) (find_file info e m) = Some (Some c, v1, e1, m1, finfo) \<Longrightarrow>
     c \<noteq> HTTP_OK"
  by (erule map_option_eq_Some [THEN iffD1, elim_format]) (auto dest: find_file_error)

lemma locate_error:
  assumes "locate we e method doc m = Some (Some c, v, e1, m1, finfo)"
  shows "c \<noteq> HTTP_OK"
proof (cases "isFileInVirtualDir (we_dirs we) doc")
  case True
  then obtain rc e2 m2 where "membuffer_assign_str e m doc = Some (rc, e2, m2)"
    using assms by (auto simp: locate_def bind_eq_Some_conv)
  note A = assms [unfolded locate_def if_P [OF True] this bind.simps prod.case]
  show ?thesis
  proof (cases "rc = 0 \<and> method \<noteq> HTTPMETHOD_POST")
    case True
    then have n: "\<not> rc \<noteq> 0" "\<not> method = HTTPMETHOD_POST" by simp_all
    show ?thesis by (rule found_error [OF A [unfolded if_not_P [OF n(1)] if_not_P [OF n(2)]]])
  next
    case False
    then show ?thesis using A by (auto simp: HTTP_INTERNAL_SERVER_ERROR_def split: if_split_asm)
  qed
next
  case False
  show ?thesis
  proof (cases "mb_length (we_root we) = 0")
    case True
    then show ?thesis using assms False by (simp add: locate_def HTTP_INTERNAL_SERVER_ERROR_def)
  next
    case len: False
    obtain b rc e2 m2 where r: "mb_buf (we_root we) = Some b" "membuffer_assign_str e m (cstr b) = Some (rc, e2, m2)"
      using assms False len by (auto simp: locate_def bind_eq_Some_conv)
    show ?thesis
    proof (cases "rc = 0")
      case rc: True
      obtain rc3 e3 m3 where a: "membuffer_append_str e2 m2 doc = Some (rc3, e3, m3)"
        using assms False len r rc by (auto simp: locate_def bind_eq_Some_conv)
      show ?thesis
      proof (cases "rc3 = 0")
        case rc3: True
        obtain e4 m4 where "strip_slashes e3 m3 = Some (e4, m4)"
          using assms False len r rc rc3 a by (auto simp: locate_def bind_eq_Some_conv)
        note A = assms [unfolded locate_def if_not_P [OF False] if_not_P [OF len] r a this bind.simps prod.case]
        show ?thesis
        proof (cases "method = HTTPMETHOD_POST")
          case True
          then show ?thesis using A rc rc3 by simp
        next
          case False
          have n: "\<not> rc \<noteq> 0" "\<not> rc3 \<noteq> 0" using rc rc3 by simp_all
          show ?thesis
            by (rule found_error [OF A [unfolded if_not_P [OF n(1)] if_not_P [OF n(2)] if_not_P [OF False]]])
        qed
      qed (use assms False len r rc a in \<open>simp add: locate_def HTTP_INTERNAL_SERVER_ERROR_def\<close>)
    qed (use assms False len r in \<open>simp add: locate_def HTTP_INTERNAL_SERVER_ERROR_def\<close>)
  qed
qed

lemma process_request_ok:
  assumes "process_request we me e req rs = Some (HTTP_OK, e1, rs1)"
  shows "\<exists>doc e2 v e3 m1 finfo rs0. request_path e req = Some (Inr doc, e2) \<and>
     locate we e2 (hm_method req) doc (rs_filename rs) = Some (None, v, e3, m1, finfo) \<and>
     make_response me e3 req v finfo rs0 = Some (HTTP_OK, e1, rs1) \<and> rs_filename rs0 = m1"
proof -
  obtain path e2 where p: "request_path e req = Some (path, e2)"
    using assms by (auto simp: process_request_def bind_eq_Some_conv split: if_split_asm)
  obtain doc where d: "path = Inr doc"
    using assms p request_path_error by (cases path) (auto simp: process_request_def split: if_split_asm)
  obtain r v e3 m1 finfo where l: "locate we e2 (hm_method req) doc (rs_filename rs) = Some (r, v, e3, m1, finfo)"
    using assms p d by (auto simp: process_request_def bind_eq_Some_conv split: if_split_asm)
  have "r = None"
    using assms p d l locate_error by (cases r) (auto simp: process_request_def Let_def split: if_split_asm)
  with assms p d l show ?thesis by (auto simp: process_request_def Let_def split: if_split_asm)
qed


definition sample_web :: web_env where
  "sample_web = \<lparr>we_root = \<lparr>mb_buf = Some (''/w'' @ [NUL]), mb_length = 2, mb_capacity = 2, mb_size_inc = 5\<rparr>, we_dirs = [],
     we_get_info = (\<lambda>_. (1, no_file_info)),
     we_stat = (\<lambda>f. if f = ''/w/a.txt'' then Some (Regular, 3, 0) else None), we_readable = (\<lambda>_. True)\<rparr>"

definition sample_get :: http_message where
  "sample_get = (p_msg parser_request_init)\<lparr>hm_method := HTTPMETHOD_GET,
     hm_uri := zero_uri\<lparr>u_pathquery := \<lparr>tk_buff = Some 0, tk_size = 6\<rparr>\<rparr>, hm_urlbuf := Some (''/a.txt'' @ [NUL]),
     hm_headers := q_empty, hm_major_version := 1, hm_minor_version := 1\<rparr>"

definition sample_response :: response where
  "sample_response = \<lparr>rs_type = RESP_FILEDOC, rs_headers = new_membuffer, rs_filename = new_membuffer,
     rs_instr = \<lparr>ins_IsVirtualFile = False, ins_IsChunkActive = False, ins_IsRangeActive = False, ins_IsTrailers = False,
     ins_RangeHeader = [], ins_AcceptLanguageHeader = [], ins_RangeOffset = 0, ins_ReadSendSize = 0, ins_RecvWriteSize = 0\<rparr>\<rparr>"

lemma shown_path: "request_path sample_env sample_get = Some (Inr ''/a.txt'', sample_env)"
proof -
  have m: "malloc_ok sample_env n = (True, sample_env)" if "n \<le> 1000" for n
    using that by (simp add: malloc_ok_def sample_env_def alloc_max_def)
  have six: "List.length ''/a.txt'' = 6" and nx: "\<not> isxdigit NUL" by (simp_all add: isxdigit_def isdigit_def)
  have pd: "percent_decode ''/a.txt'' = ''/a.txt''" by (rule percent_decode_id) simp
  have esc: "remove_escaped_chars (''/a.txt'' @ [NUL]) 6 = Some (UPNP_E_SUCCESS, ''/a.txt'' @ [NUL], 6)"
    using escaped_loop_spec [of "[]" "''/a.txt''" "[NUL]", unfolded six pd] nx by (simp add: remove_escaped_chars_def)
  have dots: "remove_dots sample_env (''/a.txt'' @ [NUL]) 6 = Some (UPNP_E_SUCCESS, sample_env, ''/a.txt'' @ [NUL])"
    by (simp add: remove_dots_def m dots_loop.simps tail_loop.simps)
  show ?thesis
    using esc dots by (simp add: request_path_def sample_get_def m token_bytes_def cchar_at_def cstr_def)
qed

lemma sample_locate:
  "\<exists>m. locate sample_web sample_env HTTPMETHOD_GET ''/a.txt'' new_membuffer =
     Some (None, False, sample_env, m, \<lparr>fi_file_length = 3, fi_last_modified = 0, fi_is_directory = False, fi_is_readable = True\<rparr>) \<and>
     is_name m \<and> contents m = ''/w/a.txt''"
proof -
  let ?e = "sample_env" and ?i = "\<lparr>fi_file_length = 3, fi_last_modified = 0, fi_is_directory = False, fi_is_readable = True\<rparr>"
  have q: "oom ?e = []" by (simp add: sample_env_def)
  have nb: "wf_membuffer new_membuffer" using membuffer_init_ok by (simp add: new_membuffer_def)
  have s: "List.length ''/w'' \<le> alloc_max" "''/w'' \<noteq> []" "nul_free ''/w''" "List.length ''/w'' < alloc_max"
    "List.length ''/a.txt'' \<le> alloc_max" "''/a.txt'' \<noteq> []" "nul_free ''/a.txt''"
    by (simp_all add: alloc_max_def)
  obtain e1 m1 where a: "membuffer_assign_str ?e new_membuffer ''/w'' = Some (0, e1, m1)"
    using membuffer_assign_ok [OF nb s(1), of ?e] q s(4) by (auto simp: membuffer_assign_str_def)
  note m1 = assign_name [OF nb s(3,1,2) a]
  have e1: "e1 = ?e" using quiet_assign [of ?e new_membuffer "Some ''/w''"] a q by (auto simp: membuffer_assign_str_def quiet_def)
  have l1: "mb_length m1 = 2" using m1 length_contents [of m1] by (simp add: is_name_def)
  have "mb_length m1 + List.length ''/a.txt'' < alloc_max" by (simp add: l1 alloc_max_def)
  then obtain e2 m2 where b: "membuffer_append_str ?e m1 ''/a.txt'' = Some (0, e2, m2)" and e2: "e2 = ?e"
    using membuffer_append_result [of m1 "''/a.txt''" _ ?e, OF _ s(5) refl] m1 q
    by (auto simp: appends_def membuffer_append_def membuffer_append_str_def is_name_def)
  have m2: "is_name m2" "contents m2 = ''/w/a.txt''"
    using append_name [OF m1 [THEN conjunct1] s(7,5,6) b] m1 by simp_all
  obtain b2 where b2: "mb_buf m2 = Some b2" using m2(2) by (cases "mb_buf m2") (auto simp: contents_def bytes_def)
  have l2: "mb_length m2 = 8" using m2 length_contents [of m2] by (simp add: is_name_def)
  have "b2 ! 7 = contents m2 ! 7" using b2 l2 by (simp add: contents_def bytes_def)
  then have strip: "strip_slashes ?e m2 = Some (?e, m2)"
    using b2 l2 m2(2) by (subst strip_slashes.simps) (simp add: eval_nat_numeral)
  have info: "get_file_info sample_web ''/w/a.txt'' = Some ?i"
    by (simp add: get_file_info_def sample_web_def)
  have find: "find_file (get_file_info sample_web) ?e m2 = Some (None, ?e, m2, ?i)"
    using info cstr_buf [OF m2(1) b2] m2(2) by (simp add: find_file_def b2)
  have root: "cstr (''/w'' @ [NUL]) = ''/w''" by (simp add: cstr_def)
  have "locate sample_web ?e HTTPMETHOD_GET ''/a.txt'' new_membuffer = Some (None, False, ?e, m2, ?i)"
    using a b find strip e1 e2 root by (simp add: locate_def) (simp add: sample_web_def)
  then show ?thesis using m2 by blast
qed



text \<open>
  The exception is real: an escaped pair of dots at the end survives, since \<open>remove_dots\<close> is given the
  size of the path before it was unescaped and looks for the end of the segment there.
\<close>

lemma escaped_dots_survive:
  "request_path sample_env (sample_get\<lparr>hm_uri := zero_uri\<lparr>u_pathquery := \<lparr>tk_buff = Some 0, tk_size = 7\<rparr>\<rparr>,
     hm_urlbuf := Some (''/%2e%2e'' @ [NUL])\<rparr>) = Some (Inr ''/..'', sample_env)"
proof -
  have m: "malloc_ok sample_env n = (True, sample_env)" if "n \<le> 1000" for n
    using that by (simp add: malloc_ok_def sample_env_def alloc_max_def)
  have len: "List.length ''/%2e%2e'' = 7" and nx: "\<not> isxdigit NUL" by (simp_all add: isxdigit_def isdigit_def)
  have pd: "percent_decode ''/%2e%2e'' = ''/..''" by code_simp
  have "replicate (7 - List.length ''/..'') NUL = [NUL, NUL, NUL, NUL]" by (simp add: eval_nat_numeral)
  with escaped_loop_spec [of "[]" "''/%2e%2e''" "[NUL]", unfolded len pd] nx
  have esc: "remove_escaped_chars (''/%2e%2e'' @ [NUL]) 7 =
      Some (UPNP_E_SUCCESS, ''/..'' @ [NUL, NUL, NUL, NUL] @ [NUL], 3)"
    by (simp add: remove_escaped_chars_def)
  have dots: "remove_dots sample_env (''/..'' @ [NUL, NUL, NUL, NUL] @ [NUL]) 7 =
      Some (UPNP_E_SUCCESS, sample_env, ''/..'' @ [NUL, NUL, NUL, NUL] @ [NUL])"
    by (simp add: remove_dots_def m dots_loop.simps tail_loop.simps)
  show ?thesis
    using esc dots by (simp add: request_path_def m token_bytes_def cchar_at_def cstr_def)
qed

end
