(* ===== verification/UpnpString.thy ===== *)
theory UpnpString
  imports Prelude
begin

text \<open>
  The strings of the library, \<open>upnp/src/api/UpnpString.c\<close>, and the copies into arrays of fixed size of
  \<open>upnp/src/genlib/util/util.c\<close>.

  A pointer to a string is an option, \<open>None\<close> being \<open>NULL\<close>: no two objects of the library share a
  string, so the object stands for its address. \<open>m_string\<close> is the allocated block, terminator
  included. A function that dereferences \<open>NULL\<close> or reads past a block has the value \<open>None\<close>.
\<close>

record upnp_string =
  m_length :: nat
  m_string :: string

definition SIZEOF_UpnpString :: nat where "SIZEOF_UpnpString = 16"

section \<open>The C library\<close>

text \<open>\<open>strlen\<close> of a block: defined when the block has a terminator.\<close>

definition block_strlen :: "string \<Rightarrow> nat option" where
  "block_strlen bs = (if NUL \<in> set bs then Some (List.length (cstr bs)) else None)"

text \<open>
  \<open>strnlen\<close> and \<open>strndup\<close> as the source defines them where the C library has none. \<open>s\<close> are the bytes
  that may be read from the pointer on. The length of an object in memory plus one does not wrap.
\<close>

definition strnlen :: "string \<Rightarrow> nat \<Rightarrow> nat option" where
  "strnlen s n = (if n \<le> List.length s \<or> NUL \<in> set s then Some (List.length (cstr (take n s))) else None)"

definition strndup :: "alloc_env \<Rightarrow> string \<Rightarrow> nat \<Rightarrow> (string option \<times> alloc_env) option" where
  "strndup e s n =
     Option.bind (strnlen s n) (\<lambda>strsize.
       case malloc_ok e (strsize + 1) of
         (False, e1) \<Rightarrow> Some (None, e1)
       | (True, e1) \<Rightarrow> Some (Some (take strsize s @ [NUL]), e1))"

definition strdup :: "alloc_env \<Rightarrow> string \<Rightarrow> (string option \<times> alloc_env) option" where
  "strdup e bs =
     Option.bind (block_strlen bs) (\<lambda>n.
       case malloc_ok e (n + 1) of
         (False, e1) \<Rightarrow> Some (None, e1)
       | (True, e1) \<Rightarrow> Some (Some (cstr bs @ [NUL]), e1))"

section \<open>Operations\<close>

definition UpnpString_new :: "alloc_env \<Rightarrow> upnp_string option \<times> alloc_env" where
  "UpnpString_new e =
     (case malloc_ok e SIZEOF_UpnpString of
        (False, e1) \<Rightarrow> (None, e1)
      | (True, e1) \<Rightarrow>
          (case malloc_ok e1 1 of
             (False, e2) \<Rightarrow> (None, e2)
           | (True, e2) \<Rightarrow> (Some \<lparr>m_length = 0, m_string = [NUL]\<rparr>, e2)))"

definition UpnpString_dup :: "alloc_env \<Rightarrow> upnp_string option \<Rightarrow> (upnp_string option \<times> alloc_env) option" where
  "UpnpString_dup e p =
     (case malloc_ok e SIZEOF_UpnpString of
        (False, e1) \<Rightarrow> Some (None, e1)
      | (True, e1) \<Rightarrow>
          Option.bind p (\<lambda>p0.
          Option.bind (strdup e1 (m_string p0)) (\<lambda>(q, e2).
            Some (map_option (\<lambda>s. \<lparr>m_length = m_length p0, m_string = s\<rparr>) q, e2))))"

definition UpnpString_get_Length :: "upnp_string option \<Rightarrow> nat option" where
  "UpnpString_get_Length p = map_option m_length p"

text \<open>The pointer that is returned is the block.\<close>

definition UpnpString_get_String :: "upnp_string option \<Rightarrow> string option" where
  "UpnpString_get_String p = map_option m_string p"

text \<open>The result says whether there was memory; if not, the string stays as it was.\<close>

definition set_block ::
  "upnp_string option \<Rightarrow> (string option \<times> alloc_env) option \<Rightarrow> (int \<times> upnp_string option \<times> alloc_env) option" where
  "set_block p dup =
     Option.bind dup (\<lambda>(q, e1).
       case q of
         None \<Rightarrow> Some (0, p, e1)
       | Some s \<Rightarrow>
           Option.bind p (\<lambda>p0.
           Option.bind (block_strlen s) (\<lambda>n. Some (1, Some (p0\<lparr>m_length := n, m_string := s\<rparr>), e1))))"

definition UpnpString_set_String ::
  "alloc_env \<Rightarrow> upnp_string option \<Rightarrow> string \<Rightarrow> (int \<times> upnp_string option \<times> alloc_env) option" where
  "UpnpString_set_String e p s = set_block p (strdup e s)"

definition UpnpString_set_StringN ::
  "alloc_env \<Rightarrow> upnp_string option \<Rightarrow> string \<Rightarrow> nat \<Rightarrow> (int \<times> upnp_string option \<times> alloc_env) option" where
  "UpnpString_set_StringN e p s n = set_block p (strndup e s n)"

text \<open>\<open>same\<close> says that the two pointers are equal.\<close>

definition UpnpString_assign ::
  "alloc_env \<Rightarrow> bool \<Rightarrow> upnp_string option \<Rightarrow> upnp_string option \<Rightarrow> (upnp_string option \<times> alloc_env) option" where
  "UpnpString_assign e same p q =
     (if same then Some (p, e)
      else
        Option.bind (UpnpString_get_String q) (\<lambda>s.
        map_option (\<lambda>(_, p1, e1). (p1, e1)) (UpnpString_set_String e p s)))"

definition UpnpString_clear :: "upnp_string option \<Rightarrow> upnp_string option" where
  "UpnpString_clear p =
     Option.bind p (\<lambda>p0. if m_string p0 = [] then None
                          else Some (p0\<lparr>m_length := 0, m_string := (m_string p0)[0 := NUL]\<rparr>))"

section \<open>Copies of fixed size\<close>

text \<open>The array after the call, of which \<open>dest\<close> is the content before.\<close>

definition copy_fixed :: "nat \<Rightarrow> string \<Rightarrow> string \<Rightarrow> string option" where
  "copy_fixed n dest src =
     Option.bind (block_write dest 0 (strncpy_bytes src (n - 1)))
       (\<lambda>d. block_write d (n - 1) [NUL])"

definition linecopy :: "string \<Rightarrow> string \<Rightarrow> string option" where
  "linecopy dest src = copy_fixed 180 dest src"

definition namecopy :: "string \<Rightarrow> string \<Rightarrow> string option" where
  "namecopy dest src = copy_fixed 256 dest src"

definition linecopylen :: "string \<Rightarrow> string \<Rightarrow> nat \<Rightarrow> string option" where
  "linecopylen dest src srclen =
     (let len = (if srclen < 180 - 1 then srclen else 180 - 1)
      in Option.bind (block_write dest 0 (strncpy_bytes src len)) (\<lambda>d. block_write d len [NUL]))"

section \<open>What a string object promises\<close>

text \<open>The text of a string, and the invariant: the block is terminated and the length is that of the text.\<close>

definition us_text :: "upnp_string \<Rightarrow> string" where
  "us_text p = cstr (m_string p)"

definition string_ok :: "upnp_string \<Rightarrow> bool" where
  "string_ok p \<longleftrightarrow> NUL \<in> set (m_string p) \<and> m_length p = List.length (us_text p) \<and> m_length p < alloc_max"

lemma cstr_terminated: "NUL \<in> set (cstr bs @ [NUL])" by simp

lemma cstr_cstr [simp]: "cstr (cstr bs @ [NUL]) = cstr bs"
  by (simp add: cstr_nul_free)

lemma nul_free_us_text [simp]: "nul_free (us_text p)"
  by (simp add: us_text_def)

lemma malloc_ok_bound: "malloc_ok e n = (True, e1) \<Longrightarrow> n \<le> alloc_max"
  by (auto simp: malloc_ok_def split: list.splits)

lemma block_strlen_terminated [simp]: "nul_free s \<Longrightarrow> block_strlen (s @ [NUL]) = Some (List.length s)"
  by (simp add: block_strlen_def cstr_nul_free)

lemma strdup_result:
  assumes "strdup e bs = Some (r, e1)"
  shows "r = None \<or> r = Some (cstr bs @ [NUL]) \<and> List.length (cstr bs) < alloc_max"
  using assms
  by (auto simp: strdup_def block_strlen_def split: bind_split_asm if_split_asm prod.splits bool.splits dest!: malloc_ok_bound)

lemma UpnpString_new_ok: "UpnpString_new e = (Some p, e1) \<Longrightarrow> string_ok p \<and> us_text p = []"
  by (auto simp: UpnpString_new_def string_ok_def us_text_def cstr_def alloc_max_def split: prod.splits bool.splits)

lemma set_block_ok:
  assumes "set_block (Some p) (Some (q, e1)) = Some (rc, p', e2)" and "string_ok p"
    and "\<And>s. q = Some s \<Longrightarrow> \<exists>t. s = t @ [NUL] \<and> nul_free t \<and> List.length t < alloc_max"
  shows "\<exists>r. p' = Some r \<and> string_ok r \<and>
           (rc = 0 \<and> q = None \<and> r = p \<or> rc = 1 \<and> q = Some (us_text r @ [NUL]))"
proof (cases q)
  case None
  then show ?thesis using assms by (auto simp: set_block_def)
next
  case (Some s)
  then obtain t where t: "s = t @ [NUL]" "nul_free t" "List.length t < alloc_max" using assms(3) by blast
  then show ?thesis using assms(1) Some
    by (auto simp: set_block_def string_ok_def us_text_def cstr_nul_free)
qed

lemma UpnpString_set_String_ok:
  assumes "UpnpString_set_String e (Some p) bs = Some (rc, p', e1)" and "string_ok p"
  shows "\<exists>r. p' = Some r \<and> string_ok r \<and> (rc = 0 \<and> r = p \<or> rc = 1 \<and> us_text r = cstr bs)"
proof -
  from assms(1) obtain q e2 where q: "strdup e bs = Some (q, e2)"
    by (auto simp: UpnpString_set_String_def set_block_def split: bind_split_asm)
  have "\<exists>r. p' = Some r \<and> string_ok r \<and> (rc = 0 \<and> q = None \<and> r = p \<or> rc = 1 \<and> q = Some (us_text r @ [NUL]))"
    using assms q strdup_result [OF q]
    by (intro set_block_ok [of p q e2]) (auto simp: UpnpString_set_String_def)
  then show ?thesis using strdup_result [OF q] by auto
qed

lemma UpnpString_dup_ok:
  assumes "UpnpString_dup e (Some p) = Some (q, e1)" and "string_ok p"
  shows "q = None \<or> (\<exists>r. q = Some r \<and> string_ok r \<and> us_text r = us_text p)"
  using assms
  by (auto simp: UpnpString_dup_def string_ok_def us_text_def
      split: prod.splits bool.splits bind_split_asm dest!: strdup_result)

lemma cstr_take: "cstr (take n s) = take (List.length (cstr (take n s))) s"
proof -
  have "cstr (take n s) = take (List.length (cstr (take n s))) (take n s)"
    unfolding cstr_def by (metis takeWhile_eq_take)
  moreover have "List.length (cstr (take n s)) \<le> n"
    unfolding cstr_def by (metis length_takeWhile_le length_take min.bounded_iff)
  ultimately show ?thesis by (metis min.absorb1 take_take)
qed

lemma strndup_result:
  assumes "strndup e s n = Some (r, e1)"
  shows "r = None \<or> r = Some (cstr (take n s) @ [NUL]) \<and> List.length (cstr (take n s)) < alloc_max"
  using assms
  by (auto simp: strndup_def strnlen_def split: bind_split_asm if_split_asm prod.splits bool.splits
      dest!: malloc_ok_bound simp flip: cstr_take)

lemma UpnpString_set_StringN_ok:
  assumes "UpnpString_set_StringN e (Some p) s n = Some (rc, p', e1)" and "string_ok p"
  shows "\<exists>r. p' = Some r \<and> string_ok r \<and> (rc = 0 \<and> r = p \<or> rc = 1 \<and> us_text r = cstr (take n s))"
proof -
  from assms(1) obtain q e2 where q: "strndup e s n = Some (q, e2)"
    by (auto simp: UpnpString_set_StringN_def set_block_def split: bind_split_asm)
  have "\<exists>r. p' = Some r \<and> string_ok r \<and> (rc = 0 \<and> q = None \<and> r = p \<or> rc = 1 \<and> q = Some (us_text r @ [NUL]))"
    using assms q strndup_result [OF q]
    by (intro set_block_ok [of p q e2]) (auto simp: UpnpString_set_StringN_def)
  then show ?thesis using strndup_result [OF q] by auto
qed

lemma UpnpString_clear_ok:
  assumes "UpnpString_clear (Some p) = Some q" and "string_ok p"
  shows "string_ok q \<and> us_text q = []"
  using assms by (cases "m_string p") (auto simp: UpnpString_clear_def string_ok_def us_text_def cstr_def split: if_splits)

end
