(* ===== verification/ClientTable.thy ===== *)
theory ClientTable
  imports UpnpString TimerThread
begin

text \<open>
  The subscriptions of a client, \<open>upnp/src/genlib/client_table/client_table.c\<close>, and the data of a
  renewal timer, \<open>upnp/src/genlib/util/upnp_timeout.c\<close>.

  A subscription that is on a list is a cell of the store \<open>cs_sub\<close>, reached through the \<open>m_next\<close>
  pointers; the address of one that is not on a list (a copy, or one being filled) never leaves the
  function that made it, and such a subscription is a value. The data of a renewal timer is shared
  with the timer, whose job has its address, and is a cell of \<open>cs_timeout\<close>. To use a cell that is not
  allocated, or \<open>NULL\<close>, is \<open>None\<close>.
\<close>

section \<open>Subscriptions\<close>

record client_sub =
  m_renewEventId :: int
  m_SID :: "upnp_string option"
  m_actualSID :: "upnp_string option"
  m_eventURL :: "upnp_string option"
  m_next :: addr

definition SIZEOF_ClientSubscription :: nat where "SIZEOF_ClientSubscription = 40"

text \<open>The result of \<open>calloc\<close> is not checked.\<close>

definition UpnpClientSubscription_new :: "alloc_env \<Rightarrow> (client_sub \<times> alloc_env) option" where
  "UpnpClientSubscription_new e =
     (case malloc_ok e SIZEOF_ClientSubscription of
        (False, _) \<Rightarrow> None
      | (True, e1) \<Rightarrow>
          (let (sid, e2) = UpnpString_new e1;
               (actual, e3) = UpnpString_new e2;
               (url, e4) = UpnpString_new e3
           in Some (\<lparr>m_renewEventId = 0, m_SID = sid, m_actualSID = actual, m_eventURL = url, m_next = NULL\<rparr>, e4)))"

definition UpnpClientSubscription_set_SID ::
  "alloc_env \<Rightarrow> client_sub \<Rightarrow> upnp_string option \<Rightarrow> (client_sub \<times> alloc_env) option" where
  "UpnpClientSubscription_set_SID e p s =
     map_option (\<lambda>(d, e1). (p\<lparr>m_SID := d\<rparr>, e1)) (UpnpString_dup e s)"

definition UpnpClientSubscription_set_ActualSID ::
  "alloc_env \<Rightarrow> client_sub \<Rightarrow> upnp_string option \<Rightarrow> (client_sub \<times> alloc_env) option" where
  "UpnpClientSubscription_set_ActualSID e p s =
     map_option (\<lambda>(d, e1). (p\<lparr>m_actualSID := d\<rparr>, e1)) (UpnpString_dup e s)"

definition UpnpClientSubscription_set_EventURL ::
  "alloc_env \<Rightarrow> client_sub \<Rightarrow> upnp_string option \<Rightarrow> (client_sub \<times> alloc_env) option" where
  "UpnpClientSubscription_set_EventURL e p s =
     map_option (\<lambda>(d, e1). (p\<lparr>m_eventURL := d\<rparr>, e1)) (UpnpString_dup e s)"

text \<open>What the three functions \<open>UpnpClientSubscription_strcpy_...\<close> make of their argument.\<close>

definition fresh_string :: "alloc_env \<Rightarrow> string \<Rightarrow> (upnp_string option \<times> alloc_env) option" where
  "fresh_string e s =
     (case UpnpString_new e of (d, e1) \<Rightarrow>
        map_option (\<lambda>(_, d1, e2). (d1, e2)) (UpnpString_set_String e1 d s))"

definition UpnpClientSubscription_strcpy_SID ::
  "alloc_env \<Rightarrow> client_sub \<Rightarrow> string \<Rightarrow> (client_sub \<times> alloc_env) option" where
  "UpnpClientSubscription_strcpy_SID e p s = map_option (\<lambda>(d, e1). (p\<lparr>m_SID := d\<rparr>, e1)) (fresh_string e s)"

definition UpnpClientSubscription_strcpy_ActualSID ::
  "alloc_env \<Rightarrow> client_sub \<Rightarrow> string \<Rightarrow> (client_sub \<times> alloc_env) option" where
  "UpnpClientSubscription_strcpy_ActualSID e p s =
     map_option (\<lambda>(d, e1). (p\<lparr>m_actualSID := d\<rparr>, e1)) (fresh_string e s)"

definition UpnpClientSubscription_strcpy_EventURL ::
  "alloc_env \<Rightarrow> client_sub \<Rightarrow> string \<Rightarrow> (client_sub \<times> alloc_env) option" where
  "UpnpClientSubscription_strcpy_EventURL e p s =
     map_option (\<lambda>(d, e1). (p\<lparr>m_eventURL := d\<rparr>, e1)) (fresh_string e s)"

text \<open>Neither the renewal event nor the place on a list is copied. The two are never the same object.\<close>

definition UpnpClientSubscription_assign ::
  "alloc_env \<Rightarrow> client_sub \<Rightarrow> client_sub \<Rightarrow> (client_sub \<times> alloc_env) option" where
  "UpnpClientSubscription_assign e q p =
     Option.bind (UpnpClientSubscription_set_SID e (q\<lparr>m_renewEventId := -1\<rparr>) (m_SID p)) (\<lambda>(q1, e1).
     Option.bind (UpnpClientSubscription_set_ActualSID e1 q1 (m_actualSID p)) (\<lambda>(q2, e2).
     Option.bind (UpnpClientSubscription_set_EventURL e2 q2 (m_eventURL p)) (\<lambda>(q3, e3).
       Some (q3\<lparr>m_next := NULL\<rparr>, e3))))"

definition UpnpClientSubscription_dup :: "alloc_env \<Rightarrow> client_sub \<Rightarrow> (client_sub \<times> alloc_env) option" where
  "UpnpClientSubscription_dup e p =
     Option.bind (UpnpClientSubscription_new e) (\<lambda>(q, e1). UpnpClientSubscription_assign e1 q p)"

section \<open>The store\<close>

record event_subscribe =
  es_Sid :: string
  es_ErrCode :: int
  es_PublisherUrl :: string
  es_TimeOut :: int

record upnp_timeout =
  to_handle :: int
  to_eventId :: int
  to_Event :: event_subscribe

record client_store =
  cs_alloc :: alloc_env
  cs_brk :: addr
  cs_sub :: "addr \<Rightarrow> client_sub option"
  cs_timeout :: "addr \<Rightarrow> upnp_timeout option"
  cs_timer :: TimerThread

text \<open>The addresses of the two functions a renewal job refers to.\<close>

definition GenaAutoRenewSubscription_addr :: addr where "GenaAutoRenewSubscription_addr = 101"
definition free_upnp_timeout_addr :: addr where "free_upnp_timeout_addr = 102"

definition free_upnp_timeout :: "addr \<Rightarrow> client_store \<Rightarrow> client_store option" where
  "free_upnp_timeout event s =
     (if event = NULL then Some s
      else map_option (\<lambda>_. s\<lparr>cs_timeout := (cs_timeout s)(event := None)\<rparr>) (cs_timeout s event))"

text \<open>\<open>UpnpClientSubscription_delete\<close> of a subscription that is a cell.\<close>

definition UpnpClientSubscription_delete :: "addr \<Rightarrow> client_store \<Rightarrow> client_store option" where
  "UpnpClientSubscription_delete p s =
     (if p = NULL then Some s
      else map_option (\<lambda>_. s\<lparr>cs_sub := (cs_sub s)(p := None)\<rparr>) (cs_sub s p))"

definition UpnpClientSubscription_set_Next :: "addr \<Rightarrow> addr \<Rightarrow> client_store \<Rightarrow> client_store option" where
  "UpnpClientSubscription_set_Next p q s =
     map_option (\<lambda>c. s\<lparr>cs_sub := (cs_sub s)(p \<mapsto> c\<lparr>m_next := q\<rparr>)\<rparr>) (cs_sub s p)"

text \<open>Removing a renewal event from the timer, with its data: as two functions of the library do it.\<close>

definition remove_renewal :: "int \<Rightarrow> client_store \<Rightarrow> client_store option" where
  "remove_renewal i s =
     (case TimerThreadRemove (Some (cs_timer s)) i of
        (rc, job, t) \<Rightarrow>
          (let s1 = s\<lparr>cs_timer := the t\<rparr>
           in if rc = 0 then free_upnp_timeout (job_arg (the job)) s1 else Some s1))"

definition free_client_subscription :: "client_sub \<Rightarrow> client_store \<Rightarrow> (client_sub \<times> client_store) option" where
  "free_client_subscription sub s =
     Option.bind (UpnpClientSubscription_strcpy_ActualSID (cs_alloc s) sub [NUL]) (\<lambda>(sub1, e1).
     Option.bind (UpnpClientSubscription_strcpy_EventURL e1 sub1 [NUL]) (\<lambda>(sub2, e2).
     Option.bind
       (if m_renewEventId sub \<noteq> -1 then remove_renewal (m_renewEventId sub) (s\<lparr>cs_alloc := e2\<rparr>)
        else Some (s\<lparr>cs_alloc := e2\<rparr>))
       (\<lambda>s1. Some (sub2\<lparr>m_renewEventId := -1\<rparr>, s1))))"

definition free_sub_at :: "addr \<Rightarrow> client_store \<Rightarrow> client_store option" where
  "free_sub_at p s =
     Option.bind (cs_sub s p) (\<lambda>c.
     map_option (\<lambda>(c1, s1). s1\<lparr>cs_sub := (cs_sub s1)(p \<mapsto> c1)\<rparr>) (free_client_subscription c s))"

partial_function (option) freeClientSubList :: "addr \<Rightarrow> client_store \<Rightarrow> client_store option" where
  "freeClientSubList list s =
     (if list = NULL then Some s
      else
        Option.bind (free_sub_at list s) (\<lambda>s1.
        Option.bind (cs_sub s1 list) (\<lambda>c.
        Option.bind (UpnpClientSubscription_delete list s1) (\<lambda>s2. freeClientSubList (m_next c) s2))))"

declare freeClientSubList.simps [code]

section \<open>Searching a list\<close>

text \<open>The text a comparison reads; \<open>NULL\<close> has none.\<close>

definition c_text :: "upnp_string option \<Rightarrow> string option" where
  "c_text p = Option.bind (UpnpString_get_String p) (\<lambda>bs. if NUL \<in> set bs then Some (cstr bs) else None)"

definition same_sid :: "upnp_string option \<Rightarrow> upnp_string option \<Rightarrow> bool option" where
  "same_sid a b = Option.bind (c_text a) (\<lambda>x. Option.bind (c_text b) (\<lambda>y. Some (strcmp x y = 0)))"

text \<open>The result is the head of the list as it is left.\<close>

partial_function (option) remove_sid_loop ::
  "upnp_string option \<Rightarrow> addr \<Rightarrow> addr \<Rightarrow> addr \<Rightarrow> client_store \<Rightarrow> (addr \<times> client_store) option" where
  "remove_sid_loop sid front previous finger s =
     (if finger = NULL then Some (front, s)
      else
        Option.bind (cs_sub s finger) (\<lambda>c.
        Option.bind (same_sid sid (m_SID c)) (\<lambda>found.
          if found then
            Option.bind
              (if previous \<noteq> NULL then
                 map_option (\<lambda>s1. (front, s1)) (UpnpClientSubscription_set_Next previous (m_next c) s)
               else Some (m_next c, s))
              (\<lambda>(front1, s1).
            Option.bind (UpnpClientSubscription_set_Next finger NULL s1) (\<lambda>s2.
            map_option (\<lambda>s3. (front1, s3)) (freeClientSubList finger s2)))
          else remove_sid_loop sid front finger (m_next c) s)))"

declare remove_sid_loop.simps [code]

definition RemoveClientSubClientSID ::
  "addr \<Rightarrow> upnp_string option \<Rightarrow> client_store \<Rightarrow> (addr \<times> client_store) option" where
  "RemoveClientSubClientSID front sid s = remove_sid_loop sid front NULL front s"

partial_function (option) GetClientSubClientSID ::
  "addr \<Rightarrow> upnp_string option \<Rightarrow> client_store \<Rightarrow> addr option" where
  "GetClientSubClientSID next sid s =
     (if next = NULL then Some NULL
      else
        Option.bind (cs_sub s next) (\<lambda>c.
        Option.bind (same_sid (m_SID c) sid) (\<lambda>found.
          if found then Some next else GetClientSubClientSID (m_next c) sid s)))"

declare GetClientSubClientSID.simps [code]

text \<open>\<open>memcmp\<close> reads as many bytes of the stored identifier as the one that is looked for has.\<close>

partial_function (option) GetClientSubActualSID :: "addr \<Rightarrow> string \<Rightarrow> client_store \<Rightarrow> addr option" where
  "GetClientSubActualSID next sid s =
     (if next = NULL then Some NULL
      else
        Option.bind (cs_sub s next) (\<lambda>c.
        Option.bind (UpnpString_get_String (m_actualSID c)) (\<lambda>bs.
        Option.bind (block_read bs 0 (List.length sid)) (\<lambda>b.
          if b = sid then Some next else GetClientSubActualSID (m_next c) sid s))))"

declare GetClientSubActualSID.simps [code]

section \<open>Allocation succeeds while there is memory\<close>

lemma malloc_ok_memory: "oom e = [] \<Longrightarrow> malloc_ok e n = (n \<le> alloc_max, e)"
  by (simp add: malloc_ok_def)

lemma small_alloc [simp]: "n \<le> 4096 \<Longrightarrow> n \<le> alloc_max"
  by (simp add: alloc_max_def)

lemma new_memory: "oom e = [] \<Longrightarrow> UpnpString_new e = (Some \<lparr>m_length = 0, m_string = [NUL]\<rparr>, e)"
  by (simp add: UpnpString_new_def malloc_ok_memory SIZEOF_UpnpString_def)

lemma dup_memory:
  assumes "oom e = []" and "string_ok p"
  shows "\<exists>q. UpnpString_dup e (Some p) = Some (Some q, e) \<and> string_ok q \<and> us_text q = us_text p"
proof -
  have "strdup e (m_string p) = Some (Some (us_text p @ [NUL]), e)"
    using assms by (simp add: strdup_def block_strlen_def string_ok_def malloc_ok_memory us_text_def)
  then have "UpnpString_dup e (Some p) = Some (Some \<lparr>m_length = m_length p, m_string = us_text p @ [NUL]\<rparr>, e)"
    using assms(1) by (simp add: UpnpString_dup_def malloc_ok_memory SIZEOF_UpnpString_def)
  then show ?thesis using assms(2) by (auto simp: string_ok_def us_text_def)
qed

lemma fresh_empty_memory:
  "oom e = [] \<Longrightarrow> fresh_string e [NUL] = Some (Some \<lparr>m_length = 0, m_string = [NUL]\<rparr>, e)"
  by (simp add: fresh_string_def new_memory UpnpString_set_String_def strdup_def block_strlen_def
      malloc_ok_memory set_block_def cstr_def)

definition sub_ok :: "client_sub \<Rightarrow> bool" where
  "sub_ok c \<longleftrightarrow> (\<exists>a b d. m_SID c = Some a \<and> m_actualSID c = Some b \<and> m_eventURL c = Some d \<and>
                       string_ok a \<and> string_ok b \<and> string_ok d)"

definition sid_of :: "client_sub \<Rightarrow> string" where "sid_of c = us_text (the (m_SID c))"
definition actual_of :: "client_sub \<Rightarrow> string" where "actual_of c = us_text (the (m_actualSID c))"
definition url_of :: "client_sub \<Rightarrow> string" where "url_of c = us_text (the (m_eventURL c))"

lemma empty_string_ok [simp]: "string_ok \<lparr>m_length = 0, m_string = [NUL]\<rparr>" "us_text \<lparr>m_length = 0, m_string = [NUL]\<rparr> = []"
  by (simp_all add: string_ok_def us_text_def cstr_def alloc_max_def)

lemma new_sub_memory:
  "oom e = [] \<Longrightarrow> \<exists>c. UpnpClientSubscription_new e = Some (c, e) \<and> sub_ok c \<and> m_renewEventId c = 0 \<and> m_next c = NULL"
  by (simp add: UpnpClientSubscription_new_def malloc_ok_memory new_memory SIZEOF_ClientSubscription_def sub_ok_def)

lemma set_memory:
  assumes "oom e = []" and "string_ok x"
  shows "\<exists>y. UpnpClientSubscription_set_SID e p (Some x) = Some (p\<lparr>m_SID := Some y\<rparr>, e) \<and> string_ok y \<and> us_text y = us_text x"
    and "\<exists>y. UpnpClientSubscription_set_ActualSID e p (Some x) = Some (p\<lparr>m_actualSID := Some y\<rparr>, e) \<and> string_ok y \<and> us_text y = us_text x"
    and "\<exists>y. UpnpClientSubscription_set_EventURL e p (Some x) = Some (p\<lparr>m_eventURL := Some y\<rparr>, e) \<and> string_ok y \<and> us_text y = us_text x"
  using dup_memory [OF assms]
  by (auto simp: UpnpClientSubscription_set_SID_def UpnpClientSubscription_set_ActualSID_def UpnpClientSubscription_set_EventURL_def)

lemma assign_memory:
  assumes "oom e = []" and "sub_ok p"
  shows "\<exists>q'. UpnpClientSubscription_assign e q p = Some (q', e) \<and> sub_ok q' \<and> m_renewEventId q' = -1 \<and> m_next q' = NULL \<and>
           sid_of q' = sid_of p \<and> actual_of q' = actual_of p \<and> url_of q' = url_of p"
proof -
  from assms(2) obtain a b d where s: "m_SID p = Some a" "m_actualSID p = Some b" "m_eventURL p = Some d"
    "string_ok a" "string_ok b" "string_ok d" by (auto simp: sub_ok_def)
  from set_memory(1) [OF assms(1) s(4), of "q\<lparr>m_renewEventId := -1\<rparr>"] obtain a' where
    a: "UpnpClientSubscription_set_SID e (q\<lparr>m_renewEventId := -1\<rparr>) (Some a) = Some (q\<lparr>m_renewEventId := -1, m_SID := Some a'\<rparr>, e)"
       "string_ok a'" "us_text a' = us_text a" by auto
  from set_memory(2) [OF assms(1) s(5), of "q\<lparr>m_renewEventId := -1, m_SID := Some a'\<rparr>"] obtain b' where
    b: "UpnpClientSubscription_set_ActualSID e (q\<lparr>m_renewEventId := -1, m_SID := Some a'\<rparr>) (Some b) =
          Some (q\<lparr>m_renewEventId := -1, m_SID := Some a', m_actualSID := Some b'\<rparr>, e)"
       "string_ok b'" "us_text b' = us_text b" by auto
  from set_memory(3) [OF assms(1) s(6), of "q\<lparr>m_renewEventId := -1, m_SID := Some a', m_actualSID := Some b'\<rparr>"] obtain d' where
    d: "UpnpClientSubscription_set_EventURL e (q\<lparr>m_renewEventId := -1, m_SID := Some a', m_actualSID := Some b'\<rparr>) (Some d) =
          Some (q\<lparr>m_renewEventId := -1, m_SID := Some a', m_actualSID := Some b', m_eventURL := Some d'\<rparr>, e)"
       "string_ok d'" "us_text d' = us_text d" by auto
  show ?thesis using s a b d
    by (simp add: UpnpClientSubscription_assign_def sub_ok_def sid_of_def actual_of_def url_of_def)
qed

section \<open>Renewal events\<close>

definition timer_events :: "client_store \<Rightarrow> TimerEvent list" where
  "timer_events s = q_items (eventQ (cs_timer s))"

definition renewal :: "TimerEvent \<Rightarrow> bool" where
  "renewal e \<longleftrightarrow> job_func (ev_job e) = GenaAutoRenewSubscription_addr"

definition event_arg :: "TimerEvent \<Rightarrow> addr" where "event_arg e = job_arg (ev_job e)"

text \<open>
  The data of renewal timers: every waiting renewal has its own cell, and there is no cell besides
  these and the ones in \<open>A\<close>, of renewals that have fired and are being worked on.
\<close>

definition timeouts_ok :: "addr list \<Rightarrow> client_store \<Rightarrow> bool" where
  "timeouts_ok A s \<longleftrightarrow>
     timer_inv (cs_timer s) \<and>
     distinct (map event_arg (filter renewal (timer_events s)) @ A) \<and>
     set (map event_arg (filter renewal (timer_events s)) @ A) = dom (cs_timeout s) \<and> NULL \<notin> dom (cs_timeout s) \<and>
     (\<forall>e \<in> set (timer_events s). 0 \<le> ev_id e \<and> (renewal e \<longleftrightarrow> job_free_func (ev_job e) = free_upnp_timeout_addr)) \<and>
     0 \<le> lastEventId (cs_timer s)"

lemma remove_renewal_ok:
  assumes ok: "timeouts_ok A s" and ren: "\<forall>e \<in> set (timer_events s). ev_id e = i \<longrightarrow> renewal e"
  shows "\<exists>s'. remove_renewal i s = Some s' \<and> timeouts_ok A s' \<and>
           timer_events s' = filter (\<lambda>e. ev_id e \<noteq> i) (timer_events s) \<and>
           cs_sub s' = cs_sub s \<and> cs_alloc s' = cs_alloc s \<and> cs_brk s' = cs_brk s \<and>
           cs_timeout s' \<subseteq>\<^sub>m cs_timeout s \<and>
           lastEventId (cs_timer s') = lastEventId (cs_timer s) \<and> tt_oom (cs_timer s') = tt_oom (cs_timer s)"
proof -
  let ?t = "cs_timer s"
  have inv: "timer_inv ?t" using ok by (simp add: timeouts_ok_def)
  show ?thesis
  proof (cases "find_event i (timer_events s)")
    case None
    then have "TimerThreadRemove (Some ?t) i = (INVALID_EVENT_ID, None, Some ?t)"
      by (simp add: TimerThreadRemove_def timer_events_def)
    moreover have "INVALID_EVENT_ID \<noteq> 0" by code_simp
    moreover have "filter (\<lambda>e. ev_id e \<noteq> i) (timer_events s) = timer_events s"
      using None by (auto simp: find_event_None filter_id_conv image_iff)
    ultimately show ?thesis using ok by (simp add: remove_renewal_def)
  next
    case (Some k)
    let ?es = "timer_events s"
    have dis: "distinct (map ev_id ?es)" using inv by (simp add: timer_inv_def timer_events_def)
    note F = find_event_Some [OF Some dis]
    let ?e = "?es ! k"
    let ?t' = "FreeTimerEvent (?t\<lparr>eventQ := q_remove_at (eventQ ?t) k\<rparr>)"
    let ?s' = "s\<lparr>cs_timer := ?t', cs_timeout := (cs_timeout s)(event_arg ?e := None)\<rparr>"
    have e: "?e \<in> set ?es" "renewal ?e" using F ren by auto
    have split: "?es = take k ?es @ ?e # drop (Suc k) ?es" using F by (simp add: id_take_nth_drop)
    have q: "timer_events ?s' = filter (\<lambda>e. ev_id e \<noteq> i) ?es"
      using F by (simp add: timer_events_def FreeTimerEvent_def q_remove_at_def)
    have q2: "filter (\<lambda>e. ev_id e \<noteq> i) ?es = take k ?es @ drop (Suc k) ?es" using F by simp
    let ?args = "map event_arg (filter renewal ?es)"
    have args: "?args = map event_arg (filter renewal (take k ?es)) @ event_arg ?e # map event_arg (filter renewal (drop (Suc k) ?es))"
      using e(2) by (subst split) simp
    have args': "map event_arg (filter renewal (timer_events ?s')) =
        map event_arg (filter renewal (take k ?es)) @ map event_arg (filter renewal (drop (Suc k) ?es))"
      unfolding q q2 by simp
    have old: "distinct (?args @ A)" "set (?args @ A) = dom (cs_timeout s)" "NULL \<notin> dom (cs_timeout s)"
      using ok by (simp_all add: timeouts_ok_def)
    have mem: "event_arg ?e \<in> dom (cs_timeout s)" using old(2) args by auto
    have run: "remove_renewal i s = Some ?s'"
    proof -
      have "TimerThreadRemove (Some ?t) i = (0, Some (ev_job ?e), Some ?t')"
        using Some by (simp add: TimerThreadRemove_def timer_events_def)
      moreover obtain y where "cs_timeout s (event_arg ?e) = Some y" using mem by blast
      moreover have "event_arg ?e \<noteq> NULL" using mem old(3) by metis
      ultimately show ?thesis by (simp add: remove_renewal_def free_upnp_timeout_def event_arg_def Let_def)
    qed
    have "timer_inv ?t'"
      using inv sorted_filter [of eventTime ?es] q
      by (auto simp: timer_inv_def by_time_def FreeTimerEvent_def timer_events_def distinct_map_filter)
    moreover have "distinct (map event_arg (filter renewal (timer_events ?s')) @ A)"
      using old(1) unfolding args args' by auto
    moreover have "set (map event_arg (filter renewal (timer_events ?s')) @ A) = dom (cs_timeout ?s')"
      using old(1,2) unfolding args args' by auto
    ultimately have "timeouts_ok A ?s'" using old(3) ok q by (auto simp: timeouts_ok_def FreeTimerEvent_def)
    then show ?thesis using run q by (intro exI [of _ ?s']) (auto simp: FreeTimerEvent_def map_le_def)
  qed
qed

text \<open>What removing the renewal event \<open>i\<close> changes besides the subscriptions; \<open>-1\<close> stands for no event.\<close>

definition cancelled :: "int \<Rightarrow> addr list \<Rightarrow> client_store \<Rightarrow> client_store \<Rightarrow> bool" where
  "cancelled i A s s' \<longleftrightarrow>
     timeouts_ok A s' \<and>
     timer_events s' = filter (\<lambda>e. i = -1 \<or> ev_id e \<noteq> i) (timer_events s) \<and>
     cs_alloc s' = cs_alloc s \<and> cs_brk s' = cs_brk s \<and> cs_timeout s' \<subseteq>\<^sub>m cs_timeout s \<and>
     lastEventId (cs_timer s') = lastEventId (cs_timer s) \<and> tt_oom (cs_timer s') = tt_oom (cs_timer s)"

definition renews :: "int \<Rightarrow> client_store \<Rightarrow> bool" where
  "renews i s \<longleftrightarrow> i = -1 \<or> i < lastEventId (cs_timer s) \<and> (\<forall>e \<in> set (timer_events s). ev_id e = i \<longrightarrow> renewal e)"

lemma cancelled_refl: "timeouts_ok A s \<Longrightarrow> cancelled (-1) A s s"
  by (simp add: cancelled_def)

lemma cs_sub_irrelevant [simp]:
  "timer_events (s\<lparr>cs_sub := f\<rparr>) = timer_events s"
  "timeouts_ok A (s\<lparr>cs_sub := f\<rparr>) = timeouts_ok A s"
  "cancelled i A (s\<lparr>cs_sub := f\<rparr>) s' = cancelled i A s s'"
  "cancelled i A s (s'\<lparr>cs_sub := f\<rparr>) = cancelled i A s s'"
  "renews i (s\<lparr>cs_sub := f\<rparr>) = renews i s"
  by (simp_all add: timer_events_def timeouts_ok_def cancelled_def renews_def)

lemma renews_cancelled: "cancelled i A s s' \<Longrightarrow> renews j s \<Longrightarrow> renews j s'"
  by (auto simp: cancelled_def renews_def)

lemma free_client_subscription_ok:
  assumes "oom (cs_alloc s) = []" and "timeouts_ok A s" and "renews (m_renewEventId c) s"
  shows "\<exists>c' s'. free_client_subscription c s = Some (c', s') \<and> m_next c' = m_next c \<and>
           cs_sub s' = cs_sub s \<and> cancelled (m_renewEventId c) A s s'"
proof -
  let ?E = "\<lparr>m_length = 0, m_string = [NUL]\<rparr>"
  have f: "fresh_string (cs_alloc s) [NUL] = Some (Some ?E, cs_alloc s)"
    by (rule fresh_empty_memory [OF assms(1)])
  show ?thesis
  proof (cases "m_renewEventId c = -1")
    case True
    then show ?thesis using f cancelled_refl [OF assms(2)]
      by (simp add: free_client_subscription_def UpnpClientSubscription_strcpy_ActualSID_def
          UpnpClientSubscription_strcpy_EventURL_def)
  next
    case False
    with assms(3) have "\<forall>e \<in> set (timer_events s). ev_id e = m_renewEventId c \<longrightarrow> renewal e" by (simp add: renews_def)
    from remove_renewal_ok [OF assms(2) this] obtain s' where
      "remove_renewal (m_renewEventId c) s = Some s'" "cs_sub s' = cs_sub s" "cancelled (m_renewEventId c) A s s'"
      using False by (auto simp: cancelled_def)
    then show ?thesis using f False
      by (simp add: free_client_subscription_def UpnpClientSubscription_strcpy_ActualSID_def
          UpnpClientSubscription_strcpy_EventURL_def)
  qed
qed

section \<open>Lists of subscriptions\<close>

text \<open>The cells \<open>as\<close> lead from \<open>p\<close> to \<open>q\<close>; a list ends at \<open>NULL\<close>.\<close>

primrec sub_seg :: "(addr \<Rightarrow> client_sub option) \<Rightarrow> addr \<Rightarrow> addr list \<Rightarrow> addr \<Rightarrow> bool" where
  "sub_seg f p [] q \<longleftrightarrow> p = q"
| "sub_seg f p (a # as) q \<longleftrightarrow> p = a \<and> a \<noteq> NULL \<and> (\<exists>c. f a = Some c \<and> sub_seg f (m_next c) as q)"

abbreviation sub_list :: "(addr \<Rightarrow> client_sub option) \<Rightarrow> addr \<Rightarrow> addr list \<Rightarrow> bool" where
  "sub_list f p as \<equiv> sub_seg f p as NULL"

lemma sub_seg_upd [simp]: "a \<notin> set as \<Longrightarrow> sub_seg (f(a := v)) p as q = sub_seg f p as q"
  by (induction as arbitrary: p) auto

lemma sub_seg_dom: "sub_seg f p as q \<Longrightarrow> set as \<subseteq> dom f \<and> NULL \<notin> set as"
  by (induction as arbitrary: p) auto

lemma sub_seg_append: "sub_seg f p (xs @ ys) r \<longleftrightarrow> (\<exists>q. sub_seg f p xs q \<and> sub_seg f q ys r)"
  by (induction xs arbitrary: p) auto

lemma sub_list_unique: "sub_list f p as \<Longrightarrow> sub_list f p bs \<Longrightarrow> as = bs"
proof (induction as arbitrary: p bs)
  case Nil
  then show ?case by (cases bs) auto
next
  case (Cons a as)
  then show ?case by (cases bs) auto
qed

lemma sub_list_distinct: "sub_list f p as \<Longrightarrow> distinct as"
proof (induction as arbitrary: p)
  case Nil
  then show ?case by simp
next
  case (Cons a as)
  then obtain c where c: "f a = Some c" "sub_list f (m_next c) as" by auto
  have "a \<notin> set as"
  proof
    assume "a \<in> set as"
    then obtain xs ys where as: "as = xs @ a # ys" by (meson split_list)
    have "sub_list f a (a # ys)" using c(2) unfolding as by (auto simp: sub_seg_append)
    moreover have "sub_list f a (a # as)" using Cons.prems by simp
    ultimately have "ys = as" using sub_list_unique by blast
    then have "List.length ys = List.length (xs @ a # ys)" using as by simp
    then show False by simp
  qed
  then show ?case using Cons.IH c by auto
qed

lemma sub_seg_relink:
  assumes "sub_seg f p (xs @ [b]) q" and "f b = Some c" and "b \<notin> set xs"
  shows "sub_seg (f(b \<mapsto> c\<lparr>m_next := n\<rparr>)) p (xs @ [b]) n"
  using assms by (auto simp: sub_seg_append)

text \<open>A cell whose place in the list alone may have changed.\<close>

definition same_sub :: "client_sub \<Rightarrow> client_sub \<Rightarrow> bool" where
  "same_sub c d \<longleftrightarrow> m_renewEventId d = m_renewEventId c \<and> m_SID d = m_SID c \<and> m_actualSID d = m_actualSID c \<and>
                  m_eventURL d = m_eventURL c"

lemma same_sub_simps [simp]: "same_sub c c" "same_sub c (c\<lparr>m_next := n\<rparr>)"
  by (simp_all add: same_sub_def)

lemma same_sub_fields:
  "same_sub c d \<Longrightarrow> m_renewEventId d = m_renewEventId c" "same_sub c d \<Longrightarrow> sub_ok d = sub_ok c"
  "same_sub c d \<Longrightarrow> sid_of d = sid_of c"
  by (simp_all add: same_sub_def sub_ok_def sid_of_def)

text \<open>\<open>freeClientSubList\<close> of a single cell.\<close>

lemma free_single:
  assumes "oom (cs_alloc s) = []" and "timeouts_ok A s" and "cs_sub s a = Some c" and "renews (m_renewEventId c) s"
    and "m_next c = NULL" and "a \<noteq> NULL"
  shows "\<exists>s'. freeClientSubList a s = Some s' \<and> cs_sub s' = (cs_sub s)(a := None) \<and> cancelled (m_renewEventId c) A s s'"
proof -
  from free_client_subscription_ok [OF assms(1,2,4)] obtain c' s' where
    f: "free_client_subscription c s = Some (c', s')" "m_next c' = m_next c" "cs_sub s' = cs_sub s"
       "cancelled (m_renewEventId c) A s s'" by blast
  let ?s2 = "s'\<lparr>cs_sub := (cs_sub s)(a := None)\<rparr>"
  have "free_sub_at a s = Some (s'\<lparr>cs_sub := (cs_sub s)(a \<mapsto> c')\<rparr>)"
    using f assms(3) by (simp add: free_sub_at_def)
  then have "freeClientSubList a s = freeClientSubList NULL ?s2"
    using f(2,3) assms(3,5,6) by (subst freeClientSubList.simps) (simp add: UpnpClientSubscription_delete_def)
  then have "freeClientSubList a s = Some ?s2" by (subst (asm) freeClientSubList.simps) simp
  then show ?thesis using f(4) by auto
qed

lemma c_text_ok: "string_ok p \<Longrightarrow> c_text (Some p) = Some (us_text p)"
  by (simp add: c_text_def UpnpString_get_String_def string_ok_def us_text_def)

lemma same_sid_ok:
  assumes "string_ok p" and "sub_ok c"
  shows "same_sid (Some p) (m_SID c) = Some (sid_of c = us_text p)" "same_sid (m_SID c) (Some p) = Some (sid_of c = us_text p)"
  using assms by (auto simp: same_sid_def sub_ok_def sid_of_def c_text_ok strcmp_eq_0)

text \<open>
  Removing by identifier: \<open>xs\<close> are the cells before the first one with the identifier. The removed
  cell is freed with its renewal event; what the other cells say is as before.
\<close>

lemma remove_sid_loop_none:
  assumes "sub_list (cs_sub s) p ys" and "\<forall>a \<in> set ys. sub_ok (the (cs_sub s a)) \<and> sid_of (the (cs_sub s a)) \<noteq> us_text sid"
    and "string_ok sid"
  shows "remove_sid_loop (Some sid) front previous p s = Some (front, s)"
  using assms(1,2)
proof (induction ys arbitrary: p previous)
  case Nil
  then show ?case by (simp add: remove_sid_loop.simps)
next
  case (Cons a ys)
  then obtain c where c: "p = a" "a \<noteq> NULL" "cs_sub s a = Some c" "sub_list (cs_sub s) (m_next c) ys" by auto
  have "same_sid (Some sid) (m_SID c) = Some False" using Cons.prems(2) c(3) assms(3) by (simp add: same_sid_ok)
  then show ?case using Cons.IH [OF c(4)] Cons.prems(2) c(1,2,3) by (subst remove_sid_loop.simps) simp
qed

lemma remove_sid_loop_skip:
  assumes "sub_seg (cs_sub s) p xs q" and "\<forall>a \<in> set xs. sub_ok (the (cs_sub s a)) \<and> sid_of (the (cs_sub s a)) \<noteq> us_text sid"
    and "string_ok sid"
  shows "remove_sid_loop (Some sid) front previous p s = remove_sid_loop (Some sid) front (if xs = [] then previous else List.last xs) q s"
  using assms(1,2)
proof (induction xs arbitrary: p previous)
  case Nil
  then show ?case by simp
next
  case (Cons a xs)
  then obtain c where c: "p = a" "a \<noteq> NULL" "cs_sub s a = Some c" "sub_seg (cs_sub s) (m_next c) xs q" by auto
  have "same_sid (Some sid) (m_SID c) = Some False" using Cons.prems(2) c(3) assms(3) by (simp add: same_sid_ok)
  then have "remove_sid_loop (Some sid) front previous p s = remove_sid_loop (Some sid) front a (m_next c) s"
    using c(1,2,3) by (subst remove_sid_loop.simps) simp
  then show ?case using Cons.IH [OF c(4), of a] Cons.prems(2) by auto
qed

lemma RemoveClientSubClientSID_found:
  assumes mem: "oom (cs_alloc s) = []" and ok: "timeouts_ok A s"
    and seg: "sub_list (cs_sub s) p (xs @ a # ys)"
    and others: "\<forall>b \<in> set xs. sub_ok (the (cs_sub s b)) \<and> sid_of (the (cs_sub s b)) \<noteq> us_text sid"
    and c: "cs_sub s a = Some c" "sub_ok c" "sid_of c = us_text sid" "renews (m_renewEventId c) s"
    and sid: "string_ok sid"
  shows "\<exists>p' s'. RemoveClientSubClientSID p (Some sid) s = Some (p', s') \<and> sub_list (cs_sub s') p' (xs @ ys) \<and>
           cancelled (m_renewEventId c) A s s' \<and> cs_sub s' a = None \<and>
           (\<forall>b. b \<noteq> a \<longrightarrow> rel_option same_sub (cs_sub s b) (cs_sub s' b)) \<and>
           (\<forall>b. b \<notin> set (xs @ a # ys) \<longrightarrow> cs_sub s' b = cs_sub s b)"
proof -
  have dist: "distinct (xs @ a # ys)" by (rule sub_list_distinct [OF seg])
  from seg obtain q where q: "sub_seg (cs_sub s) p xs q" "q = a" "a \<noteq> NULL" "sub_list (cs_sub s) (m_next c) ys"
    using c(1) by (auto simp: sub_seg_append)
  define previous where "previous = (if xs = [] then NULL else List.last xs)"
  have run: "RemoveClientSubClientSID p (Some sid) s = remove_sid_loop (Some sid) p previous a s"
    using remove_sid_loop_skip [OF q(1) others sid, of p NULL] q(2)
    by (simp add: RemoveClientSubClientSID_def previous_def)
  have found: "same_sid (Some sid) (m_SID c) = Some True" using c sid by (simp add: same_sid_ok)
  define c0 where "c0 = c\<lparr>m_next := NULL\<rparr>"
  show ?thesis
  proof (cases "xs = []")
    case True
    let ?s2 = "s\<lparr>cs_sub := (cs_sub s)(a \<mapsto> c0)\<rparr>"
    have "\<exists>s'. freeClientSubList a ?s2 = Some s' \<and> cs_sub s' = (cs_sub ?s2)(a := None) \<and> cancelled (m_renewEventId c0) A ?s2 s'"
      using mem ok c(4) q(3) by (intro free_single) (simp_all add: c0_def)
    then obtain s' where f: "freeClientSubList a ?s2 = Some s'" "cs_sub s' = (cs_sub s)(a := None)"
      "cancelled (m_renewEventId c) A s s'" by (auto simp: c0_def)
    have "RemoveClientSubClientSID p (Some sid) s = Some (m_next c, s')"
      using run found f(1) c(1) q(3) True
      by (subst (asm) remove_sid_loop.simps) (simp add: previous_def UpnpClientSubscription_set_Next_def c0_def)
    moreover have "sub_list (cs_sub s') (m_next c) ys" using q(4) f(2) dist by simp
    moreover have "\<forall>b. b \<noteq> a \<longrightarrow> rel_option same_sub (cs_sub s b) (cs_sub s' b)"
      using f(2) by (auto simp: rel_option_iff split: option.splits)
    ultimately show ?thesis using f True by auto
  next
    case False
    then obtain zs b where xs: "xs = zs @ [b]" by (meson rev_exhaust)
    have bd: "b \<in> set xs" "b \<noteq> a" "b \<notin> set zs" "b \<notin> set ys" using xs dist by auto
    obtain d where d: "cs_sub s b = Some d" "b \<noteq> NULL" using sub_seg_dom [OF q(1)] bd(1) by auto
    have prev: "previous = b" using xs by (simp add: previous_def)
    let ?f1 = "(cs_sub s)(b \<mapsto> d\<lparr>m_next := m_next c\<rparr>)"
    let ?s2 = "s\<lparr>cs_sub := ?f1(a \<mapsto> c0)\<rparr>"
    have "\<exists>s'. freeClientSubList a ?s2 = Some s' \<and> cs_sub s' = (cs_sub ?s2)(a := None) \<and> cancelled (m_renewEventId c0) A ?s2 s'"
      using mem ok c(4) q(3) by (intro free_single) (simp_all add: c0_def)
    then obtain s' where f: "freeClientSubList a ?s2 = Some s'" "cs_sub s' = ?f1(a := None)"
      "cancelled (m_renewEventId c) A s s'" by (auto simp: c0_def)
    have "RemoveClientSubClientSID p (Some sid) s = Some (p, s')"
      using run found f(1) c(1) q(3) prev d bd(2)
      by (subst (asm) remove_sid_loop.simps) (simp add: UpnpClientSubscription_set_Next_def c0_def)
    moreover have "sub_list (cs_sub s') p (xs @ ys)"
    proof -
      have "sub_seg ?f1 p xs (m_next c)" using q(1) d(1) bd(3) unfolding xs by (intro sub_seg_relink)
      moreover have "sub_list ?f1 (m_next c) ys" using q(4) bd(4) by simp
      ultimately have "sub_list ?f1 p (xs @ ys)" by (auto simp: sub_seg_append)
      then show ?thesis using dist f(2) by simp
    qed
    moreover have "\<forall>e. e \<noteq> a \<longrightarrow> rel_option same_sub (cs_sub s e) (cs_sub s' e)"
      using f(2) d(1) by (auto simp: rel_option_iff split: option.splits)
    ultimately show ?thesis using f bd(1) by auto
  qed
qed

lemma GetClientSubClientSID_ok:
  assumes "sub_list (cs_sub s) p as" and "\<forall>a \<in> set as. sub_ok (the (cs_sub s a))" and "string_ok sid"
  shows "GetClientSubClientSID p (Some sid) s =
           Some (case List.find (\<lambda>a. sid_of (the (cs_sub s a)) = us_text sid) as of None \<Rightarrow> NULL | Some a \<Rightarrow> a)"
  using assms(1,2)
proof (induction as arbitrary: p)
  case Nil
  then show ?case by (simp add: GetClientSubClientSID.simps)
next
  case (Cons a as)
  then obtain c where c: "p = a" "a \<noteq> NULL" "cs_sub s a = Some c" "sub_list (cs_sub s) (m_next c) as" by auto
  then show ?case using Cons.IH [OF c(4)] Cons.prems(2) assms(3)
    by (subst GetClientSubClientSID.simps) (simp add: same_sid_ok)
qed

text \<open>
  The search by the publisher's identifier compares only as many bytes as it is given, so the first
  subscription whose identifier begins with them is found: with no bytes, the first of all.
\<close>

lemma GetClientSubActualSID_ok:
  assumes "sub_list (cs_sub s) p as" and "\<forall>a \<in> set as. sub_ok (the (cs_sub s a))" and "nul_free sid"
    and "\<forall>a \<in> set as. List.length sid \<le> List.length (actual_of (the (cs_sub s a)))"
  shows "GetClientSubActualSID p sid s =
           Some (case List.find (\<lambda>a. take (List.length sid) (actual_of (the (cs_sub s a))) = sid) as of None \<Rightarrow> NULL | Some a \<Rightarrow> a)"
  using assms(1,2,4)
proof (induction as arbitrary: p)
  case Nil
  then show ?case by (simp add: GetClientSubActualSID.simps)
next
  case (Cons a as)
  then obtain c where c: "p = a" "a \<noteq> NULL" "cs_sub s a = Some c" "sub_list (cs_sub s) (m_next c) as" by auto
  from Cons.prems(2) c(3) obtain x where x: "m_actualSID c = Some x" "string_ok x" by (auto simp: sub_ok_def)
  have len: "List.length sid \<le> List.length (us_text x)" using Cons.prems(3) c(3) x by (simp add: actual_of_def)
  have pre: "\<exists>r. m_string x = us_text x @ r"
    unfolding us_text_def cstr_def by (metis takeWhile_dropWhile_id)
  then have tk: "take (List.length sid) (m_string x) = take (List.length sid) (us_text x)"
    and l2: "List.length sid \<le> List.length (m_string x)" using len by auto
  have "block_read (m_string x) 0 (List.length sid) = Some (take (List.length sid) (us_text x))"
    using l2 tk by (simp add: block_read_def)
  then show ?case using Cons.IH [OF c(4)] Cons.prems(2,3) c x
    by (subst GetClientSubActualSID.simps) (simp add: UpnpString_get_String_def actual_of_def)
qed

end
