(* ===== verification/GenaMessages.thy ===== *)
theory GenaMessages
  imports ClientTable HttpOpen
begin

text \<open>
  The messages of eventing, \<open>upnp/src/gena/gena_ctrlpt.c\<close> and \<open>gena_callback2.c\<close>: the requests to
  subscribe, to renew and to unsubscribe with what is taken from their responses, and the answers to
  notifications.

  A \<open>gena_net\<close> is all that a request needs: the system's side of the connection, the allocator, the
  addresses of the library's own server. A request is sent without holding a lock, so it has an
  allocator of its own.
\<close>

abbreviation (input) UPNP_E_UNSUBSCRIBE_UNACCEPTED :: int where "UPNP_E_UNSUBSCRIBE_UNACCEPTED \<equiv> -302"
abbreviation (input) UPNP_E_SUBSCRIBE_UNACCEPTED :: int where "UPNP_E_SUBSCRIBE_UNACCEPTED \<equiv> -301"
abbreviation (input) UPNP_INFINITE :: int where "UPNP_INFINITE \<equiv> -1"
abbreviation (input) HTTP_DEFAULT_TIMEOUT :: int where "HTTP_DEFAULT_TIMEOUT \<equiv> 30"

definition AUTO_RENEW_TIME :: int where "AUTO_RENEW_TIME = 10"
definition CP_MINIMUM_SUBSCRIPTION_TIME :: int where "CP_MINIMUM_SUBSCRIPTION_TIME = AUTO_RENEW_TIME + 5"

definition HDR_NT :: int where "HDR_NT = 14"
definition HDR_NTS :: int where "HDR_NTS = 15"
definition HDR_SEQ :: int where "HDR_SEQ = 17"
definition HDR_SID :: int where "HDR_SID = 18"
definition HDR_TIMEOUT :: int where "HDR_TIMEOUT = 21"

record interfaces =
  gIF_IPV4 :: string
  gIF_IPV6 :: string
  gIF_IPV6_ULA_GUA :: string
  LOCAL_PORT_V4 :: nat
  LOCAL_PORT_V6 :: nat

record 'f gena_net =
  gn_files :: "'f files"
  gn_env :: net_env
  gn_make :: make_env
  gn_if :: interfaces
  gn_max :: nat
  gn_alloc :: alloc_env
  gn_sock :: sock_env
  gn_fd :: int
  gn_connected :: int
  gn_code :: int

text \<open>The value of a header, when the message has it: a pointer and a length.\<close>

definition hdr_value :: "http_message \<Rightarrow> int \<Rightarrow> memptr option" where
  "hdr_value m i =
     map_option (\<lambda>k. \<lparr>mp_buf = bytes (h_value (header_at m k)), mp_length = mb_length (h_value (header_at m k))\<rparr>)
       (httpmsg_find_hdr m i)"

text \<open>Make a request of the directives, which depend on its parsed URL, send it and read the response.\<close>

definition gena_exchange ::
  "'f gena_net \<Rightarrow> upnp_string option \<Rightarrow> http_method \<Rightarrow> (string \<Rightarrow> uri_type \<Rightarrow> msg_item list option)
     \<Rightarrow> (int \<times> http_parser option \<times> alloc_env) option"
where
  "gena_exchange N url method directives =
     Option.bind (c_text url) (\<lambda>u.
     Option.bind (UpnpString_get_Length url) (\<lambda>n.
     Option.bind (http_FixStrUrl (gn_env N) u n) (\<lambda>r.
       case r of
         Inl return_code \<Rightarrow> Some (return_code, None, gn_alloc N)
       | Inr (dest_url, path) \<Rightarrow>
           Option.bind (directives u dest_url) (\<lambda>its.
           Option.bind
             (http_MakeMessage (gn_make N) 1 1 (gn_alloc N) ((membuffer_init new_membuffer)\<lparr>mb_size_inc := 30\<rparr>)
                (M_q method u dest_url # its)) (\<lambda>(return_code, e1, request).
             if return_code \<noteq> 0 then Some (return_code, None, e1)
             else
               Option.bind (mb_buf request) (\<lambda>buf.
                 map_option (\<lambda>(return_code, response, e2, _). (return_code, Some response, e2))
                   (http_RequestAndResponse (gn_files N) (gn_env N) (gn_max N) e1 (gn_sock N) (gn_fd N) (gn_connected N)
                      buf (mb_length request) method HTTP_DEFAULT_TIMEOUT (gn_code N))))))))"

section \<open>Unsubscribing\<close>

text \<open>The response is there when the result is 0.\<close>

definition gena_unsubscribe ::
  "'f gena_net \<Rightarrow> upnp_string option \<Rightarrow> upnp_string option \<Rightarrow> (int \<times> http_parser option) option" where
  "gena_unsubscribe N url sid =
     map_option
       (\<lambda>(return_code, response, _).
          if return_code \<noteq> 0 then (return_code, None)
          else if hm_status_code (p_msg (the response)) \<noteq> 200 then (UPNP_E_UNSUBSCRIBE_UNACCEPTED, None)
          else (0, response))
       (gena_exchange N url HTTPMETHOD_UNSUBSCRIBE
          (\<lambda>_ _. map_option (\<lambda>s. [M_s ''SID: '', M_s s, M_c, M_U, M_c]) (c_text sid)))"

section \<open>Subscribing and renewing\<close>

definition timeout_str :: "int \<Rightarrow> string" where
  "timeout_str t =
     (if t < 0 then ''infinite''
      else if t < CP_MINIMUM_SUBSCRIPTION_TIME then show_int CP_MINIMUM_SUBSCRIPTION_TIME
      else show_int t)"

text \<open>\<open>IN6_IS_ADDR_LINKLOCAL\<close>: the address begins with the ten bits of \<open>fe80::/10\<close>.\<close>

definition IN6_IS_ADDR_LINKLOCAL :: "string \<Rightarrow> bool" where
  "IN6_IS_ADDR_LINKLOCAL a \<longleftrightarrow> List.length a \<ge> 2 \<and> code (a ! 0) = 0xfe \<and> code (a ! 1) div 64 = 2"

definition callback_items :: "interfaces \<Rightarrow> uri_type \<Rightarrow> msg_item list" where
  "callback_items ifs dest_url =
     (if hp_family (u_hostport dest_url) = AF_INET6 then
        [M_s ''CALLBACK: <http://['',
         M_s (if IN6_IS_ADDR_LINKLOCAL (hp_addr (u_hostport dest_url)) \<or> gIF_IPV6_ULA_GUA ifs = [] then gIF_IPV6 ifs
              else gIF_IPV6_ULA_GUA ifs),
         M_s '']:'', M_d (int (LOCAL_PORT_V6 ifs)), M_s ''/>'', M_c]
      else
        [M_s ''CALLBACK: <http://'', M_s (gIF_IPV4 ifs), M_s '':'', M_d (int (LOCAL_PORT_V4 ifs)), M_s ''/>'', M_c])"

definition subscribe_items ::
  "interfaces \<Rightarrow> upnp_string option \<Rightarrow> int \<Rightarrow> uri_type \<Rightarrow> msg_item list option" where
  "subscribe_items ifs renewal_sid timeout dest_url =
     (case renewal_sid of
        Some _ \<Rightarrow>
          map_option (\<lambda>s. [M_s ''SID: '', M_s s, M_c, M_s ''TIMEOUT: Second-'', M_s (timeout_str timeout), M_c, M_c])
            (c_text renewal_sid)
      | None \<Rightarrow>
          Some (callback_items ifs dest_url @
                [M_s ''NT: upnp:event'', M_c, M_s ''TIMEOUT: Second-'', M_s (timeout_str timeout), M_c, M_c]))"

text \<open>The timeout a response grants, and what is left in the variable when it is none.\<close>

definition granted_timeout :: "net_env \<Rightarrow> memptr \<Rightarrow> int \<Rightarrow> (bool \<times> int) option" where
  "granted_timeout env hdr timeout =
     Option.bind (matchstr env (mp_buf hdr) (mp_length hdr) ''%iSecond-%d%0'') (\<lambda>(parse_ret, outs).
       let t = (case outs of [IntArg v] \<Rightarrow> v | _ \<Rightarrow> timeout)
       in Some (if parse_ret = PARSE_OK then (True, t)
                else if memptr_cmp_nocase hdr ''Second-infinite'' = 0 then (True, -1)
                else (False, t)))"

text \<open>
  The result, the timeout, and the identifier. \<open>timeout\<close> is \<open>None\<close> when the caller gives \<open>NULL\<close>;
  \<open>renewal_sid\<close> is \<open>None\<close> for a first subscription.
\<close>

definition gena_subscribe ::
  "'f gena_net \<Rightarrow> upnp_string option \<Rightarrow> int option \<Rightarrow> upnp_string option \<Rightarrow> upnp_string option
     \<Rightarrow> (int \<times> int option \<times> upnp_string option) option"
where
  "gena_subscribe N url timeout renewal_sid sid0 =
     Option.bind (UpnpString_clear sid0) (\<lambda>sid.
       let t = (case timeout of None \<Rightarrow> CP_MINIMUM_SUBSCRIPTION_TIME | Some t \<Rightarrow> t);
           out = (\<lambda>t'. map_option (\<lambda>_. t') timeout)
       in Option.bind
            (gena_exchange N url HTTPMETHOD_SUBSCRIBE (\<lambda>_. subscribe_items (gn_if N) renewal_sid t))
            (\<lambda>(return_code, response, e).
              if return_code \<noteq> 0 then Some (return_code, timeout, Some sid)
              else
                (let m = p_msg (the response)
                 in if hm_status_code m \<noteq> 200 then Some (UPNP_E_SUBSCRIBE_UNACCEPTED, timeout, Some sid)
                    else case (hdr_value m HDR_SID, hdr_value m HDR_TIMEOUT) of
                      (Some sid_hdr, Some timeout_hdr) \<Rightarrow>
                        if mp_length sid_hdr = 0 \<or> mp_length timeout_hdr = 0
                        then Some (UPNP_E_BAD_RESPONSE, timeout, Some sid)
                        else
                          Option.bind (granted_timeout (gn_env N) timeout_hdr t) (\<lambda>(granted, t').
                            if \<not> granted then Some (UPNP_E_BAD_RESPONSE, out t', Some sid)
                            else
                              map_option (\<lambda>(_, sid', _). (UPNP_E_SUCCESS, out t', sid'))
                                (UpnpString_set_StringN e (Some sid) (mp_buf sid_hdr) (mp_length sid_hdr)))
                    | _ \<Rightarrow> Some (UPNP_E_BAD_RESPONSE, timeout, Some sid))))"

section \<open>Answering notifications\<close>

definition error_respond ::
  "'f gena_net \<Rightarrow> int \<Rightarrow> http_message \<Rightarrow> (alloc_env \<times> sock_env) option" where
  "error_respond N error_code hmsg =
     (let (major, minor) = http_CalcResponseVersion (hm_major_version hmsg) (hm_minor_version hmsg)
      in map_option (\<lambda>(_, e, w). (e, w))
           (http_SendStatusResponse (gn_files N) (gn_make N) (gn_alloc N) (gn_sock N) error_code major minor))"

section \<open>What a subscription that succeeds gives\<close>

lemma gena_subscribe_string:
  assumes "gena_subscribe N url timeout ren (Some sid0) = Some (rc, t, sid)" and "string_ok sid0"
  shows "\<exists>r. sid = Some r \<and> string_ok r \<and> (t = None \<longleftrightarrow> timeout = None)"
proof -
  from assms(1) obtain q where q: "UpnpString_clear (Some sid0) = Some q"
    by (auto simp: gena_subscribe_def split: bind_split_asm)
  note Q = UpnpString_clear_ok [OF q assms(2)]
  note g = assms(1) [unfolded gena_subscribe_def q Let_def Option.bind.simps]
  show ?thesis using g Q
    by (auto split: bind_split_asm if_split_asm option.split_asm dest!: UpnpString_set_StringN_ok)
qed

end
