(* ===== verification/Handles.thy ===== *)
theory Handles
  imports ClientTable HttpReadWrite
begin

text \<open>
  The handles of an application, \<open>upnp/src/api/upnpapi.c\<close> and \<open>upnp/src/inc/upnpapi.h\<close>: the table of
  handles, looking one up, and registering a client. \<open>client_lib\<close> is the state of the library that the
  eventing, discovery and handle functions share; it is guarded by the handle lock, so each definition
  here and in the theories that build on it is what a thread does while it holds that lock.

  A handle structure is reached only through the table, so an entry of the table stands for it.
  \<open>cl_calls\<close> are the calls of the application's callback, in order.
\<close>

section \<open>State\<close>

datatype handle_type = HND_INVALID | HND_CLIENT | HND_DEVICE

datatype SsdpSearchType = SSDP_SERROR | SSDP_ALL | SSDP_ROOTDEVICE | SSDP_DEVICEUDN | SSDP_DEVICETYPE | SSDP_SERVICE

record search_arg =
  sa_timeoutEventId :: int
  sa_searchTarget :: "string option"
  sa_cookie :: nat
  sa_requestType :: SsdpSearchType

record handle_info =
  hi_HType :: handle_type
  hi_Callback :: nat
  hi_Cookie :: nat
  hi_ClientSubList :: addr
  hi_SsdpSearchList :: "search_arg queue"

record discovery =
  d_ErrCode :: int
  d_UID :: string
  d_DeviceType :: string
  d_Location :: string
  d_DestAddr :: "int \<times> string"

datatype client_event =
  DISCOVERY_ADVERTISEMENT_ALIVE discovery
| DISCOVERY_ADVERTISEMENT_BYEBYE discovery
| DISCOVERY_SEARCH_RESULT discovery
| DISCOVERY_SEARCH_TIMEOUT
| EVENT_RECEIVED string int
| EVENT_AUTORENEWAL_FAILED event_subscribe
| EVENT_SUBSCRIPTION_EXPIRED event_subscribe

record client_lib =
  cl_store :: client_store
  cl_HandleTable :: "handle_info option list"
  cl_SdkInit :: int
  cl_ClientRegistered :: bool
  cl_calls :: "(nat \<times> client_event \<times> nat) list"

definition NUM_HANDLE :: nat where "NUM_HANDLE = 200"

definition SIZEOF_Handle_Info :: nat where "SIZEOF_Handle_Info = 144"

abbreviation (input) UPNP_E_INVALID_HANDLE :: int where "UPNP_E_INVALID_HANDLE \<equiv> -100"
abbreviation (input) UPNP_E_OUTOF_HANDLE :: int where "UPNP_E_OUTOF_HANDLE \<equiv> -102"
abbreviation (input) UPNP_E_FINISH :: int where "UPNP_E_FINISH \<equiv> -116"
abbreviation (input) UPNP_E_ALREADY_REGISTERED :: int where "UPNP_E_ALREADY_REGISTERED \<equiv> -120"

section \<open>Looking up handles\<close>

text \<open>The structure that is found. No caller looks at it unless it is a client's.\<close>

definition GetHandleInfo :: "int \<Rightarrow> client_lib \<Rightarrow> handle_type \<times> handle_info option" where
  "GetHandleInfo Hnd L =
     (if Hnd < 1 \<or> Hnd \<ge> int NUM_HANDLE then (HND_INVALID, None)
      else case cl_HandleTable L ! nat Hnd of
             None \<Rightarrow> (HND_INVALID, None)
           | Some hi \<Rightarrow> (hi_HType hi, Some hi))"

definition GetClientHandleInfo :: "client_lib \<Rightarrow> handle_type \<times> int \<times> handle_info option" where
  "GetClientHandleInfo L =
     (case GetHandleInfo 1 L of
        (HND_CLIENT, hi) \<Rightarrow> (HND_CLIENT, 1, hi)
      | _ \<Rightarrow>
          (case GetHandleInfo 2 L of
             (HND_CLIENT, hi) \<Rightarrow> (HND_CLIENT, 2, hi)
           | _ \<Rightarrow> (HND_INVALID, -1, None)))"

definition GetCallBackFn :: "int \<Rightarrow> client_lib \<Rightarrow> nat option" where
  "GetCallBackFn Hnd L =
     (if 0 \<le> Hnd \<and> nat Hnd < List.length (cl_HandleTable L) then map_option hi_Callback (cl_HandleTable L ! nat Hnd)
      else None)"

text \<open>The loop from \<open>i = 1\<close>; slot 0 is never used.\<close>

definition GetFreeHandle :: "client_lib \<Rightarrow> int" where
  "GetFreeHandle L =
     (case List.find (\<lambda>i. cl_HandleTable L ! i = None) [1..<NUM_HANDLE] of
        None \<Rightarrow> UPNP_E_OUTOF_HANDLE
      | Some i \<Rightarrow> int i)"

definition FreeHandle :: "int \<Rightarrow> client_lib \<Rightarrow> int \<times> client_lib" where
  "FreeHandle h L =
     (if h < 1 \<or> h \<ge> int NUM_HANDLE then (UPNP_E_INVALID_HANDLE, L)
      else if cl_HandleTable L ! nat h = None then (UPNP_E_INVALID_HANDLE, L)
      else (UPNP_E_SUCCESS, L\<lparr>cl_HandleTable := (cl_HandleTable L)[nat h := None]\<rparr>))"

text \<open>What code that has a handle's structure writes to it.\<close>

definition set_handle :: "int \<Rightarrow> handle_info \<Rightarrow> client_lib \<Rightarrow> client_lib" where
  "set_handle h hi L = L\<lparr>cl_HandleTable := (cl_HandleTable L)[nat h := Some hi]\<rparr>"

definition set_sub_list :: "int \<Rightarrow> addr \<Rightarrow> client_lib \<Rightarrow> client_lib" where
  "set_sub_list h p L =
     (case cl_HandleTable L ! nat h of
        None \<Rightarrow> L
      | Some hi \<Rightarrow> set_handle h (hi\<lparr>hi_ClientSubList := p\<rparr>) L)"

section \<open>Registering a client\<close>

text \<open>\<open>Fun\<close> is \<open>NULL\<close> for 0. The handle is written to \<open>*Hnd\<close> also when there is no memory.\<close>

definition UpnpRegisterClient :: "nat \<Rightarrow> nat \<Rightarrow> bool \<Rightarrow> client_lib \<Rightarrow> int \<times> int option \<times> client_lib" where
  "UpnpRegisterClient Fun Cookie hnd_given L =
     (if cl_SdkInit L \<noteq> 1 then (UPNP_E_FINISH, None, L)
      else if Fun = NULL \<or> \<not> hnd_given then (UPNP_E_INVALID_PARAM, None, L)
      else if cl_ClientRegistered L then (UPNP_E_ALREADY_REGISTERED, None, L)
      else
        (let h = GetFreeHandle L
         in if h = UPNP_E_OUTOF_HANDLE then (UPNP_E_OUTOF_MEMORY, Some h, L)
            else case malloc_ok (cs_alloc (cl_store L)) SIZEOF_Handle_Info of
              (False, e) \<Rightarrow> (UPNP_E_OUTOF_MEMORY, Some h, L\<lparr>cl_store := (cl_store L)\<lparr>cs_alloc := e\<rparr>\<rparr>)
            | (True, e) \<Rightarrow>
                (UPNP_E_SUCCESS, Some h,
                 (set_handle h \<lparr>hi_HType = HND_CLIENT, hi_Callback = Fun, hi_Cookie = Cookie,
                                hi_ClientSubList = NULL, hi_SsdpSearchList = q_empty\<rparr> L)
                   \<lparr>cl_store := (cl_store L)\<lparr>cs_alloc := e\<rparr>, cl_ClientRegistered := True\<rparr>)))"

end
