(* ===== verification/Md5.thy ===== *)
theory Md5
  imports Prelude "HOL-Library.Word"
begin

text \<open>
  The message digest of \<open>upnp/src/uuid/md5.c\<close>, from which the library makes node identifiers and
  name-based UUIDs.

  \<open>UINT4\<close> is \<open>unsigned long int\<close>, whose width is the platform's: every definition is stated over
  \<open>'w word\<close>. \<open>unsigned int\<close> lengths are \<open>nat\<close> with the wrap-around at \<open>2 ^ 32\<close> written out. A read
  or write outside an array is \<open>None\<close>.
\<close>

unbundle bit_operations_syntax

section \<open>The transformation\<close>

type_synonym byte = "8 word"
type_synonym 'w md5_state = "'w word \<times> 'w word \<times> 'w word \<times> 'w word"

definition F :: "'w::len word \<Rightarrow> 'w word \<Rightarrow> 'w word \<Rightarrow> 'w word" where
  "F x y z = (x AND y) OR (NOT x AND z)"

definition G :: "'w::len word \<Rightarrow> 'w word \<Rightarrow> 'w word \<Rightarrow> 'w word" where
  "G x y z = (x AND z) OR (y AND NOT z)"

definition H :: "'w::len word \<Rightarrow> 'w word \<Rightarrow> 'w word \<Rightarrow> 'w word" where
  "H x y z = x XOR y XOR z"

definition I :: "'w::len word \<Rightarrow> 'w word \<Rightarrow> 'w word \<Rightarrow> 'w word" where
  "I x y z = y XOR (x OR NOT z)"

definition ROTATE_LEFT :: "'w::len word \<Rightarrow> nat \<Rightarrow> 'w word" where
  "ROTATE_LEFT x n = push_bit n x OR drop_bit (32 - n) x"

text \<open>
  \<open>FF\<close>, \<open>GG\<close>, \<open>HH\<close> and \<open>II\<close> differ in the function only. Each step names the registers one place
  further round than the one before, so a step hands them on rotated: \<open>(d, a, b, c)\<close>.
\<close>

datatype md5_round = FF | GG | HH | II

primrec round_fun :: "md5_round \<Rightarrow> 'w::len word \<Rightarrow> 'w word \<Rightarrow> 'w word \<Rightarrow> 'w word" where
  "round_fun FF = F" | "round_fun GG = G" | "round_fun HH = H" | "round_fun II = I"

definition md5_step ::
  "'w::len word list \<Rightarrow> 'w md5_state \<Rightarrow> md5_round \<times> nat \<times> nat \<times> 'w word \<Rightarrow> 'w md5_state" where
  "md5_step x st r =
     (case (st, r) of ((a, b, c, d), (f, k, s, ac)) \<Rightarrow>
        (d, ROTATE_LEFT (a + (round_fun f b c d + x ! k + ac)) s + b, b, c))"

definition S11 :: nat where "S11 = 7"
definition S12 :: nat where "S12 = 12"
definition S13 :: nat where "S13 = 17"
definition S14 :: nat where "S14 = 22"
definition S21 :: nat where "S21 = 5"
definition S22 :: nat where "S22 = 9"
definition S23 :: nat where "S23 = 14"
definition S24 :: nat where "S24 = 20"
definition S31 :: nat where "S31 = 4"
definition S32 :: nat where "S32 = 11"
definition S33 :: nat where "S33 = 16"
definition S34 :: nat where "S34 = 23"
definition S41 :: nat where "S41 = 6"
definition S42 :: nat where "S42 = 10"
definition S43 :: nat where "S43 = 15"
definition S44 :: nat where "S44 = 21"

definition md5_rounds :: "(md5_round \<times> nat \<times> nat \<times> 'w::len word) list" where
  "md5_rounds = [
     (FF, 0, S11, 0xd76aa478), (FF, 1, S12, 0xe8c7b756),
     (FF, 2, S13, 0x242070db), (FF, 3, S14, 0xc1bdceee),
     (FF, 4, S11, 0xf57c0faf), (FF, 5, S12, 0x4787c62a),
     (FF, 6, S13, 0xa8304613), (FF, 7, S14, 0xfd469501),
     (FF, 8, S11, 0x698098d8), (FF, 9, S12, 0x8b44f7af),
     (FF, 10, S13, 0xffff5bb1), (FF, 11, S14, 0x895cd7be),
     (FF, 12, S11, 0x6b901122), (FF, 13, S12, 0xfd987193),
     (FF, 14, S13, 0xa679438e), (FF, 15, S14, 0x49b40821),
     (GG, 1, S21, 0xf61e2562), (GG, 6, S22, 0xc040b340),
     (GG, 11, S23, 0x265e5a51), (GG, 0, S24, 0xe9b6c7aa),
     (GG, 5, S21, 0xd62f105d), (GG, 10, S22, 0x2441453),
     (GG, 15, S23, 0xd8a1e681), (GG, 4, S24, 0xe7d3fbc8),
     (GG, 9, S21, 0x21e1cde6), (GG, 14, S22, 0xc33707d6),
     (GG, 3, S23, 0xf4d50d87), (GG, 8, S24, 0x455a14ed),
     (GG, 13, S21, 0xa9e3e905), (GG, 2, S22, 0xfcefa3f8),
     (GG, 7, S23, 0x676f02d9), (GG, 12, S24, 0x8d2a4c8a),
     (HH, 5, S31, 0xfffa3942), (HH, 8, S32, 0x8771f681),
     (HH, 11, S33, 0x6d9d6122), (HH, 14, S34, 0xfde5380c),
     (HH, 1, S31, 0xa4beea44), (HH, 4, S32, 0x4bdecfa9),
     (HH, 7, S33, 0xf6bb4b60), (HH, 10, S34, 0xbebfbc70),
     (HH, 13, S31, 0x289b7ec6), (HH, 0, S32, 0xeaa127fa),
     (HH, 3, S33, 0xd4ef3085), (HH, 6, S34, 0x4881d05),
     (HH, 9, S31, 0xd9d4d039), (HH, 12, S32, 0xe6db99e5),
     (HH, 15, S33, 0x1fa27cf8), (HH, 2, S34, 0xc4ac5665),
     (II, 0, S41, 0xf4292244), (II, 7, S42, 0x432aff97),
     (II, 14, S43, 0xab9423a7), (II, 5, S44, 0xfc93a039),
     (II, 12, S41, 0x655b59c3), (II, 3, S42, 0x8f0ccc92),
     (II, 10, S43, 0xffeff47d), (II, 1, S44, 0x85845dd1),
     (II, 8, S41, 0x6fa87e4f), (II, 15, S42, 0xfe2ce6e0),
     (II, 6, S43, 0xa3014314), (II, 13, S44, 0x4e0811a1),
     (II, 4, S41, 0xf7537e82), (II, 11, S42, 0xbd3af235),
     (II, 2, S43, 0x2ad7d2bb), (II, 9, S44, 0xeb86d391)]"

definition Decode :: "byte list \<Rightarrow> 'w::len word list" where
  "Decode input =
     map (\<lambda>i. push_bit 0 (ucast (input ! (4 * i))) OR push_bit 8 (ucast (input ! (4 * i + 1))) OR
              push_bit 16 (ucast (input ! (4 * i + 2))) OR push_bit 24 (ucast (input ! (4 * i + 3))))
       [0..<List.length input div 4]"

definition Encode :: "'w::len word list \<Rightarrow> byte list" where
  "Encode input =
     concat (map (\<lambda>w. [ucast (drop_bit 0 w AND 0xff), ucast (drop_bit 8 w AND 0xff),
                        ucast (drop_bit 16 w AND 0xff), ucast (drop_bit 24 w AND 0xff)]) input)"

definition MD5Transform :: "'w::len md5_state \<Rightarrow> byte list \<Rightarrow> 'w md5_state" where
  "MD5Transform st block =
     (case (st, foldl (md5_step (Decode block)) st md5_rounds) of
        ((s0, s1, s2, s3), (a, b, c, d)) \<Rightarrow> (s0 + a, s1 + b, s2 + c, s3 + d))"


section \<open>Contexts\<close>

record 'u md5_ctx =
  md_state :: "'u \<times> 'u \<times> 'u \<times> 'u"
  md_count :: "'u \<times> 'u"
  md_buffer :: "byte list"

definition PADDING :: "byte list" where
  "PADDING = 0x80 # replicate 63 0"

definition uint_add :: "nat \<Rightarrow> nat \<Rightarrow> nat" where
  "uint_add a b = (a + b) mod 2 ^ 32"

definition bytes_at :: "byte list \<Rightarrow> nat \<Rightarrow> nat \<Rightarrow> byte list option" where
  "bytes_at input i n = (if i + n \<le> List.length input then Some (take n (drop i input)) else None)"

text \<open>\<open>MD5_memcpy (&output[off], input, len)\<close>.\<close>

definition MD5_memcpy :: "byte list \<Rightarrow> nat \<Rightarrow> byte list \<Rightarrow> nat \<Rightarrow> byte list option" where
  "MD5_memcpy output off input len =
     (if off + len \<le> List.length output
      then map_option (\<lambda>b. take off output @ b @ drop (off + len) output) (bytes_at input 0 len)
      else None)"

definition MD5Init :: "'w::len word md5_ctx \<Rightarrow> 'w word md5_ctx" where
  "MD5Init context =
     context\<lparr>md_count := (0, 0), md_state := (0x67452301, 0xefcdab89, 0x98badcfe, 0x10325476)\<rparr>"

text \<open>The \<open>for\<close> loop of \<open>MD5Update\<close> over the whole blocks of the input.\<close>

partial_function (option) md5_blocks ::
  "'w::len md5_state \<Rightarrow> byte list \<Rightarrow> nat \<Rightarrow> nat \<Rightarrow> ('w md5_state \<times> nat) option" where
  "md5_blocks st input i len =
     (if uint_add i 63 < len then
        Option.bind (bytes_at input i 64) (\<lambda>b. md5_blocks (MD5Transform st b) input (uint_add i 64) len)
      else Some (st, i))"

declare md5_blocks.simps [code]

definition md5_index :: "'w::len word md5_ctx \<Rightarrow> nat" where
  "md5_index context = unat (drop_bit 3 (fst (md_count context)) AND 0x3F)"

text \<open>The bit count, as two words, after \<open>inputLen\<close> more bytes.\<close>

definition md5_add_count :: "'w::len word \<times> 'w word \<Rightarrow> nat \<Rightarrow> 'w word \<times> 'w word" where
  "md5_add_count count inputLen =
     (let shifted = push_bit 3 (of_nat inputLen);
          c0 = fst count + shifted;
          c1 = (if c0 < shifted then snd count + 1 else snd count)
      in (c0, c1 + drop_bit 29 (of_nat inputLen)))"

definition MD5Update :: "'w::len word md5_ctx \<Rightarrow> byte list \<Rightarrow> nat \<Rightarrow> 'w word md5_ctx option" where
  "MD5Update context input inputLen =
     (let index = md5_index context;
          c1 = context\<lparr>md_count := md5_add_count (md_count context) inputLen\<rparr>;
          partLen = 64 - index
      in if partLen \<le> inputLen then
           Option.bind (MD5_memcpy (md_buffer c1) index input partLen) (\<lambda>buffer.
           Option.bind (md5_blocks (MD5Transform (md_state c1) buffer) input partLen inputLen) (\<lambda>(st, i).
           map_option (\<lambda>buffer'. c1\<lparr>md_state := st, md_buffer := buffer'\<rparr>)
             (MD5_memcpy buffer 0 (drop i input) (inputLen - i))))
         else
           map_option (\<lambda>buffer'. c1\<lparr>md_buffer := buffer'\<rparr>)
             (MD5_memcpy (md_buffer c1) index input inputLen))"

definition state_list :: "'w::len md5_state \<Rightarrow> 'w word list" where
  "state_list st = (case st of (a, b, c, d) \<Rightarrow> [a, b, c, d])"

text \<open>The digest, and the context, which is zeroized.\<close>

definition MD5Final :: "'w::len word md5_ctx \<Rightarrow> (byte list \<times> 'w word md5_ctx) option" where
  "MD5Final context =
     (let bits = Encode [fst (md_count context), snd (md_count context)];
          index = md5_index context;
          padLen = (if index < 56 then 56 - index else 120 - index)
      in Option.bind (MD5Update context PADDING padLen) (\<lambda>c1.
         map_option
           (\<lambda>c2. (Encode (state_list (md_state c2)),
                  c2\<lparr>md_state := (0, 0, 0, 0), md_count := (0, 0),
                     md_buffer := map (\<lambda>_. 0) (md_buffer c2)\<rparr>))
           (MD5Update c1 bits 8)))"




section \<open>The digest of a message\<close>

text \<open>
  The reference: all whole blocks of the padded message, one after another. Its padding is
  \<open>MD5Final\<close>'s, its length field the 64-bit count of bits, lower word first.
\<close>

definition md5_iv :: "'w::len md5_state" where
  "md5_iv = (0x67452301, 0xefcdab89, 0x98badcfe, 0x10325476)"

function md5_fold :: "'w::len md5_state \<Rightarrow> byte list \<Rightarrow> 'w md5_state" where
  "md5_fold st bs =
     (if List.length bs < 64 then st else md5_fold (MD5Transform st (take 64 bs)) (drop 64 bs))"
  by pat_completeness auto
termination by (relation "measure (\<lambda>(st, bs). List.length bs)") auto

declare md5_fold.simps [simp del]

definition md5_pad :: "'w::len itself \<Rightarrow> byte list \<Rightarrow> byte list" where
  "md5_pad w m =
     (let index = List.length m mod 64
      in take (if index < 56 then 56 - index else 120 - index) PADDING @
         Encode [of_nat (8 * List.length m) :: 'w word, 0])"

definition md5_reference :: "'w::len itself \<Rightarrow> byte list \<Rightarrow> byte list" where
  "md5_reference w m = Encode (state_list (md5_fold (md5_iv :: 'w md5_state) (m @ md5_pad w m)))"

text \<open>The code: initialise, update with each piece, finish.\<close>

fun md5_updates :: "'w::len word md5_ctx \<Rightarrow> byte list list \<Rightarrow> 'w word md5_ctx option" where
  "md5_updates c [] = Some c"
| "md5_updates c (x # xs) = Option.bind (MD5Update c x (List.length x)) (\<lambda>c'. md5_updates c' xs)"

definition md5_digest :: "'w::len word md5_ctx \<Rightarrow> byte list list \<Rightarrow> byte list option" where
  "md5_digest c pieces = Option.bind (md5_updates (MD5Init c) pieces) (\<lambda>c'. map_option fst (MD5Final c'))"


section \<open>Lengths, counts and blocks\<close>

lemma length_PADDING [simp]: "List.length PADDING = 64"
  by (simp add: PADDING_def)

lemma length_Encode [simp]: "List.length (Encode ws) = 4 * List.length ws"
  by (induction ws) (simp_all add: Encode_def)

lemma unat_of_small:
  assumes "32 \<le> LENGTH('w::len)" and "n < 2 ^ 32"
  shows "unat (of_nat n :: 'w word) = n"
proof -
  have "(2 :: nat) ^ 32 \<le> 2 ^ LENGTH('w)" using assms(1) by (intro power_increasing) auto
  then show ?thesis using assms(2) by (simp add: unat_of_nat)
qed

lemma md5_add_count_small:
  assumes w: "32 \<le> LENGTH('w::len)" and n: "l + n < 2 ^ 29"
  shows "md5_add_count (of_nat (8 * l) :: 'w word, 0) n = (of_nat (8 * (l + n)), 0)"
proof -
  have sh: "push_bit 3 (of_nat n :: 'w word) = of_nat (8 * n)" by (simp add: push_bit_eq_mult)
  have sum: "of_nat (8 * l) + of_nat (8 * n) = (of_nat (8 * (l + n)) :: 'w word)" by (simp add: distrib_left)
  have u: "unat (of_nat (8 * (l + n)) :: 'w word) = 8 * (l + n)" "unat (of_nat (8 * n) :: 'w word) = 8 * n"
    "unat (of_nat n :: 'w word) = n"
    using n by (intro unat_of_small [OF w]; simp)+
  have "\<not> (of_nat (8 * (l + n)) :: 'w word) < of_nat (8 * n)" using u by (simp add: word_less_nat_alt del: of_nat_mult of_nat_add)
  moreover have "drop_bit 29 (of_nat n :: 'w word) = 0"
  proof -
    have "unat (drop_bit 29 (of_nat n :: 'w word)) = 0" using n unfolding unat_drop_bit_eq u(3) by (simp add: drop_bit_eq_div)
    then show ?thesis by (simp only: unat_0_iff)
  qed
  ultimately show ?thesis unfolding md5_add_count_def Let_def fst_conv snd_conv sh sum by simp
qed

lemma md5_index_small:
  assumes w: "32 \<le> LENGTH('w::len)" and l: "l < 2 ^ 29"
    and c: "md_count (c :: 'w word md5_ctx) = (of_nat (8 * l), 0)"
  shows "md5_index c = l mod 64"
proof -
  have u: "unat (of_nat (8 * l) :: 'w word) = 8 * l" using l by (intro unat_of_small [OF w]) simp
  have "(0x3F :: 'w word) = mask 6" by (simp add: mask_eq_exp_minus_1)
  then have "md5_index c = unat (take_bit 6 (drop_bit 3 (of_nat (8 * l) :: 'w word)))"
    using c by (simp add: md5_index_def take_bit_eq_mask)
  also have "\<dots> = l mod 64"
    unfolding unsigned_take_bit_eq unat_drop_bit_eq u by (simp add: take_bit_eq_mod drop_bit_eq_div)
  finally show ?thesis .
qed

lemma md5_fold_short: "List.length bs < 64 \<Longrightarrow> md5_fold st bs = st"
  by (simp add: md5_fold.simps)

lemma md5_fold_append:
  "md5_fold st (a @ b) = md5_fold (md5_fold st a) (drop (64 * (List.length a div 64)) a @ b)"
proof (induction st a rule: md5_fold.induct)
  case (1 st a)
  show ?case
  proof (cases "List.length a < 64")
    case True
    then show ?thesis by (simp add: md5_fold_short)
  next
    case False
    have "List.length (drop 64 a) div 64 = List.length a div 64 - 1" "0 < List.length a div 64"
      using False by (simp_all add: le_div_geq)
    then have d: "drop (64 * (List.length (drop 64 a) div 64)) (drop 64 a) = drop (64 * (List.length a div 64)) a"
      by (simp add: algebra_simps)
    have "md5_fold st (a @ b) = md5_fold (MD5Transform st (take 64 a)) (drop 64 a @ b)"
      using False by (simp add: md5_fold.simps [of st "a @ b"])
    also have "\<dots> = md5_fold (md5_fold (MD5Transform st (take 64 a)) (drop 64 a)) (drop (64 * (List.length a div 64)) a @ b)"
      using 1 [OF False] unfolding d .
    finally show ?thesis using False by (simp add: md5_fold.simps [of st a])
  qed
qed

lemma md5_blocks_fold:
  assumes "i \<le> n" and "n \<le> List.length input" and "n < 2 ^ 32 - 64"
  shows "md5_blocks st input i n = Some (md5_fold st (take (n - i) (drop i input)), n - (n - i) mod 64)"
  using assms
proof (induction "n - i" arbitrary: st i rule: less_induct)
  case less
  have add: "uint_add i 63 = i + 63" "uint_add i 64 = i + 64" using less.prems by (simp_all add: uint_add_def)
  show ?case
  proof (cases "i + 63 < n")
    case False
    then have "List.length (take (n - i) (drop i input)) < 64" "(n - i) mod 64 = n - i" using less.prems by simp_all
    then show ?thesis using False less.prems add by (simp add: md5_blocks.simps [of st input i n] md5_fold_short)
  next
    case True
    have b: "bytes_at input i 64 = Some (take 64 (drop i input))" using True less.prems by (simp add: bytes_at_def)
    have m: "(n - (i + 64)) mod 64 = (n - i) mod 64"
      using True le_mod_geq [of 64 "n - i"] by simp
    have "md5_blocks st input i n = md5_blocks (MD5Transform st (take 64 (drop i input))) input (i + 64) n"
      using True add b by (simp add: md5_blocks.simps [of st input i n])
    also have "\<dots> = Some (md5_fold (MD5Transform st (take 64 (drop i input))) (take (n - (i + 64)) (drop (i + 64) input)),
        n - (n - (i + 64)) mod 64)"
      by (rule less.hyps) (use True less.prems in auto)
    moreover have "md5_fold st (take (n - i) (drop i input)) =
        md5_fold (MD5Transform st (take 64 (drop i input))) (take (n - (i + 64)) (drop (i + 64) input))"
    proof -
      have l: "\<not> List.length (take (n - i) (drop i input)) < 64" using True less.prems by simp
      have t: "take 64 (take (n - i) (drop i input)) = take 64 (drop i input)" using True by (simp add: min_def)
      have d: "drop 64 (take (n - i) (drop i input)) = take (n - (i + 64)) (drop (i + 64) input)"
        by (simp add: drop_take add.commute)
      show ?thesis unfolding md5_fold.simps [of st "take (n - i) (drop i input)"] t d using l by simp
    qed
    ultimately show ?thesis using m by simp
  qed
qed


section \<open>A context represents the message read so far\<close>

definition represents :: "'w::len word md5_ctx \<Rightarrow> byte list \<Rightarrow> bool" where
  "represents c m \<longleftrightarrow>
     List.length (md_buffer c) = 64 \<and> md_state c = md5_fold md5_iv m \<and>
     md_count c = (of_nat (8 * List.length m), 0) \<and>
     take (List.length m mod 64) (md_buffer c) = drop (64 * (List.length m div 64)) m"

lemma represents_MD5Init:
  "List.length (md_buffer c) = 64 \<Longrightarrow> represents (MD5Init c) []"
  by (simp add: represents_def MD5Init_def md5_iv_def md5_fold_short)

lemma MD5_memcpy_Some:
  "off + n \<le> List.length output \<Longrightarrow> n \<le> List.length input \<Longrightarrow>
   MD5_memcpy output off input n = Some (take off output @ take n input @ drop (off + n) output)"
  by (simp add: MD5_memcpy_def bytes_at_def)

lemma md5_fold_full:
  "List.length b = 64 \<Longrightarrow> md5_fold st (b @ rest) = md5_fold (MD5Transform st b) rest"
  by (simp add: md5_fold.simps [of st "b @ rest"])

lemma MD5Update_represents:
  assumes w: "32 \<le> LENGTH('w::len)" and r: "represents (c :: 'w word md5_ctx) m"
    and n: "n \<le> List.length input" and b: "List.length m + n < 2 ^ 29"
  shows "\<exists>c'. MD5Update c input n = Some c' \<and> represents c' (m @ take n input)"
proof -
  define l where "l = List.length m"
  define rest where "rest = drop (64 * (l div 64)) m"
  define cnt where "cnt = (of_nat (8 * (l + n)) :: 'w word, 0 :: 'w word)"
  have buf: "List.length (md_buffer c) = 64" and st: "md_state c = md5_fold md5_iv m"
    and count: "md_count c = (of_nat (8 * l), 0)" and pre: "take (l mod 64) (md_buffer c) = rest"
    using r by (simp_all add: represents_def l_def rest_def)
  have b': "l + n < 2 ^ 29" using b by (simp add: l_def)
  have ix: "md5_index c = l mod 64" by (rule md5_index_small [OF w _ count]) (use b' in simp)
  have cc: "md5_add_count (md_count c) n = cnt"
    unfolding count cnt_def by (rule md5_add_count_small [OF w b'])
  have rl: "List.length rest = l mod 64" by (simp add: rest_def l_def minus_mult_div_eq_mod)
  have len: "List.length (m @ take n input) = l + n" using n by (simp add: l_def)
  have fold: "md5_fold md5_iv (m @ take n input) = md5_fold (md_state c) (rest @ take n input)"
    unfolding st rest_def l_def by (rule md5_fold_append)
  show ?thesis
  proof (cases "64 - l mod 64 \<le> n")
    case False
    then have short: "l mod 64 + n < 64" by linarith
    have dm: "(l + n) mod 64 = l mod 64 + n" "(l + n) div 64 = l div 64"
    proof -
      have e: "l + n = (l mod 64 + n) + 64 * (l div 64)" by simp
      show "(l + n) mod 64 = l mod 64 + n" by (subst e) (use short in \<open>simp only: mod_mult_self2 mod_less\<close>)
      show "(l + n) div 64 = l div 64" by (subst e) (use short in \<open>simp only: div_mult_self2 div_less\<close>; simp)
    qed
    have cpy: "MD5_memcpy (md_buffer c) (l mod 64) input n =
        Some (rest @ take n input @ drop (l mod 64 + n) (md_buffer c))"
      using MD5_memcpy_Some [of "l mod 64" n "md_buffer c" input] short buf n pre by simp
    have "represents (c\<lparr>md_count := cnt, md_buffer := rest @ take n input @ drop (l mod 64 + n) (md_buffer c)\<rparr>)
        (m @ take n input)"
      unfolding represents_def len dm using buf rl short n fold
      by (simp add: cnt_def md5_fold_short rest_def l_def)
    moreover have "MD5Update c input n =
        Some (c\<lparr>md_count := cnt, md_buffer := rest @ take n input @ drop (l mod 64 + n) (md_buffer c)\<rparr>)"
      using False by (simp add: MD5Update_def ix cc cpy)
    ultimately show ?thesis by blast
  next
    case True
    define part where "part = 64 - l mod 64"
    define k where "k = (l + n) mod 64"
    define i where "i = n - k"
    define blk where "blk = rest @ take part input"
    have p: "part \<le> n" "l mod 64 + part = 64" using True by (simp_all add: part_def)
    have km: "(n - part) mod 64 = k"
    proof -
      have "l + n = 64 * (l div 64 + 1) + (n - part)" 
      proof -
        have "\<And>d r :: nat. 64 * d + r = l \<Longrightarrow> r + part = 64 \<Longrightarrow> l + n = 64 * (d + 1) + (n - part)"
          using p(1) by simp
        then show ?thesis using p(2) mult_div_mod_eq [of 64 l] by blast
      qed
      then show ?thesis unfolding k_def by (metis mod_mult_self4)
    qed
    have k64: "k < 64" and lm: "List.length m = l" by (simp_all add: k_def l_def)
    have kn: "k \<le> n - part" using km mod_less_eq_dividend by metis
    have q: "64 * ((l + n) div 64) = l + i"
    proof -
      have "64 * ((l + n) div 64) + k = l + n" unfolding k_def by (rule mult_div_mod_eq)
      then show ?thesis using kn by (simp add: i_def)
    qed
    have cpy: "MD5_memcpy (md_buffer c) (l mod 64) input part = Some blk"
      using MD5_memcpy_Some [of "l mod 64" part "md_buffer c" input] p buf n pre by (simp add: blk_def)
    have bl: "List.length blk = 64" using p n rl by (simp add: blk_def)
    define st' where "st' = md5_fold (MD5Transform (md_state c) blk) (take (n - part) (drop part input))"
    have blocks: "md5_blocks (MD5Transform (md_state c) blk) input part n = Some (st', i)"
      using md5_blocks_fold [of part n input "MD5Transform (md_state c) blk"] p n b' km by (simp add: st'_def i_def)
    have tail: "MD5_memcpy blk 0 (drop i input) (n - i) =
        Some (drop i (take n input) @ drop k blk)"
      using MD5_memcpy_Some [of 0 "n - i" blk "drop i input"] n kn bl
      by (simp add: i_def k_def drop_take)
    have "rest @ take n input = blk @ take (n - part) (drop part input)"
      using take_add [of part "n - part" input] p by (simp add: blk_def)
    then have stn: "md5_fold md5_iv (m @ take n input) = st'"
      using fold md5_fold_full [OF bl] by (simp add: st'_def)
    have "represents (c\<lparr>md_count := cnt, md_state := st', md_buffer := drop i (take n input) @ drop k blk\<rparr>)
        (m @ take n input)"
      unfolding represents_def len q stn k_def [symmetric] using n kn bl k64 lm by (simp add: cnt_def i_def)
    moreover have "MD5Update c input n =
        Some (c\<lparr>md_count := cnt, md_state := st', md_buffer := drop i (take n input) @ drop k blk\<rparr>)"
      using True by (simp add: MD5Update_def ix cc cpy blocks tail flip: part_def)
    ultimately show ?thesis by blast
  qed
qed

lemma md5_updates_represents:
  assumes w: "32 \<le> LENGTH('w::len)" and "represents (c :: 'w word md5_ctx) m"
    and "List.length m + List.length (concat pieces) < 2 ^ 29"
  shows "\<exists>c'. md5_updates c pieces = Some c' \<and> represents c' (m @ concat pieces)"
  using assms(2-)
proof (induction pieces arbitrary: c m)
  case (Cons x xs)
  obtain c1 where "MD5Update c x (List.length x) = Some c1" "represents c1 (m @ x)"
    using MD5Update_represents [OF w Cons.prems(1), of "List.length x" x] Cons.prems(2) by auto
  then show ?case using Cons.IH [of c1 "m @ x"] Cons.prems(2) by simp
qed simp

lemma MD5Final_represents:
  assumes w: "32 \<le> LENGTH('w::len)" and r: "represents (c :: 'w word md5_ctx) m"
    and b: "List.length m + 72 < 2 ^ 29"
  shows "\<exists>c'. MD5Final c = Some (md5_reference TYPE('w) m, c')"
proof -
  define ix where "ix = List.length m mod 64"
  define padLen where "padLen = (if ix < 56 then 56 - ix else 120 - ix)"
  define bits where "bits = Encode [of_nat (8 * List.length m) :: 'w word, 0]"
  have count: "md_count c = (of_nat (8 * List.length m), 0)" using r by (simp add: represents_def)
  have index: "md5_index c = ix" unfolding ix_def by (rule md5_index_small [OF w _ count]) (use b in simp)
  have pl: "padLen \<le> 64" unfolding padLen_def by (simp split: if_split, linarith)
  obtain c1 where c1: "MD5Update c PADDING padLen = Some c1" "represents c1 (m @ take padLen PADDING)"
    using MD5Update_represents [OF w r, of padLen PADDING] b pl by auto
  obtain c2 where c2: "MD5Update c1 bits 8 = Some c2" "represents c2 ((m @ take padLen PADDING) @ take 8 bits)"
    using MD5Update_represents [OF w c1(2), of 8 bits] b pl by (auto simp: bits_def)
  have "(m @ take padLen PADDING) @ take 8 bits = m @ md5_pad TYPE('w) m"
    by (simp add: md5_pad_def padLen_def bits_def ix_def Let_def)
  then have "md_state c2 = md5_fold md5_iv (m @ md5_pad TYPE('w) m)" using c2(2) by (simp add: represents_def)
  then show ?thesis
    using c1(1) c2(1) count index by (simp add: MD5Final_def md5_reference_def bits_def padLen_def Let_def)
qed

lemma md5_streaming_reference:
  assumes "32 \<le> LENGTH('w::len)" and "List.length (md_buffer (c :: 'w word md5_ctx)) = 64"
    and "List.length (concat pieces) + 72 < 2 ^ 29"
  shows "md5_digest c pieces = Some (md5_reference TYPE('w) (concat pieces))"
proof -
  obtain c1 where c1: "md5_updates (MD5Init c) pieces = Some c1" "represents c1 (concat pieces)"
    using md5_updates_represents [OF assms(1) represents_MD5Init [OF assms(2)], of pieces] assms(3) by auto
  then show ?thesis using MD5Final_represents [OF assms(1) c1(2) assms(3)] by (auto simp: md5_digest_def)
qed


section \<open>Properties\<close>

text \<open>C31. However a message is cut into pieces, initialising a context, updating it with each piece and
  finishing it never reads or writes outside an array and gives the digest of the whole message: all
  blocks of the padded message, one after another. The bound is where the bit count stays in its
  lower word for every width \<open>UINT4\<close> can have.\<close>

theorem md5_streaming:
  assumes "32 \<le> LENGTH('w::len)" and "List.length (md_buffer (c :: 'w word md5_ctx)) = 64"
    and "List.length (concat pieces) + 72 < 2 ^ 29"
  shows "md5_digest c pieces = Some (md5_reference TYPE('w) (concat pieces))"
  by (rule md5_streaming_reference [OF assms])

lemma md5_reference_abc:
  "md5_reference TYPE(32) [0x61, 0x62, 0x63] =
     [0x90, 0x01, 0x50, 0x98, 0x3C, 0xD2, 0x4F, 0xB0, 0xD6, 0x96, 0x3F, 0x7D, 0x28, 0xE1, 0x7F, 0x72]"
  by code_simp

theorem md5_streaming_witness:
  "md5_digest (\<lparr>md_state = (0, 0, 0, 0), md_count = (0, 0), md_buffer = replicate 64 0\<rparr> :: 32 word md5_ctx)
     [[0x61], [], [0x62, 0x63]] =
   Some [0x90, 0x01, 0x50, 0x98, 0x3C, 0xD2, 0x4F, 0xB0, 0xD6, 0x96, 0x3F, 0x7D, 0x28, 0xE1, 0x7F, 0x72]"
  using md5_streaming [of "\<lparr>md_state = (0, 0, 0, 0), md_count = (0, 0), md_buffer = replicate 64 0\<rparr> :: 32 word md5_ctx"
      "[[0x61], [], [0x62, 0x63]]"] md5_reference_abc
  by simp

text \<open>
  That is RFC 1321's digest of \<open>abc\<close>. Where \<open>unsigned long\<close> has 64 bits the rotations keep the high
  bits that a 32-bit word drops, and the digest is another one.
\<close>

lemma md5_64_bit_differs:
  assumes "List.length (md_buffer (c :: 64 word md5_ctx)) = 64"
  shows "md5_digest c [[0x61, 0x62, 0x63]] \<noteq>
    Some [0x90, 0x01, 0x50, 0x98, 0x3C, 0xD2, 0x4F, 0xB0, 0xD6, 0x96, 0x3F, 0x7D, 0x28, 0xE1, 0x7F, 0x72]"
proof -
  have "md5_reference TYPE(64) [0x61, 0x62, 0x63] \<noteq>
      [0x90, 0x01, 0x50, 0x98, 0x3C, 0xD2, 0x4F, 0xB0, 0xD6, 0x96, 0x3F, 0x7D, 0x28, 0xE1, 0x7F, 0x72]"
    by code_simp
  then show ?thesis using assms md5_streaming_reference [of c "[[0x61, 0x62, 0x63]]"] by simp
qed

end
