(* ===== verification/Uuid.thy ===== *)
theory Uuid
  imports Md5
begin

text \<open>
  The UUID generator of \<open>upnp/src/uuid/uuid.c\<close> with the system calls of \<open>sysdep.c\<close> it is made of.

  The static variables of the functions are one record, \<open>uuid_statics\<close>; \<open>UUIDLock\<close> makes a call of
  \<open>uuid_create\<close> one step on it. What the operating system answers is another, \<open>os\<close>: the readings
  \<open>gettimeofday\<close> will give, the numbers \<open>rand\<close> will give and the bytes \<open>gethostname\<close> stores. A call
  that runs out of readings is \<open>None\<close>: it is still spinning. \<open>long\<close> has 64 bits, and the two fields of
  \<open>struct timeval\<close> are stored with the lower byte first.
\<close>

unbundle bit_operations_syntax

section \<open>Data\<close>

record uuid_upnp =
  time_low :: "32 word"
  time_mid :: "16 word"
  time_hi_and_version :: "16 word"
  clock_seq_hi_and_reserved :: "8 word"
  clock_seq_low :: "8 word"
  uuid_node :: "byte list"

definition UUIDS_PER_TICK :: "16 word" where
  "UUIDS_PER_TICK = 1024"

record os =
  os_clock :: "(64 word \<times> 64 word) list"
  os_rand :: "32 word list"
  os_hostname :: "byte list"
  os_srand :: "32 word option"

record uuid_statics =
  time_last :: "64 word"
  uuids_this_tick :: "16 word"
  tick_inited :: bool
  st_ts :: "64 word"
  st_node :: "byte list"
  st_cs :: "16 word"
  stateInited :: bool
  next_save :: "64 word"
  node_inited :: bool
  saved_node :: "byte list"
  rand_inited :: bool

definition uuid_statics_init :: uuid_statics where
  "uuid_statics_init = \<lparr>time_last = 0, uuids_this_tick = 0, tick_inited = False, st_ts = 0,
     st_node = replicate 6 0, st_cs = 0, stateInited = False, next_save = 0, node_inited = False,
     saved_node = replicate 6 0, rand_inited = False\<rparr>"


section \<open>System calls\<close>

fun gettimeofday :: "os \<Rightarrow> ((64 word \<times> 64 word) \<times> os) option" where
  "gettimeofday os = (case os_clock os of [] \<Rightarrow> None | t # ts \<Rightarrow> Some (t, os\<lparr>os_clock := ts\<rparr>))"

fun system_time :: "64 word \<times> 64 word \<Rightarrow> 64 word" where
  "system_time (tv_sec, tv_usec) = tv_sec * 10000000 + tv_usec * 10 + 0x01B21DD213814000"

definition get_system_time :: "os \<Rightarrow> (64 word \<times> os) option" where
  "get_system_time os = map_option (\<lambda>(tp, os'). (system_time tp, os')) (gettimeofday os)"

definition long_bytes :: "64 word \<Rightarrow> byte list" where
  "long_bytes w = map (\<lambda>i. ucast (drop_bit (8 * i) w)) [0..<8]"

text \<open>\<open>struct timeval\<close>, \<open>char hostname[257]\<close> and the padding to a multiple of eight, zeroed first.\<close>

definition randomness_bytes :: "64 word \<times> 64 word \<Rightarrow> byte list \<Rightarrow> byte list" where
  "randomness_bytes t hostname =
     long_bytes (fst t) @ long_bytes (snd t) @ take 256 (hostname @ replicate 256 0) @ replicate 8 0"

definition get_random_info :: "'w::len word md5_ctx \<Rightarrow> os \<Rightarrow> (byte list \<times> os) option" where
  "get_random_info c os =
     Option.bind (gettimeofday os) (\<lambda>(t, os').
     Option.bind (MD5Update (MD5Init c) (randomness_bytes t (os_hostname os)) 280) (\<lambda>c1.
     map_option (\<lambda>(seed, _). (seed, os')) (MD5Final c1)))"

definition get_ieee_node_identifier ::
  "'w::len word md5_ctx \<Rightarrow> os \<Rightarrow> uuid_statics \<Rightarrow> (byte list \<times> os \<times> uuid_statics) option" where
  "get_ieee_node_identifier c os s =
     (if node_inited s then Some (saved_node s, os, s)
      else map_option
        (\<lambda>(seed, os').
           let seed' = seed[0 := seed ! 0 OR 0x80];
               s' = s\<lparr>saved_node := take 6 seed', node_inited := True\<rparr>
           in (saved_node s', os', s'))
        (get_random_info c os))"


section \<open>The generator\<close>

text \<open>The loop of \<open>get_current_time\<close>: the reading it ends with and the new count.\<close>

fun current_time_loop ::
  "64 word \<Rightarrow> 16 word \<Rightarrow> (64 word \<times> 64 word) list \<Rightarrow> (64 word \<times> 16 word \<times> (64 word \<times> 64 word) list) option" where
  "current_time_loop tlast ticks [] = None"
| "current_time_loop tlast ticks (r # rs) =
     (let time_now = system_time r
      in if tlast \<noteq> time_now then Some (time_now, 0, rs)
         else if ticks < UUIDS_PER_TICK then Some (time_now, ticks + 1, rs)
         else current_time_loop tlast ticks rs)"

definition get_current_time :: "os \<Rightarrow> uuid_statics \<Rightarrow> (64 word \<times> os \<times> uuid_statics) option" where
  "get_current_time os s =
     (let s1 = (if tick_inited s then s else s\<lparr>uuids_this_tick := UUIDS_PER_TICK, tick_inited := True\<rparr>)
      in map_option
        (\<lambda>(time_now, ticks, rs).
           let timestamp = time_now + ucast ticks
           in (timestamp, os\<lparr>os_clock := rs\<rparr>, s1\<lparr>uuids_this_tick := ticks, time_last := timestamp\<rparr>))
        (current_time_loop (time_last s1) (uuids_this_tick s1) (os_clock os)))"

definition true_random :: "os \<Rightarrow> uuid_statics \<Rightarrow> (16 word \<times> os \<times> uuid_statics) option" where
  "true_random os s =
     Option.bind
       (if rand_inited s then Some (os, s)
        else map_option
          (\<lambda>(now, os').
             let time_now = now div ucast UUIDS_PER_TICK
             in (os'\<lparr>os_srand := Some (ucast ((drop_bit 32 time_now XOR time_now) AND 0xffffffff))\<rparr>,
                 s\<lparr>rand_inited := True\<rparr>))
          (get_system_time os))
       (\<lambda>(os1, s1). case os_rand os1 of
            [] \<Rightarrow> None
          | x # xs \<Rightarrow> Some (ucast x, os1\<lparr>os_rand := xs\<rparr>, s1))"

definition read_state :: "uuid_statics \<Rightarrow> (16 word \<times> 64 word \<times> byte list) option" where
  "read_state s = (if stateInited s then Some (st_cs s, st_ts s, st_node s) else None)"

definition write_state :: "16 word \<Rightarrow> 64 word \<Rightarrow> byte list \<Rightarrow> uuid_statics \<Rightarrow> uuid_statics" where
  "write_state clockseq timestamp node s =
     (let s1 = (if stateInited s then s else s\<lparr>next_save := timestamp, stateInited := True\<rparr>);
          s2 = s1\<lparr>st_cs := clockseq, st_ts := timestamp, st_node := node\<rparr>
      in if next_save s2 \<le> timestamp then s2\<lparr>next_save := timestamp + 10 * 10 * 1000 * 1000\<rparr> else s2)"

definition format_uuid_v1 :: "16 word \<Rightarrow> 64 word \<Rightarrow> byte list \<Rightarrow> uuid_upnp" where
  "format_uuid_v1 clock_seq timestamp node =
     \<lparr>time_low = ucast (timestamp AND 0xFFFFFFFF),
      time_mid = ucast (drop_bit 32 timestamp AND 0xFFFF),
      time_hi_and_version = ucast (drop_bit 48 timestamp AND 0x0FFF) OR push_bit 12 1,
      clock_seq_hi_and_reserved = ucast (drop_bit 8 (clock_seq AND 0x3F00)) OR 0x80,
      clock_seq_low = ucast (clock_seq AND 0xFF),
      uuid_node = node\<rparr>"

definition uuid_create ::
  "'w::len word md5_ctx \<Rightarrow> os \<Rightarrow> uuid_statics \<Rightarrow> (uuid_upnp \<times> os \<times> uuid_statics) option" where
  "uuid_create c os s =
     Option.bind (get_current_time os s) (\<lambda>(timestamp, os1, s1).
     Option.bind (get_ieee_node_identifier c os1 s1) (\<lambda>(node, os2, s2).
     Option.bind
       (case read_state s2 of
          None \<Rightarrow> true_random os2 s2
        | Some (clockseq, last_time, last_node) \<Rightarrow>
            if node \<noteq> last_node then true_random os2 s2
            else Some (if timestamp < last_time then clockseq + 1 else clockseq, os2, s2))
       (\<lambda>(clockseq, os3, s3).
          Some (format_uuid_v1 clockseq timestamp node, os3, write_state clockseq timestamp node s3))))"

text \<open>The UUIDs of the first \<open>n\<close> calls.\<close>

primrec uuid_creates ::
  "'w::len word md5_ctx \<Rightarrow> nat \<Rightarrow> os \<Rightarrow> uuid_statics \<Rightarrow> (uuid_upnp list \<times> os \<times> uuid_statics) option" where
  "uuid_creates c 0 os s = Some ([], os, s)"
| "uuid_creates c (Suc n) os s =
     Option.bind (uuid_create c os s) (\<lambda>(u, os1, s1).
     map_option (\<lambda>(us, r). (u # us, r)) (uuid_creates c n os1 s1))"


section \<open>Names, comparison and printing\<close>

definition be_bytes :: "nat \<Rightarrow> 'w::len word \<Rightarrow> byte list" where
  "be_bytes n w = map (\<lambda>i. ucast (drop_bit (8 * (n - 1 - i)) w)) [0..<n]"

definition be_word :: "byte list \<Rightarrow> 'w::len word" where
  "be_word bs = foldl (\<lambda>w b. push_bit 8 w OR ucast b) 0 bs"

text \<open>The sixteen bytes of \<open>net_nsid\<close> once \<open>htonl\<close> and \<open>htons\<close> have put its fields in network order.\<close>

definition net_bytes :: "uuid_upnp \<Rightarrow> byte list" where
  "net_bytes u = be_bytes 4 (time_low u) @ be_bytes 2 (time_mid u) @ be_bytes 2 (time_hi_and_version u) @
     [clock_seq_hi_and_reserved u, clock_seq_low u] @ uuid_node u"

definition format_uuid_v3 :: "byte list \<Rightarrow> uuid_upnp" where
  "format_uuid_v3 hash =
     \<lparr>time_low = be_word (take 4 hash),
      time_mid = be_word (take 2 (drop 4 hash)),
      time_hi_and_version = (be_word (take 2 (drop 6 hash)) AND 0x0FFF) OR push_bit 12 3,
      clock_seq_hi_and_reserved = (hash ! 8 AND 0x3F) OR 0x80,
      clock_seq_low = hash ! 9,
      uuid_node = take 6 (drop 10 hash)\<rparr>"

definition uuid_create_from_name ::
  "'w::len word md5_ctx \<Rightarrow> uuid_upnp \<Rightarrow> byte list \<Rightarrow> 32 word \<Rightarrow> uuid_upnp option" where
  "uuid_create_from_name c nsid name namelen =
     Option.bind (MD5Update (MD5Init c) (net_bytes nsid) 16) (\<lambda>c1.
     Option.bind (MD5Update c1 name (unat namelen)) (\<lambda>c2.
     map_option (\<lambda>(hash, _). format_uuid_v3 hash) (MD5Final c2)))"

definition CHECK :: "'w::len word \<Rightarrow> 'w word \<Rightarrow> int \<Rightarrow> int" where
  "CHECK f1 f2 k = (if f1 \<noteq> f2 then if f1 < f2 then -1 else 1 else k)"

fun compare_nodes :: "byte list \<Rightarrow> byte list \<Rightarrow> int" where
  "compare_nodes (x # xs) (y # ys) = (if x < y then -1 else if y < x then 1 else compare_nodes xs ys)"
| "compare_nodes _ _ = 0"

definition uuid_compare :: "uuid_upnp \<Rightarrow> uuid_upnp \<Rightarrow> int" where
  "uuid_compare u1 u2 =
     CHECK (time_low u1) (time_low u2)
    (CHECK (time_mid u1) (time_mid u2)
    (CHECK (time_hi_and_version u1) (time_hi_and_version u2)
    (CHECK (clock_seq_hi_and_reserved u1) (clock_seq_hi_and_reserved u2)
    (CHECK (clock_seq_low u1) (clock_seq_low u2)
    (compare_nodes (take 6 (uuid_node u1)) (take 6 (uuid_node u2)))))))"

definition hex_chars :: string where
  "hex_chars = ''0123456789abcdef''"

text \<open>\<open>%n.nx\<close> of a number of at most \<open>n\<close> digits.\<close>

definition print_hex :: "nat \<Rightarrow> 'w::len word \<Rightarrow> string" where
  "print_hex n w = map (\<lambda>i. hex_chars ! unat (drop_bit (4 * (n - 1 - i)) w AND 0xF)) [0..<n]"

definition uuid_unpack :: "uuid_upnp \<Rightarrow> string" where
  "uuid_unpack u =
     print_hex 8 (time_low u) @ ''-'' @ print_hex 4 (time_mid u) @ ''-'' @
     print_hex 4 (time_hi_and_version u) @ ''-'' @ print_hex 2 (clock_seq_hi_and_reserved u) @
     print_hex 2 (clock_seq_low u) @ ''-'' @ concat (map (print_hex 2) (take 6 (uuid_node u)))"


section \<open>Timestamps\<close>

definition clock_ok :: "os \<Rightarrow> bool" where
  "clock_ok os \<longleftrightarrow> (\<forall>p \<in> set (os_clock os). unat (system_time p) + 1024 < 2 ^ 60)"

definition running :: "uuid_statics \<Rightarrow> byte list \<Rightarrow> bool" where
  "running s nd \<longleftrightarrow> stateInited s \<and> node_inited s \<and> saved_node s = nd \<and> st_node s = nd \<and> st_ts s = time_last s"

lemma current_time_loop_result:
  assumes "current_time_loop tlast ticks rs = Some (now, ticks', rs')"
  shows "(\<exists>r \<in> set rs. now = system_time r) \<and> set rs' \<subseteq> set rs \<and> ticks' \<le> 1024 \<and>
     (now \<noteq> tlast \<and> ticks' = 0 \<or> now = tlast \<and> ticks' \<noteq> 0)"
  using assms
proof (induction tlast ticks rs rule: current_time_loop.induct)
  case (2 tlast ticks r rs)
  show ?case
  proof (cases "tlast \<noteq> system_time r \<or> ticks < UUIDS_PER_TICK")
    case True
    have "ticks < 1024 \<Longrightarrow> ticks + 1 \<le> 1024 \<and> ticks + 1 \<noteq> 0"
      by (auto simp: word_less_nat_alt word_le_nat_alt unat_word_ariths simp flip: unat_eq_0)
    then show ?thesis using 2(2) True by (auto simp: UUIDS_PER_TICK_def Let_def split: if_splits)
  next
    case False
    then show ?thesis using 2 by auto
  qed
qed simp

lemma get_current_time_result:
  assumes g: "get_current_time os s = Some (T, os1, s1)" and ck: "clock_ok os"
  shows "T \<noteq> time_last s \<and> unat T < 2 ^ 60 \<and> clock_ok os1 \<and> os1 = os\<lparr>os_clock := os_clock os1\<rparr> \<and>
     (\<exists>k. s1 = s\<lparr>uuids_this_tick := k, tick_inited := True, time_last := T\<rparr>)"
proof -
  define s0 where "s0 = (if tick_inited s then s else s\<lparr>uuids_this_tick := UUIDS_PER_TICK, tick_inited := True\<rparr>)"
  have s0: "time_last s0 = time_last s" by (simp add: s0_def)
  obtain now ticks rs where l: "current_time_loop (time_last s) (uuids_this_tick s0) (os_clock os) = Some (now, ticks, rs)"
    and T: "T = now + ucast ticks" and os1: "os1 = os\<lparr>os_clock := rs\<rparr>"
    and s1: "s1 = s0\<lparr>uuids_this_tick := ticks, time_last := T\<rparr>"
    using g s0 by (auto simp: get_current_time_def Let_def simp flip: s0_def)
  note r = current_time_loop_result [OF l]
  have now: "unat now + 1024 < 2 ^ 60" and ck1: "clock_ok os1"
    using r ck by (auto simp: clock_ok_def os1)
  have tb: "unat ticks \<le> 1024" using r by (simp add: word_le_nat_alt)
  have tk: "unat (ucast ticks :: 64 word) = unat ticks"
    unfolding unsigned_ucast_eq by (rule take_bit_nat_eq_self) (use tb in simp)
  have uT: "unat T = unat now + unat ticks"
    unfolding T using now tb tk by (subst unat_add_lem [THEN iffD1]) auto
  have "T \<noteq> time_last s"
  proof (cases "now = time_last s")
    case True
    then have "unat ticks \<noteq> 0" using r by (auto simp: unat_eq_0)
    then have "unat T \<noteq> unat now" using uT by simp
    then show ?thesis using True by auto
  next
    case False
    then show ?thesis using r T by auto
  qed
  moreover have "\<exists>k. s1 = s\<lparr>uuids_this_tick := k, tick_inited := True, time_last := T\<rparr>"
    by (cases s) (auto simp: s1 s0_def)
  ultimately show ?thesis using uT now tb ck1 by (simp add: os1)
qed

lemma get_ieee_node_identifier_result:
  assumes "get_ieee_node_identifier c os s = Some (nd, os1, s1)"
  shows "node_inited s1 \<and> saved_node s1 = nd \<and> set (os_clock os1) \<subseteq> set (os_clock os) \<and>
     s1 = s\<lparr>saved_node := nd, node_inited := True\<rparr> \<and> (node_inited s \<longrightarrow> nd = saved_node s \<and> os1 = os)"
proof (cases "node_inited s")
  case True
  then show ?thesis using assms by (cases s) (auto simp: get_ieee_node_identifier_def)
next
  case False
  then obtain seed where i: "get_random_info c os = Some (seed, os1)"
    and s1: "s1 = s\<lparr>saved_node := nd, node_inited := True\<rparr>"
    using assms by (auto simp: get_ieee_node_identifier_def Let_def)
  have "set (os_clock os1) \<subseteq> set (os_clock os)"
    using i by (auto simp: get_random_info_def bind_eq_Some_conv split: list.splits)
  then show ?thesis using s1 False by simp
qed

lemma true_random_result:
  assumes "true_random os s = Some (k, os1, s1)"
  shows "set (os_clock os1) \<subseteq> set (os_clock os) \<and> s1 = s\<lparr>rand_inited := True\<rparr>"
proof -
  obtain os0 x xs where f: "(if rand_inited s then Some (os, s)
        else map_option
          (\<lambda>(now, os').
             let time_now = now div ucast UUIDS_PER_TICK
             in (os'\<lparr>os_srand := Some (ucast ((drop_bit 32 time_now XOR time_now) AND 0xffffffff))\<rparr>,
                 s\<lparr>rand_inited := True\<rparr>))
          (get_system_time os)) = Some (os0, s1)"
    and o1: "os1 = os0\<lparr>os_rand := xs\<rparr>"
    using assms by (auto simp: true_random_def bind_eq_Some_conv neq_Nil_conv split: list.splits)
  show ?thesis
  proof (cases "rand_inited s")
    case True
    then show ?thesis using f o1 by (cases s) auto
  next
    case False
    then show ?thesis using f o1 by (auto simp: get_system_time_def Let_def split: list.splits)
  qed
qed

lemma clock_ok_subset: "clock_ok os \<Longrightarrow> set (os_clock os1) \<subseteq> set (os_clock os) \<Longrightarrow> clock_ok os1"
  by (auto simp: clock_ok_def)

lemma write_state_fields:
  "stateInited (write_state q t nd s)" "st_cs (write_state q t nd s) = q" "st_ts (write_state q t nd s) = t"
  "st_node (write_state q t nd s) = nd" "saved_node (write_state q t nd s) = saved_node s"
  "node_inited (write_state q t nd s) = node_inited s" "time_last (write_state q t nd s) = time_last s"
  by (simp_all add: write_state_def Let_def)

text \<open>The statics whenever no call is in progress.\<close>

definition uuid_consistent :: "uuid_statics \<Rightarrow> bool" where
  "uuid_consistent s \<longleftrightarrow> (stateInited s \<longrightarrow> running s (saved_node s))"

lemma uuid_consistent_init: "uuid_consistent uuid_statics_init"
  by (simp add: uuid_consistent_def uuid_statics_init_def)

lemma uuid_create_any:
  assumes cr: "uuid_create c os s = Some (u, os', s')" and ck: "clock_ok os"
  shows "u = format_uuid_v1 (st_cs s') (st_ts s') (saved_node s') \<and> running s' (saved_node s') \<and>
     unat (st_ts s') < 2 ^ 60 \<and> clock_ok os' \<and>
     (running s nd \<longrightarrow> saved_node s' = nd \<and> st_ts s' \<noteq> st_ts s \<and>
        st_cs s' = (if st_ts s' < st_ts s then st_cs s + 1 else st_cs s))"
proof -
  obtain T os1 s1 node os2 s2 q s3 where
    g: "get_current_time os s = Some (T, os1, s1)" and
    n: "get_ieee_node_identifier c os1 s1 = Some (node, os2, s2)" and
    q: "(case read_state s2 of
          None \<Rightarrow> true_random os2 s2
        | Some (clockseq, last_time, last_node) \<Rightarrow>
            if node \<noteq> last_node then true_random os2 s2
            else Some (if T < last_time then clockseq + 1 else clockseq, os2, s2)) = Some (q, os', s3)" and
    u: "u = format_uuid_v1 q T node" and s': "s' = write_state q T node s3"
    using cr unfolding uuid_create_def by (auto simp: bind_eq_Some_conv)
  note G = get_current_time_result [OF g ck]
  note N = get_ieee_node_identifier_result [OF n]
  obtain k where s1: "s1 = s\<lparr>uuids_this_tick := k, tick_inited := True, time_last := T\<rparr>" using G by blast
  have s2: "s2 = s1\<lparr>saved_node := node, node_inited := True\<rparr>" using N by blast
  have s3: "s3 = s2 \<or> s3 = s2\<lparr>rand_inited := True\<rparr>" and sub: "set (os_clock os') \<subseteq> set (os_clock os2)"
    using q true_random_result [of os2 s2 q os' s3] by (simp_all split: option.splits prod.splits if_splits)
  have f: "saved_node s3 = node" "node_inited s3" "time_last s3 = T"
    using s3 unfolding s2 s1 by (elim disjE; simp)+
  have ck': "clock_ok os'" using G N sub by (blast intro: clock_ok_subset)
  have run: "q = (if T < st_ts s then st_cs s + 1 else st_cs s) \<and> node = nd \<and> T \<noteq> st_ts s" if r: "running s nd"
  proof -
    have "node_inited s1" "saved_node s1 = nd" using r by (simp_all add: running_def s1)
    then have nd: "node = nd" using N by simp
    have "read_state s2 = Some (st_cs s, st_ts s, nd)" using r by (simp add: read_state_def running_def s2 s1)
    then have "q = (if T < st_ts s then st_cs s + 1 else st_cs s)" using q nd by simp
    then show ?thesis using G r nd by (simp add: running_def)
  qed
  show ?thesis
    unfolding s' u using f G ck' run by (simp add: write_state_fields running_def)
qed

lemmas uuid_create_result = uuid_create_any [THEN conjunct1] uuid_create_any [THEN conjunct2, THEN conjunct1]
  uuid_create_any [THEN conjunct2, THEN conjunct2, THEN conjunct1]
  uuid_create_any [THEN conjunct2, THEN conjunct2, THEN conjunct2, THEN conjunct1]
  uuid_create_any [THEN conjunct2, THEN conjunct2, THEN conjunct2, THEN conjunct2, rule_format]


section \<open>The fields of a UUID determine what it was made from\<close>

lemma uuid_masks:
  "(0xFFFFFFFF :: 64 word) = mask 32" "(0xFFFF :: 64 word) = mask 16" "(0x0FFF :: 64 word) = mask 12"
  "(0xFF :: 16 word) = mask 8" "(0x3F00 :: 16 word) = push_bit 8 (mask 6)" "(0x80 :: 8 word) = push_bit 7 1"
  by (simp_all add: mask_eq_exp_minus_1 push_bit_eq_mult)

lemma format_uuid_v1_inject:
  assumes e: "format_uuid_v1 q t nd = format_uuid_v1 q' t' nd'"
    and t: "unat t < 2 ^ 60" "unat t' < 2 ^ 60"
  shows "t = t' \<and> take_bit 14 q = take_bit 14 q' \<and> nd = nd'"
proof -
  have "take_bit 60 t = t" "take_bit 60 t' = t'"
    using t by (auto intro!: word_unat_eq_iff [THEN iffD2] simp: unsigned_take_bit_eq take_bit_nat_eq_self)
  then have hi: "\<not> bit t i" "\<not> bit t' i" if "60 \<le> i" for i
    using that by (metis bit_take_bit_iff not_le)+
  have low: "(ucast (t AND mask 32) :: 32 word) = ucast (t' AND mask 32)"
    and mid: "(ucast (drop_bit 32 t AND mask 16) :: 16 word) = ucast (drop_bit 32 t' AND mask 16)"
    and top: "(ucast (drop_bit 48 t AND mask 12) OR push_bit 12 1 :: 16 word) =
       ucast (drop_bit 48 t' AND mask 12) OR push_bit 12 1"
    and cl: "(ucast (q AND mask 8) :: 8 word) = ucast (q' AND mask 8)"
    and ch: "(ucast (drop_bit 8 (q AND push_bit 8 (mask 6))) OR push_bit 7 1 :: 8 word) =
       ucast (drop_bit 8 (q' AND push_bit 8 (mask 6))) OR push_bit 7 1"
    and nd: "nd = nd'"
    using e unfolding format_uuid_v1_def uuid_masks uuid_upnp.ext_inject by blast+
  have "t = t'"
  proof (rule bit_word_eqI)
    fix n assume "n < LENGTH(64)"
    consider "n < 32" | "32 \<le> n" "n < 48" | "48 \<le> n" "n < 60" | "60 \<le> n" by linarith
    then show "bit t n = bit t' n"
    proof cases
      case 1
      then show ?thesis using arg_cong [OF low, of "\<lambda>w. bit w n"] by (simp add: bit_simps)
    next
      case 2
      then show ?thesis using arg_cong [OF mid, of "\<lambda>w. bit w (n - 32)"] less_diff_conv2 [of 32 n 16] by (simp add: bit_simps)
    next
      case 3
      then show ?thesis using arg_cong [OF top, of "\<lambda>w. bit w (n - 48)"] less_diff_conv2 [of 48 n 12]
        unfolding bit_or_iff bit_push_bit_iff by (simp add: bit_simps)
    qed (use hi in simp)
  qed
  moreover have "take_bit 14 q = take_bit 14 q'"
  proof (rule bit_word_eqI)
    fix n assume "n < LENGTH(16)"
    consider "n < 8" | "8 \<le> n" "n < 14" | "14 \<le> n" by linarith
    then show "bit (take_bit 14 q) n = bit (take_bit 14 q') n"
    proof cases
      case 1
      then show ?thesis using arg_cong [OF cl, of "\<lambda>w. bit w n"] by (simp add: bit_simps)
    next
      case 2
      then show ?thesis using arg_cong [OF ch, of "\<lambda>w. bit w (n - 8)"] less_diff_conv2 [of 8 n 6]
        unfolding bit_or_iff bit_push_bit_iff by (simp add: bit_simps)
    qed (simp add: bit_simps)
  qed
  ultimately show ?thesis using nd by blast
qed


section \<open>A run\<close>

text \<open>
  Between two UUIDs the pair of the times the clock went backwards and the timestamp grows in the
  lexicographic order: a timestamp never repeats, and a smaller one takes a new clock sequence.
\<close>

definition later :: "nat \<times> 64 word \<Rightarrow> nat \<times> 64 word \<Rightarrow> bool" where
  "later x y \<longleftrightarrow> fst x < fst y \<or> fst x = fst y \<and> snd x < snd y"

lemma later_shift: "later (b0, T0) x \<Longrightarrow> later (b0, T0) x \<and> later (b + b0, T0) (b + fst x, snd x)"
  by (auto simp: later_def)

lemma later_trans: "later x y \<Longrightarrow> later y z \<Longrightarrow> later x z"
  by (auto simp: later_def)

lemma running_creates:
  assumes "uuid_creates c n os s = Some (us, os', s')" and "running s nd" and "clock_ok os"
  shows "\<exists>ks. us = map (\<lambda>(b, t). format_uuid_v1 (st_cs s + of_nat b) t nd) ks \<and>
     sorted_wrt later ((0, st_ts s) # ks) \<and> (\<forall>(b, t) \<in> set ks. b \<le> n \<and> unat t < 2 ^ 60)"
  using assms
proof (induction n arbitrary: os s us)
  case 0
  then show ?case by simp
next
  case (Suc n)
  obtain u os1 s1 us1 where cr: "uuid_create c os s = Some (u, os1, s1)"
    and rest: "uuid_creates c n os1 s1 = Some (us1, os', s')" and us: "us = u # us1"
    using Suc.prems(1) by (auto simp: bind_eq_Some_conv)
  note R = uuid_create_result [OF cr Suc.prems(3)]
  have nd: "saved_node s1 = nd" "st_ts s1 \<noteq> st_ts s"
    and cs: "st_cs s1 = (if st_ts s1 < st_ts s then st_cs s + 1 else st_cs s)"
    using R(5) [OF Suc.prems(2)] by auto
  obtain ks where ks: "us1 = map (\<lambda>(b, t). format_uuid_v1 (st_cs s1 + of_nat b) t nd) ks"
    "sorted_wrt later ((0, st_ts s1) # ks)" "\<forall>(b, t) \<in> set ks. b \<le> n \<and> unat t < 2 ^ 60"
    using Suc.IH [OF rest _ R(4)] R(2) nd by auto
  define b :: nat where "b = (if st_ts s1 < st_ts s then 1 else 0)"
  have csb: "st_cs s1 = st_cs s + of_nat b" using cs by (simp add: b_def)
  have first: "later (0, st_ts s) (b, st_ts s1)" using nd(2) by (auto simp: later_def b_def)
  define ks' where "ks' = (b, st_ts s1) # map (\<lambda>(d, t). (b + d, t)) ks"
  have "us = map (\<lambda>(d, t). format_uuid_v1 (st_cs s + of_nat d) t nd) ks'"
    unfolding us ks ks'_def using R(1) nd(1) csb by (auto simp: add.assoc)
  moreover have "sorted_wrt later ks'"
    using ks(2) unfolding ks'_def
    by (auto simp: sorted_wrt_map later_def split_beta elim!: sorted_wrt_mono_rel [rotated])
  moreover have "\<forall>k \<in> set ks'. later (0, st_ts s) k"
    using ks(2) first unfolding ks'_def by (auto simp: later_def)
  moreover have "\<forall>(d, t) \<in> set ks'. d \<le> Suc n \<and> unat t < 2 ^ 60"
    using ks(3) R(3) unfolding ks'_def by (auto simp: b_def)
  ultimately show ?case by auto
qed

lemma format_uuid_v1_later:
  assumes "later x y" and "unat (snd x) < 2 ^ 60" and "unat (snd y) < 2 ^ 60" and "fst y < 2 ^ 14"
  shows "format_uuid_v1 (q + of_nat (fst x)) (snd x) nd \<noteq> format_uuid_v1 (q + of_nat (fst y)) (snd y) nd"
proof
  assume "format_uuid_v1 (q + of_nat (fst x)) (snd x) nd = format_uuid_v1 (q + of_nat (fst y)) (snd y) nd"
  then have t: "snd x = snd y" and q: "take_bit 14 (q + of_nat (fst x)) = take_bit 14 (q + of_nat (fst y))"
    using format_uuid_v1_inject assms(2,3) by blast+
  have xy: "fst x < fst y" using assms(1) t by (auto simp: later_def)
  have u: "unat (take_bit 14 (q + of_nat b)) = (unat q + b) mod 2 ^ 14" for b
    by (simp add: unsigned_take_bit_eq take_bit_eq_mod unat_word_ariths unat_of_nat mod_mod_cancel mod_add_right_eq)
  have "(unat q + fst y) mod 2 ^ 14 = (unat q + fst x) mod 2 ^ 14"
    using arg_cong [OF q, of unat] unfolding u by simp
  then have "2 ^ 14 dvd fst y - fst x"
    using xy mod_eq_dvd_iff_nat [of "unat q + fst x" "unat q + fst y" "2 ^ 14"] by simp
  then show False using xy assms(4) dvd_imp_le [of "2 ^ 14" "fst y - fst x"] by simp
qed

lemma creates_distinct:
  assumes "uuid_creates c n os s = Some (us, os', s')" and "clock_ok os" and "n \<le> 2 ^ 14"
  shows "distinct us"
proof (cases n)
  case 0
  then show ?thesis using assms by simp
next
  case (Suc m)
  obtain u os1 s1 us1 where cr: "uuid_create c os s = Some (u, os1, s1)"
    and rest: "uuid_creates c m os1 s1 = Some (us1, os', s')" and us: "us = u # us1"
    using assms(1) Suc by (auto simp: bind_eq_Some_conv)
  note R = uuid_create_result [OF cr assms(2)]
  obtain ks where ks: "us1 = map (\<lambda>(b, t). format_uuid_v1 (st_cs s1 + of_nat b) t (saved_node s1)) ks"
    "sorted_wrt later ((0, st_ts s1) # ks)" "\<forall>(b, t) \<in> set ks. b \<le> m \<and> unat t < 2 ^ 60"
    using running_creates [OF rest R(2) R(4)] by auto
  define fmt where "fmt = (\<lambda>(b, t). format_uuid_v1 (st_cs s1 + of_nat b) t (saved_node s1))"
  have us': "us = map fmt ((0, st_ts s1) # ks)" unfolding us ks fmt_def using R(1) by simp
  have "sorted_wrt (\<lambda>x y. fmt x \<noteq> fmt y) ((0, st_ts s1) # ks)"
  proof (rule sorted_wrt_mono_rel [OF _ ks(2)])
    fix x y assume "x \<in> set ((0, st_ts s1) # ks)" "y \<in> set ((0, st_ts s1) # ks)" "later x y"
    then have xy: "x \<in> set ((0, st_ts s1) # ks)" "y \<in> set ((0, st_ts s1) # ks)" "later x y" .
    have z: "fst z \<le> m \<and> unat (snd z) < 2 ^ 60" if "z \<in> set ((0, st_ts s1) # ks)" for z
      using that ks(3) R(3) by auto
    have "fst y < 2 ^ 14" using z [OF xy(2)] assms(3) Suc by simp
    then show "fmt x \<noteq> fmt y"
      using format_uuid_v1_later [OF xy(3)] z [OF xy(1)] z [OF xy(2)] by (simp add: fmt_def split_beta)
  qed
  then show ?thesis unfolding us' distinct_conv_nth sorted_wrt_iff_nth_less
    by (metis length_map linorder_neqE_nat nth_map)
qed

text \<open>C32. Within one run of the process \<open>uuid_create\<close> never gives the same UUID twice in its first
  \<open>2 ^ 14\<close> calls, from whatever state the statics are in and however the clock behaves: stands still,
  jumps back or runs. Only a clock sequence of 14 bits that has gone round can repeat one.\<close>

theorem uuids_distinct:
  assumes "uuid_creates (c :: 'w::len word md5_ctx) n os s = Some (us, os', s')"
    and "\<forall>p \<in> set (os_clock os). unat (system_time p) + 1024 < 2 ^ 60" and "n \<le> 2 ^ 14"
  shows "distinct us"
  using creates_distinct [OF assms(1) _ assms(3)] assms(2) by (simp add: clock_ok_def)

definition busy_statics :: uuid_statics where
  "busy_statics = \<lparr>time_last = 900, uuids_this_tick = 0, tick_inited = True, st_ts = 900,
     st_node = [0x80, 1, 2, 3, 4, 5], st_cs = 0x3FFF, stateInited = True, next_save = 1000, node_inited = True,
     saved_node = [0x80, 1, 2, 3, 4, 5], rand_inited = True\<rparr>"

text \<open>A clock that stands still, then steps back.\<close>

definition still_clock :: os where
  "still_clock = \<lparr>os_clock = [(5, 0), (5, 0), (5, 0), (4, 0)], os_rand = [], os_hostname = [], os_srand = None\<rparr>"

definition spare_context :: "32 word md5_ctx" where
  "spare_context = \<lparr>md_state = (0, 0, 0, 0), md_count = (0, 0), md_buffer = replicate 64 0\<rparr>"

lemma still_clock_run:
  "map_option (\<lambda>(us, _). map (\<lambda>u. (time_low u, clock_seq_hi_and_reserved u, clock_seq_low u)) us)
     (uuid_creates spare_context 4 still_clock busy_statics) =
   Some [(0x167c3080, 0xBF, 0xFF), (0x167c3081, 0xBF, 0xFF), (0x167c3080, 0x80, 0), (0x15e39a00, 0x80, 1)]"
  by code_simp

theorem uuids_distinct_witness:
  "\<exists>us r. uuid_creates spare_context 4 still_clock busy_statics = Some (us, r) \<and> distinct us \<and>
     map time_low us = [0x167c3080, 0x167c3081, 0x167c3080, 0x15e39a00]"
proof -
  obtain us os' s' where r: "uuid_creates spare_context 4 still_clock busy_statics = Some (us, os', s')"
    and t: "map (\<lambda>u. (time_low u, clock_seq_hi_and_reserved u, clock_seq_low u)) us =
       [(0x167c3080, 0xBF, 0xFF), (0x167c3081, 0xBF, 0xFF), (0x167c3080, 0x80, 0), (0x15e39a00, 0x80, 1)]"
    using still_clock_run by auto
  have "\<forall>p \<in> set (os_clock still_clock). unat (system_time p) + 1024 < 2 ^ 60"
    by (simp add: still_clock_def)
  then have "distinct us" using uuids_distinct [OF r] by simp
  moreover have "map time_low us = [0x167c3080, 0x167c3081, 0x167c3080, 0x15e39a00]"
    using arg_cong [OF t, of "map fst"] by (simp add: comp_def)
  ultimately show ?thesis using r by (intro exI [of _ us] exI [of _ "(os', s')"]) simp
qed


section \<open>A call returns\<close>

lemma current_time_loop_returns:
  assumes "r \<in> set pre" and "system_time r \<noteq> tlast"
  shows "\<exists>now ticks' rs'. current_time_loop tlast ticks (pre @ rs) = Some (now, ticks', rs' @ rs)"
  using assms
proof (induction pre arbitrary: ticks)
  case (Cons p pre)
  then show ?case by (cases "system_time p = tlast") (auto simp: Let_def UUIDS_PER_TICK_def)
qed simp

lemma get_random_info_returns:
  assumes w: "32 \<le> LENGTH('w::len)" and b: "List.length (md_buffer (c :: 'w word md5_ctx)) = 64"
    and os: "os_clock os = t # ts"
  shows "\<exists>seed. get_random_info c os = Some (seed, os\<lparr>os_clock := ts\<rparr>)"
proof -
  define r where "r = randomness_bytes t (os_hostname os)"
  have l: "List.length r = 280" by (simp add: r_def randomness_bytes_def long_bytes_def)
  obtain c1 where c1: "MD5Update (MD5Init c) r 280 = Some c1" "represents c1 r"
    using MD5Update_represents [OF w represents_MD5Init [OF b], of 280 r] l by auto
  then show ?thesis
    using MD5Final_represents [OF w c1(2)] l os by (auto simp: get_random_info_def simp flip: r_def)
qed

lemma true_random_returns:
  assumes "os_clock os \<noteq> []" and "os_rand os \<noteq> []"
  shows "\<exists>q os' s'. true_random os s = Some (q, os', s') \<and> time_last s' = time_last s"
proof -
  obtain x xs t ts where "os_rand os = x # xs" "os_clock os = t # ts"
    using assms by (auto simp: neq_Nil_conv)
  then show ?thesis by (cases "rand_inited s") (simp_all add: true_random_def get_system_time_def Let_def)
qed

text \<open>C33. \<open>uuid_create\<close> does not spin for ever: it returns with a UUID as soon as the clock shows a time
  other than the last timestamp, whatever it showed before. Two more readings may be needed, for the
  node identifier and the seed of the first call.\<close>

theorem uuid_create_returns:
  assumes "32 \<le> LENGTH('w::len)" and "List.length (md_buffer (c :: 'w word md5_ctx)) = 64"
    and "os_clock os = before @ [r, r1, r2] @ rest" and "system_time r \<noteq> time_last s" and "os_rand os \<noteq> []"
  shows "\<exists>u os' s'. uuid_create c os s = Some (u, os', s') \<and> st_ts s' = time_last s'"
proof -
  obtain now ticks rs where l: "current_time_loop (time_last s) k (os_clock os) = Some (now k, ticks k, rs k @ [r1, r2] @ rest)" for k
    using current_time_loop_returns [of r "before @ [r]" "time_last s" _ "[r1, r2] @ rest"] assms(3,4)
    by simp metis
  obtain T os1 s1 ys where g: "get_current_time os s = Some (T, os1, s1)" and t1: "time_last s1 = T"
    and o1: "os_clock os1 = ys @ [r1, r2] @ rest" "os_rand os1 = os_rand os"
  proof -
    define s0 where "s0 = (if tick_inited s then s else s\<lparr>uuids_this_tick := UUIDS_PER_TICK, tick_inited := True\<rparr>)"
    have "time_last s0 = time_last s" by (simp add: s0_def)
    then have "get_current_time os s = Some (now (uuids_this_tick s0) + ucast (ticks (uuids_this_tick s0)),
        os\<lparr>os_clock := rs (uuids_this_tick s0) @ [r1, r2] @ rest\<rparr>,
        s0\<lparr>uuids_this_tick := ticks (uuids_this_tick s0),
           time_last := now (uuids_this_tick s0) + ucast (ticks (uuids_this_tick s0))\<rparr>)"
      using l [of "uuids_this_tick s0"] by (simp add: get_current_time_def Let_def flip: s0_def)
    then show thesis by (rule that) simp_all
  qed
  obtain node os2 s2 where n: "get_ieee_node_identifier c os1 s1 = Some (node, os2, s2)" and t2: "time_last s2 = T"
    and o2: "os_clock os2 \<noteq> []" "os_rand os2 = os_rand os"
  proof (cases "node_inited s1")
    case True
    then show thesis using that [of "saved_node s1" os1 s1] t1 o1 by (simp add: get_ieee_node_identifier_def)
  next
    case False
    obtain y zs where y: "os_clock os1 = y # zs" "zs \<noteq> []" using o1(1) by (cases ys) auto
    obtain seed where "get_random_info c os1 = Some (seed, os1\<lparr>os_clock := zs\<rparr>)"
      using get_random_info_returns [OF assms(1,2) y(1)] by blast
    then show thesis
      using that [of _ "os1\<lparr>os_clock := zs\<rparr>"] False y(2) t1 o1(2) by (simp add: get_ieee_node_identifier_def Let_def)
  qed
  obtain q os3 s3 where r: "true_random os2 s2 = Some (q, os3, s3)" and t3: "time_last s3 = T"
    using true_random_returns [OF o2(1), of s2] o2(2) assms(5) t2 by auto
  have "\<exists>q os4 s4. time_last s4 = T \<and> (case read_state s2 of
          None \<Rightarrow> true_random os2 s2
        | Some (clockseq, last_time, last_node) \<Rightarrow>
            if node \<noteq> last_node then true_random os2 s2
            else Some (if T < last_time then clockseq + 1 else clockseq, os2, s2)) = Some (q, os4, s4)"
    using r t3 t2 by (auto split: option.split)
  then show ?thesis using g n by (auto simp: uuid_create_def write_state_fields)
qed

theorem uuid_create_returns_witness:
  "\<exists>u os' s'. uuid_create spare_context (still_clock\<lparr>os_clock := [(0, 0), (0, 0), (0, 1), (0, 2), (0, 3)], os_rand := [7]\<rparr>)
     (uuid_statics_init\<lparr>time_last := system_time (0, 0), tick_inited := True, uuids_this_tick := 1024\<rparr>) = Some (u, os', s') \<and>
     st_ts s' = time_last s'"
  by (rule uuid_create_returns [where before = "[(0, 0), (0, 0)]" and r = "(0, 1)" and ?r1.0 = "(0, 2)"
        and ?r2.0 = "(0, 3)" and rest = "[]"])
    (simp_all add: spare_context_def uuid_statics_init_def)


section \<open>Name-based UUIDs\<close>

lemma length_be_bytes [simp]: "List.length (be_bytes n w) = n"
  by (simp add: be_bytes_def)

text \<open>The UUID of a name depends on nothing but the bytes of the name space and of the name: it is the
  digest of the one followed by the other, with version 3 and the variant bits put in.\<close>

theorem uuid_create_from_name_correct:
  assumes "32 \<le> LENGTH('w::len)" and "List.length (md_buffer (c :: 'w word md5_ctx)) = 64"
    and "List.length (uuid_node nsid) = 6" and "unat namelen \<le> List.length name" and "unat namelen < 2 ^ 28"
  shows "\<exists>u. uuid_create_from_name c nsid name namelen = Some u \<and>
     u = format_uuid_v3 (md5_reference TYPE('w) (net_bytes nsid @ take (unat namelen) name)) \<and>
     drop_bit 12 (time_hi_and_version u) = 3 \<and> drop_bit 6 (clock_seq_hi_and_reserved u) = 2"
proof -
  have l: "List.length (net_bytes nsid) = 16" using assms(3) by (simp add: net_bytes_def)
  obtain c1 where c1: "MD5Update (MD5Init c) (net_bytes nsid) 16 = Some c1" "represents c1 (net_bytes nsid)"
    using MD5Update_represents [OF assms(1) represents_MD5Init [OF assms(2)], of 16 "net_bytes nsid"] l by auto
  obtain c2 where c2: "MD5Update c1 name (unat namelen) = Some c2"
    "represents c2 (net_bytes nsid @ take (unat namelen) name)"
    using MD5Update_represents [OF assms(1) c1(2) assms(4)] assms(5) l by auto
  obtain c3 where "MD5Final c2 = Some (md5_reference TYPE('w) (net_bytes nsid @ take (unat namelen) name), c3)"
    using MD5Final_represents [OF assms(1) c2(2)] assms(4,5) l by auto
  moreover have "drop_bit 12 (time_hi_and_version (format_uuid_v3 h)) = 3" for h
    by (rule bit_word_eqI) (auto simp: format_uuid_v3_def bit_simps)
  moreover have "drop_bit 6 (clock_seq_hi_and_reserved (format_uuid_v3 h)) = 2" for h
    by (simp add: format_uuid_v3_def drop_bit_or drop_bit_and)
  ultimately show ?thesis using c1(1) c2(1) by (simp add: uuid_create_from_name_def)
qed


section \<open>The order of UUIDs\<close>

text \<open>Comparing two byte strings of the same length as \<open>memcmp\<close> does.\<close>

definition lex_compare :: "byte list \<Rightarrow> byte list \<Rightarrow> int" where
  "lex_compare xs ys = (if xs = ys then 0 else if (xs, ys) \<in> lexord {(a, b). a < b} then -1 else 1)"

lemma compare_nodes_lex:
  "List.length xs = List.length ys \<Longrightarrow> compare_nodes xs ys = lex_compare xs ys"
  by (induction xs ys rule: list_induct2) (auto simp: lex_compare_def)

lemma compare_nodes_append:
  "List.length xs = List.length ys \<Longrightarrow>
   compare_nodes (xs @ xs') (ys @ ys') = (if xs = ys then compare_nodes xs' ys' else compare_nodes xs ys)"
  by (induction xs ys rule: list_induct2) auto

lemma be_bytes_Suc: "be_bytes (Suc n) w = ucast (drop_bit (8 * n) w) # be_bytes n w"
  by (simp add: be_bytes_def upt_conv_Cons map_Suc_upt [symmetric] del: upt_Suc)

definition nat_compare :: "nat \<Rightarrow> nat \<Rightarrow> int" where
  "nat_compare a b = (if a < b then -1 else if b < a then 1 else 0)"

lemma nat_compare_step:
  assumes "x < m" and "y < (m :: nat)"
  shows "nat_compare (m * a + x) (m * b + y) = (if a = b then nat_compare x y else nat_compare a b)"
proof -
  have "m * a + x < m * b + y" if "a < b" "x < m" for a b x y
  proof -
    have "m * a + m \<le> m * b" using that(1) by (metis Suc_leI mult_Suc_right add.commute mult_le_mono2)
    then show ?thesis using that(2) by linarith
  qed
  from this [of a b x y] this [of b a y x] assms show ?thesis
    by (cases a b rule: linorder_cases) (auto simp: nat_compare_def)
qed

lemma compare_be_bytes:
  "compare_nodes (be_bytes n (w :: 'a::len word)) (be_bytes n (v :: 'a word)) =
     nat_compare (unat w mod 2 ^ (8 * n)) (unat v mod 2 ^ (8 * n))"
proof (induction n)
  case 0
  then show ?case by (simp add: be_bytes_def nat_compare_def)
next
  case (Suc n)
  define hi where "hi x = unat x div 2 ^ (8 * n) mod 2 ^ 8" for x :: "'a word"
  have b: "unat (ucast (drop_bit (8 * n) x) :: byte) = hi x" for x :: "'a word"
    unfolding unsigned_ucast_eq unat_drop_bit_eq by (simp add: hi_def take_bit_eq_mod drop_bit_eq_div)
  have m: "unat x mod 2 ^ (8 * Suc n) = 2 ^ (8 * n) * hi x + unat x mod 2 ^ (8 * n)" for x :: "'a word"
  proof -
    have "(2 :: nat) ^ (8 * Suc n) = 2 ^ (8 * n) * 2 ^ 8" by (simp add: power_add)
    then show ?thesis unfolding hi_def by (simp only: mod_mult2_eq)
  qed
  show ?case
  proof -
    have "nat_compare (2 ^ (8 * n) * hi w + unat w mod 2 ^ (8 * n)) (2 ^ (8 * n) * hi v + unat v mod 2 ^ (8 * n)) =
        (if hi w = hi v then compare_nodes (be_bytes n w) (be_bytes n v) else nat_compare (hi w) (hi v))"
      unfolding Suc.IH by (rule nat_compare_step) simp_all
    then show ?thesis
      unfolding be_bytes_Suc m by (auto simp: word_less_nat_alt nat_compare_def b)
  qed
qed

lemma CHECK_be_bytes:
  assumes "LENGTH('w::len) = 8 * n"
  shows "CHECK (w :: 'w word) v (compare_nodes xs ys) = compare_nodes (be_bytes n w @ xs) (be_bytes n v @ ys)"
proof -
  have u: "unat (x :: 'w word) mod 2 ^ (8 * n) = unat x" for x
    using unsigned_less [of x, where 'a = nat] assms by simp
  have c: "compare_nodes (be_bytes n w) (be_bytes n v) = nat_compare (unat w) (unat v)"
    using compare_be_bytes [of n w v] unfolding u .
  have "w = v" if "be_bytes n w = be_bytes n v"
  proof -
    have "compare_nodes zs zs = 0" for zs by (induction zs) auto
    then have "nat_compare (unat w) (unat v) = 0" using c that by simp
    then show ?thesis by (simp add: nat_compare_def word_unat_eq_iff split: if_splits)
  qed
  then show ?thesis
    using c word_unat_eq_iff [of w v]
    by (cases "w = v") (auto simp: CHECK_def compare_nodes_append nat_compare_def word_less_nat_alt)
qed

lemma CHECK_byte: "CHECK (w :: byte) v (compare_nodes xs ys) = compare_nodes (w # xs) (v # ys)"
  by (auto simp: CHECK_def)

lemma uuid_compare_net:
  assumes "List.length (uuid_node u) = 6" and "List.length (uuid_node v) = 6"
  shows "uuid_compare u v = lex_compare (net_bytes u) (net_bytes v)"
proof -
  have "uuid_compare u v = compare_nodes (net_bytes u) (net_bytes v)"
    using assms by (simp add: uuid_compare_def net_bytes_def CHECK_byte CHECK_be_bytes [where n = 4] CHECK_be_bytes [where n = 2]
        del: compare_nodes.simps)
  then show ?thesis using assms by (simp add: compare_nodes_lex net_bytes_def)
qed

definition sample_uuid :: "16 word \<Rightarrow> uuid_upnp" where
  "sample_uuid t = \<lparr>time_low = 0x01020304, time_mid = t, time_hi_and_version = 0x1FFF,
     clock_seq_hi_and_reserved = 0x80, clock_seq_low = 3, uuid_node = [0x80, 1, 2, 3, 4, 5]\<rparr>"

text \<open>\<open>uuid_compare\<close> orders UUIDs as it says, lexically: as \<open>memcmp\<close> orders the sixteen bytes in network
  order, on any machine.\<close>

theorem uuid_compare_lexical:
  assumes "List.length (uuid_node u) = 6" and "List.length (uuid_node v) = 6"
  shows "uuid_compare u v = lex_compare (net_bytes u) (net_bytes v)"
  by (rule uuid_compare_net [OF assms])

theorem uuid_compare_lexical_witness:
  "uuid_compare (sample_uuid 0x00FF) (sample_uuid 0x0100) = -1 \<and>
   lex_compare (net_bytes (sample_uuid 0x00FF)) (net_bytes (sample_uuid 0x0100)) = -1"
proof -
  have "uuid_compare (sample_uuid 0x00FF) (sample_uuid 0x0100) = -1" by code_simp
  then show ?thesis
    using uuid_compare_lexical [of "sample_uuid 0x00FF" "sample_uuid 0x0100"] by (simp add: sample_uuid_def)
qed

lemma uuid_compare_zero:
  assumes "List.length (uuid_node u) = 6" and "List.length (uuid_node v) = 6"
  shows "uuid_compare u v = 0 \<longleftrightarrow> net_bytes u = net_bytes v"
  using uuid_compare_net [OF assms] by (simp add: lex_compare_def)

theorem uuid_create_from_name_correct_witness:
  "\<exists>u. uuid_create_from_name spare_context (sample_uuid 7) [0x61, 0x62, 0x63, 0x64] 3 = Some u \<and>
     u = format_uuid_v3 (md5_reference TYPE(32) (net_bytes (sample_uuid 7) @ [0x61, 0x62, 0x63])) \<and>
     drop_bit 12 (time_hi_and_version u) = 3 \<and> drop_bit 6 (clock_seq_hi_and_reserved u) = 2"
  using uuid_create_from_name_correct [of spare_context "sample_uuid 7" 3 "[0x61, 0x62, 0x63, 0x64]"]
  by (simp add: spare_context_def sample_uuid_def take_Cons')

end
