(* ===== verification/Gena.thy ===== *)
theory Gena
  imports GenaMessages Handles Uuid
begin

text \<open>
  Eventing on the client's side, \<open>upnp/src/gena/gena_ctrlpt.c\<close> and \<open>gena_callback2.c\<close>: subscribing,
  unsubscribing, renewing (also by timer), and passing notifications to the application.

  An operation holds the handle lock before and after its exchange with the publisher, but not during
  it. It is therefore two definitions, one for each time it holds the lock, and one that composes them
  with the exchange; \<open>other\<close> is what other threads do to the library meanwhile. \<open>now\<close> is the time, and
  \<open>uid\<close> what \<open>uuid_create\<close> makes. The identifiers of error codes are those of \<open>gena.h\<close>.
\<close>

abbreviation (input) GENA_SUCCESS :: int where "GENA_SUCCESS \<equiv> 0"
abbreviation (input) GENA_E_BAD_HANDLE :: int where "GENA_E_BAD_HANDLE \<equiv> -100"
abbreviation (input) GENA_E_BAD_SID :: int where "GENA_E_BAD_SID \<equiv> -109"
abbreviation (input) HTTP_PRECONDITION_FAILED :: int where "HTTP_PRECONDITION_FAILED \<equiv> 412"

definition SIZEOF_Upnp_Event_Subscribe :: nat where "SIZEOF_Upnp_Event_Subscribe = 308"
definition SIZEOF_upnp_timeout :: nat where "SIZEOF_upnp_timeout = 24"
definition SIZEOF_Upnp_SID :: nat where "SIZEOF_Upnp_SID = 44"
definition NAME_SIZE :: nat where "NAME_SIZE = 256"

definition set_alloc :: "alloc_env \<Rightarrow> client_lib \<Rightarrow> client_lib" where
  "set_alloc e L = L\<lparr>cl_store := (cl_store L)\<lparr>cs_alloc := e\<rparr>\<rparr>"

definition set_store :: "client_store \<Rightarrow> client_lib \<Rightarrow> client_lib" where
  "set_store s L = L\<lparr>cl_store := s\<rparr>"

section \<open>Scheduling a renewal\<close>

definition zero_job :: ThreadPoolJob where
  "zero_job = \<lparr>job_func = NULL, job_arg = NULL, job_free_func = NULL, requestTime = \<lparr>tv_sec = 0, tv_usec = 0\<rparr>,
               job_priority = 0, job_jobId = 0\<rparr>"

definition renewal_job :: "addr \<Rightarrow> ThreadPoolJob" where
  "renewal_job RenewEvent =
     (let (_, j1) = TPJobInit (Some zero_job) GenaAutoRenewSubscription_addr RenewEvent;
          (_, j2) = TPJobSetFreeFunction j1 free_upnp_timeout_addr;
          (_, j3) = TPJobSetPriority j2 MED_PRIORITY
      in the j3)"

text \<open>When the timer does not take the job, the data that was allocated for it is freed again.\<close>

definition ScheduleGenaAutoRenew ::
  "int \<Rightarrow> int \<Rightarrow> int \<Rightarrow> addr \<Rightarrow> client_store \<Rightarrow> (int \<times> client_store) option" where
  "ScheduleGenaAutoRenew now client_handle TimeOut sub s =
     Option.bind (cs_sub s sub) (\<lambda>c.
       if TimeOut = UPNP_INFINITE then Some (GENA_SUCCESS, s)
       else case malloc_ok (cs_alloc s) SIZEOF_Upnp_Event_Subscribe of
         (False, e1) \<Rightarrow> Some (UPNP_E_OUTOF_MEMORY, s\<lparr>cs_alloc := e1\<rparr>)
       | (True, e1) \<Rightarrow>
           (case malloc_ok e1 SIZEOF_upnp_timeout of
              (False, e2) \<Rightarrow> Some (UPNP_E_OUTOF_MEMORY, s\<lparr>cs_alloc := e2\<rparr>)
            | (True, e2) \<Rightarrow>
                Option.bind (c_text (m_SID c)) (\<lambda>sid.
                Option.bind (c_text (m_eventURL c)) (\<lambda>url.
                  let RenewEventStruct = \<lparr>es_Sid = strncpy_bytes sid (SIZEOF_Upnp_SID - 1) @ [NUL], es_ErrCode = UPNP_E_SUCCESS,
                                          es_PublisherUrl = strncpy_bytes url (NAME_SIZE - 1) @ [NUL], es_TimeOut = TimeOut\<rparr>;
                      RenewEvent = cs_brk s;
                      (return_code, i, t) =
                        TimerThreadSchedule now (Some (cs_timer s)) (TimeOut - AUTO_RENEW_TIME) REL_SEC
                          (Some (renewal_job RenewEvent)) SHORT_TERM;
                      s1 = s\<lparr>cs_alloc := e2, cs_timer := the t\<rparr>
                  in if return_code \<noteq> UPNP_E_SUCCESS then Some (return_code, s1)
                     else
                       Some (GENA_SUCCESS,
                         s1\<lparr>cs_brk := Suc RenewEvent,
                            cs_timeout := (cs_timeout s)(RenewEvent \<mapsto>
                              \<lparr>to_handle = client_handle, to_eventId = the i, to_Event = RenewEventStruct\<rparr>),
                            cs_sub := (cs_sub s)(sub \<mapsto> c\<lparr>m_renewEventId := the i\<rparr>)\<rparr>)))))"

section \<open>Removing and finding a handle's subscriptions\<close>

text \<open>\<open>RemoveClientSubClientSID\<close> on the list of the handle \<open>h\<close>, whose structure is \<open>hi\<close>.\<close>

definition remove_sub :: "int \<Rightarrow> handle_info \<Rightarrow> upnp_string option \<Rightarrow> client_lib \<Rightarrow> client_lib option" where
  "remove_sub h hi sid L =
     map_option (\<lambda>(p, s). set_sub_list h p (set_store s L))
       (RemoveClientSubClientSID (hi_ClientSubList hi) sid (cl_store L))"

definition free_copy :: "client_sub \<Rightarrow> client_lib \<Rightarrow> (client_sub \<times> client_lib) option" where
  "free_copy c L = map_option (\<lambda>(c1, s). (c1, set_store s L)) (free_client_subscription c (cl_store L))"

section \<open>Unsubscribing\<close>

text \<open>An error, or a copy of the subscription.\<close>

definition genaUnSubscribe_find ::
  "int \<Rightarrow> upnp_string option \<Rightarrow> client_lib \<Rightarrow> ((int + client_sub) \<times> client_lib) option" where
  "genaUnSubscribe_find client_handle in_sid L =
     Option.bind (UpnpClientSubscription_new (cs_alloc (cl_store L))) (\<lambda>(sub_copy, e1).
       let L1 = set_alloc e1 L
       in case GetHandleInfo client_handle L1 of
            (HND_CLIENT, Some hi) \<Rightarrow>
              Option.bind (GetClientSubClientSID (hi_ClientSubList hi) in_sid (cl_store L1)) (\<lambda>sub.
                if sub = NULL then Some (Inl GENA_E_BAD_SID, L1)
                else
                  Option.bind (cs_sub (cl_store L1) sub) (\<lambda>c.
                  map_option (\<lambda>(copy, e2). (Inr copy, set_alloc e2 L1)) (UpnpClientSubscription_assign e1 sub_copy c)))
          | _ \<Rightarrow> Some (Inl GENA_E_BAD_HANDLE, L1))"

definition genaUnSubscribe_remove ::
  "int \<Rightarrow> upnp_string option \<Rightarrow> client_sub \<Rightarrow> int \<Rightarrow> client_lib \<Rightarrow> (int \<times> client_lib) option" where
  "genaUnSubscribe_remove client_handle in_sid sub_copy return_code L =
     Option.bind (free_copy sub_copy L) (\<lambda>(_, L1).
       case GetHandleInfo client_handle L1 of
         (HND_CLIENT, Some hi) \<Rightarrow> map_option (\<lambda>L2. (return_code, L2)) (remove_sub client_handle hi in_sid L1)
       | _ \<Rightarrow> Some (GENA_E_BAD_HANDLE, L1))"

definition genaUnSubscribe ::
  "'f gena_net \<Rightarrow> (client_lib \<Rightarrow> client_lib) \<Rightarrow> int \<Rightarrow> upnp_string option \<Rightarrow> client_lib \<Rightarrow> (int \<times> client_lib) option" where
  "genaUnSubscribe N other client_handle in_sid L =
     Option.bind (genaUnSubscribe_find client_handle in_sid L) (\<lambda>(r, L1).
       case r of
         Inl return_code \<Rightarrow> Some (return_code, L1)
       | Inr sub_copy \<Rightarrow>
           Option.bind (gena_unsubscribe N (m_eventURL sub_copy) (m_actualSID sub_copy)) (\<lambda>(return_code, _).
             genaUnSubscribe_remove client_handle in_sid sub_copy return_code (other L1)))"

section \<open>Subscribing\<close>

text \<open>What the function allocates first, and whether the handle is a client's.\<close>

definition genaSubscribe_check ::
  "int \<Rightarrow> upnp_string option \<Rightarrow> client_lib
     \<Rightarrow> ((int + client_sub \<times> upnp_string option \<times> upnp_string option) \<times> upnp_string option \<times> client_lib) option"
where
  "genaSubscribe_check client_handle out_sid L =
     Option.bind (UpnpClientSubscription_new (cs_alloc (cl_store L))) (\<lambda>(newSubscription, e1).
       let (ActualSID, e2) = UpnpString_new e1;
           (EventURL, e3) = UpnpString_new e2;
           L1 = set_alloc e3 L
       in map_option
            (\<lambda>sid. (if fst (GetHandleInfo client_handle L1) \<noteq> HND_CLIENT then Inl GENA_E_BAD_HANDLE
                     else Inr (newSubscription, ActualSID, EventURL), Some sid, L1))
            (UpnpString_clear out_sid))"

text \<open>
  After the exchange. The error handler deletes the new subscription when its renewal cannot be
  scheduled, which is after it has become the head of the list.
\<close>

definition fill_subscription ::
  "alloc_env \<Rightarrow> client_sub \<Rightarrow> upnp_string option \<Rightarrow> upnp_string option \<Rightarrow> upnp_string option \<Rightarrow> addr
     \<Rightarrow> (client_sub \<times> alloc_env) option"
where
  "fill_subscription e c sid actual url nxt =
     Option.bind (UpnpClientSubscription_set_SID e (c\<lparr>m_renewEventId := -1\<rparr>) sid) (\<lambda>(c1, e1).
     Option.bind (UpnpClientSubscription_set_ActualSID e1 c1 actual) (\<lambda>(c2, e2).
     Option.bind (UpnpClientSubscription_set_EventURL e2 c2 url) (\<lambda>(c3, e3). Some (c3\<lparr>m_next := nxt\<rparr>, e3))))"

definition link_subscription :: "int \<Rightarrow> client_sub \<Rightarrow> client_lib \<Rightarrow> addr \<times> client_lib" where
  "link_subscription h c L =
     (let s = cl_store L; a = cs_brk s
      in (a, set_sub_list h a (set_store (s\<lparr>cs_brk := Suc a, cs_sub := (cs_sub s)(a \<mapsto> c)\<rparr>) L)))"

definition client_sid :: "uuid_upnp \<Rightarrow> string" where
  "client_sid uid = ''uuid:'' @ uuid_unpack uid"

definition genaSubscribe_link ::
  "int \<Rightarrow> uuid_upnp \<Rightarrow> int \<Rightarrow> upnp_string option \<Rightarrow> int \<Rightarrow> int \<Rightarrow> client_sub \<Rightarrow> upnp_string option \<Rightarrow> upnp_string option
     \<Rightarrow> upnp_string option \<Rightarrow> client_lib \<Rightarrow> (int \<times> upnp_string option \<times> client_lib) option"
where
  "genaSubscribe_link now uid client_handle PublisherURL return_code TimeOut newSubscription ActualSID EventURL out_sid L =
     (if return_code \<noteq> UPNP_E_SUCCESS then Some (return_code, out_sid, L)
      else case GetHandleInfo client_handle L of
        (HND_CLIENT, Some hi) \<Rightarrow>
          (if List.length (client_sid uid) \<ge> SIZEOF_Upnp_SID then Some (UPNP_E_OUTOF_MEMORY, out_sid, L)
           else
             Option.bind (UpnpString_set_String (cs_alloc (cl_store L)) out_sid (client_sid uid @ [NUL])) (\<lambda>(_, sid, e1).
             Option.bind (UpnpString_assign e1 False EventURL PublisherURL) (\<lambda>(url, e2).
             Option.bind (fill_subscription e2 newSubscription sid ActualSID url (hi_ClientSubList hi)) (\<lambda>(c, e3).
               let (a, L1) = link_subscription client_handle c (set_alloc e3 L)
               in Option.bind (ScheduleGenaAutoRenew now client_handle TimeOut a (cl_store L1)) (\<lambda>(rc, s2).
                    if rc \<noteq> UPNP_E_SUCCESS
                    then map_option (\<lambda>s3. (rc, sid, set_store s3 L1)) (UpnpClientSubscription_delete a s2)
                    else Some (rc, sid, set_store s2 L1))))))
      | _ \<Rightarrow> Some (GENA_E_BAD_HANDLE, out_sid, L))"

text \<open>The result, the timeout, and the identifier the client gets.\<close>

definition genaSubscribe ::
  "'f gena_net \<Rightarrow> (client_lib \<Rightarrow> client_lib) \<Rightarrow> int \<Rightarrow> uuid_upnp \<Rightarrow> int \<Rightarrow> upnp_string option \<Rightarrow> int \<Rightarrow> upnp_string option
     \<Rightarrow> client_lib \<Rightarrow> (int \<times> int \<times> upnp_string option \<times> client_lib) option"
where
  "genaSubscribe N other now uid client_handle PublisherURL TimeOut out_sid L =
     Option.bind (genaSubscribe_check client_handle out_sid L) (\<lambda>(r, sid, L1).
       case r of
         Inl return_code \<Rightarrow> Some (return_code, TimeOut, sid, L1)
       | Inr (newSubscription, ActualSID, EventURL) \<Rightarrow>
           Option.bind (gena_subscribe N PublisherURL (Some TimeOut) None ActualSID) (\<lambda>(return_code, t, actual).
             map_option (\<lambda>(rc, sid', L2). (rc, the t, sid', L2))
               (genaSubscribe_link now uid client_handle PublisherURL return_code (the t) newSubscription actual EventURL sid
                  (other L1))))"

section \<open>Renewing\<close>

definition genaRenew_find ::
  "int \<Rightarrow> upnp_string option \<Rightarrow> client_lib
     \<Rightarrow> ((int + client_sub \<times> upnp_string option) \<times> client_lib) option"
where
  "genaRenew_find client_handle in_sid L =
     Option.bind (UpnpClientSubscription_new (cs_alloc (cl_store L))) (\<lambda>(sub_copy, e1).
       let (ActualSID, e2) = UpnpString_new e1;
           L1 = set_alloc e2 L
       in case GetHandleInfo client_handle L1 of
            (HND_CLIENT, Some hi) \<Rightarrow>
              Option.bind (GetClientSubClientSID (hi_ClientSubList hi) in_sid (cl_store L1)) (\<lambda>sub.
                if sub = NULL then Some (Inl GENA_E_BAD_SID, L1)
                else
                  Option.bind (cs_sub (cl_store L1) sub) (\<lambda>c.
                  Option.bind (remove_renewal (m_renewEventId c) (cl_store L1)) (\<lambda>s2.
                  Option.bind (UpnpClientSubscription_assign (cs_alloc s2) sub_copy c) (\<lambda>(copy, e3).
                    Some (Inr (copy, ActualSID),
                      set_store (s2\<lparr>cs_alloc := e3, cs_sub := (cs_sub s2)(sub \<mapsto> c\<lparr>m_renewEventId := -1\<rparr>)\<rparr>) L1)))))
          | _ \<Rightarrow> Some (Inl GENA_E_BAD_HANDLE, L1))"

text \<open>Storing the identifier that the publisher gave, and scheduling the next renewal.\<close>

definition renew_at ::
  "int \<Rightarrow> int \<Rightarrow> int \<Rightarrow> upnp_string option \<Rightarrow> addr \<Rightarrow> client_lib \<Rightarrow> (int \<times> client_lib) option" where
  "renew_at now client_handle TimeOut ActualSID sub L =
     (let s = cl_store L
      in Option.bind (cs_sub s sub) (\<lambda>c.
         Option.bind (UpnpClientSubscription_set_ActualSID (cs_alloc s) c ActualSID) (\<lambda>(c1, e1).
         map_option (\<lambda>(rc, s1). (rc, set_store s1 L))
           (ScheduleGenaAutoRenew now client_handle TimeOut sub
              (s\<lparr>cs_alloc := e1, cs_sub := (cs_sub s)(sub \<mapsto> c1)\<rparr>)))))"

definition genaRenew_store ::
  "int \<Rightarrow> int \<Rightarrow> upnp_string option \<Rightarrow> int \<Rightarrow> int \<Rightarrow> client_sub \<Rightarrow> upnp_string option \<Rightarrow> client_lib
     \<Rightarrow> (int \<times> client_lib) option"
where
  "genaRenew_store now client_handle in_sid return_code TimeOut sub_copy ActualSID L =
     (case GetHandleInfo client_handle L of
        (HND_CLIENT, Some hi) \<Rightarrow>
          if return_code \<noteq> UPNP_E_SUCCESS then
            Option.bind (remove_sub client_handle hi in_sid L) (\<lambda>L1.
            map_option (\<lambda>(_, L2). (return_code, L2)) (free_copy sub_copy L1))
          else
            Option.bind (GetClientSubClientSID (hi_ClientSubList hi) in_sid (cl_store L)) (\<lambda>sub.
              if sub = NULL then map_option (\<lambda>(_, L1). (GENA_E_BAD_SID, L1)) (free_copy sub_copy L)
              else
                Option.bind (renew_at now client_handle TimeOut ActualSID sub L) (\<lambda>(rc, L1).
                Option.bind
                  (if rc \<noteq> GENA_SUCCESS
                   then Option.bind (cs_sub (cl_store L1) sub) (\<lambda>c. remove_sub client_handle hi (m_SID c) L1)
                   else Some L1) (\<lambda>L2.
                map_option (\<lambda>(_, L3). (rc, L3)) (free_copy sub_copy L2))))
      | _ \<Rightarrow> Some (GENA_E_BAD_HANDLE, L))"

definition genaRenewSubscription ::
  "'f gena_net \<Rightarrow> (client_lib \<Rightarrow> client_lib) \<Rightarrow> int \<Rightarrow> int \<Rightarrow> upnp_string option \<Rightarrow> int \<Rightarrow> client_lib
     \<Rightarrow> (int \<times> int \<times> client_lib) option"
where
  "genaRenewSubscription N other now client_handle in_sid TimeOut L =
     Option.bind (genaRenew_find client_handle in_sid L) (\<lambda>(r, L1).
       case r of
         Inl return_code \<Rightarrow> Some (return_code, TimeOut, L1)
       | Inr (sub_copy, ActualSID) \<Rightarrow>
           Option.bind (gena_subscribe N (m_eventURL sub_copy) (Some TimeOut) (m_actualSID sub_copy) ActualSID)
             (\<lambda>(return_code, t, actual).
             map_option (\<lambda>(rc, L2). (rc, the t, L2))
               (genaRenew_store now client_handle in_sid return_code (the t) sub_copy actual (other L1))))"

section \<open>The renewal a timer starts\<close>

text \<open>The handle, the identifier and the timeout that the data of the timer has.\<close>

definition renewal_input ::
  "addr \<Rightarrow> client_lib \<Rightarrow> (int \<times> upnp_string option \<times> int \<times> client_lib) option" where
  "renewal_input event L =
     Option.bind (cs_timeout (cl_store L) event) (\<lambda>ev.
       let (tmpSID, e1) = UpnpString_new (cs_alloc (cl_store L))
       in map_option (\<lambda>(_, sid, e2). (to_handle ev, sid, es_TimeOut (to_Event ev), set_alloc e2 L))
            (UpnpString_set_String e1 tmpSID (es_Sid (to_Event ev))))"

definition make_callback :: "client_event \<Rightarrow> handle_info \<Rightarrow> client_lib \<Rightarrow> client_lib" where
  "make_callback ev hi L = L\<lparr>cl_calls := cl_calls L @ [(hi_Callback hi, ev, hi_Cookie hi)]\<rparr>"

definition renewal_done :: "addr \<Rightarrow> int \<Rightarrow> int \<Rightarrow> client_lib \<Rightarrow> client_lib option" where
  "renewal_done event errCode timeout L =
     Option.bind (cs_timeout (cl_store L) event) (\<lambda>ev.
       let es = (to_Event ev)\<lparr>es_ErrCode := errCode, es_TimeOut := timeout\<rparr>;
           s1 = (cl_store L)\<lparr>cs_timeout := (cs_timeout (cl_store L))(event \<mapsto> ev\<lparr>to_Event := es\<rparr>)\<rparr>;
           L1 = set_store s1 L;
           send_callback = (errCode \<noteq> UPNP_E_SUCCESS \<and> errCode \<noteq> GENA_E_BAD_SID \<and> errCode \<noteq> GENA_E_BAD_HANDLE);
           L2 = (if send_callback then
                   (case GetHandleInfo (to_handle ev) L1 of
                      (HND_CLIENT, Some hi) \<Rightarrow> make_callback (EVENT_AUTORENEWAL_FAILED es) hi L1
                    | _ \<Rightarrow> L1)
                 else L1)
       in map_option (\<lambda>s. set_store s L2) (free_upnp_timeout event (cl_store L2)))"

text \<open>\<open>AUTO_RENEW_TIME\<close> is not 0: the code for that case is never compiled in.\<close>

definition GenaAutoRenewSubscription ::
  "'f gena_net \<Rightarrow> (client_lib \<Rightarrow> client_lib) \<Rightarrow> int \<Rightarrow> addr \<Rightarrow> client_lib \<Rightarrow> client_lib option" where
  "GenaAutoRenewSubscription N other now event L =
     Option.bind (renewal_input event L) (\<lambda>(h, sid, timeout, L1).
     Option.bind (genaRenewSubscription N other now h sid timeout L1) (\<lambda>(errCode, timeout1, L2).
       renewal_done event errCode timeout1 L2))"

section \<open>Unregistering\<close>

text \<open>
  One round of the loop: an end with the result, or a copy of the subscription that was the head of the
  list and has been removed. \<open>N n\<close> and \<open>other n\<close> are the network and the other threads in round \<open>n\<close>.
\<close>

definition genaUnregister_next ::
  "int \<Rightarrow> client_sub \<Rightarrow> client_lib \<Rightarrow> ((int + client_sub) \<times> client_lib) option" where
  "genaUnregister_next client_handle sub_copy L =
     (case GetHandleInfo client_handle L of
        (HND_CLIENT, Some hi) \<Rightarrow>
          if hi_ClientSubList hi = NULL then Some (Inl UPNP_E_SUCCESS, L)
          else
            Option.bind (cs_sub (cl_store L) (hi_ClientSubList hi)) (\<lambda>c.
            Option.bind (UpnpClientSubscription_assign (cs_alloc (cl_store L)) sub_copy c) (\<lambda>(copy, e1).
            map_option (\<lambda>L1. (Inr copy, L1)) (remove_sub client_handle hi (m_SID copy) (set_alloc e1 L))))
      | _ \<Rightarrow> Some (Inl GENA_E_BAD_HANDLE, L))"

partial_function (option) genaUnregister_loop ::
  "(nat \<Rightarrow> 'f gena_net) \<Rightarrow> (nat \<Rightarrow> client_lib \<Rightarrow> client_lib) \<Rightarrow> nat \<Rightarrow> int \<Rightarrow> client_sub \<Rightarrow> client_lib
     \<Rightarrow> (int \<times> client_lib) option"
where
  "genaUnregister_loop N other n client_handle sub_copy L =
     Option.bind (genaUnregister_next client_handle sub_copy L) (\<lambda>(r, L1).
       case r of
         Inl return_code \<Rightarrow> Some (return_code, L1)
       | Inr copy \<Rightarrow>
           Option.bind (gena_unsubscribe (N n) (m_eventURL copy) (m_actualSID copy)) (\<lambda>_.
           Option.bind (free_copy copy (other n L1)) (\<lambda>(copy1, L2).
             genaUnregister_loop N other (Suc n) client_handle copy1 L2)))"

declare genaUnregister_loop.simps [code]

definition genaUnregisterClient ::
  "(nat \<Rightarrow> 'f gena_net) \<Rightarrow> (nat \<Rightarrow> client_lib \<Rightarrow> client_lib) \<Rightarrow> int \<Rightarrow> client_lib \<Rightarrow> (int \<times> client_lib) option" where
  "genaUnregisterClient N other client_handle L =
     Option.bind (UpnpClientSubscription_new (cs_alloc (cl_store L))) (\<lambda>(sub_copy, e1).
       genaUnregister_loop N other 0 client_handle sub_copy (set_alloc e1 L))"

text \<open>
  The end of \<open>UpnpUnRegisterClient\<close> in \<open>upnpapi.c\<close>: the handle is freed, with the list of searches.
\<close>

definition UpnpUnRegisterClient_free :: "int \<Rightarrow> client_lib \<Rightarrow> int \<times> client_lib" where
  "UpnpUnRegisterClient_free Hnd L =
     (if fst (GetHandleInfo Hnd L) = HND_INVALID then (UPNP_E_INVALID_HANDLE, L)
      else (UPNP_E_SUCCESS, (snd (FreeHandle Hnd L))\<lparr>cl_ClientRegistered := False\<rparr>))"

definition UpnpUnRegisterClient ::
  "(nat \<Rightarrow> 'f gena_net) \<Rightarrow> (nat \<Rightarrow> client_lib \<Rightarrow> client_lib) \<Rightarrow> (client_lib \<Rightarrow> client_lib) \<Rightarrow> int \<Rightarrow> client_lib
     \<Rightarrow> (int \<times> client_lib) option"
where
  "UpnpUnRegisterClient N other other' Hnd L =
     (if cl_SdkInit L \<noteq> 1 then Some (UPNP_E_FINISH, L)
      else if \<not> cl_ClientRegistered L then Some (UPNP_E_INVALID_HANDLE, L)
      else
        map_option
          (\<lambda>(rc, L1). if rc \<noteq> UPNP_E_SUCCESS then (UPNP_E_INVALID_HANDLE, L1) else UpnpUnRegisterClient_free Hnd (other' L1))
          (genaUnregisterClient N other Hnd L))"

section \<open>Notifications\<close>

text \<open>The code to refuse with, or the identifier and the key of the event.\<close>

definition parse_notification :: "net_env \<Rightarrow> http_message \<Rightarrow> (int + string \<times> int) option" where
  "parse_notification env event =
     (case hdr_value event HDR_SID of
        None \<Rightarrow> Some (Inl HTTP_PRECONDITION_FAILED)
      | Some sid_hdr \<Rightarrow>
          (case hdr_value event HDR_SEQ of
             None \<Rightarrow> Some (Inl HTTP_BAD_REQUEST)
           | Some seq_hdr \<Rightarrow>
               Option.bind (matchstr env (mp_buf seq_hdr) (mp_length seq_hdr) ''%d%0'') (\<lambda>(st, outs).
                 if st \<noteq> PARSE_OK then Some (Inl HTTP_BAD_REQUEST)
                 else
                   (case (hdr_value event HDR_NT, hdr_value event HDR_NTS) of
                      (Some nt_hdr, Some nts_hdr) \<Rightarrow>
                        if memptr_cmp nt_hdr ''upnp:event'' \<noteq> 0 \<or> memptr_cmp nts_hdr ''upnp:propchange'' \<noteq> 0
                        then Some (Inl HTTP_PRECONDITION_FAILED)
                        else Some (Inr (take (mp_length sid_hdr) (mp_buf sid_hdr),
                                        case outs of [IntArg eventKey] \<Rightarrow> eventKey | _ \<Rightarrow> 0))
                    | _ \<Rightarrow> Some (Inl HTTP_BAD_REQUEST)))))"

text \<open>The client, and its subscription that has the identifier of the event.\<close>

definition notified_subscription :: "string \<Rightarrow> client_lib \<Rightarrow> (handle_info option \<times> addr) option" where
  "notified_subscription sid L =
     (case GetClientHandleInfo L of
        (HND_CLIENT, _, Some hi) \<Rightarrow>
          map_option (\<lambda>sub. (Some hi, sub)) (GetClientSubActualSID (hi_ClientSubList hi) sid (cl_store L))
      | _ \<Rightarrow> Some (None, NULL))"

definition deliver_event ::
  "'f gena_net \<Rightarrow> http_message \<Rightarrow> int \<Rightarrow> handle_info \<Rightarrow> addr \<Rightarrow> client_lib \<Rightarrow> (int \<times> client_lib) option" where
  "deliver_event N event eventKey hi subscription L =
     Option.bind (error_respond N 200 event) (\<lambda>_.
     Option.bind (cs_sub (cl_store L) subscription) (\<lambda>c.
     Option.bind (c_text (m_SID c)) (\<lambda>sid.
       Some (200, make_callback (EVENT_RECEIVED (strncpy_bytes sid (SIZEOF_Upnp_SID - 1) @ [NUL]) eventKey) hi L))))"

text \<open>
  The status that is answered. \<open>other\<close> is what happens while the first event of a subscription waits
  for the subscription to be made.
\<close>

definition gena_process_notification_event ::
  "'f gena_net \<Rightarrow> (client_lib \<Rightarrow> client_lib) \<Rightarrow> http_message \<Rightarrow> client_lib \<Rightarrow> (int \<times> client_lib) option" where
  "gena_process_notification_event N other event L =
     (let refuse = (\<lambda>st L. map_option (\<lambda>_. (st, L)) (error_respond N st event))
      in Option.bind (parse_notification (gn_env N) event) (\<lambda>p.
           case p of
             Inl st \<Rightarrow> refuse st L
           | Inr (sid, eventKey) \<Rightarrow>
               Option.bind (notified_subscription sid L) (\<lambda>(hi, subscription).
                 case hi of
                   None \<Rightarrow> refuse HTTP_PRECONDITION_FAILED L
                 | Some hi \<Rightarrow>
                     if subscription \<noteq> NULL then deliver_event N event eventKey hi subscription L
                     else if eventKey \<noteq> 0 then refuse HTTP_PRECONDITION_FAILED L
                     else
                       (let L1 = other L
                        in Option.bind (notified_subscription sid L1) (\<lambda>(hi1, subscription1).
                             case hi1 of
                               None \<Rightarrow> refuse HTTP_PRECONDITION_FAILED L1
                             | Some hi1 \<Rightarrow>
                                 if subscription1 = NULL then refuse HTTP_PRECONDITION_FAILED L1
                                 else deliver_event N event eventKey hi1 subscription1 L1)))))"

definition genaCallback ::
  "'f gena_net \<Rightarrow> (client_lib \<Rightarrow> client_lib) \<Rightarrow> http_message \<Rightarrow> client_lib \<Rightarrow> (int \<times> client_lib) option" where
  "genaCallback N other request L =
     (if hm_method request = HTTPMETHOD_NOTIFY then gena_process_notification_event N other request L
      else map_option (\<lambda>_. (501, L)) (error_respond N 501 request))"

end
