(* ===== verification/Ssdp.thy ===== *)
theory Ssdp
  imports Gena
begin

text \<open>
  Discovery, \<open>upnp/src/ssdp/ssdp_server.c\<close> and \<open>ssdp_ctrlpt.c\<close>: the packets of a search, the datagrams
  that are received and handed to the thread pool as jobs, what they tell the application, and the
  list of searches that are waiting for replies. The library is taken as configured with IPv6.

  The state is that of the library with the three kinds of blocks the jobs of this module work on: a
  datagram with its parser, a search result on its way to the application, and the number of a timer
  event. A job has the address of its block; a block that is freed is no longer in its map, so that a
  second free, or a use after it, has the value \<open>None\<close>. \<open>add\<close> is \<open>ThreadPoolAdd\<close> on a pool of type \<open>'p\<close>.
\<close>

section \<open>State\<close>

definition BUFSIZE :: nat where "BUFSIZE = 2500"
definition COMMAND_LEN :: nat where "COMMAND_LEN = 300"
definition SSDP_IP :: string where "SSDP_IP = ''239.255.255.250''"
definition SSDP_IPV6_LINKLOCAL :: string where "SSDP_IPV6_LINKLOCAL = ''FF02::C''"
definition SSDP_IPV6_SITELOCAL :: string where "SSDP_IPV6_SITELOCAL = ''FF05::C''"
definition SSDP_PORT :: int where "SSDP_PORT = 1900"
definition MAX_SEARCH_TIME :: int where "MAX_SEARCH_TIME = 80"
definition MIN_SEARCH_TIME :: int where "MIN_SEARCH_TIME = 2"
definition NUM_SSDP_COPY :: nat where "NUM_SSDP_COPY = 2"

definition HDR_HOST :: int where "HDR_HOST = 7"
definition HDR_LOCATION :: int where "HDR_LOCATION = 11"
definition HDR_ST :: int where "HDR_ST = 20"
definition HDR_DT :: int where "HDR_DT = 23"
definition HDR_UID :: int where "HDR_UID = 37"

abbreviation (input) UPNP_E_INTERNAL_ERROR :: int where "UPNP_E_INTERNAL_ERROR \<equiv> -911"
abbreviation (input) UPNP_E_INVALID_ARGUMENT :: int where "UPNP_E_INVALID_ARGUMENT \<equiv> -501"
abbreviation (input) UPNP_E_BUFFER_TOO_SMALL :: int where "UPNP_E_BUFFER_TOO_SMALL \<equiv> -106"
abbreviation (input) NO_ERROR_FOUND :: int where "NO_ERROR_FOUND \<equiv> 0"
abbreviation (input) E_HTTP_SYNTEX :: int where "E_HTTP_SYNTEX \<equiv> -6"

definition SIZEOF_ssdp_thread_data :: nat where "SIZEOF_ssdp_thread_data = 560"
definition SIZEOF_ResultData :: nat where "SIZEOF_ResultData = 696"
definition SIZEOF_SsdpSearchArg :: nat where "SIZEOF_SsdpSearchArg = 32"

definition ssdp_event_handler_thread_addr :: addr where "ssdp_event_handler_thread_addr = 103"
definition free_ssdp_event_handler_data_addr :: addr where "free_ssdp_event_handler_data_addr = 104"
definition send_search_result_addr :: addr where "send_search_result_addr = 105"
definition searchExpired_addr :: addr where "searchExpired_addr = 106"
definition free_addr :: addr where "free_addr = 107"

record ssdp_event =
  ev_RequestType :: SsdpSearchType
  ev_ErrCode :: int
  ev_MaxAge :: int
  ev_Mx :: int
  ev_DeviceType :: string
  ev_UID :: string
  ev_SearchType :: string
  ev_Location :: string
  ev_HostAddr :: string
  ev_DestAddr :: addr
  ev_Cookie :: addr

record thread_data =
  td_parser :: http_parser
  td_dest_addr :: "int \<times> string"

record result_data =
  rd_param :: discovery
  rd_cookie :: nat
  rd_callback :: nat

record ssdp_state =
  ss_lib :: client_lib
  ss_data :: "addr \<Rightarrow> thread_data option"
  ss_result :: "addr \<Rightarrow> result_data option"
  ss_id :: "addr \<Rightarrow> int option"
  ss_brk :: addr

type_synonym 'p job_add = "ThreadPoolJob \<Rightarrow> 'p \<Rightarrow> int \<times> 'p"

abbreviation ss_alloc :: "ssdp_state \<Rightarrow> alloc_env" where "ss_alloc S \<equiv> cs_alloc (cl_store (ss_lib S))"

definition set_ss_alloc :: "alloc_env \<Rightarrow> ssdp_state \<Rightarrow> ssdp_state" where
  "set_ss_alloc e S = S\<lparr>ss_lib := set_alloc e (ss_lib S)\<rparr>"

text \<open>A job of medium priority with its argument and its free function.\<close>

definition med_job :: "addr \<Rightarrow> addr \<Rightarrow> addr \<Rightarrow> ThreadPoolJob" where
  "med_job func arg free_func =
     (let (_, j1) = TPJobInit (Some zero_job) func arg;
          (_, j2) = TPJobSetPriority j1 MED_PRIORITY;
          (_, j3) = TPJobSetFreeFunction j2 free_func
      in the j3)"

section \<open>Search targets\<close>

text \<open>\<open>strstr(s, pat) != NULL\<close>.\<close>

definition strstr_found :: "string \<Rightarrow> string \<Rightarrow> bool" where
  "strstr_found s pat \<longleftrightarrow> strstr_from s pat 0 \<noteq> -1"

definition ssdp_request_type1 :: "string \<Rightarrow> SsdpSearchType" where
  "ssdp_request_type1 cmd =
     (if strstr_found cmd '':all'' then SSDP_ALL
      else if strstr_found cmd ''urn:'' \<and> strstr_found cmd '':device:'' then SSDP_DEVICETYPE
      else SSDP_SERROR)"

text \<open>The number of bytes copied is the size of a pointer: \<open>sizeof(Evt->SearchType - 1)\<close>.\<close>

definition unique_service_name :: "string \<Rightarrow> ssdp_event \<Rightarrow> int \<times> ssdp_event" where
  "unique_service_name cmd Evt =
     (if strstr_found cmd ''urn:'' \<and> strstr_found cmd '':device:'' then
        (0, Evt\<lparr>ev_SearchType := strncpy_bytes (drop (nat (strstr_from cmd ''urn'' 0)) cmd) 8 @ replicate (LINE_SIZE - 8) NUL\<rparr>)
      else (-1, Evt))"

definition ssdp_request_type :: "string \<Rightarrow> ssdp_event \<Rightarrow> int \<times> ssdp_event" where
  "ssdp_request_type cmd Evt =
     (let (_, e1) = unique_service_name cmd Evt;
          t = ssdp_request_type1 cmd;
          e2 = e1\<lparr>ev_ErrCode := NO_ERROR_FOUND, ev_RequestType := t\<rparr>
      in if t = SSDP_SERROR then (-1, e2\<lparr>ev_ErrCode := E_HTTP_SYNTEX\<rparr>) else (0, e2))"

section \<open>The packet of a search\<close>

text \<open>
  \<open>snprintf\<close> into the temporary buffer, and \<open>strcat\<close> of it when there is room; the code to fail with,
  or the longer text.
\<close>

definition print_part :: "nat \<Rightarrow> string \<Rightarrow> string \<Rightarrow> int + string" where
  "print_part RqstBufSize buf t =
     (if List.length t \<ge> COMMAND_LEN then Inl UPNP_E_INTERNAL_ERROR
      else if RqstBufSize \<le> List.length buf + List.length t then Inl UPNP_E_BUFFER_TOO_SMALL
      else Inr (buf @ t))"

definition add_part :: "nat \<Rightarrow> string \<Rightarrow> string \<Rightarrow> int + string" where
  "add_part RqstBufSize buf t =
     (if RqstBufSize \<le> List.length buf + List.length t then Inl UPNP_E_BUFFER_TOO_SMALL else Inr (buf @ t))"

abbreviation and_then :: "int + string \<Rightarrow> (string \<Rightarrow> int + string) \<Rightarrow> int + string" where
  "and_then r f \<equiv> (case r of Inl rc \<Rightarrow> Inl rc | Inr b \<Rightarrow> f b)"

definition search_packet :: "nat \<Rightarrow> string \<Rightarrow> int \<Rightarrow> string option \<Rightarrow> int + string" where
  "search_packet RqstBufSize host Mx SearchTarget =
     and_then (print_part RqstBufSize (''M-SEARCH * HTTP/1.1'' @ CRLF) host) (\<lambda>b.
     and_then (add_part RqstBufSize b (''MAN: '' @ [CHR 0x22] @ ''ssdp:discover'' @ [CHR 0x22] @ CRLF)) (\<lambda>b.
     and_then (if Mx > 0 then print_part RqstBufSize b (''MX: '' @ show_int Mx @ CRLF) else Inr b) (\<lambda>b.
     and_then (case SearchTarget of None \<Rightarrow> Inr b | Some t \<Rightarrow> print_part RqstBufSize b (''ST: '' @ t @ CRLF)) (\<lambda>b.
       add_part RqstBufSize b CRLF))))"

definition host_line4 :: string where
  "host_line4 = ''HOST: '' @ SSDP_IP @ '':'' @ show_int SSDP_PORT @ CRLF"

definition host_line6 :: "string \<Rightarrow> string" where
  "host_line6 ip = ''HOST: ['' @ ip @ '']:'' @ show_int SSDP_PORT @ CRLF"

definition CreateClientRequestPacket :: "nat \<Rightarrow> int \<Rightarrow> string option \<Rightarrow> int \<Rightarrow> int + string" where
  "CreateClientRequestPacket RqstBufSize Mx SearchTarget AddressFamily =
     (if RqstBufSize \<le> List.length (''M-SEARCH * HTTP/1.1'' @ CRLF) then Inl UPNP_E_INTERNAL_ERROR
      else if AddressFamily = AF_INET then search_packet RqstBufSize host_line4 Mx SearchTarget
      else if AddressFamily = AF_INET6 then search_packet RqstBufSize (host_line6 SSDP_IPV6_LINKLOCAL) Mx SearchTarget
      else Inl UPNP_E_INVALID_ARGUMENT)"

definition CreateClientRequestPacketUlaGua :: "nat \<Rightarrow> int \<Rightarrow> string option \<Rightarrow> int \<Rightarrow> int + string" where
  "CreateClientRequestPacketUlaGua RqstBufSize Mx SearchTarget AddressFamily =
     (if RqstBufSize \<le> List.length (''M-SEARCH * HTTP/1.1'' @ CRLF) then Inl UPNP_E_INTERNAL_ERROR
      else if AddressFamily = AF_INET then search_packet RqstBufSize host_line4 Mx SearchTarget
      else if AddressFamily = AF_INET6 then search_packet RqstBufSize (host_line6 SSDP_IPV6_SITELOCAL) Mx SearchTarget
      else Inl UPNP_E_INVALID_ARGUMENT)"

section \<open>Datagrams\<close>

definition free_ssdp_event_handler_data :: "addr \<Rightarrow> ssdp_state \<Rightarrow> ssdp_state option" where
  "free_ssdp_event_handler_data data S =
     (if data = NULL then Some S
      else map_option (\<lambda>_. S\<lparr>ss_data := (ss_data S)(data := None)\<rparr>) (ss_data S data))"

definition ssdp_hosts :: "string list" where
  "ssdp_hosts =
     [''239.255.255.250:1900'', ''[FF02::C]:1900'', ''[ff02::c]:1900'', ''[FF05::C]:1900'', ''[ff05::c]:1900'']"

text \<open>The tokens of the URI point into the text of the URL, which the message has unless it is a response.\<close>

definition valid_ssdp_msg :: "http_message \<Rightarrow> bool" where
  "valid_ssdp_msg hmsg \<longleftrightarrow>
     (if hm_method hmsg \<noteq> HTTPMETHOD_NOTIFY \<and> hm_method hmsg \<noteq> HTTPMETHOD_MSEARCH \<and>
         hm_request_method hmsg \<noteq> HTTPMETHOD_MSEARCH then False
      else if hm_request_method hmsg \<noteq> HTTPMETHOD_MSEARCH then
        (if u_type (hm_uri hmsg) \<noteq> RELATIVE \<or>
            strncmp ''*'' (token_bytes (case hm_urlbuf hmsg of None \<Rightarrow> [] | Some t \<Rightarrow> t) (u_pathquery (hm_uri hmsg)))
              (tk_size (u_pathquery (hm_uri hmsg))) \<noteq> 0 then False
         else case hdr_value hmsg HDR_HOST of
                None \<Rightarrow> False
              | Some v \<Rightarrow> list_ex (\<lambda>h. memptr_cmp v h = 0) ssdp_hosts)
      else True)"

text \<open>0, or -1 when the message is bad and its block has been freed.\<close>

definition start_event_handler :: "net_env \<Rightarrow> addr \<Rightarrow> ssdp_state \<Rightarrow> (int \<times> ssdp_state) option" where
  "start_event_handler env data S =
     Option.bind (ss_data S data) (\<lambda>d.
     Option.bind (parser_parse env (ss_alloc S) (td_parser d)) (\<lambda>(status, e, parser).
       let S1 = (set_ss_alloc e S)\<lparr>ss_data := (ss_data S)(data \<mapsto> d\<lparr>td_parser := parser\<rparr>)\<rparr>;
           bad = (if status = PARSE_FAILURE
                  then hm_method (p_msg parser) \<noteq> HTTPMETHOD_NOTIFY \<or> \<not> p_valid_ssdp_notify_hack parser
                  else status \<noteq> PARSE_SUCCESS)
       in if bad \<or> \<not> valid_ssdp_msg (p_msg parser)
          then map_option (\<lambda>S2. (-1, S2)) (free_ssdp_event_handler_data data S1)
          else Some (0, S1)))"

text \<open>
  What is received from the socket; \<open>request_socket\<close> is one of the two that searches are sent from. At
  most \<open>BUFSIZE - 1\<close> bytes are received, \<open>byteReceived\<close> is not positive when nothing is.
\<close>

definition received_parser :: "bool \<Rightarrow> http_parser" where
  "received_parser request_socket =
     (if request_socket then parser_response_init HTTPMETHOD_MSEARCH else parser_request_init)"

definition readFromSSDPSocket ::
  "'p job_add \<Rightarrow> bool \<Rightarrow> int \<Rightarrow> string \<Rightarrow> int \<times> string \<Rightarrow> ssdp_state \<Rightarrow> 'p \<Rightarrow> (ssdp_state \<times> 'p) option"
where
  "readFromSSDPSocket add request_socket byteReceived received ss S p =
     (case malloc_ok (ss_alloc S) SIZEOF_ssdp_thread_data of
        (False, e1) \<Rightarrow> Some (set_ss_alloc e1 S, p)
      | (True, e1) \<Rightarrow>
          (let parser = received_parser request_socket;
               (rc, e2, b) = membuffer_set_size e1 (hm_msg (p_msg parser)) BUFSIZE;
               S1 = set_ss_alloc e2 S
           in if rc \<noteq> 0 \<or> byteReceived \<le> 0 then Some (S1, p)
              else
                Option.bind (mb_buf b) (\<lambda>buf.
                Option.bind (block_write buf 0 (received @ [NUL])) (\<lambda>buf1.
                  let b1 = b\<lparr>mb_buf := Some buf1, mb_length := mb_length b + nat byteReceived\<rparr>;
                      data = ss_brk S;
                      S2 = S1\<lparr>ss_data := (ss_data S)(data \<mapsto>
                                  \<lparr>td_parser = upd_msg (\<lambda>m. m\<lparr>hm_msg := b1\<rparr>) parser, td_dest_addr = ss\<rparr>),
                              ss_brk := Suc data\<rparr>;
                      (rc, p1) = add (med_job ssdp_event_handler_thread_addr data free_ssdp_event_handler_data_addr) p
                  in if rc \<noteq> 0 then map_option (\<lambda>S3. (S3, p1)) (free_ssdp_event_handler_data data S2)
                     else Some (S2, p1)))))"

section \<open>What a message tells the application\<close>

text \<open>A value with its terminator put behind it, as a C string.\<close>

definition terminated_value :: "memptr \<Rightarrow> string option" where
  "terminated_value v = (if mp_length v < List.length (mp_buf v) then Some (cstr (take (mp_length v) (mp_buf v))) else None)"

text \<open>\<open>ohm\<close> is \<open>OhmSearchType\<close>, which the application defines.\<close>

definition has_ohm_type :: "string \<Rightarrow> memptr option \<Rightarrow> bool option" where
  "has_ohm_type ohm v =
     (case v of
        None \<Rightarrow> Some False
      | Some v \<Rightarrow> map_option (\<lambda>s. strncmp s ohm (List.length ohm) = 0) (terminated_value v))"

text \<open>The array of a field of the callback's argument: as many bytes as the header has.\<close>

definition copy_header :: "memptr option \<Rightarrow> string option" where
  "copy_header v =
     (case v of
        None \<Rightarrow> Some (replicate LINE_SIZE NUL)
      | Some v \<Rightarrow>
          Option.bind (terminated_value v) (\<lambda>s. block_write (replicate LINE_SIZE NUL) 0 (strncpy_bytes s (mp_length v))))"

definition copy_location :: "memptr option \<Rightarrow> string option" where
  "copy_location v =
     (case v of
        None \<Rightarrow> Some []
      | Some v \<Rightarrow> map_option cstr (linecopylen (replicate LINE_SIZE NUL) (mp_buf v) (mp_length v)))"

definition discovery_param :: "http_message \<Rightarrow> int \<times> string \<Rightarrow> discovery option" where
  "discovery_param hmsg dest_addr =
     Option.bind (copy_location (hdr_value hmsg HDR_LOCATION)) (\<lambda>loc.
     Option.bind (copy_header (hdr_value hmsg HDR_DT)) (\<lambda>dt.
     Option.bind (copy_header (hdr_value hmsg HDR_UID)) (\<lambda>uid.
       Some \<lparr>d_ErrCode = UPNP_E_SUCCESS, d_UID = uid, d_DeviceType = dt, d_Location = loc, d_DestAddr = dest_addr\<rparr>)))"

text \<open>The event of a request, if it is one to report.\<close>

definition advertisement :: "http_message \<Rightarrow> bool \<Rightarrow> discovery \<Rightarrow> client_event option" where
  "advertisement hmsg nt_found param =
     (case hdr_value hmsg HDR_NTS of
        None \<Rightarrow> None
      | Some v \<Rightarrow>
          if memptr_cmp v ''ssdp:alive'' = 0 then
            (if \<not> nt_found \<or> d_Location param = [] then None else Some (DISCOVERY_ADVERTISEMENT_ALIVE param))
          else if memptr_cmp v ''ssdp:byebye'' = 0 then
            (if \<not> nt_found then None else Some (DISCOVERY_ADVERTISEMENT_BYEBYE param))
          else None)"

text \<open>Whether a reply with this search target answers a search.\<close>

definition search_matches :: "search_arg \<Rightarrow> memptr \<Rightarrow> bool option" where
  "search_matches searchArg v =
     (case sa_requestType searchArg of
        SSDP_ALL \<Rightarrow> Some True
      | SSDP_DEVICEUDN \<Rightarrow>
          map_option (\<lambda>t. strncmp t (mp_buf v) (mp_length v) = 0) (sa_searchTarget searchArg)
      | SSDP_DEVICETYPE \<Rightarrow>
          map_option (\<lambda>t. strncmp t (mp_buf v) (min (mp_length v) (List.length t)) = 0) (sa_searchTarget searchArg)
      | SSDP_SERVICE \<Rightarrow>
          map_option (\<lambda>t. strncmp t (mp_buf v) (min (mp_length v) (List.length t)) = 0) (sa_searchTarget searchArg)
      | _ \<Rightarrow> Some False)"

text \<open>A search result on its way: a block of its own, and a job that the pool may refuse.\<close>

definition schedule_result ::
  "'p job_add \<Rightarrow> discovery \<Rightarrow> nat \<Rightarrow> nat \<Rightarrow> ssdp_state \<Rightarrow> 'p \<Rightarrow> ssdp_state \<times> 'p" where
  "schedule_result add param callback cookie S p =
     (case malloc_ok (ss_alloc S) SIZEOF_ResultData of
        (False, e1) \<Rightarrow> (set_ss_alloc e1 S, p)
      | (True, e1) \<Rightarrow>
          (let threadData = ss_brk S;
               S1 = (set_ss_alloc e1 S)\<lparr>ss_brk := Suc threadData\<rparr>;
               (rc, p1) = add (med_job send_search_result_addr threadData free_addr) p
           in if rc \<noteq> 0 then (S1, p1)
              else (S1\<lparr>ss_result := (ss_result S)(threadData \<mapsto>
                         \<lparr>rd_param = param, rd_cookie = cookie, rd_callback = callback\<rparr>)\<rparr>, p1)))"

fun reply_loop ::
  "'p job_add \<Rightarrow> discovery \<Rightarrow> nat \<Rightarrow> memptr \<Rightarrow> search_arg list \<Rightarrow> ssdp_state \<Rightarrow> 'p \<Rightarrow> (ssdp_state \<times> 'p) option" where
  "reply_loop add param callback v [] S p = Some (S, p)"
| "reply_loop add param callback v (searchArg # sas) S p =
     Option.bind (search_matches searchArg v) (\<lambda>matched.
       let (S1, p1) = (if matched then schedule_result add param callback (sa_cookie searchArg) S p else (S, p))
       in reply_loop add param callback v sas S1 p1)"

text \<open>A reply to a search, while the handle lock is held: nothing happens without a client.\<close>

definition handle_reply ::
  "'p job_add \<Rightarrow> string \<Rightarrow> http_message \<Rightarrow> discovery \<Rightarrow> nat \<Rightarrow> ssdp_state \<Rightarrow> 'p \<Rightarrow> (ssdp_state \<times> 'p) option" where
  "handle_reply add ohm hmsg param callback S p =
     (let st = hdr_value hmsg HDR_ST
      in Option.bind (has_ohm_type ohm st) (\<lambda>st_found.
           if hm_status_code hmsg \<noteq> 200 \<or> d_Location param = [] \<or> \<not> st_found then Some (S, p)
           else
             (case GetClientHandleInfo (ss_lib S) of
                (HND_CLIENT, _, Some hi) \<Rightarrow>
                  reply_loop add param callback (the st) (q_items (hi_SsdpSearchList hi)) S p
              | _ \<Rightarrow> Some (S, p))))"

definition call_client :: "nat \<Rightarrow> client_event \<Rightarrow> nat \<Rightarrow> ssdp_state \<Rightarrow> ssdp_state" where
  "call_client callback ev cookie S = S\<lparr>ss_lib := (ss_lib S)\<lparr>cl_calls := cl_calls (ss_lib S) @ [(callback, ev, cookie)]\<rparr>\<rparr>"

text \<open>
  The client's callback and cookie, which \<open>ssdp_handle_ctrlpt_msg\<close> copies the first time it holds the
  lock, and what it does after it has given the lock up.
\<close>

definition client_callback :: "ssdp_state \<Rightarrow> (nat \<times> nat) option" where
  "client_callback S =
     (case GetClientHandleInfo (ss_lib S) of
        (HND_CLIENT, _, Some hi) \<Rightarrow> Some (hi_Callback hi, hi_Cookie hi)
      | _ \<Rightarrow> None)"

definition handle_msg ::
  "'p job_add \<Rightarrow> string \<Rightarrow> http_message \<Rightarrow> int \<times> string \<Rightarrow> bool \<Rightarrow> nat \<Rightarrow> nat \<times> nat \<Rightarrow> ssdp_state \<Rightarrow> 'p
     \<Rightarrow> (ssdp_state \<times> 'p) option"
where
  "handle_msg add ohm hmsg dest_addr timeout cookie client S p =
     (case client of (ctrlpt_callback, ctrlpt_cookie) \<Rightarrow>
        if timeout then Some (call_client ctrlpt_callback DISCOVERY_SEARCH_TIMEOUT cookie S, p)
        else
          Option.bind (discovery_param hmsg dest_addr) (\<lambda>param.
          Option.bind (has_ohm_type ohm (hdr_value hmsg HDR_NT)) (\<lambda>nt_found.
            if hm_is_request hmsg then
              Some (case advertisement hmsg nt_found param of
                      None \<Rightarrow> (S, p)
                    | Some ev \<Rightarrow> (call_client ctrlpt_callback ev ctrlpt_cookie S, p))
            else handle_reply add ohm hmsg param ctrlpt_callback S p)))"

text \<open>\<open>other\<close> is what other threads do in between.\<close>

definition ssdp_handle_ctrlpt_msg ::
  "'p job_add \<Rightarrow> string \<Rightarrow> (ssdp_state \<Rightarrow> 'p \<Rightarrow> ssdp_state \<times> 'p) \<Rightarrow> http_message \<Rightarrow> int \<times> string \<Rightarrow> bool \<Rightarrow> nat \<Rightarrow> ssdp_state \<Rightarrow> 'p
     \<Rightarrow> (ssdp_state \<times> 'p) option"
where
  "ssdp_handle_ctrlpt_msg add ohm other hmsg dest_addr timeout cookie S p =
     (case client_callback S of
        None \<Rightarrow> Some (S, p)
      | Some client \<Rightarrow> (case other S p of (S1, p1) \<Rightarrow> handle_msg add ohm hmsg dest_addr timeout cookie client S1 p1))"

definition is_ctrlpt_msg :: "http_message \<Rightarrow> bool" where
  "is_ctrlpt_msg hmsg \<longleftrightarrow> hm_method hmsg = HTTPMETHOD_NOTIFY \<or> hm_request_method hmsg = HTTPMETHOD_MSEARCH"

definition ssdp_event_handler_thread ::
  "'p job_add \<Rightarrow> net_env \<Rightarrow> string \<Rightarrow> (ssdp_state \<Rightarrow> 'p \<Rightarrow> ssdp_state \<times> 'p) \<Rightarrow> addr \<Rightarrow> ssdp_state \<Rightarrow> 'p
     \<Rightarrow> (ssdp_state \<times> 'p) option"
where
  "ssdp_event_handler_thread add env ohm other data S p =
     Option.bind (start_event_handler env data S) (\<lambda>(rc, S1).
       if rc \<noteq> 0 then Some (S1, p)
       else
         Option.bind (ss_data S1 data) (\<lambda>d.
         Option.bind
           (if is_ctrlpt_msg (p_msg (td_parser d))
            then ssdp_handle_ctrlpt_msg add ohm other (p_msg (td_parser d)) (td_dest_addr d) False 0 S1 p
            else Some (S1, p)) (\<lambda>(S2, p2).
           map_option (\<lambda>S3. (S3, p2)) (free_ssdp_event_handler_data data S2))))"

definition send_search_result :: "addr \<Rightarrow> ssdp_state \<Rightarrow> ssdp_state option" where
  "send_search_result data S =
     map_option
       (\<lambda>temp. (call_client (rd_callback temp) (DISCOVERY_SEARCH_RESULT (rd_param temp)) (rd_cookie temp) S)
                 \<lparr>ss_result := (ss_result S)(data := None)\<rparr>)
       (ss_result S data)"

section \<open>Searching\<close>

text \<open>The end of a search: its entry, if it is still there, is removed and the application told.\<close>

definition set_searches :: "int \<Rightarrow> handle_info \<Rightarrow> search_arg queue \<Rightarrow> ssdp_state \<Rightarrow> ssdp_state" where
  "set_searches h hi q S = S\<lparr>ss_lib := set_handle h (hi\<lparr>hi_SsdpSearchList := q\<rparr>) (ss_lib S)\<rparr>"

definition searchExpired :: "addr \<Rightarrow> ssdp_state \<Rightarrow> ssdp_state option" where
  "searchExpired arg S =
     Option.bind (ss_id S arg) (\<lambda>i.
       let S1 = S\<lparr>ss_id := (ss_id S)(arg := None)\<rparr>
       in Some (case GetClientHandleInfo (ss_lib S) of
                  (HND_CLIENT, h, Some hi) \<Rightarrow>
                    (case find_index (\<lambda>item. sa_timeoutEventId item = i) (q_items (hi_SsdpSearchList hi)) of
                       None \<Rightarrow> S1
                     | Some k \<Rightarrow>
                         call_client (hi_Callback hi) DISCOVERY_SEARCH_TIMEOUT (sa_cookie (q_items (hi_SsdpSearchList hi) ! k))
                           (set_searches h hi (q_remove_at (hi_SsdpSearchList hi) k) S1))
                | _ \<Rightarrow> S1))"

text \<open>
  The part of \<open>SearchByTarget\<close> that holds the lock: a new search in the list, and the event that ends
  it. The results of \<open>malloc\<close> and \<open>strdup\<close> are not looked at, nor are those of the timer and of the
  list; \<open>*id\<close> is \<open>garbage\<close> until the timer sets it.
\<close>

definition add_search ::
  "int \<Rightarrow> int \<Rightarrow> int \<Rightarrow> string \<Rightarrow> nat \<Rightarrow> SsdpSearchType \<Rightarrow> ssdp_state \<Rightarrow> (int \<times> ssdp_state) option" where
  "add_search now garbage timeTillRead St Cookie requestType S =
     (case GetClientHandleInfo (ss_lib S) of
        (HND_CLIENT, h, Some hi) \<Rightarrow>
          (case malloc_ok (ss_alloc S) SIZEOF_SsdpSearchArg of
             (False, _) \<Rightarrow> None
           | (True, e1) \<Rightarrow>
               Option.bind (strdup e1 (St @ [NUL])) (\<lambda>(target, e2).
                 (case malloc_ok e2 4 of
                    (False, _) \<Rightarrow> None
                  | (True, e3) \<Rightarrow>
                      (let a = ss_brk S; s = cl_store (ss_lib S);
                           (rc, i, t) = TimerThreadSchedule now (Some (cs_timer s)) timeTillRead REL_SEC
                                          (Some (med_job searchExpired_addr a free_addr)) SHORT_TERM;
                           event_id = (case i of None \<Rightarrow> garbage | Some i \<Rightarrow> i);
                           newArg = \<lparr>sa_timeoutEventId = event_id, sa_searchTarget = map_option cstr target,
                                     sa_cookie = Cookie, sa_requestType = requestType\<rparr>;
                           (ok, orc, q) = q_add_tail (oom e3) (hi_SsdpSearchList hi) newArg;
                           S1 = S\<lparr>ss_lib := (ss_lib S)\<lparr>cl_store := s\<lparr>cs_alloc := e3\<lparr>oom := orc\<rparr>, cs_timer := the t\<rparr>\<rparr>,
                                  ss_id := (ss_id S)(a \<mapsto> event_id), ss_brk := Suc a\<rparr>
                       in Some (0, set_searches h hi q S1)))))
      | _ \<Rightarrow> Some (UPNP_E_INTERNAL_ERROR, S))"

text \<open>
  What the network does with a search: the two sockets, the result of \<open>select\<close>, and which sockets it
  reports ready. A datagram is a socket, the address of the group and the text.
\<close>

record search_net =
  sr_sock4 :: int
  sr_sock6 :: int
  sr_select :: int
  sr_ready4 :: bool
  sr_ready6 :: bool

definition send_search :: "search_net \<Rightarrow> string \<Rightarrow> string \<Rightarrow> string \<Rightarrow> int \<times> (int \<times> string \<times> string) list" where
  "send_search N ReqBufv4 ReqBufv6 ReqBufv6UlaGua =
     (if sr_select N = -1 then (UPNP_E_INTERNAL_ERROR, [])
      else
        (1,
         (if sr_sock6 N \<noteq> INVALID_SOCKET \<and> sr_ready6 N
          then replicate NUM_SSDP_COPY (sr_sock6 N, SSDP_IPV6_SITELOCAL, ReqBufv6UlaGua) @
               replicate NUM_SSDP_COPY (sr_sock6 N, SSDP_IPV6_LINKLOCAL, ReqBufv6) else []) @
         (if sr_sock4 N \<noteq> INVALID_SOCKET \<and> sr_ready4 N
          then replicate NUM_SSDP_COPY (sr_sock4 N, SSDP_IP, ReqBufv4) else [])))"

definition search_time :: "int \<Rightarrow> int" where
  "search_time Mx =
     (if Mx < MIN_SEARCH_TIME then MIN_SEARCH_TIME else if Mx > MAX_SEARCH_TIME then MAX_SEARCH_TIME else Mx)"

text \<open>The result, the datagrams sent, and the state. \<open>St\<close> is the text of the target.\<close>

definition SearchByTarget ::
  "search_net \<Rightarrow> int \<Rightarrow> int \<Rightarrow> int \<Rightarrow> string \<Rightarrow> nat \<Rightarrow> ssdp_state
     \<Rightarrow> (int \<times> (int \<times> string \<times> string) list \<times> ssdp_state) option"
where
  "SearchByTarget N now garbage Mx St Cookie S =
     (let requestType = ssdp_request_type1 St; t = search_time Mx
      in if requestType = SSDP_SERROR then Some (UPNP_E_INVALID_PARAM, [], S)
         else case CreateClientRequestPacket BUFSIZE t (Some St) AF_INET of
           Inl retVal \<Rightarrow> Some (retVal, [], S)
         | Inr ReqBufv4 \<Rightarrow>
             (case CreateClientRequestPacket BUFSIZE t (Some St) AF_INET6 of
                Inl retVal \<Rightarrow> Some (retVal, [], S)
              | Inr ReqBufv6 \<Rightarrow>
                  (case CreateClientRequestPacketUlaGua BUFSIZE t (Some St) AF_INET6 of
                     Inl retVal \<Rightarrow> Some (retVal, [], S)
                   | Inr ReqBufv6UlaGua \<Rightarrow>
                       Option.bind (add_search now garbage t St Cookie requestType S) (\<lambda>(rc, S1).
                         if rc \<noteq> 0 then Some (rc, [], S1)
                         else (let (ret, sent) = send_search N ReqBufv4 ReqBufv6 ReqBufv6UlaGua in Some (ret, sent, S1))))))"

end
