(* ===== verification/GenaProps.thy ===== *)
theory GenaProps
  imports Gena
begin

text \<open>
  Eventing is safe however its threads interleave: the subscriptions of a handle are a proper list of
  allocated cells, a waiting renewal has its own data, which is freed once, and while there is memory
  no operation touches freed memory or gets stuck between its exchanges with the publisher.
\<close>

section \<open>The invariant\<close>

text \<open>
  \<open>A\<close> are the data of the renewals that have fired and are being worked on. \<open>p\<close> is the head of the
  client's list.
\<close>

definition cell_ok :: "client_store \<Rightarrow> addr \<Rightarrow> client_sub \<Rightarrow> bool" where
  "cell_ok s a c \<longleftrightarrow> 0 < a \<and> a < cs_brk s \<and> sub_ok c \<and> renews (m_renewEventId c) s"

definition timeout_ok :: "client_store \<Rightarrow> addr \<Rightarrow> upnp_timeout \<Rightarrow> bool" where
  "timeout_ok s a ev \<longleftrightarrow> a < cs_brk s \<and> NUL \<in> set (es_Sid (to_Event ev)) \<and> List.length (es_Sid (to_Event ev)) = SIZEOF_Upnp_SID"

definition store_ok :: "addr list \<Rightarrow> client_store \<Rightarrow> addr \<Rightarrow> bool" where
  "store_ok A s p \<longleftrightarrow>
     oom (cs_alloc s) = [] \<and> tt_oom (cs_timer s) = [] \<and> timeouts_ok A s \<and> 0 < cs_brk s \<and>
     (\<forall>a c. cs_sub s a = Some c \<longrightarrow> cell_ok s a c) \<and>
     (\<forall>a ev. cs_timeout s a = Some ev \<longrightarrow> timeout_ok s a ev) \<and>
     (\<exists>as. sub_list (cs_sub s) p as)"

definition table_ok :: "client_lib \<Rightarrow> bool" where
  "table_ok L \<longleftrightarrow>
     List.length (cl_HandleTable L) = NUM_HANDLE \<and> (\<forall>i < NUM_HANDLE. i \<noteq> Suc 0 \<longrightarrow> cl_HandleTable L ! i = None) \<and>
     (\<forall>hi. cl_HandleTable L ! Suc 0 = Some hi \<longrightarrow> hi_HType hi = HND_CLIENT \<and> cl_ClientRegistered L)"

definition list_head :: "client_lib \<Rightarrow> addr" where
  "list_head L = (case cl_HandleTable L ! Suc 0 of None \<Rightarrow> NULL | Some hi \<Rightarrow> hi_ClientSubList hi)"

definition lib_ok :: "addr list \<Rightarrow> client_lib \<Rightarrow> bool" where
  "lib_ok A L \<longleftrightarrow> table_ok L \<and> store_ok A (cl_store L) (list_head L)"

section \<open>Handles\<close>

lemma client_handle:
  assumes "table_ok L" and "GetHandleInfo h L = (t, hi)"
  shows "t = HND_CLIENT \<and> h = 1 \<and> (\<exists>i. hi = Some i \<and> cl_HandleTable L ! Suc 0 = Some i) \<or> t = HND_INVALID \<and> hi = None"
proof -
  have "h = 1 \<or> h < 1 \<or> h \<ge> int NUM_HANDLE \<or> cl_HandleTable L ! nat h = None"
    using assms(1) by (cases "h = 1 \<or> h < 1 \<or> h \<ge> int NUM_HANDLE") (auto simp: table_ok_def nat_less_iff)
  then show ?thesis using assms by (auto simp: GetHandleInfo_def table_ok_def split: if_splits option.splits dest: sym)
qed

lemma client_handle_cases:
  assumes "table_ok L"
  obtains (client) hi where "GetHandleInfo h L = (HND_CLIENT, Some hi)" "h = 1" "cl_HandleTable L ! Suc 0 = Some hi" "list_head L = hi_ClientSubList hi"
  | (none) "GetHandleInfo h L = (HND_INVALID, None)"
  using client_handle [OF assms, of h "fst (GetHandleInfo h L)" "snd (GetHandleInfo h L)"]
  by (auto simp: list_head_def prod_eq_iff)

lemma set_sub_list_simps [simp]:
  "cl_store (set_sub_list h p L) = cl_store L" "cl_calls (set_sub_list h p L) = cl_calls L"
  "cl_ClientRegistered (set_sub_list h p L) = cl_ClientRegistered L"
  by (simp_all add: set_sub_list_def set_handle_def split: option.split)

lemma set_store_simps [simp]:
  "cl_store (set_store s L) = s" "cl_HandleTable (set_store s L) = cl_HandleTable L" "cl_calls (set_store s L) = cl_calls L"
  "list_head (set_store s L) = list_head L" "table_ok (set_store s L) = table_ok L" "GetHandleInfo h (set_store s L) = GetHandleInfo h L"
  "set_store s (set_store t L) = set_store s L" "set_store (cl_store L) L = L" "cl_ClientRegistered (set_store s L) = cl_ClientRegistered L"
  by (simp_all add: set_store_def list_head_def table_ok_def GetHandleInfo_def)

lemma set_alloc_same [simp]: "set_alloc (cs_alloc (cl_store L)) L = L"
  by (simp add: set_alloc_def)

lemma set_sub_list_1:
  assumes "table_ok L" and "cl_HandleTable L ! Suc 0 = Some hi"
  shows "table_ok (set_sub_list 1 p L)" "list_head (set_sub_list 1 p L) = p"
    "cl_HandleTable (set_sub_list 1 p L) ! Suc 0 = Some (hi\<lparr>hi_ClientSubList := p\<rparr>)"
  using assms by (auto simp: set_sub_list_def set_handle_def table_ok_def list_head_def NUM_HANDLE_def)

lemma list_head_other: "cl_HandleTable (L\<lparr>cl_store := s\<rparr>) = cl_HandleTable L" by simp

section \<open>The store\<close>

lemma store_okD:
  assumes "store_ok A s p"
  shows "oom (cs_alloc s) = []" "tt_oom (cs_timer s) = []" "timeouts_ok A s" "0 < cs_brk s"
    "cs_sub s a = Some c \<Longrightarrow> sub_ok c" "cs_sub s a = Some c \<Longrightarrow> renews (m_renewEventId c) s"
    "cs_sub s a = Some c \<Longrightarrow> 0 < a" "cs_sub s a = Some c \<Longrightarrow> a < cs_brk s"
  using assms by (auto simp: store_ok_def cell_ok_def)

lemma cell_ok_cancelled: "cancelled i A s s' \<Longrightarrow> cell_ok s a c \<Longrightarrow> same_sub c d \<Longrightarrow> cell_ok s' a d"
  using renews_cancelled [of i A s s'] by (auto simp: cell_ok_def same_sub_fields cancelled_def)

lemma cancelledD:
  assumes "cancelled i A s s'"
  shows "cs_alloc s' = cs_alloc s" "cs_brk s' = cs_brk s" "tt_oom (cs_timer s') = tt_oom (cs_timer s)" "timeouts_ok A s'"
    "cs_timeout s' a = Some ev \<Longrightarrow> cs_timeout s a = Some ev"
proof -
  have le: "cs_timeout s' \<subseteq>\<^sub>m cs_timeout s" using assms by (simp add: cancelled_def)
  then show "cs_timeout s' a = Some ev \<Longrightarrow> cs_timeout s a = Some ev" by (metis domI map_le_def)
qed (use assms in \<open>simp_all add: cancelled_def\<close>)

lemma store_ok_cancelled:
  assumes "store_ok A s p" and "cancelled i A s s'"
    and "\<And>b d. cs_sub s' b = Some d \<Longrightarrow> \<exists>c. cs_sub s b = Some c \<and> same_sub c d"
    and "\<exists>as. sub_list (cs_sub s') p' as"
  shows "store_ok A s' p'"
proof -
  note C = cancelledD [OF assms(2)]
  have "cell_ok s' b d" if d: "cs_sub s' b = Some d" for b d
  proof -
    from assms(3) [OF d] obtain c where c: "cs_sub s b = Some c" "same_sub c d" by blast
    then have "cell_ok s b c" using assms(1) by (auto simp: store_ok_def)
    then show ?thesis using cell_ok_cancelled [OF assms(2)] c(2) by blast
  qed
  moreover have "timeout_ok s' a ev" if "cs_timeout s' a = Some ev" for a ev
    using C(5) [OF that] C(2) assms(1) by (auto simp: store_ok_def timeout_ok_def)
  ultimately show ?thesis using assms(1,4) C by (simp add: store_ok_def)
qed

primrec remove_first :: "('a \<Rightarrow> bool) \<Rightarrow> 'a list \<Rightarrow> 'a list" where
  "remove_first P [] = []"
| "remove_first P (x # xs) = (if P x then xs else x # remove_first P xs)"

lemma remove_first_none: "\<forall>x \<in> set xs. \<not> P x \<Longrightarrow> remove_first P xs = xs"
  by (induction xs) auto

lemma remove_first_split: "\<forall>x \<in> set xs. \<not> P x \<Longrightarrow> P a \<Longrightarrow> remove_first P (xs @ a # ys) = xs @ ys"
  by (induction xs) auto

text \<open>The predicate of a search by identifier.\<close>

definition has_sid :: "client_store \<Rightarrow> upnp_string \<Rightarrow> addr \<Rightarrow> bool" where
  "has_sid s sid a \<longleftrightarrow> sid_of (the (cs_sub s a)) = us_text sid"

text \<open>Removing a subscription, as the lists see it.\<close>

definition removed_sub :: "client_lib \<Rightarrow> upnp_string \<Rightarrow> client_lib \<Rightarrow> bool" where
  "removed_sub L sid L' \<longleftrightarrow>
     (\<forall>as. sub_list (cs_sub (cl_store L)) (list_head L) as \<longrightarrow>
        sub_list (cs_sub (cl_store L')) (list_head L') (remove_first (has_sid (cl_store L) sid) as)) \<and>
     (\<forall>b d. cs_sub (cl_store L') b = Some d \<longrightarrow> (\<exists>c. cs_sub (cl_store L) b = Some c \<and> same_sub c d)) \<and>
     (\<forall>e. e \<in> set (timer_events (cl_store L')) \<longrightarrow> e \<in> set (timer_events (cl_store L)))"

lemma remove_sub_ok:
  assumes ok: "lib_ok A L" and h: "GetHandleInfo h L = (HND_CLIENT, Some hi)" and sid: "string_ok sid"
  shows "\<exists>L'. remove_sub h hi (Some sid) L = Some L' \<and> lib_ok A L' \<and> removed_sub L sid L' \<and> cl_calls L' = cl_calls L"
proof -
  let ?s = "cl_store L"
  have tab: "table_ok L" and st: "store_ok A ?s (list_head L)" using ok by (simp_all add: lib_ok_def)
  from client_handle [OF tab h] have h1: "h = 1" "cl_HandleTable L ! Suc 0 = Some hi" by auto
  have hd: "list_head L = hi_ClientSubList hi" using h1 by (simp add: list_head_def)
  from st obtain as where as: "sub_list (cs_sub ?s) (list_head L) as" by (auto simp: store_ok_def)
  have cells: "\<forall>a \<in> set as. \<exists>c. cs_sub ?s a = Some c \<and> sub_ok c" using sub_seg_dom [OF as] store_okD(5) [OF st] by blast
  show ?thesis
  proof (cases "\<exists>a \<in> set as. has_sid ?s sid a")
    case False
    then have no: "\<forall>a \<in> set as. sub_ok (the (cs_sub ?s a)) \<and> sid_of (the (cs_sub ?s a)) \<noteq> us_text sid"
      using cells by (force simp: has_sid_def)
    have "RemoveClientSubClientSID (list_head L) (Some sid) ?s = Some (list_head L, ?s)"
      using remove_sid_loop_none [OF as no sid] by (simp add: RemoveClientSubClientSID_def)
    then have run: "remove_sub h hi (Some sid) L = Some (set_sub_list h (list_head L) L)"
      by (simp add: remove_sub_def hd)
    let ?L' = "set_sub_list h (list_head L) L"
    note S = set_sub_list_1 [OF tab h1(2), of "list_head L"]
    have "lib_ok A ?L'" using S ok h1(1) by (simp add: lib_ok_def)
    moreover have "remove_first (has_sid ?s sid) bs = bs" if "sub_list (cs_sub ?s) (list_head L) bs" for bs
      using False sub_list_unique [OF as that] by (intro remove_first_none) blast
    then have "removed_sub L sid ?L'" using S(2) h1(1) unfolding removed_sub_def
      by (metis set_sub_list_simps(1) same_sub_simps(1))
    ultimately show ?thesis using run by auto
  next
    case True
    then obtain xs a ys where sp: "as = xs @ a # ys" "has_sid ?s sid a" "\<forall>x \<in> set xs. \<not> has_sid ?s sid x"
      using split_list_first_prop [of as "has_sid ?s sid"] by blast
    from cells sp(1) obtain c where c: "cs_sub ?s a = Some c" "sub_ok c" by auto
    have others: "\<forall>b \<in> set xs. sub_ok (the (cs_sub ?s b)) \<and> sid_of (the (cs_sub ?s b)) \<noteq> us_text sid"
      using cells sp by (force simp: has_sid_def)
    have eq: "sid_of c = us_text sid" using sp(2) c(1) by (simp add: has_sid_def)
    from RemoveClientSubClientSID_found [OF store_okD(1,3) [OF st] as [unfolded sp(1)] others c eq store_okD(6) [OF st c(1)] sid]
    obtain p' s' where r: "RemoveClientSubClientSID (list_head L) (Some sid) ?s = Some (p', s')"
      "sub_list (cs_sub s') p' (xs @ ys)" "cancelled (m_renewEventId c) A ?s s'" "cs_sub s' a = None"
      "\<forall>b. b \<noteq> a \<longrightarrow> rel_option same_sub (cs_sub ?s b) (cs_sub s' b)" by blast
    let ?L' = "set_sub_list h p' (set_store s' L)"
    have run: "remove_sub h hi (Some sid) L = Some ?L'" using r(1) by (simp add: remove_sub_def hd)
    have old: "\<exists>c. cs_sub ?s b = Some c \<and> same_sub c d" if "cs_sub s' b = Some d" for b d
    proof -
      have "b \<noteq> a" using that r(4) by auto
      then have "rel_option same_sub (cs_sub ?s b) (Some d)" using r(5) that by metis
      then show ?thesis by (cases "cs_sub ?s b") auto
    qed
    have tab': "table_ok (set_store s' L)" "cl_HandleTable (set_store s' L) ! Suc 0 = Some hi" using tab h1(2) by simp_all
    note S = set_sub_list_1 [OF tab', of p']
    have "store_ok A s' p'" using store_ok_cancelled [OF st r(3) old] r(2) by blast
    then have "lib_ok A ?L'" using S h1(1) by (simp add: lib_ok_def)
    moreover have "removed_sub L sid ?L'"
    proof -
      have "remove_first (has_sid ?s sid) as = xs @ ys" unfolding sp(1) by (rule remove_first_split [OF sp(3,2)])
      then have "\<forall>bs. sub_list (cs_sub ?s) (list_head L) bs \<longrightarrow> sub_list (cs_sub s') p' (remove_first (has_sid ?s sid) bs)"
        using sub_list_unique [OF as] r(2) by metis
      moreover have "set (timer_events s') \<subseteq> set (timer_events ?s)" using r(3) by (auto simp: cancelled_def)
      ultimately show ?thesis using S(2) h1(1) old by (auto simp: removed_sub_def)
    qed
    ultimately show ?thesis using run by auto
  qed
qed

lemma free_copy_ok:
  assumes "lib_ok A L" and "m_renewEventId c = -1"
  shows "\<exists>c'. free_copy c L = Some (c', L)"
proof -
  have st: "store_ok A (cl_store L) (list_head L)" using assms(1) by (simp add: lib_ok_def)
  have "fresh_string (cs_alloc (cl_store L)) [NUL] = Some (Some \<lparr>m_length = 0, m_string = [NUL]\<rparr>, cs_alloc (cl_store L))"
    by (rule fresh_empty_memory [OF store_okD(1) [OF st]])
  then show ?thesis using assms(2)
    by (simp add: free_copy_def free_client_subscription_def UpnpClientSubscription_strcpy_ActualSID_def
        UpnpClientSubscription_strcpy_EventURL_def)
qed

text \<open>Looking a subscription up.\<close>

lemma find_sub_ok:
  assumes ok: "lib_ok A L" and hd: "list_head L = hi_ClientSubList hi" and sid: "string_ok sid"
  shows "\<exists>sub. GetClientSubClientSID (hi_ClientSubList hi) (Some sid) (cl_store L) = Some sub \<and>
           (sub \<noteq> NULL \<longrightarrow> (\<exists>c. cs_sub (cl_store L) sub = Some c \<and> sub_ok c \<and> sid_of c = us_text sid))"
proof -
  let ?s = "cl_store L"
  have st: "store_ok A ?s (list_head L)" using ok by (simp add: lib_ok_def)
  then obtain as where as: "sub_list (cs_sub ?s) (list_head L) as" by (auto simp: store_ok_def)
  have cells: "\<forall>a \<in> set as. \<exists>c. cs_sub ?s a = Some c \<and> sub_ok c" using sub_seg_dom [OF as] store_okD(5) [OF st] by blast
  then have "\<forall>a \<in> set as. sub_ok (the (cs_sub ?s a))" by force
  note G = GetClientSubClientSID_ok [OF as this sid]
  show ?thesis
  proof (cases "List.find (\<lambda>a. sid_of (the (cs_sub ?s a)) = us_text sid) as")
    case None
    then show ?thesis using G hd by simp
  next
    case (Some a)
    then have "a \<in> set as" "sid_of (the (cs_sub ?s a)) = us_text sid" by (auto simp: find_Some_iff)
    then show ?thesis using G hd Some cells by force
  qed
qed

section \<open>Scheduling\<close>

lemma sub_seg_same_next:
  assumes "sub_seg f p as q" and "\<And>a c. a \<in> set as \<Longrightarrow> f a = Some c \<Longrightarrow> \<exists>d. g a = Some d \<and> m_next d = m_next c"
  shows "sub_seg g p as q"
  using assms
proof (induction as arbitrary: p)
  case Nil
  then show ?case by simp
next
  case (Cons a as)
  then obtain c where "p = a" "a \<noteq> NULL" "f a = Some c" "sub_seg f (m_next c) as q" by auto
  then show ?case using Cons.IH [of "m_next c"] Cons.prems(2) by fastforce
qed

lemma renewal_job_fields:
  "job_func (renewal_job a) = GenaAutoRenewSubscription_addr" "job_arg (renewal_job a) = a"
  "job_free_func (renewal_job a) = free_upnp_timeout_addr"
  by (simp_all add: renewal_job_def TPJobInit_def TPJobSetFreeFunction_def TPJobSetPriority_def zero_job_def
      GenaAutoRenewSubscription_addr_def)

lemma schedule_timer:
  assumes "timeouts_ok A s" and "tt_oom (cs_timer s) = []" and "\<forall>x \<in> dom (cs_timeout s). x < a" and "0 < a" and "ev \<noteq> None"
  shows "\<exists>t e. TimerThreadSchedule now (Some (cs_timer s)) d REL_SEC (Some (renewal_job a)) SHORT_TERM = (0, Some (ev_id e), Some t) \<and>
           ev_id e = lastEventId (cs_timer s) \<and> lastEventId t = lastEventId (cs_timer s) + 1 \<and> tt_oom t = [] \<and>
           renewal e \<and> set (q_items (eventQ t)) = insert e (set (timer_events s)) \<and>
           timeouts_ok A (s\<lparr>cs_timer := t, cs_timeout := (cs_timeout s)(a := ev)\<rparr>)"
proof -
  let ?t = "cs_timer s"
  let ?e = "new_event now d REL_SEC (renewal_job a) SHORT_TERM ?t"
  have inv: "timer_inv ?t" using assms(1) by (simp add: timeouts_ok_def)
  then have bt: "by_time (q_items (eventQ ?t))" by (simp add: timer_inv_def)
  from TimerThreadSchedule_cases [OF bt, of now d REL_SEC "renewal_job a" SHORT_TERM] obtain rc i t where
    r: "TimerThreadSchedule now (Some ?t) d REL_SEC (Some (renewal_job a)) SHORT_TERM = (rc, Some i, Some t)"
    and c: "if rc = 0 then i = lastEventId ?t \<and> lastEventId t = lastEventId ?t + 1 \<and>
                           q_items (eventQ t) = insert_event ?e (q_items (eventQ ?t))
            else rc = EOUTOFMEM \<and> q_items (eventQ t) = q_items (eventQ ?t) \<and> lastEventId ?t \<le> lastEventId t"
    and z: "tt_oom ?t = [] \<longrightarrow> rc = 0" by blast
  have rc: "rc = 0" using z assms(2) by simp
  then have t: "i = lastEventId ?t" "lastEventId t = lastEventId ?t + 1" "q_items (eventQ t) = insert_event ?e (q_items (eventQ ?t))"
    using c by simp_all
  have e: "ev_id ?e = lastEventId ?t" "renewal ?e" "event_arg ?e = a"
    by (simp_all add: new_event_def renewal_def event_arg_def renewal_job_fields)
  have oom: "tt_oom t = []" using r rc assms(2)
    by (auto simp: TimerThreadSchedule_def CreateTimerEvent_def node_alloc_def q_insert_at_def q_add_tail_def FreeTimerEvent_def Let_def
        split: option.splits if_splits prod.splits)
  have inv': "timer_inv t" by (rule timer_inv_insert [OF inv e(1) t(3,2)])
  note M = insert_event_props(2) [OF bt, of ?e]
  have set: "set (q_items (eventQ t)) = insert ?e (set (timer_events s))"
    using M unfolding t(3) timer_events_def by (metis set_mset_add_mset_insert set_mset_mset)
  let ?s' = "s\<lparr>cs_timer := t, cs_timeout := (cs_timeout s)(a := ev)\<rparr>"
  let ?args = "map event_arg (filter renewal (timer_events s))"
  let ?args' = "map event_arg (filter renewal (timer_events ?s'))"
  have "mset ?args' = mset (a # ?args)"
    using M e by (simp add: timer_events_def t(3))
  then have m: "mset (?args' @ A) = mset (a # ?args @ A)" by simp
  have old: "distinct (?args @ A)" "set (?args @ A) = dom (cs_timeout s)" "NULL \<notin> dom (cs_timeout s)"
    using assms(1) by (simp_all add: timeouts_ok_def)
  have new: "a \<notin> set (?args @ A)" using old(2) assms(3) by auto
  have "distinct (?args' @ A)" using mset_eq_imp_distinct_iff [OF m] new old(1) by simp
  moreover have "set (?args' @ A) = dom (cs_timeout ?s')" using mset_eq_setD [OF m] old(2) assms(5) by auto
  moreover have "job_free_func (ev_job ?e) = free_upnp_timeout_addr" by (simp add: new_event_def renewal_job_fields)
  then have "\<forall>x \<in> set (timer_events ?s'). 0 \<le> ev_id x \<and> (renewal x \<longleftrightarrow> job_free_func (ev_job x) = free_upnp_timeout_addr)"
    "0 \<le> lastEventId t"
    using set assms(1) e(1,2) t(2) by (auto simp: timer_events_def timeouts_ok_def)
  ultimately have "timeouts_ok A ?s'" using inv' old(3) assms(4) by (simp add: timeouts_ok_def)
  then show ?thesis using r rc t e oom set by (intro exI [of _ t] exI [of _ ?e]) simp
qed

text \<open>The same cells at the same places, with the same identifiers.\<close>

definition place :: "client_sub option \<Rightarrow> (upnp_string option \<times> addr) option" where
  "place c = map_option (\<lambda>c. (m_SID c, m_next c)) c"

definition same_places :: "client_store \<Rightarrow> client_store \<Rightarrow> bool" where
  "same_places s s' \<longleftrightarrow> (\<forall>a. place (cs_sub s a) = place (cs_sub s' a))"

lemma same_places_cell: "same_places s s' \<Longrightarrow> cs_sub s a = Some c \<Longrightarrow> \<exists>d. cs_sub s' a = Some d \<and> m_SID d = m_SID c \<and> m_next d = m_next c"
  unfolding same_places_def place_def
  by (drule spec [of _ a]) (auto simp: eq_commute [of "Some _" "map_option _ _"])

lemma same_places_list:
  assumes "same_places s s'" and "sub_list (cs_sub s) p as"
  shows "sub_list (cs_sub s') p as"
  using sub_seg_same_next [OF assms(2)] same_places_cell [OF assms(1)] by blast

lemma same_places_upd:
  assumes "cs_sub s a = Some c" and "m_SID d = m_SID c" and "m_next d = m_next c" and "cs_sub s' = (cs_sub s)(a \<mapsto> d)"
  shows "same_places s s'"
  using assms by (simp add: same_places_def place_def)

lemma same_places_trans: "same_places s t \<Longrightarrow> same_places t u \<Longrightarrow> same_places s u"
  by (simp add: same_places_def)

lemma same_places_refl [simp]: "same_places s s"
  by (simp add: same_places_def)

lemma renews_mono:
  assumes "renews i s" and "lastEventId (cs_timer s) \<le> lastEventId (cs_timer s')"
    and "\<And>e. e \<in> set (timer_events s') \<Longrightarrow> e \<in> set (timer_events s) \<or> renewal e"
  shows "renews i s'"
  using assms by (fastforce simp: renews_def)

text \<open>Replacing a cell by one that is also good.\<close>

lemma store_ok_upd:
  assumes "store_ok A s p" and "cs_sub s a = Some c" and "sub_ok d" and "renews (m_renewEventId d) s"
    and "m_next d = m_next c" and "m_SID d = m_SID c"
  shows "store_ok A (s\<lparr>cs_sub := (cs_sub s)(a \<mapsto> d)\<rparr>) p"
proof -
  from assms(1) obtain as where as: "sub_list (cs_sub s) p as" by (auto simp: store_ok_def)
  have "same_places s (s\<lparr>cs_sub := (cs_sub s)(a \<mapsto> d)\<rparr>)"
    using assms(2,5,6) by (intro same_places_upd [of s a c d]) simp_all
  from same_places_list [OF this as] have "sub_list ((cs_sub s)(a \<mapsto> d)) p as" by simp
  then show ?thesis using assms by (auto simp: store_ok_def cell_ok_def timeout_ok_def)
qed

lemma schedule_ok:
  assumes ok: "store_ok A s p" and c: "cs_sub s sub = Some c"
  shows "\<exists>s'. ScheduleGenaAutoRenew now h t sub s = Some (GENA_SUCCESS, s') \<and> store_ok A s' p \<and> same_places s s'"
proof (cases "t = UPNP_INFINITE")
  case True
  then show ?thesis using ok c by (simp add: ScheduleGenaAutoRenew_def)
next
  case False
  note D = store_okD [OF ok]
  from D(5) [OF c] obtain x y z where f: "m_SID c = Some x" "m_eventURL c = Some y" "m_actualSID c = Some z"
    "string_ok x" "string_ok y" by (auto simp: sub_ok_def)
  define ev where "ev = \<lparr>es_Sid = strncpy_bytes (us_text x) (SIZEOF_Upnp_SID - 1) @ [NUL], es_ErrCode = UPNP_E_SUCCESS,
    es_PublisherUrl = strncpy_bytes (us_text y) (NAME_SIZE - 1) @ [NUL], es_TimeOut = t\<rparr>"
  define a where "a = cs_brk s"
  have below: "\<forall>x \<in> dom (cs_timeout s). x < a" using ok by (auto simp: store_ok_def timeout_ok_def a_def)
  have "0 < a" using D(4) by (simp add: a_def)
  from schedule_timer [OF D(3,2) below this, of "Some \<lparr>to_handle = h, to_eventId = lastEventId (cs_timer s), to_Event = ev\<rparr>" now "t - AUTO_RENEW_TIME"]
  obtain tm e where T: "TimerThreadSchedule now (Some (cs_timer s)) (t - AUTO_RENEW_TIME) REL_SEC (Some (renewal_job a)) SHORT_TERM =
        (0, Some (ev_id e), Some tm)"
      "ev_id e = lastEventId (cs_timer s)" "lastEventId tm = lastEventId (cs_timer s) + 1" "tt_oom tm = []"
      "renewal e" "set (q_items (eventQ tm)) = insert e (set (timer_events s))"
      "timeouts_ok A (s\<lparr>cs_timer := tm, cs_timeout := (cs_timeout s)(a \<mapsto>
          \<lparr>to_handle = h, to_eventId = lastEventId (cs_timer s), to_Event = ev\<rparr>)\<rparr>)" by auto
  let ?s1 = "s\<lparr>cs_timer := tm, cs_timeout := (cs_timeout s)(a \<mapsto> \<lparr>to_handle = h, to_eventId = ev_id e, to_Event = ev\<rparr>),
               cs_brk := Suc a\<rparr>"
  let ?d = "c\<lparr>m_renewEventId := ev_id e\<rparr>"
  let ?s' = "?s1\<lparr>cs_sub := (cs_sub s)(sub \<mapsto> ?d)\<rparr>"
  have run: "ScheduleGenaAutoRenew now h t sub s = Some (GENA_SUCCESS, ?s')"
    using c False f T(1) D(1)
    by (simp add: ScheduleGenaAutoRenew_def malloc_ok_memory SIZEOF_Upnp_Event_Subscribe_def SIZEOF_upnp_timeout_def c_text_ok
        Let_def ev_def a_def)
  have te: "set (timer_events ?s1) = insert e (set (timer_events s))" using T(6) by (simp add: timer_events_def)
  have ren: "renews i ?s1" if "renews i s" for i
  proof (rule renews_mono [OF that])
    show "lastEventId (cs_timer s) \<le> lastEventId (cs_timer ?s1)" using T(3) by simp
    show "x \<in> set (timer_events s) \<or> renewal x" if "x \<in> set (timer_events ?s1)" for x
      using that T(5) unfolding te by blast
  qed
  have ids: "\<forall>x \<in> set (timer_events s). ev_id x < lastEventId (cs_timer s)"
    using D(3) by (simp add: timeouts_ok_def timer_inv_def timer_events_def)
  have cells: "cell_ok ?s1 b d" if "cs_sub s b = Some d" for b d
    using D(5-8) [OF that] ren [of "m_renewEventId d"] by (simp add: cell_ok_def a_def)
  have "NUL \<in> set (es_Sid ev)" "List.length (es_Sid ev) = SIZEOF_Upnp_SID"
    by (simp_all add: ev_def SIZEOF_Upnp_SID_def)
  then have tos: "timeout_ok ?s1 b w" if "cs_timeout ?s1 b = Some w" for b w
    using ok that by (auto simp: store_ok_def timeout_ok_def a_def split: if_split_asm intro: less_SucI)
  have "timeouts_ok A ?s1" using T(2,7) by (simp add: timeouts_ok_def timer_events_def)
  then have "store_ok A ?s1 p"
    using ok T(4) D(1) cells tos unfolding store_ok_def by simp
  moreover have "sub_ok ?d" using D(5) [OF c] by (simp add: sub_ok_def)
  moreover have "renews (ev_id e) ?s1" using T(2,3,5) te ids unfolding renews_def by auto
  ultimately have "store_ok A ?s' p" using store_ok_upd [of A ?s1 p sub c ?d] c by simp
  moreover have "same_places s ?s'" using c by (intro same_places_upd [of s sub c ?d]) simp_all
  ultimately show ?thesis using run by blast
qed

section \<open>The parts of the operations\<close>

lemma lib_memory: "lib_ok A L \<Longrightarrow> oom (cs_alloc (cl_store L)) = []"
  by (simp add: lib_ok_def store_ok_def)

definition copy_ok :: "client_sub \<Rightarrow> bool" where
  "copy_ok c \<longleftrightarrow> sub_ok c \<and> m_renewEventId c = -1"

lemma genaUnSubscribe_find_ok:
  assumes ok: "lib_ok A L" and sid: "string_ok sid"
  shows "\<exists>r. genaUnSubscribe_find h (Some sid) L = Some (r, L) \<and> (\<forall>c. r = Inr c \<longrightarrow> copy_ok c)"
proof -
  have tab: "table_ok L" using ok by (simp add: lib_ok_def)
  note mem = lib_memory [OF ok]
  from new_sub_memory [OF mem] obtain c0 where c0: "UpnpClientSubscription_new (cs_alloc (cl_store L)) = Some (c0, cs_alloc (cl_store L))"
    by blast
  show ?thesis
  proof (cases rule: client_handle_cases [OF tab, of h, case_names client none])
    case (client hi)
    from find_sub_ok [OF ok client(4) sid] obtain sub where
      sub: "GetClientSubClientSID (hi_ClientSubList hi) (Some sid) (cl_store L) = Some sub"
        "sub \<noteq> NULL \<Longrightarrow> \<exists>c. cs_sub (cl_store L) sub = Some c \<and> sub_ok c" by blast
    show ?thesis
    proof (cases "sub = NULL")
      case True
      then show ?thesis using c0 client(1) sub(1) by (simp add: genaUnSubscribe_find_def)
    next
      case False
      then obtain c where c: "cs_sub (cl_store L) sub = Some c" "sub_ok c" using sub(2) by blast
      from assign_memory [OF mem c(2), of c0] obtain q where
        "UpnpClientSubscription_assign (cs_alloc (cl_store L)) c0 c = Some (q, cs_alloc (cl_store L))" "sub_ok q" "m_renewEventId q = -1"
        by blast
      then show ?thesis using c0 client(1) sub(1) c(1) False by (simp add: genaUnSubscribe_find_def copy_ok_def)
    qed
  next
    case none
    then show ?thesis using c0 by (simp add: genaUnSubscribe_find_def)
  qed
qed

lemma genaUnSubscribe_remove_ok:
  assumes ok: "lib_ok A L" and sid: "string_ok sid" and c: "copy_ok c"
  shows "\<exists>L' rc'. genaUnSubscribe_remove h (Some sid) c rc L = Some (rc', L') \<and> lib_ok A L' \<and> cl_calls L' = cl_calls L \<and>
           (if fst (GetHandleInfo h L) = HND_CLIENT then rc' = rc \<and> removed_sub L sid L' else rc' = GENA_E_BAD_HANDLE \<and> L' = L)"
proof -
  have tab: "table_ok L" using ok by (simp add: lib_ok_def)
  from free_copy_ok [OF ok] c obtain c' where f: "free_copy c L = Some (c', L)" by (auto simp: copy_ok_def)
  show ?thesis
  proof (cases rule: client_handle_cases [OF tab, of h, case_names client none])
    case (client hi)
    from remove_sub_ok [OF ok client(1) sid] show ?thesis
      using f client(1) by (auto simp: genaUnSubscribe_remove_def)
  next
    case none
    then show ?thesis using f ok by (simp add: genaUnSubscribe_remove_def)
  qed
qed

lemma genaSubscribe_check_ok:
  assumes ok: "lib_ok A L" and out: "string_ok out"
  shows "\<exists>r sid. genaSubscribe_check h (Some out) L = Some (r, Some sid, L) \<and> string_ok sid \<and>
           (\<forall>c a u. r = Inr (c, a, u) \<longrightarrow> (\<exists>a' u'. a = Some a' \<and> u = Some u' \<and> string_ok a' \<and> string_ok u'))"
proof -
  note mem = lib_memory [OF ok]
  from new_sub_memory [OF mem] obtain c0 where c0: "UpnpClientSubscription_new (cs_alloc (cl_store L)) = Some (c0, cs_alloc (cl_store L))"
    by blast
  have "m_string out \<noteq> []" using out by (auto simp: string_ok_def)
  then obtain sid where cl: "UpnpString_clear (Some out) = Some sid" by (simp add: UpnpString_clear_def)
  show ?thesis using c0 cl UpnpString_clear_ok [OF cl out]
    by (simp add: genaSubscribe_check_def new_memory [OF mem])
qed

text \<open>A cell that is put in front of the list.\<close>

lemma link_ok:
  assumes ok: "lib_ok A L" and hi: "cl_HandleTable L ! Suc 0 = Some hi"
    and c: "sub_ok c" "m_renewEventId c = -1" "m_next c = hi_ClientSubList hi"
  shows "\<exists>L'. link_subscription 1 c L = (cs_brk (cl_store L), L') \<and> lib_ok A L' \<and> cs_sub (cl_store L') (cs_brk (cl_store L)) = Some c \<and>
           list_head L' = cs_brk (cl_store L) \<and> cl_calls L' = cl_calls L \<and>
           (\<forall>as. sub_list (cs_sub (cl_store L)) (list_head L) as \<longrightarrow>
              sub_list (cs_sub (cl_store L')) (list_head L') (cs_brk (cl_store L) # as) \<and>
              (\<forall>a \<in> set as. cs_sub (cl_store L') a = cs_sub (cl_store L) a))"
proof -
  let ?s = "cl_store L" and ?a = "cs_brk (cl_store L)"
  have tab: "table_ok L" and st: "store_ok A ?s (list_head L)" using ok by (simp_all add: lib_ok_def)
  have hd: "list_head L = hi_ClientSubList hi" using hi by (simp add: list_head_def)
  let ?s' = "?s\<lparr>cs_brk := Suc ?a, cs_sub := (cs_sub ?s)(?a \<mapsto> c)\<rparr>"
  let ?L' = "set_sub_list 1 ?a (set_store ?s' L)"
  have tab': "table_ok (set_store ?s' L)" "cl_HandleTable (set_store ?s' L) ! Suc 0 = Some hi" using tab hi by simp_all
  note S = set_sub_list_1 [OF tab', of ?a]
  have fresh: "cs_sub ?s ?a = None" using store_okD(8) [OF st, of ?a] by (cases "cs_sub ?s ?a") auto
  have new: "sub_list (cs_sub ?s') ?a (?a # as)" if "sub_list (cs_sub ?s) (list_head L) as" for as
  proof -
    have "?a \<notin> set as" using sub_seg_dom [OF that] fresh by auto
    then show ?thesis using that c(3) hd store_okD(4) [OF st] by simp
  qed
  obtain as where as: "sub_list (cs_sub ?s) (list_head L) as" using st by (auto simp: store_ok_def)
  have "renews (-1) ?s'" by (simp add: renews_def)
  moreover have "timer_events ?s' = timer_events ?s" by (simp add: timer_events_def)
  ultimately have cells: "cell_ok ?s' b d" if "cs_sub ?s' b = Some d" for b d
    using that c store_okD(4) [OF st] store_okD(5-8) [OF st, of b d]
    by (cases "b = ?a") (auto simp: cell_ok_def renews_def timer_events_def)
  have "timeouts_ok A ?s'" using store_okD(3) [OF st] by (simp add: timeouts_ok_def timer_events_def)
  moreover have "timeout_ok ?s' b ev" if "cs_timeout ?s' b = Some ev" for b ev
    using that st by (auto simp: store_ok_def timeout_ok_def intro: less_SucI)
  ultimately have "store_ok A ?s' ?a"
    using store_okD(1,2) [OF st] cells new [OF as] unfolding store_ok_def by (auto intro!: exI [of _ "?a # as"])
  then have "lib_ok A ?L'" using S by (simp add: lib_ok_def)
  moreover have "\<forall>a \<in> set as. cs_sub ?s' a = cs_sub ?s a" if "sub_list (cs_sub ?s) (list_head L) as" for as
    using sub_seg_dom [OF that] fresh by auto
  ultimately show ?thesis using new S(2) by (simp add: link_subscription_def Let_def)
qed

lemma fill_ok:
  assumes "oom e = []" and "string_ok a" and "string_ok b" and "string_ok d"
  shows "\<exists>c'. fill_subscription e c (Some a) (Some b) (Some d) n = Some (c', e) \<and> sub_ok c' \<and> m_renewEventId c' = -1 \<and>
           m_next c' = n \<and> sid_of c' = us_text a \<and> actual_of c' = us_text b \<and> url_of c' = us_text d"
proof -
  from set_memory(1) [OF assms(1,2), of "c\<lparr>m_renewEventId := -1\<rparr>"] obtain a' where
    a: "UpnpClientSubscription_set_SID e (c\<lparr>m_renewEventId := -1\<rparr>) (Some a) = Some (c\<lparr>m_renewEventId := -1, m_SID := Some a'\<rparr>, e)"
       "string_ok a'" "us_text a' = us_text a" by auto
  from set_memory(2) [OF assms(1,3), of "c\<lparr>m_renewEventId := -1, m_SID := Some a'\<rparr>"] obtain b' where
    b: "UpnpClientSubscription_set_ActualSID e (c\<lparr>m_renewEventId := -1, m_SID := Some a'\<rparr>) (Some b) =
          Some (c\<lparr>m_renewEventId := -1, m_SID := Some a', m_actualSID := Some b'\<rparr>, e)" "string_ok b'" "us_text b' = us_text b" by auto
  from set_memory(3) [OF assms(1,4), of "c\<lparr>m_renewEventId := -1, m_SID := Some a', m_actualSID := Some b'\<rparr>"] obtain d' where
    d: "UpnpClientSubscription_set_EventURL e (c\<lparr>m_renewEventId := -1, m_SID := Some a', m_actualSID := Some b'\<rparr>) (Some d) =
          Some (c\<lparr>m_renewEventId := -1, m_SID := Some a', m_actualSID := Some b', m_eventURL := Some d'\<rparr>, e)"
       "string_ok d'" "us_text d' = us_text d" by auto
  show ?thesis using a b d by (simp add: fill_subscription_def sub_ok_def sid_of_def actual_of_def url_of_def)
qed

lemma set_text_memory:
  assumes "oom e = []" and "nul_free t" and "List.length t < alloc_max"
  shows "\<exists>r. UpnpString_set_String e (Some p) (t @ [NUL]) = Some (1, Some r, e) \<and> string_ok r \<and> us_text r = t"
  using assms by (simp add: UpnpString_set_String_def strdup_def malloc_ok_memory set_block_def cstr_nul_free string_ok_def us_text_def)

lemma set_block_memory:
  assumes "oom e = []" and "NUL \<in> set bs" and "List.length (cstr bs) < alloc_max"
  shows "\<exists>r. UpnpString_set_String e (Some p) bs = Some (1, Some r, e) \<and> string_ok r \<and> us_text r = cstr bs"
  using assms by (simp add: UpnpString_set_String_def strdup_def block_strlen_def malloc_ok_memory set_block_def cstr_nul_free
      string_ok_def us_text_def)

lemma length_print_hex [simp]: "List.length (print_hex n w) = n"
  by (simp add: print_hex_def)

lemma nul_free_print_hex: "nul_free (print_hex n (w :: 'a::len word))"
proof -
  have all: "\<forall>i < 16. hex_chars ! i \<noteq> NUL" by code_simp
  have "unat (x AND 0xF) < 16" for x :: "'a word"
  proof -
    have "x AND 0xF = take_bit 4 x" by (simp add: take_bit_eq_mask mask_eq_exp_minus_1)
    then have "unat (x AND 0xF) = take_bit 4 (unat x)" by (simp add: unsigned_take_bit_eq)
    then show ?thesis by (simp add: take_bit_eq_mod)
  qed
  then show ?thesis using all by (auto simp: print_hex_def nul_free_def list_all_iff)
qed

lemma client_sid_text: "nul_free (client_sid uid) \<and> List.length (client_sid uid) \<le> 41"
proof -
  have l: "List.length (concat (map (print_hex 2) xs)) = 2 * List.length xs" for xs :: "byte list"
    by (induction xs) simp_all
  have n: "nul_free (concat (map (print_hex 2) xs))" for xs :: "byte list"
    by (induction xs) (simp_all add: nul_free_print_hex)
  show ?thesis by (simp add: client_sid_def uuid_unpack_def nul_free_print_hex l n)
qed

text \<open>The subscription \<open>c\<close> has been put in front of the list.\<close>

definition added_sub :: "client_lib \<Rightarrow> (client_sub \<Rightarrow> bool) \<Rightarrow> client_lib \<Rightarrow> bool" where
  "added_sub L P L' \<longleftrightarrow>
     (\<forall>as. sub_list (cs_sub (cl_store L)) (list_head L) as \<longrightarrow>
        (\<exists>a c. sub_list (cs_sub (cl_store L')) (list_head L') (a # as) \<and> cs_sub (cl_store L') a = Some c \<and> P c \<and>
               (\<forall>b \<in> set as. place (cs_sub (cl_store L') b) = place (cs_sub (cl_store L) b))))"

lemma set_store_lib_ok:
  "lib_ok A L \<Longrightarrow> store_ok A s (list_head L) \<Longrightarrow> lib_ok A (set_store s L)"
  by (simp add: lib_ok_def)

lemma genaSubscribe_link_ok:
  assumes ok: "lib_ok A L" and st: "string_ok out" "string_ok actual" "string_ok eurl" "string_ok url"
  shows "\<exists>rc' sid L'. genaSubscribe_link now uid h (Some url) rc t c0 (Some actual) (Some eurl) (Some out) L = Some (rc', Some sid, L') \<and>
           lib_ok A L' \<and> string_ok sid \<and> cl_calls L' = cl_calls L \<and>
           (if rc \<noteq> 0 then rc' = rc \<and> L' = L
            else if fst (GetHandleInfo h L) \<noteq> HND_CLIENT then rc' = GENA_E_BAD_HANDLE \<and> L' = L
            else rc' = 0 \<and> us_text sid = client_sid uid \<and>
                 added_sub L (\<lambda>c. m_SID c \<noteq> None \<and> sid_of c = client_sid uid) L')"
proof -
  let ?e = "cs_alloc (cl_store L)"
  note mem = lib_memory [OF ok]
  have tab: "table_ok L" using ok by (simp add: lib_ok_def)
  show ?thesis
  proof (cases "rc = 0")
    case False
    then show ?thesis using ok st by (simp add: genaSubscribe_link_def)
  next
    case True
    note rc = True
    show ?thesis
    proof (cases rule: client_handle_cases [OF tab, of h, case_names client none])
      case none
      then show ?thesis using ok st rc by (simp add: genaSubscribe_link_def)
    next
      case (client hi)
      have sidlen: "List.length (client_sid uid) < SIZEOF_Upnp_SID" "List.length (client_sid uid) < alloc_max"
        using client_sid_text [of uid] by (simp_all add: SIZEOF_Upnp_SID_def alloc_max_def)
      from set_text_memory [OF mem conjunct1 [OF client_sid_text [of uid]] sidlen(2), of out] obtain sid where
        sid: "UpnpString_set_String ?e (Some out) (client_sid uid @ [NUL]) = Some (1, Some sid, ?e)" "string_ok sid" "us_text sid = client_sid uid"
        by blast
      have "NUL \<in> set (m_string url)" "List.length (cstr (m_string url)) < alloc_max"
        using st(4) by (simp_all add: string_ok_def us_text_def)
      from set_block_memory [OF mem this, of eurl] obtain eu where
        eu: "UpnpString_set_String ?e (Some eurl) (m_string url) = Some (1, Some eu, ?e)" "string_ok eu" by blast
      then have as: "UpnpString_assign ?e False (Some eurl) (Some url) = Some (Some eu, ?e)"
        by (simp add: UpnpString_assign_def UpnpString_get_String_def)
      from fill_ok [OF mem sid(2) st(2) eu(2), of c0 "hi_ClientSubList hi"] obtain c where
        c: "fill_subscription ?e c0 (Some sid) (Some actual) (Some eu) (hi_ClientSubList hi) = Some (c, ?e)" "sub_ok c"
          "m_renewEventId c = -1" "m_next c = hi_ClientSubList hi" "sid_of c = us_text sid" by blast
      let ?a = "cs_brk (cl_store L)"
      from link_ok [OF ok client(3) c(2-4)] obtain L1 where
        L1: "link_subscription 1 c L = (?a, L1)" "lib_ok A L1" "cs_sub (cl_store L1) ?a = Some c" "cl_calls L1 = cl_calls L"
          "\<And>as. sub_list (cs_sub (cl_store L)) (list_head L) as \<Longrightarrow>
              sub_list (cs_sub (cl_store L1)) (list_head L1) (?a # as) \<and>
              (\<forall>a \<in> set as. cs_sub (cl_store L1) a = cs_sub (cl_store L) a)" by blast
      have st1: "store_ok A (cl_store L1) (list_head L1)" using L1(2) by (simp add: lib_ok_def)
      from schedule_ok [OF st1 L1(3), of now 1 t] obtain s2 where
        s2: "ScheduleGenaAutoRenew now 1 t ?a (cl_store L1) = Some (0, s2)" "store_ok A s2 (list_head L1)" "same_places (cl_store L1) s2"
        by blast
      let ?L' = "set_store s2 L1"
      have run: "genaSubscribe_link now uid h (Some url) rc t c0 (Some actual) (Some eurl) (Some out) L = Some (0, Some sid, ?L')"
        using rc client(1,2) sid(1) sidlen(1) as c(1) L1(1) s2(1)
        by (simp add: genaSubscribe_link_def set_alloc_def)
      from same_places_cell [OF s2(3) L1(3)] obtain d where d: "cs_sub s2 ?a = Some d" "m_SID d = m_SID c" by blast
      have "added_sub L (\<lambda>c. m_SID c \<noteq> None \<and> sid_of c = client_sid uid) ?L'"
        unfolding added_sub_def
      proof (intro allI impI)
        fix as
        assume as: "sub_list (cs_sub (cl_store L)) (list_head L) as"
        have "sub_list (cs_sub s2) (list_head L1) (?a # as)" using L1(5) [OF as] same_places_list [OF s2(3)] by blast
        moreover have "m_SID d \<noteq> None \<and> sid_of d = client_sid uid" using d(2) c(2,5) sid(3) by (auto simp: sid_of_def sub_ok_def)
        moreover have "\<forall>b \<in> set as. place (cs_sub s2 b) = place (cs_sub (cl_store L) b)"
          using L1(5) [OF as] s2(3) unfolding same_places_def by metis
        ultimately show "\<exists>a c. sub_list (cs_sub (cl_store ?L')) (list_head ?L') (a # as) \<and> cs_sub (cl_store ?L') a = Some c \<and>
            (m_SID c \<noteq> None \<and> sid_of c = client_sid uid) \<and> (\<forall>b \<in> set as. place (cs_sub (cl_store ?L') b) = place (cs_sub (cl_store L) b))"
          using d(1) by auto
      qed
      then show ?thesis using run rc sid(2,3) set_store_lib_ok [OF L1(2) s2(2)] L1(4) client(1) by simp
    qed
  qed
qed

lemma genaRenew_find_ok:
  assumes ok: "lib_ok A L" and sid: "string_ok sid"
  shows "\<exists>r L'. genaRenew_find h (Some sid) L = Some (r, L') \<and> lib_ok A L' \<and> cl_calls L' = cl_calls L \<and>
           same_places (cl_store L) (cl_store L') \<and> cl_HandleTable L' = cl_HandleTable L \<and>
           (\<forall>c a. r = Inr (c, a) \<longrightarrow> copy_ok c \<and> (\<exists>a'. a = Some a' \<and> string_ok a'))"
proof -
  let ?s = "cl_store L" let ?e = "cs_alloc ?s"
  have tab: "table_ok L" and st: "store_ok A ?s (list_head L)" using ok by (simp_all add: lib_ok_def)
  note mem = lib_memory [OF ok]
  from new_sub_memory [OF mem] obtain c0 where c0: "UpnpClientSubscription_new ?e = Some (c0, ?e)" by blast
  note start = genaRenew_find_def new_memory [OF mem]
  show ?thesis
  proof (cases rule: client_handle_cases [OF tab, of h, case_names client none])
    case none
    then show ?thesis using c0 ok by (simp add: start)
  next
    case (client hi)
    from find_sub_ok [OF ok client(4) sid] obtain sub where
      sub: "GetClientSubClientSID (hi_ClientSubList hi) (Some sid) ?s = Some sub"
        "sub \<noteq> NULL \<Longrightarrow> \<exists>c. cs_sub ?s sub = Some c \<and> sub_ok c" by blast
    show ?thesis
    proof (cases "sub = NULL")
      case True
      then show ?thesis using c0 client(1) sub(1) ok by (simp add: start)
    next
      case False
      then obtain c where c: "cs_sub ?s sub = Some c" "sub_ok c" using sub(2) by blast
      have "\<forall>e \<in> set (timer_events ?s). ev_id e = m_renewEventId c \<longrightarrow> renewal e"
        using store_okD(6) [OF st c(1)] store_okD(3) [OF st] by (force simp: renews_def timeouts_ok_def)
      from remove_renewal_ok [OF store_okD(3) [OF st] this] obtain s2 where
        s2: "remove_renewal (m_renewEventId c) ?s = Some s2" "timeouts_ok A s2"
          "timer_events s2 = filter (\<lambda>e. ev_id e \<noteq> m_renewEventId c) (timer_events ?s)" "cs_sub s2 = cs_sub ?s" "cs_alloc s2 = ?e"
          "cs_brk s2 = cs_brk ?s" "cs_timeout s2 \<subseteq>\<^sub>m cs_timeout ?s" "lastEventId (cs_timer s2) = lastEventId (cs_timer ?s)"
          "tt_oom (cs_timer s2) = tt_oom (cs_timer ?s)" by blast
      from assign_memory [OF mem c(2), of c0] obtain q where
        q: "UpnpClientSubscription_assign ?e c0 c = Some (q, ?e)" "sub_ok q" "m_renewEventId q = -1" by blast
      let ?s3 = "s2\<lparr>cs_sub := (cs_sub s2)(sub \<mapsto> c\<lparr>m_renewEventId := -1\<rparr>)\<rparr>"
      have same_alloc: "s2\<lparr>cs_alloc := ?e\<rparr> = s2" using s2(5) by (cases s2) simp
      have run: "\<exists>a. genaRenew_find h (Some sid) L = Some (Inr (q, Some a), set_store ?s3 L) \<and> string_ok a"
        using c0 client(1) sub(1) c(1) False s2(1,5) q(1) by (simp add: start same_alloc)
      have ren: "renews j s2" if "renews j ?s" for j using that s2(3,8) by (auto simp: renews_def)
      have le: "cs_timeout s2 b = Some ev \<Longrightarrow> cs_timeout ?s b = Some ev" for b ev
        using s2(7) by (metis domI map_le_def)
      have "cell_ok s2 b d" if "cs_sub s2 b = Some d" for b d
        using store_okD(5-8) [OF st, of b d] that ren s2(4,6) by (simp add: cell_ok_def)
      moreover have "timeout_ok s2 b ev" if "cs_timeout s2 b = Some ev" for b ev
        using le [OF that] st s2(6) by (auto simp: store_ok_def timeout_ok_def)
      ultimately have "store_ok A s2 (list_head L)"
        using st s2(2,4,5,6,9) unfolding store_ok_def by auto
      then have "store_ok A ?s3 (list_head L)"
        using c s2(4) by (intro store_ok_upd [of A s2 "list_head L" sub c]) (simp_all add: sub_ok_def renews_def)
      moreover have "same_places ?s ?s3" using c(1) s2(4) by (intro same_places_upd [of ?s sub c "c\<lparr>m_renewEventId := -1\<rparr>"]) simp_all
      ultimately show ?thesis using run q(2,3) set_store_lib_ok [OF ok] by (auto simp: copy_ok_def)
    qed
  qed
qed

lemma renew_at_ok:
  assumes ok: "lib_ok A L" and c: "cs_sub (cl_store L) sub = Some c" and a: "string_ok a"
  shows "\<exists>L'. renew_at now h t (Some a) sub L = Some (GENA_SUCCESS, L') \<and> lib_ok A L' \<and> cl_calls L' = cl_calls L \<and>
           same_places (cl_store L) (cl_store L') \<and> cl_HandleTable L' = cl_HandleTable L"
proof -
  let ?s = "cl_store L"
  have st: "store_ok A ?s (list_head L)" using ok by (simp add: lib_ok_def)
  from set_memory(2) [OF lib_memory [OF ok] a, of c] obtain y where
    y: "UpnpClientSubscription_set_ActualSID (cs_alloc ?s) c (Some a) = Some (c\<lparr>m_actualSID := Some y\<rparr>, cs_alloc ?s)" "string_ok y" by blast
  let ?s1 = "?s\<lparr>cs_sub := (cs_sub ?s)(sub \<mapsto> c\<lparr>m_actualSID := Some y\<rparr>)\<rparr>"
  have "sub_ok (c\<lparr>m_actualSID := Some y\<rparr>)" using store_okD(5) [OF st c] y(2) by (auto simp: sub_ok_def)
  then have st1: "store_ok A ?s1 (list_head L)"
    using store_okD(6) [OF st c] by (intro store_ok_upd [OF st c]) simp_all
  have pl: "same_places ?s ?s1" using c by (intro same_places_upd [of ?s sub c]) simp_all
  have "cs_sub ?s1 sub = Some (c\<lparr>m_actualSID := Some y\<rparr>)" by simp
  from schedule_ok [OF st1 this, of now h t] obtain s2 where
    s2: "ScheduleGenaAutoRenew now h t sub ?s1 = Some (0, s2)" "store_ok A s2 (list_head L)" "same_places ?s1 s2" by blast
  have "renew_at now h t (Some a) sub L = Some (0, set_store s2 L)" using c y(1) s2(1) by (simp add: renew_at_def Let_def)
  then show ?thesis using set_store_lib_ok [OF ok s2(2)] same_places_trans [OF pl s2(3)] by simp
qed

lemma genaRenew_store_ok:
  assumes ok: "lib_ok A L" and sid: "string_ok sid" and c: "copy_ok c" and a: "string_ok a"
  shows "\<exists>rc' L'. genaRenew_store now h (Some sid) rc t c (Some a) L = Some (rc', L') \<and> lib_ok A L' \<and> cl_calls L' = cl_calls L \<and>
           (if fst (GetHandleInfo h L) \<noteq> HND_CLIENT then rc' = GENA_E_BAD_HANDLE \<and> L' = L
            else if rc \<noteq> 0 then rc' = rc \<and> removed_sub L sid L'
            else (rc' = 0 \<or> rc' = GENA_E_BAD_SID \<and> GetClientSubClientSID (list_head L) (Some sid) (cl_store L) = Some NULL) \<and> same_places (cl_store L) (cl_store L') \<and> list_head L' = list_head L)"
proof -
  have tab: "table_ok L" using ok by (simp add: lib_ok_def)
  have cp: "\<exists>c'. free_copy c M = Some (c', M)" if "lib_ok A M" for M
    using free_copy_ok [OF that] c by (simp add: copy_ok_def)
  show ?thesis
  proof (cases rule: client_handle_cases [OF tab, of h, case_names client none])
    case none
    then show ?thesis using ok by (simp add: genaRenew_store_def)
  next
    case (client hi)
    show ?thesis
    proof (cases "rc = 0")
      case False
      from remove_sub_ok [OF ok client(1) sid] obtain L' where
        L': "remove_sub h hi (Some sid) L = Some L'" "lib_ok A L'" "removed_sub L sid L'" "cl_calls L' = cl_calls L" by blast
      from cp [OF L'(2)] show ?thesis using client(1) False L' by (auto simp: genaRenew_store_def)
    next
      case True
      from find_sub_ok [OF ok client(4) sid] obtain sub where
        sub: "GetClientSubClientSID (hi_ClientSubList hi) (Some sid) (cl_store L) = Some sub"
          "sub \<noteq> NULL \<Longrightarrow> \<exists>c. cs_sub (cl_store L) sub = Some c" by blast
      show ?thesis
      proof (cases "sub = NULL")
        case True
        then show ?thesis using cp [OF ok] client(1,4) \<open>rc = 0\<close> sub(1) ok by (auto simp: genaRenew_store_def)
      next
        case False
        then obtain c1 where c1: "cs_sub (cl_store L) sub = Some c1" using sub(2) by blast
        from renew_at_ok [OF ok c1 a, of now h t] obtain L' where
          L': "renew_at now h t (Some a) sub L = Some (0, L')" "lib_ok A L'" "cl_calls L' = cl_calls L"
            "same_places (cl_store L) (cl_store L')" "cl_HandleTable L' = cl_HandleTable L" by blast
        from cp [OF L'(2)] show ?thesis using client(1) \<open>rc = 0\<close> sub(1) False L'
          by (auto simp: genaRenew_store_def list_head_def)
      qed
    qed
  qed
qed

end
