(* ===== verification/GenaSystem.thy ===== *)
theory GenaSystem
  imports GenaProps
begin

text \<open>
  Eventing as a system of threads: calls of the application, renewals that timers start, and the ends of
  exchanges with publishers, in any order. Each step is what a thread does while it holds the handle
  lock; between steps a thread is in an exchange, or waits for the lock.
\<close>

section \<open>The remaining parts of the operations\<close>

lemma genaUnregister_next_ok:
  assumes ok: "lib_ok A L"
  shows "\<exists>r L'. genaUnregister_next h c0 L = Some (r, L') \<and> lib_ok A L' \<and> (\<forall>c. r = Inr c \<longrightarrow> copy_ok c)"
proof -
  let ?s = "cl_store L"
  have tab: "table_ok L" and st: "store_ok A ?s (list_head L)" using ok by (simp_all add: lib_ok_def)
  show ?thesis
  proof (cases rule: client_handle_cases [OF tab, of h, case_names client none])
    case none
    then show ?thesis using ok by (simp add: genaUnregister_next_def)
  next
    case (client hi)
    show ?thesis
    proof (cases "hi_ClientSubList hi = NULL")
      case True
      then show ?thesis using client(1) ok by (simp add: genaUnregister_next_def)
    next
      case False
      from st obtain as where "sub_list (cs_sub ?s) (list_head L) as" by (auto simp: store_ok_def)
      then obtain c where c: "cs_sub ?s (hi_ClientSubList hi) = Some c" using False client(4) by (cases as) auto
      from assign_memory [OF lib_memory [OF ok] store_okD(5) [OF st c], of c0] obtain q where
        q: "UpnpClientSubscription_assign (cs_alloc ?s) c0 c = Some (q, cs_alloc ?s)" "sub_ok q" "m_renewEventId q = -1" by blast
      from q(2) obtain x where x: "m_SID q = Some x" "string_ok x" by (auto simp: sub_ok_def)
      from remove_sub_ok [OF ok client(1) x(2)] obtain L' where "remove_sub h hi (Some x) L = Some L'" "lib_ok A L'" by blast
      then show ?thesis using client(1) False c q x(1) by (simp add: genaUnregister_next_def copy_ok_def)
    qed
  qed
qed

lemma timeouts_ok_perm: "mset A = mset B \<Longrightarrow> timeouts_ok A s \<Longrightarrow> timeouts_ok B s"
  unfolding timeouts_ok_def by (metis mset_append mset_eq_imp_distinct_iff mset_eq_setD)

lemma lib_ok_perm:
  assumes "mset A = mset B" and "lib_ok A L"
  shows "lib_ok B L"
proof -
  have "timeouts_ok A (cl_store L)" using assms(2) by (simp add: lib_ok_def store_ok_def)
  from timeouts_ok_perm [OF assms(1) this] assms(2) show ?thesis unfolding lib_ok_def store_ok_def by blast
qed

lemma renewal_input_ok:
  assumes ok: "lib_ok A L" and a: "a \<in> set A"
  shows "\<exists>h sid t. renewal_input a L = Some (h, Some sid, t, L) \<and> string_ok sid"
proof -
  have st: "store_ok A (cl_store L) (list_head L)" using ok by (simp add: lib_ok_def)
  have "a \<in> dom (cs_timeout (cl_store L))" using store_okD(3) [OF st] a by (auto simp: timeouts_ok_def)
  then obtain ev where ev: "cs_timeout (cl_store L) a = Some ev" by blast
  have t: "NUL \<in> set (es_Sid (to_Event ev))" "List.length (es_Sid (to_Event ev)) = SIZEOF_Upnp_SID"
    using st ev by (auto simp: store_ok_def timeout_ok_def)
  have "List.length (cstr (es_Sid (to_Event ev))) \<le> 44"
    using t(2) unfolding cstr_def SIZEOF_Upnp_SID_def by (metis length_takeWhile_le)
  then have "List.length (cstr (es_Sid (to_Event ev))) < alloc_max" by (simp add: alloc_max_def)
  from set_block_memory [OF lib_memory [OF ok] t(1) this, of "\<lparr>m_length = 0, m_string = [NUL]\<rparr>"] show ?thesis
    using ev by (auto simp: renewal_input_def new_memory [OF lib_memory [OF ok]])
qed

lemma make_callback_simps [simp]:
  "cl_store (make_callback ev hi L) = cl_store L" "lib_ok A (make_callback ev hi L) = lib_ok A L"
  "list_head (make_callback ev hi L) = list_head L" "table_ok (make_callback ev hi L) = table_ok L"
  by (simp_all add: make_callback_def lib_ok_def table_ok_def list_head_def)

text \<open>The data of a renewal is freed at its end, once.\<close>

lemma renewal_done_ok:
  assumes ok: "lib_ok (a # A) L"
  shows "\<exists>L'. renewal_done a err t L = Some L' \<and> lib_ok A L'"
proof -
  let ?s = "cl_store L"
  have tab: "table_ok L" and st: "store_ok (a # A) ?s (list_head L)" using ok by (simp_all add: lib_ok_def)
  note T = store_okD(3) [OF st]
  let ?args = "map event_arg (filter renewal (timer_events ?s))"
  have d: "distinct (?args @ a # A)" "set (?args @ a # A) = dom (cs_timeout ?s)" "NULL \<notin> dom (cs_timeout ?s)"
    using T by (simp_all add: timeouts_ok_def)
  have "a \<in> dom (cs_timeout ?s)" using d(2) by auto
  then obtain ev where ev: "cs_timeout ?s a = Some ev" by blast
  have nz: "a \<noteq> NULL" using ev d(3) by (metis domI)
  define ev' where "ev' = ev\<lparr>to_Event := (to_Event ev)\<lparr>es_ErrCode := err, es_TimeOut := t\<rparr>\<rparr>"
  define s1 where "s1 = ?s\<lparr>cs_timeout := (cs_timeout ?s)(a \<mapsto> ev')\<rparr>"
  define s2 where "s2 = s1\<lparr>cs_timeout := (cs_timeout ?s)(a := None)\<rparr>"
  have fr: "free_upnp_timeout a s1 = Some s2" using nz by (simp add: free_upnp_timeout_def s1_def s2_def)
  have te: "timer_events s2 = timer_events ?s" by (simp add: s2_def s1_def timer_events_def)
  have dm: "dom (cs_timeout s2) = dom (cs_timeout ?s) - {a}" by (simp add: s2_def)
  have "set (?args @ A) = dom (cs_timeout ?s) - {a}" using d(1,2) by auto
  then have "timeouts_ok A s2" using T d(1,3) te dm by (auto simp: timeouts_ok_def s2_def s1_def)
  then have "store_ok A s2 (list_head L)"
    using st te by (auto simp: store_ok_def cell_ok_def timeout_ok_def renews_def s2_def s1_def split: if_splits)
  then have lib: "lib_ok A (set_store s2 M)" if "table_ok M" "list_head M = list_head L" for M
    using that by (simp add: lib_ok_def)
  show ?thesis
  proof (cases rule: client_handle_cases [OF tab, of "to_handle ev", case_names client none])
    case (client hi)
    then show ?thesis using ev fr lib [of L] lib [of "make_callback (EVENT_AUTORENEWAL_FAILED (to_Event ev')) hi L"] tab
      by (simp add: renewal_done_def s1_def ev'_def Let_def) (auto simp: make_callback_def set_store_def list_head_def table_ok_def)
  next
    case none
    then show ?thesis using ev fr lib [of L] tab by (simp add: renewal_done_def s1_def ev'_def Let_def)
  qed
qed

section \<open>A timer fires\<close>

text \<open>
  One round of the timer's worker. \<open>accepted\<close> is whether the pool takes the job; if not, the timer calls
  its free function, which for a renewal is \<open>free_upnp_timeout\<close>. The result is the data of the renewal
  that the pool now has.
\<close>

definition give_job :: "bool \<Rightarrow> ThreadPoolJob list pool_add" where
  "give_job accepted d j p = (if accepted then (0, p @ [j]) else (EOUTOFMEM, p))"

fun call_free_functions :: "(addr \<times> addr) list \<Rightarrow> client_store \<Rightarrow> client_store option" where
  "call_free_functions [] s = Some s"
| "call_free_functions ((f, a) # fs) s =
     (if f = free_upnp_timeout_addr then Option.bind (free_upnp_timeout a s) (call_free_functions fs)
      else call_free_functions fs s)"

definition timer_round :: "bool \<Rightarrow> int \<Rightarrow> client_lib \<Rightarrow> (addr list \<times> client_lib) option" where
  "timer_round accepted now L =
     (let s = cl_store L
      in case TimerThreadWorker_round (give_job accepted) now (cs_timer s) [] of
           (_, t, jobs) \<Rightarrow>
             map_option
               (\<lambda>s1. (map job_arg (filter (\<lambda>j. job_func j = GenaAutoRenewSubscription_addr) jobs), set_store s1 L))
               (call_free_functions (drop (List.length (tt_freed (cs_timer s))) (tt_freed t)) (s\<lparr>cs_timer := t\<rparr>)))"

lemma same_timer:
  assumes "store_ok A s p" and "eventQ t = eventQ (cs_timer s)" and "lastEventId t = lastEventId (cs_timer s)"
    and "tt_oom t = tt_oom (cs_timer s)"
  shows "store_ok A (s\<lparr>cs_timer := t\<rparr>) p"
proof -
  let ?s = "s\<lparr>cs_timer := t\<rparr>"
  have te: "timer_events ?s = timer_events s" using assms(2) by (simp add: timer_events_def)
  have r: "renews i ?s = renews i s" for i using te assms(3) by (simp add: renews_def)
  have c: "cell_ok ?s a x = cell_ok s a x" for a x using r by (simp add: cell_ok_def)
  have "timer_inv t = timer_inv (cs_timer s)" using assms(2,3) by (simp add: timer_inv_def)
  then have "timeouts_ok A ?s = timeouts_ok A s" using te assms(3) by (simp add: timeouts_ok_def)
  then show ?thesis using assms(1,4) c by (simp add: store_ok_def timeout_ok_def)
qed

lemma timer_shutdown_irrelevant:
  assumes "lib_ok A L"
  shows "lib_ok A (set_store ((cl_store L)\<lparr>cs_timer := (cs_timer (cl_store L))\<lparr>tt_shutdown := b\<rparr>\<rparr>) L)"
  using assms same_timer by (simp add: lib_ok_def)

lemma timer_round_ok:
  assumes ok: "lib_ok A L"
  shows "\<exists>B L'. timer_round accepted now L = Some (B, L') \<and> lib_ok (B @ A) L'"
proof -
  let ?s = "cl_store L" let ?t = "cs_timer (cl_store L)"
  have tab: "table_ok L" and st: "store_ok A ?s (list_head L)" using ok by (simp_all add: lib_ok_def)
  note T = store_okD(3) [OF st]
  show ?thesis
  proof (cases "tt_shutdown ?t")
    case True
    then show ?thesis using timer_shutdown_irrelevant [OF ok, of False]
      by (simp add: timer_round_def TimerThreadWorker_round_def Let_def)
  next
    case False
    show ?thesis
    proof (cases "q_items (eventQ ?t)")
      case Nil
      then show ?thesis using False ok by (simp add: timer_round_def TimerThreadWorker_round_def Let_def)
    next
      case (Cons e es)
      show ?thesis
      proof (cases "now \<ge> eventTime e")
        case late: False
        then show ?thesis using False Cons ok by (simp add: timer_round_def TimerThreadWorker_round_def Let_def)
      next
        case True
        obtain t p where f: "fire (give_job accepted) e ?t [] = (t, p)" by (cases "fire (give_job accepted) e ?t []")
        note F = fire_queue [OF f]
        have te: "timer_events ?s = e # es" using Cons by (simp add: timer_events_def)
        have tq: "q_items (eventQ t) = es" using F Cons by (simp add: q_pop_items)
        have same: "lastEventId t = lastEventId ?t" "tt_oom t = tt_oom ?t"
          using F f by (auto simp: fire_def FreeTimerEvent_def Let_def split: prod.splits if_splits)
        have pj: "p = (if accepted then [ev_job e] else [])"
          using f by (auto simp: fire_def give_job_def Let_def split: if_splits)
        have fr: "tt_freed t = tt_freed ?t @ (if accepted then [] else rejected_call e)"
          using f by (auto simp: fire_def give_job_def rejected_call_def Let_def FreeTimerEvent_def split: if_splits)
             (auto simp: EOUTOFMEM_def)
        let ?s1 = "?s\<lparr>cs_timer := t\<rparr>"
        let ?args = "map event_arg (filter renewal es)"
        have d: "distinct (map event_arg (filter renewal (e # es)) @ A)"
          "set (map event_arg (filter renewal (e # es)) @ A) = dom (cs_timeout ?s)" "NULL \<notin> dom (cs_timeout ?s)"
          using T unfolding timeouts_ok_def te by blast+
        have free: "renewal e \<longleftrightarrow> job_free_func (ev_job e) = free_upnp_timeout_addr" using T te by (simp add: timeouts_ok_def)
        have inv: "timer_inv t" using T te tq same(1)
          by (auto simp: timeouts_ok_def timer_inv_def by_time_def timer_events_def)
        have te1: "timer_events ?s1 = es" using tq by (simp add: timer_events_def)
        have cells: "cell_ok ?s1 b c" if "cs_sub ?s b = Some c" for b c
          using store_okD(5-8) [OF st that] same(1) te te1 by (auto simp: cell_ok_def renews_def)
        have good: "lib_ok B (set_store (?s1\<lparr>cs_timeout := g\<rparr>) L)"
          if "timeouts_ok B (?s1\<lparr>cs_timeout := g\<rparr>)" "g \<subseteq>\<^sub>m cs_timeout ?s" for B g
        proof -
          have "timeout_ok ?s1 b ev" if "g b = Some ev" for b ev
            using st that \<open>g \<subseteq>\<^sub>m cs_timeout ?s\<close> by (force simp: store_ok_def timeout_ok_def map_le_def dom_def)
          moreover have "cell_ok (?s1\<lparr>cs_timeout := g\<rparr>) b c" if "cs_sub ?s b = Some c" for b c
            using cells [OF that] by (simp add: cell_ok_def renews_def timer_events_def)
          ultimately show ?thesis using that(1) tab st same(2) by (simp add: lib_ok_def store_ok_def timeout_ok_def)
        qed
        have run: "timer_round accepted now L =
            map_option (\<lambda>s1. (map job_arg (filter (\<lambda>j. job_func j = GenaAutoRenewSubscription_addr) p), set_store s1 L))
              (call_free_functions (if accepted then [] else rejected_call e) ?s1)"
          using False Cons True f fr by (simp add: timer_round_def TimerThreadWorker_round_def Let_def)
        have tos: "timeouts_ok B (?s1\<lparr>cs_timeout := g\<rparr>)"
          if "distinct (?args @ B)" "set (?args @ B) = dom g" "NULL \<notin> dom g" for B g
          using T te inv same(1) that by (auto simp: timeouts_ok_def timer_events_def tq)
        show ?thesis
        proof (cases "accepted \<or> \<not> renewal e")
          case True
          define B where "B = (if accepted \<and> renewal e then [event_arg e] else [])"
          have "call_free_functions (if accepted then [] else rejected_call e) ?s1 = Some ?s1"
            using True free by (auto simp: rejected_call_def)
          moreover have "map job_arg (filter (\<lambda>j. job_func j = GenaAutoRenewSubscription_addr) p) = B"
            by (simp add: pj B_def renewal_def event_arg_def)
          moreover have m: "mset (?args @ B @ A) = mset (map event_arg (filter renewal (e # es)) @ A)"
            using True by (auto simp: B_def)
          have "timeouts_ok (B @ A) (?s1\<lparr>cs_timeout := cs_timeout ?s\<rparr>)"
            using d mset_eq_imp_distinct_iff [OF m] mset_eq_setD [OF m] by (intro tos) simp_all
          then have "lib_ok (B @ A) (set_store ?s1 L)" using good [of "B @ A" "cs_timeout ?s"] by simp
          ultimately show ?thesis using run by simp
        next
          case False
          then have e: "\<not> accepted" "renewal e" by simp_all
          let ?g = "(cs_timeout ?s)(event_arg e := None)"
          obtain ev where ev: "cs_timeout ?s (event_arg e) = Some ev" using d(2) e(2) by auto
          have nz: "job_arg (ev_job e) \<noteq> NULL" using ev d(3) by (metis domI event_arg_def)
          have "rejected_call e = [(free_upnp_timeout_addr, event_arg e)]"
            using nz free e(2) by (simp add: rejected_call_def event_arg_def free_upnp_timeout_addr_def)
          then have "call_free_functions (rejected_call e) ?s1 = Some (?s1\<lparr>cs_timeout := ?g\<rparr>)"
            using nz ev by (simp add: free_upnp_timeout_def event_arg_def)
          moreover have "timeouts_ok A (?s1\<lparr>cs_timeout := ?g\<rparr>)" using d e(2) by (intro tos) auto
          then have "lib_ok A (set_store (?s1\<lparr>cs_timeout := ?g\<rparr>) L)" by (intro good) (auto simp: map_le_def)
          ultimately show ?thesis using run e(1) pj by simp
        qed
      qed
    qed
  qed
qed

section \<open>Registering\<close>

lemma GetFreeHandle_1:
  assumes "table_ok L" and "\<not> cl_ClientRegistered L"
  shows "GetFreeHandle L = 1" and "cl_HandleTable L ! Suc 0 = None"
proof -
  show none: "cl_HandleTable L ! Suc 0 = None" using assms by (cases "cl_HandleTable L ! Suc 0") (auto simp: table_ok_def)
  have "[1..<NUM_HANDLE] = 1 # [2..<NUM_HANDLE]" by (subst upt_conv_Cons) (simp_all add: NUM_HANDLE_def numeral_2_eq_2)
  then show "GetFreeHandle L = 1" using none by (simp add: GetFreeHandle_def)
qed

lemma store_ok_NULL: "store_ok A s p \<Longrightarrow> store_ok A s NULL"
  unfolding store_ok_def using sub_seg.simps(1) by blast

lemma UpnpRegisterClient_ok:
  assumes ok: "lib_ok A L"
  shows "\<exists>rc h L'. UpnpRegisterClient f k g L = (rc, h, L') \<and> lib_ok A L'"
proof -
  have tab: "table_ok L" and st: "store_ok A (cl_store L) (list_head L)" using ok by (simp_all add: lib_ok_def)
  show ?thesis
  proof (cases "cl_SdkInit L \<noteq> 1 \<or> f = NULL \<or> \<not> g \<or> cl_ClientRegistered L")
    case True
    then show ?thesis using ok by (auto simp: UpnpRegisterClient_def)
  next
    case False
    note G = GetFreeHandle_1 [OF tab]
    let ?hi = "\<lparr>hi_HType = HND_CLIENT, hi_Callback = f, hi_Cookie = k, hi_ClientSubList = NULL, hi_SsdpSearchList = q_empty\<rparr>"
    let ?L' = "(set_handle 1 ?hi L)\<lparr>cl_ClientRegistered := True\<rparr>"
    have "UpnpRegisterClient f k g L = (0, Some 1, ?L')"
      using False G lib_memory [OF ok]
      by (simp add: UpnpRegisterClient_def malloc_ok_memory SIZEOF_Handle_Info_def Let_def set_handle_def)
    moreover have "table_ok ?L'" "list_head ?L' = NULL"
      using tab by (auto simp: table_ok_def list_head_def set_handle_def NUM_HANDLE_def)
    moreover have "cl_store ?L' = cl_store L" by (simp add: set_handle_def)
    ultimately show ?thesis using store_ok_NULL [OF st] by (auto simp: lib_ok_def)
  qed
qed

lemma UpnpUnRegisterClient_free_ok:
  assumes ok: "lib_ok A L"
  shows "\<exists>rc L'. UpnpUnRegisterClient_free h L = (rc, L') \<and> lib_ok A L'"
proof -
  have tab: "table_ok L" and st: "store_ok A (cl_store L) (list_head L)" using ok by (simp_all add: lib_ok_def)
  show ?thesis
  proof (cases rule: client_handle_cases [OF tab, of h, case_names client none])
    case none
    then show ?thesis using ok by (simp add: UpnpUnRegisterClient_free_def)
  next
    case (client hi)
    let ?L' = "(L\<lparr>cl_HandleTable := (cl_HandleTable L)[Suc 0 := None]\<rparr>)\<lparr>cl_ClientRegistered := False\<rparr>"
    have "UpnpUnRegisterClient_free h L = (0, ?L')"
      using client by (simp add: UpnpUnRegisterClient_free_def FreeHandle_def NUM_HANDLE_def)
    moreover have "table_ok ?L'" "list_head ?L' = NULL"
      using tab by (auto simp: table_ok_def list_head_def nth_list_update NUM_HANDLE_def)
    ultimately show ?thesis using store_ok_NULL [OF st] by (simp add: lib_ok_def)
  qed
qed

section \<open>Threads\<close>

text \<open>What a thread that does not hold the lock goes on with; the exchange it is in is named by the first word.\<close>

datatype gena_thread =
  Unsubscribing int upnp_string client_sub
| Subscribing int upnp_string int client_sub upnp_string upnp_string upnp_string
| Renewing int upnp_string int client_sub upnp_string "addr option"
| Fired addr
| Unregistering int client_sub
| Unregistered int

fun thread_data :: "gena_thread \<Rightarrow> addr list" where
  "thread_data (Renewing _ _ _ _ _ (Some a)) = [a]"
| "thread_data (Fired a) = [a]"
| "thread_data _ = []"

datatype 'f gena_label =
  Register nat nat
| Subscribe int upnp_string int upnp_string
| Unsubscribe int upnp_string
| Renew int upnp_string int
| Unregister int
| Timer bool int
| Continue nat "'f gena_net" int uuid_upnp

type_synonym gena_sys = "client_lib \<times> gena_thread list"

definition replace_thread :: "nat \<Rightarrow> gena_thread list \<Rightarrow> gena_thread list \<Rightarrow> gena_thread list" where
  "replace_thread k new ts = take k ts @ new @ drop (Suc k) ts"

text \<open>A renewal, by a call or by a timer: it ends at once, or goes on with an exchange.\<close>

definition start_renewal ::
  "int \<Rightarrow> upnp_string \<Rightarrow> int \<Rightarrow> addr option \<Rightarrow> client_lib \<Rightarrow> (gena_thread list \<times> client_lib) option" where
  "start_renewal h sid t event L =
     Option.bind (genaRenew_find h (Some sid) L) (\<lambda>(r, L1).
       case r of
         Inl rc \<Rightarrow>
           (case event of
              None \<Rightarrow> Some ([], L1)
            | Some a \<Rightarrow> map_option (\<lambda>L2. ([], L2)) (renewal_done a rc t L1))
       | Inr (c, actual) \<Rightarrow> Option.bind actual (\<lambda>a. Some ([Renewing h sid t c a event], L1)))"

definition next_unregister :: "int \<Rightarrow> client_sub \<Rightarrow> client_lib \<Rightarrow> (gena_thread list \<times> client_lib) option" where
  "next_unregister h c L =
     map_option (\<lambda>(r, L1). (case r of Inl rc \<Rightarrow> if rc = 0 then [Unregistered h] else [] | Inr c1 \<Rightarrow> [Unregistering h c1], L1))
       (genaUnregister_next h c L)"

text \<open>
  A thread gets the lock again. While its exchange has not ended, the value of the exchange is \<open>None\<close>
  and the thread stays where it is.
\<close>

fun continue_thread ::
  "'f gena_net \<Rightarrow> int \<Rightarrow> uuid_upnp \<Rightarrow> gena_thread \<Rightarrow> client_lib \<Rightarrow> (gena_thread list \<times> client_lib) option"
where
  "continue_thread N now uid (Unsubscribing h sid c) L =
     (case gena_unsubscribe N (m_eventURL c) (m_actualSID c) of
        None \<Rightarrow> Some ([Unsubscribing h sid c], L)
      | Some (rc, _) \<Rightarrow> map_option (\<lambda>(_, L1). ([], L1)) (genaUnSubscribe_remove h (Some sid) c rc L))"
| "continue_thread N now uid (Subscribing h url t c actual eurl out) L =
     (case gena_subscribe N (Some url) (Some t) None (Some actual) of
        None \<Rightarrow> Some ([Subscribing h url t c actual eurl out], L)
      | Some (rc, t1, actual1) \<Rightarrow>
          map_option (\<lambda>(_, _, L1). ([], L1))
            (genaSubscribe_link now uid h (Some url) rc (the t1) c actual1 (Some eurl) (Some out) L))"
| "continue_thread N now uid (Renewing h sid t c actual event) L =
     (case gena_subscribe N (m_eventURL c) (Some t) (m_actualSID c) (Some actual) of
        None \<Rightarrow> Some ([Renewing h sid t c actual event], L)
      | Some (rc, t1, actual1) \<Rightarrow>
          Option.bind (genaRenew_store now h (Some sid) rc (the t1) c actual1 L) (\<lambda>(rc1, L1).
            case event of
              None \<Rightarrow> Some ([], L1)
            | Some a \<Rightarrow> map_option (\<lambda>L2. ([], L2)) (renewal_done a rc1 (the t1) L1)))"
| "continue_thread N now uid (Fired a) L =
     Option.bind (renewal_input a L) (\<lambda>(h, sid, t, L1). Option.bind sid (\<lambda>s. start_renewal h s t (Some a) L1))"
| "continue_thread N now uid (Unregistering h c) L =
     (case gena_unsubscribe N (m_eventURL c) (m_actualSID c) of
        None \<Rightarrow> Some ([Unregistering h c], L)
      | Some _ \<Rightarrow> Option.bind (free_copy c L) (\<lambda>(c1, L1). next_unregister h c1 L1))"
| "continue_thread N now uid (Unregistered h) L = Some ([], snd (UpnpUnRegisterClient_free h L))"

fun gena_step :: "'f gena_label \<Rightarrow> gena_sys \<Rightarrow> gena_sys option" where
  "gena_step (Register f k) (L, ts) = (case UpnpRegisterClient f k True L of (_, _, L1) \<Rightarrow> Some (L1, ts))"
| "gena_step (Subscribe h url t out) (L, ts) =
     Option.bind (genaSubscribe_check h (Some out) L) (\<lambda>(r, sid, L1).
       case (r, sid) of
         (Inr (c, Some actual, Some eurl), Some out1) \<Rightarrow> Some (L1, ts @ [Subscribing h url t c actual eurl out1])
       | (Inl _, _) \<Rightarrow> Some (L1, ts)
       | _ \<Rightarrow> None)"
| "gena_step (Unsubscribe h sid) (L, ts) =
     map_option (\<lambda>(r, L1). (L1, case r of Inl _ \<Rightarrow> ts | Inr c \<Rightarrow> ts @ [Unsubscribing h sid c]))
       (genaUnSubscribe_find h (Some sid) L)"
| "gena_step (Renew h sid t) (L, ts) = map_option (\<lambda>(new, L1). (L1, ts @ new)) (start_renewal h sid t None L)"
| "gena_step (Unregister h) (L, ts) =
     (if cl_SdkInit L \<noteq> 1 \<or> \<not> cl_ClientRegistered L then Some (L, ts)
      else
        Option.bind (UpnpClientSubscription_new (cs_alloc (cl_store L))) (\<lambda>(c, e1).
        map_option (\<lambda>(new, L1). (L1, ts @ new)) (next_unregister h c (set_alloc e1 L))))"
| "gena_step (Timer accepted now) (L, ts) = map_option (\<lambda>(fired, L1). (L1, ts @ map Fired fired)) (timer_round accepted now L)"
| "gena_step (Continue k N now uid) (L, ts) =
     (if k < List.length ts
      then map_option (\<lambda>(new, L1). (L1, replace_thread k new ts)) (continue_thread N now uid (ts ! k) L)
      else Some (L, ts))"

primrec gena_run :: "'f gena_label list \<Rightarrow> gena_sys \<Rightarrow> gena_sys option" where
  "gena_run [] st = Some st"
| "gena_run (l # ls) st = Option.bind (gena_step l st) (gena_run ls)"

section \<open>Every run is safe\<close>

fun thread_ok :: "gena_thread \<Rightarrow> bool" where
  "thread_ok (Unsubscribing h sid c) \<longleftrightarrow> string_ok sid \<and> copy_ok c"
| "thread_ok (Subscribing h url t c actual eurl out) \<longleftrightarrow> string_ok url \<and> string_ok actual \<and> string_ok eurl \<and> string_ok out"
| "thread_ok (Renewing h sid t c actual event) \<longleftrightarrow> string_ok sid \<and> copy_ok c \<and> string_ok actual"
| "thread_ok (Fired a) \<longleftrightarrow> True"
| "thread_ok (Unregistering h c) \<longleftrightarrow> copy_ok c"
| "thread_ok (Unregistered h) \<longleftrightarrow> True"

fun label_ok :: "'f gena_label \<Rightarrow> bool" where
  "label_ok (Subscribe h url t out) \<longleftrightarrow> string_ok url \<and> string_ok out"
| "label_ok (Unsubscribe h sid) \<longleftrightarrow> string_ok sid"
| "label_ok (Renew h sid t) \<longleftrightarrow> string_ok sid"
| "label_ok _ \<longleftrightarrow> True"

definition threads_data :: "gena_thread list \<Rightarrow> addr list" where
  "threads_data ts = concat (map thread_data ts)"

definition sys_ok :: "gena_sys \<Rightarrow> bool" where
  "sys_ok st \<longleftrightarrow> (case st of (L, ts) \<Rightarrow> lib_ok (threads_data ts) L \<and> list_all thread_ok ts)"

lemma threads_data_simps [simp]:
  "threads_data [] = []" "threads_data (t # ts) = thread_data t @ threads_data ts" "threads_data (ts @ us) = threads_data ts @ threads_data us"
  by (simp_all add: threads_data_def)

lemma start_renewal_ok:
  assumes ok: "lib_ok (B @ A) L" and sid: "string_ok sid" and B: "B = (case event of None \<Rightarrow> [] | Some a \<Rightarrow> [a])"
  shows "\<exists>new L'. start_renewal h sid t event L = Some (new, L') \<and> lib_ok (threads_data new @ A) L' \<and> list_all thread_ok new"
proof -
  from genaRenew_find_ok [OF ok sid, of h] obtain r L1 where
    f: "genaRenew_find h (Some sid) L = Some (r, L1)" "lib_ok (B @ A) L1"
      "\<And>c a. r = Inr (c, a) \<Longrightarrow> copy_ok c \<and> (\<exists>a'. a = Some a' \<and> string_ok a')" by blast
  show ?thesis
  proof (cases r)
    case (Inl rc)
    show ?thesis
    proof (cases event)
      case None
      then show ?thesis using f(1,2) Inl B by (simp add: start_renewal_def)
    next
      case (Some a)
      then have "lib_ok (a # A) L1" using f(2) B by simp
      from renewal_done_ok [OF this] show ?thesis using f(1) Inl Some by (force simp: start_renewal_def)
    qed
  next
    case (Inr x)
    then obtain c a' where x: "r = Inr (c, Some a')" "copy_ok c" "string_ok a'" using f(3) by (cases x) blast
    then show ?thesis using f(1,2) sid B by (cases event) (simp_all add: start_renewal_def)
  qed
qed

lemma next_unregister_ok:
  assumes "lib_ok A L"
  shows "\<exists>new L'. next_unregister h c L = Some (new, L') \<and> lib_ok (threads_data new @ A) L' \<and> list_all thread_ok new"
proof -
  from genaUnregister_next_ok [OF assms, of h c] obtain r L' where
    "genaUnregister_next h c L = Some (r, L')" "lib_ok A L'" "\<And>c. r = Inr c \<Longrightarrow> copy_ok c" by blast
  then show ?thesis by (cases r) (simp_all add: next_unregister_def)
qed

lemma continue_thread_ok:
  assumes ok: "lib_ok (thread_data th @ A) L" and th: "thread_ok th"
  shows "\<exists>new L'. continue_thread N now uid th L = Some (new, L') \<and> lib_ok (threads_data new @ A) L' \<and> list_all thread_ok new"
proof (cases th)
  case (Unsubscribing h sid c)
  then have *: "lib_ok A L" "string_ok sid" "copy_ok c" using ok th by simp_all
  show ?thesis
  proof (cases "gena_unsubscribe N (m_eventURL c) (m_actualSID c)")
    case None
    then show ?thesis using Unsubscribing * by simp
  next
    case (Some r)
    obtain rc p where r: "r = (rc, p)" by (cases r)
    from genaUnSubscribe_remove_ok [OF *, of h rc] obtain L' rc' where
      "genaUnSubscribe_remove h (Some sid) c rc L = Some (rc', L')" "lib_ok A L'" by blast
    then show ?thesis using Unsubscribing Some r by simp
  qed
next
  case (Subscribing h url t c actual eurl out)
  then have *: "lib_ok A L" "string_ok url" "string_ok actual" "string_ok eurl" "string_ok out" using ok th by simp_all
  show ?thesis
  proof (cases "gena_subscribe N (Some url) (Some t) None (Some actual)")
    case None
    then show ?thesis using Subscribing * by simp
  next
    case (Some r)
    obtain rc t1 act where r: "r = (rc, t1, act)" by (cases r)
    from gena_subscribe_string [OF _ *(3)] Some r obtain x where x: "act = Some x" "string_ok x" by blast
    from genaSubscribe_link_ok [OF *(1,5) x(2) *(4,2), of now uid h rc "the t1" c] obtain rc' sid L' where
      "genaSubscribe_link now uid h (Some url) rc (the t1) c (Some x) (Some eurl) (Some out) L = Some (rc', Some sid, L')" "lib_ok A L'"
      by blast
    then show ?thesis using Subscribing Some r x(1) by simp
  qed
next
  case (Renewing h sid t c actual event)
  define B where "B = (case event of None \<Rightarrow> [] | Some a \<Rightarrow> [a])"
  have td: "thread_data th = B" using Renewing by (cases event) (simp_all add: B_def)
  have *: "lib_ok (B @ A) L" "string_ok sid" "copy_ok c" "string_ok actual" using ok th Renewing td by simp_all
  show ?thesis
  proof (cases "gena_subscribe N (m_eventURL c) (Some t) (m_actualSID c) (Some actual)")
    case None
    then show ?thesis using Renewing * td by simp
  next
    case (Some r)
    obtain rc t1 act where r: "r = (rc, t1, act)" by (cases r)
    from gena_subscribe_string [OF _ *(4)] Some r obtain x where x: "act = Some x" "string_ok x" by blast
    from genaRenew_store_ok [OF *(1,2,3) x(2), of now h rc "the t1"] obtain rc' L' where
      s: "genaRenew_store now h (Some sid) rc (the t1) c (Some x) L = Some (rc', L')" "lib_ok (B @ A) L'" by blast
    show ?thesis
    proof (cases event)
      case None
      then show ?thesis using Renewing Some r x(1) s B_def by simp
    next
      case (Some a)
      then have "lib_ok (a # A) L'" using s(2) B_def by simp
      from renewal_done_ok [OF this, of rc' "the t1"] show ?thesis
        using Renewing \<open>gena_subscribe N (m_eventURL c) (Some t) (m_actualSID c) (Some actual) = Some r\<close> r x(1) s(1) Some by force
    qed
  qed
next
  case (Fired a)
  then have l: "lib_ok ([a] @ A) L" using ok by simp
  from renewal_input_ok [OF l, of a] obtain h sid t where
    i: "renewal_input a L = Some (h, Some sid, t, L)" "string_ok sid" by auto
  from start_renewal_ok [OF l i(2), of "Some a"] show ?thesis using Fired i(1) by simp
next
  case (Unregistering h c)
  then have *: "lib_ok A L" "copy_ok c" using ok th by simp_all
  from free_copy_ok [OF *(1)] *(2) obtain c1 where f: "free_copy c L = Some (c1, L)" by (auto simp: copy_ok_def)
  show ?thesis
  proof (cases "gena_unsubscribe N (m_eventURL c) (m_actualSID c)")
    case None
    then show ?thesis using Unregistering * by simp
  next
    case (Some r)
    then show ?thesis using Unregistering f next_unregister_ok [OF *(1), of h c1] by simp
  qed
next
  case (Unregistered h)
  then have "lib_ok A L" using ok by simp
  from UpnpUnRegisterClient_free_ok [OF this, of h] show ?thesis using Unregistered by auto
qed

lemma threads_data_replace:
  assumes "k < List.length ts"
  shows "mset (threads_data ts) = mset (thread_data (ts ! k) @ threads_data (take k ts) @ threads_data (drop (Suc k) ts))"
    and "mset (threads_data (replace_thread k new ts)) = mset (threads_data new @ threads_data (take k ts) @ threads_data (drop (Suc k) ts))"
proof -
  have "ts = take k ts @ ts ! k # drop (Suc k) ts" using assms by (simp add: id_take_nth_drop)
  then have "threads_data ts = threads_data (take k ts) @ thread_data (ts ! k) @ threads_data (drop (Suc k) ts)"
    by (metis threads_data_simps(2,3))
  then show "mset (threads_data ts) = mset (thread_data (ts ! k) @ threads_data (take k ts) @ threads_data (drop (Suc k) ts))" by simp
qed (simp add: replace_thread_def)

lemma threads_ok_replace:
  assumes "list_all thread_ok ts" and "list_all thread_ok new"
  shows "list_all thread_ok (replace_thread k new ts)"
  using assms by (auto simp: replace_thread_def list_all_iff dest: in_set_takeD in_set_dropD)

lemma gena_step_ok:
  assumes "sys_ok (L, ts)" and "label_ok l"
  shows "\<exists>L' ts'. gena_step l (L, ts) = Some (L', ts') \<and> sys_ok (L', ts')"
proof -
  have ok: "lib_ok (threads_data ts) L" and tok: "list_all thread_ok ts" using assms(1) by (simp_all add: sys_ok_def)
  have add: "sys_ok (L', ts @ new)" if "lib_ok (threads_data new @ threads_data ts) L'" "list_all thread_ok new" for L' new
    using lib_ok_perm [OF _ that(1), of "threads_data (ts @ new)"] that(2) tok by (simp add: sys_ok_def)
  show ?thesis
  proof (cases l)
    case (Register f k)
    from UpnpRegisterClient_ok [OF ok, of f k True] show ?thesis using Register tok by (auto simp: sys_ok_def)
  next
    case (Subscribe h url t out)
    then have so: "string_ok url" "string_ok out" using assms(2) by simp_all
    from genaSubscribe_check_ok [OF ok so(2), of h] obtain r sid where
      g: "genaSubscribe_check h (Some out) L = Some (r, Some sid, L)" "string_ok sid"
        "\<And>c a u. r = Inr (c, a, u) \<Longrightarrow> \<exists>a' u'. a = Some a' \<and> u = Some u' \<and> string_ok a' \<and> string_ok u'" by blast
    show ?thesis
    proof (cases r)
      case (Inl rc)
      then show ?thesis using g(1) Subscribe assms(1) by simp
    next
      case (Inr x)
      obtain c a u where x: "x = (c, a, u)" by (cases x)
      with g(3) Inr obtain a' u' where "a = Some a'" "u = Some u'" "string_ok a'" "string_ok u'" by blast
      then show ?thesis using g(1,2) Subscribe Inr x so ok add [of "[Subscribing h url t c a' u' sid]" L] by simp
    qed
  next
    case (Unsubscribe h sid)
    then have so: "string_ok sid" using assms(2) by simp
    from genaUnSubscribe_find_ok [OF ok so, of h] obtain r where
      g: "genaUnSubscribe_find h (Some sid) L = Some (r, L)" "\<And>c. r = Inr c \<Longrightarrow> copy_ok c" by blast
    show ?thesis
    proof (cases r)
      case (Inl rc)
      then show ?thesis using g(1) Unsubscribe assms(1) by simp
    next
      case (Inr c)
      then show ?thesis using g Unsubscribe so ok add [of "[Unsubscribing h sid c]" L] by simp
    qed
  next
    case (Renew h sid t)
    then have so: "string_ok sid" using assms(2) by simp
    from start_renewal_ok [of "[]" "threads_data ts" L sid None h t] ok so obtain new L' where
      "start_renewal h sid t None L = Some (new, L')" "lib_ok (threads_data new @ threads_data ts) L'" "list_all thread_ok new" by auto
    then show ?thesis using Renew add by simp
  next
    case (Unregister h)
    show ?thesis
    proof (cases "cl_SdkInit L \<noteq> 1 \<or> \<not> cl_ClientRegistered L")
      case True
      then show ?thesis using Unregister assms(1) by auto
    next
      case False
      from new_sub_memory [OF lib_memory [OF ok]] obtain c where
        "UpnpClientSubscription_new (cs_alloc (cl_store L)) = Some (c, cs_alloc (cl_store L))" by blast
      then show ?thesis using Unregister False next_unregister_ok [OF ok, of h c] add by auto
    qed
  next
    case (Timer accepted now)
    from timer_round_ok [OF ok, of accepted now] obtain B L' where
      t: "timer_round accepted now L = Some (B, L')" "lib_ok (B @ threads_data ts) L'" by blast
    have "threads_data (map Fired B) = B" "list_all thread_ok (map Fired B)" by (induction B) simp_all
    then show ?thesis using Timer t add [of "map Fired B" L'] by simp
  next
    case (Continue k N now uid)
    show ?thesis
    proof (cases "k < List.length ts")
      case False
      then show ?thesis using Continue assms(1) by simp
    next
      case True
      note R = threads_data_replace [OF True]
      have "thread_ok (ts ! k)" using tok True by (simp add: list_all_length)
      from continue_thread_ok [OF lib_ok_perm [OF R(1) ok] this, of N now uid] obtain new L' where
        c: "continue_thread N now uid (ts ! k) L = Some (new, L')"
          "lib_ok (threads_data new @ threads_data (take k ts) @ threads_data (drop (Suc k) ts)) L'" "list_all thread_ok new" by blast
      have "sys_ok (L', replace_thread k new ts)"
        using lib_ok_perm [OF R(2) [of new, symmetric] c(2)] threads_ok_replace [OF tok c(3)] by (simp add: sys_ok_def)
      then show ?thesis using Continue True c(1) by simp
    qed
  qed
qed

lemma gena_run_ok:
  assumes "sys_ok (L, ts)" and "list_all label_ok ls"
  shows "\<exists>L' ts'. gena_run ls (L, ts) = Some (L', ts') \<and> sys_ok (L', ts')"
  using assms
proof (induction ls arbitrary: L ts)
  case Nil
  then show ?case by simp
next
  case (Cons l ls)
  from gena_step_ok [OF Cons.prems(1), of l] Cons.prems(2) obtain L1 ts1 where
    "gena_step l (L, ts) = Some (L1, ts1)" "sys_ok (L1, ts1)" by auto
  then show ?case using Cons by simp
qed

definition start_lib :: client_lib where
  "start_lib =
     \<lparr>cl_store = \<lparr>cs_alloc = \<lparr>oom = [], junk = \<lambda>_. NUL\<rparr>, cs_brk = 1, cs_sub = Map.empty, cs_timeout = Map.empty, cs_timer = new_timer\<rparr>,
      cl_HandleTable = replicate NUM_HANDLE None, cl_SdkInit = 1, cl_ClientRegistered = False, cl_calls = []\<rparr>"

lemma start_lib_ok: "sys_ok (start_lib, [])"
proof -
  have te: "timer_events (cl_store start_lib) = []" by (simp add: timer_events_def start_lib_def new_timer_def q_empty_def)
  have "timeouts_ok [] (cl_store start_lib)"
    using te new_timer_inv by (simp add: timeouts_ok_def) (simp add: start_lib_def new_timer_def)
  moreover have "list_head start_lib = NULL" by (simp add: list_head_def start_lib_def NUM_HANDLE_def)
  moreover have "table_ok start_lib" by (simp add: table_ok_def start_lib_def NUM_HANDLE_def)
  ultimately show ?thesis
    by (simp add: sys_ok_def lib_ok_def store_ok_def) (auto simp: start_lib_def new_timer_def intro: exI [of _ "[]"])
qed

text \<open>The blocks of data of the renewals that wait in the timer, and of those that are being worked on.\<close>

definition renewal_data :: "gena_sys \<Rightarrow> addr list" where
  "renewal_data st = (case st of (L, ts) \<Rightarrow> map event_arg (filter renewal (timer_events (cl_store L))) @ threads_data ts)"


definition as_string :: "string \<Rightarrow> upnp_string" where
  "as_string t = \<lparr>m_length = List.length t, m_string = t @ [NUL]\<rparr>"

lemma as_string_ok: "nul_free t \<Longrightarrow> List.length t < alloc_max \<Longrightarrow> string_ok (as_string t) \<and> us_text (as_string t) = t"
  by (simp add: as_string_def string_ok_def us_text_def cstr_nul_free)

definition sample_labels :: "unit gena_label list" where
  "sample_labels = [Register 7 9, Subscribe 1 (as_string ''http://h/e'') 30 (as_string ''''), Renew 1 (as_string ''uuid:x'') 30,
                    Timer True 5, Unregister 1]"


section \<open>What the application sees\<close>

lemma remove_first_cong: "(\<And>x. x \<in> set xs \<Longrightarrow> P x = Q x) \<Longrightarrow> remove_first P xs = remove_first Q xs"
  by (induction xs) auto

text \<open>The identifiers of the client's subscriptions, in the order of the list.\<close>

definition client_sids :: "client_lib \<Rightarrow> string list \<Rightarrow> bool" where
  "client_sids L sids \<longleftrightarrow>
     (\<exists>as. sub_list (cs_sub (cl_store L)) (list_head L) as \<and> sids = map (\<lambda>a. sid_of (the (cs_sub (cl_store L) a))) as)"

lemma removed_sids:
  assumes "removed_sub L sid L'" and "client_sids L sids"
  shows "client_sids L' (remove_first (\<lambda>x. x = us_text sid) sids)"
proof -
  from assms(2) obtain as where as: "sub_list (cs_sub (cl_store L)) (list_head L) as"
    "sids = map (\<lambda>a. sid_of (the (cs_sub (cl_store L) a))) as" by (auto simp: client_sids_def)
  let ?bs = "remove_first (has_sid (cl_store L) sid) as"
  have bs: "sub_list (cs_sub (cl_store L')) (list_head L') ?bs" using assms(1) as(1) by (simp add: removed_sub_def)
  have "sid_of (the (cs_sub (cl_store L') b)) = sid_of (the (cs_sub (cl_store L) b))" if b: "b \<in> set ?bs" for b
  proof -
    obtain d where d: "cs_sub (cl_store L') b = Some d" using sub_seg_dom [OF bs] b by blast
    with assms(1) obtain c where "cs_sub (cl_store L) b = Some c" "same_sub c d" unfolding removed_sub_def by blast
    then show ?thesis using d by (simp add: same_sub_fields)
  qed
  then have "map (\<lambda>b. sid_of (the (cs_sub (cl_store L') b))) ?bs = map (\<lambda>b. sid_of (the (cs_sub (cl_store L) b))) ?bs"
    by (rule map_cong [OF refl])
  also have "\<dots> = remove_first (\<lambda>x. x = us_text sid) sids"
    unfolding as(2) by (induction as) (simp_all add: has_sid_def)
  finally show ?thesis using bs unfolding client_sids_def by metis
qed

lemma same_places_sids:
  assumes "same_places (cl_store L) (cl_store L')" and "list_head L' = list_head L" and "client_sids L sids"
  shows "client_sids L' sids"
proof -
  from assms(3) obtain as where as: "sub_list (cs_sub (cl_store L)) (list_head L) as"
    "sids = map (\<lambda>a. sid_of (the (cs_sub (cl_store L) a))) as" by (auto simp: client_sids_def)
  have "sid_of (the (cs_sub (cl_store L') b)) = sid_of (the (cs_sub (cl_store L) b))" if b: "b \<in> set as" for b
  proof -
    obtain c where "cs_sub (cl_store L) b = Some c" using sub_seg_dom [OF as(1)] b by blast
    with same_places_cell [OF assms(1)] show ?thesis by (force simp: sid_of_def)
  qed
  then have "sids = map (\<lambda>b. sid_of (the (cs_sub (cl_store L') b))) as" unfolding as(2) by (intro map_cong [OF refl]) simp
  then show ?thesis using same_places_list [OF assms(1) as(1)] assms(2) unfolding client_sids_def by metis
qed

lemma find_present:
  assumes ok: "lib_ok A L" and sids: "client_sids L sids" and sid: "string_ok sid" and mem: "us_text sid \<in> set sids"
    and hd: "list_head L = hi_ClientSubList hi"
  shows "\<exists>a. GetClientSubClientSID (hi_ClientSubList hi) (Some sid) (cl_store L) = Some a \<and> a \<noteq> NULL"
proof -
  from sids obtain as where as: "sub_list (cs_sub (cl_store L)) (list_head L) as"
    "sids = map (\<lambda>a. sid_of (the (cs_sub (cl_store L) a))) as" by (auto simp: client_sids_def)
  have st: "store_ok A (cl_store L) (list_head L)" using ok by (simp add: lib_ok_def)
  have cells: "\<forall>a \<in> set as. sub_ok (the (cs_sub (cl_store L) a))"
    using sub_seg_dom [OF as(1)] store_okD(5) [OF st] by force
  obtain a where a: "List.find (\<lambda>a. sid_of (the (cs_sub (cl_store L) a)) = us_text sid) as = Some a"
    using mem as(2) by (cases "List.find (\<lambda>a. sid_of (the (cs_sub (cl_store L) a)) = us_text sid) as") (auto simp: find_None_iff)
  then have "a \<in> set as" by (auto simp: find_Some_iff)
  then have "a \<noteq> NULL" using sub_seg_dom [OF as(1)] by metis
  then show ?thesis using GetClientSubClientSID_ok [OF as(1) cells sid] a hd by simp
qed


text \<open>A client with one subscription, whose event URL is empty, and a network nothing can be reached on.\<close>

definition dead_net :: "unit gena_net" where
  "dead_net = \<lparr>gn_files = undefined, gn_env = \<lparr>getaddrinfo = \<lambda>_. None, inet_pton = \<lambda>_ _. None, gIF_INDEX = 0\<rparr>, gn_make = undefined,
     gn_if = undefined, gn_max = 0, gn_alloc = \<lparr>oom = [], junk = \<lambda>_. NUL\<rparr>, gn_sock = undefined, gn_fd = -1, gn_connected = 0, gn_code = 0\<rparr>"

definition lone_sub :: client_sub where
  "lone_sub = \<lparr>m_renewEventId = -1, m_SID = Some (as_string ''s''), m_actualSID = Some (as_string ''a''),
     m_eventURL = Some (as_string ''''), m_next = NULL\<rparr>"

definition lone_lib :: client_lib where
  "lone_lib = start_lib\<lparr>cl_store := (cl_store start_lib)\<lparr>cs_brk := 2, cs_sub := [1 \<mapsto> lone_sub]\<rparr>,
     cl_HandleTable := (replicate NUM_HANDLE None)[Suc 0 := Some \<lparr>hi_HType = HND_CLIENT, hi_Callback = 7, hi_Cookie = 9,
        hi_ClientSubList = 1, hi_SsdpSearchList = q_empty\<rparr>], cl_ClientRegistered := True\<rparr>"

lemma lone_strings: "string_ok (as_string ''s'')" "string_ok (as_string ''a'')" "string_ok (as_string '''')"
  "us_text (as_string ''s'') = ''s''"
  by (simp_all add: as_string_ok alloc_max_def)

lemma lone_lib_ok: "lib_ok [] lone_lib" and lone_sids: "client_sids lone_lib [''s'']"
proof -
  have te: "timer_events (cl_store lone_lib) = []" by (simp add: timer_events_def lone_lib_def start_lib_def new_timer_def q_empty_def)
  have "timeouts_ok [] (cl_store lone_lib)"
    using te new_timer_inv by (simp add: timeouts_ok_def) (simp add: lone_lib_def start_lib_def new_timer_def)
  moreover have hd: "list_head lone_lib = 1" by (simp add: list_head_def lone_lib_def start_lib_def NUM_HANDLE_def)
  moreover have "table_ok lone_lib" by (simp add: table_ok_def lone_lib_def start_lib_def NUM_HANDLE_def)
  moreover have "sub_ok lone_sub" by (simp add: sub_ok_def lone_sub_def lone_strings)
  moreover have cell: "cs_sub (cl_store lone_lib) = [1 \<mapsto> lone_sub]" by (simp add: lone_lib_def)
  moreover have l: "sub_list (cs_sub (cl_store lone_lib)) 1 [1]" by (simp add: cell) (simp add: lone_sub_def)
  moreover have "m_renewEventId lone_sub = -1" by (simp add: lone_sub_def)
  moreover have "oom (cs_alloc (cl_store lone_lib)) = []" "tt_oom (cs_timer (cl_store lone_lib)) = []" "cs_brk (cl_store lone_lib) = 2"
    "cs_timeout (cl_store lone_lib) = Map.empty"
    by (simp_all add: lone_lib_def start_lib_def new_timer_def)
  ultimately show "lib_ok [] lone_lib"
    unfolding lib_ok_def store_ok_def by (auto simp: cell_ok_def renews_def intro!: exI [of _ "[1]"])
  show "client_sids lone_lib [''s'']"
    using l hd cell unfolding client_sids_def by (intro exI [of _ "[1]"]) (simp add: sid_of_def lone_sub_def lone_strings)
qed

lemma no_url: "http_FixStrUrl (gn_env dead_net) [] 0 = Some (Inl UPNP_E_INVALID_URL)"
  by (simp add: http_FixStrUrl_def parse_uri_def parse_scheme_def parse_uri_rest_def parse_uric_def size_sub_exact http_FixUrl_def
      token_string_casecmp_def)

lemma lone_handle: "GetHandleInfo 1 lone_lib = (HND_CLIENT, Some \<lparr>hi_HType = HND_CLIENT, hi_Callback = 7, hi_Cookie = 9,
        hi_ClientSubList = 1, hi_SsdpSearchList = q_empty\<rparr>)"
  by (simp add: GetHandleInfo_def lone_lib_def start_lib_def NUM_HANDLE_def)

lemma lone_renewal: "\<exists>t L. genaRenewSubscription dead_net (\<lambda>M. M) 0 1 (Some (as_string ''s'')) 30 lone_lib = Some (UPNP_E_INVALID_URL, t, L)"
proof -
  let ?e = "cs_alloc (cl_store lone_lib)"
  have mem: "oom ?e = []" by (simp add: lone_lib_def start_lib_def)
  have so: "sub_ok lone_sub" by (simp add: sub_ok_def lone_sub_def lone_strings)
  from new_sub_memory [OF mem] obtain c0 where c0: "UpnpClientSubscription_new ?e = Some (c0, ?e)" by blast
  from assign_memory [OF mem so, of c0] obtain q where
    q: "UpnpClientSubscription_assign ?e c0 lone_sub = Some (q, ?e)" "sub_ok q" "url_of q = url_of lone_sub" by blast
  have get: "GetClientSubClientSID 1 (Some (as_string ''s'')) (cl_store lone_lib) = Some 1"
    by (subst GetClientSubClientSID.simps) (simp add: lone_lib_def same_sid_ok [OF lone_strings(1) so] lone_strings, simp add: lone_sub_def sid_of_def lone_strings)
  have cell: "cs_sub (cl_store lone_lib) 1 = Some lone_sub" by (simp add: lone_lib_def)
  have invalid: "INVALID_EVENT_ID \<noteq> 0" by code_simp
  have rem: "remove_renewal (-1) (cl_store lone_lib) = Some (cl_store lone_lib)"
    by (simp add: remove_renewal_def TimerThreadRemove_def lone_lib_def start_lib_def new_timer_def q_empty_def invalid)
  have ren: "m_renewEventId lone_sub = -1" by (simp add: lone_sub_def)
  let ?E = "\<lparr>m_length = 0, m_string = [NUL]\<rparr>"
  obtain L1 where f: "genaRenew_find 1 (Some (as_string ''s'')) lone_lib = Some (Inr (q, Some ?E), L1)"
    using c0 q(1) get cell rem ren lone_handle new_memory [OF mem] by (simp add: genaRenew_find_def)
  from q(2) obtain u where u: "m_eventURL q = Some u" "string_ok u" by (auto simp: sub_ok_def)
  have ut: "us_text u = []" using q(3) u(1) by (simp add: url_of_def lone_sub_def as_string_ok alloc_max_def)
  have g: "gena_subscribe dead_net (m_eventURL q) (Some 30) (m_actualSID q) (Some ?E) = Some (UPNP_E_INVALID_URL, Some 30, Some ?E)"
    using u ut no_url by (simp add: gena_subscribe_def UpnpString_clear_def gena_exchange_def c_text_ok UpnpString_get_Length_def string_ok_def Let_def)
  have ok1: "lib_ok [] L1" "cl_HandleTable L1 = cl_HandleTable lone_lib" "copy_ok q"
    using genaRenew_find_ok [OF lone_lib_ok lone_strings(1), of 1] f by auto
  have "GetHandleInfo 1 L1 = GetHandleInfo 1 lone_lib" unfolding GetHandleInfo_def ok1(2) ..
  then have "fst (GetHandleInfo 1 L1) = HND_CLIENT" using lone_handle by simp
  with genaRenew_store_ok [OF ok1(1) lone_strings(1) ok1(3) empty_string_ok(1), of 0 1 UPNP_E_INVALID_URL 30] obtain L2 where
    "genaRenew_store 0 1 (Some (as_string ''s'')) UPNP_E_INVALID_URL 30 q (Some ?E) L1 = Some (UPNP_E_INVALID_URL, L2)" by auto
  then show ?thesis using f g by (simp add: genaRenewSubscription_def)
qed


section \<open>Two behaviours the code does not mean to have\<close>

text \<open>An empty identifier matches every subscription, so a notification with one goes to the first.\<close>

lemma empty_sid_matches_first:
  assumes "cs_sub s p = Some c" and "sub_ok c" and "p \<noteq> NULL"
  shows "GetClientSubActualSID p [] s = Some p"
proof -
  from assms(2) obtain x where "m_actualSID c = Some x" by (auto simp: sub_ok_def)
  then show ?thesis using assms(1,3)
    by (subst GetClientSubActualSID.simps) (simp add: UpnpString_get_String_def block_read_def)
qed

text \<open>
  When the timer cannot take the renewal, \<open>genaSubscribe\<close> deletes the subscription it has just put on
  the list: the list then begins with a freed cell.
\<close>

definition full_timer :: "client_lib \<Rightarrow> client_lib" where
  "full_timer L = set_store ((cl_store L)\<lparr>cs_timer := (cs_timer (cl_store L))\<lparr>tt_oom := [True], freeEvents := 0\<rparr>\<rparr>) L"

lemma subscribe_failure_dangles:
  assumes ok: "lib_ok A L" and st: "string_ok out" "string_ok actual" "string_ok eurl" "string_ok url"
    and h: "GetHandleInfo h L = (HND_CLIENT, Some hi)" and t: "t \<noteq> UPNP_INFINITE"
  shows "\<exists>sid L'. genaSubscribe_link now uid h (Some url) 0 t c0 (Some actual) (Some eurl) (Some out) (full_timer L) = Some (EOUTOFMEM, Some sid, L') \<and>
           list_head L' \<noteq> NULL \<and> cs_sub (cl_store L') (list_head L') = None"
proof -
  let ?L = "full_timer L" let ?s = "cl_store ?L"
  have tab: "table_ok L" and sk: "store_ok A (cl_store L) (list_head L)" using ok by (simp_all add: lib_ok_def)
  from client_handle [OF tab h] have h1: "h = 1" "cl_HandleTable L ! Suc 0 = Some hi" by auto
  have e: "cs_alloc ?s = cs_alloc (cl_store L)" "oom (cs_alloc ?s) = []" "GetHandleInfo h ?L = (HND_CLIENT, Some hi)"
    using h lib_memory [OF ok] by (simp_all add: full_timer_def)
  note mem = e(2)
  have sidlen: "List.length (client_sid uid) < SIZEOF_Upnp_SID" "List.length (client_sid uid) < alloc_max"
    using client_sid_text [of uid] by (simp_all add: SIZEOF_Upnp_SID_def alloc_max_def)
  from set_text_memory [OF mem conjunct1 [OF client_sid_text [of uid]] sidlen(2), of out] obtain sid where
    sid: "UpnpString_set_String (cs_alloc ?s) (Some out) (client_sid uid @ [NUL]) = Some (1, Some sid, cs_alloc ?s)" "string_ok sid" by blast
  have "NUL \<in> set (m_string url)" "List.length (cstr (m_string url)) < alloc_max"
    using st(4) by (simp_all add: string_ok_def us_text_def)
  from set_block_memory [OF mem this, of eurl] obtain eu where
    eu: "UpnpString_set_String (cs_alloc ?s) (Some eurl) (m_string url) = Some (1, Some eu, cs_alloc ?s)" "string_ok eu" by blast
  then have as: "UpnpString_assign (cs_alloc ?s) False (Some eurl) (Some url) = Some (Some eu, cs_alloc ?s)"
    by (simp add: UpnpString_assign_def UpnpString_get_String_def)
  from fill_ok [OF mem sid(2) st(2) eu(2), of c0 "hi_ClientSubList hi"] obtain c where
    c: "fill_subscription (cs_alloc ?s) c0 (Some sid) (Some actual) (Some eu) (hi_ClientSubList hi) = Some (c, cs_alloc ?s)" "sub_ok c" by blast
  then obtain x y where f: "m_SID c = Some x" "m_eventURL c = Some y" "string_ok x" "string_ok y" by (auto simp: sub_ok_def)
  let ?a = "cs_brk ?s"
  obtain L1 where L1: "link_subscription 1 c ?L = (?a, L1)" by (simp add: link_subscription_def Let_def)
  have s1: "cl_store L1 = ?s\<lparr>cs_brk := Suc ?a, cs_sub := (cs_sub ?s)(?a \<mapsto> c)\<rparr>"
    using L1 by (auto simp: link_subscription_def Let_def)
  have "table_ok ?L" "cl_HandleTable ?L ! Suc 0 = Some hi" using tab h1(2) by (simp_all add: full_timer_def)
  then have hd: "list_head L1 = ?a" using L1 set_sub_list_1(2) by (auto simp: link_subscription_def Let_def)
  have T: "TimerThreadSchedule now (Some (cs_timer ?s)) d REL_SEC (Some j) SHORT_TERM =
      (EOUTOFMEM, Some INVALID_EVENT_ID, Some ((cs_timer ?s)\<lparr>tt_oom := []\<rparr>))" for d j
    by (simp add: TimerThreadSchedule_def CreateTimerEvent_def node_alloc_def full_timer_def Let_def)
  have nz: "EOUTOFMEM \<noteq> 0" by code_simp
  have sch: "\<exists>s2. ScheduleGenaAutoRenew now 1 t ?a (cl_store L1) = Some (EOUTOFMEM, s2) \<and> cs_sub s2 = cs_sub (cl_store L1)"
    using t f mem T nz unfolding s1
    by (simp add: ScheduleGenaAutoRenew_def malloc_ok_memory SIZEOF_Upnp_Event_Subscribe_def SIZEOF_upnp_timeout_def c_text_ok Let_def)
  then obtain s2 where s2: "ScheduleGenaAutoRenew now 1 t ?a (cl_store L1) = Some (EOUTOFMEM, s2)" "cs_sub s2 ?a = Some c"
    using s1 by auto
  have a0: "?a \<noteq> NULL" using store_okD(4) [OF sk] by (simp add: full_timer_def)
  then have "UpnpClientSubscription_delete ?a s2 = Some (s2\<lparr>cs_sub := (cs_sub s2)(?a := None)\<rparr>)"
    using s2(2) by (simp add: UpnpClientSubscription_delete_def)
  then have "genaSubscribe_link now uid h (Some url) 0 t c0 (Some actual) (Some eurl) (Some out) ?L =
      Some (EOUTOFMEM, Some sid, set_store (s2\<lparr>cs_sub := (cs_sub s2)(?a := None)\<rparr>) L1)"
    using e(3) h1(1) sid(1) sidlen(1) as c(1) L1 s2(1) nz by (simp add: genaSubscribe_link_def)
  then show ?thesis using hd a0 by auto
qed

end
