(* ===== verification/SsdpProps.thy ===== *)
theory SsdpProps
  imports Ssdp GenaSystem
begin

text \<open>
  What the operations of discovery promise: the text of a search request, which searches a reply
  answers, that a field of the callback's argument is overrun by a long header, and the lemmas from which
  \<open>SsdpSystem\<close> proves that discovery is safe in every interleaving.
\<close>

section \<open>The packet of a search\<close>

text \<open>The lines of the packet after the first, each with its end; the second component says that it is printed first.\<close>

definition packet_lines :: "string \<Rightarrow> int \<Rightarrow> string option \<Rightarrow> (string \<times> bool) list" where
  "packet_lines host Mx SearchTarget =
     [(host, True), (''MAN: '' @ [CHR 0x22] @ ''ssdp:discover'' @ [CHR 0x22] @ CRLF, False)] @
     (if Mx > 0 then [(''MX: '' @ show_int Mx @ CRLF, True)] else []) @
     (case SearchTarget of None \<Rightarrow> [] | Some t \<Rightarrow> [(''ST: '' @ t @ CRLF, True)]) @ [(CRLF, False)]"

definition packet_text :: "string \<Rightarrow> int \<Rightarrow> string option \<Rightarrow> string" where
  "packet_text host Mx SearchTarget = ''M-SEARCH * HTTP/1.1'' @ CRLF @ concat (map fst (packet_lines host Mx SearchTarget))"

definition lines_fit :: "(string \<times> bool) list \<Rightarrow> bool" where
  "lines_fit ls \<longleftrightarrow> (\<forall>(l, printed) \<in> set ls. printed \<longrightarrow> List.length l < COMMAND_LEN)"

fun add_lines :: "nat \<Rightarrow> string \<Rightarrow> (string \<times> bool) list \<Rightarrow> int + string" where
  "add_lines n b [] = Inr b"
| "add_lines n b ((l, printed) # ls) = and_then (if printed then print_part n b l else add_part n b l) (\<lambda>b. add_lines n b ls)"

lemma add_lines_append: "add_lines n b (ls @ ls') = and_then (add_lines n b ls) (\<lambda>b. add_lines n b ls')"
  by (induction n b ls rule: add_lines.induct) (auto split: sum.split)

lemma search_packet_lines: "search_packet n host Mx st = add_lines n (''M-SEARCH * HTTP/1.1'' @ CRLF) (packet_lines host Mx st)"
  by (simp add: search_packet_def packet_lines_def add_lines_append split: sum.split option.split)

lemma add_lines_iff:
  "List.length b < n \<Longrightarrow>
   add_lines n b ls = Inr t \<longleftrightarrow> t = b @ concat (map fst ls) \<and> List.length t < n \<and> lines_fit ls"
  by (induction n b ls arbitrary: t rule: add_lines.induct)
     (auto simp: print_part_def add_part_def lines_fit_def split: sum.split_asm if_split_asm)

lemma search_packet_iff:
  "List.length (''M-SEARCH * HTTP/1.1'' @ CRLF) < n \<Longrightarrow>
   search_packet n host Mx st = Inr t \<longleftrightarrow>
     t = packet_text host Mx st \<and> List.length t < n \<and> lines_fit (packet_lines host Mx st)"
  unfolding search_packet_lines packet_text_def by (subst add_lines_iff) auto

text \<open>
  C24. The request of a search. A packet is made exactly when the address family is one of the two and
  the packet, with its terminator, fits into the caller's buffer and each line that is printed first
  into the temporary one; it is then the request line, the host of the family's group, \<open>MAN\<close>, \<open>MX\<close> when
  the time is positive, \<open>ST\<close> when there is a target, and the empty line.
\<close>

theorem search_request_text:
  "CreateClientRequestPacket n Mx st fam = Inr t \<longleftrightarrow>
     fam \<in> {AF_INET, AF_INET6} \<and>
     (let host = (if fam = AF_INET then host_line4 else host_line6 SSDP_IPV6_LINKLOCAL)
      in t = packet_text host Mx st \<and> List.length t < n \<and> lines_fit (packet_lines host Mx st))"
proof (cases "List.length (''M-SEARCH * HTTP/1.1'' @ CRLF) < n")
  case True
  then show ?thesis
    by (auto simp: CreateClientRequestPacket_def Let_def search_packet_iff [OF True] simp del: length_append)
next
  case False
  then show ?thesis by (auto simp: CreateClientRequestPacket_def Let_def packet_text_def)
qed

section \<open>Replies\<close>

text \<open>A pool that takes the job when it has so many waiting, or not.\<close>

definition take_job :: "(nat \<Rightarrow> bool) \<Rightarrow> ThreadPoolJob list job_add" where
  "take_job acc j p = (if acc (List.length p) then (0, p @ [j]) else (EOUTOFMEM, p))"

lemma med_job_fields [simp]:
  "func \<noteq> NULL \<Longrightarrow> job_func (med_job func a f) = func" "func \<noteq> NULL \<Longrightarrow> job_arg (med_job func a f) = a"
  "func \<noteq> NULL \<Longrightarrow> job_free_func (med_job func a f) = f"
  by (simp_all add: med_job_def TPJobInit_def TPJobSetPriority_def TPJobSetFreeFunction_def zero_job_def)

lemma job_addrs [simp]:
  "ssdp_event_handler_thread_addr \<noteq> NULL" "send_search_result_addr \<noteq> NULL" "searchExpired_addr \<noteq> NULL"
  "ssdp_event_handler_thread_addr \<noteq> send_search_result_addr" "ssdp_event_handler_thread_addr \<noteq> searchExpired_addr"
  "send_search_result_addr \<noteq> searchExpired_addr"
  by (simp_all add: ssdp_event_handler_thread_addr_def send_search_result_addr_def searchExpired_addr_def)

lemmas job_addrs_sym [simp] = job_addrs(4-6) [symmetric]

lemma set_ss_alloc_simps [simp]:
  "ss_data (set_ss_alloc e S) = ss_data S" "ss_result (set_ss_alloc e S) = ss_result S" "ss_id (set_ss_alloc e S) = ss_id S"
  "ss_brk (set_ss_alloc e S) = ss_brk S" "ss_alloc (set_ss_alloc e S) = e"
  "cl_HandleTable (ss_lib (set_ss_alloc e S)) = cl_HandleTable (ss_lib S)"
  "cs_timer (cl_store (ss_lib (set_ss_alloc e S))) = cs_timer (cl_store (ss_lib S))"
  by (simp_all add: set_ss_alloc_def set_alloc_def)

definition result_of :: "discovery \<Rightarrow> nat \<Rightarrow> search_arg \<Rightarrow> result_data" where
  "result_of param callback sa = \<lparr>rd_param = param, rd_cookie = sa_cookie sa, rd_callback = callback\<rparr>"

lemma search_matches_Some: "sa_searchTarget sa \<noteq> None \<Longrightarrow> \<exists>b. search_matches sa v = Some b"
  by (auto simp: search_matches_def split: SsdpSearchType.split)

lemma schedule_result_taken:
  assumes "oom (ss_alloc S) = []"
  shows "schedule_result (take_job (\<lambda>_. True)) param callback cookie S p =
    (S\<lparr>ss_brk := Suc (ss_brk S),
       ss_result := (ss_result S)(ss_brk S \<mapsto> \<lparr>rd_param = param, rd_cookie = cookie, rd_callback = callback\<rparr>)\<rparr>,
     p @ [med_job send_search_result_addr (ss_brk S) free_addr])"
  using assms by (simp add: schedule_result_def take_job_def malloc_ok_def SIZEOF_ResultData_def alloc_max_def Let_def
      set_ss_alloc_def set_alloc_def)

lemma reply_loop_results:
  assumes "list_all (\<lambda>sa. sa_searchTarget sa \<noteq> None) sas" and "oom (ss_alloc S) = []"
  shows "\<exists>S' js. reply_loop (take_job (\<lambda>_. True)) param callback v sas S p = Some (S', p @ js) \<and>
           (\<forall>a < ss_brk S. ss_result S' a = ss_result S a) \<and>
           (\<forall>j \<in> set js. job_func j = send_search_result_addr \<and> ss_brk S \<le> job_arg j) \<and>
           map (\<lambda>j. ss_result S' (job_arg j)) js =
             map (\<lambda>sa. Some (result_of param callback sa)) (filter (\<lambda>sa. search_matches sa v = Some True) sas)"
  using assms
proof (induction sas arbitrary: S p)
  case Nil
  then show ?case by simp
next
  case (Cons sa sas)
  from search_matches_Some [of sa v] Cons.prems(1) obtain b where b: "search_matches sa v = Some b" by auto
  show ?case
  proof (cases b)
    case False
    then show ?thesis using Cons b by simp
  next
    case True
    let ?S = "S\<lparr>ss_brk := Suc (ss_brk S), ss_result := (ss_result S)(ss_brk S \<mapsto> result_of param callback sa)\<rparr>"
    let ?j = "med_job send_search_result_addr (ss_brk S) free_addr"
    have "list_all (\<lambda>sa. sa_searchTarget sa \<noteq> None) sas" "oom (ss_alloc ?S) = []" using Cons.prems by simp_all
    from Cons.IH [OF this, of "p @ [?j]"] obtain S' js where
      r: "reply_loop (take_job (\<lambda>_. True)) param callback v sas ?S (p @ [?j]) = Some (S', (p @ [?j]) @ js)"
        "\<forall>a < Suc (ss_brk S). ss_result S' a = ss_result ?S a"
        "\<forall>j \<in> set js. job_func j = send_search_result_addr \<and> Suc (ss_brk S) \<le> job_arg j"
        "map (\<lambda>j. ss_result S' (job_arg j)) js =
           map (\<lambda>sa. Some (result_of param callback sa)) (filter (\<lambda>sa. search_matches sa v = Some True) sas)"
      by auto
    have "reply_loop (take_job (\<lambda>_. True)) param callback v (sa # sas) S p = Some (S', p @ ?j # js)"
      using b True r(1) schedule_result_taken [OF Cons.prems(2)] by (simp add: result_of_def)
    moreover have "ss_result S' (ss_brk S) = Some (result_of param callback sa)" using r(2) by simp
    ultimately show ?thesis using r b True by (intro exI [of _ S'] exI [of _ "?j # js"]) auto
  qed
qed

text \<open>
  C23. Which searches a reply answers. While there is memory and the pool takes jobs, a good reply (status
  200, a location, a search target of the application's kind) puts one job into the pool for each search
  of the client that its search target matches, in the order of the searches, and each job carries what
  the reply told and the cookie of its search.
\<close>

theorem replies_answer_searches:
  assumes "GetClientHandleInfo (ss_lib S) = (HND_CLIENT, h, Some hi)" and "oom (ss_alloc S) = []"
    and "list_all (\<lambda>sa. sa_searchTarget sa \<noteq> None) (q_items (hi_SsdpSearchList hi))"
    and "hm_status_code hmsg = 200" and "d_Location param \<noteq> []" and "hdr_value hmsg HDR_ST = Some v"
    and "has_ohm_type ohm (Some v) = Some True"
  shows "\<exists>S' js. handle_reply (take_job (\<lambda>_. True)) ohm hmsg param callback S p = Some (S', p @ js) \<and>
           list_all (\<lambda>j. job_func j = send_search_result_addr) js \<and>
           map (\<lambda>j. ss_result S' (job_arg j)) js =
             map (\<lambda>sa. Some (result_of param callback sa))
               (filter (\<lambda>sa. search_matches sa v = Some True) (q_items (hi_SsdpSearchList hi)))"
  using reply_loop_results [OF assms(3,2), of param callback v p] assms
  by (auto simp: handle_reply_def list_all_iff)

definition sample_search :: search_arg where
  "sample_search = \<lparr>sa_timeoutEventId = 1, sa_searchTarget = Some ''urn:ohm'', sa_cookie = 5, sa_requestType = SSDP_ALL\<rparr>"

definition sample_client :: handle_info where
  "sample_client = \<lparr>hi_HType = HND_CLIENT, hi_Callback = 7, hi_Cookie = 9, hi_ClientSubList = NULL,
     hi_SsdpSearchList = q_empty\<lparr>q_items := [sample_search]\<rparr>\<rparr>"

definition sample_discovery :: ssdp_state where
  "sample_discovery =
     \<lparr>ss_lib = set_handle 1 sample_client start_lib, ss_data = Map.empty, ss_result = Map.empty, ss_id = Map.empty, ss_brk = 1\<rparr>"

definition sample_reply :: http_message where
  "sample_reply = zero_message
     \<lparr>hm_status_code := 200,
      hm_headers := q_empty\<lparr>q_items :=
        [\<lparr>h_name = \<lparr>mp_buf = ''ST'', mp_length = 2\<rparr>, h_name_id = HDR_ST,
          h_value = new_membuffer\<lparr>mb_buf := Some ''urn:ohm?'', mb_length := 7\<rparr>, h_name_buf = new_membuffer\<rparr>]\<rparr>\<rparr>"

definition sample_param :: discovery where
  "sample_param = \<lparr>d_ErrCode = 0, d_UID = [], d_DeviceType = [], d_Location = ''http://10.0.0.1/'', d_DestAddr = (2, [])\<rparr>"

theorem replies_answer_searches_witness:
  "\<exists>S' j. handle_reply (take_job (\<lambda>_. True)) ''urn:'' sample_reply sample_param 7 sample_discovery [] = Some (S', [j]) \<and>
     ss_result S' (job_arg j) = Some \<lparr>rd_param = sample_param, rd_cookie = 5, rd_callback = 7\<rparr>"
proof -
  have c: "GetClientHandleInfo (ss_lib sample_discovery) = (HND_CLIENT, 1, Some sample_client)"
    by (simp add: sample_discovery_def GetClientHandleInfo_def GetHandleInfo_def set_handle_def start_lib_def NUM_HANDLE_def
        sample_client_def)
  have m: "oom (ss_alloc sample_discovery) = []" by (simp add: sample_discovery_def set_handle_def start_lib_def)
  have l: "q_items (hi_SsdpSearchList sample_client) = [sample_search]" "sa_searchTarget sample_search \<noteq> None"
    "search_matches sample_search v = Some True" for v
    by (simp_all add: sample_client_def sample_search_def search_matches_def)
  have r: "hm_status_code sample_reply = 200" "d_Location sample_param \<noteq> []"
    by (simp_all add: sample_reply_def sample_param_def)
  have v: "hdr_value sample_reply HDR_ST = Some \<lparr>mp_buf = ''urn:ohm?'', mp_length = 7\<rparr>"
    by (simp add: sample_reply_def hdr_value_def httpmsg_find_hdr_def httpmsg_compare_def bytes_def q_empty_def)
  have o: "has_ohm_type ''urn:'' (Some \<lparr>mp_buf = ''urn:ohm?'', mp_length = 7\<rparr>) = Some True"
    by (simp add: has_ohm_type_def terminated_value_def) code_simp
  obtain S' js where s:
    "handle_reply (take_job (\<lambda>_. True)) ''urn:'' sample_reply sample_param 7 sample_discovery [] = Some (S', [] @ js)"
    "map (\<lambda>j. ss_result S' (job_arg j)) js = [Some (result_of sample_param 7 sample_search)]"
    using replies_answer_searches [OF c m _ r v o, of 7 "[]"] l by auto
  then obtain j where "js = [j]" "ss_result S' (job_arg j) = Some (result_of sample_param 7 sample_search)" by auto
  then show ?thesis using s(1) by (auto simp: result_of_def sample_search_def)
qed

text \<open>A header of more than 180 bytes is written beyond the end of the field.\<close>

lemma long_header_overflows:
  assumes "mp_length v > LINE_SIZE"
  shows "copy_header (Some v) = None"
  using assms by (auto simp: copy_header_def block_write_def LINE_SIZE_def split: bind_split)

end
