(* ===== verification/SsdpSystem.thy ===== *)
theory SsdpSystem
  imports SsdpProps
begin

text \<open>
  Discovery as a system: datagrams arrive, the pool's workers run their jobs, searches are started and
  expire, clients register and unregister, in any order. A job that handles a datagram gives up the lock
  of the handles between two parts, so that it is two steps. Every block of the module belongs to
  exactly one job that waits or is being worked on, and every search has an end to come.
\<close>

section \<open>Steps\<close>

text \<open>The two parts of \<open>ssdp_event_handler_thread\<close>; the second is needed when there is a client to tell.\<close>

definition handler_start :: "net_env \<Rightarrow> addr \<Rightarrow> ssdp_state \<Rightarrow> (ssdp_state \<times> (nat \<times> nat) option) option" where
  "handler_start env data S =
     Option.bind (start_event_handler env data S) (\<lambda>(rc, S1).
       if rc \<noteq> 0 then Some (S1, None)
       else
         Option.bind (ss_data S1 data) (\<lambda>d.
           case (if is_ctrlpt_msg (p_msg (td_parser d)) then client_callback S1 else None) of
             Some client \<Rightarrow> Some (S1, Some client)
           | None \<Rightarrow> map_option (\<lambda>S2. (S2, None)) (free_ssdp_event_handler_data data S1)))"

definition handler_finish ::
  "'p job_add \<Rightarrow> string \<Rightarrow> addr \<Rightarrow> nat \<times> nat \<Rightarrow> ssdp_state \<Rightarrow> 'p \<Rightarrow> (ssdp_state \<times> 'p) option" where
  "handler_finish add ohm data client S p =
     Option.bind (ss_data S data) (\<lambda>d.
     Option.bind (handle_msg add ohm (p_msg (td_parser d)) (td_dest_addr d) False 0 client S p) (\<lambda>(S1, p1).
       map_option (\<lambda>S2. (S2, p1)) (free_ssdp_event_handler_data data S1)))"

lemma ssdp_event_handler_thread_steps:
  assumes "\<And>S p. ss_data (fst (other S p)) data = ss_data S data"
  shows "ssdp_event_handler_thread add env ohm other data S p =
    Option.bind (handler_start env data S) (\<lambda>(S1, w).
      case w of None \<Rightarrow> Some (S1, p)
      | Some client \<Rightarrow> (case other S1 p of (S2, p2) \<Rightarrow> handler_finish add ohm data client S2 p2))"
proof (cases "start_event_handler env data S")
  case None
  then show ?thesis by (simp add: ssdp_event_handler_thread_def handler_start_def)
next
  case (Some r)
  obtain rc S1 where r: "r = (rc, S1)" by (cases r)
  obtain S2 p2 where o: "other S1 p = (S2, p2)" by (cases "other S1 p")
  have "ss_data S2 data = ss_data S1 data" using assms [of S1 p] o by simp
  then show ?thesis using Some r o
    by (auto simp: ssdp_event_handler_thread_def handler_start_def handler_finish_def ssdp_handle_ctrlpt_msg_def
        split: option.split bind_split)
qed

text \<open>A job that a worker takes: the new state, and the part of it that is still to come.\<close>

definition run_job :: "net_env \<Rightarrow> ThreadPoolJob \<Rightarrow> ssdp_state \<Rightarrow> (ssdp_state \<times> (addr \<times> nat \<times> nat) list) option" where
  "run_job env j S =
     (if job_func j = ssdp_event_handler_thread_addr then
        map_option (\<lambda>(S1, w). (S1, case w of None \<Rightarrow> [] | Some client \<Rightarrow> [(job_arg j, client)])) (handler_start env (job_arg j) S)
      else if job_func j = send_search_result_addr then map_option (\<lambda>S1. (S1, [])) (send_search_result (job_arg j) S)
      else if job_func j = searchExpired_addr then map_option (\<lambda>S1. (S1, [])) (searchExpired (job_arg j) S)
      else None)"

text \<open>What the timer's worker frees when the pool does not take a job: the number of the event.\<close>

fun free_ids :: "(addr \<times> addr) list \<Rightarrow> ssdp_state \<Rightarrow> ssdp_state option" where
  "free_ids [] S = Some S"
| "free_ids ((f, a) # fs) S =
     (if f = free_addr then Option.bind (ss_id S a) (\<lambda>_. free_ids fs (S\<lparr>ss_id := (ss_id S)(a := None)\<rparr>)) else free_ids fs S)"

definition timer_tick ::
  "(nat \<Rightarrow> bool) \<Rightarrow> int \<Rightarrow> ssdp_state \<Rightarrow> ThreadPoolJob list \<Rightarrow> (ssdp_state \<times> ThreadPoolJob list) option" where
  "timer_tick acc now S p =
     (let T = cs_timer (cl_store (ss_lib S))
      in case TimerThreadWorker_round (\<lambda>_. take_job acc) now T p of
           (_, T1, p1) \<Rightarrow>
             map_option (\<lambda>S1. (S1, p1))
               (free_ids (drop (List.length (tt_freed T)) (tt_freed T1))
                  (S\<lparr>ss_lib := set_store ((cl_store (ss_lib S))\<lparr>cs_timer := T1\<rparr>) (ss_lib S)\<rparr>)))"

datatype ssdp_label =
  Client nat nat
| NoClient int
| Datagram bool int string "int \<times> string" "nat \<Rightarrow> bool"
| Search search_net int int string nat
| Tick "nat \<Rightarrow> bool" int
| Run nat
| Go nat "nat \<Rightarrow> bool"

type_synonym ssdp_sys = "ssdp_state \<times> ThreadPoolJob list \<times> (addr \<times> nat \<times> nat) list"

definition remove_nth :: "nat \<Rightarrow> 'a list \<Rightarrow> 'a list" where
  "remove_nth k xs = take k xs @ drop (Suc k) xs"

fun ssdp_step :: "net_env \<Rightarrow> string \<Rightarrow> ssdp_label \<Rightarrow> ssdp_sys \<Rightarrow> ssdp_sys option" where
  "ssdp_step env ohm (Client f k) (S, p, hs) =
     (case UpnpRegisterClient f k True (ss_lib S) of (_, _, L) \<Rightarrow> Some (S\<lparr>ss_lib := L\<rparr>, p, hs))"
| "ssdp_step env ohm (NoClient h) (S, p, hs) =
     Some (S\<lparr>ss_lib := snd (UpnpUnRegisterClient_free h (ss_lib S))\<rparr>, p, hs)"
| "ssdp_step env ohm (Datagram req n bs from acc) (S, p, hs) =
     map_option (\<lambda>(S1, p1). (S1, p1, hs)) (readFromSSDPSocket (take_job acc) req n bs from S p)"
| "ssdp_step env ohm (Search N now Mx St Cookie) (S, p, hs) =
     map_option (\<lambda>(_, _, S1). (S1, p, hs)) (SearchByTarget N now 0 Mx St Cookie S)"
| "ssdp_step env ohm (Tick acc now) (S, p, hs) = map_option (\<lambda>(S1, p1). (S1, p1, hs)) (timer_tick acc now S p)"
| "ssdp_step env ohm (Run k) (S, p, hs) =
     (if k < List.length p
      then map_option (\<lambda>(S1, new). (S1, remove_nth k p, hs @ new)) (run_job env (p ! k) S)
      else Some (S, p, hs))"
| "ssdp_step env ohm (Go k acc) (S, p, hs) =
     (if k < List.length hs
      then (case hs ! k of
              (data, client) \<Rightarrow>
                map_option (\<lambda>(S1, p1). (S1, p1, remove_nth k hs)) (handler_finish (take_job acc) ohm data client S p))
      else Some (S, p, hs))"

primrec ssdp_run :: "net_env \<Rightarrow> string \<Rightarrow> ssdp_label list \<Rightarrow> ssdp_sys \<Rightarrow> ssdp_sys option" where
  "ssdp_run env ohm [] st = Some st"
| "ssdp_run env ohm (l # ls) st = Option.bind (ssdp_step env ohm l st) (ssdp_run env ohm ls)"

section \<open>The invariant\<close>

text \<open>\<open>owned xs f\<close>: the blocks of \<open>f\<close> are those in \<open>xs\<close>, each of them once.\<close>

definition owned :: "addr list \<Rightarrow> (addr \<Rightarrow> 'a option) \<Rightarrow> bool" where
  "owned xs f \<longleftrightarrow> distinct xs \<and> set xs = dom f"

lemma owned_perm: "owned xs f \<Longrightarrow> mset ys = mset xs \<Longrightarrow> owned ys f"
  unfolding owned_def by (metis mset_eq_imp_distinct_iff mset_eq_setD)

lemma owned_add: "owned xs f \<Longrightarrow> a \<notin> dom f \<Longrightarrow> mset ys = add_mset a (mset xs) \<Longrightarrow> owned ys (f(a \<mapsto> v))"
  unfolding owned_def using mset_eq_imp_distinct_iff [of ys "a # xs"] mset_eq_setD [of ys "a # xs"] by auto

lemma owned_remove:
  assumes "owned xs f" and "mset xs = add_mset a (mset ys)"
  shows "owned ys (f(a := None))" "a \<in> dom f"
  using assms mset_eq_imp_distinct_iff [of xs "a # ys"] mset_eq_setD [of xs "a # ys"] by (auto simp: owned_def)

lemma owned_upd: "owned xs f \<Longrightarrow> a \<in> dom f \<Longrightarrow> owned xs (f(a \<mapsto> v))"
  by (auto simp: owned_def)

lemma mset_remove_nth: "k < List.length xs \<Longrightarrow> mset xs = add_mset (xs ! k) (mset (remove_nth k xs))"
  by (subst id_take_nth_drop [of k xs]) (auto simp: remove_nth_def)

lemma set_remove_nth: "set (remove_nth k xs) \<subseteq> set xs"
  by (auto simp: remove_nth_def dest: in_set_takeD in_set_dropD)

definition job_args :: "addr \<Rightarrow> ThreadPoolJob list \<Rightarrow> addr list" where
  "job_args f p = map job_arg (filter (\<lambda>j. job_func j = f) p)"

lemma job_args_simps [simp]:
  "job_args f [] = []" "job_args f (p @ q) = job_args f p @ job_args f q"
  "job_args f (j # p) = (if job_func j = f then job_arg j # job_args f p else job_args f p)"
  by (simp_all add: job_args_def)

lemma mset_job_args_remove:
  assumes "k < List.length p"
  shows "mset (job_args f p) =
    (if job_func (p ! k) = f then add_mset (job_arg (p ! k)) (mset (job_args f (remove_nth k p)))
     else mset (job_args f (remove_nth k p)))"
proof -
  have "mset (job_args f p) = image_mset job_arg (filter_mset (\<lambda>j. job_func j = f) (mset p))"
    by (simp add: job_args_def mset_filter)
  also have "mset p = add_mset (p ! k) (mset (remove_nth k p))" by (rule mset_remove_nth [OF assms])
  finally show ?thesis by (simp add: job_args_def mset_filter)
qed

abbreviation "handlers \<equiv> job_args ssdp_event_handler_thread_addr"
abbreviation "reporters \<equiv> job_args send_search_result_addr"
abbreviation "enders \<equiv> job_args searchExpired_addr"

definition client_of :: "ssdp_state \<Rightarrow> handle_info option" where
  "client_of S = cl_HandleTable (ss_lib S) ! Suc 0"

definition events_of :: "ssdp_state \<Rightarrow> TimerEvent list" where
  "events_of S = q_items (eventQ (cs_timer (cl_store (ss_lib S))))"

definition base_ok :: "ssdp_state \<Rightarrow> bool" where
  "base_ok S \<longleftrightarrow>
     oom (ss_alloc S) = [] \<and> tt_oom (cs_timer (cl_store (ss_lib S))) = [] \<and>
     timer_inv (cs_timer (cl_store (ss_lib S))) \<and> table_ok (ss_lib S) \<and>
     (\<forall>a \<in> dom (ss_data S) \<union> dom (ss_result S) \<union> dom (ss_id S). 0 < a \<and> a < ss_brk S) \<and> 0 < ss_brk S"

definition waiting_data :: "ssdp_state \<Rightarrow> addr \<Rightarrow> bool" where
  "waiting_data S a \<longleftrightarrow> (\<forall>d. ss_data S a = Some d \<longrightarrow> p_position (td_parser d) \<noteq> POS_COMPLETE)"

definition data_ok :: "ssdp_state \<Rightarrow> ThreadPoolJob list \<Rightarrow> (addr \<times> nat \<times> nat) list \<Rightarrow> bool" where
  "data_ok S p hs \<longleftrightarrow>
     owned (handlers p @ map fst hs) (ss_data S) \<and> (\<forall>d \<in> ran (ss_data S). wf_parser (td_parser d)) \<and>
     (\<forall>a \<in> set (handlers p). waiting_data S a)"

text \<open>\<open>b\<close> says that the pool has taken every job of the timer so far; \<open>n\<close> is the number of the next timer event.\<close>

definition searches_ok :: "bool \<Rightarrow> int \<Rightarrow> handle_info \<Rightarrow> int set \<Rightarrow> bool" where
  "searches_ok b n hi ids \<longleftrightarrow>
     distinct (map sa_timeoutEventId (q_items (hi_SsdpSearchList hi))) \<and>
     (\<forall>i \<in> sa_timeoutEventId ` set (q_items (hi_SsdpSearchList hi)). i < n \<and> (b \<longrightarrow> i \<in> ids)) \<and>
     (\<forall>sa \<in> set (q_items (hi_SsdpSearchList hi)). sa_searchTarget sa \<noteq> None)"

definition search_event :: "ssdp_state \<Rightarrow> TimerEvent \<Rightarrow> bool" where
  "search_event S e \<longleftrightarrow>
     job_func (ev_job e) = searchExpired_addr \<and> job_free_func (ev_job e) = free_addr \<and> ss_id S (event_arg e) = Some (ev_id e)"

definition ids_ok :: "bool \<Rightarrow> ssdp_state \<Rightarrow> ThreadPoolJob list \<Rightarrow> bool" where
  "ids_ok b S p \<longleftrightarrow>
     owned (map event_arg (events_of S) @ enders p) (ss_id S) \<and> inj_on (ss_id S) (dom (ss_id S)) \<and>
     (\<forall>e \<in> set (events_of S). search_event S e) \<and>
     (\<forall>i \<in> ran (ss_id S). i < lastEventId (cs_timer (cl_store (ss_lib S)))) \<and>
     (\<forall>hi. client_of S = Some hi \<longrightarrow> searches_ok b (lastEventId (cs_timer (cl_store (ss_lib S)))) hi (ran (ss_id S)))"

definition jobs_known :: "ThreadPoolJob list \<Rightarrow> bool" where
  "jobs_known p \<longleftrightarrow> job_func ` set p \<subseteq> {ssdp_event_handler_thread_addr, send_search_result_addr, searchExpired_addr}"

definition ssdp_ok :: "bool \<Rightarrow> ssdp_sys \<Rightarrow> bool" where
  "ssdp_ok b st \<longleftrightarrow> (case st of (S, p, hs) \<Rightarrow>
     base_ok S \<and> data_ok S p hs \<and> owned (reporters p) (ss_result S) \<and> ids_ok b S p \<and> jobs_known p)"

lemma base_okD:
  assumes "base_ok S"
  shows "oom (ss_alloc S) = []" "tt_oom (cs_timer (cl_store (ss_lib S))) = []" "timer_inv (cs_timer (cl_store (ss_lib S)))"
    "table_ok (ss_lib S)" "ss_brk S \<notin> dom (ss_data S)" "ss_brk S \<notin> dom (ss_result S)" "ss_brk S \<notin> dom (ss_id S)" "0 < ss_brk S"
  using assms by (auto simp: base_ok_def)

lemma base_ok_step:
  assumes "base_ok S" and "oom (ss_alloc S') = []" and "tt_oom (cs_timer (cl_store (ss_lib S'))) = []"
    and "timer_inv (cs_timer (cl_store (ss_lib S')))" and "table_ok (ss_lib S')" and "ss_brk S \<le> ss_brk S'"
    and "dom (ss_data S') \<union> dom (ss_result S') \<union> dom (ss_id S') \<subseteq>
           dom (ss_data S) \<union> dom (ss_result S) \<union> dom (ss_id S) \<union> {ss_brk S..<ss_brk S'}"
  shows "base_ok S'"
proof -
  have "0 < a \<and> a < ss_brk S'" if "a \<in> dom (ss_data S') \<union> dom (ss_result S') \<union> dom (ss_id S')" for a
  proof -
    from that assms(7) have "a \<in> dom (ss_data S) \<union> dom (ss_result S) \<union> dom (ss_id S) \<or> a \<in> {ss_brk S..<ss_brk S'}" by blast
    then show ?thesis using assms(1,6) unfolding base_ok_def by (meson atLeastLessThan_iff less_le_trans)
  qed
  then show ?thesis using assms base_okD(8) [OF assms(1)] unfolding base_ok_def by simp
qed

text \<open>The client, as the functions of discovery look it up.\<close>

lemma client_lookup:
  assumes "table_ok (ss_lib S)"
  shows "GetClientHandleInfo (ss_lib S) =
    (case client_of S of None \<Rightarrow> (HND_INVALID, -1, None) | Some hi \<Rightarrow> (HND_CLIENT, 1, Some hi))"
  using assms
  by (auto simp: GetClientHandleInfo_def GetHandleInfo_def client_of_def table_ok_def NUM_HANDLE_def numeral_2_eq_2 split: option.split)

section \<open>Telling the application\<close>

text \<open>Nothing but results and calls of the application is new, and jobs that deliver results.\<close>

definition reported :: "ssdp_state \<Rightarrow> ThreadPoolJob list \<Rightarrow> ssdp_state \<Rightarrow> ThreadPoolJob list \<Rightarrow> bool" where
  "reported S p S' p' \<longleftrightarrow>
     cl_store (ss_lib S') = cl_store (ss_lib S) \<and> cl_HandleTable (ss_lib S') = cl_HandleTable (ss_lib S) \<and>
     ss_data S' = ss_data S \<and> ss_id S' = ss_id S \<and> base_ok S' \<and> owned (reporters p') (ss_result S') \<and>
     (\<exists>js. p' = p @ js \<and> job_func ` set js \<subseteq> {send_search_result_addr})"

lemma reported_trans: "reported S p S1 p1 \<Longrightarrow> reported S1 p1 S2 p2 \<Longrightarrow> reported S p S2 p2"
  unfolding reported_def by (auto simp: image_Un)

lemma reported_refl: "base_ok S \<Longrightarrow> owned (reporters p) (ss_result S) \<Longrightarrow> reported S p S p"
  by (auto simp: reported_def)

lemma call_client_simps [simp]:
  "ss_data (call_client c ev k S) = ss_data S" "ss_result (call_client c ev k S) = ss_result S"
  "ss_id (call_client c ev k S) = ss_id S" "ss_brk (call_client c ev k S) = ss_brk S"
  "cl_store (ss_lib (call_client c ev k S)) = cl_store (ss_lib S)"
  "cl_HandleTable (ss_lib (call_client c ev k S)) = cl_HandleTable (ss_lib S)"
  "table_ok (ss_lib (call_client c ev k S)) = table_ok (ss_lib S)"
  "base_ok (call_client c ev k S) = base_ok S"
  by (simp_all add: call_client_def table_ok_def base_ok_def)

lemma reported_call: "base_ok S \<Longrightarrow> owned (reporters p) (ss_result S) \<Longrightarrow> reported S p (call_client c ev k S) p"
  by (auto simp: reported_def)

lemma schedule_result_ok:
  assumes "base_ok S" and "owned (reporters p) (ss_result S)"
    and "schedule_result (take_job acc) param callback cookie S p = (S', p')"
  shows "reported S p S' p'"
proof -
  note B = base_okD [OF assms(1)]
  let ?j = "med_job send_search_result_addr (ss_brk S) free_addr"
  have nz: "EOUTOFMEM \<noteq> 0" by code_simp
  show ?thesis
  proof (cases "acc (List.length p)")
    case True
    let ?r = "\<lparr>rd_param = param, rd_cookie = cookie, rd_callback = callback\<rparr>"
    have r: "S' = S\<lparr>ss_brk := Suc (ss_brk S), ss_result := (ss_result S)(ss_brk S \<mapsto> ?r)\<rparr>" "p' = p @ [?j]"
      using assms(3) True B(1) by (auto simp: schedule_result_def take_job_def malloc_ok_def SIZEOF_ResultData_def alloc_max_def Let_def
          set_ss_alloc_def set_alloc_def)
    have "owned (reporters p') (ss_result S')" unfolding r by (simp, rule owned_add [OF assms(2) B(6)]) simp
    moreover have "base_ok S'" by (rule base_ok_step [OF assms(1)]) (use B r in auto)
    ultimately show ?thesis using r by (auto simp: reported_def)
  next
    case False
    have r: "S' = S\<lparr>ss_brk := Suc (ss_brk S)\<rparr>" "p' = p"
      using assms(3) False B(1) nz by (auto simp: schedule_result_def take_job_def malloc_ok_def SIZEOF_ResultData_def alloc_max_def Let_def
          set_ss_alloc_def set_alloc_def)
    have "base_ok S'" by (rule base_ok_step [OF assms(1)]) (use B r in auto)
    then show ?thesis using r assms(2) by (auto simp: reported_def)
  qed
qed

lemma reply_loop_ok:
  assumes "base_ok S" and "owned (reporters p) (ss_result S)" and "\<forall>sa \<in> set sas. sa_searchTarget sa \<noteq> None"
  shows "\<exists>S' p'. reply_loop (take_job acc) param callback v sas S p = Some (S', p') \<and> reported S p S' p'"
  using assms
proof (induction sas arbitrary: S p)
  case Nil
  then show ?case by (simp add: reported_refl)
next
  case (Cons sa sas)
  from search_matches_Some [of sa v] Cons.prems(3) obtain b where b: "search_matches sa v = Some b" by auto
  obtain S1 p1 where s: "(if b then schedule_result (take_job acc) param callback (sa_cookie sa) S p else (S, p)) = (S1, p1)"
    by (metis surj_pair)
  have r: "reported S p S1 p1"
    using s schedule_result_ok [OF Cons.prems(1,2)] reported_refl [OF Cons.prems(1,2)] by (auto split: if_split_asm)
  then have "base_ok S1" "owned (reporters p1) (ss_result S1)" by (simp_all add: reported_def)
  from Cons.IH [OF this] Cons.prems(3) reported_trans [OF r] b s show ?case by auto
qed

text \<open>The headers of a message that has been read, and the two that are copied into fields.\<close>

definition long_header :: "http_message \<Rightarrow> bool" where
  "long_header m \<longleftrightarrow> (\<exists>i \<in> {HDR_DT, HDR_UID}. \<exists>v. hdr_value m i = Some v \<and> mp_length v > LINE_SIZE)"

lemma hdr_value_room:
  assumes "wf_msg m" and "hdr_value m i = Some v"
  shows "mp_length v < List.length (mp_buf v)"
proof -
  from assms(2) obtain k where k: "httpmsg_find_hdr m i = Some k"
    "v = \<lparr>mp_buf = bytes (h_value (header_at m k)), mp_length = mb_length (h_value (header_at m k))\<rparr>"
    by (auto simp: hdr_value_def)
  have "header_at m k \<in> set (q_items (hm_headers m))"
    using k(1) find_index_Some by (fastforce simp: httpmsg_find_hdr_def)
  then have "wf_header (header_at m k)" using assms(1) by (auto simp: wf_msg_def list_all_iff)
  then show ?thesis using k(2) by (auto simp: wf_header_def wf_membuffer_def room_def bytes_def)
qed

lemma copy_location_Some: "\<exists>l. copy_location v = Some l"
  by (auto simp: copy_location_def linecopylen_def block_write_def LINE_SIZE_def Let_def split: option.split bind_split)

lemma discovery_param_ok:
  assumes "wf_msg m" and "\<not> long_header m"
  shows "\<exists>param. discovery_param m from = Some param"
proof -
  have c: "\<exists>x. copy_header (hdr_value m i) = Some x" if i: "i \<in> {HDR_DT, HDR_UID}" for i
  proof (cases "hdr_value m i")
    case None
    then show ?thesis by (simp add: copy_header_def)
  next
    case (Some v)
    then have "mp_length v \<le> LINE_SIZE" using assms(2) i by (auto simp: long_header_def not_less)
    then show ?thesis using hdr_value_room [OF assms(1) Some] Some
      by (simp add: copy_header_def terminated_value_def block_write_def LINE_SIZE_def)
  qed
  obtain l d u where "copy_location (hdr_value m HDR_LOCATION) = Some l" "copy_header (hdr_value m HDR_DT) = Some d"
    "copy_header (hdr_value m HDR_UID) = Some u"
    using copy_location_Some c by (metis insertI1 insertI2)
  then show ?thesis by (simp add: discovery_param_def)
qed

lemma has_ohm_type_Some: "wf_msg m \<Longrightarrow> \<exists>b. has_ohm_type ohm (hdr_value m i) = Some b"
  using hdr_value_room by (auto simp: has_ohm_type_def terminated_value_def split: option.split)

lemma handle_reply_ok:
  assumes "base_ok S" and "owned (reporters p) (ss_result S)" and "wf_msg m"
    and "\<And>hi sa. client_of S = Some hi \<Longrightarrow> sa \<in> set (q_items (hi_SsdpSearchList hi)) \<Longrightarrow> sa_searchTarget sa \<noteq> None"
  shows "\<exists>S' p'. handle_reply (take_job acc) ohm m param callback S p = Some (S', p') \<and> reported S p S' p'"
proof -
  from has_ohm_type_Some [OF assms(3)] obtain b where b: "has_ohm_type ohm (hdr_value m HDR_ST) = Some b" by blast
  note L = client_lookup [OF base_okD(4) [OF assms(1)]]
  show ?thesis
  proof (cases "hm_status_code m \<noteq> 200 \<or> d_Location param = [] \<or> \<not> b \<or> client_of S = None")
    case True
    then show ?thesis using reported_refl [OF assms(1,2)] b L by (auto simp: handle_reply_def)
  next
    case False
    then obtain hi where hi: "client_of S = Some hi" by auto
    then have "\<forall>sa \<in> set (q_items (hi_SsdpSearchList hi)). sa_searchTarget sa \<noteq> None" using assms(4) by blast
    from reply_loop_ok [OF assms(1,2) this] show ?thesis using False b L hi by (auto simp: handle_reply_def)
  qed
qed

lemma handle_msg_ok:
  assumes "base_ok S" and "owned (reporters p) (ss_result S)" and "wf_msg m" and "\<not> long_header m"
    and "\<And>hi sa. client_of S = Some hi \<Longrightarrow> sa \<in> set (q_items (hi_SsdpSearchList hi)) \<Longrightarrow> sa_searchTarget sa \<noteq> None"
  shows "\<exists>S' p'. handle_msg (take_job acc) ohm m from False k client S p = Some (S', p') \<and> reported S p S' p'"
proof -
  from discovery_param_ok [OF assms(3,4)] obtain param where p: "discovery_param m from = Some param" by blast
  from has_ohm_type_Some [OF assms(3)] obtain b where b: "has_ohm_type ohm (hdr_value m HDR_NT) = Some b" by blast
  show ?thesis
  proof (cases "hm_is_request m")
    case True
    then show ?thesis
      using p b reported_call [OF assms(1,2)] reported_refl [OF assms(1,2)]
      by (cases client) (auto simp: handle_msg_def split: option.split)
  next
    case False
    then show ?thesis using p b handle_reply_ok [OF assms(1-3,5)] by (cases client) (simp add: handle_msg_def)
  qed
qed

section \<open>Handling a datagram\<close>

lemma ids_okD: "ids_ok b S p \<Longrightarrow> client_of S = Some hi \<Longrightarrow> sa \<in> set (q_items (hi_SsdpSearchList hi)) \<Longrightarrow> sa_searchTarget sa \<noteq> None"
  by (simp add: ids_ok_def searches_ok_def)

text \<open>What a change that concerns the other blocks leaves of the invariants.\<close>

lemma ids_ok_same:
  assumes "ids_ok b S p" and "ss_id S' = ss_id S" and "cs_timer (cl_store (ss_lib S')) = cs_timer (cl_store (ss_lib S))"
    and "cl_HandleTable (ss_lib S') = cl_HandleTable (ss_lib S)" and "mset (enders p') = mset (enders p)"
  shows "ids_ok b S' p'"
proof -
  have e: "events_of S' = events_of S" "client_of S' = client_of S" "search_event S' = search_event S"
    using assms(2-4) by (auto simp: events_of_def client_of_def search_event_def)
  have "owned (map event_arg (events_of S) @ enders p') (ss_id S)"
    using assms(1,5) by (auto simp: ids_ok_def intro: owned_perm)
  then show ?thesis using assms(1-3) e by (simp add: ids_ok_def)
qed

lemma data_ok_same:
  assumes "data_ok S p hs" and "ss_data S' = ss_data S" and "handlers p' = handlers p"
  shows "data_ok S' p' hs"
  using assms by (simp add: data_ok_def waiting_data_def)

lemma enders_other: "job_func ` set js \<subseteq> K \<Longrightarrow> searchExpired_addr \<notin> K \<Longrightarrow> enders js = []"
  by (auto simp: job_args_def filter_empty_conv)

lemma handlers_other: "job_func ` set js \<subseteq> K \<Longrightarrow> ssdp_event_handler_thread_addr \<notin> K \<Longrightarrow> handlers js = []"
  by (auto simp: job_args_def filter_empty_conv)

lemma reporters_other: "job_func ` set js \<subseteq> K \<Longrightarrow> send_search_result_addr \<notin> K \<Longrightarrow> reporters js = []"
  by (auto simp: job_args_def filter_empty_conv)

lemma start_event_handler_ok:
  assumes "base_ok S" and "ss_data S a = Some d" and "wf_parser (td_parser d)" and "p_position (td_parser d) \<noteq> POS_COMPLETE"
  shows "\<exists>rc d'. wf_parser (td_parser d') \<and>
    start_event_handler env a S = Some (rc, S\<lparr>ss_data := (ss_data S)(a := if rc = 0 then Some d' else None)\<rparr>)"
proof -
  note B = base_okD [OF assms(1)]
  from parser_parse_ok [OF assms(3,4)] obtain st e p where
    r: "parser_parse env (ss_alloc S) (td_parser d) = Some (st, e, p)" "wf_parser p" by blast
  have e: "e = ss_alloc S" using quiet_parse [OF r(1)] B(1) by (simp add: quiet_def)
  have s: "set_ss_alloc (ss_alloc S) S = S" by (simp add: set_ss_alloc_def)
  have "a \<noteq> NULL" using assms(1,2) by (auto simp: base_ok_def)
  then show ?thesis using assms(2) r
    by (cases "(if st = PARSE_FAILURE then hm_method (p_msg p) \<noteq> HTTPMETHOD_NOTIFY \<or> \<not> p_valid_ssdp_notify_hack p
                else st \<noteq> PARSE_SUCCESS) \<or> \<not> valid_ssdp_msg (p_msg p)")
       (auto simp: start_event_handler_def e s Let_def free_ssdp_event_handler_data_def
         intro!: exI [of _ "-1 :: int"] exI [of _ "0 :: int"] exI [of _ "d\<lparr>td_parser := p\<rparr>"])
qed

lemma data_ok_removed:
  assumes "data_ok S p hs" and "ss_data S' = (ss_data S)(a := None)"
    and "mset (handlers p @ map fst hs) = add_mset a (mset (handlers p' @ map fst hs'))" and "set (handlers p') \<subseteq> set (handlers p)"
  shows "data_ok S' p' hs'"
proof -
  have "owned (handlers p @ map fst hs) (ss_data S)" using assms(1) by (simp add: data_ok_def)
  from owned_remove(1) [OF this assms(3)] have "owned (handlers p' @ map fst hs') (ss_data S')" unfolding assms(2) .
  moreover have "waiting_data S' b" if "waiting_data S b" for b using that by (auto simp: waiting_data_def assms(2))
  ultimately show ?thesis using assms(1,4) by (auto simp: data_ok_def assms(2) ran_def subset_iff)
qed

lemma job_args_remove_subset: "set (job_args f (remove_nth k p)) \<subseteq> set (job_args f p)"
  using set_remove_nth [of k p] by (auto simp: job_args_def)

lemma jobs_known_remove: "jobs_known p \<Longrightarrow> jobs_known (remove_nth k p)"
  using set_remove_nth [of k p] by (auto simp: jobs_known_def)

lemma run_handler_ok:
  assumes ok: "ssdp_ok b (S, p, hs)" and k: "k < List.length p" and f: "job_func (p ! k) = ssdp_event_handler_thread_addr"
  shows "\<exists>S' new. run_job env (p ! k) S = Some (S', new) \<and> ssdp_ok b (S', remove_nth k p, hs @ new)"
proof -
  let ?a = "job_arg (p ! k)" let ?p = "remove_nth k p"
  have o: "base_ok S" "data_ok S p hs" "owned (reporters p) (ss_result S)" "ids_ok b S p" "jobs_known p"
    using ok by (simp_all add: ssdp_ok_def)
  have hm: "mset (handlers p) = add_mset ?a (mset (handlers ?p))" using mset_job_args_remove [OF k] f by simp
  have others: "mset (reporters ?p) = mset (reporters p)" "mset (enders ?p) = mset (enders p)"
    using mset_job_args_remove [OF k, of send_search_result_addr] mset_job_args_remove [OF k, of searchExpired_addr] f by auto
  have a: "?a \<in> set (handlers p)" using mset_eq_setD [of "handlers p" "?a # handlers ?p"] hm by simp
  then have "?a \<in> dom (ss_data S)" using o(2) unfolding data_ok_def owned_def by auto
  then obtain d where d: "ss_data S ?a = Some d" by blast
  then have wf: "wf_parser (td_parser d)" "p_position (td_parser d) \<noteq> POS_COMPLETE"
    using o(2) a by (auto simp: data_ok_def waiting_data_def ran_def)
  have rest: "ssdp_ok b (S', ?p, hs')" if S': "S' = S\<lparr>ss_data := g\<rparr>" and g: "dom g \<subseteq> dom (ss_data S)" and dat: "data_ok S' ?p hs'" for S' g hs'
  proof -
    have "base_ok S'" by (rule base_ok_step [OF o(1)]) (use base_okD [OF o(1)] g in \<open>auto simp: S'\<close>)
    moreover have "ids_ok b S' ?p" by (rule ids_ok_same [OF o(4)]) (simp_all add: S' others)
    moreover have "owned (reporters ?p) (ss_result S')" using owned_perm [OF o(3) others(1)] by (simp add: S')
    ultimately show ?thesis using dat jobs_known_remove [OF o(5)] by (simp add: ssdp_ok_def)
  qed
  have gone: "ssdp_ok b (S\<lparr>ss_data := (ss_data S)(?a := None)\<rparr>, ?p, hs)"
    by (rule rest [OF refl], use data_ok_removed [OF o(2), of "S\<lparr>ss_data := (ss_data S)(?a := None)\<rparr>"] hm job_args_remove_subset in auto)
  from start_event_handler_ok [OF o(1) d wf, of env] obtain rc d' where
    st: "wf_parser (td_parser d')"
      "start_event_handler env ?a S = Some (rc, S\<lparr>ss_data := (ss_data S)(?a := if rc = 0 then Some d' else None)\<rparr>)" by blast
  show ?thesis
  proof (cases "rc = 0")
    case False
    then show ?thesis using st(2) gone f by (auto simp: run_job_def handler_start_def)
  next
    case True
    let ?S1 = "S\<lparr>ss_data := (ss_data S)(?a \<mapsto> d')\<rparr>"
    have nz: "?a \<noteq> NULL" using o(1) d by (auto simp: base_ok_def)
    show ?thesis
    proof (cases "if is_ctrlpt_msg (p_msg (td_parser d')) then client_callback ?S1 else None")
      case None
      then have "run_job env (p ! k) S = Some (S\<lparr>ss_data := (ss_data S)(?a := None)\<rparr>, [])"
        using st(2) True f nz unfolding run_job_def handler_start_def free_ssdp_event_handler_data_def by simp
      then show ?thesis using gone by simp
    next
      case (Some client)
      then have r: "run_job env (p ! k) S = Some (?S1, [(?a, client)])"
        using st(2) True f unfolding run_job_def handler_start_def by simp
      have own: "owned (handlers p @ map fst hs) (ss_data S)" using o(2) by (simp add: data_ok_def)
      have m: "mset (handlers ?p @ map fst (hs @ [(?a, client)])) = mset (handlers p @ map fst hs)" using hm by simp
      have own1: "owned (handlers ?p @ map fst (hs @ [(?a, client)])) (ss_data ?S1)"
        using owned_upd [OF owned_perm [OF own m], of ?a d'] d by auto
      then have "?a \<notin> set (handlers ?p)" by (auto simp: owned_def)
      then have "waiting_data ?S1 b" if "b \<in> set (handlers ?p)" for b
        using that o(2) job_args_remove_subset [of ssdp_event_handler_thread_addr k p] by (auto simp: data_ok_def waiting_data_def)
      moreover have "\<forall>x \<in> ran (ss_data ?S1). wf_parser (td_parser x)" using o(2) st(1) by (auto simp: data_ok_def ran_def)
      ultimately have "data_ok ?S1 ?p (hs @ [(?a, client)])" using own1 by (simp add: data_ok_def)
      then have "ssdp_ok b (?S1, ?p, hs @ [(?a, client)])" by (intro rest [OF refl]) (use d in auto)
      then show ?thesis using r by blast
    qed
  qed
qed

lemma run_result_ok:
  assumes ok: "ssdp_ok b (S, p, hs)" and k: "k < List.length p" and f: "job_func (p ! k) = send_search_result_addr"
  shows "\<exists>S' new. run_job env (p ! k) S = Some (S', new) \<and> ssdp_ok b (S', remove_nth k p, hs @ new)"
proof -
  let ?a = "job_arg (p ! k)" let ?p = "remove_nth k p"
  have o: "base_ok S" "data_ok S p hs" "owned (reporters p) (ss_result S)" "ids_ok b S p" "jobs_known p"
    using ok by (simp_all add: ssdp_ok_def)
  have rm: "mset (reporters p) = add_mset ?a (mset (reporters ?p))" using mset_job_args_remove [OF k] f by simp
  have others: "mset (handlers ?p) = mset (handlers p)" "mset (enders ?p) = mset (enders p)"
    using mset_job_args_remove [OF k, of ssdp_event_handler_thread_addr] mset_job_args_remove [OF k, of searchExpired_addr] f by auto
  note own = owned_remove [OF o(3) rm]
  from own(2) obtain temp where temp: "ss_result S ?a = Some temp" by blast
  let ?S = "(call_client (rd_callback temp) (DISCOVERY_SEARCH_RESULT (rd_param temp)) (rd_cookie temp) S)
              \<lparr>ss_result := (ss_result S)(?a := None)\<rparr>"
  have r: "run_job env (p ! k) S = Some (?S, [])"
    using f temp by (simp add: run_job_def send_search_result_def)
  have "base_ok ?S" by (rule base_ok_step [OF o(1)]) (use base_okD [OF o(1)] in auto)
  moreover have "data_ok ?S ?p hs"
    using o(2) owned_perm [of "handlers p @ map fst hs" "ss_data S" "handlers ?p @ map fst hs"] others(1) mset_eq_setD [OF others(1)]
    by (simp add: data_ok_def waiting_data_def)
  moreover have "ids_ok b ?S ?p" by (rule ids_ok_same [OF o(4)]) (simp_all add: others)
  ultimately show ?thesis using r own(1) jobs_known_remove [OF o(5)] by (simp add: ssdp_ok_def)
qed

section \<open>Searches\<close>

lemma searches_ok_remove:
  assumes "searches_ok b n hi ids" and "k < List.length (q_items (hi_SsdpSearchList hi))"
    and "sa_timeoutEventId (q_items (hi_SsdpSearchList hi) ! k) = i"
  shows "searches_ok b n (hi\<lparr>hi_SsdpSearchList := q_remove_at (hi_SsdpSearchList hi) k\<rparr>) (ids - {i})"
proof -
  let ?xs = "q_items (hi_SsdpSearchList hi)"
  have x: "?xs = take k ?xs @ ?xs ! k # drop (Suc k) ?xs" using assms(2) by (rule id_take_nth_drop)
  have "distinct (map sa_timeoutEventId (take k ?xs @ ?xs ! k # drop (Suc k) ?xs))"
    using assms(1) x by (simp add: searches_ok_def)
  moreover define ys where "ys = take k ?xs @ drop (Suc k) ?xs"
  ultimately have d: "distinct (map sa_timeoutEventId ys)" "i \<notin> sa_timeoutEventId ` set ys" using assms(3) by auto
  have "set ys \<subseteq> set ?xs" by (auto simp: ys_def dest: in_set_takeD in_set_dropD)
  then have "\<forall>x \<in> sa_timeoutEventId ` set ys. x < n \<and> (b \<longrightarrow> x \<in> ids - {i})" "\<forall>sa \<in> set ys. sa_searchTarget sa \<noteq> None"
    using d(2) assms(1) unfolding searches_ok_def by blast+
  then show ?thesis using d(1) by (simp add: searches_ok_def q_remove_at_def flip: ys_def)
qed

lemma searches_ok_keep:
  assumes "searches_ok b n hi ids" and "i \<notin> sa_timeoutEventId ` set (q_items (hi_SsdpSearchList hi))"
  shows "searches_ok b n hi (ids - {i})"
  using assms by (auto simp: searches_ok_def)

lemma ran_remove: "inj_on f (dom f) \<Longrightarrow> f a = Some i \<Longrightarrow> ran (f(a := None)) = ran f - {i}"
  by (auto simp: ran_def inj_on_def dom_def) (metis option.inject)

lemma set_searches_simps [simp]:
  "ss_data (set_searches h hi q S) = ss_data S" "ss_result (set_searches h hi q S) = ss_result S"
  "ss_id (set_searches h hi q S) = ss_id S" "ss_brk (set_searches h hi q S) = ss_brk S"
  "cl_store (ss_lib (set_searches h hi q S)) = cl_store (ss_lib S)"
  by (simp_all add: set_searches_def set_handle_def)

lemma set_searches_client:
  assumes "table_ok (ss_lib S)" and "client_of S = Some hi"
  shows "table_ok (ss_lib (set_searches 1 hi q S))"
    "client_of (set_searches 1 hi q S) = Some (hi\<lparr>hi_SsdpSearchList := q\<rparr>)"
  using assms by (auto simp: table_ok_def client_of_def set_searches_def set_handle_def NUM_HANDLE_def nth_list_update)

lemma run_end_ok:
  assumes ok: "ssdp_ok b (S, p, hs)" and k: "k < List.length p" and f: "job_func (p ! k) = searchExpired_addr"
  shows "\<exists>S' new. run_job env (p ! k) S = Some (S', new) \<and> ssdp_ok b (S', remove_nth k p, hs @ new)"
proof -
  let ?a = "job_arg (p ! k)" let ?p = "remove_nth k p" let ?g = "(ss_id S)(?a := None)"
  have o: "base_ok S" "data_ok S p hs" "owned (reporters p) (ss_result S)" "ids_ok b S p" "jobs_known p"
    using ok by (simp_all add: ssdp_ok_def)
  note B = base_okD [OF o(1)]
  have em: "mset (enders p) = add_mset ?a (mset (enders ?p))" using mset_job_args_remove [OF k] f by simp
  have others: "mset (handlers ?p) = mset (handlers p)" "mset (reporters ?p) = mset (reporters p)"
    using mset_job_args_remove [OF k, of ssdp_event_handler_thread_addr] mset_job_args_remove [OF k, of send_search_result_addr] f by auto
  have I: "owned (map event_arg (events_of S) @ enders p) (ss_id S)" "inj_on (ss_id S) (dom (ss_id S))"
    "\<forall>e \<in> set (events_of S). search_event S e" "\<forall>i \<in> ran (ss_id S). i < lastEventId (cs_timer (cl_store (ss_lib S)))"
    "\<And>hi. client_of S = Some hi \<Longrightarrow> searches_ok b (lastEventId (cs_timer (cl_store (ss_lib S)))) hi (ran (ss_id S))" using o(4) by (simp_all add: ids_ok_def)
  have m: "mset (map event_arg (events_of S) @ enders p) = add_mset ?a (mset (map event_arg (events_of S) @ enders ?p))" using em by simp
  note own = owned_remove [OF I(1) m]
  from own(2) obtain i where i: "ss_id S ?a = Some i" by blast
  have na: "?a \<notin> event_arg ` set (events_of S)" using own(1) by (auto simp: owned_def)
  note L = client_lookup [OF B(4)] and R = ran_remove [OF I(2) i]
  have rest: "ssdp_ok b (S', ?p, hs)"
    if S': "ss_id S' = ?g" "ss_data S' = ss_data S" "ss_result S' = ss_result S" "ss_brk S' = ss_brk S"
        "cl_store (ss_lib S') = cl_store (ss_lib S)" "table_ok (ss_lib S')"
      and se: "\<And>hi. client_of S' = Some hi \<Longrightarrow> searches_ok b (lastEventId (cs_timer (cl_store (ss_lib S)))) hi (ran (ss_id S) - {i})" for S'
  proof -
    have "base_ok S'" by (rule base_ok_step [OF o(1)]) (use B S' in auto)
    moreover have "data_ok S' ?p hs"
      using o(2) owned_perm [of "handlers p @ map fst hs" "ss_data S" "handlers ?p @ map fst hs"] others(1) mset_eq_setD [OF others(1)]
      by (simp add: data_ok_def waiting_data_def S')
    moreover have "search_event S' e" if "e \<in> set (events_of S)" for e
    proof -
      have "event_arg e \<noteq> job_arg (p ! k)" using na that by (metis imageI)
      then show ?thesis using I(3) that by (simp add: search_event_def S')
    qed
    then have "ids_ok b S' ?p"
      using own(1) I(2,4) se R by (auto simp: ids_ok_def events_of_def S' inj_on_def)
    ultimately show ?thesis using owned_perm [OF o(3) others(2)] jobs_known_remove [OF o(5)] by (simp add: ssdp_ok_def S')
  qed
  let ?S1 = "S\<lparr>ss_id := ?g\<rparr>"
  have c1: "client_of ?S1 = client_of S" by (simp add: client_of_def)
  show ?thesis
  proof (cases "client_of S")
    case None
    then have "run_job env (p ! k) S = Some (?S1, [])" using f i L by (simp add: run_job_def searchExpired_def)
    moreover have "ssdp_ok b (?S1, ?p, hs)" by (rule rest) (use B None c1 in auto)
    ultimately show ?thesis by simp
  next
    case (Some hi)
    let ?xs = "q_items (hi_SsdpSearchList hi)"
    show ?thesis
    proof (cases "find_index (\<lambda>item. sa_timeoutEventId item = i) ?xs")
      case None
      then have "run_job env (p ! k) S = Some (?S1, [])" using f i L Some by (simp add: run_job_def searchExpired_def)
      moreover have "i \<notin> sa_timeoutEventId ` set ?xs" using None by (auto simp: find_index_None)
      then have "searches_ok b (lastEventId (cs_timer (cl_store (ss_lib S)))) hi (ran (ss_id S) - {i})" by (rule searches_ok_keep [OF I(5) [OF Some]])
      then have "ssdp_ok b (?S1, ?p, hs)" by (intro rest) (use B(4) Some c1 in simp_all)
      ultimately show ?thesis by simp
    next
      case (Some n)
      note F = find_index_Some [OF this]
      let ?S2 = "set_searches 1 hi (q_remove_at (hi_SsdpSearchList hi) n) ?S1"
      let ?S3 = "call_client (hi_Callback hi) DISCOVERY_SEARCH_TIMEOUT (sa_cookie (?xs ! n)) ?S2"
      have "run_job env (p ! k) S = Some (?S3, [])"
        using f i L \<open>client_of S = Some hi\<close> Some by (simp add: run_job_def searchExpired_def)
      moreover have t: "table_ok (ss_lib ?S2)" "client_of ?S2 = Some (hi\<lparr>hi_SsdpSearchList := q_remove_at (hi_SsdpSearchList hi) n\<rparr>)"
        using set_searches_client [of ?S1 hi] B(4) c1 \<open>client_of S = Some hi\<close> by auto
      have "client_of ?S3 = client_of ?S2" by (simp add: client_of_def)
      then have "ssdp_ok b (?S3, ?p, hs)"
        by (intro rest) (use t F searches_ok_remove [OF I(5) [OF \<open>client_of S = Some hi\<close>]] in auto)
      ultimately show ?thesis by simp
    qed
  qed
qed

lemma schedule_end:
  assumes "base_ok S"
  shows "\<exists>t e. TimerThreadSchedule now (Some (cs_timer (cl_store (ss_lib S)))) d REL_SEC
             (Some (med_job searchExpired_addr a free_addr)) SHORT_TERM =
             (0, Some (lastEventId (cs_timer (cl_store (ss_lib S)))), Some t) \<and>
           ev_id e = lastEventId (cs_timer (cl_store (ss_lib S))) \<and> event_arg e = a \<and>
           job_func (ev_job e) = searchExpired_addr \<and> job_free_func (ev_job e) = free_addr \<and>
           lastEventId t = lastEventId (cs_timer (cl_store (ss_lib S))) + 1 \<and> tt_oom t = [] \<and> timer_inv t \<and>
           mset (q_items (eventQ t)) = add_mset e (mset (events_of S))"
proof -
  let ?T = "cs_timer (cl_store (ss_lib S))" let ?j = "med_job searchExpired_addr a free_addr"
  let ?e = "new_event now d REL_SEC ?j SHORT_TERM ?T"
  have inv: "timer_inv ?T" "tt_oom ?T = []" using base_okD [OF assms] by simp_all
  then have bt: "by_time (q_items (eventQ ?T))" by (simp add: timer_inv_def)
  from TimerThreadSchedule_cases [OF bt, of now d REL_SEC ?j SHORT_TERM] inv(2) obtain i t where
    r: "TimerThreadSchedule now (Some ?T) d REL_SEC (Some ?j) SHORT_TERM = (0, Some i, Some t)"
      "i = lastEventId ?T" "lastEventId t = lastEventId ?T + 1" "q_items (eventQ t) = insert_event ?e (q_items (eventQ ?T))" by auto
  have oom: "tt_oom t = []" using r(1) inv(2)
    by (auto simp: TimerThreadSchedule_def CreateTimerEvent_def node_alloc_def q_insert_at_def q_add_tail_def FreeTimerEvent_def Let_def
        split: option.splits if_splits prod.splits)
  have id: "ev_id ?e = lastEventId ?T" by (simp add: new_event_def)
  have "timer_inv t" by (rule timer_inv_insert [OF inv(1) id r(4,3)])
  then show ?thesis using r oom id insert_event_props(2) [OF bt, of ?e]
    by (intro exI [of _ t] exI [of _ ?e]) (simp add: new_event_def event_arg_def events_of_def)
qed

lemma searches_ok_add:
  assumes "searches_ok b n hi ids" and "sa_timeoutEventId sa = n" and "sa_searchTarget sa \<noteq> None"
    and "q_items q = q_items (hi_SsdpSearchList hi) @ [sa]"
  shows "searches_ok b (n + 1) (hi\<lparr>hi_SsdpSearchList := q\<rparr>) (insert n ids)"
  using assms by (fastforce simp: searches_ok_def)

lemma q_add_tail_memory: "\<exists>q. q_add_tail [] q0 x = (True, [], q) \<and> q_items q = q_items q0 @ [x]"
  by (cases "0 < q_cached q0") (simp_all add: q_add_tail_def q_insert_at_def node_alloc_def)

lemma length_cstr_terminated: "List.length (cstr (s @ [NUL])) \<le> List.length s"
  by (induction s) (auto simp: cstr_def)

lemma strdup_memory:
  assumes "oom e = []" and "List.length St < COMMAND_LEN"
  shows "strdup e (St @ [NUL]) = Some (Some (cstr (St @ [NUL]) @ [NUL]), e)"
proof -
  have "List.length (cstr (St @ [NUL])) + 1 \<le> alloc_max"
    using assms(2) length_cstr_terminated [of St] by (simp add: COMMAND_LEN_def alloc_max_def)
  then show ?thesis using assms(1) by (simp add: strdup_def block_strlen_def malloc_ok_def)
qed

lemma add_search_ok:
  assumes ok: "ssdp_ok b (S, p, hs)" and len: "List.length St < COMMAND_LEN"
  shows "\<exists>rc S'. add_search now g d St Cookie ty S = Some (rc, S') \<and> ssdp_ok b (S', p, hs)"
proof -
  have o: "base_ok S" "data_ok S p hs" "owned (reporters p) (ss_result S)" "ids_ok b S p" "jobs_known p"
    using ok by (simp_all add: ssdp_ok_def)
  note B = base_okD [OF o(1)] and L = client_lookup [OF base_okD(4) [OF o(1)]]
  show ?thesis
  proof (cases "client_of S")
    case None
    then show ?thesis using ok L by (simp add: add_search_def)
  next
    case (Some hi)
    let ?T = "cs_timer (cl_store (ss_lib S))" let ?a = "ss_brk S" let ?i = "lastEventId ?T"
    from schedule_end [OF o(1), of now d ?a] obtain t e where
      t: "TimerThreadSchedule now (Some ?T) d REL_SEC (Some (med_job searchExpired_addr ?a free_addr)) SHORT_TERM = (0, Some ?i, Some t)"
      and e: "ev_id e = ?i" "event_arg e = ?a" "job_func (ev_job e) = searchExpired_addr" "job_free_func (ev_job e) = free_addr"
      and t': "lastEventId t = ?i + 1" "tt_oom t = []" "timer_inv t" "mset (q_items (eventQ t)) = add_mset e (mset (events_of S))" by blast
    let ?sa = "\<lparr>sa_timeoutEventId = ?i, sa_searchTarget = Some (cstr (cstr (St @ [NUL]) @ [NUL])), sa_cookie = Cookie, sa_requestType = ty\<rparr>"
    from q_add_tail_memory [of "hi_SsdpSearchList hi" ?sa]
    obtain q where q: "q_add_tail [] (hi_SsdpSearchList hi) ?sa = (True, [], q)" "q_items q = q_items (hi_SsdpSearchList hi) @ [?sa]"
      by blast
    let ?S1 = "S\<lparr>ss_lib := (ss_lib S)\<lparr>cl_store := (cl_store (ss_lib S))\<lparr>cs_alloc := (ss_alloc S)\<lparr>oom := []\<rparr>, cs_timer := t\<rparr>\<rparr>, ss_id := (ss_id S)(?a \<mapsto> ?i), ss_brk := Suc ?a\<rparr>"
    let ?S2 = "set_searches 1 hi q ?S1"
    have run: "add_search now g d St Cookie ty S = Some (0, ?S2)"
    proof -
      have m: "malloc_ok (ss_alloc S) SIZEOF_SsdpSearchArg = (True, ss_alloc S)" "malloc_ok (ss_alloc S) 4 = (True, ss_alloc S)"
        using B(1) by (simp_all add: malloc_ok_def SIZEOF_SsdpSearchArg_def alloc_max_def)
      show ?thesis using Some L t B(1) q(1) m strdup_memory [OF B(1) len] by (simp add: add_search_def Let_def)
    qed
    have c1: "table_ok (ss_lib ?S1)" "client_of ?S1 = Some hi" using B(4) Some by (simp_all add: table_ok_def client_of_def)
    note C = set_searches_client [OF c1, of q]
    have I: "owned (map event_arg (events_of S) @ enders p) (ss_id S)" "inj_on (ss_id S) (dom (ss_id S))"
      "\<forall>e \<in> set (events_of S). search_event S e" "\<forall>i \<in> ran (ss_id S). i < ?i" "searches_ok b ?i hi (ran (ss_id S))"
      using o(4) Some by (simp_all add: ids_ok_def)
    have fresh: "?i \<notin> ran (ss_id S)" using I(4) by auto
    have na: "?a \<notin> event_arg ` set (events_of S)" using I(1) B(7) by (auto simp: owned_def)
    have ev: "set (q_items (eventQ t)) = insert e (set (events_of S))" using t'(4) by (metis set_mset_add_mset_insert set_mset_mset)
    have "owned (map event_arg (q_items (eventQ t)) @ enders p) ((ss_id S)(?a \<mapsto> ?i))"
      by (rule owned_add [OF I(1) B(7)]) (simp add: t'(4) e(2))
    moreover have "inj_on ((ss_id S)(?a \<mapsto> ?i)) (dom ((ss_id S)(?a \<mapsto> ?i)))"
      using I(2) fresh B(7) by (auto simp: inj_on_def ran_def)
    moreover have "search_event ?S2 x" if "x \<in> set (q_items (eventQ t))" for x
    proof (cases "x = e")
      case True
      then show ?thesis using e by (simp add: search_event_def)
    next
      case False
      then have x: "x \<in> set (events_of S)" using that ev by simp
      then have "event_arg x \<noteq> ?a" using na by (metis imageI)
      then show ?thesis using x I(3) by (simp add: search_event_def)
    qed
    moreover have r: "ran ((ss_id S)(?a \<mapsto> ?i)) = insert ?i (ran (ss_id S))" using B(7) by (intro ran_map_upd) auto
    moreover have "searches_ok b (lastEventId t) (hi\<lparr>hi_SsdpSearchList := q\<rparr>) (insert ?i (ran (ss_id S)))"
      unfolding t'(1) by (rule searches_ok_add [OF I(5) _ _ q(2)]) simp_all
    moreover have "\<forall>j \<in> insert ?i (ran (ss_id S)). j < lastEventId t" using I(4) t'(1) by auto
    ultimately have "ids_ok b ?S2 p" using C(2) unfolding ids_ok_def by (simp add: events_of_def)
    moreover have "base_ok ?S2" by (rule base_ok_step [OF o(1)]) (use B t' C(1) in auto)
    moreover have "data_ok ?S2 p hs" by (rule data_ok_same [OF o(2)]) simp_all
    ultimately show ?thesis using run o(3,5) by (simp add: ssdp_ok_def)
  qed
qed

lemma search_ok:
  assumes ok: "ssdp_ok b (S, p, hs)"
  shows "\<exists>rc sent S'. SearchByTarget N now g Mx St Cookie S = Some (rc, sent, S') \<and> ssdp_ok b (S', p, hs)"
proof (cases "ssdp_request_type1 St = SSDP_SERROR")
  case True
  then show ?thesis using ok by (simp add: SearchByTarget_def)
next
  case type: False
  show ?thesis
  proof (cases "CreateClientRequestPacket BUFSIZE (search_time Mx) (Some St) AF_INET")
    case (Inl rc)
    then show ?thesis using ok type by (simp add: SearchByTarget_def)
  next
    case (Inr buf)
    then have "search_packet BUFSIZE host_line4 (search_time Mx) (Some St) = Inr buf"
      by (simp add: CreateClientRequestPacket_def split: if_split_asm)
    then have "lines_fit (packet_lines host_line4 (search_time Mx) (Some St))"
      by (subst (asm) search_packet_iff) (simp_all add: BUFSIZE_def CRLF_def)
    then have len: "List.length St < COMMAND_LEN" by (simp add: lines_fit_def packet_lines_def)
    from add_search_ok [OF ok len, of now g "search_time Mx" Cookie "ssdp_request_type1 St"] obtain rc S' where
      "add_search now g (search_time Mx) St Cookie (ssdp_request_type1 St) S = Some (rc, S')" "ssdp_ok b (S', p, hs)" by blast
    then show ?thesis using ok type Inr
      by (auto simp: SearchByTarget_def Let_def split_beta split: sum.split)
  qed
qed

section \<open>The timer\<close>

lemma same_timer_ids:
  assumes "ssdp_ok b (S, p, hs)" and "eventQ T = eventQ (cs_timer (cl_store (ss_lib S)))"
    and "lastEventId T = lastEventId (cs_timer (cl_store (ss_lib S)))" and "tt_oom T = tt_oom (cs_timer (cl_store (ss_lib S)))"
  shows "ssdp_ok b (S\<lparr>ss_lib := set_store ((cl_store (ss_lib S))\<lparr>cs_timer := T\<rparr>) (ss_lib S)\<rparr>, p, hs)"
proof -
  let ?S = "S\<lparr>ss_lib := set_store ((cl_store (ss_lib S))\<lparr>cs_timer := T\<rparr>) (ss_lib S)\<rparr>"
  have o: "base_ok S" "data_ok S p hs" "owned (reporters p) (ss_result S)" "ids_ok b S p" "jobs_known p"
    using assms(1) by (simp_all add: ssdp_ok_def)
  have "timer_inv T" using base_okD(3) [OF o(1)] assms(2,3) by (simp add: timer_inv_def)
  then have "base_ok ?S" by (intro base_ok_step [OF o(1)]) (use base_okD [OF o(1)] assms(4) in auto)
  moreover have "ids_ok b ?S p"
    using o(4) assms(2,3) by (simp add: ids_ok_def events_of_def client_of_def search_event_def)
  ultimately show ?thesis using o by (simp add: ssdp_ok_def data_ok_def waiting_data_def)
qed

definition pool_takes :: "ssdp_label \<Rightarrow> bool" where
  "pool_takes l \<longleftrightarrow> (case l of Tick acc now \<Rightarrow> \<forall>n. acc n | _ \<Rightarrow> True)"

lemma tick_ok:
  assumes ok: "ssdp_ok b (S, p, hs)" and takes: "b \<Longrightarrow> \<forall>n. acc n"
  shows "\<exists>S' p'. timer_tick acc now S p = Some (S', p') \<and> ssdp_ok b (S', p', hs)"
proof -
  let ?T = "cs_timer (cl_store (ss_lib S))"
  have o: "base_ok S" "data_ok S p hs" "owned (reporters p) (ss_result S)" "ids_ok b S p" "jobs_known p"
    using ok by (simp_all add: ssdp_ok_def)
  note B = base_okD [OF o(1)]
  show ?thesis
  proof (cases "tt_shutdown ?T \<or> events_of S = [] \<or> \<not> now \<ge> eventTime (hd (events_of S))")
    case True
    then obtain w T where r: "TimerThreadWorker_round (\<lambda>_. take_job acc) now ?T p = (w, T, p)"
      "eventQ T = eventQ ?T" "lastEventId T = lastEventId ?T" "tt_oom T = tt_oom ?T" "tt_freed T = tt_freed ?T"
      by (cases "tt_shutdown ?T"; cases "q_items (eventQ ?T)") (auto simp: TimerThreadWorker_round_def events_of_def)
    then show ?thesis using same_timer_ids [OF ok, of T] by (simp add: timer_tick_def Let_def)
  next
    case False
    then obtain e es where E: "events_of S = e # es" "now \<ge> eventTime e" by (cases "events_of S") auto
    obtain T p1 where f: "fire (\<lambda>_. take_job acc) e ?T p = (T, p1)" by (cases "fire (\<lambda>_. take_job acc) e ?T p")
    note F = fire_queue [OF f]
    have I: "owned (map event_arg (e # es) @ enders p) (ss_id S)" "inj_on (ss_id S) (dom (ss_id S))"
      "\<forall>x \<in> set (e # es). search_event S x" "\<forall>i \<in> ran (ss_id S). i < lastEventId ?T"
      "\<And>hi. client_of S = Some hi \<Longrightarrow> searches_ok b (lastEventId ?T) hi (ran (ss_id S))"
      using o(4) by (simp_all add: ids_ok_def E(1))
    have tq: "q_items (eventQ T) = es" using F E by (simp add: q_pop_items events_of_def)
    have job: "job_func (ev_job e) = searchExpired_addr" "job_free_func (ev_job e) = free_addr" "ss_id S (event_arg e) = Some (ev_id e)"
      using I(3) by (simp_all add: search_event_def)
    have nz: "job_arg (ev_job e) \<noteq> NULL" "free_addr \<noteq> NULL" "EOUTOFMEM \<noteq> 0"
      using job(3) o(1) by (auto simp: base_ok_def event_arg_def free_addr_def EOUTOFMEM_def)
    have same: "tt_oom T = tt_oom ?T" "p1 = (if acc (List.length p) then p @ [ev_job e] else p)"
      "tt_freed T = tt_freed ?T @ (if acc (List.length p) then [] else [(free_addr, event_arg e)])"
      using f nz job(2) by (auto simp: fire_def take_job_def FreeTimerEvent_def Let_def event_arg_def split: if_splits)
    have inv: "timer_inv T" using B(3) F tq E(1) by (auto simp: timer_inv_def by_time_def events_of_def)
    let ?S = "S\<lparr>ss_lib := set_store ((cl_store (ss_lib S))\<lparr>cs_timer := T\<rparr>) (ss_lib S)\<rparr>"
    have ev: "events_of ?S = es" using tq by (simp add: events_of_def)
    have last: "lastEventId T = lastEventId ?T" using F by simp
    have run: "timer_tick acc now S p = map_option (\<lambda>S1. (S1, p1)) (free_ids (if acc (List.length p) then [] else [(free_addr, event_arg e)]) ?S)"
      using False E f same(3) by (simp add: timer_tick_def TimerThreadWorker_round_def Let_def events_of_def)
    show ?thesis
    proof (cases "acc (List.length p)")
      case True
      have "owned (map event_arg es @ enders p1) (ss_id S)"
        by (rule owned_perm [OF I(1)]) (simp add: same(2) True job(1) event_arg_def)
      then have "ids_ok b ?S p1" using I last ev by (simp add: ids_ok_def client_of_def search_event_def)
      moreover have "base_ok ?S" by (rule base_ok_step [OF o(1)]) (use B inv same(1) in auto)
      moreover have "data_ok ?S p1 hs" by (rule data_ok_same [OF o(2)]) (simp_all add: same(2) job(1))
      ultimately have "ssdp_ok b (?S, p1, hs)" using o(3,5) True by (auto simp: ssdp_ok_def same(2) job(1) jobs_known_def)
      then show ?thesis using run True by simp
    next
      case rejected: False
      then have nb: "\<not> b" using takes by blast
      let ?g = "(ss_id S)(event_arg e := None)" let ?S1 = "?S\<lparr>ss_id := ?g\<rparr>"
      have own: "owned (map event_arg es @ enders p) ?g" by (rule owned_remove(1) [OF I(1)]) simp
      have "search_event ?S1 x" if "x \<in> set es" for x
      proof -
        have "event_arg e \<notin> event_arg ` set es" using I(1) by (simp add: owned_def)
        then have "event_arg x \<noteq> event_arg e" using that by (metis imageI)
        then show ?thesis using I(3) that by (simp add: search_event_def)
      qed
      moreover have "ran ?g \<subseteq> ran (ss_id S)" by (auto simp: ran_def)
      moreover have "searches_ok b (lastEventId ?T) hi (ran ?g)" if "client_of S = Some hi" for hi
        using I(5) [OF that] nb by (simp add: searches_ok_def)
      ultimately have "ids_ok b ?S1 p1"
        using own I(2,4) last ev by (auto simp: ids_ok_def events_of_def client_of_def same(2) rejected inj_on_def)
      moreover have "base_ok ?S1" by (rule base_ok_step [OF o(1)]) (use B inv same(1) in auto)
      moreover have "data_ok ?S1 p1 hs" by (rule data_ok_same [OF o(2)]) (simp_all add: same(2) rejected)
      ultimately have "ssdp_ok b (?S1, p1, hs)" using o(3,5) rejected by (auto simp: ssdp_ok_def same(2))
      then show ?thesis using run rejected job(3) by simp
    qed
  qed
qed

section \<open>Receiving\<close>

lemma received_parser_ok:
  "wf_parser (received_parser req)" "mb_length (hm_msg (p_msg (received_parser req))) = 0"
  "p_position (received_parser req) \<noteq> POS_COMPLETE"
  using parser_init_wf
  by (simp_all add: received_parser_def parser_request_init_def parser_response_init_def parser_init_def httpmsg_init_def
      membuffer_init_length)

lemma stored_parser_wf:
  assumes "wf_parser p" and "mb_length (hm_msg (p_msg p)) = 0" and "wf_membuffer b" and "mb_length b < 2 ^ 31"
  shows "wf_parser (upd_msg (\<lambda>m. m\<lparr>hm_msg := b\<rparr>) p)"
  using assms by (simp add: wf_parser_def wf_msg_def)

lemma datagram_ok:
  assumes ok: "ssdp_ok b (S, p, hs)" and len: "0 < n \<Longrightarrow> List.length bs = nat n \<and> List.length bs < BUFSIZE"
  shows "\<exists>S' p'. readFromSSDPSocket (take_job acc) req n bs from S p = Some (S', p') \<and> ssdp_ok b (S', p', hs)"
proof -
  have o: "base_ok S" "data_ok S p hs" "owned (reporters p) (ss_result S)" "ids_ok b S p" "jobs_known p"
    using ok by (simp_all add: ssdp_ok_def)
  note B = base_okD [OF o(1)] and P = received_parser_ok [of req]
  let ?pr = "received_parser req" let ?e = "ss_alloc S" let ?a = "ss_brk S"
  have wm: "wf_membuffer (hm_msg (p_msg ?pr))" using P(1) by (simp add: wf_parser_def wf_msg_def)
  obtain rc e2 m where set: "membuffer_set_size ?e (hm_msg (p_msg ?pr)) BUFSIZE = (rc, e2, m)" by (metis surj_pair)
  have "BUFSIZE < alloc_max" by (simp add: BUFSIZE_def alloc_max_def)
  from membuffer_set_size_succeeds [OF B(1) this, of "hm_msg (p_msg ?pr)"] have "rc = 0" using set by simp
  moreover have "e2 = ?e" using quiet_set_size [of ?e "hm_msg (p_msg ?pr)" BUFSIZE] B(1) set by (simp add: quiet_def)
  ultimately have rc: "rc = 0" "e2 = ?e" by simp_all
  have "BUFSIZE \<le> mb_length (hm_msg (p_msg ?pr)) + alloc_max" by (simp add: BUFSIZE_def alloc_max_def)
  from membuffer_set_size_ok [OF wm this set rc(1)] P(2) have m: "room m BUFSIZE" "mb_length m = 0" "mb_size_inc m = mb_size_inc (hm_msg (p_msg ?pr))"
    by simp_all
  then obtain buf where buf: "mb_buf m = Some buf" "BUFSIZE \<le> mb_capacity m" "mb_capacity m < List.length buf" "List.length buf \<le> alloc_max"
    by (auto simp: room_def BUFSIZE_def split: option.split_asm)
  have mal: "malloc_ok ?e SIZEOF_ssdp_thread_data = (True, ?e)" using B(1) by (simp add: malloc_ok_memory SIZEOF_ssdp_thread_data_def)
  have same: "set_ss_alloc ?e S = S" by (simp add: set_ss_alloc_def)
  show ?thesis
  proof (cases "n > 0")
    case False
    then show ?thesis using ok mal set rc same by (simp add: readFromSSDPSocket_def Let_def)
  next
    case True
    from len [OF True] have l: "List.length bs = nat n" "List.length bs < BUFSIZE" by simp_all
    have "Suc (List.length bs) \<le> List.length buf" using l(2) buf(2,3) by simp
    then obtain buf1 where w: "block_write buf 0 (bs @ [NUL]) = Some buf1" "List.length buf1 = List.length buf"
      by (auto simp: block_write_def)
    let ?b = "m\<lparr>mb_buf := Some buf1, mb_length := nat n\<rparr>"
    have wb: "wf_membuffer ?b" "mb_length ?b < 2 ^ 31"
      using wm buf l w(2) m(3) by (auto simp: wf_membuffer_def room_def BUFSIZE_def)
    let ?d = "\<lparr>td_parser = upd_msg (\<lambda>m. m\<lparr>hm_msg := ?b\<rparr>) ?pr, td_dest_addr = from\<rparr>"
    have d: "wf_parser (td_parser ?d)" "p_position (td_parser ?d) \<noteq> POS_COMPLETE"
      using stored_parser_wf [OF P(1,2) wb] P(3) by simp_all
    let ?S = "S\<lparr>ss_data := (ss_data S)(?a \<mapsto> ?d), ss_brk := Suc ?a\<rparr>"
    let ?j = "med_job ssdp_event_handler_thread_addr ?a free_ssdp_event_handler_data_addr"
    have nz: "?a \<noteq> NULL" "EOUTOFMEM \<noteq> 0" using B(8) by (simp_all add: EOUTOFMEM_def)
    have run: "readFromSSDPSocket (take_job acc) req n bs from S p =
        (if acc (List.length p) then Some (?S, p @ [?j]) else map_option (\<lambda>S3. (S3, p)) (free_ssdp_event_handler_data ?a ?S))"
      using True mal set rc same w(1) buf(1) m(2) nz(2)
      by (simp add: readFromSSDPSocket_def Let_def take_job_def)
    show ?thesis
    proof (cases "acc (List.length p)")
      case acc: True
      let ?p = "p @ [?j]"
      have own: "owned (handlers p @ map fst hs) (ss_data S)" using o(2) by (simp add: data_ok_def)
      have "owned (handlers ?p @ map fst hs) (ss_data ?S)" using owned_add [OF own B(5)] by simp
      moreover have "waiting_data ?S x" if "x \<in> set (handlers ?p)" for x
        using that o(2) d(2) by (auto simp: data_ok_def waiting_data_def)
      moreover have "\<forall>x \<in> ran (ss_data ?S). wf_parser (td_parser x)" using o(2) d(1) by (auto simp: data_ok_def ran_def)
      ultimately have "data_ok ?S ?p hs" by (simp add: data_ok_def)
      moreover have "base_ok ?S" by (rule base_ok_step [OF o(1)]) (use B in auto)
      moreover have "ids_ok b ?S ?p" by (rule ids_ok_same [OF o(4)]) simp_all
      ultimately have "ssdp_ok b (?S, ?p, hs)" using o(3,5) by (simp add: ssdp_ok_def jobs_known_def)
      then show ?thesis using run acc by simp
    next
      case False
      let ?S1 = "S\<lparr>ss_brk := Suc ?a\<rparr>"
      have "(ss_data S)(?a := None) = ss_data S" using B(5) by auto
      then have "free_ssdp_event_handler_data ?a ?S = Some ?S1" using nz(1) by (simp add: free_ssdp_event_handler_data_def)
      moreover have "base_ok ?S1" by (rule base_ok_step [OF o(1)]) (use B in auto)
      moreover have "ids_ok b ?S1 p" by (rule ids_ok_same [OF o(4)]) simp_all
      moreover have "data_ok ?S1 p hs" by (rule data_ok_same [OF o(2)]) simp_all
      ultimately show ?thesis using run False o(3,5) by (simp add: ssdp_ok_def)
    qed
  qed
qed

section \<open>Clients\<close>

lemma client_ok:
  assumes ok: "ssdp_ok b (S, p, hs)"
    and L: "cs_timer (cl_store L) = cs_timer (cl_store (ss_lib S))" "cs_alloc (cl_store L) = ss_alloc S" "table_ok L"
    and c: "\<And>hi. cl_HandleTable L ! Suc 0 = Some hi \<Longrightarrow>
              cl_HandleTable (ss_lib S) ! Suc 0 = Some hi \<or> q_items (hi_SsdpSearchList hi) = []"
  shows "ssdp_ok b (S\<lparr>ss_lib := L\<rparr>, p, hs)"
proof -
  let ?S = "S\<lparr>ss_lib := L\<rparr>"
  have o: "base_ok S" "data_ok S p hs" "owned (reporters p) (ss_result S)" "ids_ok b S p" "jobs_known p"
    using ok by (simp_all add: ssdp_ok_def)
  have "searches_ok b (lastEventId (cs_timer (cl_store L))) hi (ran (ss_id S))" if "client_of ?S = Some hi" for hi
    using that c [of hi] o(4) by (auto simp: ids_ok_def client_of_def searches_ok_def L(1))
  then have "ids_ok b ?S p" using o(4) by (simp add: ids_ok_def events_of_def search_event_def L(1))
  moreover have "base_ok ?S" by (rule base_ok_step [OF o(1)]) (use base_okD [OF o(1)] L in auto)
  moreover have "data_ok ?S p hs" by (rule data_ok_same [OF o(2)]) simp_all
  ultimately show ?thesis using o(3,5) by (simp add: ssdp_ok_def)
qed

lemma register_ok:
  assumes ok: "ssdp_ok b (S, p, hs)"
  shows "\<exists>rc h L. UpnpRegisterClient f k g (ss_lib S) = (rc, h, L) \<and> ssdp_ok b (S\<lparr>ss_lib := L\<rparr>, p, hs)"
proof -
  let ?L = "ss_lib S"
  have o: "base_ok S" using ok by (simp add: ssdp_ok_def)
  note B = base_okD [OF o]
  show ?thesis
  proof (cases "cl_SdkInit ?L \<noteq> 1 \<or> f = NULL \<or> \<not> g \<or> cl_ClientRegistered ?L")
    case True
    then show ?thesis using ok by (auto simp: UpnpRegisterClient_def)
  next
    case False
    note G = GetFreeHandle_1 [OF B(4)]
    let ?hi = "\<lparr>hi_HType = HND_CLIENT, hi_Callback = f, hi_Cookie = k, hi_ClientSubList = NULL, hi_SsdpSearchList = q_empty\<rparr>"
    let ?L' = "(set_handle 1 ?hi ?L)\<lparr>cl_ClientRegistered := True\<rparr>"
    have "UpnpRegisterClient f k g ?L = (0, Some 1, ?L')"
      using False G B(1) by (simp add: UpnpRegisterClient_def malloc_ok_memory SIZEOF_Handle_Info_def Let_def set_handle_def)
    moreover have "ssdp_ok b (S\<lparr>ss_lib := ?L'\<rparr>, p, hs)"
      by (rule client_ok [OF ok]) (use B(4) in \<open>auto simp: set_handle_def table_ok_def NUM_HANDLE_def q_empty_def\<close>)
    ultimately show ?thesis by blast
  qed
qed

lemma unregister_ok:
  assumes ok: "ssdp_ok b (S, p, hs)"
  shows "ssdp_ok b (S\<lparr>ss_lib := snd (UpnpUnRegisterClient_free h (ss_lib S))\<rparr>, p, hs)"
proof -
  let ?L = "ss_lib S"
  have o: "base_ok S" using ok by (simp add: ssdp_ok_def)
  note B = base_okD [OF o]
  show ?thesis
  proof (cases rule: client_handle_cases [OF B(4), of h, case_names client none])
    case none
    then show ?thesis using ok by (simp add: UpnpUnRegisterClient_free_def)
  next
    case (client hi)
    have "snd (UpnpUnRegisterClient_free h ?L) = (?L\<lparr>cl_HandleTable := (cl_HandleTable ?L)[Suc 0 := None]\<rparr>)\<lparr>cl_ClientRegistered := False\<rparr>"
      using client by (simp add: UpnpUnRegisterClient_free_def FreeHandle_def NUM_HANDLE_def)
    then show ?thesis
      by (intro client_ok [OF ok]) (use B(4) in \<open>auto simp: table_ok_def nth_list_update NUM_HANDLE_def\<close>)
  qed
qed

section \<open>Every run\<close>

lemma finish_ok:
  assumes ok: "ssdp_ok b (S, p, hs)" and k: "k < List.length hs" and hk: "hs ! k = (data, client)"
    and short: "\<And>d. ss_data S data = Some d \<Longrightarrow> \<not> long_header (p_msg (td_parser d))"
  shows "\<exists>S' p'. handler_finish (take_job acc) ohm data client S p = Some (S', p') \<and> ssdp_ok b (S', p', remove_nth k hs)"
proof -
  have o: "base_ok S" "data_ok S p hs" "owned (reporters p) (ss_result S)" "ids_ok b S p" "jobs_known p"
    using ok by (simp_all add: ssdp_ok_def)
  have m: "mset (map fst hs) = add_mset data (mset (map fst (remove_nth k hs)))" using mset_remove_nth [OF k] hk by simp
  have "data \<in> set (map fst hs)" using k hk by (metis fst_conv nth_mem image_eqI list.set_map)
  then have "data \<in> dom (ss_data S)" using o(2) unfolding data_ok_def owned_def by auto
  then obtain d where d: "ss_data S data = Some d" by blast
  then have wf: "wf_msg (p_msg (td_parser d))" using o(2) by (auto simp: data_ok_def wf_parser_def ran_def)
  have "\<exists>S1 p1. handle_msg (take_job acc) ohm (p_msg (td_parser d)) (td_dest_addr d) False 0 client S p = Some (S1, p1) \<and> reported S p S1 p1"
    by (intro handle_msg_ok [OF o(1,3) wf short [OF d]]) (rule ids_okD [OF o(4)])
  then obtain S1 p1 where
    r: "handle_msg (take_job acc) ohm (p_msg (td_parser d)) (td_dest_addr d) False 0 client S p = Some (S1, p1)" "reported S p S1 p1"
    by blast
  then obtain js where R: "cl_store (ss_lib S1) = cl_store (ss_lib S)" "cl_HandleTable (ss_lib S1) = cl_HandleTable (ss_lib S)"
    "ss_data S1 = ss_data S" "ss_id S1 = ss_id S" "base_ok S1" "owned (reporters p1) (ss_result S1)"
    "p1 = p @ js" "job_func ` set js \<subseteq> {send_search_result_addr}" by (auto simp: reported_def)
  have js: "handlers js = []" "enders js = []" using handlers_other [OF R(8)] enders_other [OF R(8)] by simp_all
  let ?S = "S1\<lparr>ss_data := (ss_data S)(data := None)\<rparr>"
  have nz: "data \<noteq> NULL" using o(1) d by (auto simp: base_ok_def)
  have run: "handler_finish (take_job acc) ohm data client S p = Some (?S, p1)"
    using d r(1) R(3) nz by (simp add: handler_finish_def free_ssdp_event_handler_data_def)
  have "base_ok ?S" by (rule base_ok_step [OF R(5)]) (use base_okD [OF R(5)] R(3) in auto)
  moreover have "data_ok ?S p1 (remove_nth k hs)"
    by (rule data_ok_removed [OF o(2), of _ data]) (use m js in \<open>simp_all add: R(7)\<close>)
  moreover have "ids_ok b ?S p1" by (rule ids_ok_same [OF o(4)]) (simp_all add: R(1,2,4,7) js)
  moreover have "jobs_known p1" using o(5) R(8) by (auto simp: jobs_known_def R(7))
  ultimately show ?thesis using run R(6) by (simp add: ssdp_ok_def)
qed

fun ssdp_label_ok :: "ssdp_label \<Rightarrow> bool" where
  "ssdp_label_ok (Datagram req n bs from acc) \<longleftrightarrow> n \<le> 0 \<or> List.length bs = nat n \<and> List.length bs < BUFSIZE"
| "ssdp_label_ok _ \<longleftrightarrow> True"

text \<open>The one thing that can go wrong: a handler goes on with a message that has a header of more than 180 bytes.\<close>

fun meets_long_header :: "ssdp_label \<Rightarrow> ssdp_sys \<Rightarrow> bool" where
  "meets_long_header (Go k acc) (S, p, hs) \<longleftrightarrow>
     k < List.length hs \<and>
     (case ss_data S (fst (hs ! k)) of None \<Rightarrow> False | Some d \<Rightarrow> long_header (p_msg (td_parser d)))"
| "meets_long_header _ _ \<longleftrightarrow> False"

lemma ssdp_step_ok:
  assumes ok: "ssdp_ok b st" and l: "ssdp_label_ok l" "b \<Longrightarrow> pool_takes l" and short: "\<not> meets_long_header l st"
  shows "\<exists>st'. ssdp_step env ohm l st = Some st' \<and> ssdp_ok b st'"
proof -
  obtain S p hs where st: "st = (S, p, hs)" by (metis prod_cases3)
  note ok = ok [unfolded st]
  have "\<exists>st'. ssdp_step env ohm l (S, p, hs) = Some st' \<and> ssdp_ok b st'"
  proof (cases l)
    case (Client f k)
    then show ?thesis using register_ok [OF ok, of f k True] by auto
  next
    case (NoClient h)
    then show ?thesis using unregister_ok [OF ok, of h] by simp
  next
    case (Datagram req n bs src acc)
    then show ?thesis using datagram_ok [OF ok, of n bs acc req src] l(1) by fastforce
  next
    case (Search N now Mx St Cookie)
    then show ?thesis using search_ok [OF ok, of N now 0 Mx St Cookie] by fastforce
  next
    case (Tick acc now)
    then have "b \<Longrightarrow> \<forall>n. acc n" using l(2) by (simp add: pool_takes_def)
    from tick_ok [OF ok this, of now] show ?thesis using Tick by fastforce
  next
    case (Run k)
    show ?thesis
    proof (cases "k < List.length p")
      case True
      then have "job_func (p ! k) \<in> {ssdp_event_handler_thread_addr, send_search_result_addr, searchExpired_addr}"
        using ok nth_mem by (fastforce simp: ssdp_ok_def jobs_known_def)
      then have "\<exists>S' new. run_job env (p ! k) S = Some (S', new) \<and> ssdp_ok b (S', remove_nth k p, hs @ new)"
        using run_handler_ok [OF ok True] run_result_ok [OF ok True] run_end_ok [OF ok True] by auto
      then show ?thesis using Run True by auto
    qed (use ok Run in simp)
  next
    case (Go k acc)
    show ?thesis
    proof (cases "k < List.length hs")
      case True
      obtain data client where hk: "hs ! k = (data, client)" by (cases "hs ! k")
      then have "\<not> long_header (p_msg (td_parser d))" if "ss_data S data = Some d" for d
        using short True that Go st by simp
      from finish_ok [OF ok True hk this] show ?thesis using Go True hk by fastforce
    qed (use ok Go in simp)
  qed
  then show ?thesis unfolding st .
qed

lemma ssdp_run_ok:
  assumes "ssdp_ok b st" and "list_all ssdp_label_ok ls" and "b \<Longrightarrow> list_all pool_takes ls"
  shows "(\<exists>st'. ssdp_run env ohm ls st = Some st' \<and> ssdp_ok b st') \<or>
         (\<exists>ls1 l ls2 st1. ls = ls1 @ l # ls2 \<and> ssdp_run env ohm ls1 st = Some st1 \<and> meets_long_header l st1)"
  using assms
proof (induction ls arbitrary: st)
  case Nil
  then show ?case by simp
next
  case (Cons l ls)
  show ?case
  proof (cases "meets_long_header l st")
    case True
    then show ?thesis by (intro disjI2 exI [of _ "[]"] exI [of _ l] exI [of _ ls] exI [of _ st]) simp
  next
    case False
    then obtain st1 where s: "ssdp_step env ohm l st = Some st1" "ssdp_ok b st1"
      using ssdp_step_ok [OF Cons.prems(1), of l env ohm] Cons.prems(2,3) by auto
    from Cons.IH [OF s(2)] Cons.prems(2,3) consider
      (run) st' where "ssdp_run env ohm ls st1 = Some st'" "ssdp_ok b st'"
      | (long) ls1 l' ls2 st' where "ls = ls1 @ l' # ls2" "ssdp_run env ohm ls1 st1 = Some st'" "meets_long_header l' st'" by auto
    then show ?thesis
    proof cases
      case run
      then show ?thesis using s(1) by auto
    next
      case long
      then have "l # ls = (l # ls1) @ l' # ls2" "ssdp_run env ohm (l # ls1) st = Some st'" using s(1) by simp_all
      then show ?thesis using long(3) by blast
    qed
  qed
qed

definition start_ssdp :: ssdp_state where
  "start_ssdp = \<lparr>ss_lib = start_lib, ss_data = Map.empty, ss_result = Map.empty, ss_id = Map.empty, ss_brk = 1\<rparr>"

lemma start_ssdp_ok: "ssdp_ok b (start_ssdp, [], [])"
proof -
  have t: "table_ok start_lib" by (simp add: table_ok_def start_lib_def NUM_HANDLE_def)
  have c: "client_of start_ssdp = None" by (simp add: client_of_def start_ssdp_def start_lib_def NUM_HANDLE_def)
  have e: "events_of start_ssdp = []" by (simp add: events_of_def start_ssdp_def start_lib_def new_timer_def q_empty_def)
  have "base_ok start_ssdp" using t new_timer_inv by (simp add: base_ok_def start_ssdp_def) (simp add: start_lib_def new_timer_def)
  then show ?thesis using c e by (simp add: ssdp_ok_def data_ok_def ids_ok_def jobs_known_def owned_def) (simp add: start_ssdp_def)
qed

definition searches_have_ends :: "ssdp_state \<Rightarrow> bool" where
  "searches_have_ends S \<longleftrightarrow>
     (case client_of S of None \<Rightarrow> True
      | Some hi \<Rightarrow> list_all (\<lambda>sa. sa_timeoutEventId sa \<in> ran (ss_id S)) (q_items (hi_SsdpSearchList hi)))"

text \<open>
  C22. Discovery is safe in every interleaving, but for one thing. Let datagrams arrive, workers run the
  jobs, searches start, timers fire, clients come and go, and the pool take jobs or not, in any order.
  While there is memory the run goes on, and each datagram, each result and each number of a timer event
  belongs to exactly one job that waits or is worked on: none is used after it was freed, freed twice or
  lost. If the pool takes the timer's jobs, every search of the client still has an end to come. Or else
  a handler goes on with a message whose header DT or UID is longer than the field it is copied to.
\<close>

theorem discovery_is_safe:
  assumes "list_all ssdp_label_ok ls"
  shows "(\<exists>S p hs. ssdp_run env ohm ls (start_ssdp, [], []) = Some (S, p, hs) \<and>
            owned (handlers p @ map fst hs) (ss_data S) \<and> owned (reporters p) (ss_result S) \<and>
            owned (map event_arg (events_of S) @ enders p) (ss_id S) \<and>
            (list_all pool_takes ls \<longrightarrow> searches_have_ends S)) \<or>
         (\<exists>ls1 l ls2 st. ls = ls1 @ l # ls2 \<and> ssdp_run env ohm ls1 (start_ssdp, [], []) = Some st \<and> meets_long_header l st)"
proof -
  let ?b = "list_all pool_takes ls"
  from ssdp_run_ok [OF start_ssdp_ok assms, of ?b env ohm] consider
    (run) st where "ssdp_run env ohm ls (start_ssdp, [], []) = Some st" "ssdp_ok ?b st"
    | (long) "\<exists>ls1 l ls2 st. ls = ls1 @ l # ls2 \<and> ssdp_run env ohm ls1 (start_ssdp, [], []) = Some st \<and> meets_long_header l st"
    by blast
  then show ?thesis
  proof cases
    case run
    obtain S p hs where st: "st = (S, p, hs)" by (metis prod_cases3)
    note run = run [unfolded st]
    then have "?b \<longrightarrow> searches_have_ends S"
      by (auto simp: ssdp_ok_def ids_ok_def searches_ok_def searches_have_ends_def list_all_iff split: option.split)
    then show ?thesis using run by (auto simp: ssdp_ok_def data_ok_def ids_ok_def)
  qed blast
qed

definition ssdp_sample :: "ssdp_label list" where
  "ssdp_sample =
     [Client 7 9, Search \<lparr>sr_sock4 = 4, sr_sock6 = -1, sr_select = 1, sr_ready4 = True, sr_ready6 = False\<rparr> 0 5 ''urn:x:device:y'' 3,
      Datagram True 1 ''X'' (2, []) (\<lambda>_. True), Run 0, Tick (\<lambda>_. True) 9, Run 0]"

theorem discovery_is_safe_witness:
  "list_all ssdp_label_ok ssdp_sample \<and>
   (\<exists>S p hs. ssdp_run sample_net ''urn:'' ssdp_sample (start_ssdp, [], []) = Some (S, p, hs) \<and>
      owned (handlers p @ map fst hs) (ss_data S) \<and> owned (reporters p) (ss_result S) \<and>
      owned (map event_arg (events_of S) @ enders p) (ss_id S) \<and> searches_have_ends S)"
proof -
  have l: "list_all ssdp_label_ok ssdp_sample" by (simp add: ssdp_sample_def BUFSIZE_def)
  have t: "list_all pool_takes ssdp_sample" by (simp add: ssdp_sample_def pool_takes_def)
  have L: "list_all (\<lambda>l. \<not> meets_long_header l st) ssdp_sample" for st by (cases st) (simp add: ssdp_sample_def)
  have "\<not> meets_long_header l st" if "ssdp_sample = ls1 @ l # ls2" for ls1 l ls2 st using L [of st] unfolding that by simp
  with discovery_is_safe [OF l, of sample_net "''urn:''"] t l show ?thesis by blast
qed

end
