(* ===== verification/Soap.thy ===== *)
theory Soap
  imports HttpOpen
begin

text \<open>
  Control, \<open>upnp/src/soap/soap_ctrlpt.c\<close>: sending an action to a device and reading its response, with
  the second try that a device asks for by the status 405.

  \<open>SN n\<close> is what the system does in the exchange number \<open>n\<close> (0 and 1): the connection, and what
  \<open>http_error_code\<close> holds before it is set.
\<close>

record soap_net =
  sn_max :: nat
  sn_sock :: sock_env
  sn_fd :: int
  sn_connected :: int
  sn_code :: int

abbreviation (input) UPNP_TIMEOUT :: int where "UPNP_TIMEOUT \<equiv> 30"
abbreviation (input) HTTP_METHOD_NOT_ALLOWED :: int where "HTTP_METHOD_NOT_ALLOWED \<equiv> 405"

definition ContentTypeHeader :: string where
  "ContentTypeHeader = ''CONTENT-TYPE: application/json'' @ CRLF"

definition man_hdr :: string where
  "man_hdr = ''MAN: '' @ [CHR 0x22] @ ''http://schemas.xmlsoap.org/soap/envelope/'' @ [CHR 0x22] @ ''; ns=01'' @ CRLF @ ''01-''"

text \<open>
  \<open>POST\<close> becomes \<open>M-POST\<close>, and the action's header gets a prefix that the new header \<open>MAN\<close> declares.
  The assertion that the header is there fails as a dereferenced \<open>NULL\<close> does.
\<close>

definition add_man_header :: "alloc_env \<Rightarrow> membuffer \<Rightarrow> (int \<times> alloc_env \<times> membuffer) option" where
  "add_man_header e headers =
     Option.bind (membuffer_insert e headers (Some ''M-'') 2 0) (\<lambda>(rc, e1, h1).
       if rc \<noteq> 0 then Some (UPNP_E_OUTOF_MEMORY, e1, h1)
       else
         Option.bind (mb_buf h1) (\<lambda>buf.
           let n = strstr_from (cstr buf) ''SOAPACTION:'' 0
           in if n = -1 then None
              else
                map_option (\<lambda>(rc, e2, h2). (if rc \<noteq> 0 then UPNP_E_OUTOF_MEMORY else 0, e2, h2))
                  (membuffer_insert e1 h1 (Some man_hdr) (List.length man_hdr) (nat n))))"

definition soap_exchange ::
  "'f files \<Rightarrow> net_env \<Rightarrow> soap_net \<Rightarrow> http_method \<Rightarrow> alloc_env \<Rightarrow> membuffer \<Rightarrow> (int \<times> http_parser \<times> alloc_env) option"
where
  "soap_exchange fs env SN method e request =
     Option.bind (mb_buf request) (\<lambda>buf.
       map_option (\<lambda>(ret_code, response, e1, _). (ret_code, response, e1))
         (http_RequestAndResponse fs env (sn_max SN) e (sn_sock SN) (sn_fd SN) (sn_connected SN)
            buf (mb_length request) method UPNP_TIMEOUT (sn_code SN)))"

text \<open>The response that is destroyed is no longer initialised.\<close>

definition destroy_response :: "http_parser \<Rightarrow> http_parser" where
  "destroy_response p = upd_msg (\<lambda>m. snd (httpmsg_destroy m)) p"

definition soap_request_and_response ::
  "'f files \<Rightarrow> net_env \<Rightarrow> (nat \<Rightarrow> soap_net) \<Rightarrow> alloc_env \<Rightarrow> membuffer
     \<Rightarrow> (int \<times> http_parser \<times> alloc_env \<times> membuffer) option"
where
  "soap_request_and_response fs env SN e request =
     Option.bind (soap_exchange fs env (SN 0) SOAPMETHOD_POST e request) (\<lambda>(ret_code, response, e1).
       if ret_code \<noteq> 0 then Some (ret_code, destroy_response response, e1, request)
       else if hm_status_code (p_msg response) \<noteq> HTTP_METHOD_NOT_ALLOWED then Some (ret_code, response, e1, request)
       else
         Option.bind (add_man_header e1 request) (\<lambda>(ret_code, e2, request1).
           if ret_code \<noteq> 0 then Some (ret_code, response, e2, request1)
           else
             map_option
               (\<lambda>(ret_code, response1, e3).
                  (ret_code, if ret_code \<noteq> 0 then destroy_response response1 else response1, e3, request1))
               (soap_exchange fs env (SN 1) HTTPMETHOD_MPOST e2 request1)))"

text \<open>
  \<open>action_url\<close> and \<open>body\<close> are the texts of the URL and of the action, without their terminators. The
  result is the code and the response as it is destroyed, when there was one.
\<close>

definition soap_items :: "string \<Rightarrow> uri_type \<Rightarrow> string \<Rightarrow> msg_item list" where
  "soap_items u url body =
     [M_q SOAPMETHOD_POST u url, M_N (int (List.length body)), M_s ContentTypeHeader, M_s ''SOAPACTION:'', M_c,
      M_s ''UID: '', M_s ''yyccbb12345'', M_c, M_U, M_c, M_b body (List.length body)]"

definition SoapSendAction ::
  "'f files \<Rightarrow> net_env \<Rightarrow> make_env \<Rightarrow> (nat \<Rightarrow> soap_net) \<Rightarrow> alloc_env \<Rightarrow> string \<Rightarrow> string
     \<Rightarrow> (int \<times> http_parser option \<times> alloc_env) option"
where
  "SoapSendAction fs env mk SN e action_url body =
     Option.bind (http_FixStrUrl env action_url (List.length action_url)) (\<lambda>r.
       case r of
         Inl _ \<Rightarrow> Some (UPNP_E_INVALID_URL, None, e)
       | Inr (url, path) \<Rightarrow>
           Option.bind
             (http_MakeMessage mk 1 1 e ((membuffer_init new_membuffer)\<lparr>mb_size_inc := 50\<rparr>)
                (soap_items action_url url body)) (\<lambda>(rc, e1, request).
             if rc \<noteq> 0 then Some (UPNP_E_OUTOF_MEMORY, None, e1)
             else
               map_option (\<lambda>(ret_code, response, e2, _). (ret_code, Some (destroy_response response), e2))
                 (soap_request_and_response fs env SN e1 request)))"

section \<open>The second try\<close>

lemma strstr_from_found:
  "take (List.length pat) (drop k s) = pat \<Longrightarrow> pat \<noteq> [] \<Longrightarrow>
   \<exists>j. strstr_from s pat i = int (i + j) \<and> j \<le> k \<and> take (List.length pat) (drop j s) = pat"
proof (induction s arbitrary: k i)
  case Nil
  then show ?case by simp
next
  case (Cons c s)
  show ?case
  proof (cases "take (List.length pat) (c # s) = pat")
    case True
    then show ?thesis by (intro exI [of _ 0]) simp
  next
    case False
    then obtain k' where k: "k = Suc k'" using Cons.prems(1) by (cases k) auto
    with Cons.prems Cons.IH [of k' "Suc i"] obtain j where
      "strstr_from s pat (Suc i) = int (Suc i + j)" "j \<le> k'" "take (List.length pat) (drop j s) = pat" by auto
    then show ?thesis using False k by (intro exI [of _ "Suc j"]) simp
  qed
qed

lemma cstr_prefix: "nul_free a \<Longrightarrow> cstr (a @ b) = a @ cstr b"
  by (induction a) (auto simp: cstr_def)

lemma man_hdr_length: "List.length man_hdr = 60"
  by (simp add: man_hdr_def CRLF_def)

text \<open>The header goes before the first place where \<open>SOAPACTION:\<close> stands, which is there.\<close>

lemma add_man_header_ok:
  assumes wf: "wf_membuffer m" and c: "contents m = a0 @ ''SOAPACTION:'' @ b0" and a0: "nul_free a0"
  shows "\<exists>rc e' m'. add_man_header e m = Some (rc, e', m') \<and>
           (rc = 0 \<and> (\<exists>a b. contents m = a @ b \<and> take 11 b = ''SOAPACTION:'' \<and> contents m' = ''M-'' @ a @ man_hdr @ b) \<or>
            rc = UPNP_E_OUTOF_MEMORY) \<and>
           (oom e = [] \<and> mb_length m + 64 < alloc_max \<longrightarrow> rc = 0)"
proof -
  let ?pat = "''SOAPACTION:''"
  have "List.length ''M-'' \<le> alloc_max" "List.length man_hdr \<le> alloc_max" using man_hdr_length by (simp_all add: alloc_max_def)
  note small = this
  from membuffer_insert_bytes [OF wf le0 small(1), of e] obtain rc e1 h1 where
    i1: "membuffer_insert e m (Some ''M-'') 2 0 = Some (rc, e1, h1)" "updates_to m (''M-'' @ contents m) rc h1"
      "oom e = [] \<and> mb_length m + 2 < alloc_max \<longrightarrow> rc = 0" by (auto simp: numeral_2_eq_2)
  show ?thesis
  proof (cases "rc = 0")
    case False
    then show ?thesis using i1 by (auto simp: add_man_header_def)
  next
    case True
    with i1(2) have h1: "wf_membuffer h1" "contents h1 = ''M-'' @ contents m" by (auto simp: updates_to_def)
    then obtain buf where buf: "mb_buf h1 = Some buf" by (cases "mb_buf h1") (auto simp: contents_def bytes_def)
    have "buf = contents h1 @ drop (mb_length h1) buf" using buf by (simp add: contents_def bytes_def)
    then have "buf = (''M-'' @ a0 @ ?pat) @ b0 @ drop (mb_length h1) buf" using h1(2) c by simp
    moreover have nf: "nul_free (''M-'' @ a0 @ ?pat)" using a0 by simp
    ultimately have cs: "cstr buf = (''M-'' @ a0 @ ?pat) @ cstr (b0 @ drop (mb_length h1) buf)"
      using cstr_prefix [OF nf] by metis
    then have "take (List.length ?pat) (drop (2 + List.length a0) (cstr buf)) = ?pat" by simp
    from strstr_from_found [OF this, of 0] obtain j where
      j: "strstr_from (cstr buf) ?pat 0 = int j" "j \<le> 2 + List.length a0" "take (List.length ?pat) (drop j (cstr buf)) = ?pat"
      by auto
    have "j \<noteq> 0" using j(3) cs by (intro notI) simp
    moreover have "j \<noteq> 1" using j(3) cs by (intro notI) simp
    ultimately obtain k where k: "j = Suc (Suc k)" by (metis One_nat_def not0_implies_Suc)
    define a b where "a = take k (contents m)" and "b = drop k (contents m)"
    have ab: "contents m = a @ b" by (simp add: a_def b_def)
    define X where "X = drop k (a0 @ ?pat)"
    have lx: "11 \<le> List.length X" using k j(2) by (simp add: X_def)
    have "drop j (cstr buf) = X @ cstr (b0 @ drop (mb_length h1) buf)" using cs k j(2) by (simp add: X_def)
    moreover have "take 11 (drop j (cstr buf)) = ?pat" using j(3) by (simp add: eval_nat_numeral)
    ultimately have x: "take 11 X = ?pat" using lx by simp
    have "b = X @ b0" using c k j(2) by (simp add: b_def X_def)
    then have b: "take 11 b = ?pat" using x lx by simp
    have len: "mb_length h1 = Suc (Suc (mb_length m))"
      using length_contents [OF h1(1)] length_contents [OF wf] h1(2) by simp
    have "j \<le> mb_length h1" using j(2) k c length_contents [OF wf] len by simp
    moreover have "man_hdr \<noteq> []" using man_hdr_length by auto
    ultimately obtain rc2 e2 h2 where
      i2: "membuffer_insert e1 h1 (Some man_hdr) (List.length man_hdr) j = Some (rc2, e2, h2)"
        "updates_to h1 (take j (contents h1) @ man_hdr @ drop j (contents h1)) rc2 h2"
        "oom e1 = [] \<and> mb_length h1 + List.length man_hdr < alloc_max \<longrightarrow> rc2 = 0"
      using membuffer_insert_bytes [OF h1(1) _ small(2), of j e1] by blast
    have "contents h2 = ''M-'' @ a @ man_hdr @ b" if "rc2 = 0"
      using i2(2) that h1(2) k by (auto simp: updates_to_def a_def b_def)
    moreover have "oom e = [] \<Longrightarrow> oom e1 = []" using quiet_insert [OF _ i1(1)] by (auto simp: quiet_def)
    ultimately show ?thesis using i1(1) True buf j(1) i2 ab b len man_hdr_length
      by (fastforce simp: add_man_header_def updates_to_def)
  qed
qed

lemma nul_free_dec_digits [simp]: "nul_free (dec_digits n)"
proof (induction n rule: dec_digits.induct)
  case (1 n)
  have "nul_free [dec_digit d]" if "d < 10" for d
    using that by (auto simp: dec_digit_def numeral_eq_Suc less_Suc_eq)
  then show ?case using 1 by (subst dec_digits.simps) simp
qed

text \<open>The text of the request, as far as the header of the action and beyond it.\<close>

definition soap_head :: "string \<Rightarrow> string \<Rightarrow> string \<Rightarrow> string" where
  "soap_head path host body =
     ''POST '' @ path @ '' HTTP/1.1'' @ CRLF @ ''HOST: '' @ host @ CRLF @
     ''CONTENT-LENGTH: '' @ dec_digits (List.length body) @ CRLF @ ContentTypeHeader"

definition soap_tail :: "string \<Rightarrow> string \<Rightarrow> string" where
  "soap_tail info body = CRLF @ ''UID: yyccbb12345'' @ CRLF @ ''USER-AGENT: '' @ info @ CRLF @ body"

lemma soap_request_text:
  assumes "http_FixUrl u url = Inr (url', path)" and "get_sdk_info me 200 = Some info"
  shows "render me 1 1 (soap_items u url body) =
           Some (soap_head path (token_bytes u (hp_text (u_hostport url'))) body @ ''SOAPACTION:'' @ soap_tail info body)"
proof -
  have "method_to_str SOAPMETHOD_POST = Some ''POST''" by code_simp
  then show ?thesis using assms by (simp add: soap_items_def soap_head_def soap_tail_def emit_str_def Let_def show_int_def)
qed

lemma soap_head_nul_free: "nul_free path \<Longrightarrow> nul_free host \<Longrightarrow> nul_free (soap_head path host body)"
  by (simp add: soap_head_def ContentTypeHeader_def CRLF_def)

lemma token_bytes_nul_free: "nul_free u \<Longrightarrow> nul_free (token_bytes u t)"
  by (auto simp: token_bytes_def nul_free_def list_all_iff split: option.splits dest: in_set_takeD in_set_dropD)


definition soap_url :: uri_type where
  "soap_url = \<lparr>u_type = ABSOLUTE, u_scheme = \<lparr>tk_buff = Some 0, tk_size = 4\<rparr>, u_path_type = ABS_PATH,
     u_pathquery = \<lparr>tk_buff = Some 8, tk_size = 2\<rparr>, u_fragment = \<lparr>tk_buff = None, tk_size = 0\<rparr>,
     u_hostport = \<lparr>hp_text = \<lparr>tk_buff = Some 7, tk_size = 1\<rparr>, hp_family = AF_INET, hp_addr = ''h'', hp_port = 80, hp_scope = 0\<rparr>\<rparr>"


end
